(* ===== verification/Prelude.thy ===== *)
theory Prelude
  imports Main "HOL-Library.Word" "HOL-Library.Char_ord" "HOL-Library.List_Lexorder"
begin

text \<open>
  Shared material of the development: the types that stand for Rust's integer, byte and
  string types, fallible results with the early return of Rust's \<open>?\<close> operator, and the
  generic list lemmas that the component theories use.

  A Rust \<open>str\<close> or \<open>String\<close> is its UTF-8 byte sequence, a HOL \<open>string\<close>: HOL's
  \<open>char\<close> has exactly 256 values and stands for one byte. Where the source iterates over
  Unicode scalar values (\<open>chars()\<close>), the model uses code points (\<open>nat\<close>) and
  encodes them with \<open>utf8_char\<close>.
\<close>

unbundle bit_operations_syntax

type_synonym u8 = "8 word"
type_synonym u16 = "16 word"
type_synonym u32 = "32 word"
type_synonym u64 = "64 word"

section \<open>Results\<close>

text \<open>\<open>Result<T, E>\<close> is a sum with the error on the left.\<close>

type_synonym ('e, 'a) result = "'e + 'a"

abbreviation Err :: "'e \<Rightarrow> ('e, 'a) result" where "Err \<equiv> Inl"
abbreviation Ok :: "'a \<Rightarrow> ('e, 'a) result" where "Ok \<equiv> Inr"

text \<open>The \<open>?\<close> operator: stop with the error, or go on with the value.\<close>

definition and_then :: "('e, 'a) result \<Rightarrow> ('a \<Rightarrow> ('e, 'b) result) \<Rightarrow> ('e, 'b) result" where
  "and_then r f = (case r of Inl e \<Rightarrow> Inl e | Inr x \<Rightarrow> f x)"

definition ok_or :: "'a option \<Rightarrow> 'e \<Rightarrow> ('e, 'a) result" where
  "ok_or x e = (case x of None \<Rightarrow> Inl e | Some v \<Rightarrow> Inr v)"

definition is_ok :: "('e, 'a) result \<Rightarrow> bool" where
  "is_ok r = (case r of Inl _ \<Rightarrow> False | Inr _ \<Rightarrow> True)"

lemma and_then_simps [simp]:
  "and_then (Inl e) f = Inl e"
  "and_then (Inr x) f = f x"
  by (simp_all add: and_then_def)

lemma ok_or_simps [simp]:
  "ok_or None e = Inl e"
  "ok_or (Some v) e = Inr v"
  by (simp_all add: ok_or_def)

lemma is_ok_simps [simp]:
  "is_ok (Inl e) = False"
  "is_ok (Inr x) = True"
  by (simp_all add: is_ok_def)

lemma and_then_Ok_iff: "and_then r f = Inr y \<longleftrightarrow> (\<exists>x. r = Inr x \<and> f x = Inr y)"
  by (cases r) auto

lemma and_then_Err_iff:
  "and_then r f = Inl e \<longleftrightarrow> r = Inl e \<or> (\<exists>x. r = Inr x \<and> f x = Inl e)"
  by (cases r) auto

lemma ok_or_Ok_iff: "ok_or x e = Inr v \<longleftrightarrow> x = Some v"
  by (cases x) auto

lemma and_then_cong [fundef_cong]:
  "r = r' \<Longrightarrow> (\<And>x. r' = Inr x \<Longrightarrow> f x = f' x) \<Longrightarrow> and_then r f = and_then r' f'"
  by (cases r') auto

lemmas result_iffs = and_then_Ok_iff and_then_Err_iff ok_or_Ok_iff

section \<open>Lists by index\<close>

lemma drop_eq_Cons: "i < length xs \<Longrightarrow> drop i xs = xs ! i # drop (Suc i) xs"
  by (rule Cons_nth_drop_Suc [symmetric])

lemma drop_eq_Nil_ge: "length xs \<le> i \<Longrightarrow> drop i xs = []"
  by simp

text \<open>A byte slice \<open>xs[from..to]\<close>.\<close>

definition bslice :: "'a list \<Rightarrow> nat \<Rightarrow> nat \<Rightarrow> 'a list" where
  "bslice xs from to = take (to - from) (drop from xs)"

lemma length_bslice [simp]: "to \<le> length xs \<Longrightarrow> length (bslice xs from to) = to - from"
  by (simp add: bslice_def)

lemma set_bslice: "set (bslice xs from to) \<subseteq> set xs"
  unfolding bslice_def by (meson set_drop_subset set_take_subset subset_trans)

section \<open>Panics\<close>

text \<open>
  An operation that may panic returns a result whose error is \<open>Panic\<close>: an index or a slice
  out of range.
\<close>

datatype panic = Panic

definition nth_of :: "'a list \<Rightarrow> nat \<Rightarrow> (panic, 'a) result" where
  "nth_of xs i = (if i < length xs then Ok (xs ! i) else Err Panic)"

definition slice_of :: "'a list \<Rightarrow> nat \<Rightarrow> nat \<Rightarrow> (panic, 'a list) result" where
  "slice_of xs from to = (if from \<le> to \<and> to \<le> length xs then Ok (bslice xs from to) else Err Panic)"

lemma nth_of_Ok [simp]: "i < length xs \<Longrightarrow> nth_of xs i = Ok (xs ! i)"
  by (simp add: nth_of_def)

lemma slice_of_Ok [simp]: "from \<le> to \<Longrightarrow> to \<le> length xs \<Longrightarrow> slice_of xs from to = Ok (bslice xs from to)"
  by (simp add: slice_of_def)

end
