(* ===== verification/TpGlob.thy ===== *)
theory TpGlob
  imports Prelude
begin

text \<open>
  The glob matcher of \<open>tp-lexer/src/lib.rs\<close> (\<open>glob_match_bytes\<close>,
  \<open>glob_match_impl\<close>, \<open>match_class\<close>), over byte indices as the source has it, and
  its specification: a pattern denotes a list of items and an item list a language of byte
  strings. The matcher accepts exactly that language.
\<close>

section \<open>The matcher\<close>

text \<open>
  The loop of \<open>match_class\<close>: \<open>Inl\<close> is its early return, \<open>Inr\<close> the values of
  \<open>matched\<close> and \<open>pi\<close> when the loop ends.
\<close>

function class_loop ::
  "string \<Rightarrow> nat \<Rightarrow> char \<Rightarrow> bool \<Rightarrow> char option \<Rightarrow> (bool \<times> nat) + (bool \<times> nat)" where
  "class_loop p pi ch matched prev =
     (if pi < length p \<and> p ! pi \<noteq> CHR '']'' then
        (if p ! pi = CHR ''-'' \<and> prev \<noteq> None then
           (if pi + 1 \<ge> length p then Inl (False, pi + 1)
            else class_loop p (pi + 2) ch (matched \<or> (the prev \<le> ch \<and> ch \<le> p ! (pi + 1))) None)
         else class_loop p (pi + 1) ch (matched \<or> ch = p ! pi) (Some (p ! pi)))
      else Inr (matched, pi))"
  by pat_completeness auto
termination
  by (relation "measure (\<lambda>(p, pi, _). length p - pi)") auto

declare class_loop.simps [simp del]

definition match_class :: "string \<Rightarrow> nat \<Rightarrow> char \<Rightarrow> bool \<times> nat" where
  "match_class p pi ch =
     (let negated = (pi < length p \<and> (p ! pi = CHR ''^'' \<or> p ! pi = CHR ''!''));
          pi = (if negated then pi + 1 else pi)
      in case class_loop p pi ch False None of
           Inl r \<Rightarrow> r
         | Inr (matched, pi) \<Rightarrow>
             (if pi \<ge> length p \<or> p ! pi \<noteq> CHR '']'' then (False, length p)
              else (if negated then \<not> matched else matched, pi + 1)))"

text \<open>The loop that collapses consecutive stars.\<close>

function skip_stars :: "string \<Rightarrow> nat \<Rightarrow> nat" where
  "skip_stars p pi = (if pi < length p \<and> p ! pi = CHR ''*'' then skip_stars p (pi + 1) else pi)"
  by pat_completeness auto
termination
  by (relation "measure (\<lambda>(p, pi). length p - pi)") auto

declare skip_stars.simps [simp del]

lemma skip_stars_ge: "pi \<le> skip_stars p pi"
proof (induction p pi rule: skip_stars.induct)
  case (1 p pi)
  then show ?case by (auto simp: skip_stars.simps [of p pi])
qed

lemma skip_stars_gt: "pi < length p \<Longrightarrow> p ! pi = CHR ''*'' \<Longrightarrow> pi < skip_stars p pi"
  using skip_stars_ge [of "pi + 1" p] by (simp add: skip_stars.simps [of p pi])

section \<open>Character classes as lists of items\<close>

text \<open>What a class denotes: single bytes and inclusive ranges.\<close>

datatype class_item = Single char | Range char char

fun in_item :: "char \<Rightarrow> class_item \<Rightarrow> bool" where
  "in_item ch (Single c) \<longleftrightarrow> ch = c"
| "in_item ch (Range a b) \<longleftrightarrow> a \<le> ch \<and> ch \<le> b"

text \<open>
  The items between the opening bracket and the closing one, and what follows it;
  \<open>None\<close> when the class is not closed. A byte after a dash ends a range whatever it is,
  so the bracket in \<open>[a-]\<close> is the end of a range and the class stays open.
\<close>

fun class_items :: "string \<Rightarrow> char option \<Rightarrow> (class_item list \<times> string) option" where
  "class_items [] prev = None"
| "class_items (c # cs) prev =
     (if c = CHR '']'' then Some ([], cs)
      else if c = CHR ''-'' \<and> prev \<noteq> None then
        (case cs of [] \<Rightarrow> None
         | e # cs' \<Rightarrow> map_option (map_prod ((#) (Range (the prev) e)) id) (class_items cs' None))
      else map_option (map_prod ((#) (Single c)) id) (class_items cs (Some c)))"

definition class_spec :: "string \<Rightarrow> (bool \<times> class_item list \<times> string) option" where
  "class_spec s =
     (case s of
        c # cs \<Rightarrow> (if c = CHR ''^'' \<or> c = CHR ''!'' then map_option (Pair True) (class_items cs None)
                  else map_option (Pair False) (class_items s None))
      | [] \<Rightarrow> None)"

lemma class_loop_open:
  "class_items (drop pi p) prev = None \<Longrightarrow>
     (\<exists>r. class_loop p pi ch m prev = Inl (False, r)) \<or>
     (\<exists>m' pi'. class_loop p pi ch m prev = Inr (m', pi') \<and> length p \<le> pi')"
proof (induction p pi ch m prev rule: class_loop.induct)
  case (1 p pi ch m prev)
  show ?case
  proof (cases "pi < length p \<and> p ! pi \<noteq> CHR '']''")
    case True
    then have drop: "drop pi p = p ! pi # drop (Suc pi) p" by (simp add: drop_eq_Cons)
    show ?thesis
    proof (cases "p ! pi = CHR ''-'' \<and> prev \<noteq> None")
      case rng: True
      show ?thesis
      proof (cases "Suc pi < length p")
        case more: True
        then have "drop (Suc pi) p = p ! Suc pi # drop (Suc (Suc pi)) p" by (simp add: drop_eq_Cons)
        with "1.prems" True rng drop have "class_items (drop (Suc (Suc pi)) p) None = None" by simp
        with "1.IH"(1) True rng more show ?thesis
          by (simp add: class_loop.simps [of p pi] Let_def)
      qed (use True rng in \<open>simp add: class_loop.simps [of p pi] Let_def\<close>)
    next
      case single: False
      with "1.prems" True drop have "class_items (drop (Suc pi) p) (Some (p ! pi)) = None" by auto
      with "1.IH"(2) True single show ?thesis
        by (simp add: class_loop.simps [of p pi] Let_def split del: if_split) auto
    qed
  next
    case False
    with "1.prems" have "length p \<le> pi"
      by (cases "pi < length p") (auto simp: drop_eq_Cons)
    with False show ?thesis by (simp add: class_loop.simps [of p pi])
  qed
qed

lemma class_loop_closed:
  "class_items (drop pi p) prev = Some (its, r) \<Longrightarrow>
     (\<exists>pi'. class_loop p pi ch m prev = Inr (m \<or> (\<exists>it\<in>set its. in_item ch it), pi') \<and>
       pi \<le> pi' \<and> pi' < length p \<and> p ! pi' = CHR '']'' \<and> drop (Suc pi') p = r)"
proof (induction p pi ch m prev arbitrary: its rule: class_loop.induct)
  case (1 p pi ch m prev)
  have lt: "pi < length p" using "1.prems" by (cases "pi < length p") auto
  then have drop: "drop pi p = p ! pi # drop (Suc pi) p" by (simp add: drop_eq_Cons)
  consider (close) "p ! pi = CHR '']''"
    | (rng) "p ! pi = CHR ''-''" "prev \<noteq> None"
    | (single) "p ! pi \<noteq> CHR '']''" "\<not> (p ! pi = CHR ''-'' \<and> prev \<noteq> None)" by blast
  then show ?case
  proof cases
    case close
    with "1.prems" drop lt show ?thesis by (auto simp: class_loop.simps [of p pi])
  next
    case rng
    with "1.prems" drop have more: "Suc pi < length p"
      by (cases "Suc pi < length p") auto
    then have drop2: "drop (Suc pi) p = p ! Suc pi # drop (Suc (Suc pi)) p"
      by (simp add: drop_eq_Cons)
    with "1.prems" rng drop obtain its' where
      its': "class_items (drop (Suc (Suc pi)) p) None = Some (its', r)"
        "its = Range (the prev) (p ! Suc pi) # its'" by auto
    show ?thesis using "1.IH"(1) [of its'] lt rng more its'
      by (auto simp: class_loop.simps [of p pi] Let_def Suc_le_eq)
  next
    case single
    with "1.prems" drop obtain its' where
      its': "class_items (drop (Suc pi) p) (Some (p ! pi)) = Some (its', r)"
        "its = Single (p ! pi) # its'" by auto
    show ?thesis using "1.IH"(2) [of its'] lt single its'
      by (auto simp: class_loop.simps [of p pi] Let_def Suc_le_eq)
  qed
qed

text \<open>\<open>match_class\<close> decides membership in the class and moves past its bracket.\<close>

lemma match_class_open: "class_spec (drop pi p) = None \<Longrightarrow> \<not> fst (match_class p pi ch)"
proof -
  assume unclosed: "class_spec (drop pi p) = None"
  define neg where "neg = (pi < length p \<and> (p ! pi = CHR ''^'' \<or> p ! pi = CHR ''!''))"
  define pj where "pj = (if neg then pi + 1 else pi)"
  have "class_items (drop pj p) None = None"
    using unclosed by (cases "pi < length p")
      (auto simp: class_spec_def pj_def neg_def drop_eq_Cons split: if_splits)
  from class_loop_open [OF this, of ch False] show ?thesis
    by (auto simp: match_class_def Let_def simp flip: neg_def pj_def)
qed

lemma match_class_closed:
  assumes "class_spec (drop pi p) = Some (neg, its, r)"
  shows "\<exists>pi'. match_class p pi ch = ((\<exists>it\<in>set its. in_item ch it) \<noteq> neg, pi') \<and>
           pi < pi' \<and> drop pi' p = r"
proof -
  have lt: "pi < length p" using assms by (cases "pi < length p") (auto simp: class_spec_def)
  then have drop: "drop pi p = p ! pi # drop (Suc pi) p" by (simp add: drop_eq_Cons)
  have neg: "neg = (p ! pi = CHR ''^'' \<or> p ! pi = CHR ''!'')"
    using assms by (auto simp: class_spec_def drop split: if_splits)
  have items: "class_items (drop (if neg then Suc pi else pi) p) None = Some (its, r)"
    using assms by (auto simp: class_spec_def drop split: if_splits)
  from class_loop_closed [OF this, of ch False] show ?thesis
    by (auto simp: match_class_def Let_def lt neg split: if_splits)
qed

lemma match_class_gt: "match_class p pi ch = (True, pi') \<Longrightarrow> pi < pi'"
  using match_class_open [of pi p ch] match_class_closed [of pi p _ _ _ ch]
  by (cases "class_spec (drop pi p)") fastforce+

section \<open>The main loop\<close>

function glob_match_impl :: "string \<Rightarrow> nat \<Rightarrow> string \<Rightarrow> nat \<Rightarrow> bool" where
  "glob_match_impl p pi t ti =
     (if pi < length p then
        (if p ! pi = CHR ''?'' then
           (if ti \<ge> length t then False else glob_match_impl p (pi + 1) t (ti + 1))
         else if p ! pi = CHR ''*'' then
           (let pi' = skip_stars p pi in
            if pi' = length p then True
            else list_ex (\<lambda>k. glob_match_impl p pi' t k) [ti..<length t + 1])
         else if p ! pi = CHR ''['' then
           (if ti \<ge> length t then False
            else (case match_class p (pi + 1) (t ! ti) of
                    (ok, new_pi) \<Rightarrow>
                      (if \<not> ok then False else glob_match_impl p new_pi t (ti + 1))))
         else
           (if ti \<ge> length t \<or> t ! ti \<noteq> p ! pi then False
            else glob_match_impl p (pi + 1) t (ti + 1)))
      else ti = length t)"
  by pat_completeness auto
termination
proof (relation "measure (\<lambda>(p, pi, _). length p - pi)", goal_cases)
  case (3 p pi t ti pi' k)
  then show ?case using skip_stars_gt [of pi p] by auto
next
  case (4 p pi t ti ok new_pi)
  then have "match_class p (pi + 1) (t ! ti) = (True, new_pi)" by simp
  with 4 show ?case using match_class_gt by fastforce
qed auto

declare glob_match_impl.simps [simp del]

definition glob_match_bytes :: "string \<Rightarrow> string \<Rightarrow> bool" where
  "glob_match_bytes p t = glob_match_impl p 0 t 0"

section \<open>Patterns as languages\<close>

datatype glob_item = AnyByte | AnyString | Literal char | Class bool "class_item list" | Never

text \<open>The items a pattern denotes. An unclosed class denotes the item that matches nothing.\<close>

function glob_items :: "string \<Rightarrow> glob_item list" where
  "glob_items [] = []"
| "glob_items (c # cs) =
     (if c = CHR ''?'' then AnyByte # glob_items cs
      else if c = CHR ''*'' then AnyString # glob_items cs
      else if c = CHR ''['' then
        (case class_spec cs of
           None \<Rightarrow> [Never]
         | Some (neg, its, r) \<Rightarrow>
             (if length r \<le> length cs then Class neg its # glob_items r else [Never]))
      else Literal c # glob_items cs)"
  by pat_completeness auto
termination
  by (relation "measure length") auto

lemma class_items_shorter: "class_items s prev = Some (its, r) \<Longrightarrow> length r < length s"
proof (induction s prev arbitrary: its rule: class_items.induct)
  case (2 c cs prev)
  then show ?case by (cases cs) (auto split: if_splits intro: less_SucI)
qed simp

lemma class_spec_shorter: "class_spec s = Some (neg, its, r) \<Longrightarrow> length r < length s"
  using class_items_shorter [of s None its r] class_items_shorter [of "tl s" None its r]
  by (cases s) (auto simp: class_spec_def simp del: class_items.simps split: if_splits)

text \<open>The language of an item list.\<close>

fun glob_lang :: "glob_item list \<Rightarrow> string set" where
  "glob_lang [] = {[]}"
| "glob_lang (AnyByte # g) = {c # w | c w. w \<in> glob_lang g}"
| "glob_lang (AnyString # g) = {u @ w | u w. w \<in> glob_lang g}"
| "glob_lang (Literal c # g) = {c # w | w. w \<in> glob_lang g}"
| "glob_lang (Class neg its # g) =
     {c # w | c w. ((\<exists>it\<in>set its. in_item c it) \<noteq> neg) \<and> w \<in> glob_lang g}"
| "glob_lang (Never # g) = {}"

lemma glob_lang_star:
  "t \<in> glob_lang (AnyString # g) \<longleftrightarrow> (\<exists>k\<le>length t. drop k t \<in> glob_lang g)"
proof
  assume "t \<in> glob_lang (AnyString # g)"
  then obtain u w where "t = u @ w" "w \<in> glob_lang g" by auto
  then show "\<exists>k\<le>length t. drop k t \<in> glob_lang g" by (intro exI [of _ "length u"]) simp
next
  assume "\<exists>k\<le>length t. drop k t \<in> glob_lang g"
  then obtain k where "drop k t \<in> glob_lang g" by blast
  then show "t \<in> glob_lang (AnyString # g)"
    by simp (metis append_take_drop_id)
qed

lemma glob_lang_star_star: "glob_lang (AnyString # AnyString # g) = glob_lang (AnyString # g)"
  by (auto; metis append.assoc append_Nil)

lemma glob_lang_Cons_cong: "glob_lang g = glob_lang h \<Longrightarrow> glob_lang (x # g) = glob_lang (x # h)"
  by (cases x) auto

lemma skip_stars_lang:
  "pi < length p \<Longrightarrow> p ! pi = CHR ''*'' \<Longrightarrow>
     glob_lang (glob_items (drop pi p)) = glob_lang (AnyString # glob_items (drop (skip_stars p pi) p))"
proof (induction p pi rule: skip_stars.induct)
  case (1 p pi)
  then have drop: "drop pi p = CHR ''*'' # drop (Suc pi) p" by (simp add: drop_eq_Cons)
  show ?case
  proof (cases "Suc pi < length p \<and> p ! Suc pi = CHR ''*''")
    case True
    with "1" have "glob_lang (glob_items (drop (Suc pi) p)) =
        glob_lang (AnyString # glob_items (drop (skip_stars p (Suc pi)) p))" by simp
    then have "glob_lang (AnyString # glob_items (drop (Suc pi) p)) =
        glob_lang (AnyString # glob_items (drop (skip_stars p (Suc pi)) p))"
      by (metis glob_lang_Cons_cong glob_lang_star_star)
    with "1.prems" drop show ?thesis
      by (simp add: skip_stars.simps [of p pi] del: glob_lang.simps)
  next
    case False
    then have "skip_stars p (Suc pi) = Suc pi" by (subst skip_stars.simps) auto
    with "1.prems" drop show ?thesis by (simp add: skip_stars.simps [of p pi])
  qed
qed

lemma glob_match_impl_lang:
  "ti \<le> length t \<Longrightarrow> glob_match_impl p pi t ti \<longleftrightarrow> drop ti t \<in> glob_lang (glob_items (drop pi p))"
proof (induction p pi t ti rule: glob_match_impl.induct)
  case (1 p pi t ti)
  show ?case
  proof (cases "pi < length p")
    case False
    with "1.prems" show ?thesis by (auto simp: glob_match_impl.simps [of p pi])
  next
    case lt: True
    then have drop: "drop pi p = p ! pi # drop (Suc pi) p" by (simp add: drop_eq_Cons)
    have t: "drop ti t = t ! ti # drop (Suc ti) t" if "ti < length t"
      using that by (simp add: drop_eq_Cons)
    consider (any) "p ! pi = CHR ''?''" | (star) "p ! pi = CHR ''*''" | (cls) "p ! pi = CHR ''[''"
      | (lit) "p ! pi \<notin> {CHR ''?'', CHR ''*'', CHR ''[''}" by blast
    then show ?thesis
    proof cases
      case any
      with "1.IH"(1) lt drop t "1.prems" show ?thesis
        by (cases "ti < length t") (auto simp: glob_match_impl.simps [of p pi])
    next
      case star
      let ?pi' = "skip_stars p pi"
      have lang: "drop ti t \<in> glob_lang (glob_items (drop pi p)) \<longleftrightarrow>
          (\<exists>k. ti \<le> k \<and> k \<le> length t \<and> drop k t \<in> glob_lang (glob_items (drop ?pi' p)))"
      proof -
        have "drop ti t \<in> glob_lang (glob_items (drop pi p)) \<longleftrightarrow>
            (\<exists>k\<le>length t - ti. drop (k + ti) t \<in> glob_lang (glob_items (drop ?pi' p)))"
          by (simp add: skip_stars_lang [OF lt star] glob_lang_star del: glob_lang.simps)
        also have "\<dots> \<longleftrightarrow>
          (\<exists>k. ti \<le> k \<and> k \<le> length t \<and> drop k t \<in> glob_lang (glob_items (drop ?pi' p)))"
          using "1.prems" by (metis add_diff_cancel_right' le_add2 le_diff_conv2 le_diff_conv add_leD1
              diff_le_mono le_add_diff_inverse2)
        finally show ?thesis .
      qed
      show ?thesis
      proof (cases "?pi' = length p")
        case True
        with "1.prems" lt star lang show ?thesis
          by (auto simp: glob_match_impl.simps [of p pi] Let_def intro!: exI [of _ "length t"])
      next
        case False
        have "glob_match_impl p ?pi' t k \<longleftrightarrow> drop k t \<in> glob_lang (glob_items (drop ?pi' p))"
          if "ti \<le> k" "k \<le> length t" for k
          using "1.IH"(2) [OF lt _ star refl False, of k] that by (auto simp: star le_eq_less_or_eq)
        with False lt star show ?thesis unfolding lang
          by (auto simp: glob_match_impl.simps [of p pi] Let_def list_ex_iff less_Suc_eq_le simp del: upt_Suc)
      qed
    next
      case cls
      show ?thesis
      proof (cases "class_spec (drop (Suc pi) p)")
        case None
        with cls lt drop match_class_open [OF None, of "t ! ti"] show ?thesis
          by (auto simp: glob_match_impl.simps [of p pi] split: prod.splits)
      next
        case (Some c)
        then obtain neg its r where c: "class_spec (drop (Suc pi) p) = Some (neg, its, r)"
          by (cases c) auto
        from match_class_closed [OF this, of "t ! ti"] obtain pi' where
          pi': "match_class p (Suc pi) (t ! ti) = ((\<exists>it\<in>set its. in_item (t ! ti) it) \<noteq> neg, pi')"
            "drop pi' p = r" by blast
        from class_spec_shorter [OF c] have "length r \<le> length (drop (Suc pi) p)" by simp
        with "1.IH"(3) "1.prems" cls lt drop t c pi' show ?thesis
          by (cases "ti < length t") (auto simp: glob_match_impl.simps [of p pi])
      qed
    next
      case lit
      with "1.IH"(4) lt drop t "1.prems" show ?thesis
        by (cases "ti < length t") (auto simp: glob_match_impl.simps [of p pi])
    qed
  qed
qed

section \<open>Correctness\<close>

text \<open>
  C13: for every pattern and every text, the matcher accepts exactly the texts in the
  language of the pattern: a question mark stands for one byte, a star for any bytes, a
  bracketed class for one byte in (or, negated, outside) its items, any other byte for
  itself, and a pattern with an unclosed class matches nothing.
\<close>

theorem glob_match_bytes_correct:
  "glob_match_bytes p t \<longleftrightarrow> t \<in> glob_lang (glob_items p)"
  using glob_match_impl_lang [of 0 t p 0] by (simp add: glob_match_bytes_def)

end
