(* ===== verification/RustText.thy ===== *)
theory RustText
  imports Prelude
begin

text \<open>
  What the sources use of Rust's standard text functions, on UTF-8 byte strings:
  \<open>trim\<close>, \<open>char::is_whitespace\<close>, \<open>char::to_digit\<close>,
  \<open>from_str_radix\<close>/\<open>parse\<close> with their error kinds, decimal formatting, and
  \<open>String::push\<close>. The main lemma is that parsing undoes formatting.
\<close>

section \<open>Code points and whitespace\<close>

text \<open>The UTF-8 encoding of a Unicode scalar value, what \<open>String::push\<close> appends.\<close>

definition utf8_char :: "nat \<Rightarrow> string" where
  "utf8_char c =
     (if c < 128 then [char_of c]
      else if c < 2048 then [char_of (192 + c div 64), char_of (128 + c mod 64)]
      else if c < 65536 then
        [char_of (224 + c div 4096), char_of (128 + c div 64 mod 64), char_of (128 + c mod 64)]
      else
        [char_of (240 + c div 262144), char_of (128 + c div 4096 mod 64),
         char_of (128 + c div 64 mod 64), char_of (128 + c mod 64)])"

text \<open>\<open>char::is_whitespace\<close>: the code points with the Unicode property White\_Space.\<close>

definition is_whitespace :: "nat \<Rightarrow> bool" where
  "is_whitespace c \<longleftrightarrow> (9 \<le> c \<and> c \<le> 13) \<or> c = 32 \<or> c = 133 \<or> c = 160 \<or> c = 5760 \<or>
     (8192 \<le> c \<and> c \<le> 8202) \<or> c = 8232 \<or> c = 8233 \<or> c = 8239 \<or> c = 8287 \<or> c = 12288"

text \<open>The same test on integers, which the simplifier evaluates in binary.\<close>

lemma is_whitespace_code [code]:
  "is_whitespace c =
     (let i = int c in
      (9 \<le> i \<and> i \<le> 13) \<or> i = 32 \<or> i = 133 \<or> i = 160 \<or> i = 5760 \<or>
      (8192 \<le> i \<and> i \<le> 8202) \<or> i = 8232 \<or> i = 8233 \<or> i = 8239 \<or> i = 8287 \<or> i = 12288)"
  by (auto simp: is_whitespace_def)

definition whitespace_list :: "nat list" where
  "whitespace_list = [9, 10, 11, 12, 13, 32, 133, 160, 5760, 8192, 8193, 8194, 8195, 8196, 8197,
     8198, 8199, 8200, 8201, 8202, 8232, 8233, 8239, 8287, 12288]"

text \<open>\<open>u8::is_ascii_whitespace\<close>: tab, line feed, form feed, carriage return, space.\<close>

definition is_ascii_whitespace :: "char \<Rightarrow> bool" where
  "is_ascii_whitespace b \<longleftrightarrow> of_char b \<in> {9, 10, 12, 13, 32 :: nat}"

text \<open>Their encodings, evaluated once for \<open>trim\<close>.\<close>

definition whitespace_bytes :: "string list" where
  "whitespace_bytes = map utf8_char whitespace_list"

lemma whitespace_bytes_code [code]:
  "whitespace_bytes =
    [[CHR 0x09], [CHR 0x0A], [CHR 0x0B], [CHR 0x0C], [CHR 0x0D], [CHR 0x20], [CHR 0xC2, CHR
     0x85], [CHR 0xC2, CHR 0xA0], [CHR 0xE1, CHR 0x9A, CHR 0x80], [CHR 0xE2, CHR 0x80, CHR
     0x80], [CHR 0xE2, CHR 0x80, CHR 0x81], [CHR 0xE2, CHR 0x80, CHR 0x82], [CHR 0xE2, CHR
     0x80, CHR 0x83], [CHR 0xE2, CHR 0x80, CHR 0x84], [CHR 0xE2, CHR 0x80, CHR 0x85], [CHR
     0xE2, CHR 0x80, CHR 0x86], [CHR 0xE2, CHR 0x80, CHR 0x87], [CHR 0xE2, CHR 0x80, CHR 0x88],
     [CHR 0xE2, CHR 0x80, CHR 0x89], [CHR 0xE2, CHR 0x80, CHR 0x8A], [CHR 0xE2, CHR 0x80, CHR
     0xA8], [CHR 0xE2, CHR 0x80, CHR 0xA9], [CHR 0xE2, CHR 0x80, CHR 0xAF], [CHR 0xE2, CHR
     0x81, CHR 0x9F], [CHR 0xE3, CHR 0x80, CHR 0x80]]"
  by (simp add: whitespace_bytes_def whitespace_list_def utf8_char_def char_of_def bit_0 flip: drop_bit_eq_div)

text \<open>The number of bytes of the whitespace character at the start (0 if there is none).\<close>

fun ws_prefix :: "string list \<Rightarrow> string \<Rightarrow> nat" where
  "ws_prefix [] s = 0"
| "ws_prefix (w # ws) s = (if take (length w) s = w then length w else ws_prefix ws s)"

function trim_start :: "string \<Rightarrow> string" where
  "trim_start s =
     (let n = ws_prefix whitespace_bytes s in
      if n = 0 \<or> s = [] then s else trim_start (drop n s))"
  by pat_completeness auto
termination
  by (relation "measure length") auto

fun ws_suffix :: "string list \<Rightarrow> string \<Rightarrow> nat" where
  "ws_suffix [] s = 0"
| "ws_suffix (w # ws) s =
     (if length w \<le> length s \<and> drop (length s - length w) s = w then length w
      else ws_suffix ws s)"

function trim_end :: "string \<Rightarrow> string" where
  "trim_end s =
     (let n = ws_suffix whitespace_bytes s in
      if n = 0 \<or> s = [] then s else trim_end (take (length s - n) s))"
  by pat_completeness auto
termination
  by (relation "measure length") auto

declare trim_start.simps [simp del] trim_end.simps [simp del]

definition trim :: "string \<Rightarrow> string" where
  "trim s = trim_end (trim_start s)"

section \<open>Searching in strings\<close>

definition starts_with :: "string \<Rightarrow> string \<Rightarrow> bool" where
  "starts_with s p \<longleftrightarrow> take (length p) s = p"

text \<open>\<open>strip_suffix\<close> and \<open>ends_with\<close>.\<close>

definition strip_suffix :: "string \<Rightarrow> string \<Rightarrow> string option" where
  "strip_suffix s p =
     (if length p \<le> length s \<and> drop (length s - length p) s = p
      then Some (take (length s - length p) s) else None)"

definition ends_with :: "string \<Rightarrow> string \<Rightarrow> bool" where
  "ends_with s p \<longleftrightarrow> strip_suffix s p \<noteq> None"

fun contains :: "string \<Rightarrow> string \<Rightarrow> bool" where
  "contains [] p \<longleftrightarrow> p = []"
| "contains (c # cs) p \<longleftrightarrow> starts_with (c # cs) p \<or> contains cs p"

text \<open>\<open>rsplit(sep).next()\<close>: what follows the rightmost occurrence of \<open>sep\<close>.\<close>

fun rsplit_next :: "string \<Rightarrow> string \<Rightarrow> string" where
  "rsplit_next sep [] = []"
| "rsplit_next sep (c # cs) =
     (if contains cs sep then rsplit_next sep cs
      else if starts_with (c # cs) sep then drop (length sep) (c # cs)
      else c # cs)"

text \<open>\<open>split_once(c)\<close>.\<close>

definition split_once :: "char \<Rightarrow> string \<Rightarrow> (string \<times> string) option" where
  "split_once c s =
     (if c \<in> set s then Some (takeWhile (\<lambda>x. x \<noteq> c) s, drop 1 (dropWhile (\<lambda>x. x \<noteq> c) s)) else None)"

section \<open>Parsing integers\<close>

definition to_digit :: "nat \<Rightarrow> char \<Rightarrow> nat option" where
  "to_digit radix ch =
     (let c = of_char ch :: nat;
          d = (if 48 \<le> c \<and> c \<le> 57 then c - 48
               else if 97 \<le> c \<and> c \<le> 122 then c - 87
               else if 65 \<le> c \<and> c \<le> 90 then c - 55
               else radix)
      in if d < radix then Some d else None)"

datatype int_error_kind = Empty | InvalidDigit | PosOverflow | NegOverflow

text \<open>
  The digit loop of \<open>from_str_radix\<close> for a type with values \<open>lo..hi\<close>: multiply,
  read the digit, then report the overflow of the multiplication, then add or subtract.
\<close>

fun radix_loop ::
  "nat \<Rightarrow> int \<Rightarrow> int \<Rightarrow> bool \<Rightarrow> string \<Rightarrow> int \<Rightarrow> (int_error_kind, int) result" where
  "radix_loop radix lo hi positive [] acc = Ok acc"
| "radix_loop radix lo hi positive (c # cs) acc =
     (case to_digit radix c of
        None \<Rightarrow> Err InvalidDigit
      | Some d \<Rightarrow>
          (let mul = acc * int radix;
               next = (if positive then mul + int d else mul - int d)
           in if mul < lo \<or> hi < mul \<or> next < lo \<or> hi < next
              then Err (if positive then PosOverflow else NegOverflow)
              else radix_loop radix lo hi positive cs next))"

definition from_str_radix :: "nat \<Rightarrow> int \<Rightarrow> int \<Rightarrow> string \<Rightarrow> (int_error_kind, int) result" where
  "from_str_radix radix lo hi src =
     (case src of
        [] \<Rightarrow> Err Empty
      | c # cs \<Rightarrow>
          (if (c = CHR ''+'' \<or> c = CHR ''-'') \<and> cs = [] then Err InvalidDigit
           else if c = CHR ''+'' then radix_loop radix lo hi True cs 0
           else if c = CHR ''-'' \<and> lo < 0 then radix_loop radix lo hi False cs 0
           else radix_loop radix lo hi True src 0))"

abbreviation I64_MIN :: int where "I64_MIN \<equiv> - 9223372036854775808"
abbreviation I64_MAX :: int where "I64_MAX \<equiv> 9223372036854775807"
abbreviation U32_MAX :: int where "U32_MAX \<equiv> 4294967295"

definition in_i64 :: "int \<Rightarrow> bool" where
  "in_i64 v \<longleftrightarrow> I64_MIN \<le> v \<and> v \<le> I64_MAX"

definition checked_neg :: "int \<Rightarrow> int option" where
  "checked_neg v = (if v = I64_MIN then None else Some (- v))"

section \<open>Formatting integers\<close>

definition digit_char :: "nat \<Rightarrow> char" where
  "digit_char d = (if d < 10 then char_of (48 + d) else char_of (87 + d))"

function show_radix :: "nat \<Rightarrow> nat \<Rightarrow> string" where
  "show_radix r n =
     (if n < r \<or> r < 2 then [digit_char n] else show_radix r (n div r) @ [digit_char (n mod r)])"
  by pat_completeness auto
termination
  by (relation "measure snd") auto

declare show_radix.simps [simp del]

abbreviation show_nat :: "nat \<Rightarrow> string" where
  "show_nat \<equiv> show_radix 10"

section \<open>Parsing undoes formatting\<close>

lemma to_digit_digit_char:
  assumes "d < r" "r \<le> 36"
  shows "to_digit r (digit_char d) = Some d"
proof -
  have "(48 + d) mod 256 = 48 + d" if "d < 10" using that by simp
  moreover have "(87 + d) mod 256 = 87 + d" using assms by simp
  ultimately show ?thesis using assms by (auto simp: to_digit_def digit_char_def Let_def)
qed

lemma radix_loop_append:
  "radix_loop r lo hi pos (xs @ ys) acc =
     and_then (radix_loop r lo hi pos xs acc) (radix_loop r lo hi pos ys)"
  by (induction xs arbitrary: acc) (auto simp: Let_def split: option.splits)

lemma radix_loop_show:
  "2 \<le> r \<Longrightarrow> r \<le> 36 \<Longrightarrow> lo \<le> 0 \<Longrightarrow> 0 \<le> hi \<Longrightarrow> s = (if pos then 1 else - 1) \<Longrightarrow>
     lo \<le> s * int n \<Longrightarrow> s * int n \<le> hi \<Longrightarrow>
     radix_loop r lo hi pos (show_radix r n) 0 = Ok (s * int n)"
proof (induction r n rule: show_radix.induct)
  case (1 r n)
  show ?case
  proof (cases "n < r")
    case True
    with "1.prems" show ?thesis
      using to_digit_digit_char [of n r] by (auto simp: show_radix.simps [of r n])
  next
    case False
    let ?q = "n div r" and ?m = "n mod r"
    have n: "int n = int ?q * int r + int ?m"
      by (metis div_mult_mod_eq of_nat_add of_nat_mult)
    have q: "int ?q \<le> int ?q * int r" using "1.prems" by (simp add: mult_le_cancel_left1)
    have r: "\<not> r < 2" using "1.prems" by simp
    have b: "lo \<le> s * int ?q" "s * int ?q \<le> hi" "lo \<le> s * (int ?q * int r)"
      "s * (int ?q * int r) \<le> hi"
      using "1.prems"(3-7) n q by (cases pos; simp; linarith)+
    then have IH: "radix_loop r lo hi pos (show_radix r ?q) 0 = Ok (s * int ?q)"
      using "1.IH" "1.prems"(1-5) False r by simp
    have d: "to_digit r (digit_char ?m) = Some ?m"
      using to_digit_digit_char [of ?m r] "1.prems" by simp
    have step: "pos \<Longrightarrow> s * (int ?q * int r) + int ?m = s * int n"
      "\<not> pos \<Longrightarrow> s * (int ?q * int r) - int ?m = s * int n"
      using "1.prems"(5) n by simp_all
    show ?thesis
      using False r IH d b(3,4) "1.prems"(6,7)
      by (cases pos) (simp_all add: show_radix.simps [of r n] radix_loop_append Let_def mult.assoc step)
  qed
qed

lemma show_radix_nonempty: "show_radix r n \<noteq> []"
  by (subst show_radix.simps) simp

lemma digit_char_not_sign: "d < 36 \<Longrightarrow> digit_char d \<noteq> CHR ''+'' \<and> digit_char d \<noteq> CHR ''-''"
  using to_digit_digit_char [of d 36] by (auto simp: to_digit_def Let_def split: if_splits)

lemma set_show_radix: "2 \<le> r \<Longrightarrow> set (show_radix r n) \<subseteq> digit_char ` {..<r}"
proof (induction r n rule: show_radix.induct)
  case (1 r n)
  then show ?case by (subst show_radix.simps) (auto simp: subset_iff)
qed

lemma from_str_radix_show:
  assumes "2 \<le> r" "r \<le> 36" "lo \<le> 0" "int n \<le> hi"
  shows "from_str_radix r lo hi (show_radix r n) = Ok (int n)"
proof -
  obtain c cs where c: "show_radix r n = c # cs"
    using show_radix_nonempty by (cases "show_radix r n") auto
  then have "c \<in> digit_char ` {..<r}" using set_show_radix [OF assms(1), of n] by auto
  then have "c \<noteq> CHR ''+'' \<and> c \<noteq> CHR ''-''" using digit_char_not_sign assms(2) by force
  with c show ?thesis
    using radix_loop_show [of r lo hi 1 True n] assms by (simp add: from_str_radix_def)
qed

text \<open>A parsed value is in the range of its type.\<close>

lemma radix_loop_range:
  "radix_loop r lo hi pos s acc = Ok v \<Longrightarrow> lo \<le> acc \<Longrightarrow> acc \<le> hi \<Longrightarrow> lo \<le> v \<and> v \<le> hi"
  by (induction r lo hi pos s acc rule: radix_loop.induct)
    (auto simp: Let_def split: option.splits if_splits)

lemma from_str_radix_range:
  "from_str_radix r lo hi s = Ok v \<Longrightarrow> lo \<le> 0 \<Longrightarrow> 0 \<le> hi \<Longrightarrow> lo \<le> v \<and> v \<le> hi"
  by (auto simp: from_str_radix_def simp del: radix_loop.simps
      split: list.splits if_splits dest: radix_loop_range)

lemma radix_loop_nonneg:
  "radix_loop r lo hi True s acc = Ok v \<Longrightarrow> 0 \<le> acc \<Longrightarrow> 0 \<le> v"
  by (induction r lo hi True s acc rule: radix_loop.induct)
    (auto simp: Let_def split: option.splits if_splits)

lemma checked_neg_range: "in_i64 v \<Longrightarrow> checked_neg v = Some w \<Longrightarrow> in_i64 w"
  by (auto simp: in_i64_def checked_neg_def split: if_splits)

section \<open>Little-endian integers\<close>

text \<open>
  \<open>to_le_bytes\<close> and \<open>from_le_bytes\<close>. The targets of the sources (x86-64, riscv64,
  aarch64, loongarch64) are little-endian with 64-bit pointers, so \<open>from_ne_bytes\<close> is the
  same function.
\<close>

fun le_nat :: "string \<Rightarrow> nat" where
  "le_nat [] = 0"
| "le_nat (b # bs) = of_char b + 256 * le_nat bs"

fun le_bytes :: "nat \<Rightarrow> nat \<Rightarrow> string" where
  "le_bytes 0 n = []"
| "le_bytes (Suc k) n = char_of n # le_bytes k (n div 256)"

lemma length_le_bytes [simp]: "length (le_bytes k n) = k"
  by (induction k arbitrary: n) auto

lemma le_nat_le_bytes: "le_nat (le_bytes k n) = n mod 256 ^ k"
proof (induction k arbitrary: n)
  case (Suc k)
  have "n mod (256 * 256 ^ k) = 256 * (n div 256 mod 256 ^ k) + n mod 256"
    by (rule mod_mult2_eq)
  with Suc show ?case by simp
qed simp

lemma le_nat_less: "le_nat bs < 256 ^ length bs"
proof (induction bs)
  case (Cons b bs)
  have "(of_char b :: nat) < 256" by (rule nat_of_char_less_256)
  moreover have "256 * le_nat bs + 256 \<le> 256 * 256 ^ length bs" using Cons by simp
  ultimately have "of_char b + 256 * le_nat bs < 256 * 256 ^ length bs" by linarith
  then show ?case by simp
qed simp

lemma le_bytes_le_nat: "le_bytes (length bs) (le_nat bs) = bs"
proof (induction bs)
  case (Cons b bs)
  have "(of_char b + 256 * le_nat bs) div 256 = le_nat bs"
    using nat_of_char_less_256 [of b] by simp
  moreover have "char_of (of_char b + 256 * le_nat bs) = b"
    by (metis char_of_mod_256 char_of_char mod_mult_self2)
  ultimately show ?case using Cons by simp
qed simp

text \<open>\<open>as i64\<close>: the low 64 bits, read as two's complement.\<close>

definition as_i64 :: "int \<Rightarrow> int" where
  "as_i64 v = signed_take_bit 63 v"

lemma as_i64_range: "in_i64 (as_i64 v)"
  using signed_take_bit_int_less_exp [of 63 v] signed_take_bit_int_greater_eq_minus_exp [of 63 v]
  by (simp add: in_i64_def as_i64_def)

lemma as_i64_id: "in_i64 v \<Longrightarrow> as_i64 v = v"
  by (simp add: in_i64_def as_i64_def signed_take_bit_int_eq_self)

section \<open>UTF-8 validity\<close>

text \<open>\<open>str::from_utf8\<close> succeeds on these byte strings.\<close>

definition cont_byte :: "nat \<Rightarrow> bool" where
  "cont_byte b \<longleftrightarrow> 0x80 \<le> b \<and> b \<le> 0xBF"

fun utf8_valid :: "nat list \<Rightarrow> bool" where
  "utf8_valid [] = True"
| "utf8_valid (a # bs) =
     (if a < 0x80 then utf8_valid bs
      else if 0xC2 \<le> a \<and> a \<le> 0xDF then
        (case bs of b # rest \<Rightarrow> cont_byte b \<and> utf8_valid rest | _ \<Rightarrow> False)
      else if 0xE0 \<le> a \<and> a \<le> 0xEF then
        (case bs of
           b # c # rest \<Rightarrow>
             cont_byte b \<and> (a = 0xE0 \<longrightarrow> 0xA0 \<le> b) \<and> (a = 0xED \<longrightarrow> b \<le> 0x9F) \<and>
             cont_byte c \<and> utf8_valid rest
         | _ \<Rightarrow> False)
      else if 0xF0 \<le> a \<and> a \<le> 0xF4 then
        (case bs of
           b # c # d # rest \<Rightarrow>
             cont_byte b \<and> (a = 0xF0 \<longrightarrow> 0x90 \<le> b) \<and> (a = 0xF4 \<longrightarrow> b \<le> 0x8F) \<and>
             cont_byte c \<and> cont_byte d \<and> utf8_valid rest
         | _ \<Rightarrow> False)
      else False)"

definition is_utf8 :: "string \<Rightarrow> bool" where
  "is_utf8 s = utf8_valid (map of_char s)"

text \<open>\<open>from_utf8(..).unwrap_or_default()\<close>.\<close>

definition from_utf8_or_default :: "string \<Rightarrow> string" where
  "from_utf8_or_default s = (if is_utf8 s then s else [])"

end
