(* ===== verification/TpLexer.thy ===== *)
theory TpLexer
  imports RustText
begin

text \<open>
  The lexer of \<open>tp-lexer/src/lib.rs\<close>: spans, parse errors, tokens, the integer literal
  parser \<open>parse_i64_literal_text\<close> and the operations of \<open>Lexer\<close>. A lexer is its input
  and a byte position; an operation returns the lexer it leaves behind. Errors leave the parser,
  so an error result carries no lexer.
\<close>

section \<open>Tokens and errors\<close>

record span =
  span_start :: nat
  span_end :: nat

datatype token_kind =
    Ident string | IntTok int | StringTok string | Bareword string
  | AndAnd | OrOr | Amp | EqEq | NotEq | Lt | Le | Gt | Ge | Tilde | LParen | RParen | Eof

record token =
  kind :: token_kind
  tok_span :: span

text \<open>The error messages: fixed texts, and the arguments of the formatted ones.\<close>

datatype message =
    Text string
  | UnrecognizedChar char
  | ExpectedFound token_kind token_kind
  | UnknownField string
  | NotNumeric string
  | NotString string
  | UnsupportedType string
  | LengthMismatch string nat nat

record parse_error =
  pe_span :: span
  pe_message :: message

definition ParseError_new :: "nat \<Rightarrow> nat \<Rightarrow> message \<Rightarrow> parse_error" where
  "ParseError_new start stop msg =
     \<lparr>pe_span = \<lparr>span_start = start, span_end = stop\<rparr>, pe_message = msg\<rparr>"

abbreviation mk_token :: "token_kind \<Rightarrow> nat \<Rightarrow> nat \<Rightarrow> token" where
  "mk_token k s e \<equiv> \<lparr>kind = k, tok_span = \<lparr>span_start = s, span_end = e\<rparr>\<rparr>"

section \<open>Integer literals\<close>

fun strip_hex_prefix :: "string \<Rightarrow> string option" where
  "strip_hex_prefix (a # b # hex) =
     (if a = CHR ''0'' \<and> (b = CHR ''x'' \<or> b = CHR ''X'') then Some hex else None)"
| "strip_hex_prefix _ = None"

definition parse_i64_literal_text :: "string \<Rightarrow> (string, int) result" where
  "parse_i64_literal_text input =
     (case trim input of
        [] \<Rightarrow> Err ''integer value is empty''
      | b # bs \<Rightarrow>
          (let negative = (b = CHR ''-'');
               rest = (if b = CHR ''-'' \<or> b = CHR ''+'' then bs else b # bs)
           in if rest = [] then Err ''integer literal missing digits''
              else case strip_hex_prefix rest of
                Some hex \<Rightarrow>
                  (if hex = [] then Err ''hex literal missing digits''
                   else case from_str_radix 16 I64_MIN I64_MAX hex of
                     Inl err \<Rightarrow>
                       Err (if err = PosOverflow \<or> err = NegOverflow
                            then ''integer literal overflow'' else ''invalid integer literal'')
                   | Inr value \<Rightarrow>
                       (if negative then ok_or (checked_neg value) ''integer literal overflow''
                        else Ok value))
              | None \<Rightarrow>
                  (case from_str_radix 10 I64_MIN I64_MAX rest of
                     Inl err \<Rightarrow>
                       Err (if err = PosOverflow \<or> err = NegOverflow
                            then ''integer literal overflow''
                            else if err = Empty then ''integer literal missing digits''
                            else ''invalid integer literal'')
                   | Inr value \<Rightarrow>
                       (if negative then ok_or (checked_neg value) ''integer literal overflow''
                        else Ok value))))"

section \<open>The lexer\<close>

record lexer =
  lx_input :: string
  lx_pos :: nat

definition Lexer_new :: "string \<Rightarrow> lexer" where
  "Lexer_new input = \<lparr>lx_input = input, lx_pos = 0\<rparr>"

definition peek :: "lexer \<Rightarrow> char option" where
  "peek lx = (if lx_pos lx < length (lx_input lx) then Some (lx_input lx ! lx_pos lx) else None)"

definition peek2 :: "lexer \<Rightarrow> char option" where
  "peek2 lx =
     (if lx_pos lx + 1 < length (lx_input lx) then Some (lx_input lx ! (lx_pos lx + 1)) else None)"

definition advance :: "lexer \<Rightarrow> lexer" where
  "advance lx = lx\<lparr>lx_pos := lx_pos lx + 1\<rparr>"

text \<open>\<open>Lexer::bump\<close> when a byte is left: read it and step over it.\<close>

definition lx_bump :: "lexer \<Rightarrow> char option \<times> lexer" where
  "lx_bump lx = (case peek lx of Some b \<Rightarrow> (Some b, advance lx) | None \<Rightarrow> (None, lx))"

text \<open>The shape of the lexer's scanning loops: step while the next byte satisfies \<open>P\<close>.\<close>

function scan_while :: "(char \<Rightarrow> bool) \<Rightarrow> lexer \<Rightarrow> lexer" where
  "scan_while P lx =
     (case peek lx of
        Some b \<Rightarrow> (if P b then scan_while P (advance lx) else lx)
      | None \<Rightarrow> lx)"
  by pat_completeness auto
termination
  by (relation "measure (\<lambda>(P, lx). length (lx_input lx) - lx_pos lx)")
    (auto simp: peek_def advance_def split: if_splits)

declare scan_while.simps [simp del]

definition skip_ws :: "lexer \<Rightarrow> lexer" where
  "skip_ws lx = scan_while is_ascii_whitespace lx"

definition is_ascii_digit :: "char \<Rightarrow> bool" where
  "is_ascii_digit b \<longleftrightarrow> CHR ''0'' \<le> b \<and> b \<le> CHR ''9''"

definition is_ascii_alphabetic :: "char \<Rightarrow> bool" where
  "is_ascii_alphabetic b \<longleftrightarrow>
     (CHR ''a'' \<le> b \<and> b \<le> CHR ''z'') \<or> (CHR ''A'' \<le> b \<and> b \<le> CHR ''Z'')"

definition is_ascii_hexdigit :: "char \<Rightarrow> bool" where
  "is_ascii_hexdigit b \<longleftrightarrow>
     is_ascii_digit b \<or> (CHR ''a'' \<le> b \<and> b \<le> CHR ''f'') \<or> (CHR ''A'' \<le> b \<and> b \<le> CHR ''F'')"

definition is_op_char :: "char \<Rightarrow> bool" where
  "is_op_char b \<longleftrightarrow>
     b \<in> {CHR ''&'', CHR ''|'', CHR ''='', CHR ''!'', CHR ''<'', CHR ''>'', CHR ''~'',
          CHR ''('', CHR '')''}"

definition lex_number :: "lexer \<Rightarrow> nat \<Rightarrow> (parse_error, token \<times> lexer) result" where
  "lex_number lx start =
     (if peek lx = Some (CHR ''0'') \<and> (peek2 lx = Some (CHR ''x'') \<or> peek2 lx = Some (CHR ''X''))
      then
        (let lx = advance (advance lx);
             from = lx_pos lx;
             lx = scan_while is_ascii_hexdigit lx
         in if lx_pos lx = from
            then Err (ParseError_new start (lx_pos lx) (Text ''hex literal missing digits''))
            else case from_str_radix 16 I64_MIN I64_MAX (bslice (lx_input lx) from (lx_pos lx)) of
              Inl _ \<Rightarrow> Err (ParseError_new start (lx_pos lx) (Text ''hex literal overflow''))
            | Inr v \<Rightarrow> Ok (mk_token (IntTok v) start (lx_pos lx), lx))
      else
        (let from = lx_pos lx;
             lx = scan_while is_ascii_digit lx
         in case from_str_radix 10 I64_MIN I64_MAX (bslice (lx_input lx) from (lx_pos lx)) of
              Inl _ \<Rightarrow> Err (ParseError_new start (lx_pos lx) (Text ''decimal literal overflow''))
            | Inr v \<Rightarrow> Ok (mk_token (IntTok v) start (lx_pos lx), lx)))"

definition lex_ident :: "lexer \<Rightarrow> nat \<Rightarrow> token \<times> lexer" where
  "lex_ident lx start =
     (let from = lx_pos lx - 1;
          lx = scan_while (\<lambda>b. is_ascii_alphabetic b \<or> is_ascii_digit b \<or> b = CHR ''_'') lx
      in (mk_token (Ident (bslice (lx_input lx) from (lx_pos lx))) start (lx_pos lx), lx))"

text \<open>What an escaped byte stands for in a quoted string.\<close>

definition unescape :: "char \<Rightarrow> nat" where
  "unescape c = (if c = CHR ''n'' then 10 else if c = CHR ''t'' then 9 else of_char c)"

text \<open>
  A byte \<open>b\<close> outside ASCII is pushed as the character with code point \<open>b\<close>, as
  \<open>out.push(b as char)\<close> does.
\<close>

function lex_string :: "lexer \<Rightarrow> nat \<Rightarrow> char \<Rightarrow> string \<Rightarrow> (parse_error, token \<times> lexer) result" where
  "lex_string lx start quote out =
     (case peek lx of
        None \<Rightarrow> Err (ParseError_new start (lx_pos lx) (Text ''unterminated string''))
      | Some b \<Rightarrow>
          (let lx1 = advance lx in
           if b = quote then Ok (mk_token (StringTok out) start (lx_pos lx1), lx1)
           else if b = CHR 0x5C then
             (case peek lx1 of
                None \<Rightarrow> Err (ParseError_new start (lx_pos lx1) (Text ''incomplete string escape''))
              | Some c \<Rightarrow> lex_string (advance lx1) start quote (out @ utf8_char (unescape c)))
           else lex_string lx1 start quote (out @ utf8_char (of_char b))))"
  by pat_completeness auto
termination
  by (relation "measure (\<lambda>(lx, _). length (lx_input lx) - lx_pos lx)")
    (auto simp: peek_def advance_def split: if_splits)

declare lex_string.simps [simp del]

definition lex_bareword :: "lexer \<Rightarrow> nat \<Rightarrow> token \<times> lexer" where
  "lex_bareword lx start =
     (let from = lx_pos lx - 1;
          lx = scan_while (\<lambda>b. \<not> (is_ascii_whitespace b \<or> is_op_char b)) lx
      in (mk_token (Bareword (bslice (lx_input lx) from (lx_pos lx))) start (lx_pos lx), lx))"

text \<open>A two-byte operator: \<open>yes\<close> if the next byte is \<open>c\<close>, else \<open>no\<close>.\<close>

definition lex_op2 ::
  "lexer \<Rightarrow> nat \<Rightarrow> char \<Rightarrow> token_kind \<Rightarrow> (parse_error, token \<times> lexer) result \<Rightarrow>
     (parse_error, token \<times> lexer) result" where
  "lex_op2 lx start c yes no =
     (if peek lx = Some c then
        (let lx = advance lx in Ok (mk_token yes start (lx_pos lx), lx))
      else no)"

definition quoted :: "string \<Rightarrow> string" where
  "quoted s = CHR 0x27 # s @ [CHR 0x27]"

definition next_token :: "lexer \<Rightarrow> (parse_error, token \<times> lexer) result" where
  "next_token lx0 =
     (let lx = skip_ws lx0; start = lx_pos lx in
      case peek lx of
        None \<Rightarrow> Ok (mk_token Eof start start, lx)
      | Some b \<Rightarrow>
          (let lx = advance lx;
               one = (\<lambda>k. Ok (mk_token k start (lx_pos lx), lx));
               bad = (\<lambda>m. Err (ParseError_new start (lx_pos lx) (Text m)))
           in
           if b = CHR ''('' then one LParen
           else if b = CHR '')'' then one RParen
           else if b = CHR ''&'' then lex_op2 lx start (CHR ''&'') AndAnd (one Amp)
           else if b = CHR ''|'' then
             lex_op2 lx start (CHR ''|'') OrOr 
               (bad (''single '' @ quoted ''|'' @ '' is invalid; did you mean '' @ quoted ''||'' @ ''?''))
           else if b = CHR ''='' then
             lex_op2 lx start (CHR ''='') EqEq 
               (bad (''single '' @ quoted ''='' @ '' is invalid; did you mean '' @ quoted ''=='' @ ''?''))
           else if b = CHR ''!'' then
             lex_op2 lx start (CHR ''='') NotEq (bad (quoted ''!'' @ '' is only supported as '' @ quoted ''!=''))
           else if b = CHR ''<'' then lex_op2 lx start (CHR ''='') Le (one Lt)
           else if b = CHR ''>'' then lex_op2 lx start (CHR ''='') Ge (one Gt)
           else if b = CHR ''~'' then one Tilde
           else if b = CHR 0x22 \<or> b = CHR 0x27 then lex_string lx start b []
           else if is_ascii_digit b then lex_number (lx\<lparr>lx_pos := lx_pos lx - 1\<rparr>) start
           else if is_ascii_alphabetic b \<or> b = CHR ''_'' then Ok (lex_ident lx start)
           else if is_ascii_whitespace b \<or> is_op_char b then
             Err (ParseError_new start (lx_pos lx) (UnrecognizedChar b))
           else Ok (lex_bareword lx start)))"

section \<open>Scanning loops\<close>

lemma advance_simps [simp]:
  "lx_input (advance lx) = lx_input lx"
  "lx_pos (advance lx) = Suc (lx_pos lx)"
  by (simp_all add: advance_def)

lemma peek_Some_iff:
  "peek lx = Some b \<longleftrightarrow> lx_pos lx < length (lx_input lx) \<and> lx_input lx ! lx_pos lx = b"
  by (auto simp: peek_def)

lemma peek_None_iff: "peek lx = None \<longleftrightarrow> length (lx_input lx) \<le> lx_pos lx"
  by (auto simp: peek_def)

text \<open>A scanning loop stops after the longest run of bytes that satisfy its test.\<close>

lemma scan_while_eq:
  "scan_while P lx =
     lx\<lparr>lx_pos := lx_pos lx + length (takeWhile P (drop (lx_pos lx) (lx_input lx)))\<rparr>"
proof (induction P lx rule: scan_while.induct)
  case (1 P lx)
  show ?case
  proof (cases "peek lx")
    case None
    then have "length (lx_input lx) \<le> lx_pos lx" by (simp add: peek_None_iff)
    with None show ?thesis by (simp add: scan_while.simps [of P lx])
  next
    case (Some b)
    then have drop: "drop (lx_pos lx) (lx_input lx) = b # drop (Suc (lx_pos lx)) (lx_input lx)"
      by (auto simp: peek_Some_iff drop_eq_Cons)
    with Some "1" show ?thesis
      by (auto simp: scan_while.simps [of P lx] advance_def)
  qed
qed

lemma scan_while_input [simp]: "lx_input (scan_while P lx) = lx_input lx"
  by (simp add: scan_while_eq)

lemma scan_while_ge: "lx_pos lx \<le> lx_pos (scan_while P lx)"
  by (simp add: scan_while_eq)

lemma scan_while_le:
  assumes "lx_pos lx \<le> length (lx_input lx)"
  shows "lx_pos (scan_while P lx) \<le> length (lx_input lx)"
  using length_takeWhile_le [of P "drop (lx_pos lx) (lx_input lx)"] assms
  by (simp add: scan_while_eq)

text \<open>The byte where a scan stops does not satisfy its test.\<close>

lemma scan_while_stop:
  assumes "lx_pos (scan_while P lx) < length (lx_input lx)"
  shows "\<not> P (lx_input lx ! lx_pos (scan_while P lx))"
proof -
  let ?d = "drop (lx_pos lx) (lx_input lx)"
  have "length (takeWhile P ?d) < length ?d" using assms by (simp add: scan_while_eq)
  from nth_length_takeWhile [OF this] assms show ?thesis by (simp add: scan_while_eq add.commute)
qed

text \<open>Every byte a scan steps over satisfies its test.\<close>

lemma scan_while_run:
  assumes "lx_pos lx \<le> i" "i < lx_pos (scan_while P lx)"
  shows "P (lx_input lx ! i)"
proof -
  let ?d = "drop (lx_pos lx) (lx_input lx)"
  from assms have lt: "i - lx_pos lx < length (takeWhile P ?d)" by (simp add: scan_while_eq)
  then have "?d ! (i - lx_pos lx) = takeWhile P ?d ! (i - lx_pos lx)" by (simp add: takeWhile_nth)
  moreover have "P (takeWhile P ?d ! (i - lx_pos lx))" using lt nth_mem set_takeWhileD by fastforce
  moreover have "?d ! (i - lx_pos lx) = lx_input lx ! i" using assms lt length_takeWhile_le [of P ?d] by simp
  ultimately show ?thesis by simp
qed

section \<open>Tokens lie in the input and the lexer makes progress\<close>

text \<open>
  The contract of a lexing operation that started at \<open>start\<close>: the input is unchanged,
  the token starts there and ends where the lexer stands, inside the input and after \<open>start\<close>.
\<close>

definition lexed :: "string \<Rightarrow> nat \<Rightarrow> (parse_error, token \<times> lexer) result \<Rightarrow> bool" where
  "lexed inp start r =
     (case r of
        Inr (t, lx) \<Rightarrow>
          lx_input lx = inp \<and> span_start (tok_span t) = start \<and>
          span_end (tok_span t) = lx_pos lx \<and> start < lx_pos lx \<and> lx_pos lx \<le> length inp \<and>
          kind t \<noteq> Eof \<and> (\<forall>v. kind t = IntTok v \<longrightarrow> 0 \<le> v \<and> v \<le> I64_MAX)
      | Inl e \<Rightarrow>
          span_start (pe_span e) = start \<and> start < span_end (pe_span e) \<and>
          span_end (pe_span e) \<le> length inp)"

lemma lexed_Ok [simp]:
  "lexed inp start (Inr (mk_token k s e, lx)) \<longleftrightarrow>
     lx_input lx = inp \<and> s = start \<and> e = lx_pos lx \<and> start < lx_pos lx \<and>
     lx_pos lx \<le> length inp \<and> k \<noteq> Eof \<and> (\<forall>v. k = IntTok v \<longrightarrow> 0 \<le> v \<and> v \<le> I64_MAX)"
  by (auto simp: lexed_def)

lemma lexed_Err [simp]:
  "lexed inp start (Inl (ParseError_new s e m)) \<longleftrightarrow> s = start \<and> start < e \<and> e \<le> length inp"
  by (auto simp: lexed_def ParseError_new_def)

lemma lex_string_lexed:
  "lx_input lx = inp \<Longrightarrow> start < lx_pos lx \<Longrightarrow> lx_pos lx \<le> length inp \<Longrightarrow>
     lexed inp start (lex_string lx start q out)"
proof (induction lx start q out rule: lex_string.induct)
  case (1 lx start q out)
  show ?case
  proof (cases "peek lx")
    case None
    with "1.prems" show ?thesis by (simp add: lex_string.simps [of lx])
  next
    case (Some b)
    then have lt: "lx_pos lx < length inp" using "1.prems" by (simp add: peek_Some_iff)
    consider (quote) "b = q" | (esc) "b \<noteq> q" "b = CHR 0x5C" | (plain) "b \<noteq> q" "b \<noteq> CHR 0x5C" by blast
    then show ?thesis
    proof cases
      case quote
      with Some lt "1.prems" show ?thesis by (simp add: lex_string.simps [of lx])
    next
      case esc
      show ?thesis
      proof (cases "peek (advance lx)")
        case None
        with esc Some lt "1.prems" show ?thesis by (simp add: lex_string.simps [of lx])
      next
        case (Some c)
        then have "Suc (lx_pos lx) < length inp" using "1.prems" by (simp add: peek_Some_iff)
        with "1.IH"(1) Some \<open>peek lx = Some b\<close> esc "1.prems" show ?thesis
          by (simp add: lex_string.simps [of lx])
      qed
    next
      case plain
      with "1.IH"(2) Some lt "1.prems" show ?thesis by (simp add: lex_string.simps [of lx])
    qed
  qed
qed

lemma digits_parse_nonneg:
  assumes "from_str_radix r I64_MIN I64_MAX (bslice xs a b) = Ok v"
    and "\<And>i. a \<le> i \<Longrightarrow> i < b \<Longrightarrow> xs ! i \<noteq> CHR ''-''" "b \<le> length xs"
  shows "0 \<le> v \<and> v \<le> I64_MAX"
proof -
  have "bslice xs a b = [] \<or> bslice xs a b ! 0 \<noteq> CHR ''-''"
  proof (cases "a < b")
    case True
    then show ?thesis using assms(2) [of a] assms(3) by (simp add: bslice_def)
  qed (simp add: bslice_def)
  then have "\<exists>ds. radix_loop r I64_MIN I64_MAX True ds 0 = Ok v"
    using assms(1) by (auto simp: from_str_radix_def simp del: radix_loop.simps
        split: list.splits if_splits)
  then show ?thesis
    using radix_loop_nonneg [of r I64_MIN I64_MAX _ 0 v] from_str_radix_range [OF assms(1)] by auto
qed

lemma lex_number_lexed:
  assumes "lx_input lx = inp" "start = lx_pos lx" "peek lx = Some b" "is_ascii_digit b"
  shows "lexed inp start (lex_number lx start)"
proof -
  have lt: "lx_pos lx < length inp" using assms by (simp add: peek_Some_iff)
  let ?h = "scan_while is_ascii_hexdigit (advance (advance lx))"
  have h: "start + 2 \<le> lx_pos ?h" "Suc (lx_pos lx) < length inp \<Longrightarrow> lx_pos ?h \<le> length inp"
    using scan_while_ge [of "advance (advance lx)" is_ascii_hexdigit]
      scan_while_le [of "advance (advance lx)" is_ascii_hexdigit] assms lt by auto
  let ?d = "scan_while is_ascii_digit lx"
  have d: "start < lx_pos ?d" "lx_pos ?d \<le> length inp"
  proof -
    have "scan_while is_ascii_digit lx = scan_while is_ascii_digit (advance lx)"
      using assms by (simp add: scan_while.simps [of _ lx])
    then show "start < lx_pos ?d"
      using scan_while_ge [of "advance lx" is_ascii_digit] assms by simp
    show "lx_pos ?d \<le> length inp"
      using scan_while_le [of lx is_ascii_digit] assms lt by simp
  qed
  have hv: "0 \<le> v \<and> v \<le> I64_MAX"
    if "from_str_radix 16 I64_MIN I64_MAX (bslice inp (Suc (Suc (lx_pos lx))) (lx_pos ?h)) = Ok v"
      "Suc (lx_pos lx) < length inp" for v
    using that h assms scan_while_run [of "advance (advance lx)" _ is_ascii_hexdigit]
    by (intro digits_parse_nonneg) (force simp: is_ascii_hexdigit_def is_ascii_digit_def)+
  have dv: "0 \<le> v \<and> v \<le> I64_MAX"
    if "from_str_radix 10 I64_MIN I64_MAX (bslice inp (lx_pos lx) (lx_pos ?d)) = Ok v" for v
    using that d assms scan_while_run [of lx _ is_ascii_digit]
    by (intro digits_parse_nonneg) (force simp: is_ascii_digit_def)+
  show ?thesis
    using h d hv dv assms lt
    by (auto simp: lex_number_def Let_def peek2_def split: sum.splits if_splits)
qed

lemma next_token_lexed:
  assumes "lx_pos lx \<le> length (lx_input lx)" "peek (skip_ws lx) \<noteq> None"
  shows "lexed (lx_input lx) (lx_pos (skip_ws lx)) (next_token lx)"
proof -
  let ?inp = "lx_input lx" and ?ws = "skip_ws lx"
  have inp: "lx_input ?ws = ?inp" by (simp add: skip_ws_def)
  obtain b where b: "peek ?ws = Some b" using assms by blast
  then have lt: "lx_pos ?ws < length ?inp" using inp by (simp add: peek_Some_iff)
  let ?lx = "advance ?ws"
  have scan: "lx_pos ?ws < lx_pos (scan_while P ?lx)" "lx_pos (scan_while P ?lx) \<le> length ?inp" for P
    using scan_while_ge [of ?lx P] scan_while_le [of ?lx P] lt inp by auto
  have op: "lexed ?inp (lx_pos ?ws) (lex_op2 ?lx (lx_pos ?ws) c k no)"
    if "k \<noteq> Eof" "\<forall>v. k \<noteq> IntTok v" "lexed ?inp (lx_pos ?ws) no" for c k no
    using that inp lt by (auto simp: lex_op2_def Let_def peek_Some_iff)
  have str: "lexed ?inp (lx_pos ?ws) (lex_string ?lx (lx_pos ?ws) b [])"
    using lt inp by (intro lex_string_lexed) auto
  have num: "lexed ?inp (lx_pos ?ws) (lex_number (?lx\<lparr>lx_pos := lx_pos ?lx - 1\<rparr>) (lx_pos ?ws))"
    if "is_ascii_digit b"
    using that b inp by (intro lex_number_lexed [of _ _ _ b]) (auto simp: peek_def advance_def)
  have word: "lexed ?inp (lx_pos ?ws) (Inr (lex_ident ?lx (lx_pos ?ws)))"
    "lexed ?inp (lx_pos ?ws) (Inr (lex_bareword ?lx (lx_pos ?ws)))"
    using scan inp by (auto simp: lex_ident_def lex_bareword_def Let_def)
  show ?thesis
    unfolding next_token_def Let_def b option.case
    using op str num word inp lt by simp
qed

text \<open>At the end of the input the lexer returns the end token, again and again.\<close>

lemma next_token_Eof:
  assumes "peek (skip_ws lx) = None" "lx_pos lx \<le> length (lx_input lx)"
  shows "next_token lx = Ok (mk_token Eof (length (lx_input lx)) (length (lx_input lx)), skip_ws lx) \<and>
     lx_pos (skip_ws lx) = length (lx_input lx)"
proof -
  have "lx_pos (skip_ws lx) = length (lx_input lx)"
    using assms scan_while_le [of lx is_ascii_whitespace] by (simp add: skip_ws_def peek_None_iff)
  with assms(1) show ?thesis by (simp add: next_token_def Let_def)
qed

lemma skip_ws_input [simp]: "lx_input (skip_ws lx) = lx_input lx"
  by (simp add: skip_ws_def)

lemma skip_ws_ge: "lx_pos lx \<le> lx_pos (skip_ws lx)"
  by (simp add: skip_ws_def scan_while_ge)

text \<open>What the parser needs of a token: it was made by progress or is the end token.\<close>

lemma next_token_Ok:
  assumes "next_token lx = Ok (t, lx')" "lx_pos lx \<le> length (lx_input lx)"
  shows "lx_input lx' = lx_input lx" "lx_pos lx \<le> lx_pos lx'" "lx_pos lx' \<le> length (lx_input lx)"
    "kind t \<noteq> Eof \<Longrightarrow> lx_pos lx < lx_pos lx'"
    "kind t = IntTok v \<Longrightarrow> 0 \<le> v \<and> v \<le> I64_MAX"
proof -
  have "lx_input lx' = lx_input lx \<and> lx_pos lx \<le> lx_pos lx' \<and> lx_pos lx' \<le> length (lx_input lx) \<and>
    (kind t \<noteq> Eof \<longrightarrow> lx_pos lx < lx_pos lx') \<and> (\<forall>v. kind t = IntTok v \<longrightarrow> 0 \<le> v \<and> v \<le> I64_MAX)"
  proof (cases "peek (skip_ws lx)")
    case None
    from next_token_Eof [OF this assms(2)] assms show ?thesis by (auto simp: skip_ws_def)
  next
    case (Some b)
    with next_token_lexed [OF assms(2)] assms(1) skip_ws_ge [of lx] show ?thesis
      by (auto simp: lexed_def)
  qed
  then show "lx_input lx' = lx_input lx" "lx_pos lx \<le> lx_pos lx'" "lx_pos lx' \<le> length (lx_input lx)"
    "kind t \<noteq> Eof \<Longrightarrow> lx_pos lx < lx_pos lx'"
    "kind t = IntTok v \<Longrightarrow> 0 \<le> v \<and> v \<le> I64_MAX" by auto
qed

text \<open>
  C14: from any position inside the input, the lexer either returns the end token, and then only
  whitespace was left, or it returns a token whose span starts after the whitespace it
  skipped, is not empty, ends where the lexer now stands, and lies inside the input, or it
  reports an error whose span lies inside the input. An integer token is never negative and
  fits in \<open>i64\<close>.
\<close>

theorem next_token_span:
  assumes "lx_pos lx \<le> length (lx_input lx)"
  shows "case next_token lx of
      Inr (t, lx') \<Rightarrow>
        lx_input lx' = lx_input lx \<and> lx_pos lx' \<le> length (lx_input lx) \<and>
        span_end (tok_span t) = lx_pos lx' \<and> lx_pos lx \<le> span_start (tok_span t) \<and>
        (if kind t = Eof
         then lx_pos lx' = length (lx_input lx) \<and> span_start (tok_span t) = lx_pos lx' \<and>
           list_all is_ascii_whitespace (drop (lx_pos lx) (lx_input lx))
         else span_start (tok_span t) < span_end (tok_span t)) \<and>
        (\<forall>v. kind t = IntTok v \<longrightarrow> 0 \<le> v \<and> v \<le> I64_MAX)
    | Inl e \<Rightarrow>
        lx_pos lx \<le> span_start (pe_span e) \<and> span_start (pe_span e) < span_end (pe_span e) \<and>
        span_end (pe_span e) \<le> length (lx_input lx)"
proof (cases "peek (skip_ws lx)")
  case None
  have "list_all is_ascii_whitespace (drop (lx_pos lx) (lx_input lx))"
  proof (unfold list_all_length, intro allI impI)
    fix n assume "n < length (drop (lx_pos lx) (lx_input lx))"
    with next_token_Eof [OF None assms] show "is_ascii_whitespace (drop (lx_pos lx) (lx_input lx) ! n)"
      using scan_while_run [of lx "lx_pos lx + n" is_ascii_whitespace] by (simp add: skip_ws_def)
  qed
  with next_token_Eof [OF None assms] assms show ?thesis by simp
next
  case (Some b)
  with next_token_lexed [OF assms] skip_ws_ge [of lx] show ?thesis
    by (auto simp: lexed_def split: sum.splits)
qed

theorem next_token_span_witness:
  "next_token \<lparr>lx_input = ''  sig >= 0x1F'', lx_pos = 0\<rparr> =
     Ok (mk_token (Ident ''sig'') 2 5, \<lparr>lx_input = ''  sig >= 0x1F'', lx_pos = 5\<rparr>) \<and>
   (2::nat) < 5 \<and> (5::nat) \<le> 13"
proof -
  let ?L = "\<lparr>lx_input = ''  sig >= 0x1F'', lx_pos = 0\<rparr>"
  have e: "next_token ?L = Ok (mk_token (Ident ''sig'') 2 5, ?L\<lparr>lx_pos := 5\<rparr>)" by code_simp
  have "lx_pos ?L \<le> length (lx_input ?L)" by simp
  from next_token_span [OF this] e show ?thesis by simp
qed

section \<open>Slices fall on character boundaries\<close>

text \<open>
  Slicing a \<open>str\<close> panics unless both ends are character boundaries. The lexer slices the
  input from the start of a token (or from the digits after a hexadecimal prefix) to its end.
  In UTF-8 a continuation byte never follows an ASCII byte, which is all that is needed here.
\<close>

definition is_continuation :: "char \<Rightarrow> bool" where
  "is_continuation b \<longleftrightarrow> 128 \<le> (of_char b :: nat) \<and> (of_char b :: nat) < 192"

definition utf8_like :: "string \<Rightarrow> bool" where
  "utf8_like s \<longleftrightarrow>
     (\<forall>i<length s. is_continuation (s ! i) \<longrightarrow> 0 < i \<and> 128 \<le> (of_char (s ! (i - 1)) :: nat))"

definition is_char_boundary :: "string \<Rightarrow> nat \<Rightarrow> bool" where
  "is_char_boundary s i \<longleftrightarrow> i = 0 \<or> i = length s \<or> (i < length s \<and> \<not> is_continuation (s ! i))"

lemma boundary_after_ascii:
  "utf8_like s \<Longrightarrow> i < length s \<Longrightarrow> (of_char (s ! i) :: nat) < 128 \<Longrightarrow> is_char_boundary s (Suc i)"
  unfolding utf8_like_def is_char_boundary_def by (metis diff_Suc_1 linorder_not_le not_less_less_Suc_eq
      Suc_lessI)

lemma boundary_ascii:
  "i < length s \<Longrightarrow> (of_char (s ! i) :: nat) < 128 \<Longrightarrow> is_char_boundary s i"
  by (simp add: is_char_boundary_def is_continuation_def)

text \<open>A scan over ASCII bytes that takes at least one step, or none from a boundary.\<close>

lemma scan_ascii_boundary:
  assumes "utf8_like (lx_input lx)" "lx_pos lx \<le> length (lx_input lx)"
    and "is_char_boundary (lx_input lx) (lx_pos lx)" "\<And>b. P b \<Longrightarrow> (of_char b :: nat) < 128"
  shows "is_char_boundary (lx_input lx) (lx_pos (scan_while P lx))"
proof (cases "lx_pos (scan_while P lx) = lx_pos lx")
  case False
  with scan_while_ge [of lx P] obtain i where i: "lx_pos (scan_while P lx) = Suc i" "lx_pos lx \<le> i"
    by (metis less_eq_Suc_le le_neq_implies_less lessE less_imp_le_nat Suc_le_mono)
  then have "P (lx_input lx ! i)" using scan_while_run [of lx i P] by simp
  moreover have "i < length (lx_input lx)" using scan_while_le [OF assms(2), of P] i by simp
  ultimately show ?thesis using boundary_after_ascii [OF assms(1)] assms(4) i by simp
qed (use assms in simp)

definition ends_at_boundary :: "string \<Rightarrow> (parse_error, token \<times> lexer) result \<Rightarrow> bool" where
  "ends_at_boundary inp r =
     (case r of Inr (t, lx) \<Rightarrow> is_char_boundary inp (lx_pos lx) | Inl e \<Rightarrow> True)"

lemma ends_at_boundary_simps [simp]:
  "ends_at_boundary inp (Inl e)"
  "ends_at_boundary inp (Inr (t, lx)) = is_char_boundary inp (lx_pos lx)"
  by (simp_all add: ends_at_boundary_def)

lemma lex_string_boundary:
  "utf8_like (lx_input lx) \<Longrightarrow> (of_char q :: nat) < 128 \<Longrightarrow>
     ends_at_boundary (lx_input lx) (lex_string lx start q out)"
proof (induction lx start q out rule: lex_string.induct)
  case (1 lx start q out)
  have quote: "is_char_boundary (lx_input lx) (Suc (lx_pos lx))" if "peek lx = Some q"
    using that "1.prems" boundary_after_ascii by (auto simp: peek_Some_iff)
  show ?case
    by (subst lex_string.simps)
      (use "1.IH" "1.prems" quote in \<open>auto simp: Let_def split: option.split\<close>)
qed

lemma ascii_classes:
  "is_ascii_digit b \<Longrightarrow> (of_char b :: nat) < 128"
  "is_ascii_hexdigit b \<Longrightarrow> (of_char b :: nat) < 128"
  "is_ascii_alphabetic b \<Longrightarrow> (of_char b :: nat) < 128"
  "is_ascii_whitespace b \<Longrightarrow> (of_char b :: nat) < 128"
  "is_op_char b \<Longrightarrow> (of_char b :: nat) < 128"
  by (auto simp: is_ascii_digit_def is_ascii_hexdigit_def is_ascii_alphabetic_def
      is_ascii_whitespace_def is_op_char_def less_eq_char_def)

lemma lex_number_boundary:
  assumes "utf8_like (lx_input lx)" "peek lx = Some b" "is_ascii_digit b"
  shows "ends_at_boundary (lx_input lx) (lex_number lx start)"
proof -
  have lt: "lx_pos lx < length (lx_input lx)" and bd: "is_char_boundary (lx_input lx) (lx_pos lx)"
    using assms ascii_classes(1) boundary_ascii by (auto simp: peek_Some_iff)
  have d: "is_char_boundary (lx_input lx) (lx_pos (scan_while is_ascii_digit lx))"
    using scan_ascii_boundary [OF assms(1) _ bd] lt ascii_classes by simp
  have h: "is_char_boundary (lx_input lx) (lx_pos (scan_while is_ascii_hexdigit (advance (advance lx))))"
    if "peek2 lx = Some x" "x = CHR ''x'' \<or> x = CHR ''X''" for x
  proof -
    from that have lt: "Suc (lx_pos lx) < length (lx_input lx)"
      and "(of_char (lx_input lx ! Suc (lx_pos lx)) :: nat) < 128"
      by (auto simp: peek2_def split: if_splits)
    from boundary_after_ascii [OF assms(1) this] show ?thesis
      using scan_ascii_boundary [of "advance (advance lx)" is_ascii_hexdigit] assms(1) lt ascii_classes
      by simp
  qed
  show ?thesis using d h by (auto simp: lex_number_def Let_def split: sum.split)
qed

lemma bareword_boundary:
  assumes "lx_pos lx \<le> length (lx_input lx)"
  shows "is_char_boundary (lx_input lx)
     (lx_pos (scan_while (\<lambda>b. \<not> (is_ascii_whitespace b \<or> is_op_char b)) lx))" (is "is_char_boundary _ ?e")
proof (cases "?e < length (lx_input lx)")
  case True
  from scan_while_stop [OF this] ascii_classes boundary_ascii [OF True] show ?thesis by blast
next
  case False
  with scan_while_le [OF assms] have "?e = length (lx_input lx)" by (simp add: le_antisym)
  then show ?thesis by (simp add: is_char_boundary_def)
qed

lemma skip_ws_boundary:
  assumes "utf8_like (lx_input lx)" "lx_pos lx \<le> length (lx_input lx)"
    "is_char_boundary (lx_input lx) (lx_pos lx)"
  shows "is_char_boundary (lx_input lx) (lx_pos (skip_ws lx))"
  using scan_ascii_boundary [OF assms] ascii_classes(4) by (simp add: skip_ws_def)

lemma next_token_ends_at_boundary:
  assumes "utf8_like (lx_input lx)" "lx_pos lx \<le> length (lx_input lx)"
    "is_char_boundary (lx_input lx) (lx_pos lx)"
  shows "ends_at_boundary (lx_input lx) (next_token lx)"
proof (cases "peek (skip_ws lx)")
  case None
  with skip_ws_boundary [OF assms] show ?thesis by (simp add: next_token_def Let_def)
next
  case (Some b)
  let ?inp = "lx_input lx" and ?ws = "skip_ws lx"
  let ?lx = "advance ?ws"
  have lt: "lx_pos ?ws < length ?inp" and b: "?inp ! lx_pos ?ws = b" using Some by (auto simp: peek_Some_iff)
  have one: "is_char_boundary ?inp (Suc (lx_pos ?ws))" if "(of_char b :: nat) < 128"
    using boundary_after_ascii [OF assms(1) lt] b that by simp
  have op: "ends_at_boundary ?inp (lex_op2 ?lx (lx_pos ?ws) c k no)"
    if "(of_char c :: nat) < 128" "ends_at_boundary ?inp no" for c k no
    using that boundary_after_ascii [OF assms(1)] by (auto simp: lex_op2_def Let_def peek_Some_iff)
  have num: "ends_at_boundary ?inp (lex_number (?lx\<lparr>lx_pos := lx_pos ?lx - 1\<rparr>) (lx_pos ?ws))"
    if "is_ascii_digit b"
    using lex_number_boundary [of "?lx\<lparr>lx_pos := lx_pos ?lx - 1\<rparr>" b] that Some assms(1)
    by (simp add: peek_def advance_def)
  have ident: "ends_at_boundary ?inp (Inr (lex_ident ?lx (lx_pos ?ws)))"
    if "is_ascii_alphabetic b \<or> b = CHR ''_''"
    using that ascii_classes(3) [of b] one lt assms(1) ascii_classes(1,3)
    by (auto simp: lex_ident_def Let_def intro!: scan_ascii_boundary [of ?lx, simplified])
  have bare: "ends_at_boundary ?inp (Inr (lex_bareword ?lx (lx_pos ?ws)))"
    using bareword_boundary [of ?lx] lt by (simp add: lex_bareword_def Let_def)
  show ?thesis
    unfolding next_token_def Let_def Some option.case
    using op num ident bare one lex_string_boundary [of ?lx] assms(1) by simp
qed

text \<open>
  C15: on valid UTF-8 input, if the lexer stands at a character boundary then the token it
  returns starts and ends at character boundaries, so slicing its text out of the input does
  not panic, and the lexer stands at a boundary again.
\<close>

theorem next_token_char_boundary:
  assumes "utf8_like (lx_input lx)" "lx_pos lx \<le> length (lx_input lx)"
    and "is_char_boundary (lx_input lx) (lx_pos lx)" "next_token lx = Ok (t, lx')"
  shows "is_char_boundary (lx_input lx) (span_start (tok_span t)) \<and>
    is_char_boundary (lx_input lx) (span_end (tok_span t)) \<and>
    is_char_boundary (lx_input lx') (lx_pos lx')"
proof (cases "peek (skip_ws lx)")
  case None
  from next_token_Eof [OF this assms(2)] assms(4) show ?thesis
    by (auto simp: is_char_boundary_def)
next
  case (Some b)
  with next_token_lexed [OF assms(2)] assms(4) skip_ws_boundary [OF assms(1-3)]
    next_token_ends_at_boundary [OF assms(1-3)] show ?thesis
    by (auto simp: lexed_def)
qed

theorem next_token_char_boundary_witness:
  "next_token \<lparr>lx_input = [CHR 0xC3, CHR 0xA9, CHR ''=''], lx_pos = 0\<rparr> =
     Ok (mk_token (Bareword [CHR 0xC3, CHR 0xA9]) 0 2,
         \<lparr>lx_input = [CHR 0xC3, CHR 0xA9, CHR ''=''], lx_pos = 2\<rparr>) \<and>
   is_char_boundary [CHR 0xC3, CHR 0xA9, CHR ''=''] 2"
proof -
  let ?L = "\<lparr>lx_input = [CHR 0xC3, CHR 0xA9, CHR ''=''], lx_pos = 0\<rparr>"
  have e: "next_token ?L = Ok (mk_token (Bareword [CHR 0xC3, CHR 0xA9]) 0 2, ?L\<lparr>lx_pos := 2\<rparr>)"
    by code_simp
  have "utf8_like (lx_input ?L)" "lx_pos ?L \<le> length (lx_input ?L)"
    "is_char_boundary (lx_input ?L) (lx_pos ?L)"
    by code_simp+
  from next_token_char_boundary [OF this e] e show ?thesis by simp
qed

end
