(* ===== verification/TpParser.thy ===== *)
theory TpParser
  imports TpLexer
begin

text \<open>
  The recursive descent parser of \<open>tp-lexer/src/lib.rs\<close> (\<open>Expr\<close>, \<open>Parser\<close>). Its
  mutual recursion and its loops consume tokens, which the model bounds by fuel: a call without
  fuel left is the failure \<open>NoFuel\<close>. The fuel that \<open>parse_expr\<close> uses is four units per
  remaining byte, and the theory proves that the parser never runs out of it: it always returns
  an expression or a parse error.
\<close>

section \<open>Expressions\<close>

datatype num_op = NumEq | NumNe | NumLt | NumLe | NumGt | NumGe

datatype str_op = StrEq | StrNe | StrGlob

datatype expr =
    Or expr expr
  | And expr expr
  | NumCmp string span "int option" num_op int
  | StrCmp string span str_op string
  | Group expr

section \<open>The parser\<close>

record parser =
  p_lexer :: lexer
  lookahead :: token

datatype parse_failure = Fail parse_error | NoFuel

definition parse_err :: "span \<Rightarrow> message \<Rightarrow> parse_failure" where
  "parse_err sp m = Fail (ParseError_new (span_start sp) (span_end sp) m)"

definition lex :: "lexer \<Rightarrow> (parse_failure, token \<times> lexer) result" where
  "lex lx = (case next_token lx of Inl e \<Rightarrow> Err (Fail e) | Inr r \<Rightarrow> Ok r)"

definition Parser_new :: "string \<Rightarrow> (parse_failure, parser) result" where
  "Parser_new inp =
     and_then (lex (Lexer_new inp)) (\<lambda>(first, lx). Ok \<lparr>p_lexer = lx, lookahead = first\<rparr>)"

definition bump :: "parser \<Rightarrow> (parse_failure, token \<times> parser) result" where
  "bump p =
     and_then (lex (p_lexer p)) (\<lambda>(t, lx). Ok (lookahead p, \<lparr>p_lexer = lx, lookahead = t\<rparr>))"

definition expect :: "token_kind \<Rightarrow> parser \<Rightarrow> (parse_failure, token \<times> parser) result" where
  "expect k p =
     (if kind (lookahead p) = k then bump p
      else Err (parse_err (tok_span (lookahead p)) (ExpectedFound k (kind (lookahead p)))))"

definition starts_numeric_literal :: "parser \<Rightarrow> bool" where
  "starts_numeric_literal p =
     (case kind (lookahead p) of
        IntTok _ \<Rightarrow> True
      | Bareword st \<Rightarrow> st = ''-'' \<or> st = ''+'' \<or> is_ok (parse_i64_literal_text st)
      | LParen \<Rightarrow> True
      | _ \<Rightarrow> False)"

fun parse_signed_int :: "nat \<Rightarrow> parser \<Rightarrow> (parse_failure, int \<times> parser) result" where
  "parse_signed_int 0 p = Err NoFuel"
| "parse_signed_int (Suc n) p =
     (case kind (lookahead p) of
        IntTok v \<Rightarrow> and_then (bump p) (\<lambda>(_, p). Ok (v, p))
      | Bareword st \<Rightarrow>
          (let sp = tok_span (lookahead p) in
           if st = ''-'' then
             and_then (bump p) (\<lambda>(_, p).
             and_then (parse_signed_int n p) (\<lambda>(value, p).
               (case checked_neg value of
                  Some v \<Rightarrow> Ok (v, p)
                | None \<Rightarrow> Err (parse_err sp (Text ''integer literal overflow'')))))
           else if st = ''+'' then
             and_then (bump p) (\<lambda>(_, p). parse_signed_int n p)
           else
             (case parse_i64_literal_text st of
                Inr v \<Rightarrow> and_then (bump p) (\<lambda>(_, p). Ok (v, p))
              | Inl msg \<Rightarrow> Err (parse_err sp (Text msg))))
      | LParen \<Rightarrow>
          and_then (bump p) (\<lambda>(_, p).
          and_then (parse_signed_int n p) (\<lambda>(value, p).
          and_then (expect RParen p) (\<lambda>(_, p). Ok (value, p))))
      | _ \<Rightarrow> Err (parse_err (tok_span (lookahead p)) (Text ''numeric literal required'')))"

text \<open>The loop that appends trailing bareword chunks to a pattern.\<close>

fun merge_barewords :: "nat \<Rightarrow> string \<Rightarrow> parser \<Rightarrow> (parse_failure, string \<times> parser) result" where
  "merge_barewords 0 s p = Err NoFuel"
| "merge_barewords (Suc n) s p =
     (case kind (lookahead p) of
        Bareword st \<Rightarrow> and_then (bump p) (\<lambda>(_, p). merge_barewords n (s @ st) p)
      | _ \<Rightarrow> Ok (s, p))"

definition parse_pattern_literal :: "nat \<Rightarrow> parser \<Rightarrow> (parse_failure, string \<times> parser) result" where
  "parse_pattern_literal n p =
     (case kind (lookahead p) of
        StringTok st \<Rightarrow> and_then (bump p) (\<lambda>(_, p). merge_barewords n st p)
      | Bareword st \<Rightarrow> and_then (bump p) (\<lambda>(_, p). merge_barewords n st p)
      | Ident st \<Rightarrow> and_then (bump p) (\<lambda>(_, p). merge_barewords n st p)
      | _ \<Rightarrow> Err (parse_err (tok_span (lookahead p))
                  (Text ''string literal required (quotes optional)'')))"

text \<open>The numeric operator a token stands for after a mask.\<close>

fun num_op_of :: "token_kind \<Rightarrow> num_op option" where
  "num_op_of EqEq = Some NumEq"
| "num_op_of NotEq = Some NumNe"
| "num_op_of Lt = Some NumLt"
| "num_op_of Le = Some NumLe"
| "num_op_of Gt = Some NumGt"
| "num_op_of Ge = Some NumGe"
| "num_op_of _ = None"

text \<open>
  \<open>parse_field_cmp\<close> is called with an identifier as lookahead; \<open>field\<close> is its name and
  \<open>sp\<close> its span.
\<close>

definition parse_field_cmp ::
  "nat \<Rightarrow> string \<Rightarrow> parser \<Rightarrow> (parse_failure, expr \<times> parser) result" where
  "parse_field_cmp n field p0 =
     and_then (bump p0) (\<lambda>(name_tok, p).
     let sp = tok_span name_tok in
     if kind (lookahead p) = Amp then
       and_then (bump p) (\<lambda>(_, p).
       and_then (parse_signed_int n p) (\<lambda>(mask_val, p).
       and_then (bump p) (\<lambda>(op_tok, p).
         (case num_op_of (kind op_tok) of
            None \<Rightarrow> Err (parse_err (tok_span op_tok) (Text ''numeric comparison operator required''))
          | Some op \<Rightarrow>
              and_then (parse_signed_int n p) (\<lambda>(rhs, p).
                Ok (NumCmp field sp (Some mask_val) op rhs, p))))))
     else if kind (lookahead p) \<in> {Lt, Le, Gt, Ge} then
       and_then (bump p) (\<lambda>(op_tok, p).
       and_then (parse_signed_int n p) (\<lambda>(rhs, p).
         Ok (NumCmp field sp None (the (num_op_of (kind op_tok))) rhs, p)))
     else if kind (lookahead p) = Tilde then
       and_then (bump p) (\<lambda>(_, p).
       and_then (parse_pattern_literal n p) (\<lambda>(pat, p). Ok (StrCmp field sp StrGlob pat, p)))
     else if kind (lookahead p) = EqEq \<or> kind (lookahead p) = NotEq then
       and_then (bump p) (\<lambda>(op_tok, p).
         if starts_numeric_literal p then
           and_then (parse_signed_int n p) (\<lambda>(rhs, p).
             Ok (NumCmp field sp None (if kind op_tok = EqEq then NumEq else NumNe) rhs, p))
         else
           and_then (parse_pattern_literal n p) (\<lambda>(pat, p).
             Ok (StrCmp field sp (if kind op_tok = EqEq then StrEq else StrNe) pat, p)))
     else Err (parse_err (tok_span (lookahead p)) (Text ''comparison operator required'')))"

text \<open>
  The three grammar levels. \<open>or_loop\<close> and \<open>and_loop\<close> are the \<open>while\<close> loops of
  \<open>parse_or\<close> and \<open>parse_and\<close> with the expression built so far.
\<close>

fun parse_or :: "nat \<Rightarrow> parser \<Rightarrow> (parse_failure, expr \<times> parser) result"
and or_loop :: "nat \<Rightarrow> expr \<Rightarrow> parser \<Rightarrow> (parse_failure, expr \<times> parser) result"
and parse_and :: "nat \<Rightarrow> parser \<Rightarrow> (parse_failure, expr \<times> parser) result"
and and_loop :: "nat \<Rightarrow> expr \<Rightarrow> parser \<Rightarrow> (parse_failure, expr \<times> parser) result"
and parse_cmp :: "nat \<Rightarrow> parser \<Rightarrow> (parse_failure, expr \<times> parser) result" where
  "parse_or 0 p = Err NoFuel"
| "parse_or (Suc n) p = and_then (parse_and n p) (\<lambda>(left, p). or_loop n left p)"
| "or_loop 0 left p = Err NoFuel"
| "or_loop (Suc n) left p =
     (if kind (lookahead p) = OrOr then
        and_then (bump p) (\<lambda>(_, p).
        and_then (parse_and n p) (\<lambda>(right, p). or_loop n (Or left right) p))
      else Ok (left, p))"
| "parse_and 0 p = Err NoFuel"
| "parse_and (Suc n) p = and_then (parse_cmp n p) (\<lambda>(left, p). and_loop n left p)"
| "and_loop 0 left p = Err NoFuel"
| "and_loop (Suc n) left p =
     (if kind (lookahead p) = AndAnd then
        and_then (bump p) (\<lambda>(_, p).
        and_then (parse_cmp n p) (\<lambda>(right, p). and_loop n (And left right) p))
      else Ok (left, p))"
| "parse_cmp 0 p = Err NoFuel"
| "parse_cmp (Suc n) p =
     (case kind (lookahead p) of
        LParen \<Rightarrow>
          and_then (bump p) (\<lambda>(_, p).
          and_then (parse_or n p) (\<lambda>(e, p).
          and_then (expect RParen p) (\<lambda>(_, p). Ok (Group e, p))))
      | Ident field \<Rightarrow> parse_field_cmp n field p
      | _ \<Rightarrow> Err (parse_err (tok_span (lookahead p)) (Text (''expected '' @ quoted ''('' @ '' or field name''))))"

text \<open>\<open>Parser::parse\<close>: an expression and nothing after it.\<close>

definition parse_all :: "nat \<Rightarrow> parser \<Rightarrow> (parse_failure, expr) result" where
  "parse_all n p =
     and_then (parse_or n p) (\<lambda>(e, p).
       if kind (lookahead p) = Eof then Ok e
       else Err (parse_err (tok_span (lookahead p)) (Text ''extraneous input'')))"

text \<open>The first two lines of \<open>compile_with_schema\<close>, with fuel for the whole input.\<close>

definition parse_expr :: "string \<Rightarrow> (parse_failure, expr) result" where
  "parse_expr inp = and_then (Parser_new inp) (parse_all (4 * length inp + 8))"

section \<open>The parser always returns\<close>

text \<open>
  What is left to parse: the bytes behind the lexer and the lookahead token. Every token the
  parser takes makes it smaller.
\<close>

definition remaining :: "parser \<Rightarrow> nat" where
  "remaining p =
     length (lx_input (p_lexer p)) - lx_pos (p_lexer p) + (if kind (lookahead p) = Eof then 0 else 1)"

definition in_input :: "parser \<Rightarrow> bool" where
  "in_input p \<longleftrightarrow> lx_pos (p_lexer p) \<le> length (lx_input (p_lexer p))"

text \<open>A result that is not out of fuel and leaves no more to parse than \<open>p\<close> had.\<close>

definition returns_from :: "parser \<Rightarrow> (parse_failure, 'a \<times> parser) result \<Rightarrow> bool" where
  "returns_from p r =
     (case r of
        Inl f \<Rightarrow> f \<noteq> NoFuel
      | Inr (x, p') \<Rightarrow> in_input p' \<and> remaining p' \<le> remaining p)"

lemma returns_from_simps [simp]:
  "returns_from p (Inl f) \<longleftrightarrow> f \<noteq> NoFuel"
  "returns_from p (Inr (x, p')) \<longleftrightarrow> in_input p' \<and> remaining p' \<le> remaining p"
  by (simp_all add: returns_from_def)

lemma parse_err_not_NoFuel [simp]: "parse_err sp m \<noteq> NoFuel"
  by (simp add: parse_err_def)

lemma returns_and_then:
  assumes "returns_from p r"
    and "\<And>x p'. r = Inr (x, p') \<Longrightarrow> in_input p' \<Longrightarrow> remaining p' \<le> remaining p \<Longrightarrow> returns_from p (f (x, p'))"
  shows "returns_from p (and_then r f)"
  using assms by (cases r) auto

lemma returns_weaken: "returns_from p' r \<Longrightarrow> remaining p' \<le> remaining p \<Longrightarrow> returns_from p r"
  by (auto simp: returns_from_def split: sum.splits)

lemma returns_sub:
  assumes "returns_from p' r" "remaining p' \<le> remaining p"
    and "\<And>x q. in_input q \<Longrightarrow> remaining q \<le> remaining p' \<Longrightarrow> returns_from p (f (x, q))"
  shows "returns_from p (and_then r f)"
  using assms by (cases r) auto

lemma bump_Ok:
  assumes "bump p = Ok (t, p')" "in_input p"
  shows "t = lookahead p" "in_input p'" "remaining p' \<le> remaining p"
    "kind (lookahead p) \<noteq> Eof \<Longrightarrow> remaining p' < remaining p"
proof -
  obtain t' lx where n: "next_token (p_lexer p) = Ok (t', lx)" and p': "p' = \<lparr>p_lexer = lx, lookahead = t'\<rparr>"
    and t: "t = lookahead p"
    using assms(1) by (auto simp: bump_def lex_def and_then_Ok_iff split: sum.splits)
  note ok = next_token_Ok [OF n] assms(2)
  show "t = lookahead p" by (fact t)
  show "in_input p'" using ok by (simp add: in_input_def p')
  show "remaining p' \<le> remaining p"
    using ok by (cases "kind t' = Eof") (auto simp: remaining_def in_input_def p')
  show "remaining p' < remaining p" if "kind (lookahead p) \<noteq> Eof"
    using ok that by (cases "kind t' = Eof") (auto simp: remaining_def in_input_def p')
qed

lemma returns_bump: "in_input p \<Longrightarrow> returns_from p (bump p)"
  using bump_Ok [of p]
  by (auto simp: returns_from_def split: sum.split)
    (auto simp: bump_def lex_def and_then_Err_iff split: sum.splits)

text \<open>Taking a token that is not the end and going on from there.\<close>

lemma returns_bump_then:
  assumes "in_input p" "kind (lookahead p) \<noteq> Eof"
    and "\<And>t p'. in_input p' \<Longrightarrow> remaining p' < remaining p \<Longrightarrow> returns_from p (f (t, p'))"
  shows "returns_from p (and_then (bump p) f)"
  by (rule returns_and_then [OF returns_bump]) (use assms bump_Ok in auto)

lemma returns_expect: "in_input p \<Longrightarrow> returns_from p (expect k p)"
  by (simp add: expect_def returns_bump)

lemma returns_signed_int:
  "in_input p \<Longrightarrow> remaining p < n \<Longrightarrow> returns_from p (parse_signed_int n p)"
proof (induction n arbitrary: p)
  case (Suc n)
  have rest: "returns_from p (and_then (parse_signed_int n p') f)"
    if "in_input p'" "remaining p' < remaining p"
      "\<And>v q. in_input q \<Longrightarrow> remaining q \<le> remaining p \<Longrightarrow> returns_from p (f (v, q))" for p' f
    using Suc.prems that by (intro returns_sub [OF Suc.IH]) auto
  have plain: "returns_from p (parse_signed_int n p')"
    if "in_input p'" "remaining p' < remaining p" for p'
    using Suc.prems that by (intro returns_weaken [OF Suc.IH]) auto
  have close: "returns_from p (and_then (expect RParen q) (\<lambda>(_, q'). Ok (v, q')))"
    if "in_input q" "remaining q \<le> remaining p" for q and v :: int
    using that by (intro returns_and_then [OF returns_weaken [OF returns_expect]]) auto
  have first: "returns_from p (and_then (bump p) f)"
    if "kind (lookahead p) \<noteq> Eof"
      "\<And>t q. in_input q \<Longrightarrow> remaining q < remaining p \<Longrightarrow> returns_from p (f (t, q))" for f :: "_ \<Rightarrow> (_, int \<times> _) result"
    using that Suc.prems by (intro returns_bump_then) auto
  show ?case
  proof (cases "kind (lookahead p)")
    case (IntTok v)
    then show ?thesis by (auto intro!: first)
  next
    case (Bareword st)
    then show ?thesis
      by (auto simp: Let_def intro!: first rest plain split: sum.split option.split)
  next
    case LParen
    then show ?thesis by (auto intro!: first rest close)
  qed simp_all
qed simp

lemma returns_merge_barewords:
  "in_input p \<Longrightarrow> remaining p < n \<Longrightarrow> returns_from p (merge_barewords n s p)"
proof (induction n arbitrary: s p)
  case (Suc n)
  then show ?case
    by (auto intro!: returns_bump_then intro: returns_weaken [OF Suc.IH] split: token_kind.split)
qed simp

lemma returns_pattern_literal:
  assumes "in_input p" "remaining p < n"
  shows "returns_from p (parse_pattern_literal n p)"
proof -
  have "returns_from p (merge_barewords n st p')" if "in_input p'" "remaining p' < remaining p" for st p'
    using that assms by (intro returns_weaken [OF returns_merge_barewords]) auto
  then show ?thesis
    using assms by (auto simp: parse_pattern_literal_def intro!: returns_bump_then split: token_kind.split)
qed

lemma returns_field_cmp:
  assumes "in_input p" "remaining p < n" "kind (lookahead p) = Ident field"
  shows "returns_from p (parse_field_cmp n field p)"
proof -
  have int: "returns_from p (and_then (parse_signed_int n p') f)"
    if "in_input p'" "remaining p' < remaining p"
      "\<And>v q. in_input q \<Longrightarrow> remaining q < remaining p \<Longrightarrow> returns_from p (f (v, q))" for p' f
  proof -
    have "returns_from p' (parse_signed_int n p')" using that assms by (intro returns_signed_int) auto
    with that show ?thesis by (cases "parse_signed_int n p'") auto
  qed
  have pat: "returns_from p (and_then (parse_pattern_literal n p') f)"
    if "in_input p'" "remaining p' < remaining p"
      "\<And>v q. in_input q \<Longrightarrow> remaining q < remaining p \<Longrightarrow> returns_from p (f (v, q))" for p' f
  proof -
    have "returns_from p' (parse_pattern_literal n p')"
      using that assms by (intro returns_pattern_literal) auto
    with that show ?thesis by (cases "parse_pattern_literal n p'") auto
  qed
  have step: "returns_from p (and_then (bump p') f)"
    if "in_input p'" "remaining p' < remaining p"
      "\<And>t q. in_input q \<Longrightarrow> remaining q < remaining p \<Longrightarrow> returns_from p (f (t, q))" for p' f
    using that returns_bump [of p'] by (cases "bump p'") auto
  have first: "returns_from p (and_then (bump p) f)"
    if "\<And>t q. in_input q \<Longrightarrow> remaining q < remaining p \<Longrightarrow> returns_from p (f (t, q))" for f
    using that assms by (intro returns_bump_then) auto
  show ?thesis
    unfolding parse_field_cmp_def
    by (rule first) (auto simp: Let_def intro!: step int pat split: option.split)
qed

text \<open>Fuel \<open>4 * remaining p + k\<close> is enough, with a \<open>k\<close> for each level of the grammar.\<close>

lemma returns_levels:
  "in_input p \<Longrightarrow> 4 * remaining p + 3 \<le> n \<Longrightarrow> returns_from p (parse_or n p)"
  "in_input p \<Longrightarrow> 4 * remaining p + 1 \<le> n \<Longrightarrow> returns_from p (or_loop n l p)"
  "in_input p \<Longrightarrow> 4 * remaining p + 2 \<le> n \<Longrightarrow> returns_from p (parse_and n p)"
  "in_input p \<Longrightarrow> 4 * remaining p + 1 \<le> n \<Longrightarrow> returns_from p (and_loop n l p)"
  "in_input p \<Longrightarrow> 4 * remaining p + 1 \<le> n \<Longrightarrow> returns_from p (parse_cmp n p)"
proof (induction n arbitrary: p l)
  case (Suc n)
  {
    case 1
    have "returns_from p (or_loop n l q)" if "in_input q" "remaining q \<le> remaining p" for l q
      using "1" that by (intro returns_weaken [OF Suc.IH(2)]) auto
    with "1" Suc.IH(3) show ?case by (auto intro!: returns_and_then)
  next
    case 2
    have "returns_from p (and_then (parse_and n p') (\<lambda>(right, p). or_loop n (Or l right) p))"
      if p': "in_input p'" "remaining p' < remaining p" for p'
      using "2" p' by (intro returns_sub [OF Suc.IH(3)]) (auto intro!: returns_weaken [OF Suc.IH(2)])
    with "2" show ?case by (auto intro!: returns_bump_then)
  next
    case 3
    have "returns_from p (and_loop n l q)" if "in_input q" "remaining q \<le> remaining p" for l q
      using "3" that by (intro returns_weaken [OF Suc.IH(4)]) auto
    with "3" Suc.IH(5) show ?case by (auto intro!: returns_and_then)
  next
    case 4
    have "returns_from p (and_then (parse_cmp n p') (\<lambda>(right, p). and_loop n (And l right) p))"
      if p': "in_input p'" "remaining p' < remaining p" for p'
      using "4" p' by (intro returns_sub [OF Suc.IH(5)]) (auto intro!: returns_weaken [OF Suc.IH(4)])
    with "4" show ?case by (auto intro!: returns_bump_then)
  next
    case 5
    have "returns_from p (and_then (parse_or n p') (\<lambda>(e, p).
        and_then (expect RParen p) (\<lambda>(_, p). Ok (Group e, p))))"
      if p': "in_input p'" "remaining p' < remaining p" for p'
      using "5" p'
      by (intro returns_sub [OF Suc.IH(1)]) (auto intro!: returns_sub [OF returns_expect])
    moreover have "remaining p < n" if "kind (lookahead p) \<noteq> Eof"
      using "5" that by (simp add: remaining_def)
    ultimately show ?case
      using "5" by (auto intro!: returns_bump_then returns_field_cmp split: token_kind.split)
  }
qed simp_all

lemma Parser_new_Ok:
  assumes "Parser_new inp = Ok p"
  shows "in_input p" "remaining p \<le> length inp + 1"
proof -
  obtain t lx where n: "next_token (Lexer_new inp) = Ok (t, lx)" and p: "p = \<lparr>p_lexer = lx, lookahead = t\<rparr>"
    using assms by (auto simp: Parser_new_def lex_def and_then_Ok_iff split: sum.splits)
  show "in_input p" "remaining p \<le> length inp + 1"
    using next_token_Ok [OF n] by (auto simp: in_input_def remaining_def p Lexer_new_def)
qed

text \<open>
  C16: parsing terminates on every input string: the parser returns an expression or a parse
  error, and never exhausts the fuel the model gives it.
\<close>

theorem parse_expr_returns:
  "(\<exists>e. parse_expr inp = Ok e) \<or> (\<exists>err. parse_expr inp = Err (Fail err))"
proof (cases "Parser_new inp")
  case (Inl f)
  then have "f \<noteq> NoFuel"
    by (auto simp: Parser_new_def lex_def and_then_Err_iff split: sum.splits)
  with Inl show ?thesis by (cases f) (auto simp: parse_expr_def)
next
  case (Inr p)
  note ok = Parser_new_Ok [OF Inr]
  then have "returns_from p (parse_or (4 * length inp + 8) p)"
    by (intro returns_levels) auto
  then have "parse_expr inp \<noteq> Inl NoFuel"
    using Inr by (auto simp: parse_expr_def parse_all_def and_then_Err_iff split: if_splits)
  then show ?thesis by (cases "parse_expr inp"; cases "projl (parse_expr inp)") auto
qed

section \<open>The shape of parsed expressions\<close>

text \<open>
  Level 2 is a chain of \<open>||\<close>, level 1 a chain of \<open>&&\<close>, level 0 a comparison or a group;
  both chains lean to the left.
\<close>

fun at_level :: "nat \<Rightarrow> expr \<Rightarrow> bool" where
  "at_level n (Or l r) \<longleftrightarrow> 2 \<le> n \<and> at_level 2 l \<and> at_level 1 r"
| "at_level n (And l r) \<longleftrightarrow> 1 \<le> n \<and> at_level 1 l \<and> at_level 0 r"
| "at_level n (Group e) \<longleftrightarrow> at_level 2 e"
| "at_level n _ \<longleftrightarrow> True"

fun literals_in_i64 :: "expr \<Rightarrow> bool" where
  "literals_in_i64 (Or l r) \<longleftrightarrow> literals_in_i64 l \<and> literals_in_i64 r"
| "literals_in_i64 (And l r) \<longleftrightarrow> literals_in_i64 l \<and> literals_in_i64 r"
| "literals_in_i64 (Group e) \<longleftrightarrow> literals_in_i64 e"
| "literals_in_i64 (NumCmp f sp msk op rhs) \<longleftrightarrow>
     (case msk of None \<Rightarrow> True | Some m \<Rightarrow> in_i64 m) \<and> in_i64 rhs"
| "literals_in_i64 (StrCmp f sp op pat) \<longleftrightarrow> True"

lemma at_level_mono: "at_level m e \<Longrightarrow> m \<le> n \<Longrightarrow> at_level n e"
  by (cases e) auto

lemma parse_i64_literal_text_range: "parse_i64_literal_text s = Ok v \<Longrightarrow> in_i64 v"
  by (auto simp: parse_i64_literal_text_def Let_def ok_or_Ok_iff in_i64_def
      split: list.splits if_splits option.splits sum.splits
      dest: from_str_radix_range checked_neg_range [unfolded in_i64_def])
    (auto dest!: from_str_radix_range checked_neg_range [unfolded in_i64_def, rotated])

text \<open>The lookahead is a token the lexer made.\<close>

definition parser_ok :: "parser \<Rightarrow> bool" where
  "parser_ok p \<longleftrightarrow> in_input p \<and> (\<forall>v. kind (lookahead p) = IntTok v \<longrightarrow> in_i64 v)"

definition yields :: "('a \<Rightarrow> bool) \<Rightarrow> (parse_failure, 'a \<times> parser) result \<Rightarrow> bool" where
  "yields P r = (case r of Inl _ \<Rightarrow> True | Inr (x, p) \<Rightarrow> parser_ok p \<and> P x)"

lemma yields_simps [simp]:
  "yields P (Inl f)"
  "yields P (Inr (x, p)) \<longleftrightarrow> parser_ok p \<and> P x"
  by (simp_all add: yields_def)

lemma yields_and_then:
  assumes "yields Q r" "\<And>x p. parser_ok p \<Longrightarrow> Q x \<Longrightarrow> yields P (f (x, p))"
  shows "yields P (and_then r f)"
  using assms by (cases r) auto

lemma yields_bump:
  assumes "parser_ok p"
  shows "yields (\<lambda>t. t = lookahead p) (bump p)"
proof (cases "next_token (p_lexer p)")
  case (Inr r)
  obtain t lx where r: "r = (t, lx)" by (cases r)
  from next_token_Ok [OF Inr [unfolded r]] assms Inr r show ?thesis
    by (auto simp: bump_def lex_def parser_ok_def in_input_def in_i64_def)
qed (simp add: bump_def lex_def)

lemma yields_neg:
  "in_i64 v \<Longrightarrow> parser_ok p \<Longrightarrow>
     yields in_i64 (case checked_neg v of Some w \<Rightarrow> Ok (w, p) | None \<Rightarrow> Err err)"
  by (auto split: option.split dest: checked_neg_range)

lemma yields_expect: "parser_ok p \<Longrightarrow> yields (\<lambda>t. True) (expect k p)"
  using yields_bump [of p] by (auto simp: expect_def yields_def split: sum.splits)

lemma yields_signed_int: "parser_ok p \<Longrightarrow> yields in_i64 (parse_signed_int n p)"
proof (induction n arbitrary: p)
  case (Suc n)
  note steps = yields_and_then [OF yields_bump [OF Suc.prems]] yields_and_then [OF Suc.IH]
    yields_and_then [OF yields_expect]
  show ?case
  proof (cases "kind (lookahead p)")
    case (IntTok v)
    with Suc.prems show ?thesis by (auto intro!: steps simp: parser_ok_def)
  next
    case (Bareword st)
    then show ?thesis
      by (auto simp: Let_def intro!: steps Suc.IH yields_neg split: sum.split
          dest: parse_i64_literal_text_range)
  next
    case LParen
    then show ?thesis by (auto intro!: steps)
  qed simp_all
qed simp

lemma yields_merge_barewords: "parser_ok p \<Longrightarrow> yields (\<lambda>s. True) (merge_barewords n s p)"
  by (induction n arbitrary: s p)
    (auto intro!: yields_and_then [OF yields_bump] split: token_kind.split)

lemma yields_pattern_literal: "parser_ok p \<Longrightarrow> yields (\<lambda>s. True) (parse_pattern_literal n p)"
  by (auto simp: parse_pattern_literal_def split: token_kind.split
      intro!: yields_and_then [OF yields_bump] yields_merge_barewords)

lemma yields_field_cmp:
  "parser_ok p \<Longrightarrow> yields (\<lambda>e. at_level 0 e \<and> literals_in_i64 e) (parse_field_cmp n field p)"
  unfolding parse_field_cmp_def
  by (rule yields_and_then [OF yields_bump], assumption)
    (auto simp: Let_def split: option.split
      intro!: yields_and_then [OF yields_bump] yields_and_then [OF yields_signed_int]
        yields_and_then [OF yields_pattern_literal])

lemma yields_levels:
  "parser_ok p \<Longrightarrow> yields (\<lambda>e. at_level 2 e \<and> literals_in_i64 e) (parse_or n p)"
  "parser_ok p \<Longrightarrow> at_level 2 l \<Longrightarrow> literals_in_i64 l \<Longrightarrow>
     yields (\<lambda>e. at_level 2 e \<and> literals_in_i64 e) (or_loop n l p)"
  "parser_ok p \<Longrightarrow> yields (\<lambda>e. at_level 1 e \<and> literals_in_i64 e) (parse_and n p)"
  "parser_ok p \<Longrightarrow> at_level 1 l \<Longrightarrow> literals_in_i64 l \<Longrightarrow>
     yields (\<lambda>e. at_level 1 e \<and> literals_in_i64 e) (and_loop n l p)"
  "parser_ok p \<Longrightarrow> yields (\<lambda>e. at_level 0 e \<and> literals_in_i64 e) (parse_cmp n p)"
proof (induction n arbitrary: p l)
  case (Suc n)
  note steps = yields_and_then [OF yields_bump] yields_and_then [OF Suc.IH(1)]
    yields_and_then [OF Suc.IH(3)] yields_and_then [OF Suc.IH(5)] yields_and_then [OF yields_expect]
    Suc.IH(2) Suc.IH(4) yields_field_cmp
  {
    case 1 then show ?case by (auto intro!: steps intro: at_level_mono simp del: One_nat_def)
  next
    case 2 then show ?case by (auto intro!: steps)
  next
    case 3 then show ?case by (auto intro!: steps intro: at_level_mono simp del: One_nat_def)
  next
    case 4 then show ?case by (auto intro!: steps simp del: One_nat_def)
  next
    case 5 then show ?case by (auto intro!: steps split: token_kind.split)
  }
qed simp_all

text \<open>
  C17: in a parsed expression \<open>&&\<close> binds tighter than \<open>||\<close>, both associate to the left,
  another nesting appears only inside a group, and every mask and literal fits in \<open>i64\<close>.
\<close>

theorem parse_expr_shape:
  assumes "parse_expr inp = Ok e"
  shows "at_level 2 e \<and> literals_in_i64 e"
proof -
  obtain p where p: "Parser_new inp = Ok p" and e: "parse_all (4 * length inp + 8) p = Ok e"
    using assms by (auto simp: parse_expr_def and_then_Ok_iff)
  obtain t lx where n: "next_token (Lexer_new inp) = Ok (t, lx)" and "p = \<lparr>p_lexer = lx, lookahead = t\<rparr>"
    using p by (auto simp: Parser_new_def lex_def and_then_Ok_iff split: sum.splits)
  then have "parser_ok p"
    using Parser_new_Ok(1) [OF p] next_token_Ok(5) [OF n]
    by (auto simp: parser_ok_def in_i64_def Lexer_new_def)
  from yields_levels(1) [OF this, of "4 * length inp + 8"] e show ?thesis
    by (auto simp: parse_all_def and_then_Ok_iff split: if_splits)
qed

theorem parse_expr_shape_witness:
  "\<exists>e. parse_expr ''a == 1 || b < 2 && c == x'' = Ok e \<and> at_level 2 e \<and> literals_in_i64 e"
proof -
  have "\<exists>e. parse_expr ''a == 1 || b < 2 && c == x'' = Ok e"
    by (rule exI [of _ "Or (NumCmp ''a'' \<lparr>span_start = 0, span_end = 1\<rparr> None NumEq 1)
      (And (NumCmp ''b'' \<lparr>span_start = 10, span_end = 11\<rparr> None NumLt 2)
           (StrCmp ''c'' \<lparr>span_start = 19, span_end = 20\<rparr> StrEq ''x''))"]) code_simp
  then show ?thesis using parse_expr_shape by blast
qed

end
