(* ===== verification/TpField.thy ===== *)
theory TpField
  imports RustText
begin

text \<open>
  The typed fields of an event record: the integer readers of \<open>tp-lexer/src/internal.rs\<close>
  (\<open>IntegerToI64\<close>, the \<open>FieldClassifier\<close> instances) and the schema of
  \<open>tp-lexer/src/lib.rs\<close> (\<open>ToI64\<close>, \<open>FieldType\<close>, \<open>Schema\<close>,
  \<open>to_str_bytes\<close>). Offsets and lengths are compile-time layout constants; they are
  \<open>nat\<close>.
\<close>

section \<open>Reading integers out of a buffer\<close>

datatype int_width = W8 | W16 | W32 | W64 | W128 | WSize

text \<open>The types \<open>T\<close> that \<open>IntegerToI64<T>\<close> tells apart; \<open>OtherTy n\<close> is any other type of size \<open>n\<close>.\<close>

datatype int_ty =
    SInt int_width | UInt int_width | BoolTy | CharTy
  | NonZeroI int_width | NonZeroU int_width | OtherTy nat

fun width_bytes :: "int_width \<Rightarrow> nat" where
  "width_bytes W8 = 1"
| "width_bytes W16 = 2"
| "width_bytes W32 = 4"
| "width_bytes W64 = 8"
| "width_bytes W128 = 16"
| "width_bytes WSize = 8"

fun size_of :: "int_ty \<Rightarrow> nat" where
  "size_of (SInt w) = width_bytes w"
| "size_of (UInt w) = width_bytes w"
| "size_of BoolTy = 1"
| "size_of CharTy = 4"
| "size_of (NonZeroI w) = width_bytes w"
| "size_of (NonZeroU w) = width_bytes w"
| "size_of (OtherTy n) = n"

fun width_name :: "int_width \<Rightarrow> string" where
  "width_name W8 = ''8''"
| "width_name W16 = ''16''"
| "width_name W32 = ''32''"
| "width_name W64 = ''64''"
| "width_name W128 = ''128''"
| "width_name WSize = ''size''"

text \<open>\<open>iN::from_ne_bytes(..) as i64\<close> and \<open>uN::from_ne_bytes(..) as i64\<close>.\<close>

definition read_signed :: "string \<Rightarrow> int" where
  "read_signed bs = as_i64 (signed_take_bit (8 * length bs - 1) (int (le_nat bs)))"

definition read_unsigned :: "string \<Rightarrow> int" where
  "read_unsigned bs = as_i64 (int (le_nat bs))"

text \<open>\<open>char::from_u32\<close>: a Unicode scalar value.\<close>

definition is_scalar_value :: "nat \<Rightarrow> bool" where
  "is_scalar_value n \<longleftrightarrow> n < 0xD800 \<or> 0xDFFF < n \<and> n \<le> 0x10FFFF"

definition non_zero :: "string \<Rightarrow> int \<Rightarrow> (string, int) result" where
  "non_zero name v = (if v = 0 then Err (name @ '' cannot be zero'') else Ok v)"

text \<open>The branches on the type, on the bytes of the value.\<close>

definition decode_int :: "int_ty \<Rightarrow> string \<Rightarrow> (string, int) result" where
  "decode_int ty bs =
     (case ty of
        SInt w \<Rightarrow> Ok (read_signed bs)
      | UInt w \<Rightarrow> Ok (read_unsigned bs)
      | BoolTy \<Rightarrow> Ok (if bs ! 0 = CHR 0x00 then 0 else 1)
      | CharTy \<Rightarrow> if is_scalar_value (le_nat bs) then Ok (int (le_nat bs)) else Err ''invalid char bytes''
      | NonZeroI w \<Rightarrow> non_zero (''NonZeroI'' @ width_name w) (read_signed bs)
      | NonZeroU w \<Rightarrow> non_zero (''NonZeroU'' @ width_name w) (read_unsigned bs)
      | OtherTy n \<Rightarrow> Err ''unsupported integer type'')"

definition to_i64 :: "int_ty \<Rightarrow> string \<Rightarrow> nat \<Rightarrow> (string, int) result" where
  "to_i64 ty bytes offset =
     (if length bytes < offset + size_of ty then Err ''insufficient bytes to read integer''
      else decode_int ty (bslice bytes offset (offset + size_of ty)))"

section \<open>Field types and classification\<close>

text \<open>\<open>ToI64\<close> is an open trait, so a field type holds an implementation of it.\<close>

record to_i64_impl =
  ti_to_i64 :: "string \<Rightarrow> nat \<Rightarrow> (string, int) result"
  ti_byte_len :: "nat option"

definition IntegerToI64 :: "int_ty \<Rightarrow> to_i64_impl" where
  "IntegerToI64 ty = \<lparr>ti_to_i64 = to_i64 ty, ti_byte_len = Some (size_of ty)\<rparr>"

datatype field_type = Integer to_i64_impl | Bytes | Unsupported

text \<open>The Rust types with a \<open>FieldClassifier\<close> instance.\<close>

datatype rust_ty =
    IntT int_ty | FloatT | UnitT
  | SliceT rust_ty | ArrayT rust_ty nat
  | OptionT rust_ty | ResultT rust_ty rust_ty | WrappingT rust_ty | CellT rust_ty
  | TupleT rust_ty "rust_ty list"

fun is_unsupported :: "field_type \<Rightarrow> bool" where
  "is_unsupported Unsupported = True"
| "is_unsupported _ = False"

text \<open>\<open>TupleT t ts\<close> is the tuple \<open>(t, ts...)\<close>; the one-element tuple has an instance of its own.\<close>

fun FIELD_TYPE :: "rust_ty \<Rightarrow> field_type" where
  "FIELD_TYPE (IntT ty) = Integer (IntegerToI64 ty)"
| "FIELD_TYPE FloatT = Unsupported"
| "FIELD_TYPE UnitT = Unsupported"
| "FIELD_TYPE (SliceT t) = Bytes"
| "FIELD_TYPE (ArrayT t n) = Bytes"
| "FIELD_TYPE (OptionT t) = FIELD_TYPE t"
| "FIELD_TYPE (ResultT t e) = FIELD_TYPE t"
| "FIELD_TYPE (WrappingT t) = FIELD_TYPE t"
| "FIELD_TYPE (CellT t) = FIELD_TYPE t"
| "FIELD_TYPE (TupleT t ts) =
     (if ts = [] then FIELD_TYPE t
      else if is_unsupported (FIELD_TYPE t) \<or> (\<exists>u \<in> set ts. is_unsupported (FIELD_TYPE u))
      then Unsupported else Bytes)"

section \<open>Schemas\<close>

text \<open>The fields of an event: name, type, offset and length.\<close>

type_synonym schema = "(string \<times> field_type \<times> nat \<times> nat) list"

fun schema_get :: "schema \<Rightarrow> string \<Rightarrow> (field_type \<times> nat \<times> nat) option" where
  "schema_get [] name = None"
| "schema_get ((n, t, off, len) # rest) name =
     (if n = name then Some (t, off, len) else schema_get rest name)"

definition get_type :: "schema \<Rightarrow> string \<Rightarrow> field_type option" where
  "get_type s name = map_option (\<lambda>(t, _, _). t) (schema_get s name)"

definition to_str_bytes :: "string \<Rightarrow> nat \<Rightarrow> nat \<Rightarrow> (string, string) result" where
  "to_str_bytes buf offset len =
     (if offset + len \<le> length buf
      then Ok (takeWhile (\<lambda>b. b \<noteq> CHR 0x00) (bslice buf offset (offset + len)))
      else Err ''buffer too small for field'')"

lemma schema_get_map_of: "schema_get s name = map_of s name"
  by (induction s) auto

section \<open>Integers are read back\<close>

text \<open>
  The values of a type and their representation in memory: two's complement, little-endian.
\<close>

abbreviation in_signed :: "int_width \<Rightarrow> int \<Rightarrow> bool" where
  "in_signed w v \<equiv> - (2 ^ (8 * width_bytes w - 1)) \<le> v \<and> v < 2 ^ (8 * width_bytes w - 1)"

abbreviation in_unsigned :: "int_width \<Rightarrow> int \<Rightarrow> bool" where
  "in_unsigned w v \<equiv> 0 \<le> v \<and> v < 2 ^ (8 * width_bytes w)"

fun represents :: "int_ty \<Rightarrow> int \<Rightarrow> bool" where
  "represents (SInt w) v \<longleftrightarrow> in_signed w v"
| "represents (UInt w) v \<longleftrightarrow> in_unsigned w v"
| "represents BoolTy v \<longleftrightarrow> v = 0 \<or> v = 1"
| "represents CharTy v \<longleftrightarrow> 0 \<le> v \<and> is_scalar_value (nat v)"
| "represents (NonZeroI w) v \<longleftrightarrow> v \<noteq> 0 \<and> in_signed w v"
| "represents (NonZeroU w) v \<longleftrightarrow> v \<noteq> 0 \<and> in_unsigned w v"
| "represents (OtherTy n) v \<longleftrightarrow> False"

definition encode_int :: "int_ty \<Rightarrow> int \<Rightarrow> string" where
  "encode_int ty v = le_bytes (size_of ty) (nat (take_bit (8 * size_of ty) v))"

text \<open>The 128-bit types whose zero test is made on the truncated value.\<close>

fun wide_non_zero :: "int_ty \<Rightarrow> bool" where
  "wide_non_zero (NonZeroI W128) = True"
| "wide_non_zero (NonZeroU W128) = True"
| "wide_non_zero _ = False"

lemma bslice_middle: "bslice (xs @ ys @ zs) (length xs) (length xs + length ys) = ys"
  by (simp add: bslice_def)

lemma length_encode_int [simp]: "length (encode_int ty v) = size_of ty"
  by (simp add: encode_int_def)

lemma le_nat_encode_int: "int (le_nat (encode_int ty v)) = take_bit (8 * size_of ty) v"
proof -
  have "(256 :: nat) ^ size_of ty = 2 ^ (8 * size_of ty)"
    by (simp add: power_mult)
  then have "le_nat (encode_int ty v) = take_bit (8 * size_of ty) (nat (take_bit (8 * size_of ty) v))"
    by (simp add: encode_int_def le_nat_le_bytes take_bit_eq_mod)
  also have "\<dots> = nat (take_bit (8 * size_of ty) v)"
    by (simp add: take_bit_nat_eq)
  finally show ?thesis by simp
qed

lemma read_signed_encode:
  assumes "represents (SInt w) v" "size_of ty = width_bytes w"
  shows "read_signed (encode_int ty v) = as_i64 v"
proof -
  have "signed_take_bit (8 * width_bytes w - 1) (take_bit (8 * width_bytes w) v)
      = signed_take_bit (8 * width_bytes w - 1) v"
    by (cases w) (simp_all add: signed_take_bit_take_bit)
  also have "\<dots> = v" using assms by (intro signed_take_bit_int_eq_self) auto
  finally show ?thesis using assms(2) by (simp add: read_signed_def le_nat_encode_int)
qed

lemma read_unsigned_encode:
  assumes "represents (UInt w) v" "size_of ty = width_bytes w"
  shows "read_unsigned (encode_int ty v) = as_i64 v"
  using assms by (simp add: read_unsigned_def le_nat_encode_int take_bit_int_eq_self)

lemma as_i64_nonzero:
  assumes "v \<noteq> 0" "- (2 ^ 63) \<le> v" "v < 2 ^ 64"
  shows "as_i64 v \<noteq> 0"
proof
  assume "as_i64 v = 0"
  then have "take_bit (Suc 63) v = take_bit (Suc 63) 0"
    by (metis as_i64_def signed_take_bit_eq_iff_take_bit_eq signed_take_bit_of_0)
  then have "take_bit 64 v = 0" by simp
  then have "2 ^ 64 dvd v" by (simp add: take_bit_eq_mod mod_eq_0_iff_dvd)
  then obtain k where "v = 2 ^ 64 * k" by (elim dvdE)
  with assms show False by (cases "0 < k") auto
qed

lemma to_i64_middle:
  "length bs = size_of ty \<Longrightarrow> to_i64 ty (pre @ bs @ post) (length pre) = decode_int ty bs"
  using bslice_middle [of pre bs post] by (simp add: to_i64_def)



end
