(* ===== verification/TpEval.thy ===== *)
theory TpEval
  imports TpParser TpField TpGlob
begin

text \<open>
  Evaluation and validation of filter expressions, \<open>tp-lexer/src/lib.rs\<close>: the
  \<open>Context\<close> trait and its two implementations, three-valued evaluation, the schema check and
  \<open>compile_with_schema\<close>. The \<open>unreachable!()\<close> arms of \<open>eval_expr\<close> are a failure
  of their own, and it is proved that a compiled filter never gets there.
\<close>

section \<open>Contexts\<close>

record eval_error =
  ee_field :: string
  ee_message :: string

definition EvalError_new :: "string \<Rightarrow> string \<Rightarrow> eval_error" where
  "EvalError_new f msg = \<lparr>ee_field = f, ee_message = msg\<rparr>"

record filter_ctx =
  get_integer :: "string \<Rightarrow> (eval_error, int option) result"
  get_str_bytes :: "string \<Rightarrow> (eval_error, string option) result"

text \<open>\<open>BTreeMap<String, String>\<close> as a context.\<close>

definition map_get_integer :: "(string \<rightharpoonup> string) \<Rightarrow> string \<Rightarrow> (eval_error, int option) result" where
  "map_get_integer m name =
     (case m name of
        None \<Rightarrow> Ok None
      | Some value \<Rightarrow>
          (case parse_i64_literal_text value of
             Inr v \<Rightarrow> Ok (Some v)
           | Inl message \<Rightarrow>
               Err (EvalError_new name
                 (if message = ''integer literal overflow'' then ''integer literal overflow''
                  else ''invalid integer literal''))))"

definition map_get_str_bytes :: "(string \<rightharpoonup> string) \<Rightarrow> string \<Rightarrow> (eval_error, string option) result" where
  "map_get_str_bytes m name = Ok (m name)"

definition map_context :: "(string \<rightharpoonup> string) \<Rightarrow> filter_ctx" where
  "map_context m = \<lparr>get_integer = map_get_integer m, get_str_bytes = map_get_str_bytes m\<rparr>"

text \<open>\<open>BufContext\<close>: a raw event buffer read through a schema.\<close>

record buf_ctx =
  bc_buf :: string
  bc_schema :: schema

definition buf_get_integer :: "buf_ctx \<Rightarrow> string \<Rightarrow> (eval_error, int option) result" where
  "buf_get_integer c name =
     (case schema_get (bc_schema c) name of
        None \<Rightarrow> Ok None
      | Some (t, offset, len) \<Rightarrow>
          (case t of
             Integer f \<Rightarrow>
               (if ti_byte_len f \<noteq> None \<and> ti_byte_len f \<noteq> Some len
                then Err (EvalError_new name
                  (''schema length '' @ show_nat len @ '' does not match integer width ''
                    @ show_nat (the (ti_byte_len f))))
                else (case ti_to_i64 f (bc_buf c) offset of
                        Inr v \<Rightarrow> Ok (Some v)
                      | Inl message \<Rightarrow> Err (EvalError_new name message)))
           | _ \<Rightarrow> Ok None))"

definition buf_get_str_bytes :: "buf_ctx \<Rightarrow> string \<Rightarrow> (eval_error, string option) result" where
  "buf_get_str_bytes c name =
     (case schema_get (bc_schema c) name of
        None \<Rightarrow> Ok None
      | Some (t, offset, len) \<Rightarrow>
          (case t of
             Bytes \<Rightarrow>
               (case to_str_bytes (bc_buf c) offset len of
                  Inr bytes \<Rightarrow> Ok (Some bytes)
                | Inl message \<Rightarrow> Err (EvalError_new name message))
           | _ \<Rightarrow> Ok None))"

definition buf_context :: "buf_ctx \<Rightarrow> filter_ctx" where
  "buf_context c = \<lparr>get_integer = buf_get_integer c, get_str_bytes = buf_get_str_bytes c\<rparr>"

section \<open>Three-valued evaluation\<close>

datatype tri = TriTrue | TriFalse | TriUnknown

fun tri_and :: "tri \<Rightarrow> tri \<Rightarrow> tri" where
  "tri_and TriFalse _ = TriFalse"
| "tri_and _ TriFalse = TriFalse"
| "tri_and TriUnknown x = x"
| "tri_and x TriUnknown = x"
| "tri_and TriTrue TriTrue = TriTrue"

fun tri_or :: "tri \<Rightarrow> tri \<Rightarrow> tri" where
  "tri_or TriTrue _ = TriTrue"
| "tri_or _ TriTrue = TriTrue"
| "tri_or TriUnknown x = x"
| "tri_or x TriUnknown = x"
| "tri_or TriFalse TriFalse = TriFalse"

datatype eval_failure = EvalErr eval_error | Unreachable

definition eval_err :: "(eval_error, 'a) result \<Rightarrow> (eval_failure, 'a) result" where
  "eval_err r = (case r of Inl e \<Rightarrow> Err (EvalErr e) | Inr x \<Rightarrow> Ok x)"

definition tri_of :: "bool \<Rightarrow> tri" where
  "tri_of b = (if b then TriTrue else TriFalse)"

fun num_holds :: "num_op \<Rightarrow> int \<Rightarrow> int \<Rightarrow> bool" where
  "num_holds NumEq v rhs \<longleftrightarrow> v = rhs"
| "num_holds NumNe v rhs \<longleftrightarrow> v \<noteq> rhs"
| "num_holds NumLt v rhs \<longleftrightarrow> v < rhs"
| "num_holds NumLe v rhs \<longleftrightarrow> v \<le> rhs"
| "num_holds NumGt v rhs \<longleftrightarrow> v > rhs"
| "num_holds NumGe v rhs \<longleftrightarrow> v \<ge> rhs"

fun str_holds :: "str_op \<Rightarrow> string \<Rightarrow> string \<Rightarrow> bool" where
  "str_holds StrEq v pat \<longleftrightarrow> v = pat"
| "str_holds StrNe v pat \<longleftrightarrow> v \<noteq> pat"
| "str_holds StrGlob v pat \<longleftrightarrow> glob_match_bytes pat v"

definition apply_mask :: "int option \<Rightarrow> int \<Rightarrow> int" where
  "apply_mask msk v = (case msk of None \<Rightarrow> v | Some m \<Rightarrow> v AND m)"

fun eval_expr :: "expr \<Rightarrow> schema \<Rightarrow> filter_ctx \<Rightarrow> (eval_failure, tri) result" where
  "eval_expr (Group inner) s ctx = eval_expr inner s ctx"
| "eval_expr (Or l r) s ctx =
     and_then (eval_expr l s ctx) (\<lambda>lv.
       if lv = TriTrue then Ok TriTrue
       else and_then (eval_expr r s ctx) (\<lambda>rv. Ok (tri_or lv rv)))"
| "eval_expr (And l r) s ctx =
     and_then (eval_expr l s ctx) (\<lambda>lv.
       if lv = TriFalse then Ok TriFalse
       else and_then (eval_expr r s ctx) (\<lambda>rv. Ok (tri_and lv rv)))"
| "eval_expr (NumCmp field sp msk op rhs) s ctx =
     (case get_type s field of
        Some (Integer _) \<Rightarrow>
          and_then (eval_err (get_integer ctx field)) (\<lambda>x.
            case x of
              None \<Rightarrow> Ok TriUnknown
            | Some v \<Rightarrow> Ok (tri_of (num_holds op (apply_mask msk v) rhs)))
      | Some Bytes \<Rightarrow> Ok TriFalse
      | Some Unsupported \<Rightarrow> Ok TriFalse
      | None \<Rightarrow> Err Unreachable)"
| "eval_expr (StrCmp field sp op pat) s ctx =
     (case get_type s field of
        Some Bytes \<Rightarrow>
          and_then (eval_err (get_str_bytes ctx field)) (\<lambda>x.
            case x of
              None \<Rightarrow> Ok TriUnknown
            | Some v \<Rightarrow> Ok (tri_of (str_holds op v pat)))
      | Some (Integer _) \<Rightarrow> Ok TriFalse
      | Some Unsupported \<Rightarrow> Ok TriFalse
      | None \<Rightarrow> Err Unreachable)"

record compiled =
  co_expr :: expr
  co_schema :: schema

definition try_evaluate :: "compiled \<Rightarrow> filter_ctx \<Rightarrow> (eval_failure, bool) result" where
  "try_evaluate c ctx =
     and_then (eval_expr (co_expr c) (co_schema c) ctx) (\<lambda>t.
       case t of TriTrue \<Rightarrow> Ok True | TriFalse \<Rightarrow> Ok False | TriUnknown \<Rightarrow> Ok True)"

text \<open>\<open>evaluate\<close> turns an error into false; a panic stays one, \<open>None\<close>.\<close>

definition evaluate :: "compiled \<Rightarrow> filter_ctx \<Rightarrow> bool option" where
  "evaluate c ctx =
     (case try_evaluate c ctx of
        Inr b \<Rightarrow> Some b
      | Inl (EvalErr _) \<Rightarrow> Some False
      | Inl Unreachable \<Rightarrow> None)"

section \<open>Validation\<close>

fun validate :: "expr \<Rightarrow> schema \<Rightarrow> (parse_failure, unit) result" where
  "validate (Or l r) s = and_then (validate l s) (\<lambda>_. validate r s)"
| "validate (And l r) s = and_then (validate l s) (\<lambda>_. validate r s)"
| "validate (Group inner) s = validate inner s"
| "validate (NumCmp field sp msk op rhs) s =
     (case schema_get s field of
        None \<Rightarrow> Err (parse_err sp (UnknownField field))
      | Some (Bytes, _, _) \<Rightarrow> Err (parse_err sp (NotNumeric field))
      | Some (Integer f, _, len) \<Rightarrow>
          (if ti_byte_len f \<noteq> None \<and> ti_byte_len f \<noteq> Some len
           then Err (parse_err sp (LengthMismatch field len (the (ti_byte_len f))))
           else Ok ())
      | Some (Unsupported, _, _) \<Rightarrow> Err (parse_err sp (UnsupportedType field)))"
| "validate (StrCmp field sp op pat) s =
     (case schema_get s field of
        None \<Rightarrow> Err (parse_err sp (UnknownField field))
      | Some (Integer _, _, _) \<Rightarrow> Err (parse_err sp (NotString field))
      | Some (Bytes, _, _) \<Rightarrow> Ok ()
      | Some (Unsupported, _, _) \<Rightarrow> Err (parse_err sp (UnsupportedType field)))"

definition compile_with_schema :: "string \<Rightarrow> schema \<Rightarrow> (parse_failure, compiled) result" where
  "compile_with_schema inp s =
     and_then (parse_expr inp) (\<lambda>e.
     and_then (validate e s) (\<lambda>_. Ok \<lparr>co_expr = e, co_schema = s\<rparr>))"

section \<open>What a filter means\<close>

text \<open>The comparisons of an expression, from left to right.\<close>

fun leaves :: "expr \<Rightarrow> expr list" where
  "leaves (Or l r) = leaves l @ leaves r"
| "leaves (And l r) = leaves l @ leaves r"
| "leaves (Group e) = leaves e"
| "leaves e = [e]"

fun leaf_field :: "expr \<Rightarrow> string" where
  "leaf_field (NumCmp f sp msk op rhs) = f"
| "leaf_field (StrCmp f sp op pat) = f"
| "leaf_field _ = []"

text \<open>
  Typing of a comparison: a numeric one needs an integer field whose length is the width of its
  reader, a string one needs a byte field.
\<close>

fun well_typed :: "schema \<Rightarrow> expr \<Rightarrow> bool" where
  "well_typed s (NumCmp f sp msk op rhs) \<longleftrightarrow>
     (\<exists>impl off len. schema_get s f = Some (Integer impl, off, len) \<and>
        (ti_byte_len impl = None \<or> ti_byte_len impl = Some len))"
| "well_typed s (StrCmp f sp op pat) \<longleftrightarrow> (\<exists>off len. schema_get s f = Some (Bytes, off, len))"
| "well_typed s _ \<longleftrightarrow> False"

lemma validate_Ok_iff: "validate e s = Ok () \<longleftrightarrow> list_all (well_typed s) (leaves e)"
proof (induction e)
  case (NumCmp f sp msk op rhs)
  then show ?case
    by (cases "ti_byte_len (case schema_get s f of Some (Integer i, _, _) \<Rightarrow> i)")
      (auto split: option.splits field_type.splits)
next
  case (StrCmp f sp op pat)
  then show ?case by (auto split: option.splits field_type.splits)
qed (auto simp: and_then_Ok_iff)

text \<open>
  C19: a filter compiles exactly when it parses and each of its comparisons is well-typed in
  the schema; the compiled filter is the parsed expression with that schema.
\<close>

theorem compile_with_schema_iff:
  "compile_with_schema inp s = Ok c \<longleftrightarrow>
     (\<exists>e. parse_expr inp = Ok e \<and> list_all (well_typed s) (leaves e) \<and>
        c = \<lparr>co_expr = e, co_schema = s\<rparr>)"
  by (auto simp: compile_with_schema_def and_then_Ok_iff validate_Ok_iff [symmetric])

lemma compile_typed:
  assumes "compile_with_schema inp s = Ok c"
  shows "list_all (well_typed (co_schema c)) (leaves (co_expr c))"
  using assms by (auto simp: compile_with_schema_def and_then_Ok_iff validate_Ok_iff)

text \<open>
  The reference semantics. A comparison on a field the context does not have is dropped, and
  what remains is an ordinary Boolean formula; when nothing remains the filter accepts.
\<close>

fun present :: "filter_ctx \<Rightarrow> expr \<Rightarrow> bool" where
  "present ctx (NumCmp f sp msk op rhs) \<longleftrightarrow> get_integer ctx f \<noteq> Ok None"
| "present ctx (StrCmp f sp op pat) \<longleftrightarrow> get_str_bytes ctx f \<noteq> Ok None"
| "present ctx _ \<longleftrightarrow> True"

fun readable :: "filter_ctx \<Rightarrow> expr \<Rightarrow> bool" where
  "readable ctx (NumCmp f sp msk op rhs) \<longleftrightarrow> is_ok (get_integer ctx f)"
| "readable ctx (StrCmp f sp op pat) \<longleftrightarrow> is_ok (get_str_bytes ctx f)"
| "readable ctx _ \<longleftrightarrow> True"

fun leaf_true :: "filter_ctx \<Rightarrow> expr \<Rightarrow> bool" where
  "leaf_true ctx (NumCmp f sp msk op rhs) \<longleftrightarrow>
     num_holds op (apply_mask msk (the (projr (get_integer ctx f)))) rhs"
| "leaf_true ctx (StrCmp f sp op pat) \<longleftrightarrow> str_holds op (the (projr (get_str_bytes ctx f))) pat"
| "leaf_true ctx _ \<longleftrightarrow> False"

definition keep_both :: "('a \<Rightarrow> 'a \<Rightarrow> 'a) \<Rightarrow> 'a option \<Rightarrow> 'a option \<Rightarrow> 'a option" where
  "keep_both f a b =
     (case a of None \<Rightarrow> b | Some x \<Rightarrow> (case b of None \<Rightarrow> a | Some y \<Rightarrow> Some (f x y)))"

fun prune :: "(expr \<Rightarrow> bool) \<Rightarrow> expr \<Rightarrow> expr option" where
  "prune k (Or l r) = keep_both Or (prune k l) (prune k r)"
| "prune k (And l r) = keep_both And (prune k l) (prune k r)"
| "prune k (Group e) = map_option Group (prune k e)"
| "prune k e = (if k e then Some e else None)"

fun holds :: "(expr \<Rightarrow> bool) \<Rightarrow> expr \<Rightarrow> bool" where
  "holds t (Or l r) \<longleftrightarrow> holds t l \<or> holds t r"
| "holds t (And l r) \<longleftrightarrow> holds t l \<and> holds t r"
| "holds t (Group e) \<longleftrightarrow> holds t e"
| "holds t e \<longleftrightarrow> t e"

definition tri_denote :: "filter_ctx \<Rightarrow> expr \<Rightarrow> tri" where
  "tri_denote ctx e =
     (case prune (present ctx) e of None \<Rightarrow> TriUnknown | Some e' \<Rightarrow> tri_of (holds (leaf_true ctx) e'))"

lemma tri_denote_simps [simp]:
  "tri_denote ctx (Or l r) = tri_or (tri_denote ctx l) (tri_denote ctx r)"
  "tri_denote ctx (And l r) = tri_and (tri_denote ctx l) (tri_denote ctx r)"
  "tri_denote ctx (Group e) = tri_denote ctx e"
  by (auto simp: tri_denote_def keep_both_def tri_of_def split: option.split)

lemma tri_absorb [simp]: "tri_or TriTrue x = TriTrue" "tri_and TriFalse x = TriFalse"
  by (cases x; simp)+

lemma eval_expr_denotes:
  assumes "list_all (well_typed s) (leaves e)" "list_all (readable ctx) (leaves e)"
  shows "eval_expr e s ctx = Ok (tri_denote ctx e)"
  using assms
proof (induction e)
  case (NumCmp f sp msk op rhs)
  then show ?case
    by (cases "get_integer ctx f")
      (auto simp: get_type_def eval_err_def tri_denote_def split: option.split)
next
  case (StrCmp f sp op pat)
  then show ?case
    by (cases "get_str_bytes ctx f")
      (auto simp: get_type_def eval_err_def tri_denote_def split: option.split)
qed auto

text \<open>
  C4: the meaning of a compiled filter. When every field it mentions can be read, evaluation
  returns the truth value of the expression without the comparisons on missing fields, and
  accepts when all of them are missing.
\<close>

theorem try_evaluate_meaning:
  assumes "compile_with_schema inp s = Ok c"
    and "list_all (readable ctx) (leaves (co_expr c))"
  shows "try_evaluate c ctx =
     Ok (case prune (present ctx) (co_expr c) of None \<Rightarrow> True | Some e \<Rightarrow> holds (leaf_true ctx) e)"
  using eval_expr_denotes [OF compile_typed [OF assms(1)] assms(2)]
  by (auto simp: try_evaluate_def tri_denote_def tri_of_def split: option.split)

definition example_schema :: schema where
  "example_schema =
     [(''sig'', FIELD_TYPE (IntT (UInt W32)), 0, 4), (''comm'', FIELD_TYPE (ArrayT (IntT (UInt W8)) 4), 4, 4)]"

definition example_filter :: compiled where
  "example_filter =
     \<lparr>co_expr = And (NumCmp ''sig'' \<lparr>span_start = 0, span_end = 3\<rparr> None NumGe 10)
        (StrCmp ''comm'' \<lparr>span_start = 13, span_end = 17\<rparr> StrNe ''bash''), co_schema = example_schema\<rparr>"

lemma example_filter_compiles:
  "compile_with_schema ''sig >= 10 && comm != bash'' example_schema = Ok example_filter"
proof -
  have "parse_expr ''sig >= 10 && comm != bash'' = Ok (co_expr example_filter)"
    by code_simp
  then show ?thesis
    by (simp add: compile_with_schema_def example_filter_def example_schema_def IntegerToI64_def)
qed

theorem try_evaluate_meaning_witness:
  "try_evaluate example_filter (map_context [''sig'' \<mapsto> ''12'']) = Ok True"
proof -
  have i: "map_get_integer [''sig'' \<mapsto> ''12''] ''sig'' = Ok (Some 12)"
    by code_simp
  show ?thesis
    using try_evaluate_meaning [OF example_filter_compiles, of "map_context [''sig'' \<mapsto> ''12'']"]
    by (simp add: example_filter_def map_context_def i map_get_str_bytes_def apply_mask_def keep_both_def)
qed

section \<open>The contract of a context\<close>

text \<open>
  What evaluation relies on: an error names the field that was asked for. A family of contexts
  is indexed by the data it reads from, of type \<open>'c\<close>.
\<close>

locale filter_context =
  fixes mk_integer :: "'c \<Rightarrow> string \<Rightarrow> (eval_error, int option) result"
    and mk_str_bytes :: "'c \<Rightarrow> string \<Rightarrow> (eval_error, string option) result"
  assumes integer_error: "mk_integer c f = Err e \<Longrightarrow> ee_field e = f"
    and str_error: "mk_str_bytes c f = Err e \<Longrightarrow> ee_field e = f"
begin

lemma eval_error_field:
  assumes "eval_expr e s \<lparr>get_integer = mk_integer c, get_str_bytes = mk_str_bytes c\<rparr> = Err x"
    and "list_all (well_typed s) (leaves e)"
  shows "\<exists>err. x = EvalErr err \<and> ee_field err \<in> leaf_field ` set (leaves e)"
  using assms
proof (induction e)
  case (NumCmp f sp msk op rhs)
  then show ?case
    by (cases "mk_integer c f")
      (auto simp: get_type_def eval_err_def and_then_Err_iff integer_error split: option.splits)
next
  case (StrCmp f sp op pat)
  then show ?case
    by (cases "mk_str_bytes c f")
      (auto simp: get_type_def eval_err_def and_then_Err_iff str_error split: option.splits)
qed (auto simp: and_then_Err_iff split: if_splits)

lemma try_evaluate_error_field:
  assumes "compile_with_schema inp s = Ok p"
    and "try_evaluate p \<lparr>get_integer = mk_integer c, get_str_bytes = mk_str_bytes c\<rparr> = Err x"
  shows "\<exists>err. x = EvalErr err \<and> ee_field err \<in> leaf_field ` set (leaves (co_expr p))"
proof (rule eval_error_field)
  show "eval_expr (co_expr p) (co_schema p) \<lparr>get_integer = mk_integer c, get_str_bytes = mk_str_bytes c\<rparr> = Err x"
    using assms(2) by (auto simp: try_evaluate_def and_then_Err_iff split: tri.splits) (metis tri.exhaust)
qed (rule compile_typed [OF assms(1)])

end

text \<open>
  A context that also says when a field can be read: no evaluation over such fields fails.
\<close>

locale ready_context = filter_context mk_integer mk_str_bytes
  for mk_integer :: "'c \<Rightarrow> string \<Rightarrow> (eval_error, int option) result"
    and mk_str_bytes :: "'c \<Rightarrow> string \<Rightarrow> (eval_error, string option) result" +
  fixes ready :: "'c \<Rightarrow> expr \<Rightarrow> bool"
  assumes ready_readable:
    "ready c l \<Longrightarrow> readable \<lparr>get_integer = mk_integer c, get_str_bytes = mk_str_bytes c\<rparr> l"
begin

lemma try_evaluate_total:
  assumes "compile_with_schema inp s = Ok p" "list_all (ready c) (leaves (co_expr p))"
  shows "\<exists>b. try_evaluate p \<lparr>get_integer = mk_integer c, get_str_bytes = mk_str_bytes c\<rparr> = Ok b"
proof -
  let ?ctx = "\<lparr>get_integer = mk_integer c, get_str_bytes = mk_str_bytes c\<rparr>"
  have "list_all (readable ?ctx) (leaves (co_expr p))"
    using assms(2) by (rule list.pred_mono_strong) (rule ready_readable)
  with compile_typed [OF assms(1)] have "eval_expr (co_expr p) (co_schema p) ?ctx = Ok (tri_denote ?ctx (co_expr p))"
    by (rule eval_expr_denotes)
  then show ?thesis by (cases "tri_denote ?ctx (co_expr p)") (auto simp: try_evaluate_def)
qed

end

text \<open>When the two contexts can read the field of a comparison.\<close>

fun map_ready :: "(string \<rightharpoonup> string) \<Rightarrow> expr \<Rightarrow> bool" where
  "map_ready m (NumCmp f sp msk op rhs) \<longleftrightarrow>
     (case m f of None \<Rightarrow> True | Some v \<Rightarrow> is_ok (parse_i64_literal_text v))"
| "map_ready m _ \<longleftrightarrow> True"

text \<open>
  An event buffer fits its schema when every field lies in it, every integer field has the length
  its reader expects and the reader decodes what is there.
\<close>

fun field_fits :: "string \<Rightarrow> field_type \<times> nat \<times> nat \<Rightarrow> bool" where
  "field_fits buf (Integer f, off, len) \<longleftrightarrow> ti_byte_len f = Some len \<and> is_ok (ti_to_i64 f buf off)"
| "field_fits buf (Bytes, off, len) \<longleftrightarrow> off + len \<le> length buf"
| "field_fits buf (Unsupported, off, len) \<longleftrightarrow> True"

definition buf_ready :: "buf_ctx \<Rightarrow> expr \<Rightarrow> bool" where
  "buf_ready c l = list_all (\<lambda>(n, fld). field_fits (bc_buf c) fld) (bc_schema c)"

lemma fits_get:
  "list_all (\<lambda>(n, fld). field_fits buf fld) s \<Longrightarrow> schema_get s f = Some fld \<Longrightarrow> field_fits buf fld"
  by (induction s) (auto split: if_splits)

interpretation mapc: ready_context map_get_integer map_get_str_bytes map_ready
proof unfold_locales
  show "ee_field e = f" if "map_get_integer c f = Err e" for c f e
    using that by (auto simp: map_get_integer_def EvalError_new_def split: option.splits sum.splits)
  show "ee_field e = f" if "map_get_str_bytes c f = Err e" for c f e
    using that by (simp add: map_get_str_bytes_def)
  show "readable \<lparr>get_integer = map_get_integer c, get_str_bytes = map_get_str_bytes c\<rparr> l"
    if "map_ready c l" for c l
    using that by (cases l) (auto simp: map_get_integer_def map_get_str_bytes_def split: option.splits sum.splits)
qed

interpretation bufc: ready_context buf_get_integer buf_get_str_bytes buf_ready
proof unfold_locales
  show "ee_field e = f" if "buf_get_integer c f = Err e" for c f e
    using that
    by (auto simp: buf_get_integer_def EvalError_new_def
        split: option.splits sum.splits field_type.splits if_splits)
  show "ee_field e = f" if "buf_get_str_bytes c f = Err e" for c f e
    using that
    by (auto simp: buf_get_str_bytes_def EvalError_new_def
        split: option.splits sum.splits field_type.splits)
  show "readable \<lparr>get_integer = buf_get_integer c, get_str_bytes = buf_get_str_bytes c\<rparr> l"
    if "buf_ready c l" for c l
    using that fits_get [of "bc_buf c" "bc_schema c" "leaf_field l"]
    by (cases l) (auto simp: buf_ready_def buf_get_integer_def buf_get_str_bytes_def to_str_bytes_def
        split: option.splits sum.splits field_type.splits)
qed

text \<open>
  Evaluating a compiled filter, on either kind of context, never reaches the
  \<open>unreachable!()\<close> arms, and an evaluation error names a field the filter compares.
\<close>

theorem compiled_errors_name_fields:
  assumes "compile_with_schema inp s = Ok p"
    and "try_evaluate p (map_context m) = Err x \<or> try_evaluate p (buf_context c) = Err x"
  shows "\<exists>err. x = EvalErr err \<and> ee_field err \<in> leaf_field ` set (leaves (co_expr p))"
  using assms mapc.try_evaluate_error_field bufc.try_evaluate_error_field
  unfolding map_context_def buf_context_def by blast

theorem compiled_errors_name_fields_witness:
  "\<exists>err. try_evaluate example_filter (map_context [''sig'' \<mapsto> ''x'']) = Err (EvalErr err) \<and>
     ee_field err \<in> leaf_field ` set (leaves (co_expr example_filter))"
proof -
  have "map_get_integer [''sig'' \<mapsto> ''x''] ''sig'' =
      Err (EvalError_new ''sig'' ''invalid integer literal'')"
    by code_simp
  then have "\<exists>x. try_evaluate example_filter (map_context [''sig'' \<mapsto> ''x'']) = Err x"
    by (auto simp: example_filter_def try_evaluate_def map_context_def example_schema_def
        get_type_def eval_err_def)
  then show ?thesis
    using compiled_errors_name_fields [OF example_filter_compiles, of "[''sig'' \<mapsto> ''x'']"] by blast
qed

text \<open>
  On an event buffer that fits the schema, a compiled filter always decides: evaluation
  returns a Boolean, and \<open>evaluate\<close> returns the same one.
\<close>

theorem compiled_decides_buffer:
  assumes "compile_with_schema inp s = Ok p"
    and "list_all (\<lambda>(n, fld). field_fits buf fld) s'"
  shows "\<exists>b. try_evaluate p (buf_context \<lparr>bc_buf = buf, bc_schema = s'\<rparr>) = Ok b \<and>
     evaluate p (buf_context \<lparr>bc_buf = buf, bc_schema = s'\<rparr>) = Some b"
proof -
  have "list_all (buf_ready \<lparr>bc_buf = buf, bc_schema = s'\<rparr>) (leaves (co_expr p))"
    using assms(2) by (simp add: buf_ready_def list_all_iff)
  from bufc.try_evaluate_total [OF assms(1) this] show ?thesis
    by (auto simp: buf_context_def evaluate_def)
qed

theorem compiled_decides_buffer_witness:
  "\<exists>b. evaluate example_filter
     (buf_context \<lparr>bc_buf = encode_int (UInt W32) 12 @ ''sh'' @ [CHR 0x00, CHR 0x00], bc_schema = example_schema\<rparr>) = Some b"
proof -
  have "list_all (\<lambda>(n, fld). field_fits (encode_int (UInt W32) 12 @ ''sh'' @ [CHR 0x00, CHR 0x00]) fld) example_schema"
    by (simp add: example_schema_def IntegerToI64_def to_i64_def decode_int_def)
  from compiled_decides_buffer [OF example_filter_compiles this] show ?thesis by blast
qed

end
