(* ===== verification/DdebugRuntime.thy ===== *)
theory DdebugRuntime
  imports RustText "HOL-Library.Product_Lexorder"
begin

text \<open>
  The runtime side of dynamic debug, \<open>ddebug/src/runtime.rs\<close>: call sites with their flags,
  the update of flags together with the static key of the site, the line a site emits and the
  flag letters.

  A static key comes from the crate \<open>static_keys\<close>; its two operations are the parameter
  \<open>key_ops\<close> and the laws it documents are \<open>key_laws\<close>. The flags of a site are an atomic
  that is read and swapped as a whole; operations are modelled one after the other.
\<close>

section \<open>Call sites\<close>

definition FLAG_PRINT :: u8 where "FLAG_PRINT = 1"
definition FLAG_THREAD :: u8 where "FLAG_THREAD = 2"
definition FLAG_MODULE :: u8 where "FLAG_MODULE = 4"
definition FLAG_FUNC :: u8 where "FLAG_FUNC = 8"
definition FLAG_SOURCE :: u8 where "FLAG_SOURCE = 16"
definition FLAG_LINE :: u8 where "FLAG_LINE = 32"

lemmas flag_defs = FLAG_PRINT_def FLAG_THREAD_def FLAG_MODULE_def FLAG_FUNC_def
  FLAG_SOURCE_def FLAG_LINE_def

record 'k debug_site =
  site_flags :: u8
  site_line :: nat
  site_module :: string
  site_file :: string
  site_function :: string
  site_format :: string
  site_key :: 'k

record 'k key_ops =
  key_enable :: "'k \<Rightarrow> 'k"
  key_disable :: "'k \<Rightarrow> 'k"
  key_enabled :: "'k \<Rightarrow> bool"

definition key_laws :: "'k key_ops \<Rightarrow> bool" where
  "key_laws ops \<longleftrightarrow>
     (\<forall>k. key_enabled ops (key_enable ops k) \<and> \<not> key_enabled ops (key_disable ops k))"

definition DebugSite_new ::
  "'k \<Rightarrow> string \<Rightarrow> string \<Rightarrow> nat \<Rightarrow> string \<Rightarrow> string \<Rightarrow> 'k debug_site" where
  "DebugSite_new key mdl file line func fmt =
     \<lparr>site_flags = 0, site_line = line, site_module = mdl, site_file = file,
      site_function = func, site_format = fmt, site_key = key\<rparr>"

definition has_flag :: "u8 \<Rightarrow> u8 \<Rightarrow> bool" where
  "has_flag flags b \<longleftrightarrow> flags AND b \<noteq> 0"

definition set_flags :: "'k key_ops \<Rightarrow> 'k debug_site \<Rightarrow> u8 \<Rightarrow> 'k debug_site" where
  "set_flags ops site new =
     (let prev = site_flags site;
          site = site\<lparr>site_flags := new\<rparr>;
          prev_print = has_flag prev FLAG_PRINT;
          next_print = has_flag new FLAG_PRINT
      in if prev_print = next_print then site
         else if next_print then site\<lparr>site_key := key_enable ops (site_key site)\<rparr>
         else site\<lparr>site_key := key_disable ops (site_key site)\<rparr>)"

section \<open>Flag letters\<close>

definition flag_mask_for :: "char \<Rightarrow> u8 option" where
  "flag_mask_for c =
     (if c = CHR ''p'' then Some FLAG_PRINT
      else if c = CHR ''t'' then Some FLAG_THREAD
      else if c = CHR ''m'' then Some FLAG_MODULE
      else if c = CHR ''f'' then Some FLAG_FUNC
      else if c = CHR ''s'' then Some FLAG_SOURCE
      else if c = CHR ''l'' then Some FLAG_LINE
      else None)"

definition flag_table :: "(u8 \<times> char) list" where
  "flag_table =
     [(FLAG_PRINT, CHR ''p''), (FLAG_THREAD, CHR ''t''), (FLAG_MODULE, CHR ''m''),
      (FLAG_FUNC, CHR ''f''), (FLAG_SOURCE, CHR ''s''), (FLAG_LINE, CHR ''l'')]"

definition flag_letters :: "u8 \<Rightarrow> string" where
  "flag_letters flags = map snd (filter (\<lambda>(b, c). has_flag flags b) flag_table)"

definition flags_to_string :: "u8 \<Rightarrow> string" where
  "flags_to_string flags =
     ''='' @ (if flag_letters flags = [] then ''_'' else flag_letters flags)"

section \<open>Emitting a line\<close>

text \<open>\<open>tid\<close> is what \<open>K::thread_id()\<close> returns.\<close>

definition append_prefix :: "nat \<Rightarrow> 'k debug_site \<Rightarrow> u8 \<Rightarrow> string" where
  "append_prefix tid site flags =
     (if has_flag flags FLAG_THREAD then ''tid='' @ show_nat tid @ '' '' else []) @
     (if has_flag flags FLAG_MODULE then ''['' @ site_module site @ ''] '' else []) @
     (if has_flag flags FLAG_FUNC \<and> site_function site \<noteq> [] then site_function site @ '' '' else []) @
     (if has_flag flags FLAG_SOURCE
      then site_file site @ (if has_flag flags FLAG_LINE then '':'' @ show_nat (site_line site) else []) @ '' ''
      else if has_flag flags FLAG_LINE then ''line:'' @ show_nat (site_line site) @ '' '' else [])"

text \<open>The line handed to \<open>K::emit\<close>, if any; \<open>args\<close> is the formatted message.\<close>

definition dynamic_pr_debug :: "nat \<Rightarrow> 'k debug_site \<Rightarrow> string \<Rightarrow> string option" where
  "dynamic_pr_debug tid site args =
     (let flags = site_flags site in
      if \<not> has_flag flags FLAG_PRINT then None
      else let line = append_prefix tid site flags @ args
           in Some (if ends_with line [CHR 0x0A] then line else line @ [CHR 0x0A]))"

text \<open>
  The \<open>pr_debug!\<close> macros of \<open>ddebug/src/lib.rs\<close>: the call sits behind the static key.
\<close>

definition pr_debug :: "'k key_ops \<Rightarrow> nat \<Rightarrow> 'k debug_site \<Rightarrow> string \<Rightarrow> string option" where
  "pr_debug ops tid site args =
     (if key_enabled ops (site_key site) then dynamic_pr_debug tid site args else None)"

text \<open>The catalogue: the sites of the linker section in a stable sort.\<close>

definition site_order :: "'k debug_site \<Rightarrow> string \<times> nat \<times> string \<times> string \<times> string" where
  "site_order s = (site_file s, site_line s, site_module s, site_function s, site_format s)"

definition scan_debug_sites :: "'k debug_site list \<Rightarrow> 'k debug_site list" where
  "scan_debug_sites raw_sites = sort_key site_order raw_sites"

section \<open>The key follows the print flag\<close>

definition key_synced :: "'k key_ops \<Rightarrow> 'k debug_site \<Rightarrow> bool" where
  "key_synced ops site \<longleftrightarrow> key_enabled ops (site_key site) = has_flag (site_flags site) FLAG_PRINT"

lemma set_flags_synced: "key_laws ops \<Longrightarrow> key_synced ops site \<Longrightarrow> key_synced ops (set_flags ops site f)"
  by (auto simp: key_synced_def set_flags_def key_laws_def Let_def)

lemma set_flags_flags [simp]: "site_flags (set_flags ops site f) = f"
  by (simp add: set_flags_def Let_def)

lemma set_flags_rest [simp]:
  "site_line (set_flags ops site f) = site_line site"
  "site_module (set_flags ops site f) = site_module site"
  "site_file (set_flags ops site f) = site_file site"
  "site_function (set_flags ops site f) = site_function site"
  "site_format (set_flags ops site f) = site_format site"
  by (simp_all add: set_flags_def Let_def)

lemma new_synced:
  "\<not> key_enabled ops k \<Longrightarrow> key_synced ops (DebugSite_new k mdl file line func fmt)"
  by (simp add: key_synced_def DebugSite_new_def has_flag_def)

end
