(* ===== verification/DdebugControl.thy ===== *)
theory DdebugControl
  imports DdebugRuntime
begin

text \<open>
  The control file of dynamic debug, \<open>ddebug/src/control.rs\<close>: the command tokenizer and
  parser, the selectors with their glob matcher, flag operations, and \<open>ControlFile::read\<close> and
  \<open>ControlFile::write\<close>. A query is the list of its characters (code points); tokens are
  strings of bytes.
\<close>

section \<open>Commands\<close>

record line_range =
  lr_start :: nat
  lr_end :: nat

definition range_contains :: "line_range \<Rightarrow> nat \<Rightarrow> bool" where
  "range_contains r line \<longleftrightarrow> lr_start r \<le> line \<and> line \<le> lr_end r"

datatype flag_op_kind = Add | Remove | Replace

record flag_op =
  fo_kind :: flag_op_kind
  fo_mask :: u8

definition flag_op_apply :: "flag_op \<Rightarrow> u8 \<Rightarrow> u8" where
  "flag_op_apply op current =
     (case fo_kind op of
        Add \<Rightarrow> current OR fo_mask op
      | Remove \<Rightarrow> current AND NOT (fo_mask op)
      | Replace \<Rightarrow> fo_mask op)"

datatype selector = File string | Func string | Module string | Line line_range | Format string

record command =
  selectors :: "selector list"
  operation :: flag_op

text \<open>
  The messages of \<open>Error\<close>. \<open>UnknownFlag cs token\<close> is reported for the first character
  of \<open>cs\<close>.
\<close>

datatype ctl_error =
    EmptyCommand
  | MultipleFlagOps
  | UnknownToken string
  | MissingFlagOp
  | MissingValue string
  | BadLineRange string
  | InvalidNumber string string
  | NoFlags string
  | BadUnderscore string
  | UnknownFlag string string
  | UnterminatedQuote
  | EmptyFlagOp

section \<open>Matching\<close>

definition has_glob :: "string \<Rightarrow> bool" where
  "has_glob pat \<longleftrightarrow> list_ex (\<lambda>b. b = CHR ''*'' \<or> b = CHR ''?'') pat"

text \<open>
  The first loop of \<open>glob_match\<close>: positions in pattern and value, the position of the last
  star and the value position it was tried at. The result is the pattern position at the end of
  the value, or \<open>None\<close> where the loop returns false.
\<close>

abbreviation star_behind :: "nat \<Rightarrow> nat \<Rightarrow> nat option \<Rightarrow> nat \<Rightarrow> bool" where
  "star_behind pi vi star sm \<equiv> (case star of None \<Rightarrow> True | Some s \<Rightarrow> s < pi \<and> sm \<le> vi)"

function glob_loop :: "string \<Rightarrow> string \<Rightarrow> nat \<Rightarrow> nat \<Rightarrow> nat option \<Rightarrow> nat \<Rightarrow> nat option" where
  "glob_loop pat val pi vi star sm =
     (if vi < length val then
        if pi < length pat \<and> (pat ! pi = CHR ''?'' \<or> pat ! pi = val ! vi)
        then glob_loop pat val (pi + 1) (vi + 1) star sm
        else if pi < length pat \<and> pat ! pi = CHR ''*''
        then glob_loop pat val (pi + 1) vi (Some pi) vi
        else (case star of
                Some s \<Rightarrow> glob_loop pat val (s + 1) (sm + 1) (Some s) (sm + 1)
              | None \<Rightarrow> None)
      else Some pi)"
  by pat_completeness auto
termination
  by (relation "measures
      [\<lambda>(pat, val, pi, vi, star, sm). if star_behind pi vi star sm then 0 else 1,
       \<lambda>(pat, val, pi, vi, star, sm).
         if \<not> star_behind pi vi star sm then 0
         else case star of None \<Rightarrow> Suc (length val) | Some s \<Rightarrow> length val - sm,
       \<lambda>(pat, val, pi, vi, star, sm). length pat - pi]")
    (auto split: option.split)

declare glob_loop.simps [simp del]

text \<open>The second loop skips the stars left in the pattern.\<close>

definition glob_tail :: "string \<Rightarrow> nat \<Rightarrow> bool" where
  "glob_tail pat pi \<longleftrightarrow> dropWhile (\<lambda>b. b = CHR ''*'') (drop pi pat) = []"

definition glob_match :: "string \<Rightarrow> string \<Rightarrow> bool" where
  "glob_match pat val =
     (case glob_loop pat val 0 0 None 0 of None \<Rightarrow> False | Some pi \<Rightarrow> glob_tail pat pi)"

definition matches_file :: "string \<Rightarrow> string \<Rightarrow> bool" where
  "matches_file pat val =
     (if has_glob pat then glob_match pat val else val = pat \<or> ends_with val pat)"

definition matches_module :: "string \<Rightarrow> string \<Rightarrow> bool" where
  "matches_module pat val =
     (if has_glob pat then glob_match pat val
      else val = pat \<or>
        (case strip_suffix val pat of None \<Rightarrow> False | Some pre \<Rightarrow> ends_with pre ''::''))"

definition matches_func :: "string \<Rightarrow> string \<Rightarrow> bool" where
  "matches_func pat val =
     (if has_glob pat then glob_match pat val \<or> glob_match pat (rsplit_next ''::'' val)
      else val = pat \<or> rsplit_next ''::'' val = pat)"

definition matches_format :: "string \<Rightarrow> string \<Rightarrow> bool" where
  "matches_format pat val = (if has_glob pat then glob_match pat val else contains val pat)"

fun selector_matches :: "selector \<Rightarrow> 'k debug_site \<Rightarrow> bool" where
  "selector_matches (File p) site = matches_file p (site_file site)"
| "selector_matches (Func p) site = matches_func p (site_function site)"
| "selector_matches (Module p) site = matches_module p (site_module site)"
| "selector_matches (Line r) site = range_contains r (site_line site)"
| "selector_matches (Format p) site = matches_format p (site_format site)"

definition command_matches :: "command \<Rightarrow> 'k debug_site \<Rightarrow> bool" where
  "command_matches c site = list_all (\<lambda>sel. selector_matches sel site) (selectors c)"

section \<open>Parsing commands\<close>

text \<open>The state of the tokenizer; characters are code points.\<close>

record tok_state =
  ts_commands :: "string list list"
  ts_current :: "string list"
  ts_token :: string
  ts_quote :: "nat option"
  ts_escape :: bool

definition finish_token :: "tok_state \<Rightarrow> tok_state" where
  "finish_token st =
     (if ts_token st = [] then st
      else st\<lparr>ts_current := ts_current st @ [ts_token st], ts_token := []\<rparr>)"

definition push_char :: "nat \<Rightarrow> tok_state \<Rightarrow> tok_state" where
  "push_char c st = st\<lparr>ts_token := ts_token st @ utf8_char c\<rparr>"

definition end_command :: "tok_state \<Rightarrow> tok_state" where
  "end_command st =
     (if ts_current st = [] then st
      else st\<lparr>ts_commands := ts_commands st @ [ts_current st], ts_current := []\<rparr>)"

definition tok_step :: "tok_state \<Rightarrow> nat \<Rightarrow> tok_state" where
  "tok_step st c =
     (if ts_escape st then (push_char c st)\<lparr>ts_escape := False\<rparr>
      else case ts_quote st of
        Some q \<Rightarrow>
          (if c = 0x5C then st\<lparr>ts_escape := True\<rparr>
           else if c = q then st\<lparr>ts_quote := None\<rparr>
           else push_char c st)
      | None \<Rightarrow>
          (if c = 0x5C then st\<lparr>ts_escape := True\<rparr>
           else if c = 0x22 \<or> c = 0x27 then st\<lparr>ts_quote := Some c\<rparr>
           else if c = 0x3B \<or> c = 0x0A then end_command (finish_token st)
           else if is_whitespace c then finish_token st
           else push_char c st))"

definition tok_init :: tok_state where
  "tok_init = \<lparr>ts_commands = [], ts_current = [], ts_token = [], ts_quote = None, ts_escape = False\<rparr>"

definition tokenize :: "nat list \<Rightarrow> (ctl_error, string list list) result" where
  "tokenize inp =
     (let st = foldl tok_step tok_init inp in
      if ts_quote st \<noteq> None then Err UnterminatedQuote
      else
        let st = (if ts_escape st then push_char 0x5C st else st)
        in Ok (ts_commands (end_command (finish_token st))))"

definition is_flag_token :: "string \<Rightarrow> bool" where
  "is_flag_token token =
     (case token of [] \<Rightarrow> False | h # _ \<Rightarrow> h = CHR ''+'' \<or> h = CHR ''-'' \<or> h = CHR ''='')"

fun flag_loop :: "string \<Rightarrow> string \<Rightarrow> u8 \<Rightarrow> (ctl_error, u8) result" where
  "flag_loop token [] msk = Ok msk"
| "flag_loop token (c # cs) msk =
     (if c = CHR ''_'' then Err (BadUnderscore token)
      else case flag_mask_for c of
        None \<Rightarrow> Err (UnknownFlag (c # cs) token)
      | Some flag \<Rightarrow> flag_loop token cs (msk OR flag))"

text \<open>Called on a flag token, whose first character is one of \<open>+\<close>, \<open>-\<close> and \<open>=\<close>.\<close>

definition parse_flag_op :: "string \<Rightarrow> (ctl_error, flag_op) result" where
  "parse_flag_op token =
     (case token of
        [] \<Rightarrow> Err EmptyFlagOp
      | h # rest \<Rightarrow>
          (if h = CHR ''='' \<and> rest = ''_'' then Ok \<lparr>fo_kind = Replace, fo_mask = 0\<rparr>
           else if rest = [] then Err (NoFlags token)
           else and_then (flag_loop token rest 0) (\<lambda>msk.
             Ok \<lparr>fo_kind = (if h = CHR ''+'' then Add else if h = CHR ''-'' then Remove else Replace),
                 fo_mask = msk\<rparr>)))"

definition parse_u32 :: "string \<Rightarrow> string \<Rightarrow> (ctl_error, nat) result" where
  "parse_u32 text what =
     (case from_str_radix 10 0 U32_MAX text of
        Inl _ \<Rightarrow> Err (InvalidNumber what text)
      | Inr v \<Rightarrow> Ok (nat v))"

definition parse_line_range :: "string \<Rightarrow> (ctl_error, line_range) result" where
  "parse_line_range text =
     (case split_once (CHR ''-'') text of
        Some (start, stop) \<Rightarrow>
          and_then (parse_u32 start ''line range start'') (\<lambda>a.
          and_then (parse_u32 stop ''line range end'') (\<lambda>b.
            if a > b then Err (BadLineRange text) else Ok \<lparr>lr_start = a, lr_end = b\<rparr>))
      | None \<Rightarrow>
          and_then (parse_u32 text ''line'') (\<lambda>line. Ok \<lparr>lr_start = line, lr_end = line\<rparr>))"

text \<open>The selector that a keyword and its value make, \<open>None\<close> for an unknown keyword.\<close>

definition parse_selector :: "string \<Rightarrow> string \<Rightarrow> (ctl_error, selector) result" where
  "parse_selector keyword v =
     (if keyword = ''file'' then Ok (File v)
      else if keyword = ''func'' then Ok (Func v)
      else if keyword = ''module'' then Ok (Module v)
      else if keyword = ''line'' then and_then (parse_line_range v) (\<lambda>r. Ok (Line r))
      else Ok (Format v))"

definition is_keyword :: "string \<Rightarrow> bool" where
  "is_keyword t = List.member [''file'', ''func'', ''module'', ''line'', ''format''] t"

text \<open>The loop of \<open>parse_command\<close> over the tokens from \<open>index\<close> on.\<close>

fun command_loop ::
  "string list \<Rightarrow> selector list \<Rightarrow> flag_op option \<Rightarrow> (ctl_error, selector list \<times> flag_op option) result" where
  "command_loop [] sels op = Ok (sels, op)"
| "command_loop (token # rest) sels op =
     (if is_flag_token token then
        if op \<noteq> None then Err MultipleFlagOps
        else and_then (parse_flag_op token) (\<lambda>f. command_loop rest sels (Some f))
      else if is_keyword token then
        (case rest of
           [] \<Rightarrow> Err (MissingValue token)
         | v # rest' \<Rightarrow>
             and_then (parse_selector token v) (\<lambda>sel. command_loop rest' (sels @ [sel]) op))
      else Err (UnknownToken token))"

definition parse_command :: "string list \<Rightarrow> (ctl_error, command) result" where
  "parse_command tokens =
     and_then (command_loop tokens [] None) (\<lambda>(sels, op).
     and_then (ok_or op MissingFlagOp) (\<lambda>f. Ok \<lparr>selectors = sels, operation = f\<rparr>))"

fun parse_lines :: "string list list \<Rightarrow> (ctl_error, command list) result" where
  "parse_lines [] = Ok []"
| "parse_lines (l # ls) =
     and_then (parse_command l) (\<lambda>c. and_then (parse_lines ls) (\<lambda>cs. Ok (c # cs)))"

definition parse_commands :: "nat list \<Rightarrow> (ctl_error, command list) result" where
  "parse_commands inp =
     and_then (tokenize inp) (\<lambda>ls. if ls = [] then Err EmptyCommand else parse_lines ls)"

section \<open>The control file\<close>

fun apply_command :: "'k key_ops \<Rightarrow> command \<Rightarrow> 'k debug_site list \<Rightarrow> nat \<times> 'k debug_site list" where
  "apply_command ops c [] = (0, [])"
| "apply_command ops c (site # sites) =
     (let (n, sites') = apply_command ops c sites in
      if \<not> command_matches c site then (n, site # sites')
      else (n + 1, set_flags ops site (flag_op_apply (operation c) (site_flags site)) # sites'))"

fun apply_commands :: "'k key_ops \<Rightarrow> command list \<Rightarrow> nat \<Rightarrow> 'k debug_site list \<Rightarrow> nat \<times> 'k debug_site list" where
  "apply_commands ops [] acc sites = (acc, sites)"
| "apply_commands ops (c # cs) acc sites =
     (let (n, sites') = apply_command ops c sites in apply_commands ops cs (acc + n) sites')"

text \<open>\<open>ControlFile::write\<close>: an error leaves the sites as they are.\<close>

definition control_write ::
  "'k key_ops \<Rightarrow> nat list \<Rightarrow> 'k debug_site list \<Rightarrow> (ctl_error, nat) result \<times> 'k debug_site list" where
  "control_write ops query sites =
     (case parse_commands query of
        Inl e \<Rightarrow> (Err e, sites)
      | Inr cs \<Rightarrow> (let (n, sites') = apply_commands ops cs 0 sites in (Ok n, sites')))"

definition write_site_line :: "'k debug_site \<Rightarrow> string" where
  "write_site_line site =
     (if site_function site = []
      then site_file site @ '':'' @ show_nat (site_line site) @ '' ['' @ site_module site @ ''] '' @
        flags_to_string (site_flags site) @ '' '' @ [CHR 0x22] @ site_format site @ [CHR 0x22, CHR 0x0A]
      else site_file site @ '':'' @ show_nat (site_line site) @ '' ['' @ site_module site @ '']'' @
        site_function site @ '' '' @
        flags_to_string (site_flags site) @ '' '' @ [CHR 0x22] @ site_format site @ [CHR 0x22, CHR 0x0A])"

definition control_read :: "'k debug_site list \<Rightarrow> string" where
  "control_read sites =
     ''# filename:lineno [module]function flags format'' @ [CHR 0x0A] @
     concat (map write_site_line sites)"

section \<open>The glob matcher\<close>

text \<open>Reference: \<open>*\<close> stands for any string, \<open>?\<close> for any byte.\<close>

fun wild :: "string \<Rightarrow> string \<Rightarrow> bool" where
  "wild [] v \<longleftrightarrow> v = []"
| "wild (c # p) v \<longleftrightarrow>
     (if c = CHR ''*'' then \<exists>k \<in> {0..length v}. wild p (drop k v)
      else case v of [] \<Rightarrow> False | x # xs \<Rightarrow> (c = CHR ''?'' \<or> c = x) \<and> wild p xs)"

lemma wild_Nil: "wild p [] \<longleftrightarrow> dropWhile (\<lambda>b. b = CHR ''*'') p = []"
  by (induction p) auto

lemma wild_fixed:
  "wild p v \<Longrightarrow> CHR ''*'' \<notin> set (take n p) \<Longrightarrow> n \<le> length p \<Longrightarrow>
     n \<le> length v \<and> wild (drop n p) (drop n v)"
proof (induction n arbitrary: p v)
  case (Suc n)
  then obtain c p' where p: "p = c # p'" by (cases p) auto
  with Suc.prems obtain x xs where v: "v = x # xs" by (cases v) auto
  with p Suc.prems Suc.IH [of p' xs] show ?case by auto
qed simp

lemma wild_star:
  "wild (CHR ''*'' # p) (drop vi val) \<longleftrightarrow> (\<exists>k. vi \<le> k \<and> k \<le> max vi (length val) \<and> wild p (drop k val))"
proof
  assume "wild (CHR ''*'' # p) (drop vi val)"
  then obtain k where "k \<le> length val - vi" "wild p (drop (k + vi) val)" by auto
  then show "\<exists>k. vi \<le> k \<and> k \<le> max vi (length val) \<and> wild p (drop k val)"
    by (intro exI [of _ "k + vi"]) auto
next
  assume "\<exists>k. vi \<le> k \<and> k \<le> max vi (length val) \<and> wild p (drop k val)"
  then obtain k where "vi \<le> k" "k \<le> max vi (length val)" "wild p (drop k val)" by blast
  then show "wild (CHR ''*'' # p) (drop vi val)" by (auto intro!: bexI [of _ "k - vi"])
qed

text \<open>The loop state: the last star is behind, and the bytes since then are matched one to one.\<close>

definition loop_ok :: "string \<Rightarrow> string \<Rightarrow> nat \<Rightarrow> nat \<Rightarrow> nat option \<Rightarrow> nat \<Rightarrow> bool" where
  "loop_ok pat val pi vi star sm \<longleftrightarrow>
     pi \<le> length pat \<and> vi \<le> length val \<and>
     (\<forall>s. star = Some s \<longrightarrow>
        s < pi \<and> vi = sm + (pi - Suc s) \<and> CHR ''*'' \<notin> set (take (pi - Suc s) (drop (Suc s) pat)))"

definition retry :: "string \<Rightarrow> string \<Rightarrow> nat option \<Rightarrow> nat \<Rightarrow> bool" where
  "retry pat val star sm \<longleftrightarrow>
     (\<exists>s k. star = Some s \<and> sm < k \<and> k \<le> length val \<and> wild (drop (Suc s) pat) (drop k val))"

lemma retry_step:
  assumes "sm < length val"
  shows "retry pat val (Some s) sm \<longleftrightarrow>
     wild (drop (Suc s) pat) (drop (Suc sm) val) \<or> retry pat val (Some s) (Suc sm)"
proof
  assume "retry pat val (Some s) sm"
  then obtain k where "sm < k" "k \<le> length val" "wild (drop (Suc s) pat) (drop k val)"
    by (auto simp: retry_def)
  then show "wild (drop (Suc s) pat) (drop (Suc sm) val) \<or> retry pat val (Some s) (Suc sm)"
    by (cases "k = Suc sm") (auto simp: retry_def)
next
  assume "wild (drop (Suc s) pat) (drop (Suc sm) val) \<or> retry pat val (Some s) (Suc sm)"
  then show "retry pat val (Some s) sm"
    using assms by (auto simp: retry_def intro: Suc_lessD exI [of _ "Suc sm"])
qed

lemma retry_behind:
  assumes "retry pat val star sm" "loop_ok pat val pi vi star sm"
  shows "\<exists>k. vi < k \<and> k \<le> length val \<and> wild (drop pi pat) (drop k val)"
proof -
  obtain s k where s: "star = Some s" and k: "sm < k" "k \<le> length val"
    and w: "wild (drop (Suc s) pat) (drop k val)" using assms(1) by (auto simp: retry_def)
  have ok: "s < pi" "vi = sm + (pi - Suc s)" "CHR ''*'' \<notin> set (take (pi - Suc s) (drop (Suc s) pat))"
    "pi - Suc s \<le> length (drop (Suc s) pat)"
    using assms(2) s by (auto simp: loop_ok_def)
  from wild_fixed [OF w ok(3,4)] have "pi - Suc s \<le> length val - k"
    "wild (drop pi pat) (drop (k + (pi - Suc s)) val)" using ok(1) by (auto simp: add.commute)
  with ok(2) k show ?thesis by (intro exI [of _ "k + (pi - Suc s)"]) auto
qed

lemma take_segment:
  assumes "s < pi" "pi < length pat"
  shows "take (pi - s) (drop (Suc s) pat) = take (pi - Suc s) (drop (Suc s) pat) @ [pat ! pi]"
proof -
  have "pi - s = Suc (pi - Suc s)" using assms by simp
  then show ?thesis using assms by (simp add: take_Suc_conv_app_nth)
qed

lemma glob_loop_accepts:
  "loop_ok pat val pi vi star sm \<Longrightarrow> CHR ''*'' \<notin> set val \<Longrightarrow>
     (case glob_loop pat val pi vi star sm of None \<Rightarrow> False | Some i \<Rightarrow> glob_tail pat i) \<longleftrightarrow>
     wild (drop pi pat) (drop vi val) \<or> retry pat val star sm"
proof (induction pat val pi vi star sm rule: glob_loop.induct)
  case (1 pat val pi vi star sm)
  note ok = "1.prems"(1) and nostar = "1.prems"(2)
  have "vi = length val \<or> vi < length val" using ok by (auto simp: loop_ok_def)
  then consider (stop) "vi = length val" | (same) "vi < length val" "pi < length pat" "pat ! pi = CHR ''?'' \<or> pat ! pi = val ! vi"
    | (star) "vi < length val" "pi < length pat" "pat ! pi = CHR ''*''" "pat ! pi \<noteq> val ! vi"
    | (mismatch) "vi < length val" "\<not> (pi < length pat \<and> (pat ! pi = CHR ''?'' \<or> pat ! pi = val ! vi \<or> pat ! pi = CHR ''*''))"
    by metis
  then show ?case
  proof cases
    case stop
    then have "\<not> retry pat val star sm" using retry_behind [OF _ ok] by auto
    with stop show ?thesis
      by (simp add: glob_loop.simps [of pat val pi "length val"] glob_tail_def wild_Nil)
  next
    case same
    then have c: "pat ! pi \<noteq> CHR ''*''" using nostar by (auto simp: in_set_conv_nth)
    have "loop_ok pat val (pi + 1) (vi + 1) star sm"
      using ok same c by (auto simp: loop_ok_def take_segment)
    with "1.IH"(1) same nostar c show ?thesis
      by (simp add: glob_loop.simps [of pat val pi vi] drop_eq_Cons [of pi pat] drop_eq_Cons [of vi val])
  next
    case star
    have "loop_ok pat val (pi + 1) vi (Some pi) vi" using ok star by (auto simp: loop_ok_def)
    note IH = "1.IH"(2) [OF star(1) _ _ this nostar]
    have p: "wild (drop pi pat) (drop vi val) \<longleftrightarrow>
        wild (drop (Suc pi) pat) (drop vi val) \<or> retry pat val (Some pi) vi"
      unfolding drop_eq_Cons [OF star(2)] star(3) wild_star
      using star(1) by (auto simp: retry_def max_def le_less)
    have "retry pat val star sm \<Longrightarrow> wild (drop pi pat) (drop vi val)"
      using retry_behind [OF _ ok] unfolding drop_eq_Cons [OF star(2)] star(3) wild_star
      by (auto simp: max_def) (metis less_imp_le_nat order_trans)
    with IH star p show ?thesis
      by (auto simp: glob_loop.simps [of pat val pi vi])
  next
    case mismatch
    then have w: "\<not> wild (drop pi pat) (drop vi val)"
      by (cases "pi < length pat") (auto simp: drop_eq_Cons)
    show ?thesis
    proof (cases star)
      case None
      with mismatch w show ?thesis by (auto simp: glob_loop.simps [of pat val pi vi] retry_def)
    next
      case (Some s)
      then have "loop_ok pat val (s + 1) (sm + 1) (Some s) (sm + 1)"
        using ok mismatch(1) by (auto simp: loop_ok_def)
      note IH = "1.IH"(3) [OF mismatch(1) _ _ Some this nostar]
      have "retry pat val star sm \<longleftrightarrow>
          wild (drop (Suc s) pat) (drop (Suc sm) val) \<or> retry pat val (Some s) (Suc sm)"
        unfolding Some using ok mismatch(1) Some by (intro retry_step) (auto simp: loop_ok_def)
      with IH mismatch w Some show ?thesis
        by (auto simp: glob_loop.simps [of pat val pi vi])
    qed
  qed
qed

text \<open>
  The backtracking matcher with a single remembered star decides the wildcard language on
  every value that has no \<open>*\<close> of its own.
\<close>

theorem glob_match_correct:
  assumes "CHR ''*'' \<notin> set val"
  shows "glob_match pat val \<longleftrightarrow> wild pat val"
  using glob_loop_accepts [of pat val 0 0 None 0] assms
  by (simp add: glob_match_def loop_ok_def retry_def)

theorem glob_match_correct_witness:
  "glob_match ''a*b?'' ''axbxby'' \<and> wild ''a*b?'' ''axbxby''"
proof -
  have "CHR ''*'' \<notin> set ''axbxby''" by simp
  from glob_match_correct [OF this, of "''a*b?''"] show ?thesis
    by (simp add: eval_nat_numeral atLeastAtMostSuc_conv)
qed

text \<open>On a value with a star the literal comparison comes first and the wildcard is lost.\<close>

lemma glob_match_star_value: "\<not> glob_match ''*'' ''*a'' \<and> wild ''*'' ''*a''"
proof
  show "\<not> glob_match ''*'' ''*a''" by code_simp
  show "wild ''*'' ''*a''" by (simp add: eval_nat_numeral atLeastAtMostSuc_conv)
qed

section \<open>The effect of a query\<close>

definition same_site :: "'k debug_site \<Rightarrow> 'k debug_site \<Rightarrow> bool" where
  "same_site s t \<longleftrightarrow>
     site_line s = site_line t \<and> site_module s = site_module t \<and> site_file s = site_file t \<and>
     site_function s = site_function t \<and> site_format s = site_format t"

lemma same_site_matches: "same_site s t \<Longrightarrow> command_matches c s = command_matches c t"
proof -
  assume "same_site s t"
  then have "selector_matches sel s = selector_matches sel t" for sel
    by (cases sel) (auto simp: same_site_def)
  then show ?thesis by (simp add: command_matches_def)
qed

definition updated :: "command \<Rightarrow> 'k debug_site \<Rightarrow> u8 \<Rightarrow> u8" where
  "updated c site f = (if command_matches c site then flag_op_apply (operation c) f else f)"

lemma apply_command_effect:
  "fst (apply_command ops c sites) = length (filter (command_matches c) sites)"
  "snd (apply_command ops c sites) =
     map (\<lambda>s. if command_matches c s then set_flags ops s (flag_op_apply (operation c) (site_flags s)) else s) sites"
  by (induction sites) (auto simp: split_beta Let_def)

text \<open>
  What the commands do to one site: its flags go through the operation of each command that
  matches it, in order.
\<close>

definition final_flags :: "command list \<Rightarrow> 'k debug_site \<Rightarrow> u8" where
  "final_flags cs s = foldl (\<lambda>f c. updated c s f) (site_flags s) cs"

definition match_count :: "command list \<Rightarrow> 'k debug_site list \<Rightarrow> nat" where
  "match_count cs sites = sum_list (map (\<lambda>c. length (filter (command_matches c) sites)) cs)"

lemma foldl_updated_same:
  "same_site s t \<Longrightarrow> foldl (\<lambda>f c. updated c s f) x cs = foldl (\<lambda>f c. updated c t f) x cs"
  by (induction cs arbitrary: x) (auto simp: updated_def same_site_matches)

lemma filter_same_length:
  "list_all2 same_site ss ts \<Longrightarrow>
     length (filter (command_matches c) ss) = length (filter (command_matches c) ts)"
  by (induction rule: list_all2_induct) (auto simp: same_site_matches)

lemma apply_commands_effect:
  "fst (apply_commands ops cs n sites) = n + match_count cs sites"
  "list_all2 (\<lambda>s t. same_site s t \<and> site_flags t = final_flags cs s) sites (snd (apply_commands ops cs n sites))"
proof (induction cs arbitrary: n sites)
  case Nil
  {
    case 1 show ?case by (simp add: match_count_def)
  next
    case 2 show ?case by (auto simp: final_flags_def same_site_def intro!: list_all2_refl)
  }
next
  case (Cons c cs)
  let ?step = "\<lambda>s. if command_matches c s then set_flags ops s (flag_op_apply (operation c) (site_flags s)) else s"
  have eq: "apply_commands ops (c # cs) n sites =
      apply_commands ops cs (n + length (filter (command_matches c) sites)) (map ?step sites)" for n sites
    using apply_command_effect [of ops c sites] by (simp add: split_beta Let_def)
  have same: "list_all2 same_site (map ?step sites) sites" for sites
    by (auto simp: list_all2_conv_all_nth same_site_def)
  {
    case 1
    have "match_count cs (map ?step sites) = match_count cs sites"
      by (simp only: match_count_def filter_same_length [OF same])
    then show ?case by (simp only: eq Cons.IH(1)) (simp add: match_count_def)
  next
    case 2
    have flags: "final_flags cs (?step s) = final_flags (c # cs) s" for s
    proof -
      have "same_site (?step s) s" by (simp add: same_site_def)
      from foldl_updated_same [OF this, of _ cs] show ?thesis
        by (simp add: final_flags_def updated_def)
    qed
    have "list_all2 (\<lambda>s t. same_site s t \<and> site_flags t = final_flags cs s) (map ?step sites)
        (snd (apply_commands ops (c # cs) n sites))" unfolding eq by (rule Cons.IH(2))
    then have "list_all2 (\<lambda>s t. same_site (?step s) t \<and> site_flags t = final_flags cs (?step s)) sites
        (snd (apply_commands ops (c # cs) n sites))" by (simp add: list_all2_map1)
    then show ?case
      by (rule list_all2_mono) (unfold flags, auto simp: same_site_def split: if_splits)
  }
qed

text \<open>
  C20: a write to the control file is all or nothing. A query that does not parse changes no
  site; otherwise the result counts the matches of every command, and each site keeps its
  identity and ends with the flags its matching commands give, in order.
\<close>

theorem control_write_effect:
  "(case parse_commands query of
      Inl e \<Rightarrow> control_write ops query sites = (Err e, sites)
    | Inr cs \<Rightarrow>
        fst (control_write ops query sites) = Ok (match_count cs sites) \<and>
        list_all2 (\<lambda>s t. same_site s t \<and> site_flags t = final_flags cs s)
          sites (snd (control_write ops query sites)))"
  using apply_commands_effect [where ops = ops and n = 0 and sites = sites]
  by (auto simp: control_write_def split_beta split: sum.split)

text \<open>The control file after a sequence of queries.\<close>

definition control_writes :: "'k key_ops \<Rightarrow> nat list list \<Rightarrow> 'k debug_site list \<Rightarrow> 'k debug_site list" where
  "control_writes ops queries sites = foldl (\<lambda>ss q. snd (control_write ops q ss)) sites queries"

lemma apply_commands_synced:
  assumes "key_laws ops"
  shows "list_all (key_synced ops) sites \<Longrightarrow>
    list_all (key_synced ops) (snd (apply_commands ops cs n sites))"
proof (induction cs arbitrary: n sites)
  case (Cons c cs)
  have "list_all (key_synced ops) (snd (apply_command ops c sites))"
    using Cons.prems set_flags_synced [OF assms] by (auto simp: apply_command_effect list_all_iff)
  with Cons.IH show ?case by (simp add: split_beta Let_def)
qed simp

lemma control_writes_synced:
  assumes "key_laws ops"
  shows "list_all (key_synced ops) sites \<Longrightarrow> list_all (key_synced ops) (control_writes ops queries sites)"
  unfolding control_writes_def
proof (induction queries arbitrary: sites)
  case (Cons q qs)
  have "list_all (key_synced ops) (snd (control_write ops q sites))"
    using apply_commands_synced [OF assms Cons.prems]
    by (auto simp: control_write_def split_beta Cons.prems split: sum.split)
  with Cons.IH show ?case by simp
qed simp

text \<open>
  C21: whatever queries are written to the control file, a call site emits its line, prefix
  and message with a final newline, exactly when its print flag is set: the static key in front
  of the call never gets out of step with the flags.
\<close>

theorem pr_debug_follows_flags:
  assumes "key_laws ops" "list_all (key_synced ops) sites"
    and "site \<in> set (control_writes ops queries sites)"
  shows "pr_debug ops tid site args =
     (if has_flag (site_flags site) FLAG_PRINT
      then let line = append_prefix tid site (site_flags site) @ args
           in Some (if ends_with line [CHR 0x0A] then line else line @ [CHR 0x0A])
      else None)"
proof -
  have "key_synced ops site"
    using control_writes_synced [OF assms(1,2)] assms(3) by (auto simp: list_all_iff)
  then show ?thesis by (simp add: pr_debug_def dynamic_pr_debug_def key_synced_def Let_def)
qed

definition bool_key :: "bool key_ops" where
  "bool_key = \<lparr>key_enable = (\<lambda>_. True), key_disable = (\<lambda>_. False), key_enabled = id\<rparr>"

theorem pr_debug_follows_flags_witness:
  "\<exists>site. control_writes bool_key [map of_char ''module app +p'']
       [DebugSite_new False ''app'' ''a.rs'' 7 [] ''hi''] = [site] \<and>
     pr_debug bool_key 0 site ''hi'' = Some (''hi'' @ [CHR 0x0A])"
proof -
  let ?sites = "[DebugSite_new False ''app'' ''a.rs'' 7 [] ''hi'']"
  let ?site = "(DebugSite_new False ''app'' ''a.rs'' 7 [] ''hi'')\<lparr>site_flags := 1, site_key := True\<rparr>"
  have w: "control_writes bool_key [map of_char ''module app +p''] ?sites = [?site]"
    by code_simp
  have "key_laws bool_key" by (simp add: key_laws_def bool_key_def)
  moreover have "list_all (key_synced bool_key) ?sites"
    by (simp add: new_synced bool_key_def)
  ultimately have "pr_debug bool_key 0 ?site ''hi'' =
     (if has_flag (site_flags ?site) FLAG_PRINT
      then let line = append_prefix 0 ?site (site_flags ?site) @ ''hi''
           in Some (if ends_with line [CHR 0x0A] then line else line @ [CHR 0x0A])
      else None)"
    by (rule pr_debug_follows_flags [where queries = "[map of_char ''module app +p'']"]) (simp only: w list.set insertI1)
  also have "\<dots> = Some (''hi'' @ [CHR 0x0A])"
    by (simp add: has_flag_def flag_defs append_prefix_def ends_with_def strip_suffix_def)
  finally show ?thesis using w by blast
qed

end
