(* ===== verification/DdebugPrint.thy ===== *)
theory DdebugPrint
  imports DdebugControl
begin

text \<open>
  Writing dynamic debug commands and reading them back: a printer for commands, and the proof
  that \<open>parse_commands\<close> of \<open>ddebug/src/control.rs\<close> undoes it. The printer quotes every
  token, so patterns may hold blanks, quotes, backslashes and semicolons.
\<close>

section \<open>A printer for commands\<close>

fun kind_char :: "flag_op_kind \<Rightarrow> char" where
  "kind_char Add = CHR ''+''"
| "kind_char Remove = CHR ''-''"
| "kind_char Replace = CHR ''=''"

definition show_op :: "flag_op \<Rightarrow> string" where
  "show_op op = (if fo_mask op = 0 then ''=_'' else kind_char (fo_kind op) # flag_letters (fo_mask op))"

definition show_range :: "line_range \<Rightarrow> string" where
  "show_range r = show_nat (lr_start r) @ ''-'' @ show_nat (lr_end r)"

fun selector_tokens :: "selector \<Rightarrow> string list" where
  "selector_tokens (File p) = [''file'', p]"
| "selector_tokens (Func p) = [''func'', p]"
| "selector_tokens (Module p) = [''module'', p]"
| "selector_tokens (Line r) = [''line'', show_range r]"
| "selector_tokens (Format p) = [''format'', p]"

definition command_tokens :: "command \<Rightarrow> string list" where
  "command_tokens c = concat (map selector_tokens (selectors c)) @ [show_op (operation c)]"

definition quote_char :: "char \<Rightarrow> nat list" where
  "quote_char b = (if b = CHR 0x5C \<or> b = CHR 0x22 then [0x5C, of_char b] else [of_char b])"

definition quote_token :: "string \<Rightarrow> nat list" where
  "quote_token t = [0x22] @ concat (map quote_char t) @ [0x22, 0x20]"

definition show_lines :: "string list list \<Rightarrow> nat list" where
  "show_lines ls = concat (map (\<lambda>l. concat (map quote_token l) @ [0x3B]) ls)"

definition show_commands :: "command list \<Rightarrow> nat list" where
  "show_commands cs = show_lines (map command_tokens cs)"

section \<open>Flag letters\<close>

lemma word_and_bit: "(f :: u8) AND push_bit k 1 = (if bit f k then push_bit k 1 else 0)"
  by (rule bit_word_eqI) (auto simp: bit_simps)

lemma flag_and:
  "b \<in> {FLAG_PRINT, FLAG_THREAD, FLAG_MODULE, FLAG_FUNC, FLAG_SOURCE, FLAG_LINE} \<Longrightarrow>
     has_flag f b \<Longrightarrow> f AND b = b"
  using word_and_bit [of f 0] word_and_bit [of f 1] word_and_bit [of f 2] word_and_bit [of f 3]
    word_and_bit [of f 4] word_and_bit [of f 5]
  by (auto simp: has_flag_def flag_defs push_bit_eq_mult split: if_splits)

lemma flag_loop_filter:
  assumes "\<And>b c. (b, c) \<in> set tab \<Longrightarrow> c \<noteq> CHR ''_'' \<and> flag_mask_for c = Some b \<and> (has_flag f b \<longrightarrow> f AND b = b)"
  shows "flag_loop tok (map snd (filter (\<lambda>(b, c). has_flag f b) tab)) m =
    Ok (foldl (\<lambda>m b. m OR (f AND b)) m (map fst tab))"
  using assms
proof (induction tab arbitrary: m)
  case (Cons e tab)
  obtain b c where e: "e = (b, c)" by (cases e)
  with Cons.prems have bc: "c \<noteq> CHR ''_''" "flag_mask_for c = Some b" "has_flag f b \<longrightarrow> f AND b = b"
    by auto
  note IH = Cons.IH [OF Cons.prems]
  show ?case
  proof (cases "has_flag f b")
    case True
    with bc IH e show ?thesis by simp
  next
    case False
    then have "f AND b = 0" by (simp add: has_flag_def)
    with False IH e show ?thesis by simp
  qed
qed simp

lemma flag_loop_letters:
  assumes "f < 64"
  shows "flag_loop tok (flag_letters f) 0 = Ok f"
proof -
  have "f AND mask 6 = f mod 64" by (simp add: take_bit_eq_mod flip: take_bit_eq_mask)
  also have "\<dots> = f" using assms by (rule mod_word_less)
  finally have "f AND 63 = f" by (simp add: mask_eq_exp_minus_1)
  moreover have "foldl (\<lambda>m b. m OR (f AND b)) 0 (map fst flag_table) = f AND 63"
    by (simp add: flag_table_def flag_defs flip: bit.conj_disj_distrib)
  moreover have "flag_loop tok (flag_letters f) 0 = Ok (foldl (\<lambda>m b. m OR (f AND b)) 0 (map fst flag_table))"
    unfolding flag_letters_def
    by (rule flag_loop_filter) (auto simp: flag_table_def flag_mask_for_def intro: flag_and)
  ultimately show ?thesis by simp
qed

lemma flag_letters_nonempty: "f < 64 \<Longrightarrow> f \<noteq> 0 \<Longrightarrow> flag_letters f \<noteq> []"
  using flag_loop_letters [of f "[]"] by auto

lemma parse_show_op:
  assumes "fo_mask op < 64" "fo_mask op = 0 \<longrightarrow> fo_kind op = Replace"
  shows "parse_flag_op (show_op op) = Ok op" "is_flag_token (show_op op)"
proof -
  have "flag_letters (fo_mask op) \<noteq> ''_''"
    by (auto simp: flag_letters_def flag_table_def)
  then show "parse_flag_op (show_op op) = Ok op"
    using assms flag_loop_letters [OF assms(1)] flag_letters_nonempty [OF assms(1)]
    by (cases "fo_kind op") (auto simp: parse_flag_op_def show_op_def)
  show "is_flag_token (show_op op)"
    by (cases "fo_kind op") (auto simp: is_flag_token_def show_op_def)
qed

section \<open>Commands\<close>

fun ascii :: "string \<Rightarrow> bool" where
  "ascii p \<longleftrightarrow> list_all (\<lambda>b. of_char b < (128 :: nat)) p"

fun printable_selector :: "selector \<Rightarrow> bool" where
  "printable_selector (File p) \<longleftrightarrow> p \<noteq> [] \<and> ascii p"
| "printable_selector (Func p) \<longleftrightarrow> p \<noteq> [] \<and> ascii p"
| "printable_selector (Module p) \<longleftrightarrow> p \<noteq> [] \<and> ascii p"
| "printable_selector (Line r) \<longleftrightarrow> lr_start r \<le> lr_end r \<and> int (lr_end r) \<le> U32_MAX"
| "printable_selector (Format p) \<longleftrightarrow> p \<noteq> [] \<and> ascii p"

definition printable :: "command \<Rightarrow> bool" where
  "printable c \<longleftrightarrow>
     list_all printable_selector (selectors c) \<and> fo_mask (operation c) < 64 \<and>
     (fo_mask (operation c) = 0 \<longrightarrow> fo_kind (operation c) = Replace)"

lemma show_nat_chars: "b \<in> set (show_nat n) \<Longrightarrow> b \<noteq> CHR ''-'' \<and> of_char b < (128 :: nat)"
proof -
  assume "b \<in> set (show_nat n)"
  then obtain d where "d < 10" "b = digit_char d" using set_show_radix [of 10 n] by auto
  then show ?thesis using digit_char_not_sign [of d] by (auto simp: digit_char_def)
qed

lemma parse_u32_show: "int n \<le> U32_MAX \<Longrightarrow> parse_u32 (show_nat n) what = Ok n"
  by (simp add: parse_u32_def from_str_radix_show)

lemma split_show_range:
  "split_once (CHR ''-'') (show_range r) = Some (show_nat (lr_start r), show_nat (lr_end r))"
proof -
  have "\<forall>b \<in> set (show_nat (lr_start r)). b \<noteq> CHR ''-''" using show_nat_chars by blast
  then show ?thesis
    by (simp add: split_once_def show_range_def takeWhile_append2 dropWhile_append2)
qed

lemma parse_show_range:
  "printable_selector (Line r) \<Longrightarrow> parse_line_range (show_range r) = Ok r"
  by (simp add: parse_line_range_def split_show_range parse_u32_show)

lemma command_loop_selectors:
  "list_all printable_selector ss \<Longrightarrow>
     command_loop (concat (map selector_tokens ss) @ rest) sels op = command_loop rest (sels @ ss) op"
proof (induction ss arbitrary: sels)
  case (Cons sel ss)
  have "\<exists>k v. selector_tokens sel = [k, v] \<and> is_keyword k \<and> \<not> is_flag_token k \<and>
      parse_selector k v = Ok sel"
    using Cons.prems parse_show_range
    by (cases sel) (auto simp: is_keyword_def is_flag_token_def parse_selector_def)
  with Cons show ?case by auto
qed simp

lemma parse_command_tokens: "printable c \<Longrightarrow> parse_command (command_tokens c) = Ok c"
  using parse_show_op [of "operation c"]
  by (simp add: parse_command_def command_tokens_def printable_def command_loop_selectors)

lemma parse_lines_tokens: "list_all printable cs \<Longrightarrow> parse_lines (map command_tokens cs) = Ok cs"
  by (induction cs) (auto simp: parse_command_tokens)

section \<open>Tokens\<close>

text \<open>Between two tokens of a line.\<close>

definition idle :: "string list list \<Rightarrow> string list \<Rightarrow> tok_state" where
  "idle ls l = \<lparr>ts_commands = ls, ts_current = l, ts_token = [], ts_quote = None, ts_escape = False\<rparr>"

lemma utf8_ascii: "of_char b < (128 :: nat) \<Longrightarrow> utf8_char (of_char b) = [b]"
  by (simp add: utf8_char_def)

lemma fold_quoted:
  assumes "ts_quote st = Some 0x22" "\<not> ts_escape st" "ascii t"
  shows "foldl tok_step st (concat (map quote_char t)) = st\<lparr>ts_token := ts_token st @ t\<rparr>"
  using assms
proof (induction t arbitrary: st)
  case (Cons b t)
  have "of_char b = (0x5C :: nat) \<longleftrightarrow> b = CHR 0x5C"
    using of_char_eq_iff [of b "CHR 0x5C", where 'a = nat] by simp
  moreover have "of_char b = (0x22 :: nat) \<longleftrightarrow> b = CHR 0x22"
    using of_char_eq_iff [of b "CHR 0x22", where 'a = nat] by simp
  ultimately have "foldl tok_step st (quote_char b) = st\<lparr>ts_token := ts_token st @ [b]\<rparr>"
    using Cons.prems by (auto simp: quote_char_def tok_step_def push_char_def utf8_ascii)
  with Cons show ?case by simp
qed simp

lemma fold_token:
  assumes "t \<noteq> []" "ascii t"
  shows "foldl tok_step (idle ls l) (quote_token t) = idle ls (l @ [t])"
  using assms fold_quoted [of "tok_step (idle ls l) 0x22" t]
  by (simp add: quote_token_def tok_step_def idle_def finish_token_def is_whitespace_def)

lemma fold_line:
  "list_all (\<lambda>t. t \<noteq> [] \<and> ascii t) ts \<Longrightarrow>
     foldl tok_step (idle ls l) (concat (map quote_token ts)) = idle ls (l @ ts)"
  by (induction ts arbitrary: l) (auto simp: fold_token)

lemma fold_lines:
  "list_all (\<lambda>l. l \<noteq> [] \<and> list_all (\<lambda>t. t \<noteq> [] \<and> ascii t) l) ls \<Longrightarrow>
     foldl tok_step (idle ls0 []) (show_lines ls) = idle (ls0 @ ls) []"
proof (induction ls arbitrary: ls0)
  case (Cons l ls)
  have "tok_step (idle ls0 l) 0x3B = idle (ls0 @ [l]) []" if "l \<noteq> []"
    using that by (simp add: tok_step_def idle_def finish_token_def end_command_def)
  with Cons show ?case
    using fold_line [of l ls0 "[]"] by (auto simp: show_lines_def)
qed (simp add: show_lines_def)

lemma tokenize_show_lines:
  assumes "list_all (\<lambda>l. l \<noteq> [] \<and> list_all (\<lambda>t. t \<noteq> [] \<and> ascii t) l) ls"
  shows "tokenize (show_lines ls) = Ok ls"
proof -
  have "tok_init = idle [] []" by (simp add: tok_init_def idle_def)
  then show ?thesis
    using fold_lines [OF assms, of "[]"]
    by (simp add: tokenize_def idle_def finish_token_def end_command_def)
qed

lemma tokens_printable:
  assumes "printable c"
  shows "list_all (\<lambda>t. t \<noteq> [] \<and> ascii t) (command_tokens c)"
proof -
  have "list_all (\<lambda>t. t \<noteq> [] \<and> ascii t) (selector_tokens sel)" if "printable_selector sel" for sel
    using that show_nat_chars
    by (cases sel) (auto simp: show_range_def list_all_iff show_radix_nonempty)
  moreover have "ascii (show_op (operation c))"
    by (cases "fo_kind (operation c)")
      (auto simp: show_op_def flag_letters_def flag_table_def list_all_iff)
  moreover have "show_op (operation c) \<noteq> []" by (simp add: show_op_def)
  ultimately show ?thesis
    using assms by (auto simp: command_tokens_def printable_def list_all_iff)
qed

text \<open>
  C22: every list of commands can be written to the control file. Printing commands with quoted
  tokens and parsing the text gives the same commands back.
\<close>

theorem parse_show_commands:
  assumes "cs \<noteq> []" "list_all printable cs"
  shows "parse_commands (show_commands cs) = Ok cs"
proof -
  have "command_tokens c \<noteq> []" for c by (simp add: command_tokens_def)
  then have "tokenize (show_commands cs) = Ok (map command_tokens cs)"
    unfolding show_commands_def using assms(2) tokens_printable
    by (intro tokenize_show_lines) (auto simp: list_all_iff)
  then show ?thesis
    using assms by (simp add: parse_commands_def parse_lines_tokens)
qed

theorem parse_show_commands_witness:
  "parse_commands (show_commands [\<lparr>selectors = [Func ''a b;c'', Line \<lparr>lr_start = 3, lr_end = 9\<rparr>],
       operation = \<lparr>fo_kind = Add, fo_mask = 3\<rparr>\<rparr>]) =
     Ok [\<lparr>selectors = [Func ''a b;c'', Line \<lparr>lr_start = 3, lr_end = 9\<rparr>],
       operation = \<lparr>fo_kind = Add, fo_mask = 3\<rparr>\<rparr>]"
  by (rule parse_show_commands) (simp_all add: printable_def)

end
