(* ===== verification/Ksym.thy ===== *)
theory Ksym
  imports RustText
begin

text \<open>
  The kernel symbol table reader, \<open>ksym/src/lib.rs\<close>: the mapped blob, the expansion of
  compressed names, the lookups by address and by name, and the parser \<open>from_blob\<close>. An index
  or slice out of range is the result \<open>Err Panic\<close>. Addresses are 64-bit words; positions are
  \<open>nat\<close>.
\<close>

section \<open>The mapped table\<close>

definition TOKEN_MARKER :: char where "TOKEN_MARKER = CHR 0xFF"
definition KSYM_NAME_LEN :: nat where "KSYM_NAME_LEN = 4096"
definition PREFIX_LEN :: nat where "PREFIX_LEN = 3"

record mapped =
  token_table :: string
  token_index :: "u32 list"
  kallsyms_names :: string
  kallsyms_offsets :: "u32 list"
  kallsyms_seqs :: "u32 list"
  kallsyms_addresses :: "u64 list"
  kallsyms_num_syms :: nat
  stext :: u64
  etext :: u64

definition read_compressed_len_and_type :: "string \<Rightarrow> nat \<times> char" where
  "read_compressed_len_and_type bytes =
     (if length bytes < PREFIX_LEN then (0, CHR '' '')
      else (256 * of_char (bytes ! 2) + of_char (bytes ! 1), bytes ! 0))"

text \<open>The token id at the start of a compressed name, and how many bytes it takes.\<close>

definition read_token_id :: "string \<Rightarrow> nat option \<times> nat" where
  "read_token_id bytes =
     (if 2 < length bytes \<and> bytes ! 2 = TOKEN_MARKER then (Some (of_char (bytes ! 1)), 3)
      else if 3 < length bytes \<and> bytes ! 3 = TOKEN_MARKER
      then (Some (256 * of_char (bytes ! 1) + of_char (bytes ! 2)), 4)
      else (None, 0))"

definition token_string :: "mapped \<Rightarrow> nat option \<Rightarrow> (panic, string) result" where
  "token_string m token_id =
     (case token_id of
        None \<Rightarrow> Ok []
      | Some tid \<Rightarrow>
          (if tid < length (token_index m)
           then slice_of (token_table m) (unat (token_index m ! tid))
             (if tid + 1 < length (token_index m) then unat (token_index m ! (tid + 1))
              else length (token_table m))
           else Ok []))"

text \<open>The name is built in a buffer of \<open>KSYM_NAME_LEN\<close> bytes; what does not fit is cut off.\<close>

definition expand_symbol :: "mapped \<Rightarrow> string \<Rightarrow> (panic, string) result" where
  "expand_symbol m bytes =
     and_then (nth_of bytes 0) (\<lambda>b.
       if b = TOKEN_MARKER then
         (let (token_id, i) = read_token_id bytes in
          and_then (token_string m token_id) (\<lambda>token_str.
            let out = take KSYM_NAME_LEN token_str
            in Ok (from_utf8_or_default (out @ take (KSYM_NAME_LEN - length out) (drop i bytes)))))
       else Ok (from_utf8_or_default (take KSYM_NAME_LEN bytes)))"

text \<open>Type and name of the symbol at position \<open>i\<close> in address order.\<close>

definition symbol_at :: "mapped \<Rightarrow> nat \<Rightarrow> (panic, char \<times> string) result" where
  "symbol_at m i =
     and_then (nth_of (kallsyms_offsets m) i) (\<lambda>off.
     and_then (slice_of (kallsyms_names m) (unat off) (length (kallsyms_names m))) (\<lambda>tail.
     let start = unat off; (len, ty) = read_compressed_len_and_type tail in
     and_then (slice_of (kallsyms_names m) (start + PREFIX_LEN) (start + PREFIX_LEN + len)) (\<lambda>bytes.
     and_then (expand_symbol m bytes) (\<lambda>name. Ok (ty, name)))))"

section \<open>Dumping\<close>

definition show_hex16 :: "u64 \<Rightarrow> string" where
  "show_hex16 a = (let s = show_radix 16 (unat a) in replicate (16 - length s) (CHR ''0'') @ s)"

fun dump_loop :: "mapped \<Rightarrow> nat list \<Rightarrow> (panic, string) result" where
  "dump_loop m [] = Ok []"
| "dump_loop m (i # is) =
     and_then (nth_of (kallsyms_addresses m) i) (\<lambda>addr.
     and_then (symbol_at m i) (\<lambda>(ty, name).
     and_then (dump_loop m is) (\<lambda>out.
       Ok (show_hex16 addr @ '' '' @ utf8_char (of_char ty) @ '' '' @ name @ [CHR 0x0A] @ out))))"

definition dump_all_symbols :: "mapped \<Rightarrow> (panic, string) result" where
  "dump_all_symbols m = dump_loop m [0..<kallsyms_num_syms m]"

section \<open>Lookup by address\<close>

function addr_search :: "mapped \<Rightarrow> u64 \<Rightarrow> nat \<Rightarrow> nat \<Rightarrow> (panic, nat) result" where
  "addr_search m addr low high =
     (if 1 < high - low then
        let mid = low + (high - low) div 2 in
        and_then (nth_of (kallsyms_addresses m) mid) (\<lambda>a.
          if a \<le> addr then addr_search m addr mid high else addr_search m addr low mid)
      else Ok low)"
  by pat_completeness auto
termination
  by (relation "measure (\<lambda>(m, addr, low, high). high - low)") auto

declare addr_search.simps [simp del]

text \<open>Back to the first symbol whose address is \<open>addr\<close>.\<close>

fun first_alias :: "mapped \<Rightarrow> u64 \<Rightarrow> nat \<Rightarrow> (panic, nat) result" where
  "first_alias m addr 0 = Ok 0"
| "first_alias m addr (Suc low) =
     and_then (nth_of (kallsyms_addresses m) low) (\<lambda>a.
       if a = addr then first_alias m addr low else Ok (Suc low))"

text \<open>The first address above \<open>a\<close> at the positions given.\<close>

fun next_address :: "mapped \<Rightarrow> u64 \<Rightarrow> nat list \<Rightarrow> (panic, u64 option) result" where
  "next_address m a [] = Ok None"
| "next_address m a (i # is) =
     and_then (nth_of (kallsyms_addresses m) i) (\<lambda>b. if a < b then Ok (Some b) else next_address m a is)"

definition lookup_address ::
  "mapped \<Rightarrow> u64 \<Rightarrow> (panic, (string \<times> u64 \<times> u64 \<times> char) option) result" where
  "lookup_address m addr =
     (if addr < stext m \<or> etext m \<le> addr \<or> kallsyms_num_syms m = 0 then Ok None
      else
        and_then (addr_search m addr 0 (kallsyms_num_syms m)) (\<lambda>low.
        if kallsyms_num_syms m \<le> low then Ok None
        else
          and_then (first_alias m addr low) (\<lambda>low.
          and_then (nth_of (kallsyms_addresses m) low) (\<lambda>symbol_start.
          and_then (next_address m symbol_start [low + 1..<kallsyms_num_syms m]) (\<lambda>found.
          let symbol_end = (case found of Some e \<Rightarrow> e | None \<Rightarrow> etext m) in
          and_then (symbol_at m low) (\<lambda>(ty, name).
            Ok (Some (name, symbol_end - symbol_start, addr - symbol_start, ty))))))))"

section \<open>Lookup by name\<close>

text \<open>The name at position \<open>k\<close> in name order.\<close>

definition name_at :: "mapped \<Rightarrow> nat \<Rightarrow> (panic, string) result" where
  "name_at m k =
     and_then (nth_of (kallsyms_seqs m) k) (\<lambda>seq.
     and_then (symbol_at m (unat seq)) (\<lambda>(ty, name). Ok name))"

function name_search :: "mapped \<Rightarrow> string \<Rightarrow> nat \<Rightarrow> nat \<Rightarrow> (panic, nat option) result" where
  "name_search m name low high =
     (if low \<le> high then
        let mid = low + (high - low) div 2 in
        and_then (name_at m mid) (\<lambda>mid_name.
          if name = mid_name then Ok (Some mid)
          else if name < mid_name then
            (if mid = 0 then Ok None else name_search m name low (mid - 1))
          else name_search m name (mid + 1) high)
      else Ok None)"
  by pat_completeness auto
termination
  by (relation "measure (\<lambda>(m, name, low, high). Suc high - low)") auto

declare name_search.simps [simp del]

fun first_same :: "mapped \<Rightarrow> string \<Rightarrow> nat \<Rightarrow> (panic, nat) result" where
  "first_same m name 0 = Ok 0"
| "first_same m name (Suc low) =
     and_then (name_at m low) (\<lambda>mid_name.
       if mid_name \<noteq> name then Ok (Suc low) else first_same m name low)"

function last_same :: "mapped \<Rightarrow> string \<Rightarrow> nat \<Rightarrow> (panic, nat) result" where
  "last_same m name high =
     (if high < kallsyms_num_syms m - 1 then
        and_then (name_at m (high + 1)) (\<lambda>mid_name.
          if mid_name \<noteq> name then Ok high else last_same m name (high + 1))
      else Ok high)"
  by pat_completeness auto
termination
  by (relation "measure (\<lambda>(m, name, high). kallsyms_num_syms m - high)") auto

declare last_same.simps [simp del]

definition lookup_names :: "mapped \<Rightarrow> string \<Rightarrow> bool \<Rightarrow> (panic, (nat \<times> nat) option) result" where
  "lookup_names m name need_end =
     (if kallsyms_num_syms m = 0 then Ok None
      else
        and_then (name_search m name 0 (kallsyms_num_syms m - 1)) (\<lambda>found.
          case found of
            None \<Rightarrow> Ok None
          | Some mid \<Rightarrow>
              and_then (first_same m name mid) (\<lambda>low.
              and_then (if need_end then last_same m name mid else Ok 0) (\<lambda>high.
                Ok (Some (low, high))))))"

definition lookup_name_by_idx :: "mapped \<Rightarrow> nat \<Rightarrow> u64 option" where
  "lookup_name_by_idx m idx =
     (if length (kallsyms_seqs m) \<le> idx then None
      else let seq = unat (kallsyms_seqs m ! idx) in
        if length (kallsyms_addresses m) \<le> seq then None else Some (kallsyms_addresses m ! seq))"

definition lookup_name :: "mapped \<Rightarrow> string \<Rightarrow> (panic, u64 option) result" where
  "lookup_name m name =
     and_then (lookup_names m name False) (\<lambda>found.
       case found of
         None \<Rightarrow> Ok None
       | Some (start_idx, _) \<Rightarrow>
           and_then (nth_of (kallsyms_seqs m) start_idx) (\<lambda>seq.
           and_then (nth_of (kallsyms_addresses m) (unat seq)) (\<lambda>a. Ok (Some a))))"

end
