(* ===== verification/KsymLookup.thy ===== *)
theory KsymLookup
  imports Ksym
begin

text \<open>
  Correctness of the two binary searches of \<open>ksym/src/lib.rs\<close> on a well-formed table: the
  lookup by address finds the symbol that covers the address, the lookup by name finds the exact
  range of name-order positions that hold the name.
\<close>

section \<open>Tables in key order\<close>

text \<open>
  What both searches rely on: a family of tables of type \<open>'m\<close> with a monotone key at each
  position.
\<close>

locale ordered_table =
  fixes ok :: "'m \<Rightarrow> bool"
    and table_size :: "'m \<Rightarrow> nat"
    and key :: "'m \<Rightarrow> nat \<Rightarrow> 'k :: linorder"
  assumes key_mono: "ok m \<Longrightarrow> i \<le> j \<Longrightarrow> j < table_size m \<Longrightarrow> key m i \<le> key m j"
begin

lemma below: "ok m \<Longrightarrow> key m i < k \<Longrightarrow> j \<le> i \<Longrightarrow> i < table_size m \<Longrightarrow> key m j < k"
  using key_mono [of m j i] by auto

lemma above: "ok m \<Longrightarrow> k < key m i \<Longrightarrow> i \<le> j \<Longrightarrow> j < table_size m \<Longrightarrow> k < key m j"
  using key_mono [of m i j] by auto

lemma between:
  "ok m \<Longrightarrow> key m i = k \<Longrightarrow> key m j = k \<Longrightarrow> i \<le> l \<Longrightarrow> l \<le> j \<Longrightarrow> j < table_size m \<Longrightarrow> key m l = k"
  using key_mono [of m i l] key_mono [of m l j] by auto

text \<open>A run of equal keys that ends on both sides is all there is.\<close>

lemma run_is_all:
  assumes "ok m" "lo \<le> hi" "hi < table_size m" "\<And>l. lo \<le> l \<Longrightarrow> l \<le> hi \<Longrightarrow> key m l = k"
    and "lo = 0 \<or> key m (lo - 1) \<noteq> k" "hi + 1 = table_size m \<or> key m (hi + 1) \<noteq> k"
  shows "{l. l < table_size m \<and> key m l = k} = {lo..hi}"
proof -
  have lo: "lo \<le> l" if "l < table_size m" "key m l = k" for l
  proof (rule ccontr)
    assume "\<not> lo \<le> l"
    then have "key m (lo - 1) = k"
      by (intro between [OF assms(1) that(2) assms(4) [OF order.refl assms(2)]])
        (use assms(2,3) in linarith)+
    with assms(5) \<open>\<not> lo \<le> l\<close> show False by simp
  qed
  have hi: "l \<le> hi" if "l < table_size m" "key m l = k" for l
  proof (rule ccontr)
    assume "\<not> l \<le> hi"
    then have "key m (hi + 1) = k"
      by (intro between [OF assms(1) assms(4) [OF assms(2) order.refl] that(2)])
        (use that(1) in linarith)+
    with assms(6) that \<open>\<not> l \<le> hi\<close> show False by simp
  qed
  show ?thesis
  proof (rule set_eqI)
    show "l \<in> {l. l < table_size m \<and> key m l = k} \<longleftrightarrow> l \<in> {lo..hi}" for l
      using lo [of l] hi [of l] assms(3) assms(4) [of l] by auto
  qed
qed

end

section \<open>Well-formed tables\<close>

definition sym_name :: "mapped \<Rightarrow> nat \<Rightarrow> string" where
  "sym_name m i = snd (projr (symbol_at m i))"

definition sym_type :: "mapped \<Rightarrow> nat \<Rightarrow> char" where
  "sym_type m i = fst (projr (symbol_at m i))"

definition sym_addr :: "mapped \<Rightarrow> nat \<Rightarrow> u64" where
  "sym_addr m i = kallsyms_addresses m ! i"

definition seq_at :: "mapped \<Rightarrow> nat \<Rightarrow> nat" where
  "seq_at m k = unat (kallsyms_seqs m ! k)"

definition key_name :: "mapped \<Rightarrow> nat \<Rightarrow> string" where
  "key_name m k = sym_name m (seq_at m k)"

text \<open>
  The arrays have one entry per symbol, every name expands, addresses are in order, and the
  sequence array lists the symbols in name order.
\<close>

definition wf_mapped :: "mapped \<Rightarrow> bool" where
  "wf_mapped m \<longleftrightarrow>
     length (kallsyms_addresses m) = kallsyms_num_syms m \<and>
     length (kallsyms_seqs m) = kallsyms_num_syms m \<and>
     (\<forall>i < kallsyms_num_syms m. is_ok (symbol_at m i) \<and> seq_at m i < kallsyms_num_syms m) \<and>
     sorted (kallsyms_addresses m) \<and>
     sorted (map (key_name m) [0..<kallsyms_num_syms m])"

interpretation addr_table: ordered_table wf_mapped kallsyms_num_syms sym_addr
  by unfold_locales (auto simp: wf_mapped_def sym_addr_def sorted_iff_nth_mono)

interpretation name_table: ordered_table wf_mapped kallsyms_num_syms key_name
  by unfold_locales (auto simp: wf_mapped_def sorted_iff_nth_mono)

lemma wf_address: "wf_mapped m \<Longrightarrow> i < kallsyms_num_syms m \<Longrightarrow> nth_of (kallsyms_addresses m) i = Ok (sym_addr m i)"
  by (simp add: wf_mapped_def sym_addr_def)

lemma wf_symbol_at:
  "wf_mapped m \<Longrightarrow> i < kallsyms_num_syms m \<Longrightarrow> symbol_at m i = Ok (sym_type m i, sym_name m i)"
  unfolding wf_mapped_def sym_type_def sym_name_def
  by (metis is_ok_simps(1) prod.collapse sum.collapse(2) sum.exhaust_sel)

lemma wf_name_at: "wf_mapped m \<Longrightarrow> k < kallsyms_num_syms m \<Longrightarrow> name_at m k = Ok (key_name m k)"
  using wf_symbol_at [of m "seq_at m k"]
  by (simp add: name_at_def key_name_def seq_at_def wf_mapped_def)

lemmas wf_reads = wf_address wf_symbol_at wf_name_at

section \<open>Lookup by address\<close>

lemma addr_search_correct:
  "wf_mapped m \<Longrightarrow> low < high \<Longrightarrow> high \<le> kallsyms_num_syms m \<Longrightarrow> sym_addr m low \<le> addr \<Longrightarrow>
    high = kallsyms_num_syms m \<or> addr < sym_addr m high \<Longrightarrow>
    \<exists>l. addr_search m addr low high = Ok l \<and> l < kallsyms_num_syms m \<and> sym_addr m l \<le> addr \<and>
      (l + 1 = kallsyms_num_syms m \<or> addr < sym_addr m (l + 1))"
proof (induction m addr low high rule: addr_search.induct)
  case (1 m addr low high)
  show ?case
  proof (cases "1 < high - low")
    case True
    let ?mid = "low + (high - low) div 2"
    have mid: "low < ?mid" "?mid < high" using True by auto
    with "1.prems" have "nth_of (kallsyms_addresses m) ?mid = Ok (sym_addr m ?mid)"
      by (intro wf_address) auto
    with True "1.IH" [OF True refl] "1.prems" mid show ?thesis
      by (auto simp: addr_search.simps [of m addr low high] Let_def not_le)
  next
    case False
    with "1.prems"(2) have "high = low + 1" by simp
    moreover have "addr_search m addr low high = Ok low"
      using False by (simp add: addr_search.simps [of m addr low high])
    ultimately show ?thesis using "1.prems" by auto
  qed
qed

lemma first_alias_correct:
  "wf_mapped m \<Longrightarrow> low < kallsyms_num_syms m \<Longrightarrow>
     \<exists>l \<le> low. first_alias m addr low = Ok l \<and> (\<forall>i. l \<le> i \<and> i < low \<longrightarrow> sym_addr m i = addr) \<and>
       (l = 0 \<or> sym_addr m (l - 1) \<noteq> addr)"
proof (induction low)
  case (Suc low)
  then have a: "nth_of (kallsyms_addresses m) low = Ok (sym_addr m low)" by (intro wf_address) auto
  show ?case
  proof (cases "sym_addr m low = addr")
    case True
    with Suc obtain l where l: "l \<le> low" "first_alias m addr low = Ok l"
      "\<forall>i. l \<le> i \<and> i < low \<longrightarrow> sym_addr m i = addr" "l = 0 \<or> sym_addr m (l - 1) \<noteq> addr" by auto
    with a True show ?thesis by (intro exI [of _ l]) (auto simp: less_Suc_eq)
  next
    case False
    with a show ?thesis by (intro exI [of _ "Suc low"]) auto
  qed
qed simp

text \<open>The first address above \<open>a\<close>, or the end of the text section.\<close>

definition next_above :: "mapped \<Rightarrow> u64 \<Rightarrow> u64" where
  "next_above m a =
     (case filter (\<lambda>b. a < b) (kallsyms_addresses m) of [] \<Rightarrow> etext m | b # _ \<Rightarrow> b)"

lemma next_address_filter:
  "wf_mapped m \<Longrightarrow> list_all (\<lambda>i. i < kallsyms_num_syms m) is \<Longrightarrow>
     next_address m a is =
       Ok (case filter (\<lambda>b. a < b) (map (sym_addr m) is) of [] \<Rightarrow> None | b # _ \<Rightarrow> Some b)"
  by (induction "is") (auto simp: wf_address)

lemma next_address_correct:
  assumes "wf_mapped m" "i < kallsyms_num_syms m"
  shows "\<exists>r. next_address m (sym_addr m i) [i + 1..<kallsyms_num_syms m] = Ok r \<and>
    (case r of Some e \<Rightarrow> e | None \<Rightarrow> etext m) = next_above m (sym_addr m i)"
proof -
  let ?n = "kallsyms_num_syms m" and ?P = "\<lambda>b. sym_addr m i < b"
  have "kallsyms_addresses m = map (sym_addr m) [0..<?n]"
    using assms(1) by (auto simp: wf_mapped_def sym_addr_def intro!: nth_equalityI)
  also have "[0..<?n] = [0..<i + 1] @ [i + 1..<?n]"
    using assms(2) upt_add_eq_append [of 0 "i + 1" "?n - (i + 1)"] by simp
  finally have "filter ?P (kallsyms_addresses m) =
      filter ?P (map (sym_addr m) [0..<i + 1]) @ filter ?P (map (sym_addr m) [i + 1..<?n])" by simp
  moreover have "filter ?P (map (sym_addr m) [0..<i + 1]) = []"
    using addr_table.key_mono [OF assms(1)] assms(2) by (auto simp: filter_empty_conv not_less)
  ultimately show ?thesis
    using next_address_filter [OF assms(1), of "[i + 1..<?n]" "sym_addr m i"]
    by (auto simp: next_above_def list_all_iff split: list.split)
qed


section \<open>Lookup by name\<close>

lemma name_search_correct:
  "wf_mapped m \<Longrightarrow> high < kallsyms_num_syms m \<Longrightarrow> (\<forall>k < low. key_name m k < name) \<Longrightarrow>
     (\<forall>k. high < k \<and> k < kallsyms_num_syms m \<longrightarrow> name < key_name m k) \<Longrightarrow>
     \<exists>r. name_search m name low high = Ok r \<and>
       (case r of
          Some mid \<Rightarrow> mid < kallsyms_num_syms m \<and> key_name m mid = name
        | None \<Rightarrow> \<forall>k < kallsyms_num_syms m. key_name m k \<noteq> name)"
proof (induction m name low high rule: name_search.induct)
  case (1 m name low high)
  show ?case
  proof (cases "low \<le> high")
    case True
    let ?mid = "low + (high - low) div 2" and ?n = "kallsyms_num_syms m"
    have mid: "low \<le> ?mid" "?mid \<le> high" "?mid < ?n" using True "1.prems"(2) by auto
    note step = True wf_name_at [OF "1.prems"(1) mid(3)] name_search.simps [of m name low high]
    consider "name = key_name m ?mid" | "name < key_name m ?mid" | "key_name m ?mid < name" by fastforce
    then show ?thesis
    proof cases
      case 1
      then show ?thesis using step mid(3) by (auto simp: Let_def)
    next
      case 2
      then have up: "name < key_name m k" if "?mid \<le> k" "k < ?n" for k
        using name_table.above [OF "1.prems"(1)] that by blast
      show ?thesis
      proof (cases "?mid = 0")
        case True
        with step 2 up show ?thesis by (auto simp: Let_def)
      next
        case False
        have "\<forall>k. ?mid - 1 < k \<and> k < ?n \<longrightarrow> name < key_name m k" using up False by auto
        moreover have "?mid - 1 < ?n" using mid(3) by simp
        ultimately show ?thesis
          using "1.IH"(1) [OF True refl _ _ _ False "1.prems"(1) _ "1.prems"(3)] step 2 False
          by (auto simp: Let_def)
      qed
    next
      case 3
      then have "\<forall>k < ?mid + 1. key_name m k < name"
        using name_table.below [OF "1.prems"(1) 3 _ mid(3)] by (simp add: less_Suc_eq_le)
      with "1.IH"(2) [OF True refl] "1.prems" step 3 show ?thesis by (auto simp: Let_def)
    qed
  next
    case False
    have "key_name m k \<noteq> name" if "k < kallsyms_num_syms m" for k
    proof (cases "k < low")
      case True
      then show ?thesis using "1.prems"(3) by auto
    next
      case h: False
      then have "high < k" using False by simp
      then show ?thesis using "1.prems"(4) that by auto
    qed
    with False show ?thesis by (simp add: name_search.simps [of m name low high])
  qed
qed

lemma name_search_whole:
  assumes "wf_mapped m" "kallsyms_num_syms m \<noteq> 0"
  shows "\<exists>r. name_search m name 0 (kallsyms_num_syms m - 1) = Ok r \<and>
    (case r of
       Some mid \<Rightarrow> mid < kallsyms_num_syms m \<and> key_name m mid = name
     | None \<Rightarrow> \<forall>k < kallsyms_num_syms m. key_name m k \<noteq> name)"
proof (rule name_search_correct [OF assms(1)])
  show "\<forall>k. kallsyms_num_syms m - 1 < k \<and> k < kallsyms_num_syms m \<longrightarrow> name < key_name m k" by auto
qed (use assms(2) in auto)

lemma first_same_correct:
  "wf_mapped m \<Longrightarrow> low < kallsyms_num_syms m \<Longrightarrow>
     \<exists>l \<le> low. first_same m name low = Ok l \<and> (\<forall>i. l \<le> i \<and> i < low \<longrightarrow> key_name m i = name) \<and>
       (l = 0 \<or> key_name m (l - 1) \<noteq> name)"
proof (induction low)
  case (Suc low)
  then have a: "name_at m low = Ok (key_name m low)" by (intro wf_name_at) auto
  show ?case
  proof (cases "key_name m low = name")
    case True
    with Suc obtain l where l: "l \<le> low" "first_same m name low = Ok l"
      "\<forall>i. l \<le> i \<and> i < low \<longrightarrow> key_name m i = name" "l = 0 \<or> key_name m (l - 1) \<noteq> name" by auto
    with a True show ?thesis by (intro exI [of _ l]) (auto simp: less_Suc_eq)
  next
    case False
    with a show ?thesis by (intro exI [of _ "Suc low"]) auto
  qed
qed simp

lemma last_same_correct:
  "wf_mapped m \<Longrightarrow> high < kallsyms_num_syms m \<Longrightarrow>
     \<exists>h \<ge> high. last_same m name high = Ok h \<and> h < kallsyms_num_syms m \<and>
       (\<forall>i. high < i \<and> i \<le> h \<longrightarrow> key_name m i = name) \<and>
       (h + 1 = kallsyms_num_syms m \<or> key_name m (h + 1) \<noteq> name)"
proof (induction m name high rule: last_same.induct)
  case (1 m name high)
  show ?case
  proof (cases "high < kallsyms_num_syms m - 1 \<and> key_name m (high + 1) = name")
    case True
    then have a: "name_at m (high + 1) = Ok name" using wf_name_at [of m "high + 1"] "1.prems" by (simp add: less_diff_conv)
    with "1.IH" [OF _ a] "1.prems" True obtain h where h: "high + 1 \<le> h" "last_same m name (high + 1) = Ok h"
      "h < kallsyms_num_syms m" "\<forall>i. high + 1 < i \<and> i \<le> h \<longrightarrow> key_name m i = name"
      "h + 1 = kallsyms_num_syms m \<or> key_name m (h + 1) \<noteq> name" by (auto simp: less_diff_conv)
    then have "\<forall>i. high < i \<and> i \<le> h \<longrightarrow> key_name m i = name"
      using True by (metis Suc_eq_plus1 Suc_lessI)
    with h a True show ?thesis
      by (intro exI [of _ h]) (simp add: last_same.simps [of m name high])
  next
    case False
    then have "last_same m name high = Ok high"
      using wf_name_at [of m "high + 1"] "1.prems" by (auto simp: last_same.simps [of m name high])
    with False "1.prems" show ?thesis by (intro exI [of _ high]) auto
  qed
qed

text \<open>
  C24: lookup by name. In a well-formed table the search returns \<open>None\<close> exactly when no symbol
  has the name, and otherwise the first and last of the name-order positions that hold it.
\<close>

theorem lookup_names_correct:
  assumes "wf_mapped m"
  shows "(lookup_names m name True = Ok None \<and> (\<forall>k < kallsyms_num_syms m. key_name m k \<noteq> name)) \<or>
    (\<exists>lo hi. lookup_names m name True = Ok (Some (lo, hi)) \<and> lo \<le> hi \<and>
      {k. k < kallsyms_num_syms m \<and> key_name m k = name} = {lo..hi})"
proof (cases "kallsyms_num_syms m = 0")
  case False
  let ?n = "kallsyms_num_syms m"
  obtain r where r: "name_search m name 0 (?n - 1) = Ok r"
    "case r of Some mid \<Rightarrow> mid < ?n \<and> key_name m mid = name | None \<Rightarrow> \<forall>k < ?n. key_name m k \<noteq> name"
    using name_search_whole [OF assms False] by blast
  show ?thesis
  proof (cases r)
    case None
    with r False show ?thesis by (simp add: lookup_names_def)
  next
    case (Some mid)
    with r have mid: "mid < ?n" "key_name m mid = name" by auto
    obtain lo where lo: "lo \<le> mid" "first_same m name mid = Ok lo"
      "\<forall>i. lo \<le> i \<and> i < mid \<longrightarrow> key_name m i = name" "lo = 0 \<or> key_name m (lo - 1) \<noteq> name"
      using first_same_correct [OF assms mid(1)] by blast
    obtain hi where hi: "mid \<le> hi" "last_same m name mid = Ok hi" "hi < ?n"
      "\<forall>i. mid < i \<and> i \<le> hi \<longrightarrow> key_name m i = name" "hi + 1 = ?n \<or> key_name m (hi + 1) \<noteq> name"
      using last_same_correct [OF assms mid(1)] by blast
    have "key_name m l = name" if "lo \<le> l" "l \<le> hi" for l
      using lo(3) hi(4) mid(2) that by (metis linorder_neqE_nat)
    then have "{k. k < ?n \<and> key_name m k = name} = {lo..hi}"
      using assms lo(1,4) hi(1,3,5) by (intro name_table.run_is_all) auto
    moreover have "lookup_names m name True = Ok (Some (lo, hi))"
      using False r(1) Some lo(2) hi(2) by (simp add: lookup_names_def)
    ultimately show ?thesis using lo(1) hi(1) by auto
  qed
qed (simp add: lookup_names_def)

text \<open>Without the end index the first position is the same.\<close>

lemma lookup_name_wf:
  assumes "wf_mapped m"
  shows "lookup_name m name =
    Ok (map_option (\<lambda>k. sym_addr m (seq_at m k)) (List.find (\<lambda>k. key_name m k = name) [0..<kallsyms_num_syms m]))"
proof (cases "kallsyms_num_syms m = 0")
  case False
  let ?n = "kallsyms_num_syms m"
  obtain r where r: "name_search m name 0 (?n - 1) = Ok r"
    "case r of Some mid \<Rightarrow> mid < ?n \<and> key_name m mid = name | None \<Rightarrow> \<forall>k < ?n. key_name m k \<noteq> name"
    using name_search_whole [OF assms False] by blast
  show ?thesis
  proof (cases r)
    case None
    then have "List.find (\<lambda>k. key_name m k = name) [0..<?n] = None"
      using r(2) by (auto simp: find_None_iff)
    with None r(1) False show ?thesis by (simp add: lookup_name_def lookup_names_def)
  next
    case (Some mid)
    with r have mid: "mid < ?n" "key_name m mid = name" by auto
    obtain lo where lo: "lo \<le> mid" "first_same m name mid = Ok lo"
      "\<forall>i. lo \<le> i \<and> i < mid \<longrightarrow> key_name m i = name" "lo = 0 \<or> key_name m (lo - 1) \<noteq> name"
      using first_same_correct [OF assms mid(1)] by blast
    have "key_name m lo = name" using lo(1,3) mid(2) by (cases "lo = mid") auto
    moreover have "key_name m k \<noteq> name" if "k < lo" for k
    proof
      assume "key_name m k = name"
      then have "key_name m (lo - 1) = name"
        by (rule name_table.between [OF assms _ \<open>key_name m lo = name\<close>]) (use lo(1) mid(1) that in linarith)+
      with lo(4) that show False by simp
    qed
    ultimately have "List.find (\<lambda>k. key_name m k = name) [0..<?n] = Some lo"
      using lo(1) mid(1) by (auto simp: find_Some_iff intro!: exI [of _ lo])
    moreover have "lookup_names m name False = Ok (Some (lo, 0))"
      using False r(1) Some lo(2) by (simp add: lookup_names_def)
    moreover have "nth_of (kallsyms_seqs m) lo = Ok (kallsyms_seqs m ! lo)"
      "nth_of (kallsyms_addresses m) (seq_at m lo) = Ok (sym_addr m (seq_at m lo))"
      using assms lo(1) mid(1) by (auto simp: wf_mapped_def sym_addr_def)
    ultimately show ?thesis by (simp add: lookup_name_def seq_at_def)
  qed
qed (simp add: lookup_name_def lookup_names_def)

end
