(* ===== verification/KsymGen.thy ===== *)
theory KsymGen
  imports KsymLookup
begin

text \<open>
  The generator of symbol blobs, \<open>ksym/src/bin/gen_ksym.rs\<close>, and the parser
  \<open>KallsymsMapped::from_blob\<close> of \<open>ksym/src/lib.rs\<close>. The iteration order of the
  \<open>HashMap\<close> of candidate tokens is unspecified; it is the parameter \<open>iter\<close> of
  \<open>compress_symbols\<close>. A symbol is its name, address and type character.
\<close>

section \<open>The generator\<close>

type_synonym symbol = "string \<times> u64 \<times> nat"

record blob =
  b_token_table :: string
  b_token_index :: "u32 list"
  b_token_map :: "(string \<times> nat) list"
  b_names :: string
  b_offsets :: "u32 list"
  b_seqs :: "u32 list"
  b_addresses :: "u64 list"
  b_num_syms :: nat

definition KallsymsBlob_new :: blob where
  "KallsymsBlob_new =
     \<lparr>b_token_table = [], b_token_index = [], b_token_map = [], b_names = [], b_offsets = [],
      b_seqs = [], b_addresses = [], b_num_syms = 0\<rparr>"

definition PREFIX_CANDIDATE_LENS :: "nat list" where
  "PREFIX_CANDIDATE_LENS =
     [10, 24, 31, 40, 56, 60, 70, 80, 90, 100, 150, 200, 250, 300, 400, 500, 600, 700, 800, 900,
      1000, 1200, 1400, 1600, 1800, 2000]"

definition MAX_TOKEN :: nat where "MAX_TOKEN = 512"

definition add_token :: "blob \<Rightarrow> string \<Rightarrow> blob" where
  "add_token b token =
     (case map_of (b_token_map b) token of
        Some tid \<Rightarrow> b
      | None \<Rightarrow>
          let tid = length (b_token_map b) mod 2 ^ 16 in
          b\<lparr>b_token_index := b_token_index b @ [of_nat (length (b_token_table b))],
            b_token_table := b_token_table b @ token,
            b_token_map := (token, tid) # b_token_map b\<rparr>)"

text \<open>Counting the candidate prefixes of one name.\<close>

definition count_one :: "string \<Rightarrow> (string \<rightharpoonup> nat) \<Rightarrow> (string \<rightharpoonup> nat)" where
  "count_one t counts = counts(t \<mapsto> (case counts t of None \<Rightarrow> 0 | Some c \<Rightarrow> c) + 1)"

fun count_prefixes :: "string \<Rightarrow> nat list \<Rightarrow> (string \<rightharpoonup> nat) \<Rightarrow> (panic, string \<rightharpoonup> nat) result" where
  "count_prefixes name [] counts = Ok counts"
| "count_prefixes name (len # lens) counts =
     (if len \<le> length name then
        if is_utf8 (take len name) then count_prefixes name lens (count_one (take len name) counts)
        else Err Panic
      else if name \<noteq> [] \<and> len = hd PREFIX_CANDIDATE_LENS
      then count_prefixes name lens (count_one name counts)
      else count_prefixes name lens counts)"

fun count_tokens :: "symbol list \<Rightarrow> (string \<rightharpoonup> nat) \<Rightarrow> (panic, string \<rightharpoonup> nat) result" where
  "count_tokens [] counts = Ok counts"
| "count_tokens ((name, _, _) # syms) counts =
     and_then (count_prefixes name PREFIX_CANDIDATE_LENS counts) (count_tokens syms)"

text \<open>The stable sort by descending weight and the selection that skips prefixes.\<close>

definition sort_tokens :: "(string \<times> nat) list \<Rightarrow> (string \<times> nat) list" where
  "sort_tokens tokens = sort_key (\<lambda>(t, c). - int (c * length t)) tokens"

fun select_tokens :: "string list \<Rightarrow> (string \<times> nat) list \<Rightarrow> string list" where
  "select_tokens chosen [] = chosen"
| "select_tokens chosen ((tok, _) # tokens) =
     (if MAX_TOKEN \<le> length chosen then chosen
      else if list_ex (\<lambda>existing. starts_with existing tok) chosen then select_tokens chosen tokens
      else select_tokens (chosen @ [tok]) tokens)"

text \<open>The longest candidate prefix of a name that is a token, tried from the longest length down.\<close>

fun find_token :: "(string \<times> nat) list \<Rightarrow> string \<Rightarrow> nat list \<Rightarrow> (panic, (nat \<times> nat) option) result" where
  "find_token tmap nm [] = Ok None"
| "find_token tmap nm (l # ls) =
     (if length nm < l then find_token tmap nm ls
      else if \<not> is_utf8 (take l nm) then Err Panic
      else case map_of tmap (take l nm) of
        Some tid \<Rightarrow> Ok (Some (l, tid))
      | None \<Rightarrow> find_token tmap nm ls)"

definition push_u16 :: "nat \<Rightarrow> string" where
  "push_u16 n = [char_of (n mod 256), char_of (n div 256)]"

definition emit_token :: "nat \<Rightarrow> string" where
  "emit_token tid =
     (if tid < 256 then [TOKEN_MARKER, char_of tid, TOKEN_MARKER]
      else [TOKEN_MARKER, char_of (tid div 256), char_of (tid mod 256), TOKEN_MARKER])"

definition encode_symbol :: "(string \<times> nat) list \<Rightarrow> string \<Rightarrow> nat \<Rightarrow> (panic, string) result" where
  "encode_symbol tmap nm ty =
     and_then (find_token tmap nm (rev PREFIX_CANDIDATE_LENS)) (\<lambda>found.
       case found of
         Some (l, tid) \<Rightarrow>
           (let len = ((if tid < 256 then 3 else 4) + (length nm - l) mod 2 ^ 16) mod 2 ^ 16
            in Ok ([char_of ty] @ push_u16 len @ emit_token tid @ drop l nm))
       | None \<Rightarrow> Ok ([char_of ty] @ push_u16 (length nm mod 2 ^ 16) @ nm))"

fun emit_symbols :: "symbol list \<Rightarrow> blob \<Rightarrow> (panic, blob) result" where
  "emit_symbols [] b = Ok b"
| "emit_symbols ((nm, addr, ty) # syms) b =
     and_then (encode_symbol (b_token_map b) nm ty) (\<lambda>bytes.
       emit_symbols syms
         (b\<lparr>b_offsets := b_offsets b @ [of_nat (length (b_names b))],
            b_addresses := b_addresses b @ [addr],
            b_names := b_names b @ bytes\<rparr>))"

text \<open>The array that maps an index of the input to its position in address order.\<close>

fun orig_to_addr :: "nat list \<Rightarrow> nat \<Rightarrow> nat list \<Rightarrow> nat list" where
  "orig_to_addr [] pos arr = arr"
| "orig_to_addr (orig # idx) pos arr = orig_to_addr idx (pos + 1) (arr[orig := pos])"

definition compress_symbols ::
  "((string \<rightharpoonup> nat) \<Rightarrow> (string \<times> nat) list) \<Rightarrow> symbol list \<Rightarrow> blob \<Rightarrow> (panic, blob) result" where
  "compress_symbols iter symbols b =
     (let n = length symbols in
      if n = 0 then Ok b
      else
        let idx_by_addr = sort_key (\<lambda>i. fst (snd (symbols ! i))) [0..<n];
            idx_by_name = sort_key (\<lambda>i. fst (symbols ! i)) [0..<n];
            orig_to_addr_idx = orig_to_addr idx_by_addr 0 (replicate n 0)
        in
        and_then (count_tokens symbols (\<lambda>_. None)) (\<lambda>counts.
        let b = foldl add_token b (select_tokens [] (sort_tokens (iter counts))) in
        and_then (emit_symbols (map (\<lambda>i. symbols ! i) idx_by_addr) b) (\<lambda>b.
        Ok (b\<lparr>b_seqs := b_seqs b @ map (\<lambda>i. of_nat (orig_to_addr_idx ! i)) idx_by_name,
             b_num_syms := n\<rparr>))))"

text \<open>The serialized blob; the total length is written over the first eight bytes at the end.\<close>

definition pad :: "nat \<Rightarrow> string \<Rightarrow> string" where
  "pad align v = v @ replicate (if length v mod align \<noteq> 0 then align - length v mod align else 0) (CHR 0x00)"

definition bytes_u64 :: "u64 list \<Rightarrow> string" where
  "bytes_u64 xs = concat (map (\<lambda>x. le_bytes 8 (unat x)) xs)"

definition bytes_u32 :: "u32 list \<Rightarrow> string" where
  "bytes_u32 xs = concat (map (\<lambda>x. le_bytes 4 (unat x)) xs)"

definition to_blob :: "blob \<Rightarrow> string" where
  "to_blob b =
     (let v = le_bytes 8 0 @ le_bytes 8 (b_num_syms b);
          v = pad 8 v @ bytes_u64 (b_addresses b);
          v = pad 4 v @ bytes_u32 (b_offsets b);
          v = pad 4 v @ bytes_u32 (b_seqs b);
          v = pad 8 v @ le_bytes 8 (length (b_names b)) @ b_names b;
          v = pad 8 v @ le_bytes 8 (length (b_token_table b)) @ b_token_table b;
          v = pad 8 v @ le_bytes 8 (length (b_token_index b));
          v = pad 4 v @ bytes_u32 (b_token_index b)
      in le_bytes 8 (length v) @ drop 8 v)"

section \<open>Parsing a blob\<close>

definition check_total_bytes :: "string \<Rightarrow> (string, nat) result" where
  "check_total_bytes blob =
     (if length blob < 8 then Err ''Blob is too small to contain the total byte count''
      else Ok (le_nat (bslice blob 0 8)))"

text \<open>\<open>base\<close> is the address of the blob.\<close>

definition align_off :: "nat \<Rightarrow> nat \<Rightarrow> nat \<Rightarrow> nat" where
  "align_off base align off = (base + off + align - 1) div align * align - base"

definition read_u64 :: "string \<Rightarrow> nat \<Rightarrow> nat" where
  "read_u64 blob off = le_nat (bslice blob off (off + 8))"

text \<open>\<open>from_raw_parts\<close> at \<open>off\<close>: \<open>n\<close> integers of \<open>w\<close> bytes.\<close>

definition read_array :: "nat \<Rightarrow> nat \<Rightarrow> string \<Rightarrow> nat \<Rightarrow> nat list" where
  "read_array w n blob off = map (\<lambda>i. le_nat (bslice blob (off + w * i) (off + w * i + w))) [0..<n]"

definition from_blob :: "nat \<Rightarrow> string \<Rightarrow> u64 \<Rightarrow> u64 \<Rightarrow> (string, mapped) result" where
  "from_blob base blob st et =
     and_then (check_total_bytes blob) (\<lambda>total_bytes.
     if total_bytes \<noteq> length blob
     then Err ''The total bytes in the blob does not match the actual blob length''
     else let off = 8 in
     if length blob < off + 8 then Err ''The number of symbols is missing''
     else let num_syms = read_u64 blob off; off = align_off base 8 (off + 8) in
     if length blob < off + num_syms * 8 then Err ''The addresses array is missing''
     else let addresses = read_array 8 num_syms blob off; off = align_off base 4 (off + num_syms * 8) in
     if length blob < off + num_syms * 4 then Err ''The offsets array is missing''
     else let offsets = read_array 4 num_syms blob off; off = align_off base 4 (off + num_syms * 4) in
     if length blob < off + num_syms * 4 then Err ''The seqs array is missing''
     else let seqs = read_array 4 num_syms blob off; off = align_off base 8 (off + num_syms * 4) in
     if length blob < off + 8 then Err ''The names length is missing''
     else let names_len = read_u64 blob off; off = off + 8 in
     if length blob < off + names_len then Err ''The names array is missing''
     else let names = bslice blob off (off + names_len); off = align_off base 8 (off + names_len) in
     if length blob < off + 8 then Err ''The token table length is missing''
     else let table_len = read_u64 blob off; off = off + 8 in
     if length blob < off + table_len then Err ''The token table array is missing''
     else let table = bslice blob off (off + table_len); off = align_off base 8 (off + table_len) in
     if length blob < off + 8 then Err ''The token index length is missing''
     else let index_len = read_u64 blob off; off = align_off base 4 (off + 8) in
     if length blob < off + index_len * 4 then Err ''The token index array is missing''
     else
       Ok \<lparr>token_table = table, token_index = map of_nat (read_array 4 index_len blob off),
           kallsyms_names = names, kallsyms_offsets = map of_nat offsets, kallsyms_seqs = map of_nat seqs,
           kallsyms_addresses = map of_nat addresses, kallsyms_num_syms = num_syms,
           stext = st, etext = et\<rparr>)"

end
