(* ===== verification/KsymRoundtrip.thy ===== *)
theory KsymRoundtrip
  imports KsymGen "HOL-Library.Sublist"
begin

text \<open>
  The generator and the reader fit together: a serialized blob parses back to the arrays it was
  made from, every compressed name expands to the original, the table made from a symbol list is
  well-formed, and looking a name up returns the address of the first symbol with that name.
\<close>

section \<open>The serialized form\<close>

definition mapped_of :: "blob \<Rightarrow> u64 \<Rightarrow> u64 \<Rightarrow> mapped" where
  "mapped_of b st et =
     \<lparr>token_table = b_token_table b, token_index = b_token_index b, kallsyms_names = b_names b,
      kallsyms_offsets = b_offsets b, kallsyms_seqs = b_seqs b, kallsyms_addresses = b_addresses b,
      kallsyms_num_syms = b_num_syms b, stext = st, etext = et\<rparr>"

lemma align_off_pad:
  assumes "align dvd base" "0 < align"
  shows "align_off base align (length v) = length (pad align v)"
proof -
  obtain q where base: "base = align * q" using assms(1) by (elim dvdE)
  define k r where "k = length v div align" and "r = length v mod align"
  have v: "length v = align * k + r" and r: "r < align"
    using assms(2) by (auto simp: k_def r_def)
  show ?thesis
  proof (cases "r = 0")
    case True
    have "(align * (q + k) + (align - 1)) div align = q + k"
      using assms(2) by (simp only: div_mult_self4) simp
    with True show ?thesis
      using assms(2) by (simp add: align_off_def pad_def v base algebra_simps)
  next
    case False
    then have "(align * (q + k + 1) + (r - 1)) div align = q + k + 1"
      using assms(2) r by (simp only: div_mult_self4) simp
    moreover have "base + length v + align - 1 = align * (q + k + 1) + (r - 1)"
      using False by (simp add: base v algebra_simps)
    ultimately have "align_off base align (length v) = align * (k + 1)"
      by (simp add: align_off_def base algebra_simps)
    moreover have "length v mod align = r" by (simp add: r_def)
    ultimately show ?thesis using False r by (simp add: pad_def v)
  qed
qed

lemma length_pad: "0 < align \<Longrightarrow> length (pad align v) = (length v + align - 1) div align * align"
  using align_off_pad [of align 0 v] by (simp add: align_off_def)

lemma length_bytes_u64 [simp]: "length (bytes_u64 xs) = length xs * 8"
  by (induction xs) (auto simp: bytes_u64_def)

lemma length_bytes_u32 [simp]: "length (bytes_u32 xs) = length xs * 4"
  by (induction xs) (auto simp: bytes_u32_def)

text \<open>Reading an array back, from the slice of bytes that holds it.\<close>

lemma bslice_bslice: "a \<le> b \<Longrightarrow> b \<le> n \<Longrightarrow> bslice (bslice v off (off + n)) a b = bslice v (off + a) (off + b)"
  by (simp add: bslice_def drop_take take_take min_def add.commute)

lemma read_array_slice:
  assumes "bslice blob off (off + length xs * w) = concat (map (\<lambda>x. le_bytes w (f x)) xs)"
    and "\<And>x. x \<in> set xs \<Longrightarrow> f x < 256 ^ w"
  shows "read_array w (length xs) blob off = map f xs"
proof (rule nth_equalityI)
  fix i assume "i < length (read_array w (length xs) blob off)"
  then have i: "i < length xs" by (simp add: read_array_def)
  have "take w (drop (w * i) (concat (map (\<lambda>x. le_bytes w (f x)) xs))) = le_bytes w (f (xs ! i))"
    using i
  proof (induction xs arbitrary: i)
    case (Cons x xs)
    then show ?case by (cases i) (auto simp: drop_append)
  qed simp
  moreover have "w * i + w \<le> length xs * w"
    using i by (metis add.commute mult.commute mult_Suc_right mult_le_mono1 Suc_leI)
  then have "bslice blob (off + w * i) (off + (w * i + w)) =
      bslice (concat (map (\<lambda>x. le_bytes w (f x)) xs)) (w * i) (w * i + w)"
    unfolding assms(1) [symmetric] by (intro bslice_bslice [symmetric]) auto
  ultimately have "bslice blob (off + w * i) (off + w * i + w) = le_bytes w (f (xs ! i))"
    by (simp add: bslice_def add.assoc)
  then show "read_array w (length xs) blob off ! i = map f xs ! i"
    using i assms(2) [of "xs ! i"] by (simp add: read_array_def le_nat_le_bytes)
qed (simp add: read_array_def)

lemma unat_u64_less: "unat (x :: u64) < 2 ^ 64"
  using unsigned_less [of x, where 'a = nat] by simp

lemma unat_u32_less: "unat (x :: u32) < 2 ^ 32"
  using unsigned_less [of x, where 'a = nat] by simp

lemma read_u64s:
  "bslice blob off (off + length xs * 8) = bytes_u64 xs \<Longrightarrow>
     map of_nat (read_array 8 (length xs) blob off) = xs"
  using read_array_slice [of blob off xs 8 unat] unat_u64_less
  by (simp add: bytes_u64_def map_idI)

lemma read_u32s:
  "bslice blob off (off + length xs * 4) = bytes_u32 xs \<Longrightarrow>
     map of_nat (read_array 4 (length xs) blob off) = xs"
  using read_array_slice [of blob off xs 4 unat] unat_u32_less
  by (simp add: bytes_u32_def map_idI)

text \<open>
  The finished blob: the buffer with its length written over the first eight bytes. A section
  that was appended at an aligned position is found there again.
\<close>

definition sealed :: "string \<Rightarrow> string" where
  "sealed v = le_bytes 8 (length v) @ drop 8 v"

lemma section_read:
  assumes "prefix (u @ x) v" "8 \<le> length u"
  shows "bslice (sealed v) (length u) (length u + length x) = x"
    and "length u + length x \<le> length (sealed v)"
proof -
  obtain rest where v: "v = u @ x @ rest" using assms(1) by (auto simp: prefix_def)
  then have "drop (length u) (sealed v) = x @ rest" using assms(2) by (simp add: sealed_def)
  then show "bslice (sealed v) (length u) (length u + length x) = x" by (simp add: bslice_def)
  show "length u + length x \<le> length (sealed v)" using assms(2) v by (simp add: sealed_def)
qed

lemma length_sealed: "8 \<le> length v \<Longrightarrow> length (sealed v) = length v"
  by (simp add: sealed_def)

lemma section_aligned:
  assumes "prefix (pad a w @ x) v" "8 \<le> length w" "a dvd base" "0 < a"
  shows "bslice (sealed v) (align_off base a (length w)) (align_off base a (length w) + length x) = x"
    and "align_off base a (length w) + length x \<le> length (sealed v)"
    and "align_off base a (length w) + length x = length (pad a w @ x)"
    and "prefix w v"
proof -
  have "8 \<le> length (pad a w)" using assms(2) by (simp add: pad_def)
  with section_read [OF assms(1)] align_off_pad [OF assms(3,4), of w]
  show "bslice (sealed v) (align_off base a (length w)) (align_off base a (length w) + length x) = x"
    "align_off base a (length w) + length x \<le> length (sealed v)"
    "align_off base a (length w) + length x = length (pad a w @ x)" by simp_all
  show "prefix w v" using assms(1) by (auto simp: pad_def prefix_def)
qed

lemma section_u64s:
  assumes "prefix (pad 8 w @ bytes_u64 xs) v" "8 \<le> length w" "8 dvd base"
  shows "map of_nat (read_array 8 (length xs) (sealed v) (align_off base 8 (length w))) = xs"
    and "\<not> length (sealed v) < align_off base 8 (length w) + length xs * 8"
    and "align_off base 8 (length w) + length xs * 8 = length (pad 8 w @ bytes_u64 xs)"
    and "prefix w v"
  using section_aligned [OF assms(1-3)] by (simp_all add: read_u64s)

lemma section_u32s:
  assumes "prefix (pad 4 w @ bytes_u32 xs) v" "8 \<le> length w" "8 dvd base"
  shows "map of_nat (read_array 4 (length xs) (sealed v) (align_off base 4 (length w))) = xs"
    and "\<not> length (sealed v) < align_off base 4 (length w) + length xs * 4"
    and "align_off base 4 (length w) + length xs * 4 = length (pad 4 w @ bytes_u32 xs)"
    and "prefix w v"
proof -
  have "4 dvd base" using assms(3) by (rule dvd_trans [rotated]) simp
  note sec = section_aligned [OF assms(1,2) this]
  show "map of_nat (read_array 4 (length xs) (sealed v) (align_off base 4 (length w))) = xs"
    "\<not> length (sealed v) < align_off base 4 (length w) + length xs * 4"
    "align_off base 4 (length w) + length xs * 4 = length (pad 4 w @ bytes_u32 xs)" "prefix w v"
    using sec by (simp_all add: read_u32s)
qed

lemma section_len:
  assumes "prefix (pad 8 w @ le_bytes 8 k) v" "8 \<le> length w" "8 dvd base" "k < 2 ^ 64"
  shows "read_u64 (sealed v) (align_off base 8 (length w)) = k"
    and "\<not> length (sealed v) < align_off base 8 (length w) + 8"
    and "align_off base 8 (length w) + 8 = length (pad 8 w @ le_bytes 8 k)"
    and "prefix w v"
  using section_aligned [OF assms(1-3)] assms(4) by (simp_all add: read_u64_def le_nat_le_bytes)

text \<open>A byte string behind its length.\<close>

lemma section_bytes:
  assumes "prefix (pad 8 w @ le_bytes 8 (length x) @ x) v" "8 \<le> length w" "8 dvd base" "length x < 2 ^ 64"
  shows "read_u64 (sealed v) (align_off base 8 (length w)) = length x"
    and "\<not> length (sealed v) < align_off base 8 (length w) + 8"
    and "bslice (sealed v) (align_off base 8 (length w) + 8) (align_off base 8 (length w) + 8 + length x) = x"
    and "\<not> length (sealed v) < align_off base 8 (length w) + 8 + length x"
    and "align_off base 8 (length w) + 8 + length x = length (pad 8 w @ le_bytes 8 (length x) @ x)"
    and "prefix w v"
proof -
  have p: "prefix (pad 8 w @ le_bytes 8 (length x)) v" "prefix ((pad 8 w @ le_bytes 8 (length x)) @ x) v"
    using assms(1) by (auto simp: prefix_def)
  note first = section_len [OF p(1) assms(2-4)]
  show "read_u64 (sealed v) (align_off base 8 (length w)) = length x"
    "\<not> length (sealed v) < align_off base 8 (length w) + 8" "prefix w v" by (fact first)+
  show "bslice (sealed v) (align_off base 8 (length w) + 8) (align_off base 8 (length w) + 8 + length x) = x"
    "\<not> length (sealed v) < align_off base 8 (length w) + 8 + length x"
    using section_read [OF p(2)] first(3) by simp_all
  show "align_off base 8 (length w) + 8 + length x = length (pad 8 w @ le_bytes 8 (length x) @ x)"
    using first(3) by simp
qed

lemma section_header:
  assumes "prefix (le_bytes 8 0 @ le_bytes 8 n) v" "length v < 2 ^ 64" "n < 2 ^ 64"
  shows "check_total_bytes (sealed v) = Ok (length (sealed v))" "read_u64 (sealed v) 8 = n"
    "\<not> length (sealed v) < 16"
proof -
  note r = section_read [OF assms(1), simplified]
  show "read_u64 (sealed v) 8 = n" using r(1) assms(3) by (simp add: read_u64_def le_nat_le_bytes)
  show "\<not> length (sealed v) < 16" using r(2) by simp
  then show "check_total_bytes (sealed v) = Ok (length (sealed v))"
    using assms(2) by (simp add: check_total_bytes_def sealed_def bslice_def le_nat_le_bytes)
qed

lemma length_pad_ge: "length w \<le> length (pad a w)"
  by (simp add: pad_def)

lemma blob_parses:
  assumes "length (b_addresses b) = b_num_syms b" "length (b_offsets b) = b_num_syms b"
    and "length (b_seqs b) = b_num_syms b" "length (to_blob b) < 2 ^ 64" "8 dvd base"
  shows "from_blob base (to_blob b) st et = Ok (mapped_of b st et)"
proof -
  let ?n = "b_num_syms b" and ?names = "b_names b" and ?table = "b_token_table b" and ?index = "b_token_index b"
  define v0 where "v0 = le_bytes 8 0 @ le_bytes 8 ?n"
  define v1 where "v1 = pad 8 v0 @ bytes_u64 (b_addresses b)"
  define v2 where "v2 = pad 4 v1 @ bytes_u32 (b_offsets b)"
  define v3 where "v3 = pad 4 v2 @ bytes_u32 (b_seqs b)"
  define v4 where "v4 = pad 8 v3 @ le_bytes 8 (length ?names) @ ?names"
  define v5 where "v5 = pad 8 v4 @ le_bytes 8 (length ?table) @ ?table"
  define v6 where "v6 = pad 8 v5 @ le_bytes 8 (length ?index)"
  define v where "v = pad 4 v6 @ bytes_u32 ?index"
  have B: "to_blob b = sealed v"
    by (simp add: to_blob_def sealed_def v_def v6_def v5_def v4_def v3_def v2_def v1_def v0_def Let_def)
  have l0: "length v0 = 16" by (simp add: v0_def)
  have le: "length v0 + ?n \<le> length v1" "length v1 \<le> length v2" "length v2 \<le> length v3"
    "length v3 + length ?names \<le> length v4" "length v4 + length ?table \<le> length v5" "length v5 \<le> length v6"
    "length v6 + length ?index \<le> length v"
    using assms(1) length_pad_ge [of v0 8] length_pad_ge [of v1 4] length_pad_ge [of v2 4] length_pad_ge [of v3 8]
      length_pad_ge [of v4 8] length_pad_ge [of v5 8] length_pad_ge [of v6 4]
    by (simp_all add: v_def v6_def v5_def v4_def v3_def v2_def v1_def)
  then have l: "8 \<le> length v0" "8 \<le> length v1" "8 \<le> length v2" "8 \<le> length v3" "8 \<le> length v4"
    "8 \<le> length v5" "8 \<le> length v6" "8 \<le> length v" using l0 by linarith+
  have v: "length v < 2 ^ 64" using assms(4) length_sealed [OF l(8)] unfolding B by simp
  then have b: "?n < 2 ^ 64" "length ?names < 2 ^ 64" "length ?table < 2 ^ 64" "length ?index < 2 ^ 64"
    using le by linarith+
  note s6 = section_u32s [of v6 ?index v base, folded v_def, OF prefix_order.refl l(7) assms(5)]
  note s5 = section_len [of v5 "length ?index" v base, folded v6_def, OF s6(4) l(6) assms(5) b(4)]
  note s4 = section_bytes [of v4 ?table v base, folded v5_def, OF s5(4) l(5) assms(5) b(3)]
  note s3 = section_bytes [of v3 ?names v base, folded v4_def, OF s4(6) l(4) assms(5) b(2)]
  note s2 = section_u32s [of v2 "b_seqs b" v base, folded v3_def, OF s3(6) l(3) assms(5), unfolded assms(3)]
  note s1 = section_u32s [of v1 "b_offsets b" v base, folded v2_def, OF s2(4) l(2) assms(5), unfolded assms(2)]
  note s0 = section_u64s [of v0 "b_addresses b" v base, folded v1_def, OF s1(4) l(1) assms(5), unfolded assms(1), unfolded l0]
  note head = section_header [of ?n v, folded v0_def, OF s0(4) v b(1)]
  have "\<not> length (sealed v) < length v1" "\<not> length (sealed v) < length v2" "\<not> length (sealed v) < length v3"
    "\<not> length (sealed v) < length v4" "\<not> length (sealed v) < length v5" "\<not> length (sealed v) < length v6"
    using le length_sealed [OF l(8)] by linarith+
  then show ?thesis
    by (simp add: B from_blob_def Let_def head s0(1-3) s1(1-3) s2(1-3) s3(1-5) s4(1-5) s5(1-3) s6(1-2)
        s3(3) [unfolded s3(5)] s4(3) [unfolded s4(5)] mapped_of_def)
qed

text \<open>
  C12: the serialized form. A blob whose arrays have one entry per symbol, stored at an 8-byte
  aligned address, parses back to exactly its arrays.
\<close>

theorem from_blob_to_blob:
  assumes "length (b_addresses b) = b_num_syms b" "length (b_offsets b) = b_num_syms b"
    and "length (b_seqs b) = b_num_syms b" "length (to_blob b) < 2 ^ 64" "8 dvd base"
  shows "from_blob base (to_blob b) st et = Ok (mapped_of b st et)"
  using assms by (rule blob_parses)

definition example_blob :: blob where
  "example_blob =
     \<lparr>b_token_table = ''ab'', b_token_index = [0], b_token_map = [(''ab'', 0)],
      b_names = [CHR ''T'', CHR 0x01, CHR 0x00, CHR ''f''], b_offsets = [0], b_seqs = [0],
      b_addresses = [4096], b_num_syms = 1\<rparr>"

theorem from_blob_to_blob_witness:
  "from_blob 4096 (to_blob example_blob) 0 8192 = Ok (mapped_of example_blob 0 8192)"
proof -
  have "length (to_blob example_blob) = 76"
    by (simp add: to_blob_def Let_def length_pad example_blob_def)
  then show ?thesis by (intro from_blob_to_blob) (simp_all add: example_blob_def)
qed

end
