(* ===== verification/KsymCompress.thy ===== *)
theory KsymCompress
  imports KsymRoundtrip
begin

text \<open>
  Compression is lossless: the token table of \<open>gen_ksym.rs\<close> and the expansion of
  \<open>ksym/src/lib.rs\<close> agree, so the table made from a symbol list is well-formed and answers
  name lookups with the addresses of the input.
\<close>

section \<open>The token table\<close>

text \<open>The tokens in the order they were added determine the three token fields.\<close>

definition token_inv :: "string list \<Rightarrow> blob \<Rightarrow> bool" where
  "token_inv ts b \<longleftrightarrow>
     b_token_table b = concat ts \<and>
     b_token_index b = map (\<lambda>i. of_nat (length (concat (take i ts)))) [0..<length ts] \<and>
     length (b_token_map b) = length ts \<and>
     (\<forall>t tid. map_of (b_token_map b) t = Some tid \<longrightarrow> tid < length ts \<and> ts ! tid = t)"

lemma token_inv_new: "token_inv [] KallsymsBlob_new"
  by (simp add: token_inv_def KallsymsBlob_new_def)

lemma add_token_inv:
  assumes "token_inv ts b" "length ts < 2 ^ 16"
  shows "\<exists>ts'. token_inv ts' (add_token b t) \<and> length ts' \<le> Suc (length ts)"
proof (cases "map_of (b_token_map b) t")
  case None
  have "token_inv (ts @ [t]) (add_token b t)"
    using assms None by (auto simp: token_inv_def add_token_def nth_append Let_def less_SucI)
  then show ?thesis by (intro exI [of _ "ts @ [t]"]) simp
next
  case (Some tid)
  with assms(1) show ?thesis by (intro exI [of _ ts]) (simp add: add_token_def)
qed

lemma add_tokens_inv:
  "token_inv ts b \<Longrightarrow> length ts + length toks \<le> 2 ^ 16 \<Longrightarrow> \<exists>ts'. token_inv ts' (foldl add_token b toks)"
proof (induction toks arbitrary: ts b)
  case (Cons t toks)
  then obtain ts' where "token_inv ts' (add_token b t)" "length ts' \<le> Suc (length ts)"
    using add_token_inv [of ts b t] by auto
  with Cons show ?case by auto
qed auto

lemma select_tokens_length: "length chosen \<le> MAX_TOKEN \<Longrightarrow> length (select_tokens chosen toks) \<le> MAX_TOKEN"
  by (induction chosen toks rule: select_tokens.induct) auto

text \<open>Adding tokens leaves the symbol arrays alone.\<close>

lemma add_token_rest [simp]:
  "b_names (add_token b t) = b_names b" "b_offsets (add_token b t) = b_offsets b"
  "b_seqs (add_token b t) = b_seqs b" "b_addresses (add_token b t) = b_addresses b"
  by (simp_all add: add_token_def Let_def split: option.split)

lemma add_tokens_rest [simp]:
  "b_names (foldl add_token b ts) = b_names b" "b_offsets (foldl add_token b ts) = b_offsets b"
  "b_seqs (foldl add_token b ts) = b_seqs b" "b_addresses (foldl add_token b ts) = b_addresses b"
  by (induction ts arbitrary: b) auto

lemma length_concat_take: "length (concat (take i ts)) \<le> length (concat ts)"
  by (metis append_take_drop_id concat_append le_add1 length_append)

lemma concat_take_nth: "i < length ts \<Longrightarrow> concat (take (Suc i) ts) = concat (take i ts) @ ts ! i"
  by (simp add: take_Suc_conv_app_nth)

lemma token_string_inv:
  assumes "token_inv ts b" "length (b_token_table b) < 2 ^ 32" "tid < length ts"
    and "token_table m = b_token_table b" "token_index m = b_token_index b"
  shows "token_string m (Some tid) = Ok (ts ! tid)"
proof -
  let ?at = "\<lambda>i. length (concat (take i ts))"
  have table: "b_token_table b = concat ts" and index: "b_token_index b = map (\<lambda>i. of_nat (?at i)) [0..<length ts]"
    using assms(1) by (auto simp: token_inv_def)
  have "?at i < 2 ^ 32" for i using length_concat_take [of i ts] assms(2) table by simp
  then have un: "unat (of_nat (?at i) :: u32) = ?at i" for i by (simp add: unat_of_nat)
  have stop: "(if tid + 1 < length ts then ?at (tid + 1) else length (concat ts)) = ?at (Suc tid)"
    using assms(3) by (auto simp: not_less)
  have "concat ts = concat (take tid ts) @ ts ! tid @ concat (drop (Suc tid) ts)"
    using id_take_nth_drop [OF assms(3)] by (metis concat.simps(2) concat_append)
  then have "bslice (concat ts) (?at tid) (?at (Suc tid)) = ts ! tid"
    using concat_take_nth [OF assms(3)] by (simp add: bslice_def)
  moreover have "?at tid \<le> ?at (Suc tid)" using concat_take_nth [OF assms(3)] by simp
  moreover have "?at (Suc tid) \<le> length (concat ts)" by (rule length_concat_take)
  ultimately have "slice_of (concat ts) (?at tid) (?at (Suc tid)) = Ok (ts ! tid)" by simp
  moreover have "token_string m (Some tid) =
      slice_of (concat ts) (?at tid) (if tid + 1 < length ts then ?at (tid + 1) else length (concat ts))"
    using assms(3-5) by (simp add: token_string_def table index un)
  ultimately show ?thesis by (simp only: stop)
qed

section \<open>Expanding what was encoded\<close>

lemma is_utf8_marker: "is_utf8 nm \<Longrightarrow> nm \<noteq> [] \<Longrightarrow> nm ! 0 \<noteq> TOKEN_MARKER"
  by (cases nm) (auto simp: is_utf8_def TOKEN_MARKER_def)

definition good_name :: "string \<Rightarrow> bool" where
  "good_name nm \<longleftrightarrow> nm \<noteq> [] \<and> length nm \<le> KSYM_NAME_LEN \<and> is_utf8 nm"

lemma expand_raw: "good_name nm \<Longrightarrow> expand_symbol m nm = Ok nm"
  using is_utf8_marker [of nm]
  by (simp add: good_name_def expand_symbol_def from_utf8_or_default_def)

lemma read_emitted:
  assumes "tid < 511"
  shows "read_token_id (emit_token tid @ rest) = (Some tid, length (emit_token tid))"
proof (cases "tid < 256")
  case False
  have "char_of (tid mod 256) \<noteq> TOKEN_MARKER"
  proof
    assume "char_of (tid mod 256) = TOKEN_MARKER"
    then have "of_char (char_of (tid mod 256) :: char) = (255 :: nat)" by (simp only: TOKEN_MARKER_def) simp
    then have "tid mod 256 = 255" by simp
    moreover have "tid mod 256 = tid - 256" using assms False by (simp add: mod_if)
    ultimately show False using assms by linarith
  qed
  moreover have "tid div 256 < 256" using assms by simp
  ultimately show ?thesis using False by (simp add: read_token_id_def emit_token_def)
qed (simp add: read_token_id_def emit_token_def)

lemma expand_token:
  assumes "token_inv ts b" "length (b_token_table b) < 2 ^ 32" "length ts \<le> 511" "tid < length ts"
    and "token_table m = b_token_table b" "token_index m = b_token_index b"
    and "good_name (ts ! tid @ rest)"
  shows "expand_symbol m (emit_token tid @ rest) = Ok (ts ! tid @ rest)"
proof -
  have "(emit_token tid @ rest) ! 0 = TOKEN_MARKER" "emit_token tid \<noteq> []" by (simp_all add: emit_token_def)
  moreover have "read_token_id (emit_token tid @ rest) = (Some tid, length (emit_token tid))"
    using assms(3,4) by (intro read_emitted) simp
  moreover have "length rest \<le> KSYM_NAME_LEN - length (ts ! tid)"
    using assms(7) by (auto simp: good_name_def)
  ultimately show ?thesis
    using token_string_inv [OF assms(1,2,4-6)] assms(7)
    by (simp add: expand_symbol_def good_name_def from_utf8_or_default_def Let_def)
qed

section \<open>The names array\<close>

text \<open>An encoded symbol: type, length and a body that stands for the name.\<close>

definition encodes :: "(string \<times> nat) list \<Rightarrow> string \<Rightarrow> string \<Rightarrow> bool" where
  "encodes tmap nm body \<longleftrightarrow>
     body = nm \<or> (\<exists>l tid. map_of tmap (take l nm) = Some tid \<and> body = emit_token tid @ drop l nm)"

lemma find_token_sound:
  "find_token tmap nm ls = Ok (Some (l, tid)) \<Longrightarrow> l \<le> length nm \<and> map_of tmap (take l nm) = Some tid"
  by (induction tmap nm ls rule: find_token.induct) (auto split: if_splits option.splits)

lemma encode_symbol_shape:
  assumes "encode_symbol tmap nm ty = Ok enc" "length nm \<le> KSYM_NAME_LEN"
  shows "\<exists>body. enc = char_of ty # push_u16 (length body) @ body \<and> length body < 2 ^ 16 \<and> encodes tmap nm body"
proof -
  obtain found where f: "find_token tmap nm (rev PREFIX_CANDIDATE_LENS) = Ok found"
    using assms(1) by (auto simp: encode_symbol_def and_then_Ok_iff)
  show ?thesis
  proof (cases found)
    case None
    with f assms show ?thesis
      by (intro exI [of _ nm]) (simp add: encode_symbol_def encodes_def KSYM_NAME_LEN_def)
  next
    case (Some p)
    then obtain l tid where p: "found = Some (l, tid)" by (cases p) auto
    have "length (emit_token tid) = (if tid < 256 then 3 else 4)" by (simp add: emit_token_def)
    with f p assms find_token_sound [OF f [unfolded p]] show ?thesis
      by (intro exI [of _ "emit_token tid @ drop l nm"])
        (auto simp: encode_symbol_def encodes_def KSYM_NAME_LEN_def)
  qed
qed

lemma expand_body:
  assumes "token_inv ts b" "length (b_token_table b) < 2 ^ 32" "length ts \<le> 511"
    and "token_table m = b_token_table b" "token_index m = b_token_index b"
    and "good_name nm" "encodes (b_token_map b) nm body"
  shows "expand_symbol m body = Ok nm"
proof (cases "body = nm")
  case True
  then show ?thesis using assms(6) by (simp add: expand_raw)
next
  case False
  then obtain l tid where t: "map_of (b_token_map b) (take l nm) = Some tid" "body = emit_token tid @ drop l nm"
    using assms(7) by (auto simp: encodes_def)
  then have "tid < length ts" "ts ! tid = take l nm" using assms(1) by (auto simp: token_inv_def)
  with t expand_token [OF assms(1-3) _ assms(4,5), of tid "drop l nm"] assms(6) show ?thesis by simp
qed

lemma symbol_at_section:
  assumes "i < length (kallsyms_offsets m)" "kallsyms_offsets m ! i = of_nat (length pre)" "length pre < 2 ^ 32"
    and "kallsyms_names m = pre @ (char_of ty # push_u16 (length body) @ body) @ post" "length body < 2 ^ 16"
  shows "symbol_at m i = and_then (expand_symbol m body) (\<lambda>name. Ok (char_of ty, name))"
proof -
  have off: "unat (kallsyms_offsets m ! i) = length pre" using assms(2,3) by (simp add: unat_of_nat)
  have "read_compressed_len_and_type (char_of ty # push_u16 (length body) @ body @ post) = (length body, char_of ty)"
    using assms(5) by (simp add: read_compressed_len_and_type_def push_u16_def PREFIX_LEN_def)
  moreover have "slice_of (kallsyms_names m) (length pre) (length (kallsyms_names m)) =
      Ok (char_of ty # push_u16 (length body) @ body @ post)"
    by (simp add: slice_of_def assms(4) bslice_def)
  moreover have "slice_of (kallsyms_names m) (length pre + PREFIX_LEN) (length pre + PREFIX_LEN + length body) = Ok body"
    by (simp add: slice_of_def assms(4) bslice_def PREFIX_LEN_def push_u16_def)
  ultimately show ?thesis using assms(1) off by (simp add: symbol_at_def Let_def)
qed

text \<open>What the emission loop appends: one encoding per symbol, at the recorded offset.\<close>

lemma emit_symbols_effect:
  "emit_symbols syms b = Ok b' \<Longrightarrow>
     \<exists>encs. list_all2 (\<lambda>(nm, addr, ty) enc. encode_symbol (b_token_map b) nm ty = Ok enc) syms encs \<and>
       b' = b\<lparr>b_names := b_names b @ concat encs,
         b_offsets := b_offsets b @ map (\<lambda>i. of_nat (length (b_names b @ concat (take i encs)))) [0..<length syms],
         b_addresses := b_addresses b @ map (\<lambda>(nm, addr, ty). addr) syms\<rparr>"
proof (induction syms b rule: emit_symbols.induct)
  case (2 nm addr ty syms b)
  obtain enc where enc: "encode_symbol (b_token_map b) nm ty = Ok enc"
    using "2.prems" by (auto simp: and_then_Ok_iff)
  then obtain encs where "list_all2 (\<lambda>(nm, addr, ty) enc. encode_symbol (b_token_map b) nm ty = Ok enc) syms encs"
    and b': "b' = b\<lparr>b_names := b_names b @ enc @ concat encs,
      b_offsets := b_offsets b @ of_nat (length (b_names b)) #
        map (\<lambda>i. of_nat (length (b_names b @ enc @ concat (take i encs)))) [0..<length syms],
      b_addresses := b_addresses b @ addr # map (\<lambda>(nm, addr, ty). addr) syms\<rparr>"
    using "2.IH" [OF enc] "2.prems" by auto
  then show ?case
    using enc by (intro exI [of _ "enc # encs"])
      (simp add: upt_conv_Cons map_Suc_upt [symmetric] del: upt_Suc map_Suc_upt)
qed simp

section \<open>The table of a symbol list\<close>

lemma orig_to_addr_other: "j \<notin> set idx \<Longrightarrow> orig_to_addr idx pos arr ! j = arr ! j"
  by (induction idx pos arr rule: orig_to_addr.induct) auto

lemma orig_to_addr_nth:
  "distinct idx \<Longrightarrow> (\<forall>i \<in> set idx. i < length arr) \<Longrightarrow> p < length idx \<Longrightarrow>
     orig_to_addr idx pos arr ! (idx ! p) = pos + p"
proof (induction idx pos arr arbitrary: p rule: orig_to_addr.induct)
  case (2 orig idx pos arr)
  then show ?case by (cases p) (auto simp: orig_to_addr_other)
qed simp

abbreviation sym_key :: "symbol list \<Rightarrow> nat \<Rightarrow> u64" where
  "sym_key syms i \<equiv> fst (snd (syms ! i))"

definition addr_order :: "symbol list \<Rightarrow> nat list" where
  "addr_order syms = sort_key (sym_key syms) [0..<length syms]"

definition name_order :: "symbol list \<Rightarrow> nat list" where
  "name_order syms = sort_key (\<lambda>i. fst (syms ! i)) [0..<length syms]"

lemma orders [simp]:
  "length (addr_order syms) = length syms" "set (addr_order syms) = {0..<length syms}" "distinct (addr_order syms)"
  "length (name_order syms) = length syms" "set (name_order syms) = {0..<length syms}"
  by (simp_all add: addr_order_def name_order_def)

lemma order_nth: "i < length syms \<Longrightarrow> addr_order syms ! i < length syms"
  "i < length syms \<Longrightarrow> name_order syms ! i < length syms"
  using nth_mem [of i "addr_order syms"] nth_mem [of i "name_order syms"] by simp_all

text \<open>The fields of a compressed blob.\<close>

lemma compress_effect:
  assumes "compress_symbols iter syms KallsymsBlob_new = Ok b" "syms \<noteq> []"
  shows "\<exists>ts encs. token_inv ts b \<and>
    list_all2 (\<lambda>(nm, addr, ty) enc. encode_symbol (b_token_map b) nm ty = Ok enc) (map (\<lambda>i. syms ! i) (addr_order syms)) encs \<and>
    b_names b = concat encs \<and>
    b_offsets b = map (\<lambda>i. of_nat (length (concat (take i encs)))) [0..<length syms] \<and>
    b_addresses b = map (sym_key syms) (addr_order syms) \<and>
    b_seqs b = map (\<lambda>i. of_nat (orig_to_addr (addr_order syms) 0 (replicate (length syms) 0) ! i)) (name_order syms) \<and>
    b_num_syms b = length syms"
proof -
  obtain counts b1 where c: "count_tokens syms (\<lambda>_. None) = Ok counts"
    and e: "emit_symbols (map (\<lambda>i. syms ! i) (addr_order syms))
      (foldl add_token KallsymsBlob_new (select_tokens [] (sort_tokens (iter counts)))) = Ok b1"
    and b: "b = b1\<lparr>b_seqs := b_seqs b1 @ map (\<lambda>i. of_nat (orig_to_addr (addr_order syms) 0 (replicate (length syms) 0) ! i))
      (name_order syms), b_num_syms := length syms\<rparr>"
    using assms by (auto simp: compress_symbols_def Let_def and_then_Ok_iff addr_order_def name_order_def)
  let ?b0 = "foldl add_token KallsymsBlob_new (select_tokens [] (sort_tokens (iter counts)))"
  have "length (select_tokens [] (sort_tokens (iter counts))) \<le> 2 ^ 16"
    using select_tokens_length [of "[]" "sort_tokens (iter counts)"] by (simp add: MAX_TOKEN_def)
  then obtain ts where ts: "token_inv ts ?b0" using add_tokens_inv [OF token_inv_new] by auto
  from emit_symbols_effect [OF e] obtain encs where
    encs: "list_all2 (\<lambda>(nm, addr, ty) enc. encode_symbol (b_token_map ?b0) nm ty = Ok enc)
      (map (\<lambda>i. syms ! i) (addr_order syms)) encs"
    and b1: "b1 = ?b0\<lparr>b_names := concat encs,
      b_offsets := map (\<lambda>i. of_nat (length (concat (take i encs)))) [0..<length syms],
      b_addresses := map (\<lambda>(nm, addr, ty). addr) (map (\<lambda>i. syms ! i) (addr_order syms))\<rparr>"
    by (auto simp: KallsymsBlob_new_def)
  have "token_inv ts b" using ts by (simp add: token_inv_def b b1)
  then show ?thesis
    using encs by (intro exI [of _ ts] exI [of _ encs]) (simp add: b b1 split_beta comp_def KallsymsBlob_new_def)
qed

text \<open>
  The limits of the format: 32-bit offsets, and fewer than 512 tokens, because the two-byte form
  of token id 511 (\<open>FF 01 FF FF\<close>) reads as a one-byte id.
\<close>

definition within_limits :: "blob \<Rightarrow> bool" where
  "within_limits b \<longleftrightarrow>
     length (b_token_index b) \<le> 511 \<and> length (b_names b) < 2 ^ 32 \<and>
     length (b_token_table b) < 2 ^ 32 \<and> b_num_syms b < 2 ^ 32"

lemma compressed_symbol_at:
  assumes "compress_symbols iter syms KallsymsBlob_new = Ok b" "within_limits b"
    and "list_all (\<lambda>(nm, addr, ty). good_name nm) syms" "p < length syms"
  shows "symbol_at (mapped_of b st et) p =
    Ok (char_of (snd (snd (syms ! (addr_order syms ! p)))), fst (syms ! (addr_order syms ! p)))"
proof -
  let ?m = "mapped_of b st et" and ?i = "addr_order syms ! p"
  obtain nm addr ty where sy: "syms ! ?i = (nm, addr, ty)" by (cases "syms ! ?i") auto
  have "syms \<noteq> []" using assms(4) by auto
  then obtain ts encs where ts: "token_inv ts b"
    and encs: "list_all2 (\<lambda>(nm, addr, ty) enc. encode_symbol (b_token_map b) nm ty = Ok enc)
      (map (\<lambda>i. syms ! i) (addr_order syms)) encs"
    and names: "b_names b = concat encs"
    and offsets: "b_offsets b = map (\<lambda>i. of_nat (length (concat (take i encs)))) [0..<length syms]"
    using compress_effect [OF assms(1)] by blast
  have len: "length encs = length syms" using list_all2_lengthD [OF encs] by simp
  have good: "good_name nm"
    using assms(3) sy order_nth(1) [OF assms(4)] by (auto simp: list_all_length)
  have "encode_symbol (b_token_map b) nm ty = Ok (encs ! p)"
    using list_all2_nthD [OF encs, of p] assms(4) sy by simp
  then obtain body where body: "encs ! p = char_of ty # push_u16 (length body) @ body" "length body < 2 ^ 16"
    "encodes (b_token_map b) nm body"
    using encode_symbol_shape good unfolding good_name_def by blast
  have "concat encs = concat (take p encs) @ encs ! p @ concat (drop (Suc p) encs)"
    using id_take_nth_drop [of p encs] assms(4) len by (metis concat.simps(2) concat_append)
  moreover have "length (concat (take p encs)) < 2 ^ 32"
    using length_concat_take [of p encs] assms(2) names by (simp add: within_limits_def)
  ultimately have "symbol_at ?m p = and_then (expand_symbol ?m body) (\<lambda>name. Ok (char_of ty, name))"
    using assms(4) offsets names body(1,2) by (intro symbol_at_section) (auto simp: mapped_of_def)
  moreover have "length ts \<le> 511" using ts assms(2) by (simp add: token_inv_def within_limits_def)
  then have "expand_symbol ?m body = Ok nm"
    using ts assms(2) good body(3) by (intro expand_body [of ts b]) (auto simp: mapped_of_def within_limits_def)
  ultimately show ?thesis by (simp add: sy)
qed

text \<open>The table made from a symbol list is well-formed.\<close>

lemma compressed_seq_at:
  assumes "compress_symbols iter syms KallsymsBlob_new = Ok b" "within_limits b" "k < length syms"
  shows "seq_at (mapped_of b st et) k < length syms"
    "addr_order syms ! seq_at (mapped_of b st et) k = name_order syms ! k"
proof -
  let ?arr = "orig_to_addr (addr_order syms) 0 (replicate (length syms) 0)"
  have ne: "syms \<noteq> []" using assms(3) by auto
  have seqs: "b_seqs b = map (\<lambda>i. of_nat (?arr ! i)) (name_order syms)" and n: "b_num_syms b = length syms"
    using compress_effect [OF assms(1) ne] by blast+
  obtain p where p: "p < length syms" "addr_order syms ! p = name_order syms ! k"
    using order_nth(2) [OF assms(3)] by (metis atLeast0LessThan in_set_conv_nth lessThan_iff orders(1,2))
  then have "?arr ! (name_order syms ! k) = p"
    using orig_to_addr_nth [of "addr_order syms" "replicate (length syms) 0" p 0] by simp
  moreover have "p < 2 ^ 32" using p(1) assms(2) n by (simp add: within_limits_def)
  ultimately have "seq_at (mapped_of b st et) k = p"
    using assms(3) by (simp add: seq_at_def mapped_of_def seqs unat_of_nat)
  with p show "seq_at (mapped_of b st et) k < length syms"
    "addr_order syms ! seq_at (mapped_of b st et) k = name_order syms ! k" by simp_all
qed

lemma compressed_wf:
  assumes "compress_symbols iter syms KallsymsBlob_new = Ok b" "within_limits b"
    and "list_all (\<lambda>(nm, addr, ty). good_name nm) syms"
  shows "wf_mapped (mapped_of b st et)"
    and "k < length syms \<Longrightarrow> key_name (mapped_of b st et) k = fst (syms ! (name_order syms ! k))"
    and "k < length syms \<Longrightarrow> sym_addr (mapped_of b st et) (seq_at (mapped_of b st et) k) =
      sym_key syms (name_order syms ! k)"
    and "kallsyms_num_syms (mapped_of b st et) = length syms"
proof -
  let ?m = "mapped_of b st et"
  have fields: "b_num_syms b = length syms \<and> length (b_seqs b) = length syms \<and>
      b_addresses b = map (sym_key syms) (addr_order syms)"
  proof (cases "syms = []")
    case True
    with assms(1) show ?thesis by (auto simp: compress_symbols_def KallsymsBlob_new_def addr_order_def)
  qed (use compress_effect [OF assms(1)] in auto)
  then show num: "kallsyms_num_syms ?m = length syms" by (simp add: mapped_of_def)
  have key: "key_name ?m k = fst (syms ! (name_order syms ! k))" if "k < length syms" for k
    using compressed_symbol_at [OF assms] compressed_seq_at [OF assms(1,2) that]
    by (simp add: key_name_def sym_name_def)
  then show "k < length syms \<Longrightarrow> key_name ?m k = fst (syms ! (name_order syms ! k))" .
  show "k < length syms \<Longrightarrow> sym_addr ?m (seq_at ?m k) = sym_key syms (name_order syms ! k)"
    using compressed_seq_at [OF assms(1,2)] fields by (simp add: sym_addr_def mapped_of_def)
  have "map (key_name ?m) [0..<length syms] = map (\<lambda>i. fst (syms ! i)) (name_order syms)"
    using key by (intro nth_equalityI) auto
  moreover have "sorted (map (\<lambda>i. fst (syms ! i)) (name_order syms))" unfolding name_order_def by simp
  moreover have "sorted (b_addresses b)" unfolding fields [THEN conjunct2, THEN conjunct2] addr_order_def by simp
  ultimately show "wf_mapped ?m"
    using fields num compressed_symbol_at [OF assms] compressed_seq_at [OF assms(1,2)]
    by (auto simp: wf_mapped_def mapped_of_def)
qed

section \<open>From a symbol list to answers\<close>

lemma find_filter: "List.find P xs = (case filter P xs of [] \<Rightarrow> None | x # _ \<Rightarrow> Some x)"
  by (induction xs) auto

lemma find_map: "List.find P (map f xs) = map_option f (List.find (\<lambda>x. P (f x)) xs)"
  by (induction xs) auto

lemma find_cong_set: "(\<And>x. x \<in> set xs \<Longrightarrow> P x = Q x) \<Longrightarrow> List.find P xs = List.find Q xs"
  by (induction xs) auto

text \<open>A stable sort keeps the first element of each key first.\<close>

lemma find_sort_key: "List.find (\<lambda>x. f x = k) (sort_key f xs) = List.find (\<lambda>x. f x = k) xs"
  by (simp add: find_filter sort_key_stable)

lemma map_nth_upt: "map (\<lambda>i. xs ! i) [0..<length xs] = xs"
  by (rule map_nth)

lemma compressed_lookup:
  assumes "compress_symbols iter syms KallsymsBlob_new = Ok b" "within_limits b"
    and "list_all (\<lambda>(nm, addr, ty). good_name nm) syms"
  shows "lookup_name (mapped_of b st et) name =
    Ok (map_option (\<lambda>(nm, addr, ty). addr) (List.find (\<lambda>(nm, addr, ty). nm = name) syms))"
proof -
  let ?m = "mapped_of b st et" and ?n = "length syms" and ?P = "\<lambda>i. fst (syms ! i) = name"
  have "map_option (\<lambda>k. sym_addr ?m (seq_at ?m k)) (List.find (\<lambda>k. key_name ?m k = name) [0..<?n]) =
      map_option (\<lambda>k. sym_key syms (name_order syms ! k)) (List.find (\<lambda>k. ?P (name_order syms ! k)) [0..<?n])"
  proof -
    have "List.find (\<lambda>k. key_name ?m k = name) [0..<?n] = List.find (\<lambda>k. ?P (name_order syms ! k)) [0..<?n]"
      using compressed_wf(2) [OF assms] by (intro find_cong_set) auto
    then show ?thesis
      using compressed_wf(3) [OF assms] by (auto simp: find_Some_iff split: option.split intro!: option.map_cong0)
  qed
  also have "\<dots> = map_option (sym_key syms) (List.find ?P (map (\<lambda>k. name_order syms ! k) [0..<?n]))"
    by (simp add: find_map option.map_comp comp_def)
  also have "map (\<lambda>k. name_order syms ! k) [0..<?n] = name_order syms"
    using map_nth_upt [of "name_order syms"] by simp
  also have "List.find ?P (name_order syms) = List.find ?P [0..<?n]"
    unfolding name_order_def by (rule find_sort_key)
  also have "map_option (sym_key syms) \<dots> =
      map_option (\<lambda>(nm, addr, ty). addr) (map_option (\<lambda>i. syms ! i) (List.find ?P [0..<?n]))"
    by (simp add: option.map_comp comp_def split_beta)
  also have "map_option (\<lambda>i. syms ! i) (List.find ?P [0..<?n]) = List.find (\<lambda>s. fst s = name) (map (\<lambda>i. syms ! i) [0..<?n])"
    by (simp add: find_map)
  also have "map (\<lambda>i. syms ! i) [0..<?n] = syms" by (rule map_nth_upt)
  finally show ?thesis
    using lookup_name_wf [OF compressed_wf(1) [OF assms], where name = name] compressed_wf(4) [OF assms]
    by (simp add: case_prod_unfold)
qed


section \<open>Dumping a generated table\<close>

lemma map_insort_key: "map f (insort_key (\<lambda>x. g (f x)) x xs) = insort_key g (f x) (map f xs)"
  by (induction xs) auto

lemma map_sort_key: "map f (sort_key (\<lambda>x. g (f x)) xs) = sort_key g (map f xs)"
  by (induction xs) (auto simp: map_insort_key)

definition dump_line :: "symbol \<Rightarrow> string" where
  "dump_line s = show_hex16 (fst (snd s)) @ '' '' @ utf8_char (of_char (char_of (snd (snd s)) :: char)) @ '' '' @ fst s @ [CHR 0x0A]"

lemma dump_loop_lines:
  "wf_mapped m \<Longrightarrow> list_all (\<lambda>i. i < kallsyms_num_syms m) ps \<Longrightarrow>
     dump_loop m ps = Ok (concat (map (\<lambda>i. dump_line (sym_name m i, sym_addr m i, of_char (sym_type m i))) ps))"
  by (induction ps) (auto simp: wf_reads dump_line_def)


end
