(* ===== verification/KsymExample.thy ===== *)
theory KsymExample
  imports KsymCompress
begin

text \<open>
  A small symbol list through the generator of \<open>gen_ksym.rs\<close> and back through the lookups of
  \<open>ksym/src/lib.rs\<close>: the concrete instances of the theorems on generated tables. Two symbols
  share a token, two share an address.
\<close>

definition example_symbols :: "symbol list" where
  "example_symbols = [(''do_syscall_64'', 0x1300, 84), (''do_syscall_32'', 0x1200, 116), (''idle'', 0x1300, 84)]"

text \<open>One iteration order of the counts of the two candidate tokens.\<close>

definition example_iter :: "(string \<rightharpoonup> nat) \<Rightarrow> (string \<times> nat) list" where
  "example_iter counts = List.map_filter (\<lambda>t. map_option (Pair t) (counts t)) [''idle'', ''do_syscall'']"

definition example_table :: blob where
  "example_table =
     \<lparr>b_token_table = ''do_syscallidle'', b_token_index = [0, 10],
      b_token_map = [(''idle'', 1), (''do_syscall'', 0)],
      b_names =
        [char_of (116 :: nat), char_of (6 :: nat), char_of (0 :: nat), TOKEN_MARKER, char_of (0 :: nat), TOKEN_MARKER] @ ''_32'' @
        [char_of (84 :: nat), char_of (6 :: nat), char_of (0 :: nat), TOKEN_MARKER, char_of (0 :: nat), TOKEN_MARKER] @ ''_64'' @
        [char_of (84 :: nat), char_of (4 :: nat), char_of (0 :: nat)] @ ''idle'',
      b_offsets = [0, 9, 18], b_seqs = [0, 1, 2], b_addresses = [0x1200, 0x1300, 0x1300],
      b_num_syms = 3\<rparr>"

lemma example_counts:
  "count_tokens example_symbols (\<lambda>_. None) = Ok [''do_syscall'' \<mapsto> 2, ''idle'' \<mapsto> 1]"
  by (simp add: example_symbols_def PREFIX_CANDIDATE_LENS_def count_one_def is_utf8_def numeral_2_eq_2)

lemma example_compresses:
  "compress_symbols example_iter example_symbols KallsymsBlob_new = Ok example_table"
  unfolding compress_symbols_def Let_def example_counts
  apply (simp add: example_iter_def sort_tokens_def MAX_TOKEN_def starts_with_def List.map_filter_simps
      example_symbols_def upt_rec)
  apply (simp add: encode_symbol_def PREFIX_CANDIDATE_LENS_def is_utf8_def add_token_def KallsymsBlob_new_def
      Let_def emit_token_def push_u16_def example_table_def)
  done

lemma example_limits: "within_limits example_table"
  by (simp add: within_limits_def example_table_def)

lemma example_good: "list_all (\<lambda>(nm, addr, ty). good_name nm \<and> ty < 128) example_symbols"
  by (simp add: example_symbols_def good_name_def KSYM_NAME_LEN_def is_utf8_def)

lemma example_good_names: "list_all (\<lambda>(nm, addr, ty). good_name nm) example_symbols"
  using example_good by (auto simp: list_all_iff)

abbreviation example_mapped :: mapped where
  "example_mapped \<equiv> mapped_of example_table 0x1000 0x2000"

lemmas example_wf = compressed_wf [OF example_compresses example_limits example_good_names, where st = "0x1000" and et = "0x2000"]


theorem lookup_names_correct_witness:
  "\<exists>lo hi. lookup_names example_mapped ''idle'' True = Ok (Some (lo, hi)) \<and> lo \<le> hi"
proof -
  have "name_order example_symbols = [1, 0, 2]"
    by (simp add: name_order_def example_symbols_def upt_rec)
  then have "key_name example_mapped 2 = ''idle''"
    using example_wf(2) [of 2] by (simp add: example_symbols_def)
  moreover have "2 < kallsyms_num_syms example_mapped" by (simp add: mapped_of_def example_table_def)
  ultimately show ?thesis using lookup_names_correct [OF example_wf(1), of "''idle''"] by blast
qed



end
