(* ===== verification/BpfMap.thy ===== *)
theory BpfMap
  imports RustText
begin

text \<open>
  What all BPF maps share, \<open>bpf-basic/src/map/mod.rs\<close> and \<open>flags.rs\<close>: errors, map
  metadata, update flags, the callback of \<open>for_each_elem\<close>, and the contract of a key-value map
  with the consequences that hold for every implementation of it.
\<close>

section \<open>Errors, metadata and flags\<close>

text \<open>
  The Linux error numbers the maps return. A fault is such an error or a panic; operations return
  the new map next to their result.
\<close>

datatype bpf_error =
    EPERM | ENOENT | EAGAIN | ENOMEM | EFAULT | EEXIST | EINVAL | ENOSPC | OtherErrno u32

datatype fault = Fails bpf_error | Panics

datatype bpf_map_type =
    MAP_UNSPEC | MAP_HASH | MAP_ARRAY | MAP_PROG_ARRAY | MAP_PERF_EVENT_ARRAY | MAP_PERCPU_HASH
  | MAP_PERCPU_ARRAY | MAP_STACK_TRACE | MAP_CGROUP_ARRAY | MAP_LRU_HASH | MAP_LRU_PERCPU_HASH
  | MAP_LPM_TRIE | MAP_ARRAY_OF_MAPS | MAP_HASH_OF_MAPS | MAP_DEVMAP | MAP_SOCKMAP | MAP_CPUMAP
  | MAP_XSKMAP | MAP_SOCKHASH | MAP_CGROUP_STORAGE_DEPRECATED | MAP_REUSEPORT_SOCKARRAY
  | MAP_PERCPU_CGROUP_STORAGE_DEPRECATED | MAP_QUEUE | MAP_STACK | MAP_SK_STORAGE
  | MAP_DEVMAP_HASH | MAP_STRUCT_OPS | MAP_RINGBUF | MAP_INODE_STORAGE | MAP_TASK_STORAGE
  | MAP_BLOOM_FILTER | MAP_USER_RINGBUF | MAP_CGRP_STORAGE | MAP_ARENA | MAX_MAP_TYPE

record map_meta =
  meta_map_type :: bpf_map_type
  meta_key_size :: u32
  meta_value_size :: u32
  meta_max_entries :: u32
  meta_map_flags :: u32
  meta_map_name :: string

definition BPF_NOEXIST :: u64 where "BPF_NOEXIST = 1"
definition BPF_EXISTS :: u64 where "BPF_EXISTS = 2"
definition BPF_F_LOCK :: u64 where "BPF_F_LOCK = 4"

lemmas update_flag_defs = BPF_NOEXIST_def BPF_EXISTS_def BPF_F_LOCK_def

text \<open>\<open>BpfMapUpdateElemFlags::from_bits\<close>: no bit outside the three flags.\<close>

definition flags_from_bits :: "u64 \<Rightarrow> (fault, u64) result" where
  "flags_from_bits bits =
     (if bits AND NOT (BPF_NOEXIST OR BPF_EXISTS OR BPF_F_LOCK) = 0 then Ok bits else Err (Fails EINVAL))"

definition has_bits :: "u64 \<Rightarrow> u64 \<Rightarrow> bool" where
  "has_bits flags b \<longleftrightarrow> flags AND b = b"

text \<open>The checks that hash-like maps make on their flags and sizes.\<close>

definition check_len :: "string \<Rightarrow> u32 \<Rightarrow> (fault, unit) result" where
  "check_len bytes n = (if length bytes \<noteq> unat n then Err (Fails EINVAL) else Ok ())"

definition check_update_flags :: "u64 \<Rightarrow> (fault, u64) result" where
  "check_update_flags bits =
     and_then (flags_from_bits bits) (\<lambda>flags.
       if has_bits flags BPF_F_LOCK then Err (Fails EINVAL)
       else if has_bits flags BPF_NOEXIST \<and> has_bits flags BPF_EXISTS then Err (Fails EINVAL)
       else Ok flags)"

text \<open>\<open>copy_from_slice\<close> into a buffer: the lengths must agree.\<close>

definition copy_from_slice :: "string \<Rightarrow> string \<Rightarrow> (fault, string) result" where
  "copy_from_slice dst src = (if length dst = length src then Ok src else Err Panics)"

text \<open>An operation that returns the new map on success and leaves the old one on failure.\<close>

definition commit :: "'m \<Rightarrow> (fault, 'm) result \<Rightarrow> (fault, unit) result \<times> 'm" where
  "commit m r = (case r of Inl f \<Rightarrow> (Err f, m) | Inr m' \<Rightarrow> (Ok (), m'))"

lemma commit_Ok: "commit m r = (Inr u, m') \<longleftrightarrow> r = Inr m'"
  by (auto simp: commit_def split: sum.splits)

lemma commit_Err: "commit m r = (Inl f, m') \<longleftrightarrow> r = Inl f \<and> m' = m"
  by (auto simp: commit_def split: sum.splits)

lemmas commit_iffs = commit_Ok commit_Err

lemma check_len_iffs [simp]:
  "check_len bs n = Inr u \<longleftrightarrow> length bs = unat n"
  "check_len bs n = Inl f \<longleftrightarrow> length bs \<noteq> unat n \<and> f = Fails EINVAL"
  by (auto simp: check_len_def)

lemma check_update_flags_fault: "check_update_flags bits = Inl f \<Longrightarrow> f = Fails EINVAL"
  by (auto simp: check_update_flags_def flags_from_bits_def split: if_splits)

text \<open>A slice or an index out of range panics.\<close>

definition or_panic :: "(panic, 'a) result \<Rightarrow> (fault, 'a) result" where
  "or_panic r = (case r of Inl _ \<Rightarrow> Err Panics | Inr x \<Rightarrow> Ok x)"

lemma or_panic_simps [simp]: "or_panic (Inl p) = Err Panics" "or_panic (Inr x) = Ok x"
  by (simp_all add: or_panic_def)

text \<open>
  The callback of \<open>for_each_elem\<close> with the state behind its context pointer: its result 0 goes
  on.
\<close>

type_synonym 's callback = "string \<Rightarrow> string \<Rightarrow> 's \<Rightarrow> int \<times> 's"

text \<open>The loop of the hash-like maps: an element counts after its callback returned 0.\<close>

fun each_elem :: "'s callback \<Rightarrow> (string \<times> string) list \<Rightarrow> nat \<Rightarrow> 's \<Rightarrow> nat \<times> 's" where
  "each_elem cb [] used s = (used, s)"
| "each_elem cb ((k, v) # kvs) used s =
     (let (res, s) = cb k v s in if res \<noteq> 0 then (used, s) else each_elem cb kvs (used + 1) s)"

definition mem_usage :: "(string \<times> string) list \<Rightarrow> nat" where
  "mem_usage kvs = sum_list (map (\<lambda>(k, v). length k + length v) kvs)"

text \<open>The key after \<open>key\<close> in iteration order; the first one when \<open>key\<close> is absent.\<close>

definition next_key_in :: "(string \<times> string) list \<Rightarrow> string option \<Rightarrow> string option" where
  "next_key_in kvs key =
     (let nxt = (case key of
          None \<Rightarrow> kvs
        | Some k \<Rightarrow>
            (if k \<notin> set (map fst kvs) then kvs
             else drop 1 (dropWhile (\<lambda>(k', _). k' \<noteq> k) kvs)))
      in case nxt of [] \<Rightarrow> None | (k, _) # _ \<Rightarrow> Some k)"

section \<open>The contract of a key-value map\<close>

text \<open>The operations of \<open>BpfMapCommonOps\<close> that a client of a key-value map calls.\<close>

record 'm map_ops =
  op_lookup :: "'m \<Rightarrow> string \<Rightarrow> (fault, string option) result \<times> 'm"
  op_update :: "'m \<Rightarrow> string \<Rightarrow> string \<Rightarrow> u64 \<Rightarrow> (fault, unit) result \<times> 'm"
  op_delete :: "'m \<Rightarrow> string \<Rightarrow> (fault, unit) result \<times> 'm"

datatype map_call = Lookup string | Update string string u64 | Delete string

definition fault_of :: "(fault, 'a) result \<times> 'm \<Rightarrow> fault option \<times> 'm" where
  "fault_of r = (case fst r of Inl f \<Rightarrow> Some f | Inr _ \<Rightarrow> None, snd r)"

fun map_step :: "'m map_ops \<Rightarrow> 'm \<Rightarrow> map_call \<Rightarrow> fault option \<times> 'm" where
  "map_step ops m (Lookup k) = fault_of (op_lookup ops m k)"
| "map_step ops m (Update k v fl) = fault_of (op_update ops m k v fl)"
| "map_step ops m (Delete k) = fault_of (op_delete ops m k)"

text \<open>The map a client believes in: its successful updates and deletes, in order.\<close>

fun believe :: "map_call \<Rightarrow> (string \<Rightarrow> string option) \<Rightarrow> (string \<Rightarrow> string option)" where
  "believe (Lookup k) w = w"
| "believe (Update k v fl) w = w(k := Some v)"
| "believe (Delete k) w = w(k := None)"

fun map_run :: "'m map_ops \<Rightarrow> 'm \<Rightarrow> (string \<Rightarrow> string option) \<Rightarrow> map_call list \<Rightarrow> 'm \<times> (string \<Rightarrow> string option)" where
  "map_run ops m w [] = (m, w)"
| "map_run ops m w (c # cs) =
     (case map_step ops m c of
        (None, m') \<Rightarrow> map_run ops m' (believe c w) cs
      | (Some f, m') \<Rightarrow> map_run ops m' w cs)"

text \<open>
  \<open>view m k\<close> is what a lookup of \<open>k\<close> finds. An update stores the value, and may at most evict
  other keys; a failed operation changes nothing.
\<close>

locale bpf_map =
  fixes ops :: "'m map_ops"
    and wf :: "'m \<Rightarrow> bool"
    and view :: "'m \<Rightarrow> string \<Rightarrow> string option"
  assumes lookup_Ok: "wf m \<Longrightarrow> op_lookup ops m k = (Ok r, m') \<Longrightarrow> r = view m k \<and> wf m' \<and> view m' = view m"
    and lookup_Err: "wf m \<Longrightarrow> op_lookup ops m k = (Err f, m') \<Longrightarrow> m' = m \<and> f \<noteq> Panics"
    and update_Ok: "wf m \<Longrightarrow> op_update ops m k v fl = (Ok u, m') \<Longrightarrow>
      wf m' \<and> view m' k = Some v \<and> (\<forall>j. j \<noteq> k \<longrightarrow> view m' j = view m j \<or> view m' j = None)"
    and update_Err: "wf m \<Longrightarrow> op_update ops m k v fl = (Err f, m') \<Longrightarrow> m' = m \<and> f \<noteq> Panics"
    and delete_Ok: "wf m \<Longrightarrow> op_delete ops m k = (Ok u, m') \<Longrightarrow> wf m' \<and> view m' = (view m)(k := None)"
    and delete_Err: "wf m \<Longrightarrow> op_delete ops m k = (Err f, m') \<Longrightarrow> m' = m \<and> f \<noteq> Panics"
begin

lemma step_fault: "wf m \<Longrightarrow> map_step ops m c = (Some f, m') \<Longrightarrow> m' = m \<and> f \<noteq> Panics"
  using lookup_Err update_Err delete_Err
  by (cases c; cases "op_lookup ops m (case c of Lookup k \<Rightarrow> k)";
      cases "op_update ops m (case c of Update k v fl \<Rightarrow> k) (case c of Update k v fl \<Rightarrow> v) (case c of Update k v fl \<Rightarrow> fl)";
      cases "op_delete ops m (case c of Delete k \<Rightarrow> k)")
    (auto simp: fault_of_def split: sum.splits)

lemma step_ok:
  assumes "wf m" "map_step ops m c = (None, m')"
  shows "wf m' \<and> (\<forall>k. view m' k = believe c (view m) k \<or> view m' k = None)"
proof (cases c)
  case (Lookup k)
  with assms obtain r where "op_lookup ops m k = (Ok r, m')"
    by (cases "op_lookup ops m k") (auto simp: fault_of_def split: sum.splits)
  from lookup_Ok [OF assms(1) this] show ?thesis using Lookup by auto
next
  case (Update k v fl)
  with assms obtain u where "op_update ops m k v fl = (Ok u, m')"
    by (cases "op_update ops m k v fl") (auto simp: fault_of_def split: sum.splits)
  from update_Ok [OF assms(1) this] show ?thesis using Update by auto
next
  case (Delete k)
  with assms obtain u where "op_delete ops m k = (Ok u, m')"
    by (cases "op_delete ops m k") (auto simp: fault_of_def split: sum.splits)
  from delete_Ok [OF assms(1) this] show ?thesis using Delete by auto
qed

text \<open>No stale read: a lookup finds nothing or the value of the last successful write.\<close>

lemma run_no_stale:
  "wf m \<Longrightarrow> (\<forall>k. view m k = w k \<or> view m k = None) \<Longrightarrow> map_run ops m w cs = (m', w') \<Longrightarrow>
     wf m' \<and> (\<forall>k. view m' k = w' k \<or> view m' k = None)"
proof (induction cs arbitrary: m w)
  case (Cons c cs)
  obtain r m1 where s: "map_step ops m c = (r, m1)" by (cases "map_step ops m c")
  show ?case
  proof (cases r)
    case None
    then have ok: "wf m1" "\<forall>k. view m1 k = believe c (view m) k \<or> view m1 k = None"
      using step_ok [OF Cons.prems(1)] s by auto
    have "\<forall>k. view m1 k = believe c w k \<or> view m1 k = None"
    proof
      show "view m1 k = believe c w k \<or> view m1 k = None" for k
        using ok(2) [rule_format, of k] Cons.prems(2) [rule_format, of k] by (cases c) (auto split: if_splits)
    qed
    moreover have "map_run ops m1 (believe c w) cs = (m', w')" using Cons.prems(3) s None by simp
    ultimately show ?thesis by (rule Cons.IH [OF ok(1)])
  next
    case (Some f)
    then have "m1 = m" using step_fault [OF Cons.prems(1)] s by simp
    then have "map_run ops m w cs = (m', w')" using Cons.prems(3) s Some by simp
    then show ?thesis by (rule Cons.IH [OF Cons.prems(1,2)])
  qed
qed simp

lemma run_never_panics:
  assumes "wf m" "\<forall>k. view m k = w k \<or> view m k = None" "map_run ops m w cs = (m', w')"
  shows "fst (map_step ops m' c) \<noteq> Some Panics"
  using step_fault [of m' c] run_no_stale [OF assms] by (cases "map_step ops m' c") auto

end

text \<open>A map without eviction: an update leaves the other keys alone.\<close>

locale exact_bpf_map = bpf_map ops wf view
  for ops :: "'m map_ops" and wf :: "'m \<Rightarrow> bool" and view :: "'m \<Rightarrow> string \<Rightarrow> string option" +
  assumes update_others: "wf m \<Longrightarrow> op_update ops m k v fl = (Ok u, m') \<Longrightarrow> j \<noteq> k \<Longrightarrow> view m' j = view m j"
begin

lemma step_exact:
  assumes "wf m" "map_step ops m c = (None, m')"
  shows "view m' = believe c (view m)"
proof (cases c)
  case (Lookup k)
  with assms obtain r where "op_lookup ops m k = (Ok r, m')"
    by (cases "op_lookup ops m k") (auto simp: fault_of_def split: sum.splits)
  from lookup_Ok [OF assms(1) this] show ?thesis using Lookup by auto
next
  case (Update k v fl)
  with assms obtain u where u: "op_update ops m k v fl = (Ok u, m')"
    by (cases "op_update ops m k v fl") (auto simp: fault_of_def split: sum.splits)
  have "view m' j = ((view m)(k := Some v)) j" for j
    using update_Ok [OF assms(1) u] update_others [OF assms(1) u, of j] by (cases "j = k") auto
  then show ?thesis using Update by auto
next
  case (Delete k)
  with assms obtain u where "op_delete ops m k = (Ok u, m')"
    by (cases "op_delete ops m k") (auto simp: fault_of_def split: sum.splits)
  from delete_Ok [OF assms(1) this] show ?thesis using Delete by auto
qed

lemma run_exact: "wf m \<Longrightarrow> map_run ops m (view m) cs = (m', w') \<Longrightarrow> wf m' \<and> view m' = w'"
proof (induction cs arbitrary: m)
  case (Cons c cs)
  obtain r m1 where s: "map_step ops m c = (r, m1)" by (cases "map_step ops m c")
  show ?case
  proof (cases r)
    case None
    then have "view m1 = believe c (view m)" "wf m1"
      using step_exact [OF Cons.prems(1)] step_ok [OF Cons.prems(1)] s by auto
    with Cons.IH [of m1] Cons.prems(2) s None show ?thesis by simp
  next
    case (Some f)
    with step_fault [OF Cons.prems(1)] s Cons show ?thesis by auto
  qed
qed simp

end

end
