(* ===== verification/BTreeMap.thy ===== *)
theory BTreeMap
  imports Prelude
begin

text \<open>
  Rust's \<open>BTreeMap\<close> as the association list of its entries in key order, which is also its
  iteration order: insertion, removal, and the lookup \<open>map_of\<close>.
\<close>

section \<open>Entries in key order\<close>

fun bt_insert :: "'k::linorder \<Rightarrow> 'v \<Rightarrow> ('k \<times> 'v) list \<Rightarrow> ('k \<times> 'v) list" where
  "bt_insert k v [] = [(k, v)]"
| "bt_insert k v ((k', v') # kvs) =
     (if k < k' then (k, v) # (k', v') # kvs
      else if k = k' then (k, v) # kvs
      else (k', v') # bt_insert k v kvs)"

definition bt_remove :: "'k \<Rightarrow> ('k \<times> 'v) list \<Rightarrow> ('k \<times> 'v) list" where
  "bt_remove k kvs = filter (\<lambda>(k', _). k' \<noteq> k) kvs"

definition key_ordered :: "('k::linorder \<times> 'v) list \<Rightarrow> bool" where
  "key_ordered kvs \<longleftrightarrow> sorted (map fst kvs) \<and> distinct (map fst kvs)"

lemma key_ordered_simps [simp]:
  "key_ordered []"
  "key_ordered ((k, v) # kvs) \<longleftrightarrow> key_ordered kvs \<and> (\<forall>j \<in> set (map fst kvs). k < j)"
  by (auto simp: key_ordered_def order_less_le)

lemma set_bt_insert: "fst ` set (bt_insert k v kvs) = insert k (fst ` set kvs)"
  by (induction k v kvs rule: bt_insert.induct) auto

lemma bt_insert_ordered: "key_ordered kvs \<Longrightarrow> key_ordered (bt_insert k v kvs)"
  by (induction k v kvs rule: bt_insert.induct) (auto simp: set_bt_insert)

lemma map_of_bt_insert: "key_ordered kvs \<Longrightarrow> map_of (bt_insert k v kvs) = (map_of kvs)(k \<mapsto> v)"
  by (induction k v kvs rule: bt_insert.induct) (auto simp: fun_upd_twist)

lemma length_bt_insert:
  "key_ordered kvs \<Longrightarrow> length (bt_insert k v kvs) = (if k \<in> fst ` set kvs then length kvs else Suc (length kvs))"
  by (induction k v kvs rule: bt_insert.induct) force+

lemma entries_bt_insert: "set (bt_insert k v kvs) \<subseteq> insert (k, v) (set kvs)"
  by (induction k v kvs rule: bt_insert.induct) auto

lemma bt_remove_ordered: "key_ordered kvs \<Longrightarrow> key_ordered (bt_remove k kvs)"
  by (induction kvs) (auto simp: bt_remove_def)

lemma map_of_bt_remove: "map_of (bt_remove k kvs) = (map_of kvs)(k := None)"
  by (induction kvs) (auto simp: bt_remove_def)

lemma map_of_bt_insert_same [simp]: "map_of (bt_insert k v kvs) k = Some v"
  by (induction k v kvs rule: bt_insert.induct) auto

lemma map_of_bt_insert_other: "j \<noteq> k \<Longrightarrow> map_of (bt_insert k v kvs) j = map_of kvs j"
  by (induction k v kvs rule: bt_insert.induct) auto

lemma map_of_bt_insert_eq [simp]: "map_of (bt_insert k v kvs) = (map_of kvs)(k \<mapsto> v)"
  by (auto simp: map_of_bt_insert_other)

end
