(* ===== verification/BpfHash.thy ===== *)
theory BpfHash
  imports BpfMap BTreeMap
begin

text \<open>
  The hash map of \<open>bpf-basic/src/map/hash.rs\<close>. Its \<open>BTreeMap\<close> is the association list of
  its entries in key order, which is also its iteration order.
\<close>

section \<open>The map\<close>

record hash_map =
  hm_max_entries :: u32
  hm_key_size :: u32
  hm_value_size :: u32
  hm_data :: "(string \<times> string) list"

definition BpfHashMap_new :: "map_meta \<Rightarrow> (fault, hash_map) result" where
  "BpfHashMap_new meta =
     (if meta_key_size meta = 0 \<or> meta_value_size meta = 0 \<or> meta_max_entries meta = 0 then Err (Fails EINVAL)
      else Ok \<lparr>hm_max_entries = meta_max_entries meta, hm_key_size = meta_key_size meta,
               hm_value_size = meta_value_size meta, hm_data = []\<rparr>)"

definition hash_lookup :: "hash_map \<Rightarrow> string \<Rightarrow> (fault, string option) result \<times> hash_map" where
  "hash_lookup m key = (and_then (check_len key (hm_key_size m)) (\<lambda>_. Ok (map_of (hm_data m) key)), m)"

definition hash_update :: "hash_map \<Rightarrow> string \<Rightarrow> string \<Rightarrow> u64 \<Rightarrow> (fault, unit) result \<times> hash_map" where
  "hash_update m key val flags =
     commit m
       (and_then (check_len key (hm_key_size m)) (\<lambda>_.
        and_then (check_len val (hm_value_size m)) (\<lambda>_.
        and_then (check_update_flags flags) (\<lambda>flags.
        let present = (map_of (hm_data m) key \<noteq> None) in
        if has_bits flags BPF_NOEXIST \<and> present then Err (Fails EEXIST)
        else if has_bits flags BPF_EXISTS \<and> \<not> present then Err (Fails ENOENT)
        else if \<not> present \<and> unat (hm_max_entries m) \<le> length (hm_data m) then Err (Fails ENOMEM)
        else Ok (m\<lparr>hm_data := bt_insert key val (hm_data m)\<rparr>)))))"

definition hash_delete :: "hash_map \<Rightarrow> string \<Rightarrow> (fault, unit) result \<times> hash_map" where
  "hash_delete m key =
     commit m (and_then (check_len key (hm_key_size m)) (\<lambda>_. Ok (m\<lparr>hm_data := bt_remove key (hm_data m)\<rparr>)))"

definition hash_for_each :: "hash_map \<Rightarrow> 's callback \<Rightarrow> 's \<Rightarrow> u64 \<Rightarrow> (fault, nat) result \<times> 's" where
  "hash_for_each m cb s flags =
     (if flags \<noteq> 0 then (Err (Fails EINVAL), s)
      else let (used, s) = each_elem cb (hm_data m) 0 s in (Ok used, s))"

text \<open>The result holds the new content of the caller's value buffer \<open>val\<close>.\<close>

definition hash_lookup_and_delete :: "hash_map \<Rightarrow> string \<Rightarrow> string \<Rightarrow> (fault, string) result \<times> hash_map" where
  "hash_lookup_and_delete m key val =
     (let r =
        and_then (check_len key (hm_key_size m)) (\<lambda>_.
        and_then (check_len val (hm_value_size m)) (\<lambda>_.
        and_then (ok_or (map_of (hm_data m) key) (Fails ENOENT)) (\<lambda>v. copy_from_slice val v)))
      in case r of
        Inl f \<Rightarrow> (Err f, m)
      | Inr out \<Rightarrow> (Ok out, m\<lparr>hm_data := bt_remove key (hm_data m)\<rparr>))"

definition hash_get_next_key :: "hash_map \<Rightarrow> string option \<Rightarrow> string \<Rightarrow> (fault, string) result" where
  "hash_get_next_key m key next_key =
     (if length next_key \<noteq> unat (hm_key_size m) then Err (Fails EINVAL)
      else and_then (case key of None \<Rightarrow> Ok () | Some k \<Rightarrow> check_len k (hm_key_size m)) (\<lambda>_.
        case next_key_in (hm_data m) key of
          Some k \<Rightarrow> copy_from_slice next_key k
        | None \<Rightarrow> Err (Fails ENOENT)))"

definition hash_mem_usage :: "hash_map \<Rightarrow> nat" where
  "hash_mem_usage m = mem_usage (hm_data m)"

section \<open>The map refines its contract\<close>

definition hash_ops :: "hash_map map_ops" where
  "hash_ops = \<lparr>op_lookup = hash_lookup, op_update = hash_update, op_delete = hash_delete\<rparr>"

definition hash_view :: "hash_map \<Rightarrow> string \<Rightarrow> string option" where
  "hash_view m = map_of (hm_data m)"

definition hash_wf :: "hash_map \<Rightarrow> bool" where
  "hash_wf m \<longleftrightarrow>
     key_ordered (hm_data m) \<and> length (hm_data m) \<le> unat (hm_max_entries m) \<and>
     (\<forall>(k, v) \<in> set (hm_data m). length k = unat (hm_key_size m) \<and> length v = unat (hm_value_size m))"

lemma hash_new_wf: "BpfHashMap_new meta = Ok m \<Longrightarrow> hash_wf m \<and> hash_view m = (\<lambda>_. None)"
  by (auto simp: BpfHashMap_new_def hash_wf_def hash_view_def split: if_splits)

lemma hash_update_Ok:
  assumes "hash_wf m" "hash_update m k v fl = (Ok u, m')"
  shows "hash_wf m' \<and> hash_view m' = (hash_view m)(k \<mapsto> v)"
proof -
  have len: "length k = unat (hm_key_size m)" "length v = unat (hm_value_size m)"
    and room: "map_of (hm_data m) k \<noteq> None \<or> length (hm_data m) < unat (hm_max_entries m)"
    and m': "m' = m\<lparr>hm_data := bt_insert k v (hm_data m)\<rparr>"
    using assms(2) by (auto simp: hash_update_def commit_iffs and_then_Ok_iff Let_def split: if_splits)
  have "k \<in> fst ` set (hm_data m) \<or> length (hm_data m) < unat (hm_max_entries m)"
    using room by (auto simp: map_of_eq_None_iff)
  then have "length (bt_insert k v (hm_data m)) \<le> unat (hm_max_entries m)"
    using assms(1) by (auto simp: hash_wf_def length_bt_insert)
  then show ?thesis
    using assms(1) len entries_bt_insert [of k v "hm_data m"]
    by (auto simp: m' hash_wf_def hash_view_def bt_insert_ordered map_of_bt_insert)
qed

interpretation hash: exact_bpf_map hash_ops hash_wf hash_view
proof unfold_locales
  fix m m' :: hash_map and k v fl and u :: unit and f r
  show "r = hash_view m k \<and> hash_wf m' \<and> hash_view m' = hash_view m"
    if "hash_wf m" "op_lookup hash_ops m k = (Ok r, m')"
    using that by (auto simp: hash_ops_def hash_lookup_def hash_view_def and_then_Ok_iff)
  show "m' = m \<and> f \<noteq> Panics" if "hash_wf m" "op_lookup hash_ops m k = (Err f, m')"
    using that by (auto simp: hash_ops_def hash_lookup_def and_then_Err_iff)
  show "hash_wf m' \<and> hash_view m' k = Some v \<and> (\<forall>j. j \<noteq> k \<longrightarrow> hash_view m' j = hash_view m j \<or> hash_view m' j = None)"
    if "hash_wf m" "op_update hash_ops m k v fl = (Ok u, m')"
    using hash_update_Ok [OF that(1)] that(2) by (auto simp: hash_ops_def)
  show "m' = m \<and> f \<noteq> Panics" if "hash_wf m" "op_update hash_ops m k v fl = (Err f, m')"
    using that by (auto simp: hash_ops_def hash_update_def commit_iffs and_then_Err_iff Let_def
        dest: check_update_flags_fault split: if_splits)
  show "hash_wf m' \<and> hash_view m' = (hash_view m)(k := None)"
    if "hash_wf m" "op_delete hash_ops m k = (Ok u, m')"
    using that
    by (auto simp: hash_ops_def hash_delete_def commit_iffs and_then_Ok_iff hash_wf_def hash_view_def
        bt_remove_ordered map_of_bt_remove)
      (auto simp: bt_remove_def intro: order_trans [OF length_filter_le])
  show "m' = m \<and> f \<noteq> Panics" if "hash_wf m" "op_delete hash_ops m k = (Err f, m')"
    using that by (auto simp: hash_ops_def hash_delete_def commit_iffs and_then_Err_iff)
next
  show "hash_view m' j = hash_view m j" if "hash_wf m" "op_update hash_ops m k v fl = (Ok u, m')" "j \<noteq> k"
    for m m' :: hash_map and k v fl j and u :: unit
    using hash_update_Ok [OF that(1)] that(2,3) by (auto simp: hash_ops_def)
qed

text \<open>The key size never changes.\<close>

lemma hash_step_key_size: "map_step hash_ops m c = (r, m') \<Longrightarrow> hm_key_size m' = hm_key_size m"
  by (cases c)
    (auto simp: hash_ops_def fault_of_def hash_lookup_def hash_update_def hash_delete_def commit_def Let_def
      and_then_def split: sum.splits if_splits)

lemma hash_run_key_size: "map_run hash_ops m w cs = (m', w') \<Longrightarrow> hm_key_size m' = hm_key_size m"
proof (induction cs arbitrary: m w)
  case (Cons c cs)
  obtain r m1 where s: "map_step hash_ops m c = (r, m1)" by (cases "map_step hash_ops m c")
  with Cons.prems Cons.IH have "hm_key_size m' = hm_key_size m1" by (cases r) auto
  with hash_step_key_size [OF s] show ?case by simp
qed simp

text \<open>
  C27: the hash map is a finite map. After any sequence of lookups, updates and deletes on a new
  map, looking up a key of the right size returns the value of the last successful update not
  followed by a successful delete, the map holds at most \<open>max_entries\<close> entries, and no operation
  can panic.
\<close>

theorem hash_map_refines_map:
  assumes "BpfHashMap_new meta = Ok m0" "map_run hash_ops m0 (\<lambda>_. None) cs = (m, w)"
  shows "hash_lookup m k =
      (if length k = unat (meta_key_size meta) then Ok (w k) else Err (Fails EINVAL), m) \<and>
    length (hm_data m) \<le> unat (hm_max_entries m) \<and> fst (map_step hash_ops m c) \<noteq> Some Panics"
proof -
  have new: "hash_wf m0" "hash_view m0 = (\<lambda>_. None)" "hm_key_size m0 = meta_key_size meta"
    using hash_new_wf [OF assms(1)] assms(1) by (auto simp: BpfHashMap_new_def split: if_splits)
  then have run: "hash_wf m" "hash_view m = w" using hash.run_exact [of m0 cs m w] assms(2) by auto
  moreover have "hm_key_size m = meta_key_size meta" using hash_run_key_size [OF assms(2)] new(3) by simp
  moreover have "fst (map_step hash_ops m c) \<noteq> Some Panics"
    using hash.run_never_panics [OF new(1) _ assms(2)] new(2) by simp
  ultimately show ?thesis
    by (auto simp: hash_lookup_def hash_view_def hash_wf_def check_len_def)
qed

definition small_meta :: map_meta where
  "small_meta =
     \<lparr>meta_map_type = MAP_HASH, meta_key_size = 1, meta_value_size = 2, meta_max_entries = 1,
      meta_map_flags = 0, meta_map_name = ''small''\<rparr>"

definition small_map :: "(string \<times> string) list \<Rightarrow> hash_map" where
  "small_map kvs = \<lparr>hm_max_entries = 1, hm_key_size = 1, hm_value_size = 2, hm_data = kvs\<rparr>"

lemma new_small_map: "BpfHashMap_new small_meta = Ok (small_map [])"
  by (simp add: BpfHashMap_new_def small_meta_def small_map_def)

lemma run_small_map:
  "map_run hash_ops (small_map []) (\<lambda>_. None)
     [Update ''k'' ''v1'' 1, Update ''k'' ''v2'' 1, Update ''j'' ''v3'' 0] =
     (small_map [(''k'', ''v1'')], (\<lambda>_. None)(''k'' := Some ''v1''))"
  by (simp add: hash_ops_def fault_of_def hash_update_def commit_def Let_def check_len_def small_map_def
      check_update_flags_def flags_from_bits_def has_bits_def update_flag_defs)

theorem hash_map_refines_map_witness:
  "hash_lookup (small_map [(''k'', ''v1'')]) ''k'' = (Ok (Some ''v1''), small_map [(''k'', ''v1'')])"
  using hash_map_refines_map [OF new_small_map run_small_map, of "''k''"] by (simp add: small_meta_def)

section \<open>Walking the keys\<close>

text \<open>The syscall loop: ask for the key after the one just seen, until there is none.\<close>

fun hash_walk :: "nat \<Rightarrow> hash_map \<Rightarrow> string option \<Rightarrow> string list" where
  "hash_walk 0 m key = []"
| "hash_walk (Suc n) m key =
     (case hash_get_next_key m key (replicate (unat (hm_key_size m)) (CHR 0x00)) of
        Inl _ \<Rightarrow> []
      | Inr k \<Rightarrow> k # hash_walk n m (Some k))"

lemma next_key_in_mid:
  "k \<notin> fst ` set pre \<Longrightarrow>
     next_key_in (pre @ (k, v) # post) (Some k) = (case post of [] \<Rightarrow> None | (k', _) # _ \<Rightarrow> Some k')"
proof -
  assume "k \<notin> fst ` set pre"
  then have "dropWhile (\<lambda>(k', _). k' \<noteq> k) (pre @ (k, v) # post) = (k, v) # post"
    by (induction pre) auto
  then show ?thesis by (auto simp: next_key_in_def split: list.split)
qed

lemma hash_walk_from:
  "hash_wf m \<Longrightarrow> hm_data m = pre @ (k, v) # post \<Longrightarrow> length post \<le> n \<Longrightarrow>
     hash_walk n m (Some k) = map fst post"
proof (induction n arbitrary: pre k v post)
  case (Suc n)
  have "distinct (map fst (hm_data m))" using Suc.prems(1) by (simp add: hash_wf_def key_ordered_def)
  then have new: "k \<notin> fst ` set pre" using Suc.prems(2) by auto
  have len: "length k = unat (hm_key_size m)" using Suc.prems(1,2) by (auto simp: hash_wf_def)
  show ?case
  proof (cases post)
    case Nil
    with len new show ?thesis
      by (simp add: hash_get_next_key_def check_len_def Suc.prems(2) next_key_in_mid)
  next
    case (Cons e post')
    obtain k' v' where e: "e = (k', v')" by (cases e)
    have "hash_walk n m (Some k') = map fst post'"
      using Suc.IH [of "pre @ [(k, v)]" k' v' post'] Suc.prems Cons e by simp
    moreover have "length k' = unat (hm_key_size m)" using Suc.prems(1,2) Cons e by (auto simp: hash_wf_def)
    ultimately show ?thesis
      using len new Cons e
      by (simp add: hash_get_next_key_def check_len_def Suc.prems(2) next_key_in_mid copy_from_slice_def)
  qed
qed simp

text \<open>
  Walking a hash map with \<open>get_next_key\<close> from the start visits every key exactly once, in
  increasing order, and then ends.
\<close>

theorem hash_walk_complete:
  assumes "hash_wf m" "length (hm_data m) < n"
  shows "set (hash_walk n m None) = {k. hash_view m k \<noteq> None} \<and> sorted_wrt (<) (hash_walk n m None)"
proof -
  have "hash_walk n m None = map fst (hm_data m)"
  proof (cases "hm_data m")
    case Nil
    with assms show ?thesis by (cases n) (auto simp: hash_get_next_key_def next_key_in_def)
  next
    case (Cons e rest)
    obtain k v where e: "e = (k, v)" by (cases e)
    obtain n' where n: "n = Suc n'" "length rest \<le> n'" using assms(2) Cons by (cases n) auto
    have "hash_walk n' m (Some k) = map fst rest"
      using hash_walk_from [OF assms(1), of "[]"] Cons e n(2) by simp
    moreover have "length k = unat (hm_key_size m)" using assms(1) Cons e by (auto simp: hash_wf_def)
    ultimately show ?thesis
      using n(1) Cons e by (simp add: hash_get_next_key_def next_key_in_def copy_from_slice_def)
  qed
  moreover have "sorted_wrt (<) (map fst (hm_data m))"
    using assms(1) by (simp add: hash_wf_def key_ordered_def strict_sorted_iff)
  ultimately show ?thesis
    by (auto simp: hash_view_def map_of_eq_None_iff)
qed

theorem hash_walk_complete_witness:
  "\<exists>m. hash_wf m \<and> set (hash_walk 3 m None) = {''a'', ''b''}"
proof -
  let ?m = "\<lparr>hm_max_entries = 2, hm_key_size = 1, hm_value_size = 1, hm_data = [(''a'', ''1''), (''b'', ''2'')]\<rparr>"
  have wf: "hash_wf ?m" by (simp add: hash_wf_def less_char_def)
  have "{k. hash_view ?m k \<noteq> None} = {''a'', ''b''}" by (auto simp: hash_view_def)
  with hash_walk_complete [OF wf, of 3] wf show ?thesis by auto
qed

end
