(* ===== verification/BpfArray.thy ===== *)
theory BpfArray
  imports BpfMap
begin

text \<open>
  The array maps of \<open>bpf-basic/src/map/array.rs\<close>: the byte store \<open>ArrayMapData\<close> with its
  32-bit index arithmetic, \<open>ArrayMap\<close> and \<open>PerfEventArrayMap\<close>. Arithmetic wraps as in a
  release build; a slice out of range panics.
\<close>

section \<open>The byte store\<close>

record array_data =
  elem_size :: u32
  elem_bytes :: string

definition ArrayMapData_new :: "u32 \<Rightarrow> u32 \<Rightarrow> array_data" where
  "ArrayMapData_new esize max_entries =
     (let total_size = esize * max_entries
      in \<lparr>elem_size = esize, elem_bytes = replicate (unat total_size) (CHR 0x00)\<rparr>)"

definition data_index :: "array_data \<Rightarrow> u32 \<Rightarrow> (fault, string) result" where
  "data_index d i =
     (let start = i * elem_size d
      in or_panic (slice_of (elem_bytes d) (unat start) (unat (start + elem_size d))))"

text \<open>\<open>index_mut\<close> followed by \<open>copy_from_slice\<close>, the only use of it.\<close>

definition data_store :: "array_data \<Rightarrow> u32 \<Rightarrow> string \<Rightarrow> (fault, array_data) result" where
  "data_store d i v =
     (let start = i * elem_size d; to = unat (start + elem_size d) in
      and_then (or_panic (slice_of (elem_bytes d) (unat start) to)) (\<lambda>old.
      and_then (copy_from_slice old v) (\<lambda>new.
        Ok (d\<lparr>elem_bytes := take (unat start) (elem_bytes d) @ new @ drop to (elem_bytes d)\<rparr>))))"

text \<open>The native-endian key of an index, and back.\<close>

definition key_of :: "u32 \<Rightarrow> string" where "key_of i = le_bytes 4 (unat i)"

definition index_of :: "string \<Rightarrow> u32" where "index_of key = of_nat (le_nat key)"

section \<open>Array maps\<close>

record array_map =
  am_data :: array_data
  am_value_size :: u32
  am_max_entries :: u32

definition ArrayMap_new :: "map_meta \<Rightarrow> (fault, array_map) result" where
  "ArrayMap_new meta =
     (if meta_value_size meta = 0 \<or> meta_max_entries meta = 0 \<or> meta_key_size meta \<noteq> 4
      then Err (Fails EINVAL)
      else Ok \<lparr>am_data = ArrayMapData_new (meta_value_size meta) (meta_max_entries meta),
               am_value_size = meta_value_size meta, am_max_entries = meta_max_entries meta\<rparr>)"

definition array_lookup :: "array_map \<Rightarrow> string \<Rightarrow> (fault, string option) result \<times> array_map" where
  "array_lookup m key =
     (if length key \<noteq> 4 then Err (Fails EINVAL)
      else let index = index_of key in
        if am_max_entries m \<le> index then Err (Fails EINVAL)
        else and_then (data_index (am_data m) index) (\<lambda>val. Ok (Some val)), m)"

definition array_update :: "array_map \<Rightarrow> string \<Rightarrow> string \<Rightarrow> u64 \<Rightarrow> (fault, unit) result \<times> array_map" where
  "array_update m key val flags =
     commit m
       (if length key \<noteq> 4 \<or> length val \<noteq> unat (am_value_size m) then Err (Fails EINVAL)
        else and_then (flags_from_bits flags) (\<lambda>flags.
          if has_bits flags BPF_F_LOCK then Err (Fails EINVAL)
          else if has_bits flags BPF_NOEXIST then Err (Fails EEXIST)
          else let index = index_of key in
            if am_max_entries m \<le> index then Err (Fails EINVAL)
            else and_then (data_store (am_data m) index val) (\<lambda>d. Ok (m\<lparr>am_data := d\<rparr>))))"

text \<open>The loop over the indices from \<open>i\<close>; an element counts before its callback runs.\<close>

fun each_index :: "array_data \<Rightarrow> 's callback \<Rightarrow> nat list \<Rightarrow> nat \<Rightarrow> 's \<Rightarrow> (fault, nat) result \<times> 's" where
  "each_index d cb [] used s = (Ok used, s)"
| "each_index d cb (i # is) used s =
     (case data_index d (of_nat i) of
        Inl f \<Rightarrow> (Err f, s)
      | Inr v \<Rightarrow>
          (let (res, s) = cb (key_of (of_nat i)) v s in
           if res \<noteq> 0 then (Ok (used + 1), s) else each_index d cb is (used + 1) s))"

definition array_for_each :: "array_map \<Rightarrow> 's callback \<Rightarrow> 's \<Rightarrow> u64 \<Rightarrow> (fault, nat) result \<times> 's" where
  "array_for_each m cb s flags =
     (if flags \<noteq> 0 then (Err (Fails EINVAL), s)
      else each_index (am_data m) cb [0..<unat (am_max_entries m)] 0 s)"

definition array_get_next_key :: "array_map \<Rightarrow> string option \<Rightarrow> string \<Rightarrow> (fault, string) result" where
  "array_get_next_key m key next_key =
     (if length next_key \<noteq> 4 then Err (Fails EINVAL)
      else case key of
        None \<Rightarrow> copy_from_slice next_key (key_of 0)
      | Some k \<Rightarrow>
          (if length k \<noteq> 4 then Err (Fails EINVAL)
           else let index = index_of k in
             if am_max_entries m - 1 \<le> index then Err (Fails ENOENT)
             else copy_from_slice next_key (key_of (index + 1))))"

definition array_mem_usage :: "array_map \<Rightarrow> nat" where
  "array_mem_usage m = length (elem_bytes (am_data m))"

text \<open>The address range of the values, for a store that starts at \<open>start\<close>.\<close>

definition array_ptr_range :: "array_map \<Rightarrow> u64 \<Rightarrow> u64 \<times> u64" where
  "array_ptr_range m start = (start, start + of_nat (length (elem_bytes (am_data m))))"

section \<open>Perf event arrays\<close>

record perf_array =
  fds :: array_data
  num_cpus :: u32

definition PerfEventArrayMap_new :: "map_meta \<Rightarrow> u32 \<Rightarrow> (fault, perf_array) result" where
  "PerfEventArrayMap_new meta cpus =
     (if meta_key_size meta \<noteq> 4 \<or> meta_value_size meta \<noteq> 4 \<or> meta_max_entries meta \<noteq> cpus
      then Err (Fails EINVAL)
      else Ok \<lparr>fds = ArrayMapData_new 4 cpus, num_cpus = cpus\<rparr>)"

definition perf_cpu :: "perf_array \<Rightarrow> string \<Rightarrow> (fault, u32) result" where
  "perf_cpu m key =
     (if length key \<noteq> 4 then Err (Fails EINVAL)
      else let cpu_id = index_of key in
        if num_cpus m \<le> cpu_id then Err (Fails EINVAL) else Ok cpu_id)"

definition perf_lookup :: "perf_array \<Rightarrow> string \<Rightarrow> (fault, string option) result \<times> perf_array" where
  "perf_lookup m key =
     (and_then (perf_cpu m key) (\<lambda>cpu_id. and_then (data_index (fds m) cpu_id) (\<lambda>v. Ok (Some v))), m)"

definition perf_update :: "perf_array \<Rightarrow> string \<Rightarrow> string \<Rightarrow> u64 \<Rightarrow> (fault, unit) result \<times> perf_array" where
  "perf_update m key val flags =
     commit m
       (if length key \<noteq> 4 \<or> length val \<noteq> 4 then Err (Fails EINVAL)
        else and_then (flags_from_bits flags) (\<lambda>flags.
          if flags \<noteq> 0 then Err (Fails EINVAL)
          else and_then (perf_cpu m key) (\<lambda>cpu_id.
            and_then (data_store (fds m) cpu_id val) (\<lambda>d. Ok (m\<lparr>fds := d\<rparr>)))))"

definition perf_delete :: "perf_array \<Rightarrow> string \<Rightarrow> (fault, unit) result \<times> perf_array" where
  "perf_delete m key =
     commit m
       (and_then (perf_cpu m key) (\<lambda>cpu_id.
        and_then (data_store (fds m) cpu_id (replicate 4 (CHR 0x00))) (\<lambda>d. Ok (m\<lparr>fds := d\<rparr>))))"

definition perf_for_each :: "perf_array \<Rightarrow> 's callback \<Rightarrow> 's \<Rightarrow> u64 \<Rightarrow> (fault, nat) result \<times> 's" where
  "perf_for_each m cb s flags =
     (if flags \<noteq> 0 then (Err (Fails EINVAL), s)
      else each_index (fds m) cb [0..<unat (num_cpus m)] 0 s)"

definition perf_mem_usage :: "perf_array \<Rightarrow> nat" where
  "perf_mem_usage m = length (elem_bytes (fds m))"

section \<open>Rows\<close>

text \<open>
  A store without overflow: \<open>n\<close> elements fit the 32-bit arithmetic. Its rows are the slices of
  the elements.
\<close>

definition store_fits :: "array_data \<Rightarrow> nat \<Rightarrow> bool" where
  "store_fits d n \<longleftrightarrow> unat (elem_size d) * n < 2 ^ 32 \<and> length (elem_bytes d) = unat (elem_size d) * n"

definition row :: "array_data \<Rightarrow> nat \<Rightarrow> string" where
  "row d i = bslice (elem_bytes d) (i * unat (elem_size d)) (i * unat (elem_size d) + unat (elem_size d))"

lemma row_in:
  assumes "store_fits d n" "i < n"
  shows "i * unat (elem_size d) + unat (elem_size d) \<le> length (elem_bytes d)"
    and "length (elem_bytes d) < 2 ^ 32"
proof -
  have "(i + 1) * unat (elem_size d) \<le> n * unat (elem_size d)" using assms(2) by (intro mult_le_mono1) simp
  then show "i * unat (elem_size d) + unat (elem_size d) \<le> length (elem_bytes d)"
    using assms(1) by (simp add: store_fits_def algebra_simps)
  show "length (elem_bytes d) < 2 ^ 32" using assms(1) by (simp add: store_fits_def)
qed

lemma index_arith:
  assumes "store_fits d n" "unat i < n"
  shows "unat (i * elem_size d) = unat i * unat (elem_size d)"
    and "unat (i * elem_size d + elem_size d) = unat i * unat (elem_size d) + unat (elem_size d)"
proof -
  note b = row_in [OF assms]
  show 1: "unat (i * elem_size d) = unat i * unat (elem_size d)"
    using b by (simp add: unat_word_ariths)
  show "unat (i * elem_size d + elem_size d) = unat i * unat (elem_size d) + unat (elem_size d)"
    using b by (subst unat_word_ariths) (simp add: 1)
qed

lemma data_index_row:
  "store_fits d n \<Longrightarrow> unat i < n \<Longrightarrow> data_index d i = Ok (row d (unat i))"
  using row_in [of d n "unat i"] by (simp add: data_index_def Let_def index_arith row_def slice_of_def)

lemma length_row: "store_fits d n \<Longrightarrow> i < n \<Longrightarrow> length (row d i) = unat (elem_size d)"
  using row_in [of d n i] by (simp add: row_def)

lemma row_splice:
  assumes "length v = s" "i * s + s \<le> length xs" "j * s + s \<le> length xs"
  shows "bslice (take (i * s) xs @ v @ drop (i * s + s) xs) (j * s) (j * s + s) =
     (if j = i then v else bslice xs (j * s) (j * s + s))"
proof -
  have step: "a * s + s \<le> b * s" if "a < b" for a b :: nat
    using mult_le_mono1 [of "Suc a" b s] that by simp
  show ?thesis
  proof (rule nth_equalityI)
    show "length (bslice (take (i * s) xs @ v @ drop (i * s + s) xs) (j * s) (j * s + s)) =
        length (if j = i then v else bslice xs (j * s) (j * s + s))"
      using assms by simp
  next
    fix k assume "k < length (bslice (take (i * s) xs @ v @ drop (i * s + s) xs) (j * s) (j * s + s))"
    then have k: "k < s" using assms by simp
    consider "j = i" | "j < i" | "i < j" by linarith
    then show "bslice (take (i * s) xs @ v @ drop (i * s + s) xs) (j * s) (j * s + s) ! k =
        (if j = i then v else bslice xs (j * s) (j * s + s)) ! k"
      by cases (use k assms step [of j i] step [of i j] in \<open>auto simp: bslice_def nth_append\<close>)
  qed
qed

lemma data_store_Ok:
  assumes "store_fits d n" "unat i < n" "length v = unat (elem_size d)"
  shows "\<exists>d'. data_store d i v = Ok d' \<and> store_fits d' n \<and>
    (\<forall>j < n. row d' j = (if j = unat i then v else row d j)) \<and> elem_size d' = elem_size d"
proof -
  let ?s = "unat (elem_size d)" let ?i = "unat i"
  let ?xs = "take (?i * ?s) (elem_bytes d) @ v @ drop (?i * ?s + ?s) (elem_bytes d)"
  have "data_store d i v = Ok (d\<lparr>elem_bytes := ?xs\<rparr>)"
    using row_in [OF assms(1,2)] assms(3)
    by (simp add: data_store_def Let_def index_arith [OF assms(1,2)] slice_of_def copy_from_slice_def
        and_then_def)
  moreover have "store_fits (d\<lparr>elem_bytes := ?xs\<rparr>) n"
    using assms row_in [OF assms(1,2)] by (simp add: store_fits_def)
  moreover have "row (d\<lparr>elem_bytes := ?xs\<rparr>) j = (if j = ?i then v else row d j)" if "j < n" for j
    using row_splice [OF assms(3) row_in(1) [OF assms(1,2)] row_in(1) [OF assms(1) that]]
    by (simp add: row_def)
  ultimately show ?thesis by auto
qed

section \<open>The array refines its contract\<close>

definition array_delete :: "array_map \<Rightarrow> string \<Rightarrow> (fault, unit) result \<times> array_map" where
  "array_delete m key = (Err (Fails EPERM), m)"

definition array_ops :: "array_map map_ops" where
  "array_ops = \<lparr>op_lookup = array_lookup, op_update = array_update, op_delete = array_delete\<rparr>"

definition array_wf :: "array_map \<Rightarrow> bool" where
  "array_wf m \<longleftrightarrow>
     store_fits (am_data m) (unat (am_max_entries m)) \<and> elem_size (am_data m) = am_value_size m"

definition array_view :: "array_map \<Rightarrow> string \<Rightarrow> string option" where
  "array_view m k =
     (if length k = 4 \<and> index_of k < am_max_entries m then Some (row (am_data m) (unat (index_of k))) else None)"

lemma index_of_inj:
  "unat (index_of k) = unat (index_of j) \<Longrightarrow> length k = 4 \<Longrightarrow> length j = 4 \<Longrightarrow> k = j"
proof -
  assume len: "length k = 4" "length j = 4" and "unat (index_of k) = unat (index_of j)"
  then have "index_of k = index_of j" using unsigned_word_eqI by blast
  with len have "le_nat k mod 2 ^ 32 = le_nat j mod 2 ^ 32"
    by (simp add: index_of_def word_of_nat_eq_iff take_bit_eq_mod)
  moreover have "le_nat k < 2 ^ 32" "le_nat j < 2 ^ 32" using le_nat_less [of k] le_nat_less [of j] len by simp_all
  ultimately have "le_nat k = le_nat j" by simp
  then show "k = j" using le_bytes_le_nat [of k] le_bytes_le_nat [of j] len by metis
qed

lemma index_of_key_of [simp]: "index_of (key_of i) = i"
proof -
  have "unat i < 2 ^ 32" using unsigned_less [of i] by simp
  then show ?thesis by (simp add: index_of_def key_of_def le_nat_le_bytes)
qed

lemma length_key_of [simp]: "length (key_of i) = 4"
  by (simp add: key_of_def)

lemma array_lookup_view:
  "array_wf m \<Longrightarrow> array_lookup m k =
     (if length k = 4 \<and> index_of k < am_max_entries m then Ok (array_view m k) else Err (Fails EINVAL), m)"
  by (auto simp: array_lookup_def array_view_def array_wf_def Let_def data_index_row word_less_nat_alt word_le_nat_alt)

lemma array_update_cases:
  assumes "array_wf m" "array_update m k v fl = (r, m')"
  shows "r = Ok () \<and> array_wf m' \<and> array_view m' = (array_view m)(k \<mapsto> v) \<and> am_max_entries m' = am_max_entries m
    \<or> (\<exists>e. r = Err (Fails e)) \<and> m' = m"
proof (cases "length k = 4 \<and> length v = unat (am_value_size m) \<and> index_of k < am_max_entries m")
  case True
  have fits: "store_fits (am_data m) (unat (am_max_entries m))" "unat (index_of k) < unat (am_max_entries m)"
    using assms(1) True by (auto simp: array_wf_def word_less_nat_alt)
  obtain d where d: "data_store (am_data m) (index_of k) v = Ok d" "store_fits d (unat (am_max_entries m))"
    "\<forall>j < unat (am_max_entries m). row d j = (if j = unat (index_of k) then v else row (am_data m) j)"
    "elem_size d = elem_size (am_data m)"
    using data_store_Ok [OF fits, of v] True assms(1) by (auto simp: array_wf_def)
  have "array_view (m\<lparr>am_data := d\<rparr>) = (array_view m)(k \<mapsto> v)"
    using True d(3) by (auto simp: array_view_def fun_eq_iff word_less_nat_alt dest: index_of_inj)
  moreover have "array_wf (m\<lparr>am_data := d\<rparr>)" using assms(1) d(2,4) by (simp add: array_wf_def)
  ultimately show ?thesis
    using assms(2) True d(1)
    by (auto simp: array_update_def commit_def Let_def flags_from_bits_def not_le [symmetric] split: if_splits)
next
  case False
  then show ?thesis
    using assms(2)
    by (auto simp: array_update_def commit_def Let_def flags_from_bits_def not_less split: if_splits)
qed

interpretation array: exact_bpf_map array_ops array_wf array_view
proof unfold_locales
  fix m m' :: array_map and k v fl and u :: unit and f r
  show "r = array_view m k \<and> array_wf m' \<and> array_view m' = array_view m"
    if "array_wf m" "op_lookup array_ops m k = (Ok r, m')"
    using that by (auto simp: array_ops_def array_lookup_view split: if_splits)
  show "m' = m \<and> f \<noteq> Panics" if "array_wf m" "op_lookup array_ops m k = (Err f, m')"
    using that by (auto simp: array_ops_def array_lookup_view split: if_splits)
  show "array_wf m' \<and> array_view m' k = Some v \<and> (\<forall>j. j \<noteq> k \<longrightarrow> array_view m' j = array_view m j \<or> array_view m' j = None)"
    if "array_wf m" "op_update array_ops m k v fl = (Ok u, m')"
    using array_update_cases [OF that(1)] that(2) by (fastforce simp: array_ops_def)
  show "m' = m \<and> f \<noteq> Panics" if "array_wf m" "op_update array_ops m k v fl = (Err f, m')"
    using array_update_cases [OF that(1)] that(2) by (fastforce simp: array_ops_def)
  show "array_wf m' \<and> array_view m' = (array_view m)(k := None)"
    if "array_wf m" "op_delete array_ops m k = (Ok u, m')"
    using that by (simp add: array_ops_def array_delete_def)
  show "m' = m \<and> f \<noteq> Panics" if "array_wf m" "op_delete array_ops m k = (Err f, m')"
    using that by (auto simp: array_ops_def array_delete_def)
next
  show "array_view m' j = array_view m j" if "array_wf m" "op_update array_ops m k v fl = (Ok u, m')" "j \<noteq> k"
    for m m' :: array_map and k v fl j and u :: unit
    using array_update_cases [OF that(1)] that(2,3) by (fastforce simp: array_ops_def)
qed

definition zero_view :: "map_meta \<Rightarrow> string \<Rightarrow> string option" where
  "zero_view meta k =
     (if length k = 4 \<and> index_of k < meta_max_entries meta
      then Some (replicate (unat (meta_value_size meta)) (CHR 0x00)) else None)"

lemma array_new_wf:
  assumes "ArrayMap_new meta = Ok m" "unat (meta_value_size meta) * unat (meta_max_entries meta) < 2 ^ 32"
  shows "array_wf m \<and> array_view m = zero_view meta \<and> am_max_entries m = meta_max_entries meta"
proof -
  let ?s = "unat (meta_value_size meta)" and ?n = "unat (meta_max_entries meta)"
  let ?d = "ArrayMapData_new (meta_value_size meta) (meta_max_entries meta)"
  have m: "m = \<lparr>am_data = ?d, am_value_size = meta_value_size meta, am_max_entries = meta_max_entries meta\<rparr>"
    using assms(1) by (auto simp: ArrayMap_new_def split: if_splits)
  have fits: "store_fits ?d ?n"
    using assms(2) by (simp add: store_fits_def ArrayMapData_new_def unat_word_ariths)
  have "row ?d i = replicate ?s (CHR 0x00)" if "i < ?n" for i
    using length_row [OF fits that] row_in(1) [OF fits that]
    by (simp add: row_def ArrayMapData_new_def Let_def bslice_def min_def)
  then show ?thesis
    using fits by (auto simp: m array_wf_def array_view_def zero_view_def fun_eq_iff word_less_nat_alt
        ArrayMapData_new_def)
qed

lemma array_step_max: "map_step array_ops m c = (r, m') \<Longrightarrow> am_max_entries m' = am_max_entries m"
  by (cases c)
    (auto simp: array_ops_def array_lookup_def array_delete_def array_update_def fault_of_def commit_def Let_def
      and_then_def split: sum.splits if_splits)

lemma array_run_max: "map_run array_ops m w cs = (m', w') \<Longrightarrow> am_max_entries m' = am_max_entries m"
proof (induction cs arbitrary: m w)
  case (Cons c cs)
  obtain r m1 where s: "map_step array_ops m c = (r, m1)" by (cases "map_step array_ops m c")
  with Cons.prems Cons.IH have "am_max_entries m' = am_max_entries m1" by (cases r) auto
  with array_step_max [OF s] show ?case by simp
qed simp


definition pair_meta :: map_meta where
  "pair_meta =
     \<lparr>meta_map_type = MAP_ARRAY, meta_key_size = 4, meta_value_size = 2, meta_max_entries = 2,
      meta_map_flags = 0, meta_map_name = ''pair''\<rparr>"

definition pair_array :: "string \<Rightarrow> array_map" where
  "pair_array bs =
     \<lparr>am_data = \<lparr>elem_size = 2, elem_bytes = bs\<rparr>, am_value_size = 2, am_max_entries = 2\<rparr>"

lemma replicate_4: "replicate 4 x = [x, x, x, x]"
  by (simp add: eval_nat_numeral)

lemma new_pair_array: "ArrayMap_new pair_meta = Ok (pair_array [CHR 0x00, CHR 0x00, CHR 0x00, CHR 0x00])"
  by (simp add: ArrayMap_new_def pair_meta_def pair_array_def ArrayMapData_new_def Let_def replicate_4)

lemma store_pair_array:
  "map_run array_ops (pair_array [CHR 0x00, CHR 0x00, CHR 0x00, CHR 0x00]) (zero_view pair_meta)
     [Update [CHR 0x01, CHR 0x00, CHR 0x00, CHR 0x00] ''ab'' 0] =
   (pair_array [CHR 0x00, CHR 0x00, CHR ''a'', CHR ''b''],
    (zero_view pair_meta)([CHR 0x01, CHR 0x00, CHR 0x00, CHR 0x00] \<mapsto> ''ab''))"
  by (simp add: array_ops_def fault_of_def array_update_def commit_def Let_def pair_array_def index_of_def
      flags_from_bits_def has_bits_def update_flag_defs data_store_def slice_of_def bslice_def
      copy_from_slice_def word_le_nat_alt)


text \<open>
  C29: the byte size of an array map is computed in 32 bits. A new map never panics on a lookup
  exactly when the product of its value size and its number of entries is below \<open>2^32\<close>.
\<close>

theorem array_lookup_safe_iff:
  assumes "ArrayMap_new meta = Ok m"
  shows "(\<forall>key. fst (array_lookup m key) \<noteq> Err Panics) \<longleftrightarrow>
    unat (meta_value_size meta) * unat (meta_max_entries meta) < 2 ^ 32"
proof
  assume "unat (meta_value_size meta) * unat (meta_max_entries meta) < 2 ^ 32"
  then have "array_wf m" using array_new_wf [OF assms] by simp
  then show "\<forall>key. fst (array_lookup m key) \<noteq> Err Panics" by (simp add: array_lookup_view)
next
  assume safe: "\<forall>key. fst (array_lookup m key) \<noteq> Err Panics"
  show "unat (meta_value_size meta) * unat (meta_max_entries meta) < 2 ^ 32"
  proof (rule ccontr)
    let ?s = "unat (meta_value_size meta)" and ?n = "unat (meta_max_entries meta)"
    assume big: "\<not> ?s * ?n < 2 ^ 32"
    have m: "am_data m = ArrayMapData_new (meta_value_size meta) (meta_max_entries meta)"
      "am_max_entries m = meta_max_entries meta" and s: "0 < ?s"
      using assms by (auto simp: ArrayMap_new_def unat_gt_0 split: if_splits)
    define i where "i = (2 ^ 32 - 1) div ?s"
    have s32: "?s < 2 ^ 32" using unsigned_less [of "meta_value_size meta"] by simp
    have "i * ?s \<le> 2 ^ 32 - 1" unfolding i_def by (rule div_times_less_eq_dividend)
    then have lo: "i * ?s < 2 ^ 32" by (rule le_less_trans) simp
    have hi: "2 ^ 32 \<le> i * ?s + ?s"
      using dividend_less_div_times [of ?s "2 ^ 32 - 1"] s by (simp add: i_def algebra_simps)
    have "i * ?s < ?n * ?s" using lo big by (simp only: mult.commute [of ?n])
    then have i: "i < ?n" by (simp only: mult_less_cancel2)
    then have i32: "unat (of_nat i :: u32) = i"
      using unsigned_less [of "meta_max_entries meta", where 'a = nat]
      by (simp add: unsigned_of_nat take_bit_nat_eq_self)
    have start: "unat (of_nat i * meta_value_size meta) = i * ?s"
      using lo by (simp add: unat_word_ariths i32)
    have "unat (of_nat i * meta_value_size meta + meta_value_size meta) = (i * ?s + ?s) mod 2 ^ 32"
      by (subst unat_word_ariths) (simp add: start)
    also have "\<dots> = i * ?s + ?s - 2 ^ 32" using lo hi s32 by (simp add: mod_if)
    finally have "unat (of_nat i * meta_value_size meta + meta_value_size meta) < i * ?s"
      using s32 lo hi by linarith
    then have "data_index (am_data m) (of_nat i) = Err Panics"
      by (simp add: data_index_def m ArrayMapData_new_def Let_def slice_of_def start)
    then have "fst (array_lookup m (key_of (of_nat i))) = Err Panics"
      using i i32 by (simp add: array_lookup_def Let_def m word_le_nat_alt)
    with safe show False by blast
  qed
qed

theorem array_lookup_safe_iff_witness:
  "\<forall>key. fst (array_lookup (pair_array [CHR 0x00, CHR 0x00, CHR 0x00, CHR 0x00]) key) \<noteq> Err Panics"
  using array_lookup_safe_iff [OF new_pair_array] by (simp add: pair_meta_def)

end
