(* ===== verification/BpfQueue.thy ===== *)
theory BpfQueue
  imports BpfMap "HOL-Library.Sublist"
begin

text \<open>
  The queue and stack maps of \<open>bpf-basic/src/map/queue.rs\<close>: the trait \<open>SpecialMap\<close> as a
  record of operations, its two implementations, and the map operations that the blanket
  implementation of \<open>BpfMapCommonOps\<close> derives from it.
\<close>

section \<open>The trait and the derived map operations\<close>

record 'm special_map =
  sp_push :: "'m \<Rightarrow> string \<Rightarrow> u64 \<Rightarrow> (fault, 'm) result"
  sp_pop :: "'m \<Rightarrow> string option \<times> 'm"
  sp_peek :: "'m \<Rightarrow> string option"
  sp_value_size :: "'m \<Rightarrow> nat"
  sp_mem_usage :: "'m \<Rightarrow> nat"

definition special_lookup :: "'m special_map \<Rightarrow> 'm \<Rightarrow> string \<Rightarrow> (fault, string option) result \<times> 'm" where
  "special_lookup t m key = (if key \<noteq> [] then Err (Fails EINVAL) else Ok (sp_peek t m), m)"

definition special_update :: "'m special_map \<Rightarrow> 'm \<Rightarrow> string \<Rightarrow> string \<Rightarrow> u64 \<Rightarrow> (fault, unit) result \<times> 'm" where
  "special_update t m key val flags =
     commit m
       (if key \<noteq> [] \<or> length val \<noteq> sp_value_size t m then Err (Fails EINVAL)
        else and_then (check_update_flags flags) (sp_push t m val))"

text \<open>The result of a pop holds the new content of the caller's buffer \<open>val\<close>.\<close>

definition special_lookup_and_delete ::
  "'m special_map \<Rightarrow> 'm \<Rightarrow> string \<Rightarrow> string \<Rightarrow> (fault, string) result \<times> 'm" where
  "special_lookup_and_delete t m key val =
     (if key \<noteq> [] \<or> length val \<noteq> sp_value_size t m then (Err (Fails EINVAL), m)
      else case sp_pop t m of
        (Some v, m') \<Rightarrow> (copy_from_slice val v, m')
      | (None, m') \<Rightarrow> (Err (Fails ENOENT), m'))"

definition special_push_elem :: "'m special_map \<Rightarrow> 'm \<Rightarrow> string \<Rightarrow> u64 \<Rightarrow> (fault, unit) result \<times> 'm" where
  "special_push_elem t m val flags = special_update t m [] val flags"

definition special_pop_elem :: "'m special_map \<Rightarrow> 'm \<Rightarrow> string \<Rightarrow> (fault, string) result \<times> 'm" where
  "special_pop_elem t m val = special_lookup_and_delete t m [] val"

definition special_peek_elem :: "'m special_map \<Rightarrow> 'm \<Rightarrow> string \<Rightarrow> (fault, string) result" where
  "special_peek_elem t m val =
     (if length val \<noteq> sp_value_size t m then Err (Fails EINVAL)
      else case sp_peek t m of Some v \<Rightarrow> copy_from_slice val v | None \<Rightarrow> Err (Fails ENOENT))"

section \<open>The queue\<close>

record queue_map =
  qm_max_entries :: u32
  qm_value_size :: u32
  qm_data :: "string list"

definition QueueMap_new :: "map_meta \<Rightarrow> (fault, queue_map) result" where
  "QueueMap_new meta =
     (if meta_value_size meta = 0 \<or> meta_max_entries meta = 0 \<or> meta_key_size meta \<noteq> 0 then Err (Fails EINVAL)
      else Ok \<lparr>qm_max_entries = meta_max_entries meta, qm_value_size = meta_value_size meta, qm_data = []\<rparr>)"

definition queue_push :: "queue_map \<Rightarrow> string \<Rightarrow> u64 \<Rightarrow> (fault, queue_map) result" where
  "queue_push m val flags =
     (if flags \<noteq> 0 then Err (Fails EINVAL)
      else if length (qm_data m) = unat (qm_max_entries m) then
        (case qm_data m of [] \<Rightarrow> Err Panics | _ # kept \<Rightarrow> Ok (m\<lparr>qm_data := kept @ [val]\<rparr>))
      else Ok (m\<lparr>qm_data := qm_data m @ [val]\<rparr>))"

definition queue_pop :: "queue_map \<Rightarrow> string option \<times> queue_map" where
  "queue_pop m = (case qm_data m of [] \<Rightarrow> (None, m) | v # vs \<Rightarrow> (Some v, m\<lparr>qm_data := vs\<rparr>))"

definition queue_peek :: "queue_map \<Rightarrow> string option" where
  "queue_peek m = (case qm_data m of [] \<Rightarrow> None | v # _ \<Rightarrow> Some v)"

definition queue_value_size :: "queue_map \<Rightarrow> nat" where
  "queue_value_size m = unat (qm_value_size m)"

definition queue_mem_usage :: "queue_map \<Rightarrow> nat" where
  "queue_mem_usage m = sum_list (map length (qm_data m))"

definition QueueMap :: "queue_map special_map" where
  "QueueMap =
     \<lparr>sp_push = queue_push, sp_pop = queue_pop, sp_peek = queue_peek,
      sp_value_size = queue_value_size, sp_mem_usage = queue_mem_usage\<rparr>"

section \<open>The stack\<close>

text \<open>\<open>StackMap\<close> wraps a \<open>QueueMap\<close>; the end of the data is the top.\<close>

definition StackMap_new :: "map_meta \<Rightarrow> (fault, queue_map) result" where
  "StackMap_new meta = QueueMap_new meta"

definition stack_push :: "queue_map \<Rightarrow> string \<Rightarrow> u64 \<Rightarrow> (fault, queue_map) result" where
  "stack_push m val flags =
     (if length (qm_data m) = unat (qm_max_entries m) then
        if has_bits flags BPF_EXISTS then Ok (m\<lparr>qm_data := butlast (qm_data m) @ [val]\<rparr>)
        else Err (Fails ENOMEM)
      else Ok (m\<lparr>qm_data := qm_data m @ [val]\<rparr>))"

definition stack_pop :: "queue_map \<Rightarrow> string option \<times> queue_map" where
  "stack_pop m =
     (if qm_data m = [] then (None, m) else (Some (last (qm_data m)), m\<lparr>qm_data := butlast (qm_data m)\<rparr>))"

definition stack_peek :: "queue_map \<Rightarrow> string option" where
  "stack_peek m = (if qm_data m = [] then None else Some (last (qm_data m)))"

definition StackMap :: "queue_map special_map" where
  "StackMap =
     \<lparr>sp_push = stack_push, sp_pop = stack_pop, sp_peek = stack_peek,
      sp_value_size = queue_value_size, sp_mem_usage = queue_mem_usage\<rparr>"

lemma special_value_size [simp]:
  "sp_value_size QueueMap m = queue_value_size m" "sp_value_size StackMap m = queue_value_size m"
  by (simp_all add: QueueMap_def StackMap_def)

section \<open>The contract\<close>

text \<open>
  What both maps promise to their clients: the elements in the order in which they leave, a fixed
  capacity and a fixed value size. A push puts the value in its place (\<open>place\<close>) among the
  elements that stay.
\<close>

locale special_map_contract =
  fixes t :: "'m special_map"
    and elems :: "'m \<Rightarrow> string list"
    and capacity :: "'m \<Rightarrow> nat"
  assumes pop_Nil: "elems m = [] \<Longrightarrow> sp_pop t m = (None, m)"
    and pop_Cons: "elems m = v # vs \<Longrightarrow> \<exists>m'. sp_pop t m = (Some v, m') \<and> elems m' = vs \<and>
      capacity m' = capacity m \<and> sp_value_size t m' = sp_value_size t m"
    and peek_elems: "sp_peek t m = (case elems m of [] \<Rightarrow> None | v # _ \<Rightarrow> Some v)"
    and push_room: "0 < capacity m \<Longrightarrow> length (elems m) \<le> capacity m \<Longrightarrow> sp_push t m v fl = Ok m' \<Longrightarrow>
      length (elems m') \<le> capacity m \<and> set (elems m') \<subseteq> insert v (set (elems m)) \<and>
      capacity m' = capacity m \<and> sp_value_size t m' = sp_value_size t m"
    and push_no_panic: "0 < capacity m \<Longrightarrow> sp_push t m v fl = Err f \<Longrightarrow> f \<noteq> Panics"
begin

text \<open>The invariant: within the capacity, and every element has the value size.\<close>

definition fits :: "'m \<Rightarrow> bool" where
  "fits m \<longleftrightarrow> 0 < capacity m \<and> length (elems m) \<le> capacity m \<and> (\<forall>v \<in> set (elems m). length v = sp_value_size t m)"

lemma update_fits:
  assumes "fits m" "special_update t m k v fl = (r, m')"
  shows "fits m' \<and> capacity m' = capacity m \<and> sp_value_size t m' = sp_value_size t m \<and> r \<noteq> Err Panics"
proof (cases r)
  case (Inl f)
  with assms show ?thesis
    by (auto simp: special_update_def commit_iffs and_then_Err_iff fits_def split: if_splits
        dest: push_no_panic check_update_flags_fault)
next
  case (Inr u)
  then obtain fl' where "sp_push t m v fl' = Ok m'" "length v = sp_value_size t m"
    using assms(2) by (auto simp: special_update_def commit_iffs and_then_Ok_iff split: if_splits)
  with assms(1) push_room [of m v fl' m'] Inr show ?thesis
    by (auto simp: fits_def)
qed

text \<open>A pop returns the first element, into a buffer of the value size.\<close>

lemma delete_first:
  assumes "fits m" "length buf = sp_value_size t m"
  shows "\<exists>m'. special_lookup_and_delete t m [] buf =
      (case elems m of [] \<Rightarrow> Err (Fails ENOENT) | v # _ \<Rightarrow> Ok v, m') \<and>
    elems m' = tl (elems m) \<and> fits m' \<and> capacity m' = capacity m \<and> sp_value_size t m' = sp_value_size t m"
proof (cases "elems m")
  case Nil
  with assms pop_Nil [of m] show ?thesis by (simp add: special_lookup_and_delete_def)
next
  case (Cons v vs)
  with pop_Cons [of m v vs] obtain m' where "sp_pop t m = (Some v, m')" "elems m' = vs"
    "capacity m' = capacity m" "sp_value_size t m' = sp_value_size t m" by blast
  with assms Cons show ?thesis by (auto simp: special_lookup_and_delete_def copy_from_slice_def fits_def)
qed

lemma delete_fits:
  assumes "fits m" "special_lookup_and_delete t m k v = (r, m')"
  shows "fits m' \<and> capacity m' = capacity m \<and> sp_value_size t m' = sp_value_size t m \<and> r \<noteq> Err Panics"
proof (cases "k = [] \<and> length v = sp_value_size t m")
  case True
  with delete_first [OF assms(1), of v] assms(2) show ?thesis by (auto split: list.splits)
next
  case False
  with assms show ?thesis by (auto simp: special_lookup_and_delete_def split: if_splits)
qed

lemma pop_first:
  assumes "fits m" "length buf = sp_value_size t m"
  shows "fst (special_pop_elem t m buf) = (case elems m of [] \<Rightarrow> Err (Fails ENOENT) | v # _ \<Rightarrow> Ok v)"
  using delete_first [OF assms] by (auto simp: special_pop_elem_def)

lemma peek_first:
  assumes "fits m" "length buf = sp_value_size t m"
  shows "special_peek_elem t m buf = (case elems m of [] \<Rightarrow> Err (Fails ENOENT) | v # _ \<Rightarrow> Ok v)"
  using assms peek_elems [of m]
  by (auto simp: special_peek_elem_def copy_from_slice_def fits_def split: list.splits)

lemma peek_is_next_pop:
  "fits m \<Longrightarrow> length buf = sp_value_size t m \<Longrightarrow> special_peek_elem t m buf = fst (special_pop_elem t m buf)"
  by (simp add: pop_first peek_first)

end

interpretation queue: special_map_contract QueueMap qm_data "\<lambda>m. unat (qm_max_entries m)"
  by unfold_locales
    (auto simp: QueueMap_def queue_push_def queue_pop_def queue_peek_def queue_value_size_def
      split: list.splits if_splits)

interpretation stack: special_map_contract StackMap "\<lambda>m. rev (qm_data m)" "\<lambda>m. unat (qm_max_entries m)"
proof unfold_locales
  fix m m' :: queue_map and v vs fl f
  have last: "qm_data m = [] \<or> (\<exists>vs v. qm_data m = vs @ [v])" by (cases "qm_data m" rule: rev_cases) auto
  show "sp_pop StackMap m = (None, m)" if "rev (qm_data m) = []"
    using that by (simp add: StackMap_def stack_pop_def)
  show "\<exists>m'. sp_pop StackMap m = (Some v, m') \<and> rev (qm_data m') = vs \<and>
      unat (qm_max_entries m') = unat (qm_max_entries m) \<and> sp_value_size StackMap m' = sp_value_size StackMap m"
    if "rev (qm_data m) = v # vs"
    using that last by (auto simp: StackMap_def stack_pop_def queue_value_size_def)
  show "sp_peek StackMap m = (case rev (qm_data m) of [] \<Rightarrow> None | v # _ \<Rightarrow> Some v)"
    using last by (auto simp: StackMap_def stack_peek_def)
  show "length (rev (qm_data m')) \<le> unat (qm_max_entries m) \<and>
      set (rev (qm_data m')) \<subseteq> insert v (set (rev (qm_data m))) \<and>
      unat (qm_max_entries m') = unat (qm_max_entries m) \<and> sp_value_size StackMap m' = sp_value_size StackMap m"
    if "0 < unat (qm_max_entries m)" "length (rev (qm_data m)) \<le> unat (qm_max_entries m)"
      "sp_push StackMap m v fl = Ok m'"
    using that
    by (auto simp: StackMap_def stack_push_def queue_value_size_def split: if_splits dest: in_set_butlastD)
  show "f \<noteq> Panics" if "0 < unat (qm_max_entries m)" "sp_push StackMap m v fl = Err f"
    using that by (auto simp: StackMap_def stack_push_def split: if_splits)
qed

section \<open>Histories\<close>

text \<open>
  A client's pushes and pops, with the values that went in (the accepted pushes) and the values
  that came out, each in order.
\<close>

datatype special_call = Push string u64 | Pop

fun special_run :: "'m special_map \<Rightarrow> 'm \<Rightarrow> special_call list \<Rightarrow> 'm \<times> string list \<times> string list" where
  "special_run t m [] = (m, [], [])"
| "special_run t m (Push v fl # cs) =
     (let (r, m1) = special_push_elem t m v fl; (m', ins, outs) = special_run t m1 cs
      in (m', if is_ok r then v # ins else ins, outs))"
| "special_run t m (Pop # cs) =
     (let (r, m1) = special_pop_elem t m (replicate (sp_value_size t m) (CHR 0x00));
          (m', ins, outs) = special_run t m1 cs
      in (m', ins, case r of Inl _ \<Rightarrow> outs | Inr v \<Rightarrow> v # outs))"

lemma special_run_append:
  "special_run t m (cs @ ds) =
     (let (m1, ins, outs) = special_run t m cs; (m2, ins', outs') = special_run t m1 ds
      in (m2, ins @ ins', outs @ outs'))"
  by (induction t m cs rule: special_run.induct)
    (auto simp: Let_def split: prod.splits sum.splits)

lemma queue_push_effect:
  assumes "queue.fits m" "special_push_elem QueueMap m v fl = (r, m1)"
  shows "\<exists>gone. qm_data m @ (if is_ok r then [v] else []) = gone @ qm_data m1"
  using assms
  by (cases r; cases "qm_data m")
    (auto simp: special_push_elem_def special_update_def commit_iffs and_then_Ok_iff QueueMap_def
      queue_push_def split: if_splits)

lemma queue_run_fifo:
  "queue.fits m \<Longrightarrow> special_run QueueMap m cs = (m', ins, outs) \<Longrightarrow>
     (\<exists>gone. qm_data m @ ins = gone @ qm_data m' \<and> subseq outs gone) \<and> queue.fits m' \<and>
     qm_max_entries m' = qm_max_entries m \<and> sp_value_size QueueMap m' = sp_value_size QueueMap m"
proof (induction cs arbitrary: m ins outs)
  case (Cons c cs)
  show ?case
  proof (cases c)
    case (Push v fl)
    obtain r m1 where p: "special_push_elem QueueMap m v fl = (r, m1)" by fastforce
    obtain ins1 where rest: "special_run QueueMap m1 cs = (m', ins1, outs)"
      and ins: "ins = (if is_ok r then [v] else []) @ ins1"
      using Cons.prems(2) Push p by (auto split: prod.splits)
    have ok: "queue.fits m1" "qm_max_entries m1 = qm_max_entries m"
      "sp_value_size QueueMap m1 = sp_value_size QueueMap m"
      using queue.update_fits [OF Cons.prems(1), of "[]" v fl r m1] p unsigned_word_eqI
      by (auto simp: special_push_elem_def)
    obtain g1 where g1: "qm_data m @ (if is_ok r then [v] else []) = g1 @ qm_data m1"
      using queue_push_effect [OF Cons.prems(1) p] by blast
    obtain g2 where g2: "qm_data m1 @ ins1 = g2 @ qm_data m'" "subseq outs g2"
      using Cons.IH [OF ok(1) rest] by blast
    have "qm_data m @ ins = (qm_data m @ (if is_ok r then [v] else [])) @ ins1"
      by (simp only: ins append_assoc)
    then have "qm_data m @ ins = (g1 @ g2) @ qm_data m'" by (simp only: g1 g2(1) append_assoc)
    moreover have "subseq outs (g1 @ g2)" using g2(2) by (simp add: subseq_drop_many)
    ultimately show ?thesis using Cons.IH [OF ok(1) rest] ok by auto
  next
    case Pop
    let ?buf = "replicate (sp_value_size QueueMap m) (CHR 0x00)"
    obtain m1 where p: "special_pop_elem QueueMap m ?buf =
        (case qm_data m of [] \<Rightarrow> Err (Fails ENOENT) | v # _ \<Rightarrow> Ok v, m1)"
      and m1: "qm_data m1 = tl (qm_data m)" "queue.fits m1" "qm_max_entries m1 = qm_max_entries m"
        "sp_value_size QueueMap m1 = sp_value_size QueueMap m"
      using queue.delete_first [OF Cons.prems(1), of ?buf] unsigned_word_eqI
      by (auto simp: special_pop_elem_def)
    obtain outs1 where rest: "special_run QueueMap m1 cs = (m', ins, outs1)"
      and outs: "outs = (case qm_data m of [] \<Rightarrow> [] | v # _ \<Rightarrow> [v]) @ outs1"
      using Cons.prems(2) Pop p by (auto split: prod.splits list.splits)
    obtain g where g: "qm_data m1 @ ins = g @ qm_data m'" "subseq outs1 g"
      using Cons.IH [OF m1(2) rest] by blast
    have "\<exists>gone. qm_data m @ ins = gone @ qm_data m' \<and> subseq outs gone"
    proof (cases "qm_data m")
      case Nil
      with g outs m1(1) show ?thesis by auto
    next
      case (Cons v vs)
      with g outs m1(1) have "qm_data m @ ins = (v # g) @ qm_data m'" "subseq outs (v # g)" by auto
      then show ?thesis by blast
    qed
    with Cons.IH [OF m1(2) rest] m1 show ?thesis by auto
  qed
qed auto

lemma queue_new_fits:
  "QueueMap_new meta = Ok m \<Longrightarrow> queue.fits m \<and> stack.fits m \<and> qm_data m = [] \<and>
     qm_max_entries m = meta_max_entries meta \<and> queue_value_size m = unat (meta_value_size meta)"
  by (auto simp: QueueMap_new_def queue.fits_def stack.fits_def queue_value_size_def unat_gt_0 split: if_splits)

text \<open>
  C30: the queue is first in, first out. After any pushes and pops on a new queue map, what it
  holds is the end of the sequence of accepted values, at most \<open>max_entries\<close> of them; the values
  popped left in the order in which they came in; and \<open>peek\<close> returns the oldest value held.
\<close>

theorem queue_fifo:
  assumes "QueueMap_new meta = Ok m0" "special_run QueueMap m0 cs = (m, ins, outs)"
    and "length buf = unat (meta_value_size meta)"
  shows "(\<exists>gone. ins = gone @ qm_data m \<and> subseq outs gone) \<and>
    length (qm_data m) \<le> unat (meta_max_entries meta) \<and>
    special_peek_elem QueueMap m buf = (case qm_data m of [] \<Rightarrow> Err (Fails ENOENT) | v # _ \<Rightarrow> Ok v)"
proof -
  note new = queue_new_fits [OF assms(1)]
  then have run: "(\<exists>gone. qm_data m0 @ ins = gone @ qm_data m \<and> subseq outs gone)" "queue.fits m"
    "qm_max_entries m = qm_max_entries m0" "sp_value_size QueueMap m = sp_value_size QueueMap m0"
    using queue_run_fifo [OF _ assms(2)] by auto
  moreover have "sp_value_size QueueMap m0 = unat (meta_value_size meta)"
    using new by simp
  ultimately show ?thesis
    using new queue.peek_first [of m buf] assms(3) by (auto simp: queue.fits_def)
qed

definition two_meta :: map_meta where
  "two_meta =
     \<lparr>meta_map_type = MAP_QUEUE, meta_key_size = 0, meta_value_size = 1, meta_max_entries = 2,
      meta_map_flags = 0, meta_map_name = ''two''\<rparr>"

definition two_map :: "string list \<Rightarrow> queue_map" where
  "two_map vs = \<lparr>qm_max_entries = 2, qm_value_size = 1, qm_data = vs\<rparr>"

lemma new_two_map: "QueueMap_new two_meta = Ok (two_map [])" "StackMap_new two_meta = Ok (two_map [])"
  by (simp_all add: QueueMap_new_def StackMap_new_def two_meta_def two_map_def)

lemma queue_two_run:
  "special_run QueueMap (two_map []) [Push ''a'' 0, Push ''b'' 0, Push ''c'' 0, Pop] =
     (two_map [''c''], [''a'', ''b'', ''c''], [''b''])"
  by (simp add: special_push_elem_def special_pop_elem_def special_update_def special_lookup_and_delete_def
      QueueMap_def queue_push_def queue_pop_def queue_value_size_def two_map_def commit_def
      check_update_flags_def flags_from_bits_def has_bits_def update_flag_defs copy_from_slice_def)

theorem queue_fifo_witness:
  "special_peek_elem QueueMap (two_map [''c'']) ''x'' = Ok ''c''"
  using queue_fifo [OF new_two_map(1) queue_two_run, of "''x''"] by (simp add: two_meta_def two_map_def)

section \<open>The stack as a last-in first-out store\<close>

lemma stack_push_one:
  assumes "length v = queue_value_size m"
  shows "special_push_elem StackMap m v 0 =
    (if length (qm_data m) = unat (qm_max_entries m) then (Err (Fails ENOMEM), m)
     else (Ok (), m\<lparr>qm_data := qm_data m @ [v]\<rparr>))"
  using assms
  by (auto simp: special_push_elem_def special_update_def StackMap_def stack_push_def commit_def
      check_update_flags_def flags_from_bits_def has_bits_def update_flag_defs)

lemma stack_push_run:
  "\<forall>v \<in> set vs. length v = queue_value_size m \<Longrightarrow> length (qm_data m) \<le> unat (qm_max_entries m) \<Longrightarrow>
     special_run StackMap m (map (\<lambda>v. Push v 0) vs) =
       (let acc = take (unat (qm_max_entries m) - length (qm_data m)) vs
        in (m\<lparr>qm_data := qm_data m @ acc\<rparr>, acc, []))"
proof (induction vs arbitrary: m)
  case (Cons v vs)
  have size: "length v = queue_value_size m" using Cons.prems(1) by simp
  show ?case
  proof (cases "length (qm_data m) = unat (qm_max_entries m)")
    case True
    with Cons stack_push_one [OF size] show ?thesis by (simp add: Let_def)
  next
    case False
    let ?m1 = "m\<lparr>qm_data := qm_data m @ [v]\<rparr>"
    have "special_run StackMap ?m1 (map (\<lambda>v. Push v 0) vs) =
        (let acc = take (unat (qm_max_entries m) - Suc (length (qm_data m))) vs
         in (m\<lparr>qm_data := qm_data m @ v # acc\<rparr>, acc, []))"
      using Cons.IH [of ?m1] Cons.prems False by (simp add: queue_value_size_def)
    moreover have "take (unat (qm_max_entries m) - length (qm_data m)) (v # vs) =
        v # take (unat (qm_max_entries m) - Suc (length (qm_data m))) vs"
      using Cons.prems(2) False by (simp add: take_Cons' Suc_diff_Suc)
    ultimately show ?thesis using stack_push_one [OF size] False by (simp add: Let_def)
  qed
qed (simp add: Let_def)

lemma stack_pop_run:
  "stack.fits m \<Longrightarrow> special_run StackMap m (replicate n Pop) =
     (m\<lparr>qm_data := take (length (qm_data m) - n) (qm_data m)\<rparr>, [], take n (rev (qm_data m)))"
proof (induction n arbitrary: m)
  case (Suc n)
  show ?case
  proof (cases "qm_data m" rule: rev_cases)
    case Nil
    with Suc show ?thesis
      by (simp add: special_pop_elem_def special_lookup_and_delete_def StackMap_def stack_pop_def)
  next
    case (snoc vs v)
    let ?m1 = "m\<lparr>qm_data := vs\<rparr>"
    have fits: "stack.fits ?m1" and len: "length v = queue_value_size m"
      using Suc.prems snoc by (auto simp: stack.fits_def queue_value_size_def)
    have "special_pop_elem StackMap m (replicate (sp_value_size StackMap m) (CHR 0x00)) = (Ok v, ?m1)"
      using snoc len
      by (simp add: special_pop_elem_def special_lookup_and_delete_def StackMap_def stack_pop_def
          copy_from_slice_def)
    then show ?thesis using Suc.IH [OF fits] snoc by simp
  qed
qed simp

text \<open>
  The stack is last in, first out, and refuses what does not fit: pushing values on a new
  stack map accepts the first \<open>max_entries\<close> of them, and \<open>n\<close> pops then return the last
  \<open>n\<close> accepted values in reverse order and leave the rest.
\<close>

theorem stack_lifo:
  assumes "StackMap_new meta = Ok m0" "\<forall>v \<in> set vs. length v = unat (meta_value_size meta)"
  shows "let acc = take (unat (meta_max_entries meta)) vs
    in special_run StackMap m0 (map (\<lambda>v. Push v 0) vs @ replicate n Pop) =
      (m0\<lparr>qm_data := take (length acc - n) acc\<rparr>, acc, take n (rev acc))"
proof -
  have new: "queue.fits m0" "stack.fits m0" "qm_data m0 = []" "qm_max_entries m0 = meta_max_entries meta"
    "queue_value_size m0 = unat (meta_value_size meta)"
    using queue_new_fits [of meta m0] assms(1) by (auto simp: StackMap_new_def)
  let ?acc = "take (unat (meta_max_entries meta)) vs"
  have push: "special_run StackMap m0 (map (\<lambda>v. Push v 0) vs) = (m0\<lparr>qm_data := ?acc\<rparr>, ?acc, [])"
    using stack_push_run [of vs m0] assms(2) new by (simp add: Let_def)
  have "stack.fits (m0\<lparr>qm_data := ?acc\<rparr>)"
    using new assms(2) by (auto simp: stack.fits_def queue_value_size_def dest: in_set_takeD)
  from stack_pop_run [OF this, of n] push show ?thesis
    by (simp add: special_run_append Let_def)
qed

theorem stack_lifo_witness:
  "special_run StackMap (two_map []) [Push ''a'' 0, Push ''b'' 0, Push ''c'' 0, Pop] =
     (two_map [''a''], [''a'', ''b''], [''b''])"
  using stack_lifo [OF new_two_map(2), of "[''a'', ''b'', ''c'']" 1]
  by (simp add: two_meta_def two_map_def Let_def)

end
