(* ===== verification/BpfLru.thy ===== *)
theory BpfLru
  imports BpfMap
begin

text \<open>
  The LRU map of \<open>bpf-basic/src/map/lru.rs\<close>. Its store is the \<open>LruCache\<close> of the crate
  \<open>lru\<close>, which is not part of the repository: a record of the operations that the map calls,
  with their documented behaviour as the predicate \<open>lru_laws\<close>.
\<close>

section \<open>The cache\<close>

record 'c lru_cache =
  lc_new :: "nat \<Rightarrow> 'c"
  lc_get :: "'c \<Rightarrow> string \<Rightarrow> string option \<times> 'c"
  lc_contains :: "'c \<Rightarrow> string \<Rightarrow> bool"
  lc_put :: "'c \<Rightarrow> string \<Rightarrow> string \<Rightarrow> 'c"
  lc_pop :: "'c \<Rightarrow> string \<Rightarrow> 'c"
  lc_iter :: "'c \<Rightarrow> (string \<times> string) list"
  lc_cap :: "'c \<Rightarrow> nat"

definition others :: "string \<Rightarrow> (string \<times> string) list \<Rightarrow> (string \<times> string) list" where
  "others k kvs = filter (\<lambda>(j, _). j \<noteq> k) kvs"

text \<open>
  The documented behaviour: \<open>iter\<close> lists the entries, most recently used first; \<open>get\<close> and
  \<open>put\<close> move the key to the front; \<open>put\<close> drops the least recently used entry when the
  cache is full; \<open>pop\<close> removes the key.
\<close>

definition lru_laws :: "'c lru_cache \<Rightarrow> bool" where
  "lru_laws c \<longleftrightarrow>
     (\<forall>n. lc_iter c (lc_new c n) = [] \<and> lc_cap c (lc_new c n) = n) \<and>
     (\<forall>x k. fst (lc_get c x k) = map_of (lc_iter c x) k \<and> lc_cap c (snd (lc_get c x k)) = lc_cap c x \<and>
        lc_iter c (snd (lc_get c x k)) =
          (case map_of (lc_iter c x) k of None \<Rightarrow> lc_iter c x | Some v \<Rightarrow> (k, v) # others k (lc_iter c x))) \<and>
     (\<forall>x k. lc_contains c x k \<longleftrightarrow> map_of (lc_iter c x) k \<noteq> None) \<and>
     (\<forall>x k v. lc_iter c (lc_put c x k v) = take (lc_cap c x) ((k, v) # others k (lc_iter c x)) \<and>
        lc_cap c (lc_put c x k v) = lc_cap c x) \<and>
     (\<forall>x k. lc_iter c (lc_pop c x k) = others k (lc_iter c x) \<and> lc_cap c (lc_pop c x k) = lc_cap c x)"

lemma lru_laws_simps:
  assumes "lru_laws c"
  shows "lc_iter c (lc_new c n) = []" "lc_cap c (lc_new c n) = n"
    "fst (lc_get c x k) = map_of (lc_iter c x) k"
    "lc_cap c (snd (lc_get c x k)) = lc_cap c x"
    "lc_iter c (snd (lc_get c x k)) =
      (case map_of (lc_iter c x) k of None \<Rightarrow> lc_iter c x | Some v \<Rightarrow> (k, v) # others k (lc_iter c x))"
    "lc_contains c x k \<longleftrightarrow> map_of (lc_iter c x) k \<noteq> None"
    "lc_iter c (lc_put c x k v) = take (lc_cap c x) ((k, v) # others k (lc_iter c x))"
    "lc_cap c (lc_put c x k v) = lc_cap c x"
    "lc_iter c (lc_pop c x k) = others k (lc_iter c x)" "lc_cap c (lc_pop c x k) = lc_cap c x"
  using assms by (auto simp: lru_laws_def)

section \<open>The map\<close>

record 'c lru_map =
  lm_key_size :: u32
  lm_value_size :: u32
  lm_data :: 'c

definition LruMap_new :: "'c lru_cache \<Rightarrow> map_meta \<Rightarrow> (fault, 'c lru_map) result" where
  "LruMap_new c meta =
     (if meta_value_size meta = 0 \<or> meta_max_entries meta = 0 \<or> meta_key_size meta = 0 then Err (Fails EINVAL)
      else Ok \<lparr>lm_key_size = meta_key_size meta, lm_value_size = meta_value_size meta,
               lm_data = lc_new c (unat (meta_max_entries meta))\<rparr>)"

definition lru_lookup :: "'c lru_cache \<Rightarrow> 'c lru_map \<Rightarrow> string \<Rightarrow> (fault, string option) result \<times> 'c lru_map" where
  "lru_lookup c m key =
     (case check_len key (lm_key_size m) of
        Inl f \<Rightarrow> (Err f, m)
      | Inr _ \<Rightarrow> (let (v, d) = lc_get c (lm_data m) key in (Ok v, m\<lparr>lm_data := d\<rparr>)))"

definition lru_update :: "'c lru_cache \<Rightarrow> 'c lru_map \<Rightarrow> string \<Rightarrow> string \<Rightarrow> u64 \<Rightarrow> (fault, unit) result \<times> 'c lru_map" where
  "lru_update c m key val flags =
     commit m
       (and_then (check_len key (lm_key_size m)) (\<lambda>_.
        and_then (check_len val (lm_value_size m)) (\<lambda>_.
        and_then (check_update_flags flags) (\<lambda>flags.
        let present = lc_contains c (lm_data m) key in
        if has_bits flags BPF_NOEXIST \<and> present then Err (Fails EEXIST)
        else if has_bits flags BPF_EXISTS \<and> \<not> present then Err (Fails ENOENT)
        else Ok (m\<lparr>lm_data := lc_put c (lm_data m) key val\<rparr>)))))"

definition lru_delete :: "'c lru_cache \<Rightarrow> 'c lru_map \<Rightarrow> string \<Rightarrow> (fault, unit) result \<times> 'c lru_map" where
  "lru_delete c m key =
     commit m (and_then (check_len key (lm_key_size m)) (\<lambda>_. Ok (m\<lparr>lm_data := lc_pop c (lm_data m) key\<rparr>)))"

definition lru_for_each :: "'c lru_cache \<Rightarrow> 'c lru_map \<Rightarrow> 's callback \<Rightarrow> 's \<Rightarrow> u64 \<Rightarrow> (fault, nat) result \<times> 's" where
  "lru_for_each c m cb s flags =
     (if flags \<noteq> 0 then (Err (Fails EINVAL), s)
      else let (used, s) = each_elem cb (lc_iter c (lm_data m)) 0 s in (Ok used, s))"

text \<open>The value goes to the front part of the buffer \<open>val\<close>.\<close>

definition lru_lookup_and_delete ::
  "'c lru_cache \<Rightarrow> 'c lru_map \<Rightarrow> string \<Rightarrow> string \<Rightarrow> (fault, string) result \<times> 'c lru_map" where
  "lru_lookup_and_delete c m key val =
     (case and_then (check_len key (lm_key_size m)) (\<lambda>_. check_len val (lm_value_size m)) of
        Inl f \<Rightarrow> (Err f, m)
      | Inr _ \<Rightarrow>
          (let (found, d) = lc_get c (lm_data m) key; m = m\<lparr>lm_data := d\<rparr> in
           case found of
             None \<Rightarrow> (Err (Fails ENOENT), m)
           | Some v \<Rightarrow>
               (if length v \<le> length val
                then (Ok (v @ drop (length v) val), m\<lparr>lm_data := lc_pop c d key\<rparr>)
                else (Err Panics, m))))"

definition lru_get_next_key :: "'c lru_cache \<Rightarrow> 'c lru_map \<Rightarrow> string option \<Rightarrow> string \<Rightarrow> (fault, string) result" where
  "lru_get_next_key c m key next_key =
     (if length next_key \<noteq> unat (lm_key_size m) then Err (Fails EINVAL)
      else and_then (case key of None \<Rightarrow> Ok () | Some k \<Rightarrow> check_len k (lm_key_size m)) (\<lambda>_.
        case next_key_in (lc_iter c (lm_data m)) key of
          Some k \<Rightarrow> copy_from_slice next_key k
        | None \<Rightarrow> Err (Fails ENOENT)))"

definition lru_mem_usage :: "'c lru_cache \<Rightarrow> 'c lru_map \<Rightarrow> nat" where
  "lru_mem_usage c m = mem_usage (lc_iter c (lm_data m))"

section \<open>The map refines its contract\<close>

lemma map_of_others: "map_of (others k kvs) = (map_of kvs)(k := None)"
  by (induction kvs) (auto simp: others_def)

lemma others_props:
  "distinct (map fst kvs) \<Longrightarrow> distinct (map fst (others k kvs))"
  "length (others k kvs) \<le> length kvs"
  "map_of kvs k \<noteq> None \<Longrightarrow> length (others k kvs) < length kvs"
  "k \<notin> fst ` set (others k kvs)"
  "set (others k kvs) \<subseteq> set kvs"
proof -
  show "distinct (map fst kvs) \<Longrightarrow> distinct (map fst (others k kvs))"
    unfolding others_def by (rule distinct_map_filter)
  show "length (others k kvs) < length kvs" if "map_of kvs k \<noteq> None"
  proof -
    from that obtain v where "(k, v) \<in> set kvs" by (auto dest: map_of_SomeD)
    then show ?thesis unfolding others_def by (rule length_filter_less) simp
  qed
qed (auto simp: others_def)

lemma map_of_take: "distinct (map fst kvs) \<Longrightarrow> map_of (take n kvs) j = map_of kvs j \<or> map_of (take n kvs) j = None"
proof (induction kvs arbitrary: n)
  case (Cons e kvs)
  then show ?case by (cases n) auto
qed simp

definition lru_ops :: "'c lru_cache \<Rightarrow> 'c lru_map map_ops" where
  "lru_ops c = \<lparr>op_lookup = lru_lookup c, op_update = lru_update c, op_delete = lru_delete c\<rparr>"

definition lru_view :: "'c lru_cache \<Rightarrow> 'c lru_map \<Rightarrow> string \<Rightarrow> string option" where
  "lru_view c m = map_of (lc_iter c (lm_data m))"

definition lru_wf :: "'c lru_cache \<Rightarrow> 'c lru_map \<Rightarrow> bool" where
  "lru_wf c m \<longleftrightarrow>
     0 < lc_cap c (lm_data m) \<and> distinct (map fst (lc_iter c (lm_data m))) \<and>
     length (lc_iter c (lm_data m)) \<le> lc_cap c (lm_data m)"

lemma lru_get_wf:
  assumes "lru_laws c" "lru_wf c m"
  shows "lru_wf c (m\<lparr>lm_data := snd (lc_get c (lm_data m) k)\<rparr>) \<and>
    lru_view c (m\<lparr>lm_data := snd (lc_get c (lm_data m) k)\<rparr>) = lru_view c m"
proof (cases "map_of (lc_iter c (lm_data m)) k")
  case None
  with assms show ?thesis by (simp add: lru_wf_def lru_view_def lru_laws_simps)
next
  case (Some v)
  with assms others_props(1,3,4) [where kvs = "lc_iter c (lm_data m)" and k = k] show ?thesis
    by (auto simp: lru_wf_def lru_view_def lru_laws_simps map_of_others fun_eq_iff)
qed

lemma lru_put_wf:
  assumes "lru_laws c" "lru_wf c m"
  shows "lru_wf c (m\<lparr>lm_data := lc_put c (lm_data m) k v\<rparr>)"
    and "lru_view c (m\<lparr>lm_data := lc_put c (lm_data m) k v\<rparr>) k = Some v"
    and "\<forall>j. j \<noteq> k \<longrightarrow> lru_view c (m\<lparr>lm_data := lc_put c (lm_data m) k v\<rparr>) j = lru_view c m j \<or>
      lru_view c (m\<lparr>lm_data := lc_put c (lm_data m) k v\<rparr>) j = None"
proof -
  let ?es = "lc_iter c (lm_data m)"
  obtain n where n: "lc_cap c (lm_data m) = Suc n" using assms(2) by (cases "lc_cap c (lm_data m)") (auto simp: lru_wf_def)
  have d: "distinct (map fst (others k ?es))" "k \<notin> fst ` set (others k ?es)"
    using assms(2) others_props(1,4) [where kvs = ?es and k = k] by (auto simp: lru_wf_def)
  have "set (take n (others k ?es)) \<subseteq> set (others k ?es)" by (rule set_take_subset)
  with d have "distinct (map fst (take n (others k ?es)))" "k \<notin> fst ` set (take n (others k ?es))"
    by (auto simp: take_map [symmetric] distinct_take)
  then show "lru_wf c (m\<lparr>lm_data := lc_put c (lm_data m) k v\<rparr>)"
    using n by (simp add: lru_wf_def lru_laws_simps [OF assms(1)])
  show "lru_view c (m\<lparr>lm_data := lc_put c (lm_data m) k v\<rparr>) k = Some v"
    using n by (simp add: lru_view_def lru_laws_simps [OF assms(1)])
  show "\<forall>j. j \<noteq> k \<longrightarrow> lru_view c (m\<lparr>lm_data := lc_put c (lm_data m) k v\<rparr>) j = lru_view c m j \<or>
      lru_view c (m\<lparr>lm_data := lc_put c (lm_data m) k v\<rparr>) j = None"
  proof (intro allI impI)
    show "lru_view c (m\<lparr>lm_data := lc_put c (lm_data m) k v\<rparr>) j = lru_view c m j \<or>
      lru_view c (m\<lparr>lm_data := lc_put c (lm_data m) k v\<rparr>) j = None" if "j \<noteq> k" for j
      using that n map_of_take [OF d(1), of n j]
      by (auto simp: lru_view_def lru_laws_simps [OF assms(1)] map_of_others)
  qed
qed

lemma lru_bpf_map:
  assumes "lru_laws c"
  shows "bpf_map (lru_ops c) (lru_wf c) (lru_view c)"
proof
  fix m m' :: "'a lru_map" and k v fl and u :: unit and f r
  show "r = lru_view c m k \<and> lru_wf c m' \<and> lru_view c m' = lru_view c m"
    if "lru_wf c m" "op_lookup (lru_ops c) m k = (Ok r, m')"
    using that lru_get_wf [OF assms that(1), of k] lru_laws_simps(3) [OF assms, of "lm_data m" k]
    by (cases "lc_get c (lm_data m) k") (auto simp: lru_ops_def lru_lookup_def lru_view_def split: sum.splits)
  show "m' = m \<and> f \<noteq> Panics" if "lru_wf c m" "op_lookup (lru_ops c) m k = (Err f, m')"
    using that by (auto simp: lru_ops_def lru_lookup_def split: prod.splits sum.splits)
  show "lru_wf c m' \<and> lru_view c m' k = Some v \<and>
      (\<forall>j. j \<noteq> k \<longrightarrow> lru_view c m' j = lru_view c m j \<or> lru_view c m' j = None)"
    if "lru_wf c m" "op_update (lru_ops c) m k v fl = (Ok u, m')"
    using that lru_put_wf [OF assms that(1), where k = k and v = v]
    by (auto simp: lru_ops_def lru_update_def commit_iffs and_then_Ok_iff Let_def split: if_splits)
  show "m' = m \<and> f \<noteq> Panics" if "lru_wf c m" "op_update (lru_ops c) m k v fl = (Err f, m')"
    using that by (auto simp: lru_ops_def lru_update_def commit_iffs and_then_Err_iff Let_def
        dest: check_update_flags_fault split: if_splits)
  show "lru_wf c m' \<and> lru_view c m' = (lru_view c m)(k := None)"
    if "lru_wf c m" "op_delete (lru_ops c) m k = (Ok u, m')"
    using that others_props(1,2) [where kvs = "lc_iter c (lm_data m)" and k = k]
    by (auto simp: lru_ops_def lru_delete_def commit_iffs and_then_Ok_iff lru_wf_def lru_view_def
        lru_laws_simps [OF assms] map_of_others)
  show "m' = m \<and> f \<noteq> Panics" if "lru_wf c m" "op_delete (lru_ops c) m k = (Err f, m')"
    using that by (auto simp: lru_ops_def lru_delete_def commit_iffs and_then_Err_iff)
qed

lemma lru_new_wf:
  "lru_laws c \<Longrightarrow> LruMap_new c meta = Ok m \<Longrightarrow> lru_wf c m \<and> lru_view c m = (\<lambda>_. None) \<and>
     lc_cap c (lm_data m) = unat (meta_max_entries meta) \<and> lm_key_size m = meta_key_size meta \<and>
     lm_value_size m = meta_value_size meta \<and> lc_iter c (lm_data m) = []"
  by (auto simp: LruMap_new_def lru_wf_def lru_view_def lru_laws_simps unat_gt_0 split: if_splits)

lemma lru_step_sizes:
  assumes "lru_laws c" "map_step (lru_ops c) m d = (r, m')"
  shows "lm_key_size m' = lm_key_size m \<and> lc_cap c (lm_data m') = lc_cap c (lm_data m)"
proof (cases d)
  case (Lookup k)
  with assms show ?thesis
    by (cases "lc_get c (lm_data m) k")
      (use lru_laws_simps(4) [OF assms(1), of "lm_data m" k] in
        \<open>auto simp: lru_ops_def lru_lookup_def fault_of_def split: sum.splits\<close>)
next
  case (Update k v fl)
  with assms show ?thesis
    by (auto simp: lru_ops_def lru_update_def fault_of_def commit_def and_then_def Let_def
        lru_laws_simps(8) [OF assms(1)] split: sum.splits if_splits)
next
  case (Delete k)
  with assms show ?thesis
    by (auto simp: lru_ops_def lru_delete_def fault_of_def commit_def and_then_def
        lru_laws_simps(10) [OF assms(1)] split: sum.splits)
qed

lemma lru_run_sizes:
  "lru_laws c \<Longrightarrow> map_run (lru_ops c) m w cs = (m', w') \<Longrightarrow>
     lm_key_size m' = lm_key_size m \<and> lc_cap c (lm_data m') = lc_cap c (lm_data m)"
proof (induction cs arbitrary: m w)
  case (Cons d cs)
  obtain r m1 where s: "map_step (lru_ops c) m d = (r, m1)" by (cases "map_step (lru_ops c) m d")
  with Cons have "lm_key_size m' = lm_key_size m1 \<and> lc_cap c (lm_data m') = lc_cap c (lm_data m1)"
    by (cases r) auto
  with lru_step_sizes [OF Cons.prems(1) s] show ?case by simp
qed simp

text \<open>
  C31: the LRU map never returns a stale value. After any lookups, updates and deletes on a new
  map, a lookup finds nothing or the value of the last successful update not followed by a
  delete; the map holds at most \<open>max_entries\<close> entries, and no operation panics.
\<close>

theorem lru_map_no_stale:
  assumes "lru_laws c" "LruMap_new c meta = Ok m0" "map_run (lru_ops c) m0 (\<lambda>_. None) cs = (m, w)"
    and "length k = unat (meta_key_size meta)"
  shows "(fst (lru_lookup c m k) = Ok (w k) \<or> fst (lru_lookup c m k) = Ok None) \<and>
    length (lc_iter c (lm_data m)) \<le> unat (meta_max_entries meta) \<and>
    fst (map_step (lru_ops c) m d) \<noteq> Some Panics"
proof -
  note lru = lru_bpf_map [OF assms(1)] and new = lru_new_wf [OF assms(1,2)]
  have start: "\<forall>k. lru_view c m0 k = None \<or> lru_view c m0 k = None" using new by simp
  have run: "lru_wf c m" "lru_view c m k = w k \<or> lru_view c m k = None"
    using bpf_map.run_no_stale [OF lru _ _ assms(3)] new by auto
  have sizes: "lm_key_size m = meta_key_size meta" "lc_cap c (lm_data m) = unat (meta_max_entries meta)"
    using lru_run_sizes [OF assms(1,3)] new by auto
  have "fst (lru_lookup c m k) = Ok (lru_view c m k)"
    using sizes(1) assms(4) lru_laws_simps(3) [OF assms(1), of "lm_data m" k]
    by (cases "lc_get c (lm_data m) k") (simp add: lru_lookup_def lru_view_def check_len_def)
  moreover have "fst (map_step (lru_ops c) m d) \<noteq> Some Panics"
    using bpf_map.run_never_panics [OF lru _ _ assms(3)] new by auto
  ultimately show ?thesis using run sizes(2) by (auto simp: lru_wf_def)
qed

section \<open>Which entries are kept\<close>

text \<open>The entries written, the most recent first, each key once.\<close>

definition recent :: "(string \<times> string) list \<Rightarrow> (string \<times> string) list" where
  "recent kvs = fold (\<lambda>(k, v) es. (k, v) # others k es) kvs []"

definition lru_writes :: "'c lru_cache \<Rightarrow> (string \<times> string) list \<Rightarrow> 'c lru_map \<Rightarrow> 'c lru_map" where
  "lru_writes c kvs m = fold (\<lambda>(k, v) m. snd (lru_update c m k v 0)) kvs m"

lemma take_others: "distinct (map fst es) \<Longrightarrow> take n (others k (take (Suc n) es)) = take n (others k es)"
proof (induction es arbitrary: n)
  case (Cons e es)
  show ?case
  proof (cases "fst e = k")
    case True
    then have new: "k \<notin> fst ` set es" using Cons.prems by simp
    then have "others k es = es" by (force simp: others_def filter_id_conv)
    moreover have "others k (take n es) = take n es"
      using new by (force simp: others_def filter_id_conv dest: in_set_takeD)
    ultimately show ?thesis using True by (cases e) (simp add: others_def)
  next
    case False
    then show ?thesis using Cons by (cases n) (auto simp: others_def)
  qed
qed (simp add: others_def)

lemma lru_update_any:
  assumes "length k = unat (lm_key_size m)" "length v = unat (lm_value_size m)"
  shows "lru_update c m k v 0 = (Ok (), m\<lparr>lm_data := lc_put c (lm_data m) k v\<rparr>)"
  using assms
  by (simp add: lru_update_def commit_def check_len_def check_update_flags_def flags_from_bits_def
      has_bits_def update_flag_defs Let_def)

lemma distinct_write: "distinct (map fst es) \<Longrightarrow> distinct (map fst ((k, v) # others k es))"
  using others_props(1,4) [where kvs = es and k = k] by auto

lemma lru_writes_entries:
  "lru_laws c \<Longrightarrow> 0 < lc_cap c (lm_data m) \<Longrightarrow> lc_iter c (lm_data m) = take (lc_cap c (lm_data m)) es \<Longrightarrow>
     distinct (map fst es) \<Longrightarrow>
     \<forall>(k, v) \<in> set kvs. length k = unat (lm_key_size m) \<and> length v = unat (lm_value_size m) \<Longrightarrow>
     lc_iter c (lm_data (lru_writes c kvs m)) =
       take (lc_cap c (lm_data m)) (fold (\<lambda>(k, v) es. (k, v) # others k es) kvs es) \<and>
     lm_key_size (lru_writes c kvs m) = lm_key_size m"
proof (induction kvs arbitrary: m es)
  case (Cons e kvs)
  obtain k v where e: "e = (k, v)" by (cases e)
  let ?m = "m\<lparr>lm_data := lc_put c (lm_data m) k v\<rparr>" and ?n = "lc_cap c (lm_data m)"
  have up: "lru_update c m k v 0 = (Ok (), ?m)" using Cons.prems(5) e by (simp add: lru_update_any)
  obtain n where n: "?n = Suc n" using Cons.prems(2) by (cases ?n) auto
  have "lc_iter c (lm_data ?m) = take ?n ((k, v) # others k es)"
    using take_others [OF Cons.prems(4), of n k] n
    by (simp add: lru_laws_simps [OF Cons.prems(1)] Cons.prems(3))
  moreover have "lc_cap c (lm_data ?m) = ?n" by (simp add: lru_laws_simps [OF Cons.prems(1)])
  ultimately show ?case
    using Cons.IH [of ?m "(k, v) # others k es"] Cons.prems distinct_write [OF Cons.prems(4), of k v] up e
    by (simp add: lru_writes_def)
qed (simp add: lru_writes_def)

text \<open>
  The LRU map keeps the most recently used entries. After writes of well-sized entries to a
  new map, a lookup finds the value last written for a key when the key is among the
  \<open>max_entries\<close> keys written last, and nothing otherwise.
\<close>

theorem lru_keeps_recent:
  assumes "lru_laws c" "LruMap_new c meta = Ok m0"
    and "\<forall>(k, v) \<in> set kvs. length k = unat (meta_key_size meta) \<and> length v = unat (meta_value_size meta)"
    and "length k = unat (meta_key_size meta)"
  shows "fst (lru_lookup c (lru_writes c kvs m0) k) =
    Ok (map_of (take (unat (meta_max_entries meta)) (recent kvs)) k)"
proof -
  note new = lru_new_wf [OF assms(1,2)]
  let ?m = "lru_writes c kvs m0"
  have "lc_iter c (lm_data ?m) = take (unat (meta_max_entries meta)) (recent kvs)"
    "lm_key_size ?m = meta_key_size meta"
    using lru_writes_entries [OF assms(1), of m0 "[]" kvs] new assms(3)
    by (auto simp: recent_def lru_wf_def)
  then show ?thesis
    using assms(4) lru_laws_simps(3) [OF assms(1), of "lm_data ?m" k]
    by (cases "lc_get c (lm_data ?m) k") (simp add: lru_lookup_def check_len_def)
qed

section \<open>An instance of the cache\<close>

text \<open>A list cache with the documented behaviour.\<close>

definition list_lru :: "(nat \<times> (string \<times> string) list) lru_cache" where
  "list_lru =
     \<lparr>lc_new = (\<lambda>n. (n, [])),
      lc_get = (\<lambda>(n, es) k. case map_of es k of None \<Rightarrow> (None, (n, es)) | Some v \<Rightarrow> (Some v, (n, (k, v) # others k es))),
      lc_contains = (\<lambda>(n, es) k. map_of es k \<noteq> None),
      lc_put = (\<lambda>(n, es) k v. (n, take n ((k, v) # others k es))),
      lc_pop = (\<lambda>(n, es) k. (n, others k es)),
      lc_iter = snd, lc_cap = fst\<rparr>"

lemma list_lru_laws: "lru_laws list_lru"
  by (auto simp: lru_laws_def list_lru_def split: option.splits)

definition lru_meta :: map_meta where
  "lru_meta =
     \<lparr>meta_map_type = MAP_LRU_HASH, meta_key_size = 1, meta_value_size = 1, meta_max_entries = 2,
      meta_map_flags = 0, meta_map_name = ''lru''\<rparr>"

definition lru_example :: "(string \<times> string) list \<Rightarrow> (nat \<times> (string \<times> string) list) lru_map" where
  "lru_example es = \<lparr>lm_key_size = 1, lm_value_size = 1, lm_data = (2, es)\<rparr>"

lemma new_lru_example: "LruMap_new list_lru lru_meta = Ok (lru_example [])"
  by (simp add: LruMap_new_def lru_meta_def lru_example_def list_lru_def)

lemma run_lru_example:
  "map_run (lru_ops list_lru) (lru_example []) (\<lambda>_. None)
     [Update ''a'' ''1'' 0, Update ''b'' ''2'' 0, Update ''c'' ''3'' 0] =
   (lru_example [(''c'', ''3''), (''b'', ''2'')],
    ((\<lambda>_. None)(''a'' \<mapsto> ''1''))(''b'' \<mapsto> ''2'', ''c'' \<mapsto> ''3''))"
  by (simp add: lru_ops_def fault_of_def lru_update_def commit_def check_len_def check_update_flags_def
      flags_from_bits_def has_bits_def update_flag_defs Let_def lru_example_def list_lru_def others_def)

theorem lru_map_no_stale_witness:
  "fst (lru_lookup list_lru (lru_example [(''c'', ''3''), (''b'', ''2'')]) ''b'') \<in> {Ok (Some ''2''), Ok None}"
  using lru_map_no_stale [OF list_lru_laws new_lru_example run_lru_example, of "''b''"]
  by (simp add: lru_meta_def)

theorem lru_keeps_recent_witness:
  "fst (lru_lookup list_lru (lru_writes list_lru [(''a'', ''1''), (''b'', ''2''), (''c'', ''3'')] (lru_example [])) ''a'') =
     Ok None"
  using lru_keeps_recent [OF list_lru_laws new_lru_example, of "[(''a'', ''1''), (''b'', ''2''), (''c'', ''3'')]" "''a''"]
  by (simp add: lru_meta_def recent_def others_def)

end
