(* ===== verification/RingMem.thy ===== *)
theory RingMem
  imports RustText
begin

text \<open>
  Circular byte memory: positions count without end and are taken modulo the size. The BPF ring
  buffer gets it from mapping its pages twice, the perf ring buffer from splitting its copies.
\<close>

fun ring_store :: "string \<Rightarrow> nat \<Rightarrow> string \<Rightarrow> string" where
  "ring_store d off [] = d"
| "ring_store d off (b # bs) = ring_store (d[off mod length d := b]) (Suc off) bs"

definition ring_load :: "string \<Rightarrow> nat \<Rightarrow> nat \<Rightarrow> string" where
  "ring_load d off n = map (\<lambda>i. d ! ((off + i) mod length d)) [0..<n]"

lemma length_ring_store [simp]: "length (ring_store d off bs) = length d"
  by (induction d off bs rule: ring_store.induct) auto

lemma length_ring_load [simp]: "length (ring_load d off n) = n"
  by (simp add: ring_load_def)

lemma nth_ring_load [simp]: "i < n \<Longrightarrow> ring_load d off n ! i = d ! ((off + i) mod length d)"
  by (simp add: ring_load_def)

lemma ring_load_mod: "ring_load d (off mod length d) n = ring_load d off n"
  by (simp add: ring_load_def mod_simps)

lemma ring_store_mod: "ring_store d (off mod length d) bs = ring_store d off bs"
proof (induction bs arbitrary: d off)
  case (Cons b bs)
  have "ring_store (d[off mod length d := b]) (Suc (off mod length d)) bs =
      ring_store (d[off mod length d := b]) (Suc off) bs"
    using Cons [of "d[off mod length d := b]" "Suc (off mod length d)"]
      Cons [of "d[off mod length d := b]" "Suc off"]
    by (simp add: mod_simps)
  then show ?case by (simp add: mod_simps)
qed simp

text \<open>Two positions less than a whole turn apart are different bytes.\<close>

lemma mod_neq: "i < j \<Longrightarrow> j < i + n \<Longrightarrow> i mod n \<noteq> j mod (n :: nat)"
proof
  assume "i < j" "j < i + n" "i mod n = j mod n"
  then have "n dvd j - i" by (metis mod_eq_dvd_iff_nat less_imp_le)
  moreover have "0 < j - i" "j - i < n" using \<open>i < j\<close> \<open>j < i + n\<close> by auto
  ultimately show False by (simp add: nat_dvd_not_less)
qed

lemma nth_ring_store_other:
  "(\<forall>i < length bs. (off + i) mod length d \<noteq> j) \<Longrightarrow> ring_store d off bs ! j = d ! j"
proof (induction bs arbitrary: d off)
  case (Cons b bs)
  have "off mod length d \<noteq> j" using Cons.prems by force
  moreover have "\<forall>i < length bs. (Suc off + i) mod length d \<noteq> j" using Cons.prems by force
  ultimately show ?case using Cons.IH [of "Suc off" "d[off mod length d := b]"] by simp
qed simp

lemma nth_ring_store_same:
  "i < length bs \<Longrightarrow> length bs \<le> length d \<Longrightarrow> ring_store d off bs ! ((off + i) mod length d) = bs ! i"
proof (induction bs arbitrary: d off i)
  case (Cons b bs)
  have d: "0 < length d" using Cons.prems by auto
  show ?case
  proof (cases i)
    case 0
    have "(Suc off + k) mod length d \<noteq> off mod length d" if "k < length bs" for k
      using mod_neq [of off "Suc off + k" "length d"] that Cons.prems by simp
    then show ?thesis
      using nth_ring_store_other [of bs "Suc off" "d[off mod length d := b]" "off mod length d"] 0 d by simp
  next
    case (Suc k)
    then show ?thesis using Cons.IH [of k "d[off mod length d := b]" "Suc off"] Cons.prems by simp
  qed
qed simp

lemma ring_load_store_same: "length bs \<le> length d \<Longrightarrow> ring_load (ring_store d off bs) off (length bs) = bs"
  by (rule nth_equalityI) (simp_all add: nth_ring_store_same)

lemma ring_load_store_after:
  "pos + n \<le> off \<Longrightarrow> off + length bs \<le> pos + length d \<Longrightarrow> ring_load (ring_store d off bs) pos n = ring_load d pos n"
proof (rule nth_equalityI, goal_cases)
  case (2 i)
  have "(off + k) mod length d \<noteq> (pos + i) mod length d" if "k < length bs" for k
    using mod_neq [of "pos + i" "off + k" "length d"] that 2 by simp
  then show ?case using 2 by (simp add: nth_ring_store_other)
qed simp

lemma ring_load_store_before:
  "off + length bs \<le> pos \<Longrightarrow> pos + n \<le> off + length d \<Longrightarrow> ring_load (ring_store d off bs) pos n = ring_load d pos n"
proof (rule nth_equalityI, goal_cases)
  case (2 i)
  have "(off + k) mod length d \<noteq> (pos + i) mod length d" if "k < length bs" for k
    using that 2 by (intro mod_neq) auto
  then show ?case using 2 by (simp add: nth_ring_store_other)
qed simp

lemma ring_store_append: "ring_store d off (as @ bs) = ring_store (ring_store d off as) (off + length as) bs"
  by (induction d off as rule: ring_store.induct) auto

lemma ring_load_append: "ring_load d off (m + n) = ring_load d off m @ ring_load d (off + m) n"
  by (rule nth_equalityI) (auto simp: nth_append add.assoc)

text \<open>A store that does not wrap is a splice.\<close>

lemma ring_store_splice:
  "off + length bs \<le> length d \<Longrightarrow> ring_store d off bs = take off d @ bs @ drop (off + length bs) d"
proof (induction bs arbitrary: d off)
  case (Cons b bs)
  then have off: "off < length d" by simp
  have "ring_store d off (b # bs) = take (Suc off) (d[off := b]) @ bs @ drop (Suc off + length bs) (d[off := b])"
    using Cons off by simp
  also have "take (Suc off) (d[off := b]) = take off d @ [b]" using off by (simp add: take_Suc_conv_app_nth)
  also have "drop (Suc off + length bs) (d[off := b]) = drop (Suc off + length bs) d" by simp
  finally show ?case by simp
qed simp

end
