(* ===== verification/RingBuf.thy ===== *)
theory RingBuf
  imports RingMem BpfMap
begin

text \<open>
  The BPF ring buffer of \<open>bpf-basic/src/map/stream/ringbuf.rs\<close>: creation with the double
  mapping of the data pages, reservation and commit of records, queries. The virtual memory of
  the data area is circular memory. Page allocation, mapping and the initial content of the pages
  come from the kernel and are parameters.
\<close>

section \<open>Masking\<close>

lemma unat_and_mask: "unat (x AND mask n) = unat x mod 2 ^ n"
  by (simp only: take_bit_eq_mask [symmetric] unsigned_take_bit_eq take_bit_eq_mod [of n "unat x"])

lemma and_not_mask: "x AND NOT (mask n) = push_bit n (drop_bit n x)"
  for x :: "'a::len word"
  by (rule bit_eqI) (auto simp: bit_simps)

lemma unat_and_not_mask: "unat (x AND NOT (mask n)) = unat x div 2 ^ n * 2 ^ n"
  for x :: "'a::len word"
proof -
  have "unat x div 2 ^ n * 2 ^ n \<le> unat x" by (rule div_times_less_eq_dividend)
  then have "unat x div 2 ^ n * 2 ^ n < 2 ^ LENGTH('a)" using unsigned_less [of x] by (rule le_less_trans)
  then show ?thesis
    by (simp only: and_not_mask unsigned_push_bit_eq unat_drop_bit_eq
        push_bit_eq_mult [of n "unat x div 2 ^ n"] drop_bit_eq_div [of n "unat x"] take_bit_nat_eq_self)
qed

section \<open>The ring buffer\<close>

definition RINGBUF_PGOFF :: nat where "RINGBUF_PGOFF = 1"
definition RINGBUF_NR_META_PAGES :: nat where "RINGBUF_NR_META_PAGES = 3"
definition RINGBUF_MAX_RECORD_SZ :: u32 where "RINGBUF_MAX_RECORD_SZ = 0x3FFFFFFF"
definition BPF_RINGBUF_BUSY_BIT :: u32 where "BPF_RINGBUF_BUSY_BIT = 0x80000000"
definition BPF_RINGBUF_DISCARD_BIT :: u32 where "BPF_RINGBUF_DISCARD_BIT = 0x40000000"
definition BPF_RINGBUF_HDR_SZ :: u64 where "BPF_RINGBUF_HDR_SZ = 8"
definition NUMA_NODE :: u32 where "NUMA_NODE = 4"
definition NO_WAKEUP :: u64 where "NO_WAKEUP = 1"
definition FORCE_WAKEUP :: u64 where "FORCE_WAKEUP = 2"

text \<open>
  The positions are those in the two shared pages. \<open>rb_data\<close> is the content of the data pages;
  \<open>rb_addr\<close> is the page-aligned virtual address of the structure, whose data area starts
  three pages further on. \<open>rb_wakeups\<close> counts the calls of the poll waker.
\<close>

record ringbuf =
  rb_addr :: u64
  rb_nr_pages :: u32
  rb_mask :: u64
  rb_pages :: "u64 list"
  rb_phys_addrs :: "u64 list"
  rb_consumer_pos :: u64
  rb_producer_pos :: u64
  rb_data :: string
  rb_wakeups :: nat

text \<open>What the kernel provides: the \<open>i\<close>-th page allocation, the mapping, the fresh memory.\<close>

record ring_kernel =
  alloc_page :: "nat \<Rightarrow> (bpf_error, u64) result"
  vmap :: "u64 list \<Rightarrow> (bpf_error, u64) result"
  fresh_mem :: "nat \<Rightarrow> char"

definition is_power_of_two :: "u32 \<Rightarrow> bool" where
  "is_power_of_two x = list_ex (\<lambda>k. x = 2 ^ k) [0..<32]"

definition is_page_aligned :: "u32 \<Rightarrow> bool" where
  "is_page_aligned x \<longleftrightarrow> x AND (4096 - 1) = 0"

text \<open>
  The loop that allocates the pages; a failed allocation gives back the pages held so far, which
  are dropped and thereby freed.
\<close>

fun page_loop ::
  "ring_kernel \<Rightarrow> nat \<Rightarrow> nat list \<Rightarrow> u64 list \<Rightarrow> u64 list \<Rightarrow> (bpf_error \<times> u64 list, u64 list \<times> u64 list) result" where
  "page_loop K nr_data [] pages phys = Ok (pages, phys)"
| "page_loop K nr_data (i # is) pages phys =
     (case alloc_page K i of
        Inl e \<Rightarrow> Err (e, pages)
      | Inr page \<Rightarrow>
          (let phys = phys[i := page];
               phys = (if RINGBUF_NR_META_PAGES \<le> i then phys[nr_data + i := page] else phys)
           in page_loop K nr_data is (pages @ [page]) phys))"

text \<open>\<open>RingBuf::new\<close>; next to its result, the pages that it freed.\<close>

definition RingBuf_new :: "ring_kernel \<Rightarrow> map_meta \<Rightarrow> (fault, ringbuf) result \<times> u64 list" where
  "RingBuf_new K meta =
     (if meta_map_flags meta AND NOT NUMA_NODE \<noteq> 0 then (Err (Fails EINVAL), [])
      else if meta_key_size meta \<noteq> 0 \<or> meta_value_size meta \<noteq> 0 \<or>
        \<not> is_power_of_two (meta_max_entries meta) \<or> \<not> is_page_aligned (meta_max_entries meta)
      then (Err (Fails EINVAL), [])
      else
        let nr_data = unat (drop_bit 12 (meta_max_entries meta));
            nr_pages = RINGBUF_NR_META_PAGES + nr_data
        in case page_loop K nr_data [0..<nr_pages] [] (replicate (RINGBUF_NR_META_PAGES + 2 * nr_data) 0) of
             Inl (e, held) \<Rightarrow> (Err (Fails e), held)
           | Inr (pages, phys) \<Rightarrow>
               (case vmap K phys of
                  Inl e \<Rightarrow> (Err (Fails e), pages)
                | Inr vaddr \<Rightarrow>
                    (Ok \<lparr>rb_addr = vaddr, rb_nr_pages = of_nat nr_pages,
                         rb_mask = ucast (meta_max_entries meta - 1), rb_pages = pages,
                         rb_phys_addrs = phys, rb_consumer_pos = 0, rb_producer_pos = 0,
                         rb_data = map (fresh_mem K) [0..<unat (meta_max_entries meta)],
                         rb_wakeups = 0\<rparr>, [])))"

definition ring_mem_usage :: "ringbuf \<Rightarrow> nat" where
  "ring_mem_usage rb = unat (rb_nr_pages rb) * 4096 + length (rb_pages rb) * 8"

definition total_data_size :: "ringbuf \<Rightarrow> u64" where
  "total_data_size rb = rb_mask rb + 1"

definition avail_data_size :: "ringbuf \<Rightarrow> u64" where
  "avail_data_size rb = rb_producer_pos rb - rb_consumer_pos rb"

definition data_pos :: "ringbuf \<Rightarrow> u64" where
  "data_pos rb = rb_addr rb + 0x3000"

lemma data_pos_update [simp]:
  "data_pos (rb\<lparr>rb_data := d\<rparr>) = data_pos rb" "data_pos (rb\<lparr>rb_producer_pos := n\<rparr>) = data_pos rb"
  by (simp_all add: data_pos_def)

text \<open>The page offset of a record header, and the way back from it to the structure.\<close>

definition bpf_ringbuf_rec_pg_off :: "ringbuf \<Rightarrow> u64 \<Rightarrow> u32" where
  "bpf_ringbuf_rec_pg_off rb hdr_ptr = ucast (drop_bit 12 (hdr_ptr - rb_addr rb))"

definition bpf_ringbuf_restore_from_rec :: "u64 \<Rightarrow> u32 \<Rightarrow> u64" where
  "bpf_ringbuf_restore_from_rec hdr_ptr pg_off = (hdr_ptr AND NOT (4096 - 1)) - push_bit 12 (ucast pg_off)"

text \<open>
  \<open>reserve\<close> returns the address of the payload. The slices are taken of the data area mapped
  twice; the second one is taken after the producer position has moved.
\<close>

definition ring_reserve :: "ringbuf \<Rightarrow> u64 \<Rightarrow> (fault, u64) result \<times> ringbuf" where
  "ring_reserve rb sz =
     (if ucast RINGBUF_MAX_RECORD_SZ < sz then (Err (Fails EINVAL), rb)
      else
        let total_size = sz + BPF_RINGBUF_HDR_SZ;
            aligned_size = (if total_size AND 7 \<noteq> 0 then (total_size + 8) AND NOT 7 else total_size)
        in if total_data_size rb < aligned_size then (Err (Fails EINVAL), rb)
        else
          let new_prod_pos = rb_producer_pos rb + aligned_size in
          if rb_mask rb < new_prod_pos - rb_consumer_pos rb then (Err (Fails ENOMEM), rb)
          else
            let prod_idx = rb_producer_pos rb AND rb_mask rb;
                start = unat prod_idx;
                area = unat (total_data_size rb) * 2
            in if area < start + 8 then (Err Panics, rb)
            else
              let len = ucast sz OR BPF_RINGBUF_BUSY_BIT;
                  pg_off = bpf_ringbuf_rec_pg_off rb (data_pos rb + prod_idx);
                  rb = rb\<lparr>rb_data := ring_store (rb_data rb) start (le_bytes 4 (unat len) @ le_bytes 4 (unat pg_off)),
                          rb_producer_pos := new_prod_pos\<rparr>
              in if area < start + 8 + unat sz then (Err Panics, rb)
              else (Ok (data_pos rb + prod_idx + BPF_RINGBUF_HDR_SZ), rb))"

text \<open>The caller's writes through the slice that \<open>reserve\<close> returned.\<close>

definition ring_write :: "ringbuf \<Rightarrow> u64 \<Rightarrow> string \<Rightarrow> ringbuf" where
  "ring_write rb sample bs = rb\<lparr>rb_data := ring_store (rb_data rb) (unat (sample - data_pos rb)) bs\<rparr>"

definition wake_up :: "ringbuf \<Rightarrow> ringbuf" where
  "wake_up rb = rb\<lparr>rb_wakeups := rb_wakeups rb + 1\<rparr>"

text \<open>
  \<open>commit\<close> finds the ring buffer through the page offset in the record. When it leads to
  another address the behaviour is undefined; the model panics there.
\<close>

definition ring_commit :: "ringbuf \<Rightarrow> u64 \<Rightarrow> u64 \<Rightarrow> bool \<Rightarrow> (fault, unit) result \<times> ringbuf" where
  "ring_commit rb sample flags discard =
     (let hdr_ptr = sample - BPF_RINGBUF_HDR_SZ;
          off = unat (hdr_ptr - data_pos rb);
          hdr_len = (of_nat (le_nat (ring_load (rb_data rb) off 4)) :: u32);
          pg_off = of_nat (le_nat (ring_load (rb_data rb) (off + 4) 4))
      in if bpf_ringbuf_restore_from_rec hdr_ptr pg_off \<noteq> rb_addr rb then (Err Panics, rb)
      else
        let new_len = hdr_len AND NOT BPF_RINGBUF_BUSY_BIT;
            new_len = (if discard then new_len OR BPF_RINGBUF_DISCARD_BIT else new_len);
            rb = rb\<lparr>rb_data := ring_store (rb_data rb) off (le_bytes 4 (unat new_len))\<rparr>;
            rec_pos = hdr_ptr - data_pos rb;
            cons_pos = rb_consumer_pos rb AND rb_mask rb
        in if has_bits flags FORCE_WAKEUP then (Ok (), wake_up rb)
        else if cons_pos = rec_pos \<and> \<not> has_bits flags NO_WAKEUP then (Ok (), wake_up rb)
        else (Ok (), rb))"

definition ring_mmap :: "ringbuf \<Rightarrow> nat \<Rightarrow> nat \<Rightarrow> (fault, u64 list) result" where
  "ring_mmap rb offset len =
     (let page_idx = (offset + RINGBUF_PGOFF * 4096) div 4096; range = len div 4096
      in or_panic (slice_of (rb_phys_addrs rb) page_idx (page_idx + range)))"

definition ring_readable :: "ringbuf \<Rightarrow> bool" where
  "ring_readable rb \<longleftrightarrow> rb_producer_pos rb \<noteq> rb_consumer_pos rb"

text \<open>Dropping the map: the pages that are freed, and the range that is unmapped.\<close>

definition ring_drop :: "ringbuf \<Rightarrow> u64 list \<times> u64 \<times> nat" where
  "ring_drop rb = (rb_pages rb, rb_addr rb, length (rb_phys_addrs rb))"

section \<open>Creation\<close>

lemma take_snoc:
  assumes "take (Suc (length xs)) ys = xs @ [x]"
  shows "take (length xs) ys = xs" "ys ! length xs = x"
proof -
  have "take (length xs) (take (Suc (length xs)) ys) = xs" by (simp add: assms)
  then show "take (length xs) ys = xs" by (simp add: min_def)
  have "take (Suc (length xs)) ys ! length xs = x" by (simp add: assms)
  then show "ys ! length xs = x" by simp
qed

lemma page_loop_Ok:
  "page_loop K nr_data [i..<n] pages phys = Ok (pages', phys') \<Longrightarrow> i \<le> n \<Longrightarrow> n = RINGBUF_NR_META_PAGES + nr_data \<Longrightarrow>
     length phys = RINGBUF_NR_META_PAGES + 2 * nr_data \<Longrightarrow> length pages = i \<Longrightarrow>
     take i phys = pages \<Longrightarrow>
     (\<forall>j. RINGBUF_NR_META_PAGES \<le> j \<longrightarrow> j < i \<longrightarrow> phys ! (nr_data + j) = pages ! j) \<Longrightarrow>
     length phys' = RINGBUF_NR_META_PAGES + 2 * nr_data \<and> length pages' = n \<and>
     (\<forall>j < n. alloc_page K j = Ok (pages' ! j) \<or> j < i) \<and> take i pages' = pages \<and>
     take n phys' = pages' \<and> (\<forall>j. RINGBUF_NR_META_PAGES \<le> j \<longrightarrow> j < n \<longrightarrow> phys' ! (nr_data + j) = pages' ! j)"
proof (induction "n - i" arbitrary: i pages phys)
  case 0
  then show ?case by auto
next
  case (Suc d)
  then have i: "i < n" by simp
  obtain page where p: "alloc_page K i = Ok page"
    using Suc.prems(1) i by (simp add: upt_conv_Cons split: sum.splits)
  let ?phys = "if RINGBUF_NR_META_PAGES \<le> i then phys[i := page, nr_data + i := page] else phys[i := page]"
  have loop: "page_loop K nr_data [Suc i..<n] (pages @ [page]) ?phys = Ok (pages', phys')"
    using Suc.prems(1) i p by (simp add: upt_conv_Cons Let_def)
  have t: "take (Suc i) ?phys = pages @ [page]"
    using Suc.prems i by (auto simp: take_Suc_conv_app_nth RINGBUF_NR_META_PAGES_def)
  have dbl: "\<forall>j. RINGBUF_NR_META_PAGES \<le> j \<longrightarrow> j < Suc i \<longrightarrow> ?phys ! (nr_data + j) = (pages @ [page]) ! j"
  proof (intro allI impI)
    fix j assume j: "RINGBUF_NR_META_PAGES \<le> j" "j < Suc i"
    show "?phys ! (nr_data + j) = (pages @ [page]) ! j"
    proof (cases "j = i")
      case True
      then show ?thesis using j i Suc.prems by (auto simp: nth_append)
    next
      case False
      then have "j < i" using j by simp
      moreover have "nr_data + j = i \<Longrightarrow> phys ! i = page \<or> True" by simp
      ultimately show ?thesis using j i Suc.prems by (auto simp: nth_append nth_list_update)
    qed
  qed
  have "d = n - Suc i" using Suc.hyps(2) by simp
  moreover have "length ?phys = RINGBUF_NR_META_PAGES + 2 * nr_data" using Suc.prems(4) by simp
  ultimately have IH: "length phys' = RINGBUF_NR_META_PAGES + 2 * nr_data \<and> length pages' = n \<and>
     (\<forall>j < n. alloc_page K j = Ok (pages' ! j) \<or> j < Suc i) \<and> take (Suc i) pages' = pages @ [page] \<and>
     take n phys' = pages' \<and> (\<forall>j. RINGBUF_NR_META_PAGES \<le> j \<longrightarrow> j < n \<longrightarrow> phys' ! (nr_data + j) = pages' ! j)"
    using Suc.hyps(1) [of "Suc i" "pages @ [page]" ?phys] loop Suc.prems(3,5) i t dbl by simp
  then have "take i pages' = pages" "pages' ! i = page"
    using take_snoc [of pages pages' page] Suc.prems(5) by auto
  with IH p show ?case by (metis less_antisym)
qed

text \<open>The pages held when an allocation fails are those allocated before it.\<close>

lemma page_loop_Err:
  "page_loop K nr_data [i..<n] pages phys = Err (e, held) \<Longrightarrow>
     \<exists>j. i \<le> j \<and> j < n \<and> alloc_page K j = Err e \<and>
       (\<forall>l. i \<le> l \<and> l < j \<longrightarrow> is_ok (alloc_page K l)) \<and>
       length held = length pages + (j - i) \<and> take (length pages) held = pages \<and>
       (\<forall>l. i \<le> l \<and> l < j \<longrightarrow> alloc_page K l = Ok (held ! (length pages + (l - i))))"
proof (induction "n - i" arbitrary: i pages phys)
  case 0
  then show ?case by simp
next
  case (Suc d)
  then have i: "i < n" by simp
  show ?case
  proof (cases "alloc_page K i")
    case (Inl e')
    then show ?thesis using Suc.prems i by (auto simp: upt_conv_Cons intro!: exI [of _ i])
  next
    case (Inr page)
    let ?phys = "if RINGBUF_NR_META_PAGES \<le> i then phys[i := page, nr_data + i := page] else phys[i := page]"
    have loop: "page_loop K nr_data [Suc i..<n] (pages @ [page]) ?phys = Err (e, held)"
      using Suc.prems(1) i Inr by (simp add: upt_conv_Cons Let_def)
    have "d = n - Suc i" using Suc.hyps(2) by simp
    from Suc.hyps(1) [OF this loop] obtain j where j: "Suc i \<le> j" "j < n" "alloc_page K j = Err e"
      "\<forall>l. Suc i \<le> l \<and> l < j \<longrightarrow> is_ok (alloc_page K l)"
      "length held = length (pages @ [page]) + (j - Suc i)" "take (length (pages @ [page])) held = pages @ [page]"
      "\<forall>l. Suc i \<le> l \<and> l < j \<longrightarrow> alloc_page K l = Ok (held ! (length (pages @ [page]) + (l - Suc i)))"
      by blast
    have held: "take (length pages) held = pages" "held ! length pages = page"
      using take_snoc [of pages held page] j(6) by auto
    have "is_ok (alloc_page K l) \<and> alloc_page K l = Ok (held ! (length pages + (l - i)))" if "i \<le> l" "l < j" for l
    proof (cases "l = i")
      case True
      then show ?thesis using Inr held by simp
    next
      case False
      then have "Suc i \<le> l" using that by simp
      moreover have "length (pages @ [page]) + (l - Suc i) = length pages + (l - i)" using \<open>Suc i \<le> l\<close> by simp
      ultimately show ?thesis using j(4,7) that(2) by metis
    qed
    then show ?thesis using j held by (intro exI [of _ j]) auto
  qed
qed

lemma power_page_aligned:
  assumes "is_power_of_two x" "is_page_aligned x"
  obtains k where "12 \<le> k" "k < 32" "x = 2 ^ k" "unat x = 2 ^ k"
proof -
  obtain k where k: "k < 32" "x = 2 ^ k" using assms(1) by (auto simp: is_power_of_two_def list_ex_iff)
  then have "x = of_nat (2 ^ k)" by simp
  then have "unat x = 2 ^ k mod 2 ^ 32" by (simp only: unat_of_nat) simp
  then have u: "unat x = 2 ^ k" using power_strict_increasing [OF k(1), of "2 :: nat"] by simp
  have "x AND mask 12 = 0" using assms(2) by (simp add: is_page_aligned_def mask_eq_exp_minus_1)
  then have "(2 ^ k :: nat) mod 2 ^ 12 = 0" using unat_and_mask [of x 12] u by simp
  then have "\<not> k < 12" using power_strict_increasing [of k 12 "2 :: nat"] by (auto simp del: power_strict_increasing_iff)
  then show thesis using k u by (intro that [of k]) simp_all
qed


definition ring_meta :: map_meta where
  "ring_meta =
     \<lparr>meta_map_type = MAP_RINGBUF, meta_key_size = 0, meta_value_size = 0, meta_max_entries = 4096,
      meta_map_flags = 0, meta_map_name = ''ring''\<rparr>"

text \<open>A kernel whose third allocation fails.\<close>

definition poor_kernel :: ring_kernel where
  "poor_kernel =
     \<lparr>alloc_page = (\<lambda>i. if i < 2 then Ok (of_nat i * 4096) else Err ENOMEM), vmap = (\<lambda>_. Err ENOMEM),
      fresh_mem = (\<lambda>_. CHR 0x00)\<rparr>"

lemma poor_creation: "RingBuf_new poor_kernel ring_meta = (Err (Fails ENOMEM), [0, 4096])"
proof -
  have "[0..<4] = [0, 1, 2, 3 :: nat]" by (simp add: upt_rec)
  moreover have "is_power_of_two 4096" by (simp add: is_power_of_two_def upt_rec)
  moreover have "unat (drop_bit 12 4096 :: u32) = 1" by (simp add: unat_drop_bit_eq drop_bit_eq_div)
  ultimately show ?thesis
    by (simp add: RingBuf_new_def ring_meta_def is_page_aligned_def poor_kernel_def RINGBUF_NR_META_PAGES_def Let_def)
qed


end
