(* ===== verification/RingRecords.thy ===== *)
theory RingRecords
  imports RingBuf
begin

text \<open>
  The records of the BPF ring buffer: an abstract view of the bytes between the consumer and the
  producer position as a list of records, and the proof that reservation, writing and commit
  implement the obvious operations on it. \<open>ring_output\<close> is \<open>bpf_ringbuf_output\<close> of
  \<open>bpf-basic/src/helper/ringbuf.rs\<close>.
\<close>

section \<open>The abstract view\<close>

datatype rec_state = Busy | Ready | Discarded

type_synonym ring_record = "rec_state \<times> string"

text \<open>A record takes its header and its payload, rounded up to 8 bytes.\<close>

definition rec_size :: "nat \<Rightarrow> nat" where "rec_size n = (n + 15) div 8 * 8"

definition hdr_word :: "rec_state \<Rightarrow> nat \<Rightarrow> u32" where
  "hdr_word st n =
     of_nat n OR (case st of Busy \<Rightarrow> BPF_RINGBUF_BUSY_BIT | Ready \<Rightarrow> 0 | Discarded \<Rightarrow> BPF_RINGBUF_DISCARD_BIT)"

definition total_size :: "ring_record list \<Rightarrow> nat" where
  "total_size rs = sum_list (map (\<lambda>(_, p). rec_size (length p)) rs)"

fun laid_out :: "string \<Rightarrow> nat \<Rightarrow> ring_record list \<Rightarrow> bool" where
  "laid_out d pos [] \<longleftrightarrow> True"
| "laid_out d pos ((st, p) # rs) \<longleftrightarrow>
     ring_load d pos 4 = le_bytes 4 (unat (hdr_word st (length p))) \<and>
     ring_load d (pos + 4) 4 = le_bytes 4 (3 + pos mod length d div 4096) \<and>
     ring_load d (pos + 8) (length p) = p \<and>
     laid_out d (pos + rec_size (length p)) rs"

definition ring_bits :: "ringbuf \<Rightarrow> nat \<Rightarrow> bool" where
  "ring_bits rb k \<longleftrightarrow>
     12 \<le> k \<and> k < 32 \<and> rb_mask rb = mask k \<and> length (rb_data rb) = 2 ^ k \<and> take_bit 12 (rb_addr rb) = 0"

definition ring_rep :: "ringbuf \<Rightarrow> ring_record list \<Rightarrow> bool" where
  "ring_rep rb rs \<longleftrightarrow>
     (\<exists>k. ring_bits rb k) \<and> laid_out (rb_data rb) (unat (rb_consumer_pos rb)) rs \<and>
     unat (rb_producer_pos rb - rb_consumer_pos rb) = total_size rs \<and>
     total_size rs < length (rb_data rb) \<and> (\<forall>(_, p) \<in> set rs. length p \<le> 0x3FFFFFFF)"

lemma rec_size_bounds: "n + 8 \<le> rec_size n" "rec_size n \<le> n + 15" "8 dvd rec_size n"
  by (auto simp: rec_size_def)

lemma total_size_simps [simp]:
  "total_size [] = 0"
  "total_size ((st, p) # rs) = rec_size (length p) + total_size rs"
  "total_size (rs @ rs') = total_size rs + total_size rs'"
  by (auto simp: total_size_def)

lemma total_size_zero: "total_size rs = 0 \<longleftrightarrow> rs = []"
proof (cases rs)
  case (Cons r rs')
  then show ?thesis using rec_size_bounds(1) [of "length (snd r)"] by (cases r) auto
qed simp

lemma laid_out_append [simp]:
  "laid_out d pos (rs @ rs') \<longleftrightarrow> laid_out d pos rs \<and> laid_out d (pos + total_size rs) rs'"
  by (induction d pos rs rule: laid_out.induct) (auto simp: add.assoc)

lemma ring_load_cong: "p mod length d = q mod length d \<Longrightarrow> ring_load d (p + i) n = ring_load d (q + i) n"
  by (metis mod_add_left_eq ring_load_mod)

lemma laid_out_cong: "p mod length d = q mod length d \<Longrightarrow> laid_out d p rs \<Longrightarrow> laid_out d q rs"
proof (induction rs arbitrary: p q)
  case (Cons r rs)
  obtain st x where r: "r = (st, x)" by (cases r)
  have m: "(p + i) mod length d = (q + i) mod length d" for i
    using Cons.prems(1) by (metis mod_add_left_eq)
  have l: "ring_load d (p + i) n = ring_load d (q + i) n" for i n
    using ring_load_cong [OF Cons.prems(1)] .
  have "laid_out d (q + rec_size (length x)) rs"
    using Cons.IH [OF m] Cons.prems(2) by (simp add: r)
  then show ?case
    using Cons.prems(2) l [of 4 4] l [of 8 "length x"] l [of 0 4] Cons.prems(1) by (simp add: r)
qed simp

text \<open>Stores outside the records leave them alone.\<close>

lemma laid_out_store_after:
  "pos + total_size rs \<le> off \<Longrightarrow> off + length bs \<le> pos + length d \<Longrightarrow> laid_out d pos rs \<Longrightarrow>
     laid_out (ring_store d off bs) pos rs"
proof (induction rs arbitrary: pos)
  case (Cons r rs)
  obtain st x where r: "r = (st, x)" by (cases r)
  then show ?case
    using Cons.prems Cons.IH [of "pos + rec_size (length x)"] rec_size_bounds(1) [of "length x"]
    by (auto simp: ring_load_store_after)
qed simp

lemma laid_out_store_before:
  "off + length bs \<le> pos \<Longrightarrow> pos + total_size rs \<le> off + length d \<Longrightarrow> laid_out d pos rs \<Longrightarrow>
     laid_out (ring_store d off bs) pos rs"
proof (induction rs arbitrary: pos)
  case (Cons r rs)
  obtain st x where r: "r = (st, x)" by (cases r)
  then show ?case
    using Cons.prems Cons.IH [of "pos + rec_size (length x)"] rec_size_bounds(1) [of "length x"]
    by (auto simp: ring_load_store_before)
qed simp

section \<open>Header words\<close>

lemma small_word_bit:
  assumes "n \<le> 0x3FFFFFFF" "30 \<le> i"
  shows "\<not> bit (of_nat n :: u32) i"
proof -
  have "n < 2 ^ 30" using assms(1) by simp
  then have "\<not> bit n i" using assms(2) by (metis bit_take_bit_iff not_le take_bit_nat_eq_self)
  then show ?thesis by (simp add: bit_of_nat_iff)
qed

lemma bit_ring_flags:
  "bit BPF_RINGBUF_BUSY_BIT i \<longleftrightarrow> i = 31" "bit BPF_RINGBUF_DISCARD_BIT i \<longleftrightarrow> i = 30"
proof -
  have b: "BPF_RINGBUF_BUSY_BIT = 2 ^ 31" by (simp add: BPF_RINGBUF_BUSY_BIT_def)
  have d: "BPF_RINGBUF_DISCARD_BIT = 2 ^ 30" by (simp add: BPF_RINGBUF_DISCARD_BIT_def)
  show "bit BPF_RINGBUF_BUSY_BIT i \<longleftrightarrow> i = 31" unfolding b bit_exp_iff by auto
  show "bit BPF_RINGBUF_DISCARD_BIT i \<longleftrightarrow> i = 30" unfolding d bit_exp_iff by auto
qed

lemma clear_busy:
  assumes "n \<le> 0x3FFFFFFF"
  shows "hdr_word Busy n AND NOT BPF_RINGBUF_BUSY_BIT = hdr_word Ready n"
    and "hdr_word Ready n OR BPF_RINGBUF_DISCARD_BIT = hdr_word Discarded n"
proof -
  show "hdr_word Busy n AND NOT BPF_RINGBUF_BUSY_BIT = hdr_word Ready n"
    using small_word_bit [OF assms]
    by (intro bit_eqI) (auto simp: hdr_word_def bit_simps bit_ring_flags)
  show "hdr_word Ready n OR BPF_RINGBUF_DISCARD_BIT = hdr_word Discarded n"
    by (simp add: hdr_word_def)
qed

lemma le_word: "of_nat (le_nat (le_bytes 4 (unat (w :: u32)))) = w"
proof -
  have "unat w < 2 ^ 32" using unsigned_less [of w] by simp
  then show ?thesis by (simp add: le_nat_le_bytes)
qed

section \<open>Positions\<close>

lemma ring_bits_simps:
  assumes "ring_bits rb k"
  shows "unat (total_data_size rb) = 2 ^ k" "unat (rb_mask rb) = 2 ^ k - 1" "length (rb_data rb) = 2 ^ k"
    and "unat (x AND rb_mask rb) = unat x mod 2 ^ k" "(2 :: nat) ^ k < 2 ^ 32" "(4096 :: nat) dvd 2 ^ k"
proof -
  have k: "12 \<le> k" "k < 32" and m: "rb_mask rb = mask k" using assms by (auto simp: ring_bits_def)
  show k32: "(2 :: nat) ^ k < 2 ^ 32" using k by (intro power_strict_increasing) simp_all
  have "total_data_size rb = of_nat (2 ^ k)" by (simp add: total_data_size_def m mask_eq_exp_minus_1)
  then have "unat (total_data_size rb) = 2 ^ k mod 2 ^ 64" by (simp only: unat_of_nat) simp
  then show t: "unat (total_data_size rb) = 2 ^ k" using k32 by simp
  show "unat (rb_mask rb) = 2 ^ k - 1" using k 
  proof -
    have "unat (of_nat (mask k) :: u64) = mask k mod 2 ^ 64" by (simp only: unat_of_nat) simp
    moreover have "(mask k :: nat) < 2 ^ 64" using k32 by (simp add: mask_eq_exp_minus_1)
    ultimately show ?thesis by (simp add: m of_nat_mask_eq mask_eq_exp_minus_1)
  qed
  show "length (rb_data rb) = 2 ^ k" using assms by (simp add: ring_bits_def)
  show "unat (x AND rb_mask rb) = unat x mod 2 ^ k" by (simp add: m unat_and_mask)
  have "(2 :: nat) ^ 12 dvd 2 ^ k" using k by (intro le_imp_power_dvd) simp
  then show "(4096 :: nat) dvd 2 ^ k" by simp
qed

lemma mod_word_size:
  assumes "ring_bits rb k"
  shows "n mod 2 ^ 64 mod 2 ^ k = (n :: nat) mod 2 ^ k"
  using assms by (intro mod_mod_cancel le_imp_power_dvd) (simp add: ring_bits_def)

lemma producer_index:
  assumes "ring_bits rb k" "unat (rb_producer_pos rb - rb_consumer_pos rb) = n"
  shows "unat (rb_producer_pos rb) mod 2 ^ k = (unat (rb_consumer_pos rb) + n) mod 2 ^ k"
proof -
  have "unat (rb_consumer_pos rb + (rb_producer_pos rb - rb_consumer_pos rb)) =
      (unat (rb_consumer_pos rb) + n) mod 2 ^ LENGTH(64)"
    unfolding assms(2) [symmetric] by (rule unat_word_ariths(1))
  then have "unat (rb_producer_pos rb) = (unat (rb_consumer_pos rb) + n) mod 2 ^ 64" by simp
  then show ?thesis using mod_word_size [OF assms(1)] by simp
qed

lemma page_offset_restores:
  assumes "take_bit 12 (rb_addr rb) = 0" "unat idx < 2 ^ 32"
  shows "bpf_ringbuf_rec_pg_off rb (data_pos rb + idx) = of_nat (3 + unat idx div 4096)"
    and "bpf_ringbuf_restore_from_rec (data_pos rb + idx) (of_nat (3 + unat idx div 4096)) = rb_addr rb"
proof -
  let ?y = "0x3000 + idx"
  have y: "unat ?y = 0x3000 + unat idx" using assms(2) by (simp add: unat_word_ariths)
  have pages: "unat ?y div 4096 = 3 + unat idx div 4096" unfolding y by simp
  have d: "unat (drop_bit 12 ?y) = 3 + unat idx div 4096"
    by (simp only: unat_drop_bit_eq drop_bit_eq_div [of 12 "unat ?y"]) (use pages in simp)
  have "3 + unat idx div 4096 < 2 ^ 32" using assms(2) by simp
  have off: "ucast (drop_bit 12 ?y) = (of_nat (3 + unat idx div 4096) :: u32)"
    by (simp only: d [symmetric] of_nat_unat)
  then show "bpf_ringbuf_rec_pg_off rb (data_pos rb + idx) = of_nat (3 + unat idx div 4096)"
    by (simp add: bpf_ringbuf_rec_pg_off_def data_pos_def add.assoc)
  have "unat (of_nat (3 + unat idx div 4096) :: u32) = 3 + unat idx div 4096"
    using \<open>3 + unat idx div 4096 < 2 ^ 32\<close> by (simp only: unat_of_nat) simp
  then have "ucast (of_nat (3 + unat idx div 4096) :: u32) = (of_nat (unat (drop_bit 12 ?y)) :: u64)"
    unfolding d by (metis of_nat_unat)
  then have "ucast (of_nat (3 + unat idx div 4096) :: u32) = drop_bit 12 ?y" by simp
  then have pg: "push_bit 12 (ucast (of_nat (3 + unat idx div 4096) :: u32)) = ?y - take_bit 12 ?y"
    using bits_ident [of 12 ?y] by (metis add_diff_cancel_right')
  have um: "unat (take_bit 12 x) = unat x mod 4096" for x :: u64
    using take_bit_eq_mod [of 12 "unat x"] by (simp only: unsigned_take_bit_eq) simp
  have "unat (rb_addr rb + ?y) mod 4096 = (unat (rb_addr rb) + unat ?y) mod 2 ^ 64 mod 4096"
    by (simp only: unat_word_ariths) simp
  also have "\<dots> = (unat (rb_addr rb) + unat ?y) mod 4096" by (intro mod_mod_cancel) simp
  also have "\<dots> = unat ?y mod 4096" using um [of "rb_addr rb"] assms(1) by (simp add: mod_add_left_eq [symmetric])
  finally have "unat (take_bit 12 (rb_addr rb + ?y)) = unat (take_bit 12 ?y)" by (simp only: um)
  then have low: "take_bit 12 (rb_addr rb + ?y) = take_bit 12 ?y" by (rule unsigned_word_eqI)
  have "(4096 - 1 :: u64) = mask 12" by (simp add: mask_eq_exp_minus_1)
  then have "(rb_addr rb + ?y) AND NOT (4096 - 1) = rb_addr rb + ?y - take_bit 12 (rb_addr rb + ?y)"
    using bits_ident [of 12 "rb_addr rb + ?y"] by (metis add_diff_cancel_right' and_not_mask)
  then show "bpf_ringbuf_restore_from_rec (data_pos rb + idx) (of_nat (3 + unat idx div 4096)) = rb_addr rb"
    unfolding bpf_ringbuf_restore_from_rec_def data_pos_def add.assoc pg low by simp
qed

section \<open>Reservation\<close>

lemma aligned_size:
  assumes "unat (sz :: u64) \<le> 0x3FFFFFFF"
  shows "(if (sz + 8) AND 7 \<noteq> 0 then (sz + 8 + 8) AND NOT 7 else sz + 8) = of_nat (rec_size (unat sz))"
proof -
  have m: "(7 :: u64) = mask 3" by (simp add: mask_eq_exp_minus_1)
  have u8: "unat (sz + 8) = unat sz + 8" and u16: "unat (sz + 8 + 8) = unat sz + 16"
    using assms by (simp_all add: unat_word_ariths)
  have z: "(sz + 8) AND 7 = 0 \<longleftrightarrow> (unat sz + 8) mod 8 = 0"
  proof -
    have "unat ((sz + 8) AND 7) = (unat sz + 8) mod 8"
      using unat_and_mask [of "sz + 8" 3] unfolding m [symmetric] u8 by simp
    then show ?thesis by (metis unat_0_iff)
  qed
  have n: "unat ((sz + 8 + 8) AND NOT 7) = (unat sz + 16) div 8 * 8"
    using unat_and_not_mask [of "sz + 8 + 8" 3] by (simp only: m [symmetric] u16) simp
  show ?thesis
  proof (cases "(unat sz + 8) mod 8 = 0")
    case True
    then have "rec_size (unat sz) = unat (sz + 8)" unfolding u8 rec_size_def by presburger
    then have "of_nat (rec_size (unat sz)) = sz + 8" by (metis of_nat_unat ucast_id)
    then show ?thesis using True z by simp
  next
    case False
    then have "rec_size (unat sz) = unat ((sz + 8 + 8) AND NOT 7)" unfolding n rec_size_def by presburger
    then have "of_nat (rec_size (unat sz)) = ((sz + 8 + 8) AND NOT 7)" by (metis of_nat_unat ucast_id)
    then show ?thesis using False z by (simp only: if_True not_False_eq_True simp_thms)
  qed
qed

lemma unat_rec_size:
  assumes "n \<le> 0x3FFFFFFF"
  shows "unat (of_nat (rec_size n) :: u64) = rec_size n"
  using assms rec_size_bounds(2) [of n] by (simp only: unat_of_nat) simp

lemma unat_small: "unat (sz :: u64) \<le> 0x3FFFFFFF \<Longrightarrow> unat (ucast sz :: u32) = unat sz"
  by (simp add: unsigned_ucast_eq take_bit_nat_eq_self)

lemma ring_reserve_eq:
  assumes k: "ring_bits rb k"
  shows "ring_reserve rb sz =
    (if 0x3FFFFFFF < unat sz \<or> 2 ^ k < rec_size (unat sz) then (Err (Fails EINVAL), rb)
     else if 2 ^ k \<le> unat (rb_producer_pos rb + of_nat (rec_size (unat sz)) - rb_consumer_pos rb)
     then (Err (Fails ENOMEM), rb)
     else let idx = unat (rb_producer_pos rb) mod 2 ^ k in
       (Ok (data_pos rb + of_nat idx + 8),
        rb\<lparr>rb_data := ring_store (rb_data rb) idx
             (le_bytes 4 (unat (hdr_word Busy (unat sz))) @ le_bytes 4 (3 + idx div 4096)),
           rb_producer_pos := rb_producer_pos rb + of_nat (rec_size (unat sz))\<rparr>))"
proof (cases "0x3FFFFFFF < unat sz")
  case True
  then show ?thesis by (simp add: ring_reserve_def RINGBUF_MAX_RECORD_SZ_def word_less_nat_alt)
next
  case False
  then have sz: "unat sz \<le> 0x3FFFFFFF" by simp
  note b = ring_bits_simps [OF k]
  have al: "(if (sz + BPF_RINGBUF_HDR_SZ) AND 7 \<noteq> 0 then (sz + BPF_RINGBUF_HDR_SZ + 8) AND NOT 7
      else sz + BPF_RINGBUF_HDR_SZ) = of_nat (rec_size (unat sz))"
    using aligned_size [OF sz] unfolding BPF_RINGBUF_HDR_SZ_def .
  have max: "\<not> ucast RINGBUF_MAX_RECORD_SZ < sz" using sz by (simp add: RINGBUF_MAX_RECORD_SZ_def word_less_nat_alt)
  have big: "total_data_size rb < of_nat (rec_size (unat sz)) \<longleftrightarrow> 2 ^ k < rec_size (unat sz)"
    by (simp only: word_less_nat_alt unat_rec_size [OF sz] b)
  have full: "rb_mask rb < x \<longleftrightarrow> 2 ^ k \<le> unat x" for x
    using one_le_power [of "2 :: nat" k] by (simp only: word_less_nat_alt b) linarith
  define idx where "idx = unat (rb_producer_pos rb) mod 2 ^ k"
  have idx: "unat (rb_producer_pos rb AND rb_mask rb) = idx" "idx < 2 ^ k" by (simp_all add: idx_def b)
  then have w: "rb_producer_pos rb AND rb_mask rb = of_nat idx" by (metis of_nat_unat ucast_id)
  have idx32: "idx < 2 ^ 32" using idx(2) b(5) by linarith
  have "bpf_ringbuf_rec_pg_off rb (data_pos rb + of_nat idx) = of_nat (3 + idx div 4096)"
    using page_offset_restores(1) [of rb "of_nat idx"] k idx32 idx(1) [unfolded w]
    by (simp add: ring_bits_def)
  moreover have "unat (of_nat (3 + idx div 4096) :: u32) = 3 + idx div 4096"
    using idx32 by (simp only: unat_of_nat) simp
  ultimately have pg: "unat (bpf_ringbuf_rec_pg_off rb (data_pos rb + of_nat idx)) = 3 + idx div 4096" by simp
  have len: "(ucast sz :: u32) OR BPF_RINGBUF_BUSY_BIT = hdr_word Busy (unat sz)"
    using unat_small [OF sz] by (simp add: hdr_word_def)
  show ?thesis
  proof (cases "2 ^ k < rec_size (unat sz)")
    case True
    then show ?thesis unfolding ring_reserve_def Let_def al using max big by simp
  next
    case False
    then have room: "\<not> unat (total_data_size rb) * 2 < idx + 8" "\<not> unat (total_data_size rb) * 2 < idx + 8 + unat sz"
      using rec_size_bounds(1) [of "unat sz"] idx(2) unfolding b(1) by linarith+
    show ?thesis
      unfolding ring_reserve_def Let_def al w idx(1) [unfolded w] pg len idx_def [symmetric]
      using False max big full room sz by (simp add: BPF_RINGBUF_HDR_SZ_def)
  qed
qed

text \<open>The address of the payload of the record that follows the records \<open>rs\<close>.\<close>

definition payload_ptr :: "ringbuf \<Rightarrow> ring_record list \<Rightarrow> u64" where
  "payload_ptr rb rs =
     data_pos rb + of_nat ((unat (rb_consumer_pos rb) + total_size rs) mod length (rb_data rb)) + 8"

lemma ring_rep_bits: "ring_rep rb rs \<Longrightarrow> \<exists>k. ring_bits rb k"
  by (simp add: ring_rep_def)

lemma new_total:
  assumes "ring_rep rb rs" "n \<le> 0x3FFFFFFF"
  shows "unat (rb_producer_pos rb + of_nat (rec_size n) - rb_consumer_pos rb) = total_size rs + rec_size n"
proof -
  obtain k where k: "ring_bits rb k" using assms(1) ring_rep_bits by blast
  have "total_size rs < 2 ^ 32" using assms(1) ring_bits_simps(3,5) [OF k] by (simp add: ring_rep_def)
  moreover have "rec_size n < 2 ^ 31" using assms(2) rec_size_bounds(2) [of n] by simp
  moreover have "rb_producer_pos rb + of_nat (rec_size n) - rb_consumer_pos rb =
      (rb_producer_pos rb - rb_consumer_pos rb) + of_nat (rec_size n)" by simp
  moreover have "unat (rb_producer_pos rb - rb_consumer_pos rb) = total_size rs"
    using assms(1) by (simp add: ring_rep_def)
  ultimately show ?thesis
    by (simp only: unat_word_ariths unat_rec_size [OF assms(2)]) simp
qed

lemma ring_reserve_rep:
  assumes "ring_rep rb rs" "ring_reserve rb sz = (r, rb')"
  shows "if unat sz \<le> 0x3FFFFFFF \<and> total_size rs + rec_size (unat sz) < length (rb_data rb)
    then \<exists>p. length p = unat sz \<and> r = Ok (payload_ptr rb rs) \<and> ring_rep rb' (rs @ [(Busy, p)])
    else r \<in> {Err (Fails EINVAL), Err (Fails ENOMEM)} \<and> rb' = rb"
proof -
  obtain k where k: "ring_bits rb k" using assms(1) ring_rep_bits by blast
  note b = ring_bits_simps [OF k]
  let ?s = "rec_size (unat sz)" and ?c = "unat (rb_consumer_pos rb)"
  show ?thesis
  proof (cases "unat sz \<le> 0x3FFFFFFF \<and> total_size rs + ?s < length (rb_data rb)")
    case False
    then have "r \<in> {Err (Fails EINVAL), Err (Fails ENOMEM)} \<and> rb' = rb"
      using assms(2) new_total [OF assms(1)] unfolding ring_reserve_eq [OF k] b(3)
      by (auto simp: Let_def not_less split: if_splits)
    then show ?thesis unfolding if_not_P [OF False] .
  next
    case True
    then have sz: "unat sz \<le> 0x3FFFFFFF" and room: "total_size rs + ?s < 2 ^ k" using b(3) by auto
    define idx where "idx = unat (rb_producer_pos rb) mod 2 ^ k"
    let ?hdr = "le_bytes 4 (unat (hdr_word Busy (unat sz))) @ le_bytes 4 (3 + idx div 4096)"
    let ?d = "ring_store (rb_data rb) idx ?hdr"
    have r: "r = Ok (data_pos rb + of_nat idx + 8)"
      and rb': "rb' = rb\<lparr>rb_data := ?d, rb_producer_pos := rb_producer_pos rb + of_nat ?s\<rparr>"
      using assms(2) new_total [OF assms(1) sz] room sz
      unfolding ring_reserve_eq [OF k] by (auto simp: Let_def idx_def)
    have idx: "idx = (?c + total_size rs) mod length (rb_data rb)"
      using producer_index [OF k, of "total_size rs"] assms(1) b(3) by (simp add: idx_def ring_rep_def)
    then have store: "?d = ring_store (rb_data rb) (?c + total_size rs) ?hdr"
      by (simp add: ring_store_mod)
    let ?p = "ring_load ?d (?c + total_size rs + 8) (unat sz)"
    have "laid_out ?d ?c rs"
      unfolding store using assms(1) room b(3) rec_size_bounds(1) [of "unat sz"]
      by (intro laid_out_store_after) (auto simp: ring_rep_def)
    moreover have hdr: "ring_load ?d (?c + total_size rs) 4 @ ring_load ?d (?c + total_size rs + 4) 4 = ?hdr"
      using ring_load_store_same [of ?hdr "rb_data rb" "?c + total_size rs"] b(3,6) room
        rec_size_bounds(1) [of "unat sz"] unfolding store
      by (simp flip: ring_load_append)
    ultimately have "laid_out ?d ?c (rs @ [(Busy, ?p)])"
      using idx by simp
    moreover have "ring_bits rb' k" using k by (simp add: rb' ring_bits_def)
    moreover have "unat (rb_producer_pos rb + of_nat ?s - rb_consumer_pos rb) = total_size rs + ?s"
      by (rule new_total [OF assms(1) sz])
    ultimately have "ring_rep rb' (rs @ [(Busy, ?p)])"
      using assms(1) sz room b(3) by (auto simp: ring_rep_def rb')
    then have "\<exists>p. length p = unat sz \<and> r = Ok (payload_ptr rb rs) \<and> ring_rep rb' (rs @ [(Busy, p)])"
      using r idx by (intro exI [of _ ?p]) (simp add: payload_ptr_def)
    then show ?thesis unfolding if_P [OF True] .
  qed
qed

text \<open>
  Reservation appends a busy record. It fails exactly when the payload is too large or there
  is no room for the record, and then changes nothing; otherwise it returns the address of the
  payload of a new record after all others, which leaves every other record as it was.
\<close>

theorem ring_reserve_appends:
  assumes "ring_rep rb rs" "ring_reserve rb sz = (r, rb')"
  shows "if unat sz \<le> 0x3FFFFFFF \<and> total_size rs + rec_size (unat sz) < length (rb_data rb)
    then \<exists>p. length p = unat sz \<and> r = Ok (payload_ptr rb rs) \<and> ring_rep rb' (rs @ [(Busy, p)])
    else r \<in> {Err (Fails EINVAL), Err (Fails ENOMEM)} \<and> rb' = rb"
  by (rule ring_reserve_rep [OF assms])

section \<open>Writing and committing\<close>

lemma unat_payload_off:
  assumes "ring_bits rb k"
  shows "unat (payload_ptr rb rs - 8 - data_pos rb) = (unat (rb_consumer_pos rb) + total_size rs) mod 2 ^ k"
    and "unat (payload_ptr rb rs - data_pos rb) = (unat (rb_consumer_pos rb) + total_size rs) mod 2 ^ k + 8"
proof -
  let ?i = "(unat (rb_consumer_pos rb) + total_size rs) mod 2 ^ k"
  have "?i < 2 ^ k" by simp
  then have i: "?i < 2 ^ 32" using ring_bits_simps(5) [OF assms] by (rule less_trans)
  then have u: "unat (of_nat ?i :: u64) = ?i" by (simp only: unat_of_nat) simp
  show "unat (payload_ptr rb rs - 8 - data_pos rb) = ?i"
    unfolding payload_ptr_def ring_bits_simps(3) [OF assms] using u by simp
  have "unat ((of_nat ?i :: u64) + 8) = ?i + 8" using i by (simp only: unat_word_ariths u) simp
  then show "unat (payload_ptr rb rs - data_pos rb) = ?i + 8"
    unfolding payload_ptr_def ring_bits_simps(3) [OF assms] by (simp add: add.assoc)
qed

lemma laid_out_replace:
  assumes "laid_out d c (as @ (st, p) # bs)" "total_size (as @ (st, p) # bs) < length d"
    and "off + length w \<le> rec_size (length p)"
  shows "laid_out (ring_store d (c + total_size as + off) w) c as"
    and "laid_out (ring_store d (c + total_size as + off) w) (c + total_size as + rec_size (length p)) bs"
proof -
  have lay: "laid_out d c as" "laid_out d (c + total_size as + rec_size (length p)) bs"
    and tot: "total_size as + rec_size (length p) + total_size bs < length d"
    using assms(1,2) by auto
  show "laid_out (ring_store d (c + total_size as + off) w) c as"
    using lay tot assms(3) by (intro laid_out_store_after) linarith+
  show "laid_out (ring_store d (c + total_size as + off) w) (c + total_size as + rec_size (length p)) bs"
    using lay tot assms(3) by (intro laid_out_store_before) linarith+
qed

text \<open>The slice that \<open>reserve\<close> returned is the payload of its record and nothing else.\<close>

lemma ring_write_payload:
  assumes "ring_rep rb (as @ (Busy, p) # bs)" "length w = length p"
  shows "ring_rep (ring_write rb (payload_ptr rb as) w) (as @ (Busy, w) # bs)"
proof -
  obtain k where k: "ring_bits rb k" using assms(1) ring_rep_bits by blast
  note b = ring_bits_simps [OF k]
  let ?c = "unat (rb_consumer_pos rb)" and ?s = "rec_size (length p)"
  let ?d = "ring_store (rb_data rb) (?c + total_size as + 8) w"
  have lay: "laid_out (rb_data rb) ?c (as @ (Busy, p) # bs)"
    and tot: "total_size as + ?s + total_size bs < length (rb_data rb)"
    using assms(1) by (auto simp: ring_rep_def)
  have s: "length p + 8 \<le> ?s" by (rule rec_size_bounds)
  have "ring_store (rb_data rb) ((?c + total_size as) mod 2 ^ k + 8) w = ?d"
    using ring_store_mod [of "rb_data rb" "(?c + total_size as) mod 2 ^ k + 8" w]
      ring_store_mod [of "rb_data rb" "?c + total_size as + 8" w] b(3)
    by (metis mod_add_left_eq)
  then have w: "ring_write rb (payload_ptr rb as) w = rb\<lparr>rb_data := ?d\<rparr>"
    by (simp add: ring_write_def unat_payload_off [OF k])
  have "laid_out ?d ?c as" "laid_out ?d (?c + total_size as + ?s) bs"
    using laid_out_replace [OF lay, of 8 w] tot s assms(2) by auto
  moreover have "ring_load ?d (?c + total_size as) 4 = ring_load (rb_data rb) (?c + total_size as) 4"
    "ring_load ?d (?c + total_size as + 4) 4 = ring_load (rb_data rb) (?c + total_size as + 4) 4"
    using tot s assms(2) by (auto intro!: ring_load_store_after)
  moreover have "ring_load ?d (?c + total_size as + 8) (length w) = w"
    using tot s assms(2) by (intro ring_load_store_same) auto
  ultimately have "laid_out ?d ?c (as @ (Busy, w) # bs)"
    using lay assms(2) by (simp add: add.assoc [symmetric])
  then show ?thesis
    using assms k by (auto simp: ring_rep_def w ring_bits_def)
qed

lemma ring_commit_rep:
  fixes flags :: u64 and discard :: bool
  assumes "ring_rep rb (as @ (Busy, p) # bs)"
  defines "wakes \<equiv> has_bits flags FORCE_WAKEUP \<or> as = [] \<and> \<not> has_bits flags NO_WAKEUP"
  shows "\<exists>rb'. ring_commit rb (payload_ptr rb as) flags discard = (Ok (), rb') \<and>
    ring_rep rb' (as @ (if discard then Discarded else Ready, p) # bs) \<and>
    rb_wakeups rb' = (if wakes then rb_wakeups rb + 1 else rb_wakeups rb) \<and>
    rb_consumer_pos rb' = rb_consumer_pos rb \<and> length (rb_data rb') = length (rb_data rb)"
proof -
  obtain k where k: "ring_bits rb k" using assms(1) ring_rep_bits by blast
  note b = ring_bits_simps [OF k]
  let ?c = "unat (rb_consumer_pos rb)" and ?s = "rec_size (length p)"
  let ?st = "if discard then Discarded else Ready"
  define idx where "idx = (?c + total_size as) mod 2 ^ k"
  have idx: "idx < 2 ^ 32" "unat (payload_ptr rb as - 8 - data_pos rb) = idx"
    using b(5) less_trans [of idx "2 ^ k" "2 ^ 32"] by (simp_all add: idx_def unat_payload_off [OF k])
  have ptr: "payload_ptr rb as - 8 = data_pos rb + of_nat idx"
    by (simp add: payload_ptr_def idx_def b(3))
  have lay: "laid_out (rb_data rb) ?c (as @ (Busy, p) # bs)"
    and tot: "total_size (as @ (Busy, p) # bs) < length (rb_data rb)" and len: "length p \<le> 0x3FFFFFFF"
    using assms(1) by (auto simp: ring_rep_def)
  have hdr: "ring_load (rb_data rb) idx 4 = le_bytes 4 (unat (hdr_word Busy (length p)))"
    "ring_load (rb_data rb) (idx + 4) 4 = le_bytes 4 (3 + idx div 4096)"
    using lay ring_load_mod [of "rb_data rb" "?c + total_size as" 4]
      ring_load_cong [of idx "rb_data rb" "?c + total_size as" 4 4]
    by (auto simp: idx_def b(3))
  have n32: "unat (of_nat (3 + idx div 4096) :: u32) = 3 + idx div 4096"
    using idx(1) by (simp only: unat_of_nat) simp
  have pg: "of_nat (le_nat (ring_load (rb_data rb) (idx + 4) 4)) = (of_nat (3 + idx div 4096) :: u32)"
    using le_word [of "of_nat (3 + idx div 4096)"] by (simp only: hdr(2) n32)
  have home: "bpf_ringbuf_restore_from_rec (payload_ptr rb as - 8) (of_nat (3 + idx div 4096)) = rb_addr rb"
    using page_offset_restores(2) [of rb "of_nat idx"] k idx ptr by (simp add: ring_bits_def)
  let ?w = "le_bytes 4 (unat (hdr_word ?st (length p)))"
  let ?d = "ring_store (rb_data rb) (?c + total_size as) ?w"
  have word: "(if discard then hdr_word Ready (length p) OR BPF_RINGBUF_DISCARD_BIT else hdr_word Ready (length p)) =
      hdr_word ?st (length p)"
    using clear_busy(2) [OF len] by simp
  have store: "ring_store (rb_data rb) idx ?w = ?d" by (simp add: idx_def ring_store_mod flip: b(3))
  have caught_up: "rb_consumer_pos rb AND rb_mask rb = of_nat idx \<longleftrightarrow> as = []"
  proof -
    have "rb_consumer_pos rb AND rb_mask rb = of_nat idx \<longleftrightarrow> ?c mod 2 ^ k = (?c + total_size as) mod 2 ^ k"
      using b(4) [of "rb_consumer_pos rb"] idx ptr
      by (metis add_diff_cancel_left' idx_def unsigned_word_eqI)
    moreover have "?c mod 2 ^ k \<noteq> (?c + total_size as) mod 2 ^ k" if "as \<noteq> []"
      using that total_size_zero [of as] tot b(3) by (intro mod_neq) auto
    ultimately show ?thesis by auto
  qed
  have commit: "ring_commit rb (payload_ptr rb as) flags discard =
      (Ok (), if wakes then wake_up (rb\<lparr>rb_data := ?d\<rparr>) else rb\<lparr>rb_data := ?d\<rparr>)"
    unfolding ring_commit_def BPF_RINGBUF_HDR_SZ_def Let_def idx(2) hdr(1) le_word pg clear_busy(1) [OF len] word store
    using home caught_up ptr by (simp add: wakes_def)
  have s: "length p + 8 \<le> ?s" by (rule rec_size_bounds)
  have "laid_out ?d ?c as" "laid_out ?d (?c + total_size as + ?s) bs"
    using laid_out_replace [OF lay tot, of 0 ?w] s by auto
  moreover have "ring_load ?d (?c + total_size as) 4 = ?w"
    using tot s ring_load_store_same [of ?w] by simp
  moreover have "ring_load ?d (?c + total_size as + 4) 4 = ring_load (rb_data rb) (?c + total_size as + 4) 4"
    "ring_load ?d (?c + total_size as + 8) (length p) = ring_load (rb_data rb) (?c + total_size as + 8) (length p)"
    using tot s by (auto intro!: ring_load_store_before)
  ultimately have "laid_out ?d ?c (as @ (?st, p) # bs)"
    using lay by (simp add: add.assoc [symmetric])
  then have "ring_rep (rb\<lparr>rb_data := ?d\<rparr>) (as @ (?st, p) # bs)"
    using assms(1) k by (auto simp: ring_rep_def ring_bits_def)
  then show ?thesis unfolding commit by (auto simp: wake_up_def ring_rep_def ring_bits_def)
qed

text \<open>
  C33: commit publishes a record and notifies. Committing the payload of a busy record removes its
  busy bit, or marks it as discarded, and changes no other record. The waker is called exactly
  when the wake-up is forced, or when the consumer has caught up to this record and the wake-up
  is not suppressed, so a consumer that waits for the record is always notified by default.
\<close>

theorem ring_commit_publishes:
  fixes flags :: u64 and discard :: bool
  assumes "ring_rep rb (as @ (Busy, p) # bs)"
  shows "\<exists>rb'. ring_commit rb (payload_ptr rb as) flags discard = (Ok (), rb') \<and>
    ring_rep rb' (as @ (if discard then Discarded else Ready, p) # bs) \<and>
    rb_wakeups rb' - rb_wakeups rb =
      of_bool (has_bits flags FORCE_WAKEUP \<or> as = [] \<and> \<not> has_bits flags NO_WAKEUP)"
proof -
  obtain rb' where "ring_commit rb (payload_ptr rb as) flags discard = (Ok (), rb')"
    "ring_rep rb' (as @ (if discard then Discarded else Ready, p) # bs)"
    "rb_wakeups rb' = (if has_bits flags FORCE_WAKEUP \<or> as = [] \<and> \<not> has_bits flags NO_WAKEUP
      then rb_wakeups rb + 1 else rb_wakeups rb)"
    using ring_commit_rep [OF assms, of flags discard] by blast
  then show ?thesis by (intro exI [of _ rb']) simp
qed

section \<open>Producing and consuming\<close>

text \<open>\<open>BpfRingbufFlags::from_bits\<close>: no bit outside the two flags.\<close>

definition ring_flags :: "u64 \<Rightarrow> (fault, u64) result" where
  "ring_flags bits = (if bits AND NOT (NO_WAKEUP OR FORCE_WAKEUP) = 0 then Ok bits else Err (Fails EINVAL))"

text \<open>\<open>bpf_ringbuf_output\<close> on the ring buffer of the map.\<close>

definition ring_output :: "ringbuf \<Rightarrow> string \<Rightarrow> u64 \<Rightarrow> (fault, unit) result \<times> ringbuf" where
  "ring_output rb data flags =
     (case ring_flags flags of
        Inl f \<Rightarrow> (Err f, rb)
      | Inr flags \<Rightarrow>
          (case ring_reserve rb (of_nat (length data)) of
             (Inl Panics, rb) \<Rightarrow> (Err Panics, rb)
           | (Inl _, rb) \<Rightarrow> (Err (Fails EAGAIN), rb)
           | (Inr sample, rb) \<Rightarrow> ring_commit (ring_write rb sample data) sample flags False))"

text \<open>
  The consumer in user space, as the protocol prescribes it: it stops at a busy record, skips a
  discarded one, and moves the consumer position past the record that it took.
\<close>

definition ring_consume :: "ringbuf \<Rightarrow> string option \<times> ringbuf" where
  "ring_consume rb =
     (let c = unat (rb_consumer_pos rb);
          len = (of_nat (le_nat (ring_load (rb_data rb) c 4)) :: u32);
          n = unat (len AND 0x3FFFFFFF)
      in if \<not> ring_readable rb \<or> len AND BPF_RINGBUF_BUSY_BIT \<noteq> 0 then (None, rb)
      else (if len AND BPF_RINGBUF_DISCARD_BIT \<noteq> 0 then None else Some (ring_load (rb_data rb) (c + 8) n),
            rb\<lparr>rb_consumer_pos := rb_consumer_pos rb + of_nat (rec_size n)\<rparr>))"

lemma payload_ptr_update [simp]:
  "payload_ptr (ring_write rb s w) rs = payload_ptr rb rs" "rb_consumer_pos (ring_write rb s w) = rb_consumer_pos rb"
  by (simp_all add: payload_ptr_def ring_write_def)

lemma ring_output_rep:
  assumes "ring_rep rb rs" "ring_output rb data flags = (r, rb')" "length data < 2 ^ 64"
  shows "if ring_flags flags = Ok flags \<and> length data \<le> 0x3FFFFFFF \<and>
      total_size rs + rec_size (length data) < length (rb_data rb)
    then r = Ok () \<and> ring_rep rb' (rs @ [(Ready, data)])
    else r \<in> {Err (Fails EINVAL), Err (Fails EAGAIN)} \<and> rb' = rb"
proof (cases "ring_flags flags")
  case (Inl f)
  then show ?thesis using assms(2) by (auto simp: ring_output_def ring_flags_def split: if_splits)
next
  case (Inr fl)
  then have fl: "fl = flags" by (simp add: ring_flags_def split: if_splits)
  have n: "unat (of_nat (length data) :: u64) = length data"
    using assms(3) by (simp only: unat_of_nat) simp
  obtain r1 rb1 where res: "ring_reserve rb (of_nat (length data)) = (r1, rb1)" by fastforce
  note app = ring_reserve_rep [OF assms(1) res, unfolded n]
  show ?thesis
  proof (cases "length data \<le> 0x3FFFFFFF \<and> total_size rs + rec_size (length data) < length (rb_data rb)")
    case False
    then have "r1 \<in> {Err (Fails EINVAL), Err (Fails ENOMEM)} \<and> rb1 = rb" using app unfolding if_not_P [OF False] by simp
    then show ?thesis using assms(2) Inr fl res False by (auto simp: ring_output_def)
  next
    case True
    then obtain p where p: "length p = length data" "r1 = Ok (payload_ptr rb rs)" "ring_rep rb1 (rs @ [(Busy, p)])"
      using app unfolding if_P [OF True] by blast
    obtain k where k: "ring_bits rb k" using assms(1) ring_rep_bits by blast
    have same: "payload_ptr rb rs = payload_ptr rb1 rs"
      using res p(2) unfolding ring_reserve_eq [OF k]
      by (auto simp: payload_ptr_def Let_def data_pos_def split: if_splits)
    have "ring_rep (ring_write rb1 (payload_ptr rb1 rs) data) (rs @ [(Busy, data)])"
      using ring_write_payload [of rb1 rs p "[]" data] p by simp
    from ring_commit_rep [OF this, of flags False]
    show ?thesis using assms(2) Inr fl res p(2) same True by (auto simp: ring_output_def)
  qed
qed

lemma hdr_word_parts:
  assumes "n \<le> 0x3FFFFFFF"
  shows "hdr_word st n AND BPF_RINGBUF_BUSY_BIT = 0 \<longleftrightarrow> st \<noteq> Busy"
    and "hdr_word st n AND BPF_RINGBUF_DISCARD_BIT = 0 \<longleftrightarrow> st \<noteq> Discarded"
    and "hdr_word st n AND 0x3FFFFFFF = of_nat n"
proof -
  note small = small_word_bit [OF assms]
  have bits: "bit (hdr_word st n) i \<longleftrightarrow>
      bit (of_nat n :: u32) i \<or> st = Busy \<and> i = 31 \<or> st = Discarded \<and> i = 30" for i
    by (cases st) (auto simp: hdr_word_def bit_or_iff bit_ring_flags)
  have "hdr_word st n AND BPF_RINGBUF_BUSY_BIT = (if st = Busy then BPF_RINGBUF_BUSY_BIT else 0)"
    by (rule bit_eqI) (use small in \<open>auto simp: bit_and_iff bits bit_ring_flags\<close>)
  moreover have "hdr_word st n AND BPF_RINGBUF_DISCARD_BIT = (if st = Discarded then BPF_RINGBUF_DISCARD_BIT else 0)"
    by (rule bit_eqI) (use small in \<open>auto simp: bit_and_iff bits bit_ring_flags\<close>)
  moreover have "BPF_RINGBUF_BUSY_BIT \<noteq> 0" "BPF_RINGBUF_DISCARD_BIT \<noteq> 0"
    by (simp_all add: BPF_RINGBUF_BUSY_BIT_def BPF_RINGBUF_DISCARD_BIT_def)
  ultimately show "hdr_word st n AND BPF_RINGBUF_BUSY_BIT = 0 \<longleftrightarrow> st \<noteq> Busy"
    "hdr_word st n AND BPF_RINGBUF_DISCARD_BIT = 0 \<longleftrightarrow> st \<noteq> Discarded"
    by simp_all
  have m: "(0x3FFFFFFF :: u32) = mask 30" by (simp add: mask_eq_exp_minus_1)
  have "hdr_word st n AND mask 30 = of_nat n"
  proof (rule bit_eqI)
    show "bit (hdr_word st n AND mask 30) i = bit (of_nat n :: u32) i" if "possible_bit TYPE(32 word) i" for i
      using that small [of i] by (cases "30 \<le> i") (auto simp: bit_and_iff bits bit_mask_iff)
  qed
  then show "hdr_word st n AND 0x3FFFFFFF = of_nat n" unfolding m .
qed

lemma ring_advance:
  assumes "ring_rep rb ((st, p) # rs)"
  shows "ring_rep (rb\<lparr>rb_consumer_pos := rb_consumer_pos rb + of_nat (rec_size (length p))\<rparr>) rs"
proof -
  obtain k where k: "ring_bits rb k" using assms ring_rep_bits by blast
  note b = ring_bits_simps [OF k]
  let ?c = "rb_consumer_pos rb" and ?s = "rec_size (length p)"
  have len: "length p \<le> 0x3FFFFFFF" and tot: "?s + total_size rs < length (rb_data rb)"
    and u: "unat (rb_producer_pos rb - ?c) = ?s + total_size rs"
    and lay: "laid_out (rb_data rb) (unat ?c + ?s) rs"
    using assms by (auto simp: ring_rep_def)
  have "unat (?c + of_nat ?s) = (unat ?c + unat (of_nat ?s :: u64)) mod 2 ^ LENGTH(64)"
    by (rule unat_word_ariths(1))
  then have "unat (?c + of_nat ?s) = (unat ?c + ?s) mod 2 ^ LENGTH(64)" by (simp only: unat_rec_size [OF len])
  then have pos: "unat (?c + of_nat ?s) mod 2 ^ k = (unat ?c + ?s) mod 2 ^ k"
    using mod_word_size [OF k, of "unat ?c + ?s"] by simp
  have "laid_out (rb_data rb) (unat (?c + of_nat ?s)) rs"
    using laid_out_cong [OF _ lay] pos b(3) by simp
  moreover have "unat (rb_producer_pos rb - (?c + of_nat ?s)) = total_size rs"
  proof -
    have "(of_nat ?s :: u64) \<le> rb_producer_pos rb - ?c"
      by (simp add: word_le_nat_alt unat_rec_size [OF len] u)
    then have "unat (rb_producer_pos rb - ?c - of_nat ?s) = ?s + total_size rs - ?s"
      by (simp only: unat_sub unat_rec_size [OF len] u)
    then show ?thesis by (simp add: diff_diff_eq)
  qed
  ultimately show ?thesis using assms k tot by (auto simp: ring_rep_def ring_bits_def)
qed

lemma ring_consume_rep:
  assumes "ring_rep rb rs"
  shows "case rs of
      [] \<Rightarrow> ring_consume rb = (None, rb)
    | (st, p) # rs' \<Rightarrow>
        (if st = Busy then ring_consume rb = (None, rb)
         else \<exists>rb'. ring_consume rb = (if st = Ready then Some p else None, rb') \<and> ring_rep rb' rs')"
proof (cases rs)
  case Nil
  then have "unat (rb_producer_pos rb - rb_consumer_pos rb) = 0" using assms by (simp add: ring_rep_def)
  then have "rb_producer_pos rb = rb_consumer_pos rb" by (metis unat_0_iff eq_iff_diff_eq_0)
  then show ?thesis using Nil by (simp add: ring_consume_def ring_readable_def Let_def)
next
  case (Cons r rs')
  obtain st p where r: "r = (st, p)" by (cases r)
  let ?c = "unat (rb_consumer_pos rb)"
  have len: "length p \<le> 0x3FFFFFFF"
    and hdr: "ring_load (rb_data rb) ?c 4 = le_bytes 4 (unat (hdr_word st (length p)))"
    and pay: "ring_load (rb_data rb) (?c + 8) (length p) = p"
    and u: "unat (rb_producer_pos rb - rb_consumer_pos rb) = rec_size (length p) + total_size rs'"
    using assms Cons r by (auto simp: ring_rep_def)
  have "unat (rb_producer_pos rb - rb_consumer_pos rb) \<noteq> 0" using u rec_size_bounds(1) [of "length p"] by linarith
  then have readable: "ring_readable rb" by (auto simp: ring_readable_def)
  have n: "unat (hdr_word st (length p) AND 0x3FFFFFFF) = length p"
    unfolding hdr_word_parts(3) [OF len] using len by (simp only: unat_of_nat) simp
  show ?thesis
    unfolding Cons r list.case prod.case ring_consume_def Let_def hdr le_word n pay
    using hdr_word_parts(1,2) [OF len, of st] readable ring_advance [of rb st p rs'] assms Cons r
    by (cases st) auto
qed

datatype ring_call = Output string u64 | Consume

text \<open>A producer and a consumer taking turns, with the payloads accepted and those consumed.\<close>

fun ring_run :: "ringbuf \<Rightarrow> ring_call list \<Rightarrow> ringbuf \<times> string list \<times> string list" where
  "ring_run rb [] = (rb, [], [])"
| "ring_run rb (Output data flags # cs) =
     (let (r, rb1) = ring_output rb data flags; (rb', ins, outs) = ring_run rb1 cs
      in (rb', if is_ok r then data # ins else ins, outs))"
| "ring_run rb (Consume # cs) =
     (let (r, rb1) = ring_consume rb; (rb', ins, outs) = ring_run rb1 cs
      in (rb', ins, case r of None \<Rightarrow> outs | Some p \<Rightarrow> p # outs))"

lemma ring_run_fifo:
  "ring_rep rb (map (Pair Ready) ps) \<Longrightarrow> ring_run rb cs = (rb', ins, outs) \<Longrightarrow>
     (\<forall>data flags. Output data flags \<in> set cs \<longrightarrow> length data < 2 ^ 64) \<Longrightarrow>
     \<exists>qs. ps @ ins = outs @ qs \<and> ring_rep rb' (map (Pair Ready) qs)"
proof (induction cs arbitrary: rb ps ins outs)
  case (Cons c cs)
  have small: "\<forall>data flags. Output data flags \<in> set cs \<longrightarrow> length data < 2 ^ 64"
    using Cons.prems(3) by (meson list.set_intros(2))
  show ?case
  proof (cases c)
    case (Output data flags)
    obtain r rb1 where o: "ring_output rb data flags = (r, rb1)" by fastforce
    obtain ins1 where rest: "ring_run rb1 cs = (rb', ins1, outs)"
      and ins: "ins = (if is_ok r then [data] else []) @ ins1"
      using Cons.prems(2) Output o by (auto split: prod.splits)
    have "length data < 2 ^ 64" using Cons.prems(3) Output by simp
    from ring_output_rep [OF Cons.prems(1) o this] Cons.prems(1)
    have "ring_rep rb1 (map (Pair Ready) (ps @ (if is_ok r then [data] else [])))"
      by (auto split: if_splits)
    from Cons.IH [OF this rest small] show ?thesis by (simp add: ins)
  next
    case Consume
    obtain r rb1 where o: "ring_consume rb = (r, rb1)" by fastforce
    obtain outs1 where rest: "ring_run rb1 cs = (rb', ins, outs1)"
      and outs: "outs = (case r of None \<Rightarrow> [] | Some p \<Rightarrow> [p]) @ outs1"
      using Cons.prems(2) Consume o by (auto split: prod.splits option.splits)
    note step = ring_consume_rep [OF Cons.prems(1)]
    show ?thesis
    proof (cases ps)
      case Nil
      then have "rb1 = rb" "r = None" using step o by auto
      with Cons.IH [OF Cons.prems(1) _ small] rest outs show ?thesis by auto
    next
      case p: (Cons p ps')
      then have "r = Some p" "ring_rep rb1 (map (Pair Ready) ps')" using step o by auto
      with Cons.IH [OF this(2) rest small] outs p show ?thesis by auto
    qed
  qed
qed auto

lemma ring_new_rep:
  assumes "RingBuf_new K meta = (Ok rb, freed)" "take_bit 12 (rb_addr rb) = 0"
  shows "ring_rep rb []"
proof -
  have al: "is_power_of_two (meta_max_entries meta)" "is_page_aligned (meta_max_entries meta)"
    and rb: "rb_mask rb = ucast (meta_max_entries meta - 1)" "length (rb_data rb) = unat (meta_max_entries meta)"
      "rb_consumer_pos rb = 0" "rb_producer_pos rb = 0"
    using assms(1) by (auto simp: RingBuf_new_def Let_def split: if_splits sum.splits)
  obtain k where k: "12 \<le> k" "k < 32" "meta_max_entries meta = 2 ^ k" "unat (meta_max_entries meta) = 2 ^ k"
    using power_page_aligned [OF al] by blast
  have "rb_mask rb = ucast (mask k :: u32)" by (simp add: rb(1) k(3) mask_eq_exp_minus_1)
  also have "\<dots> = mask k" using k(2) by (simp add: ucast_mask_eq)
  finally have "ring_bits rb k" using k rb(2) assms(2) by (simp add: ring_bits_def)
  then show ?thesis using rb k(4) by (auto simp: ring_rep_def)
qed

text \<open>
  C8: the ring buffer is a lossless first-in first-out channel. On a new ring buffer, mapped at
  a page boundary, every interleaving of outputs and consumer steps delivers the accepted
  payloads unchanged, in order and once: what has been consumed is the beginning of what has been
  accepted, and the rest is still in the buffer as ready records.
\<close>

theorem ring_channel_fifo:
  assumes "RingBuf_new K meta = (Ok rb0, freed)" "take_bit 12 (rb_addr rb0) = 0"
    and "ring_run rb0 cs = (rb, ins, outs)" "\<forall>data flags. Output data flags \<in> set cs \<longrightarrow> length data < 2 ^ 64"
  shows "\<exists>rest. ins = outs @ rest \<and> ring_rep rb (map (Pair Ready) rest)"
  using ring_run_fifo [of rb0 "[]" cs rb ins outs] ring_new_rep [OF assms(1,2)] assms(3,4) by simp

section \<open>An example\<close>

definition fresh_kernel :: ring_kernel where
  "fresh_kernel =
     \<lparr>alloc_page = (\<lambda>i. Ok (of_nat i * 4096)), vmap = (\<lambda>_. Ok 0x10000), fresh_mem = (\<lambda>_. CHR 0x00)\<rparr>"

definition fresh_ring :: ringbuf where
  "fresh_ring =
     \<lparr>rb_addr = 0x10000, rb_nr_pages = 4, rb_mask = 4095, rb_pages = [0, 4096, 8192, 12288],
      rb_phys_addrs = [0, 4096, 8192, 12288, 12288], rb_consumer_pos = 0, rb_producer_pos = 0,
      rb_data = map (\<lambda>_. CHR 0x00) [0..<4096], rb_wakeups = 0\<rparr>"

lemma new_fresh_ring: "RingBuf_new fresh_kernel ring_meta = (Ok fresh_ring, [])"
proof -
  have u: "[0..<4] = [0, 1, 2, 3 :: nat]" by (simp add: upt_rec)
  have p: "is_power_of_two 4096" by (simp add: is_power_of_two_def upt_rec)
  have d: "unat (drop_bit 12 4096 :: u32) = 1" by (simp add: unat_drop_bit_eq drop_bit_eq_div)
  have r: "replicate 5 (0 :: u64) = [0, 0, 0, 0, 0]" by (simp add: eval_nat_numeral)
  show ?thesis
    using u p d r
    by (simp add: RingBuf_new_def ring_meta_def is_page_aligned_def fresh_kernel_def fresh_ring_def
        RINGBUF_NR_META_PAGES_def Let_def del: upt_Suc)
qed

lemma fresh_ring_aligned: "take_bit 12 (rb_addr fresh_ring) = 0"
  by (simp add: fresh_ring_def)

lemma fresh_ring_rep: "ring_rep fresh_ring []"
  by (rule ring_new_rep [OF new_fresh_ring fresh_ring_aligned])

lemma fresh_ring_reserve: "\<exists>p rb. length p = 2 \<and> ring_rep rb [(Busy, p)]"
proof -
  obtain r rb where res: "ring_reserve fresh_ring 2 = (r, rb)" by fastforce
  from ring_reserve_rep [OF fresh_ring_rep this]
  show ?thesis by (auto simp: rec_size_def fresh_ring_def)
qed

theorem ring_reserve_appends_witness:
  "\<exists>rb. fst (ring_reserve fresh_ring 2) = Ok (payload_ptr fresh_ring []) \<and> snd (ring_reserve fresh_ring 2) = rb \<and>
     rb \<noteq> fresh_ring"
proof -
  obtain r rb where res: "ring_reserve fresh_ring 2 = (r, rb)" by fastforce
  from ring_reserve_appends [OF fresh_ring_rep this]
  obtain p where p: "r = Ok (payload_ptr fresh_ring [])" "ring_rep rb [(Busy, p)]"
    by (auto simp: rec_size_def fresh_ring_def)
  have "rb \<noteq> fresh_ring"
  proof
    assume "rb = fresh_ring"
    then have "rec_size (length p) = 0" using p(2) fresh_ring_rep by (simp add: ring_rep_def)
    then show False using rec_size_bounds(1) [of "length p"] by simp
  qed
  then show ?thesis using res p(1) by simp
qed

theorem ring_commit_publishes_witness:
  "\<exists>rb rb' p. ring_commit rb (payload_ptr rb []) 0 False = (Ok (), rb') \<and> ring_rep rb' [(Ready, p)] \<and>
     rb_wakeups rb' - rb_wakeups rb = 1"
proof -
  obtain p rb where "ring_rep rb ([] @ (Busy, p) # [])" using fresh_ring_reserve by auto
  from ring_commit_publishes [OF this, of 0 False] show ?thesis
    by (auto simp: has_bits_def FORCE_WAKEUP_def NO_WAKEUP_def)
qed

lemma fresh_ring_run: "\<exists>rb. ring_run fresh_ring [Output ''hi'' 0, Consume] = (rb, [''hi''], [''hi''])"
proof -
  obtain r rb where o: "ring_output fresh_ring ''hi'' 0 = (r, rb)" by fastforce
  have "r = Ok ()" "ring_rep rb [(Ready, ''hi'')]"
    using ring_output_rep [OF fresh_ring_rep o]
    by (auto simp: ring_flags_def rec_size_def fresh_ring_def)
  with o ring_consume_rep [of rb "[(Ready, ''hi'')]"] show ?thesis by (auto split: prod.splits)
qed

theorem ring_channel_fifo_witness:
  "\<exists>rb. ring_run fresh_ring [Output ''hi'' 0, Consume] = (rb, [''hi''], [''hi'']) \<and> ring_rep rb []"
proof -
  obtain rb where run: "ring_run fresh_ring [Output ''hi'' 0, Consume] = (rb, [''hi''], [''hi''])"
    using fresh_ring_run by blast
  from ring_channel_fifo [OF new_fresh_ring fresh_ring_aligned this] run show ?thesis by auto
qed

end
