(* ===== verification/PerfRing.thy ===== *)
theory PerfRing
  imports RingMem BpfMap "HOL-Library.Sublist"
begin

text \<open>
  The perf ring buffer of \<open>bpf-basic/src/perf/bpf.rs\<close> and the record headers of
  \<open>perf/util.rs\<close>: writing samples and lost-sample records into the memory shared with user
  space. \<open>usize\<close> and \<open>u64\<close> arithmetic wraps as in a release build.
\<close>

section \<open>The page and its records\<close>

text \<open>
  \<open>rp_tail\<close>, \<open>rp_head\<close>, \<open>rp_data_offset\<close> and \<open>rp_data_size\<close> are the fields of the
  \<open>perf_event_mmap_page\<close> at the start of the area; user space moves the tail. \<open>rp_data\<close> is
  the data region after the first page.
\<close>

record ring_page =
  rp_size :: u64
  rp_ptr :: u64
  data_region_size :: u64
  rp_lost :: u64
  rp_data_offset :: u64
  rp_data_size :: u64
  rp_tail :: u64
  rp_head :: u64
  rp_data :: string

definition RingPage_empty :: ring_page where
  "RingPage_empty =
     \<lparr>rp_size = 0, rp_ptr = 0, data_region_size = 0, rp_lost = 0, rp_data_offset = 0,
      rp_data_size = 0, rp_tail = 0, rp_head = 0, rp_data = []\<rparr>"

text \<open>\<open>mem\<close> is the content of the mapped area after its first page.\<close>

definition RingPage_init :: "u64 \<Rightarrow> u64 \<Rightarrow> (nat \<Rightarrow> char) \<Rightarrow> (fault, ring_page) result" where
  "RingPage_init ptr len mem =
     (if len mod 4096 \<noteq> 0 \<or> \<not> 2 \<le> len div 4096 then Err Panics
      else Ok \<lparr>rp_size = len, rp_ptr = ptr, data_region_size = len - 4096, rp_lost = 0,
               rp_data_offset = 4096, rp_data_size = len - 4096, rp_tail = 0, rp_head = 0,
               rp_data = map mem [0..<unat (len - 4096)]\<rparr>)"

definition can_write :: "ring_page \<Rightarrow> u64 \<Rightarrow> u64 \<Rightarrow> u64 \<Rightarrow> bool" where
  "can_write rp data_size data_tail data_head \<longleftrightarrow> data_size \<le> data_region_size rp - data_head + data_tail"

text \<open>The sizes of \<open>perf_event_header\<close>, \<open>SampleHeader\<close> and \<open>LostSamples\<close>.\<close>

definition PERF_HEADER :: nat where "PERF_HEADER = 8"
definition SAMPLE_HEADER :: nat where "SAMPLE_HEADER = 12"
definition LOST_SAMPLES :: nat where "LOST_SAMPLES = 24"
definition PERF_RECORD_LOST :: nat where "PERF_RECORD_LOST = 2"
definition PERF_RECORD_SAMPLE :: nat where "PERF_RECORD_SAMPLE = 9"

text \<open>\<open>perf_event_header\<close> in memory: the type, \<open>misc = 0\<close> and the size.\<close>

definition event_header :: "nat \<Rightarrow> u16 \<Rightarrow> string" where
  "event_header ty sz = le_bytes 4 ty @ le_bytes 2 0 @ le_bytes 2 (unat sz)"

definition sample_header_bytes :: "nat \<Rightarrow> u64 \<Rightarrow> string" where
  "sample_header_bytes n fill =
     event_header PERF_RECORD_SAMPLE (of_nat SAMPLE_HEADER + of_nat n + ucast fill) @ le_bytes 4 (unat (of_nat n :: u32))"

definition lost_bytes :: "u64 \<Rightarrow> u64 \<Rightarrow> string" where
  "lost_bytes count fill =
     event_header PERF_RECORD_LOST (of_nat LOST_SAMPLES + ucast fill) @ le_bytes 8 0 @ le_bytes 8 (unat count)"

definition calculate_size :: "nat \<Rightarrow> u64" where
  "calculate_size n = of_nat SAMPLE_HEADER + of_nat n"

section \<open>Writing\<close>

text \<open>
  \<open>write_any\<close> with its two cases; \<open>copy_from_slice\<close> panics on different lengths and a slice
  out of range panics.
\<close>

definition write_any :: "ring_page \<Rightarrow> string \<Rightarrow> u64 \<Rightarrow> (fault, ring_page) result" where
  "write_any rp data data_head =
     (let region = data_region_size rp;
          d = rp_data rp;
          start = unat (data_head mod region);
          stop = unat ((data_head + of_nat (length data)) mod region)
      in if start < stop then
           and_then (or_panic (slice_of d start stop)) (\<lambda>old.
           and_then (copy_from_slice old data) (\<lambda>new.
             Ok (rp\<lparr>rp_data := take start d @ new @ drop stop d\<rparr>)))
         else
           let first_len = unat region - start in
           and_then (or_panic (slice_of data 0 first_len)) (\<lambda>first.
           and_then (or_panic (slice_of d start (start + first_len))) (\<lambda>old.
           and_then (copy_from_slice old first) (\<lambda>new.
           let d = take start d @ new @ drop (start + first_len) d in
           and_then (or_panic (slice_of d 0 stop)) (\<lambda>old.
           and_then (copy_from_slice old (drop first_len data)) (\<lambda>new.
             Ok (rp\<lparr>rp_data := new @ drop stop d\<rparr>)))))))"

definition fill_size :: "ring_page \<Rightarrow> u64 \<Rightarrow> u64" where
  "fill_size rp data_head_mod =
     (if data_region_size rp - data_head_mod < of_nat PERF_HEADER then data_region_size rp - data_head_mod else 0)"

definition write_sample :: "ring_page \<Rightarrow> string \<Rightarrow> u64 \<Rightarrow> (fault, u64 \<times> ring_page) result" where
  "write_sample rp data data_head =
     (let sample_size = calculate_size (length data);
          maybe_end = (data_head + sample_size) mod data_region_size rp;
          fill = fill_size rp maybe_end
      in and_then (write_any rp (sample_header_bytes (length data) fill) data_head) (\<lambda>rp.
         and_then (write_any rp data (data_head + of_nat SAMPLE_HEADER)) (\<lambda>rp.
           Ok (data_head + sample_size + fill, rp))))"

definition write_lost :: "ring_page \<Rightarrow> u64 \<Rightarrow> (fault, u64 \<times> ring_page) result" where
  "write_lost rp data_head =
     (let maybe_end = (data_head + of_nat LOST_SAMPLES) mod data_region_size rp;
          fill = fill_size rp maybe_end
      in and_then (write_any rp (lost_bytes (rp_lost rp) fill) data_head) (\<lambda>rp.
           Ok (data_head + of_nat LOST_SAMPLES + fill, rp)))"

text \<open>
  \<open>write_event\<close>: a pending count of lost samples is written first, and the event is then tried
  again. The result is the new page; a panic leaves none.
\<close>

function perf_write_event :: "ring_page \<Rightarrow> string \<Rightarrow> (fault, ring_page) result" where
  "perf_write_event rp data =
     (if can_write rp (of_nat PERF_HEADER) (rp_tail rp) (rp_head rp) then
        if 0 < rp_lost rp \<and> can_write rp (of_nat LOST_SAMPLES) (rp_tail rp) (rp_head rp) then
          and_then (write_lost rp (rp_head rp)) (\<lambda>(new_data_head, rp).
            perf_write_event (rp\<lparr>rp_head := new_data_head, rp_lost := 0\<rparr>) data)
        else if can_write rp (calculate_size (length data)) (rp_tail rp) (rp_head rp) then
          and_then (write_sample rp data (rp_head rp)) (\<lambda>(new_data_head, rp).
            Ok (rp\<lparr>rp_head := new_data_head\<rparr>))
        else Ok (rp\<lparr>rp_lost := rp_lost rp + 1\<rparr>)
      else Ok (rp\<lparr>rp_lost := rp_lost rp + 1\<rparr>))"
  by pat_completeness auto
termination
  by (relation "measure (\<lambda>(rp, data). unat (rp_lost rp))") (auto simp: unat_gt_0)

declare perf_write_event.simps [simp del]

definition page_readable :: "ring_page \<Rightarrow> bool" where
  "page_readable rp \<longleftrightarrow> rp_tail rp \<noteq> rp_head rp"

section \<open>Perf events\<close>

record perf_event =
  pe_enabled :: bool
  mmap_page :: ring_page
  mmap_offset :: u64

definition BpfPerfEvent_new :: perf_event where
  "BpfPerfEvent_new = \<lparr>pe_enabled = False, mmap_page = RingPage_empty, mmap_offset = 0\<rparr>"

definition do_mmap :: "perf_event \<Rightarrow> u64 \<Rightarrow> u64 \<Rightarrow> u64 \<Rightarrow> (nat \<Rightarrow> char) \<Rightarrow> (fault, perf_event) result" where
  "do_mmap e start len offset mem =
     and_then (RingPage_init start len mem) (\<lambda>rp. Ok (e\<lparr>mmap_page := rp, mmap_offset := offset\<rparr>))"

definition event_write :: "perf_event \<Rightarrow> string \<Rightarrow> (fault, perf_event) result" where
  "event_write e data =
     (if pe_enabled e then and_then (perf_write_event (mmap_page e) data) (\<lambda>rp. Ok (e\<lparr>mmap_page := rp\<rparr>))
      else Ok e)"

definition event_enable :: "perf_event \<Rightarrow> perf_event" where "event_enable e = e\<lparr>pe_enabled := True\<rparr>"
definition event_disable :: "perf_event \<Rightarrow> perf_event" where "event_disable e = e\<lparr>pe_enabled := False\<rparr>"
definition event_readable :: "perf_event \<Rightarrow> bool" where "event_readable e = page_readable (mmap_page e)"

section \<open>A write is a circular store\<close>

definition page_wf :: "ring_page \<Rightarrow> bool" where
  "page_wf rp \<longleftrightarrow>
     length (rp_data rp) = unat (data_region_size rp) \<and> 4096 \<le> length (rp_data rp) \<and>
     length (rp_data rp) < 2 ^ 32"

lemma page_wf_update [simp]:
  "length d = length (rp_data rp) \<Longrightarrow> page_wf (rp\<lparr>rp_data := d\<rparr>) = page_wf rp"
  "page_wf (rp\<lparr>rp_head := h\<rparr>) = page_wf rp" "page_wf (rp\<lparr>rp_tail := h\<rparr>) = page_wf rp"
  "page_wf (rp\<lparr>rp_lost := l\<rparr>) = page_wf rp"
  by (simp_all add: page_wf_def)

lemma ring_store_wrap:
  assumes "s < length d" "length bs = length d - s + m" "m \<le> s"
  shows "ring_store d s bs =
    drop (length d - s) bs @ drop m (take s d @ take (length d - s) bs @ drop (length d) d)"
proof -
  define as and cs where "as = take (length d - s) bs" and "cs = drop (length d - s) bs"
  have bs: "bs = as @ cs" by (simp add: as_def cs_def)
  have len: "length as = length d - s" "length cs = m" using assms(2) by (simp_all add: as_def cs_def)
  have "ring_store d s as = take s d @ as @ drop (length d) d"
    using ring_store_splice [of s as d] len assms(1) by simp
  then have d: "ring_store d s as = take s d @ as" by simp
  have "ring_store d s bs = ring_store (ring_store d s as) (length (ring_store d s as)) cs"
    using ring_store_append [of d s as cs] len assms(1) by (simp add: bs)
  also have "\<dots> = ring_store (ring_store d s as) 0 cs"
    using ring_store_mod [of "ring_store d s as" "length (ring_store d s as)" cs] by simp
  also have "\<dots> = cs @ drop m (take s d @ as)"
    using ring_store_splice [of 0 cs "ring_store d s as"] len assms(1,3) by (simp add: d)
  finally show ?thesis by (simp add: as_def cs_def)
qed

lemma write_any_store:
  assumes "page_wf rp" "data \<noteq> []" "length data \<le> length (rp_data rp)" "unat h + length data < 2 ^ 64"
  shows "write_any rp data h = Ok (rp\<lparr>rp_data := ring_store (rp_data rp) (unat h) data\<rparr>)"
proof -
  let ?d = "rp_data rp" let ?n = "length (rp_data rp)"
  let ?s = "unat h mod ?n" and ?e = "(unat h + length data) mod ?n"
  have n: "unat (data_region_size rp) = ?n" "0 < ?n" using assms(1) by (auto simp: page_wf_def)
  have s: "unat (h mod data_region_size rp) = ?s" by (simp add: unat_mod_distrib n)
  have "unat (h + of_nat (length data)) = unat h + length data"
    using assms(4) by (simp add: unat_word_ariths unsigned_of_nat take_bit_nat_eq_self)
  then have e: "unat ((h + of_nat (length data)) mod data_region_size rp) = ?e"
    by (simp add: unat_mod_distrib n)
  have sn: "?s < ?n" using n by simp
  have e_eq: "?e = (if ?s + length data < ?n then ?s + length data else ?s + length data - ?n)"
  proof -
    have "?e = (?s + length data) mod ?n" by (simp add: mod_add_left_eq)
    moreover have "a mod m = (if a < m then a else a - m)" if "a < m + m" for a m :: nat
      using that by (simp add: le_mod_geq)
    moreover have "?s + length data < ?n + ?n" using sn assms(3) by linarith
    ultimately show ?thesis by metis
  qed
  have store: "ring_store ?d (unat h) data = ring_store ?d ?s data" by (simp add: ring_store_mod)
  show ?thesis
  proof (cases "?s + length data < ?n")
    case True
    then have lt: "?s < ?e" and e1: "?e = ?s + length data" using e_eq assms(2) by simp_all
    have "slice_of ?d ?s ?e = Ok (bslice ?d ?s ?e)" "length (bslice ?d ?s ?e) = length data"
      using True e1 by simp_all
    moreover have "ring_store ?d ?s data = take ?s ?d @ data @ drop ?e ?d"
      using ring_store_splice [of ?s data ?d] True e1 by simp
    ultimately show ?thesis
      using lt by (simp add: write_any_def Let_def s e store copy_from_slice_def)
  next
    case False
    let ?k = "?n - ?s"
    have ge: "\<not> ?s < ?e" and e2: "?e = ?s + length data - ?n" using e_eq assms(3) False by simp_all
    have len: "length data = ?k + ?e" "?e \<le> ?s" using e2 False sn ge by simp_all
    let ?d' = "take ?s ?d @ take ?k data @ drop (?s + ?k) ?d"
    have d': "length ?d' = ?n" using len sn by simp
    have "ring_store ?d ?s data = drop ?k data @ drop ?e ?d'"
      using ring_store_wrap [OF sn len] sn by simp
    moreover have "slice_of data 0 ?k = Ok (take ?k data)"
      using len(1) by (simp add: slice_of_def bslice_def)
    moreover have "slice_of ?d ?s (?s + ?k) = Ok (bslice ?d ?s (?s + ?k))"
      "length (bslice ?d ?s (?s + ?k)) = length (take ?k data)"
      using sn len(1) by simp_all
    moreover have "slice_of ?d' 0 ?e = Ok (bslice ?d' 0 ?e)" "length (bslice ?d' 0 ?e) = length (drop ?k data)"
      using d' len sn by (simp_all only: slice_of_Ok length_bslice le0 length_drop)
    ultimately show ?thesis
      unfolding write_any_def Let_def s e n(1) store copy_from_slice_def if_not_P [OF ge]
      by (simp only: or_panic_simps and_then_simps if_True refl)
  qed
qed

section \<open>The records in the buffer\<close>

datatype perf_rec = Sample string | Lost u64

fun rec_len :: "perf_rec \<Rightarrow> nat" where
  "rec_len (Sample v) = SAMPLE_HEADER + length v"
| "rec_len (Lost c) = LOST_SAMPLES"

fun rec_bytes :: "perf_rec \<Rightarrow> nat \<Rightarrow> string" where
  "rec_bytes (Sample v) fill = sample_header_bytes (length v) (of_nat fill) @ v"
| "rec_bytes (Lost c) fill = lost_bytes c (of_nat fill)"

text \<open>The bytes skipped at the end of the region, so that no header is split.\<close>

definition fill_at :: "nat \<Rightarrow> nat \<Rightarrow> nat" where
  "fill_at n pos = (if n - pos mod n < PERF_HEADER then n - pos mod n else 0)"

definition rec_end :: "nat \<Rightarrow> nat \<Rightarrow> perf_rec \<Rightarrow> nat" where
  "rec_end n pos r = pos + rec_len r + fill_at n (pos + rec_len r)"

fun perf_end :: "nat \<Rightarrow> nat \<Rightarrow> perf_rec list \<Rightarrow> nat" where
  "perf_end n pos [] = pos"
| "perf_end n pos (r # rs) = perf_end n (rec_end n pos r) rs"

fun perf_laid :: "string \<Rightarrow> nat \<Rightarrow> perf_rec list \<Rightarrow> bool" where
  "perf_laid d pos [] \<longleftrightarrow> True"
| "perf_laid d pos (r # rs) \<longleftrightarrow>
     ring_load d pos (rec_len r) = rec_bytes r (fill_at (length d) (pos + rec_len r)) \<and>
     perf_laid d (rec_end (length d) pos r) rs"

definition boundary :: "nat \<Rightarrow> nat \<Rightarrow> bool" where
  "boundary n pos \<longleftrightarrow> PERF_HEADER \<le> n - pos mod n"

text \<open>The size field of a header holds the size of its record.\<close>

fun rec_fits :: "perf_rec \<Rightarrow> bool" where
  "rec_fits (Sample v) \<longleftrightarrow> v \<noteq> [] \<and> length v \<le> 65516"
| "rec_fits (Lost c) \<longleftrightarrow> True"

definition perf_rep :: "ring_page \<Rightarrow> perf_rec list \<Rightarrow> bool" where
  "perf_rep rp rs \<longleftrightarrow>
     page_wf rp \<and> boundary (length (rp_data rp)) (unat (rp_tail rp)) \<and>
     perf_laid (rp_data rp) (unat (rp_tail rp)) rs \<and> list_all rec_fits rs \<and>
     unat (rp_head rp) = perf_end (length (rp_data rp)) (unat (rp_tail rp)) rs \<and>
     unat (rp_head rp) \<le> unat (rp_tail rp) + length (rp_data rp)"

lemma length_rec_bytes [simp]: "length (rec_bytes r f) = rec_len r"
  by (cases r) (simp_all add: sample_header_bytes_def lost_bytes_def event_header_def SAMPLE_HEADER_def LOST_SAMPLES_def)

lemma rec_end_ge: "pos + rec_len r \<le> rec_end n pos r"
  by (simp add: rec_end_def)

lemma rec_len_pos: "8 < rec_len r"
  by (cases r) (auto simp: SAMPLE_HEADER_def LOST_SAMPLES_def)

lemma perf_end_ge: "pos \<le> perf_end n pos rs"
proof (induction rs arbitrary: pos)
  case (Cons r rs)
  have "pos \<le> rec_end n pos r" using rec_end_ge [of pos r n] by linarith
  also have "\<dots> \<le> perf_end n (rec_end n pos r) rs" by (rule Cons.IH)
  finally show ?case by simp
qed simp

lemma perf_append [simp]:
  "perf_end n pos (rs @ rs') = perf_end n (perf_end n pos rs) rs'"
  "perf_laid d pos (rs @ rs') \<longleftrightarrow> perf_laid d pos rs \<and> perf_laid d (perf_end (length d) pos rs) rs'"
  by (induction rs arbitrary: pos) auto

lemma perf_laid_store_after:
  "perf_laid d pos rs \<Longrightarrow> perf_end (length d) pos rs \<le> off \<Longrightarrow> off + length bs \<le> pos + length d \<Longrightarrow>
     perf_laid (ring_store d off bs) pos rs"
proof (induction rs arbitrary: pos)
  case (Cons r rs)
  have "rec_end (length d) pos r \<le> off"
    using Cons.prems(2) perf_end_ge [of "rec_end (length d) pos r" "length d" rs] by simp
  then have "ring_load (ring_store d off bs) pos (rec_len r) = ring_load d pos (rec_len r)"
    using rec_end_ge [of pos r "length d"] Cons.prems(3) by (intro ring_load_store_after) auto
  then show ?case
    using Cons.prems Cons.IH [of "rec_end (length d) pos r"] rec_end_ge [of pos r "length d"] by simp
qed simp

lemma boundary_rec_end:
  assumes "PERF_HEADER \<le> n"
  shows "boundary n (rec_end n pos r)"
proof (cases "n - (pos + rec_len r) mod n < PERF_HEADER")
  case True
  have "(pos + rec_len r) mod n < n" using assms by (simp add: PERF_HEADER_def)
  then have "(pos + rec_len r + (n - (pos + rec_len r) mod n)) mod n = 0"
    by (metis add.commute le_add_diff_inverse2 less_imp_le mod_add_left_eq mod_self)
  then show ?thesis using assms True by (simp add: boundary_def rec_end_def fill_at_def)
next
  case False
  then show ?thesis by (simp add: boundary_def rec_end_def fill_at_def)
qed

text \<open>The bytes skipped still lie in front of the tail.\<close>

lemma fill_room:
  assumes "boundary n t" "0 < n" "t \<le> e" "e \<le> t + n"
  shows "e + fill_at n e \<le> t + n"
proof (cases "n - e mod n < PERF_HEADER")
  case True
  let ?k = "n - e mod n"
  show ?thesis
  proof (rule ccontr)
    assume "\<not> ?thesis"
    then have gt: "t + n < e + ?k" using True by (simp add: fill_at_def)
    define j where "j = t + n - e"
    have j: "t + n = e + j" "j < ?k" using gt assms(4) by (auto simp: j_def)
    have "e mod n + j < n" using j(2) by linarith
    then have "t mod n = e mod n + j"
      by (metis j(1) mod_add_left_eq mod_add_self2 mod_less)
    then have "n - t mod n \<le> ?k" by linarith
    then show False using assms(1) True by (simp add: boundary_def)
  qed
next
  case False
  then show ?thesis using assms(4) by (simp add: fill_at_def)
qed

section \<open>Appending a record\<close>

lemma perf_append_rec:
  assumes rep: "perf_rep rp rs" and r: "rec_fits r"
    and room: "unat (rp_head rp) + rec_len r \<le> unat (rp_tail rp) + length (rp_data rp)"
    and small: "unat (rp_head rp) < 2 ^ 63"
  defines "f \<equiv> fill_at (length (rp_data rp)) (unat (rp_head rp) + rec_len r)"
  shows "perf_rep (rp\<lparr>rp_data := ring_store (rp_data rp) (unat (rp_head rp)) (rec_bytes r f),
      rp_head := rp_head rp + of_nat (rec_len r + f)\<rparr>) (rs @ [r])"
    and "unat (rp_head rp + of_nat (rec_len r + f)) = unat (rp_head rp) + rec_len r + f"
proof -
  let ?n = "length (rp_data rp)" and ?h = "unat (rp_head rp)" and ?t = "unat (rp_tail rp)"
  let ?d = "ring_store (rp_data rp) ?h (rec_bytes r f)"
  have wf: "4096 \<le> ?n" "?n < 2 ^ 32" and b: "boundary ?n ?t" and lay: "perf_laid (rp_data rp) ?t rs"
    and h: "?h = perf_end ?n ?t rs"
    using rep by (auto simp: perf_rep_def page_wf_def)
  have th: "?t \<le> ?h" using h perf_end_ge by simp
  have f: "?h + rec_len r + f \<le> ?t + ?n"
  proof -
    have n0: "0 < ?n" using wf by linarith
    show ?thesis using fill_room [OF b n0, of "?h + rec_len r"] room th unfolding f_def by linarith
  qed
  have "rec_len r + f < 2 ^ 64" using f th wf by simp
  then have u: "unat (of_nat (rec_len r + f) :: u64) = rec_len r + f"
    by (simp only: unat_of_nat) simp
  have "?h + (rec_len r + f) < 2 ^ 64" using f th wf small by simp
  then show head: "unat (rp_head rp + of_nat (rec_len r + f)) = ?h + rec_len r + f"
    by (simp only: unat_word_ariths u) simp
  have "ring_load ?d ?h (rec_len r) = rec_bytes r f"
    using ring_load_store_same [of "rec_bytes r f" "rp_data rp" ?h] f th by simp
  moreover have "perf_laid ?d ?t rs"
    using perf_laid_store_after [OF lay, of ?h "rec_bytes r f"] h room by simp
  ultimately have "perf_laid ?d ?t (rs @ [r])" using h by (simp add: f_def)
  moreover have "rec_end ?n ?h r = ?h + rec_len r + f" by (simp add: rec_end_def f_def)
  ultimately show "perf_rep (rp\<lparr>rp_data := ?d, rp_head := rp_head rp + of_nat (rec_len r + f)\<rparr>) (rs @ [r])"
    using rep r head f h by (simp add: perf_rep_def)
qed

lemma can_write_room:
  assumes "perf_rep rp rs"
  shows "can_write rp sz (rp_tail rp) (rp_head rp) \<longleftrightarrow>
    unat (rp_head rp) + unat sz \<le> unat (rp_tail rp) + length (rp_data rp)"
proof -
  let ?n = "length (rp_data rp)"
  have th: "unat (rp_tail rp) \<le> unat (rp_head rp)" "unat (rp_head rp) \<le> unat (rp_tail rp) + ?n"
    and n: "unat (data_region_size rp) = ?n"
    using assms perf_end_ge [of "unat (rp_tail rp)" ?n rs] by (auto simp: perf_rep_def page_wf_def)
  have le: "rp_tail rp \<le> rp_head rp" using th(1) by (simp add: word_le_nat_alt)
  have d: "unat (rp_head rp - rp_tail rp) = unat (rp_head rp) - unat (rp_tail rp)" by (rule unat_sub [OF le])
  then have "rp_head rp - rp_tail rp \<le> data_region_size rp" using th n by (simp add: word_le_nat_alt)
  then have "unat (data_region_size rp - (rp_head rp - rp_tail rp)) = ?n - (unat (rp_head rp) - unat (rp_tail rp))"
    by (simp only: unat_sub n d)
  moreover have "data_region_size rp - rp_head rp + rp_tail rp = data_region_size rp - (rp_head rp - rp_tail rp)"
    by (simp add: algebra_simps)
  ultimately have "unat (data_region_size rp - rp_head rp + rp_tail rp) =
      ?n - (unat (rp_head rp) - unat (rp_tail rp))" by (simp only:)
  then show ?thesis using th unfolding can_write_def word_le_nat_alt by linarith
qed

section \<open>Writing an event\<close>

lemma fill_size_at:
  assumes "page_wf rp" "unat h + n < 2 ^ 64"
  shows "unat (fill_size rp ((h + of_nat n) mod data_region_size rp)) = fill_at (length (rp_data rp)) (unat h + n)"
proof -
  let ?n = "length (rp_data rp)" let ?m = "(h + of_nat n) mod data_region_size rp"
  have r: "unat (data_region_size rp) = ?n" "0 < ?n" using assms(1) by (auto simp: page_wf_def)
  have un: "unat (of_nat n :: u64) = n" using assms(2) by (simp add: unsigned_of_nat take_bit_nat_eq_self)
  have "unat (h + of_nat n) = unat h + n" using assms(2) by (simp only: unat_word_ariths un) simp
  then have m: "unat ?m = (unat h + n) mod ?n" by (simp add: unat_mod_distrib r)
  then have "?m \<le> data_region_size rp" using r by (simp add: word_le_nat_alt less_imp_le)
  then have s: "unat (data_region_size rp - ?m) = ?n - (unat h + n) mod ?n" by (simp only: unat_sub r m)
  have "data_region_size rp - ?m < of_nat PERF_HEADER \<longleftrightarrow> ?n - (unat h + n) mod ?n < PERF_HEADER"
    by (simp only: word_less_nat_alt s) (simp add: PERF_HEADER_def)
  then show ?thesis by (simp add: fill_size_def fill_at_def s)
qed

lemma write_rec:
  assumes rep: "perf_rep rp rs" and r: "rec_fits r"
    and room: "unat (rp_head rp) + rec_len r \<le> unat (rp_tail rp) + length (rp_data rp)"
    and small: "unat (rp_head rp) < 2 ^ 63"
  shows "\<exists>head rp'. (case r of Sample v \<Rightarrow> write_sample rp v (rp_head rp) | Lost c \<Rightarrow> write_lost (rp\<lparr>rp_lost := c\<rparr>) (rp_head rp)) = Ok (head, rp') \<and>
    perf_rep (rp'\<lparr>rp_head := head\<rparr>) (rs @ [r]) \<and> rp_tail rp' = rp_tail rp \<and>
    (case r of Sample v \<Rightarrow> rp_lost rp' = rp_lost rp | Lost c \<Rightarrow> rp_lost rp' = c) \<and>
    unat head \<le> unat (rp_head rp) + rec_len r + 7 \<and> length (rp_data rp') = length (rp_data rp)"
proof -
  let ?h = "unat (rp_head rp)" and ?d = "rp_data rp" and ?n = "length (rp_data rp)"
  define f where "f = fill_at ?n (?h + rec_len r)"
  have wf: "page_wf rp" and n: "4096 \<le> ?n" "?n < 2 ^ 32" and th: "unat (rp_tail rp) \<le> ?h"
    using rep perf_end_ge [of "unat (rp_tail rp)" ?n rs] by (auto simp: perf_rep_def page_wf_def)
  have len: "rec_len r \<le> ?n" using room th by linarith
  have f: "f < 8" by (simp add: f_def fill_at_def PERF_HEADER_def)
  have h64: "?h + rec_len r < 2 ^ 64" using len n small by simp
  have fill: "fill_size rp ((rp_head rp + of_nat (rec_len r)) mod data_region_size rp) = of_nat f"
    using fill_size_at [OF wf h64] unfolding f_def by (metis of_nat_unat ucast_id)
  have rf: "(of_nat (rec_len r) + of_nat f :: u64) = of_nat (rec_len r + f)" by simp
  note app = perf_append_rec [OF rep r room small, folded f_def]
  let ?rp' = "rp\<lparr>rp_data := ring_store ?d ?h (rec_bytes r f)\<rparr>"
  show ?thesis
  proof (cases r)
    case (Sample v)
    have v: "v \<noteq> []" using r Sample by simp
    have sz: "calculate_size (length v) = of_nat (rec_len r)" by (simp add: Sample calculate_size_def)
    let ?hd = "sample_header_bytes (length v) (of_nat f)"
    have hd1: "length ?hd = SAMPLE_HEADER"
      by (simp add: sample_header_bytes_def event_header_def SAMPLE_HEADER_def)
    then have "?hd \<noteq> []" by (auto simp: SAMPLE_HEADER_def)
    note hd = hd1 this
    let ?rp1 = "rp\<lparr>rp_data := ring_store ?d ?h ?hd\<rparr>"
    have w1: "write_any rp ?hd (rp_head rp) = Ok ?rp1"
      using write_any_store [OF wf hd(2), of "rp_head rp"] len h64 hd(1) Sample by simp
    have "SAMPLE_HEADER < 2 ^ 64" by (simp add: SAMPLE_HEADER_def)
    then have u12: "unat (rp_head rp + of_nat SAMPLE_HEADER) = ?h + SAMPLE_HEADER"
      using h64 Sample by (simp add: unat_word_ariths unsigned_of_nat take_bit_nat_eq_self)
    have "write_any ?rp1 v (rp_head rp + of_nat SAMPLE_HEADER) = Ok ?rp'"
      using write_any_store [of ?rp1 v "rp_head rp + of_nat SAMPLE_HEADER"] wf v len h64 Sample u12 hd(1)
        ring_store_append [of ?d ?h ?hd v]
      by simp
    then have "write_sample rp v (rp_head rp) = Ok (rp_head rp + of_nat (rec_len r + f), ?rp')"
      using w1 unfolding write_sample_def Let_def sz fill by (simp add: add.assoc)
    then show ?thesis using app f Sample by simp
  next
    case (Lost c)
    have lost: "fill_size (rp\<lparr>rp_lost := c\<rparr>) = fill_size rp" by (simp add: fill_size_def fun_eq_iff)
    have len_lost: "length (lost_bytes c (of_nat f)) = LOST_SAMPLES"
      by (simp add: lost_bytes_def event_header_def LOST_SAMPLES_def)
    then have "lost_bytes c (of_nat f) \<noteq> []" by (auto simp: LOST_SAMPLES_def)
    note ne = this len_lost
    have "write_any (rp\<lparr>rp_lost := c\<rparr>) (lost_bytes c (of_nat f)) (rp_head rp) = Ok (?rp'\<lparr>rp_lost := c\<rparr>)"
      using write_any_store [of "rp\<lparr>rp_lost := c\<rparr>" "lost_bytes c (of_nat f)" "rp_head rp"] wf ne len h64 Lost
      by (simp add: page_wf_def)
    then have "write_lost (rp\<lparr>rp_lost := c\<rparr>) (rp_head rp) = Ok (rp_head rp + of_nat (rec_len r + f), ?rp'\<lparr>rp_lost := c\<rparr>)"
      using fill Lost by (simp add: write_lost_def Let_def lost add.assoc)
    moreover have "perf_rep (?rp'\<lparr>rp_lost := c, rp_head := rp_head rp + of_nat (rec_len r + f)\<rparr>) (rs @ [r])"
      using app(1) by (simp add: perf_rep_def)
    ultimately show ?thesis using app(2) f Lost by simp
  qed
qed

text \<open>The events that a list of records accounts for.\<close>

fun events :: "perf_rec list \<Rightarrow> nat" where
  "events [] = 0"
| "events (Sample v # rs) = Suc (events rs)"
| "events (Lost c # rs) = unat c + events rs"

lemma events_append [simp]: "events (rs @ rs') = events rs + events rs'"
  by (induction rs rule: events.induct) auto

fun samples :: "perf_rec list \<Rightarrow> string list" where
  "samples [] = []"
| "samples (Sample v # rs) = v # samples rs"
| "samples (Lost c # rs) = samples rs"

lemma samples_append [simp]: "samples (rs @ rs') = samples rs @ samples rs'"
  by (induction rs rule: samples.induct) auto

lemma room_rec:
  assumes "perf_rep rp rs" "rec_len r < 2 ^ 64"
  shows "can_write rp (of_nat (rec_len r)) (rp_tail rp) (rp_head rp) \<longleftrightarrow>
    unat (rp_head rp) + rec_len r \<le> unat (rp_tail rp) + length (rp_data rp)"
  using can_write_room [OF assms(1)] assms(2) by (simp add: unsigned_of_nat take_bit_nat_eq_self)

lemma perf_rep_lost [simp]: "perf_rep (rp\<lparr>rp_lost := c\<rparr>) rs = perf_rep rp rs"
  by (simp add: perf_rep_def)

lemma write_event_no_lost:
  assumes rep: "perf_rep rp rs" and v: "rec_fits (Sample v)" and small: "unat (rp_head rp) < 2 ^ 63"
    and no: "rp_lost rp = 0 \<or> \<not> can_write rp (of_nat LOST_SAMPLES) (rp_tail rp) (rp_head rp)"
    and max: "unat (rp_lost rp) + 1 < 2 ^ 64"
  shows "\<exists>rp'. perf_write_event rp v = Ok rp' \<and> rp_tail rp' = rp_tail rp \<and>
    length (rp_data rp') = length (rp_data rp) \<and> unat (rp_head rp') \<le> unat (rp_head rp) + length v + 19 \<and>
    (perf_rep rp' (rs @ [Sample v]) \<and> rp_lost rp' = rp_lost rp \<or>
     perf_rep rp' rs \<and> unat (rp_lost rp') = unat (rp_lost rp) + 1)"
proof -
  have sz: "calculate_size (length v) = of_nat (rec_len (Sample v))" by (simp add: calculate_size_def)
  have len: "rec_len (Sample v) < 2 ^ 64" using v by (simp add: SAMPLE_HEADER_def)
  note room = room_rec [OF rep len]
  have inc: "unat (rp_lost rp + 1) = unat (rp_lost rp) + 1" using max by (simp add: unat_word_ariths)
  have keep: "\<exists>rp'. perf_write_event rp v = Ok rp' \<and> rp_tail rp' = rp_tail rp \<and>
      length (rp_data rp') = length (rp_data rp) \<and> unat (rp_head rp') \<le> unat (rp_head rp) + length v + 19 \<and>
      perf_rep rp' rs \<and> unat (rp_lost rp') = unat (rp_lost rp) + 1"
    if "perf_write_event rp v = Ok (rp\<lparr>rp_lost := rp_lost rp + 1\<rparr>)"
    using that rep inc by simp
  show ?thesis
  proof (cases "can_write rp (of_nat PERF_HEADER) (rp_tail rp) (rp_head rp) \<and>
      can_write rp (calculate_size (length v)) (rp_tail rp) (rp_head rp)")
    case True
    then have "unat (rp_head rp) + rec_len (Sample v) \<le> unat (rp_tail rp) + length (rp_data rp)"
      using room unfolding sz by simp
    from write_rec [OF rep v this small] obtain head rp1 where w:
      "write_sample rp v (rp_head rp) = Ok (head, rp1)" "perf_rep (rp1\<lparr>rp_head := head\<rparr>) (rs @ [Sample v])"
      "rp_tail rp1 = rp_tail rp" "rp_lost rp1 = rp_lost rp" "length (rp_data rp1) = length (rp_data rp)"
      "unat head \<le> unat (rp_head rp) + rec_len (Sample v) + 7" by auto
    then show ?thesis
      using True no perf_write_event.simps [of rp v]
      by (intro exI [of _ "rp1\<lparr>rp_head := head\<rparr>"]) (auto simp: SAMPLE_HEADER_def word_neq_0_conv)
  next
    case False
    then have "perf_write_event rp v = Ok (rp\<lparr>rp_lost := rp_lost rp + 1\<rparr>)"
      using no perf_write_event.simps [of rp v] by (auto simp: word_neq_0_conv)
    from keep [OF this] show ?thesis by blast
  qed
qed

lemma perf_write_event_rep:
  assumes rep: "perf_rep rp rs" and v: "rec_fits (Sample v)" and small: "unat (rp_head rp) + 31 < 2 ^ 63"
    and max: "unat (rp_lost rp) + 1 < 2 ^ 64"
  shows "\<exists>rp' new. perf_write_event rp v = Ok rp' \<and> perf_rep rp' (rs @ new) \<and> rp_tail rp' = rp_tail rp \<and>
    unat (rp_head rp') \<le> unat (rp_head rp) + length v + 50 \<and>
    (samples new = [] \<or> samples new = [v]) \<and>
    events new + unat (rp_lost rp') = unat (rp_lost rp) + 1"
proof (cases "rp_lost rp = 0 \<or> \<not> can_write rp (of_nat LOST_SAMPLES) (rp_tail rp) (rp_head rp)")
  case True
  have "unat (rp_head rp) < 2 ^ 63" using small by linarith
  from write_event_no_lost [OF rep v this True max] obtain rp' where w:
    "perf_write_event rp v = Ok rp'" "rp_tail rp' = rp_tail rp" "unat (rp_head rp') \<le> unat (rp_head rp) + length v + 19"
    "perf_rep rp' (rs @ [Sample v]) \<and> rp_lost rp' = rp_lost rp \<or>
     perf_rep rp' rs \<and> unat (rp_lost rp') = unat (rp_lost rp) + 1" by blast
  from w(4) show ?thesis
  proof
    assume "perf_rep rp' (rs @ [Sample v]) \<and> rp_lost rp' = rp_lost rp"
    with w(1-3) show ?thesis by (intro exI [of _ rp'] exI [of _ "[Sample v]"]) simp
  next
    assume "perf_rep rp' rs \<and> unat (rp_lost rp') = unat (rp_lost rp) + 1"
    with w(1-3) show ?thesis by (intro exI [of _ rp'] exI [of _ "[]"]) simp
  qed
next
  case False
  let ?l = "Lost (rp_lost rp)"
  have lt: "unat (rp_head rp) < 2 ^ 63" using small by linarith
  have "rec_len ?l < 2 ^ 64" by (simp add: LOST_SAMPLES_def)
  from room_rec [OF rep this] have room: "unat (rp_head rp) + rec_len ?l \<le> unat (rp_tail rp) + length (rp_data rp)"
    using False by simp
  then have "can_write rp (of_nat PERF_HEADER) (rp_tail rp) (rp_head rp)"
    unfolding can_write_room [OF rep] by (simp add: PERF_HEADER_def LOST_SAMPLES_def)
  moreover from write_rec [OF rep _ room lt] obtain head rp1 where w:
    "write_lost rp (rp_head rp) = Ok (head, rp1)" "perf_rep (rp1\<lparr>rp_head := head\<rparr>) (rs @ [?l])"
    "rp_tail rp1 = rp_tail rp" "unat head \<le> unat (rp_head rp) + 31" by (auto simp: LOST_SAMPLES_def)
  ultimately have step: "perf_write_event rp v = perf_write_event (rp1\<lparr>rp_head := head, rp_lost := 0\<rparr>) v"
    using False perf_write_event.simps [of rp v] by (simp add: word_neq_0_conv)
  let ?rp2 = "rp1\<lparr>rp_head := head, rp_lost := 0\<rparr>"
  have "perf_rep ?rp2 (rs @ [?l])" using w(2) by simp
  moreover have "unat (rp_head ?rp2) < 2 ^ 63" using w(4) small by simp
  ultimately obtain rp' where w2: "perf_write_event ?rp2 v = Ok rp'" "rp_tail rp' = rp_tail rp"
    "unat (rp_head rp') \<le> unat head + length v + 19"
    "perf_rep rp' ((rs @ [?l]) @ [Sample v]) \<and> rp_lost rp' = 0 \<or>
     perf_rep rp' (rs @ [?l]) \<and> unat (rp_lost rp') = 1"
    using write_event_no_lost [of ?rp2 "rs @ [?l]" v] v w(3) by auto
  from w2(4) show ?thesis
  proof
    assume "perf_rep rp' ((rs @ [?l]) @ [Sample v]) \<and> rp_lost rp' = 0"
    with w2(1-3) step w(4) show ?thesis by (intro exI [of _ rp'] exI [of _ "[?l, Sample v]"]) simp
  next
    assume "perf_rep rp' (rs @ [?l]) \<and> unat (rp_lost rp') = 1"
    with w2(1-3) step w(4) show ?thesis by (intro exI [of _ rp'] exI [of _ "[?l]"]) simp
  qed
qed


section \<open>The reader\<close>

text \<open>
  The reader in user space, as the protocol prescribes it: it reads the record at the tail and
  moves the tail by the size in the header.
\<close>

definition perf_consume :: "ring_page \<Rightarrow> perf_rec option \<times> ring_page" where
  "perf_consume rp =
     (let d = rp_data rp; t = unat (rp_tail rp) in
      if \<not> page_readable rp then (None, rp)
      else (Some (if le_nat (ring_load d t 4) = PERF_RECORD_SAMPLE
                  then Sample (ring_load d (t + 12) (le_nat (ring_load d (t + 8) 4)))
                  else Lost (of_nat (le_nat (ring_load d (t + 16) 8)))),
            rp\<lparr>rp_tail := rp_tail rp + of_nat (le_nat (ring_load d (t + 6) 2))\<rparr>))"

lemma ring_load_part: "i + k \<le> n \<Longrightarrow> ring_load d (t + i) k = take k (drop i (ring_load d t n))"
  by (rule nth_equalityI) (auto simp: add.assoc)

lemma le_nat_le_bytes_small: "n < 256 ^ k \<Longrightarrow> le_nat (le_bytes k n) = n"
  by (simp add: le_nat_le_bytes)

lemma perf_consume_rep:
  assumes "perf_rep rp (r # rs)"
  shows "\<exists>rp'. perf_consume rp = (Some r, rp') \<and> perf_rep rp' rs \<and> rp_lost rp' = rp_lost rp \<and> rp_head rp' = rp_head rp"
proof -
  let ?d = "rp_data rp" and ?t = "unat (rp_tail rp)" and ?n = "length (rp_data rp)"
  define f where "f = fill_at ?n (?t + rec_len r)"
  have n: "4096 \<le> ?n" and r: "rec_fits r" and rs: "list_all rec_fits rs"
    and load: "ring_load ?d ?t (rec_len r) = rec_bytes r f"
    and lay: "perf_laid ?d (rec_end ?n ?t r) rs" and h: "unat (rp_head rp) = perf_end ?n (rec_end ?n ?t r) rs"
    and hi: "unat (rp_head rp) \<le> ?t + ?n"
    using assms by (auto simp: perf_rep_def page_wf_def f_def)
  have f: "f < 8" by (simp add: f_def fill_at_def PERF_HEADER_def)
  have f16: "ucast (of_nat f :: u64) = (of_nat f :: u16)" using f by (intro unsigned_word_eqI) (simp add: unsigned_of_nat unsigned_ucast_eq take_bit_nat_eq_self)
  have e: "rec_end ?n ?t r = ?t + rec_len r + f" by (simp add: rec_end_def f_def)
  have le_h: "rec_end ?n ?t r \<le> unat (rp_head rp)" unfolding h by (rule perf_end_ge)
  then have "?t \<noteq> unat (rp_head rp)" using e rec_len_pos [of r] by linarith
  then have readable: "page_readable rp" by (auto simp: page_readable_def)
  have len16: "rec_len r + f < 2 ^ 16" using r f by (cases r) (auto simp: SAMPLE_HEADER_def LOST_SAMPLES_def)
  have size: "le_nat (ring_load ?d (?t + 6) 2) = rec_len r + f"
  proof -
    have "ring_load ?d (?t + 6) 2 = take 2 (drop 6 (rec_bytes r f))"
      using ring_load_part [of 6 2 "rec_len r" ?d ?t] rec_len_pos [of r] load by simp
    also have "\<dots> = le_bytes 2 (unat (of_nat (rec_len r + f) :: u16))"
      using f16 by (cases r) (simp_all add: sample_header_bytes_def lost_bytes_def event_header_def drop_append)
    finally show ?thesis using len16 by (simp add: le_nat_le_bytes unsigned_of_nat take_bit_nat_eq_self del: of_nat_add)
  qed
  have ty: "le_nat (ring_load ?d ?t 4) = (case r of Sample v \<Rightarrow> PERF_RECORD_SAMPLE | Lost c \<Rightarrow> PERF_RECORD_LOST)"
  proof -
    have "ring_load ?d ?t 4 = take 4 (rec_bytes r f)"
      using ring_load_part [of 0 4 "rec_len r" ?d ?t] rec_len_pos [of r] load by simp
    then show ?thesis
      by (cases r) (simp_all add: sample_header_bytes_def lost_bytes_def event_header_def le_nat_le_bytes
          PERF_RECORD_SAMPLE_def PERF_RECORD_LOST_def)
  qed
  have body: "(if le_nat (ring_load ?d ?t 4) = PERF_RECORD_SAMPLE
      then Sample (ring_load ?d (?t + 12) (le_nat (ring_load ?d (?t + 8) 4)))
      else Lost (of_nat (le_nat (ring_load ?d (?t + 16) 8)))) = r"
  proof (cases r)
    case (Sample v)
    have v: "length v < 2 ^ 32" using r Sample by simp
    have "ring_load ?d (?t + 8) 4 = take 4 (drop 8 (rec_bytes r f))"
      using ring_load_part [of 8 4 "rec_len r" ?d ?t] load Sample by (simp add: SAMPLE_HEADER_def)
    then have "ring_load ?d (?t + 8) 4 = le_bytes 4 (unat (of_nat (length v) :: u32))"
      by (simp add: Sample sample_header_bytes_def event_header_def drop_append)
    then have l: "le_nat (ring_load ?d (?t + 8) 4) = length v"
      using v by (simp add: le_nat_le_bytes unsigned_of_nat take_bit_nat_eq_self)
    have "length (sample_header_bytes (length v) (of_nat f)) = 12"
      by (simp add: sample_header_bytes_def event_header_def)
    then have "ring_load ?d (?t + 12) (length v) = v"
      using ring_load_part [of 12 "length v" "rec_len r" ?d ?t] load Sample by (simp add: SAMPLE_HEADER_def)
    then show ?thesis using ty l Sample by simp
  next
    case (Lost c)
    have "unat c < 2 ^ 64" using unsigned_less [of c] by simp
    have "24 = rec_len r" by (simp add: Lost LOST_SAMPLES_def)
    then have "ring_load ?d (?t + 16) 8 = take 8 (drop 16 (rec_bytes r f))"
      using ring_load_part [of 16 8 "rec_len r" ?d ?t] load by (simp del: rec_bytes.simps)
    then have "ring_load ?d (?t + 16) 8 = le_bytes 8 (unat c)"
      by (simp add: Lost lost_bytes_def event_header_def drop_append)
    then have "of_nat (le_nat (ring_load ?d (?t + 16) 8)) = c"
      using \<open>unat c < 2 ^ 64\<close> by (simp add: le_nat_le_bytes)
    then show ?thesis using ty Lost by (simp add: PERF_RECORD_SAMPLE_def PERF_RECORD_LOST_def)
  qed
  have "?t + (rec_len r + f) < 2 ^ 64" using le_h e unsigned_less [of "rp_head rp", where 'a = nat] by simp
  moreover have "unat (of_nat (rec_len r + f) :: u64) = rec_len r + f"
    using len16 by (simp add: unsigned_of_nat take_bit_nat_eq_self del: of_nat_add)
  ultimately have tail: "unat (rp_tail rp + of_nat (rec_len r + f)) = rec_end ?n ?t r"
    unfolding e by (simp only: unat_word_ariths) simp
  have "perf_consume rp = (Some r, rp\<lparr>rp_tail := rp_tail rp + of_nat (rec_len r + f)\<rparr>)"
    unfolding perf_consume_def Let_def size body using readable by simp
  moreover have "perf_rep (rp\<lparr>rp_tail := rp_tail rp + of_nat (rec_len r + f)\<rparr>) rs"
    using assms rs lay h hi tail e boundary_rec_end [of ?n ?t r] n
    by (simp add: perf_rep_def PERF_HEADER_def del: of_nat_add)
  ultimately show ?thesis by (intro exI [of _ "rp\<lparr>rp_tail := rp_tail rp + of_nat (rec_len r + f)\<rparr>"]) simp
qed

lemma perf_consume_empty: "perf_rep rp [] \<Longrightarrow> perf_consume rp = (None, rp)"
  by (auto simp: perf_consume_def page_readable_def perf_rep_def Let_def dest: unsigned_word_eqI)

datatype perf_call = Write string | Read

text \<open>Writes and reads taking turns; the records that were read, in order.\<close>

fun perf_run :: "ring_page \<Rightarrow> perf_call list \<Rightarrow> (fault, ring_page \<times> perf_rec list) result" where
  "perf_run rp [] = Ok (rp, [])"
| "perf_run rp (Write v # cs) = and_then (perf_write_event rp v) (\<lambda>rp. perf_run rp cs)"
| "perf_run rp (Read # cs) =
     (let (r, rp) = perf_consume rp in
      and_then (perf_run rp cs) (\<lambda>(rp, outs). Ok (rp, case r of None \<Rightarrow> outs | Some r \<Rightarrow> r # outs)))"

fun written :: "perf_call list \<Rightarrow> string list" where
  "written [] = []"
| "written (Write v # cs) = v # written cs"
| "written (Read # cs) = written cs"

text \<open>Each write moves the head by less than \<open>2 ^ 17\<close> bytes, so the counters do not wrap.\<close>

lemma perf_run_rep:
  "perf_rep rp rs \<Longrightarrow> \<forall>v \<in> set (written cs). v \<noteq> [] \<and> length v \<le> 65516 \<Longrightarrow>
   unat (rp_head rp) + length cs * 2 ^ 17 < 2 ^ 62 \<Longrightarrow> unat (rp_lost rp) + length cs < 2 ^ 62 \<Longrightarrow>
   \<exists>rp' outs rest new. perf_run rp cs = Ok (rp', outs) \<and> perf_rep rp' rest \<and> outs @ rest = rs @ new \<and>
     subseq (samples new) (written cs) \<and> events new + unat (rp_lost rp') = unat (rp_lost rp) + length (written cs)"
proof (induction cs arbitrary: rp rs)
  case Nil
  then show ?case by (intro exI [of _ rp] exI [of _ "[]"] exI [of _ rs] exI [of _ "[]"]) simp
next
  case (Cons c cs)
  show ?case
  proof (cases c)
    case (Write v)
    have v: "rec_fits (Sample v)" "length v \<le> 65516" using Cons.prems(2) Write by auto
    have "unat (rp_head rp) + 31 < 2 ^ 63" "unat (rp_lost rp) + 1 < 2 ^ 64" using Cons.prems(3,4) by simp_all
    from perf_write_event_rep [OF Cons.prems(1) v(1) this] obtain rp1 new1 where w:
      "perf_write_event rp v = Ok rp1" "perf_rep rp1 (rs @ new1)" "unat (rp_head rp1) \<le> unat (rp_head rp) + length v + 50"
      "samples new1 = [] \<or> samples new1 = [v]" "events new1 + unat (rp_lost rp1) = unat (rp_lost rp) + 1" by blast
    have "unat (rp_head rp1) + length cs * 2 ^ 17 < 2 ^ 62" using w(3) v(2) Cons.prems(3) by simp
    moreover have "unat (rp_lost rp1) + length cs < 2 ^ 62" using w(5) Cons.prems(4) by simp
    ultimately obtain rp' outs rest new where r: "perf_run rp1 cs = Ok (rp', outs)" "perf_rep rp' rest"
      "outs @ rest = (rs @ new1) @ new" "subseq (samples new) (written cs)"
      "events new + unat (rp_lost rp') = unat (rp_lost rp1) + length (written cs)"
      using Cons.IH [OF w(2)] Cons.prems(2) Write by auto
    have "subseq (samples (new1 @ new)) (v # written cs)" using w(4) r(4) by auto
    then show ?thesis
      using w r Write by (intro exI [of _ rp'] exI [of _ outs] exI [of _ rest] exI [of _ "new1 @ new"]) simp
  next
    case Read
    have small: "unat (rp_head rp) + length cs * 2 ^ 17 < 2 ^ 62" "unat (rp_lost rp) + length cs < 2 ^ 62"
      using Cons.prems(3,4) by simp_all
    show ?thesis
    proof (cases rs)
      case Nil
      then have "perf_consume rp = (None, rp)" using Cons.prems(1) perf_consume_empty by simp
      then show ?thesis using Cons.IH [OF Cons.prems(1) _ small] Cons.prems(2) Read by fastforce
    next
      case (Cons r rs')
      then obtain rp1 where c: "perf_consume rp = (Some r, rp1)" "perf_rep rp1 rs'" "rp_lost rp1 = rp_lost rp"
        "rp_head rp1 = rp_head rp" using Cons.prems(1) perf_consume_rep by blast
      have "\<forall>v \<in> set (written cs). v \<noteq> [] \<and> length v \<le> 65516" using Cons.prems(2) Read by simp
      then obtain rp' outs rest new where "perf_run rp1 cs = Ok (rp', outs)" "perf_rep rp' rest"
        "outs @ rest = rs' @ new" "subseq (samples new) (written cs)"
        "events new + unat (rp_lost rp') = unat (rp_lost rp1) + length (written cs)"
        using Cons.IH [OF c(2)] small c(3,4) by metis
      then show ?thesis using c Read Cons
        by (intro exI [of _ rp'] exI [of _ "r # outs"] exI [of _ rest] exI [of _ new]) simp
    qed
  qed
qed

lemma perf_rep_init:
  assumes "RingPage_init ptr len mem = Ok rp" "unat len < 2 ^ 32"
  shows "perf_rep rp []" "rp_head rp = 0" "rp_lost rp = 0"
proof -
  have c: "len mod 4096 = 0" "2 \<le> len div 4096"
    and rp: "rp = \<lparr>rp_size = len, rp_ptr = ptr, data_region_size = len - 4096, rp_lost = 0,
               rp_data_offset = 4096, rp_data_size = len - 4096, rp_tail = 0, rp_head = 0,
               rp_data = map mem [0..<unat (len - 4096)]\<rparr>"
    using assms(1) by (auto simp: RingPage_init_def split: if_splits)
  have "2 \<le> unat len div 4096" using c(2) by (simp add: word_le_nat_alt unat_div_distrib)
  then have "2 * 4096 \<le> unat len" by (metis div_le_mono mult.commute nat_mult_le_cancel_disj div_times_less_eq_dividend order_trans mult_le_mono1)
  then have big: "8192 \<le> unat len" by simp
  then have "unat (len - 4096) = unat len - 4096" by (subst unat_sub) (simp_all add: word_le_nat_alt)
  then show "perf_rep rp []" "rp_head rp = 0" "rp_lost rp = 0"
    using big assms(2) by (auto simp: rp perf_rep_def page_wf_def boundary_def PERF_HEADER_def)
qed


text \<open>
  An empty event is not written. \<open>write_any\<close> takes an empty slice for one that wraps around
  the end of the region, so on every page with no lost samples pending that has room for the
  12-byte header, writing an empty event panics.
\<close>

theorem perf_write_empty_panics:
  assumes "perf_rep rp rs" "unat (rp_head rp) < 2 ^ 62" "rp_lost rp = 0"
    and "unat (rp_head rp) + 12 \<le> unat (rp_tail rp) + length (rp_data rp)"
  shows "perf_write_event rp [] = Err Panics"
proof -
  let ?n = "length (rp_data rp)" and ?h = "unat (rp_head rp)"
  have wf: "page_wf rp" using assms(1) by (simp add: perf_rep_def)
  then have n: "unat (data_region_size rp) = ?n" "0 < ?n" "12 \<le> ?n" by (auto simp: page_wf_def)
  have can: "can_write rp (of_nat PERF_HEADER) (rp_tail rp) (rp_head rp)" "can_write rp (calculate_size 0) (rp_tail rp) (rp_head rp)"
    using assms(4) unfolding can_write_room [OF assms(1)] by (simp_all add: PERF_HEADER_def calculate_size_def SAMPLE_HEADER_def)
  define hd where "hd = sample_header_bytes 0 (fill_size rp ((rp_head rp + calculate_size 0) mod data_region_size rp))"
  have hd: "length hd = 12" by (simp add: hd_def sample_header_bytes_def event_header_def)
  then have "hd \<noteq> []" by auto
  then have w: "write_any rp hd (rp_head rp) = Ok (rp\<lparr>rp_data := ring_store (rp_data rp) ?h hd\<rparr>)"
    using write_any_store [OF wf, of hd "rp_head rp"] hd n assms(2) by simp
  let ?h12 = "rp_head rp + of_nat SAMPLE_HEADER"
  have "unat (?h12 mod data_region_size rp) < ?n" using n by (simp add: unat_mod_distrib)
  then have "write_any (rp\<lparr>rp_data := ring_store (rp_data rp) ?h hd\<rparr>) [] ?h12 = Err Panics"
    using n by (simp add: write_any_def Let_def slice_of_def bslice_def)
  then have "write_sample rp [] (rp_head rp) = Err Panics"
    using w by (simp add: write_sample_def Let_def hd_def)
  then show ?thesis using can assms(3) perf_write_event.simps [of rp "[]"] by simp
qed

section \<open>Examples\<close>

text \<open>The smallest page: one page of header and one of data.\<close>

definition one_page :: ring_page where
  "one_page =
     \<lparr>rp_size = 8192, rp_ptr = 0, data_region_size = 4096, rp_lost = 0, rp_data_offset = 4096, rp_data_size = 4096,
      rp_tail = 0, rp_head = 0, rp_data = replicate 4096 (CHR 0x00)\<rparr>"

lemma one_page_init: "RingPage_init 0 8192 (\<lambda>_. CHR 0x00) = Ok one_page"
  by (simp add: RingPage_init_def one_page_def map_replicate_const)

lemma one_page_rep: "perf_rep one_page []" "rp_head one_page = 0" "rp_lost one_page = 0"
  by (rule perf_rep_init [OF one_page_init], simp)+

lemma one_page_len: "length (rp_data one_page) = 4096"
  by (simp add: one_page_def)



lemma perf_write_empty_panics_witness: "perf_write_event one_page [] = Err Panics"
  by (rule perf_write_empty_panics [OF one_page_rep(1)]) (simp_all add: one_page_rep one_page_len)

end
