(* ===== verification/BpfPerCpu.thy ===== *)
theory BpfPerCpu
  imports BpfArray BpfHash BpfLru
begin

text \<open>
  The per-CPU maps of \<open>array.rs\<close>, \<open>hash.rs\<close> and \<open>lru.rs\<close>: one map for every CPU behind
  \<open>PerCpuVariants\<close>. The kernel implements that trait; it is a record of the operations that
  the maps call, with the documented behaviour as the predicate \<open>percpu_laws\<close>.
\<close>

section \<open>Per-CPU data\<close>

text \<open>
  \<open>pc_set\<close> is a write through the reference that \<open>get_mut\<close> and \<open>force_get_mut\<close> return.
\<close>

record ('p, 'a) percpu =
  pc_create :: "'a \<Rightarrow> 'p option"
  pc_get :: "'p \<Rightarrow> u32 \<Rightarrow> 'a"
  pc_set :: "'p \<Rightarrow> u32 \<Rightarrow> 'a \<Rightarrow> 'p"

text \<open>With \<open>n\<close> CPUs: each starts with a copy of the value and has its own data.\<close>

definition percpu_laws :: "u32 \<Rightarrow> ('p, 'a) percpu \<Rightarrow> bool" where
  "percpu_laws n pc \<longleftrightarrow>
     (\<forall>a p cpu. pc_create pc a = Some p \<longrightarrow> cpu < n \<longrightarrow> pc_get pc p cpu = a) \<and>
     (\<forall>p c d a. c < n \<longrightarrow> d < n \<longrightarrow> pc_get pc (pc_set pc p c a) d = (if d = c then a else pc_get pc p d))"

definition on_cpu :: "('p, 'a) percpu \<Rightarrow> u32 \<Rightarrow> ('a \<Rightarrow> 'r \<times> 'a) \<Rightarrow> 'p \<Rightarrow> 'r \<times> 'p" where
  "on_cpu pc cpu f p = (let (r, m) = f (pc_get pc p cpu) in (r, pc_set pc p cpu m))"

lemma on_cpu_get:
  assumes "percpu_laws n pc" "cpu < n" "d < n" "on_cpu pc cpu f p = (r, p')"
  shows "fst (f (pc_get pc p cpu)) = r"
    and "pc_get pc p' d = (if d = cpu then snd (f (pc_get pc p cpu)) else pc_get pc p d)"
  using assms by (auto simp: on_cpu_def percpu_laws_def Let_def split: prod.splits)

section \<open>The maps\<close>

text \<open>In all operations \<open>cpu\<close> is the CPU that runs the operation.\<close>

definition PerCpuArrayMap_new :: "('p, array_map) percpu \<Rightarrow> map_meta \<Rightarrow> (fault, 'p) result" where
  "PerCpuArrayMap_new pc meta = and_then (ArrayMap_new meta) (\<lambda>m. ok_or (pc_create pc m) (Fails EINVAL))"

definition percpu_array_lookup ::
  "('p, array_map) percpu \<Rightarrow> u32 \<Rightarrow> 'p \<Rightarrow> string \<Rightarrow> (fault, string option) result \<times> 'p" where
  "percpu_array_lookup pc cpu p key = on_cpu pc cpu (\<lambda>m. array_lookup m key) p"

definition percpu_array_update ::
  "('p, array_map) percpu \<Rightarrow> u32 \<Rightarrow> 'p \<Rightarrow> string \<Rightarrow> string \<Rightarrow> u64 \<Rightarrow> (fault, unit) result \<times> 'p" where
  "percpu_array_update pc cpu p key val flags = on_cpu pc cpu (\<lambda>m. array_update m key val flags) p"

definition percpu_array_delete :: "('p, array_map) percpu \<Rightarrow> u32 \<Rightarrow> 'p \<Rightarrow> string \<Rightarrow> (fault, unit) result \<times> 'p" where
  "percpu_array_delete pc cpu p key = on_cpu pc cpu (\<lambda>m. array_delete m key) p"

definition percpu_array_for_each ::
  "('p, array_map) percpu \<Rightarrow> u32 \<Rightarrow> 'p \<Rightarrow> 's callback \<Rightarrow> 's \<Rightarrow> u64 \<Rightarrow> (fault, nat) result \<times> 's" where
  "percpu_array_for_each pc cpu p cb s flags = array_for_each (pc_get pc p cpu) cb s flags"

definition percpu_array_lookup_and_delete :: "'p \<Rightarrow> string \<Rightarrow> string \<Rightarrow> (fault, string) result \<times> 'p" where
  "percpu_array_lookup_and_delete p key val = (Err (Fails EINVAL), p)"

text \<open>\<open>lookup_percpu_elem\<close> asks for the CPU in its argument and not for the running one.\<close>

definition percpu_array_lookup_percpu ::
  "('p, array_map) percpu \<Rightarrow> 'p \<Rightarrow> string \<Rightarrow> u32 \<Rightarrow> (fault, string option) result \<times> 'p" where
  "percpu_array_lookup_percpu pc p key cpu = on_cpu pc cpu (\<lambda>m. array_lookup m key) p"

definition percpu_array_get_next_key ::
  "('p, array_map) percpu \<Rightarrow> u32 \<Rightarrow> 'p \<Rightarrow> string option \<Rightarrow> string \<Rightarrow> (fault, string) result" where
  "percpu_array_get_next_key pc cpu p key next_key = array_get_next_key (pc_get pc p cpu) key next_key"

definition percpu_array_mem_usage :: "('p, array_map) percpu \<Rightarrow> u32 \<Rightarrow> 'p \<Rightarrow> nat" where
  "percpu_array_mem_usage pc cpu p = array_mem_usage (pc_get pc p cpu)"

definition percpu_array_ptr_range :: "('p, array_map) percpu \<Rightarrow> u32 \<Rightarrow> 'p \<Rightarrow> u64 \<Rightarrow> u64 \<times> u64" where
  "percpu_array_ptr_range pc cpu p start = array_ptr_range (pc_get pc p cpu) start"

definition PerCpuHashMap_new :: "('p, hash_map) percpu \<Rightarrow> map_meta \<Rightarrow> (fault, 'p) result" where
  "PerCpuHashMap_new pc meta = and_then (BpfHashMap_new meta) (\<lambda>m. ok_or (pc_create pc m) (Fails EINVAL))"

definition percpu_hash_lookup ::
  "('p, hash_map) percpu \<Rightarrow> u32 \<Rightarrow> 'p \<Rightarrow> string \<Rightarrow> (fault, string option) result \<times> 'p" where
  "percpu_hash_lookup pc cpu p key = on_cpu pc cpu (\<lambda>m. hash_lookup m key) p"

definition percpu_hash_update ::
  "('p, hash_map) percpu \<Rightarrow> u32 \<Rightarrow> 'p \<Rightarrow> string \<Rightarrow> string \<Rightarrow> u64 \<Rightarrow> (fault, unit) result \<times> 'p" where
  "percpu_hash_update pc cpu p key val flags = on_cpu pc cpu (\<lambda>m. hash_update m key val flags) p"

definition percpu_hash_delete :: "('p, hash_map) percpu \<Rightarrow> u32 \<Rightarrow> 'p \<Rightarrow> string \<Rightarrow> (fault, unit) result \<times> 'p" where
  "percpu_hash_delete pc cpu p key = on_cpu pc cpu (\<lambda>m. hash_delete m key) p"

definition percpu_hash_for_each ::
  "('p, hash_map) percpu \<Rightarrow> u32 \<Rightarrow> 'p \<Rightarrow> 's callback \<Rightarrow> 's \<Rightarrow> u64 \<Rightarrow> (fault, nat) result \<times> 's" where
  "percpu_hash_for_each pc cpu p cb s flags = hash_for_each (pc_get pc p cpu) cb s flags"

definition percpu_hash_lookup_and_delete ::
  "('p, hash_map) percpu \<Rightarrow> u32 \<Rightarrow> 'p \<Rightarrow> string \<Rightarrow> string \<Rightarrow> (fault, string) result \<times> 'p" where
  "percpu_hash_lookup_and_delete pc cpu p key val = on_cpu pc cpu (\<lambda>m. hash_lookup_and_delete m key val) p"

definition percpu_hash_lookup_percpu ::
  "('p, hash_map) percpu \<Rightarrow> 'p \<Rightarrow> string \<Rightarrow> u32 \<Rightarrow> (fault, string option) result \<times> 'p" where
  "percpu_hash_lookup_percpu pc p key cpu = on_cpu pc cpu (\<lambda>m. hash_lookup m key) p"

definition percpu_hash_get_next_key ::
  "('p, hash_map) percpu \<Rightarrow> u32 \<Rightarrow> 'p \<Rightarrow> string option \<Rightarrow> string \<Rightarrow> (fault, string) result" where
  "percpu_hash_get_next_key pc cpu p key next_key = hash_get_next_key (pc_get pc p cpu) key next_key"

definition percpu_hash_mem_usage :: "('p, hash_map) percpu \<Rightarrow> u32 \<Rightarrow> 'p \<Rightarrow> nat" where
  "percpu_hash_mem_usage pc cpu p = hash_mem_usage (pc_get pc p cpu)"

definition PerCpuLruMap_new :: "'c lru_cache \<Rightarrow> ('p, 'c lru_map) percpu \<Rightarrow> map_meta \<Rightarrow> (fault, 'p) result" where
  "PerCpuLruMap_new c pc meta = and_then (LruMap_new c meta) (\<lambda>m. ok_or (pc_create pc m) (Fails EINVAL))"

definition percpu_lru_lookup ::
  "'c lru_cache \<Rightarrow> ('p, 'c lru_map) percpu \<Rightarrow> u32 \<Rightarrow> 'p \<Rightarrow> string \<Rightarrow> (fault, string option) result \<times> 'p" where
  "percpu_lru_lookup c pc cpu p key = on_cpu pc cpu (\<lambda>m. lru_lookup c m key) p"

definition percpu_lru_update ::
  "'c lru_cache \<Rightarrow> ('p, 'c lru_map) percpu \<Rightarrow> u32 \<Rightarrow> 'p \<Rightarrow> string \<Rightarrow> string \<Rightarrow> u64 \<Rightarrow> (fault, unit) result \<times> 'p" where
  "percpu_lru_update c pc cpu p key val flags = on_cpu pc cpu (\<lambda>m. lru_update c m key val flags) p"

definition percpu_lru_delete ::
  "'c lru_cache \<Rightarrow> ('p, 'c lru_map) percpu \<Rightarrow> u32 \<Rightarrow> 'p \<Rightarrow> string \<Rightarrow> (fault, unit) result \<times> 'p" where
  "percpu_lru_delete c pc cpu p key = on_cpu pc cpu (\<lambda>m. lru_delete c m key) p"

definition percpu_lru_for_each ::
  "'c lru_cache \<Rightarrow> ('p, 'c lru_map) percpu \<Rightarrow> u32 \<Rightarrow> 'p \<Rightarrow> 's callback \<Rightarrow> 's \<Rightarrow> u64 \<Rightarrow> (fault, nat) result \<times> 's" where
  "percpu_lru_for_each c pc cpu p cb s flags = lru_for_each c (pc_get pc p cpu) cb s flags"

definition percpu_lru_lookup_and_delete ::
  "'c lru_cache \<Rightarrow> ('p, 'c lru_map) percpu \<Rightarrow> u32 \<Rightarrow> 'p \<Rightarrow> string \<Rightarrow> string \<Rightarrow> (fault, string) result \<times> 'p" where
  "percpu_lru_lookup_and_delete c pc cpu p key val = on_cpu pc cpu (\<lambda>m. lru_lookup_and_delete c m key val) p"

definition percpu_lru_lookup_percpu ::
  "'c lru_cache \<Rightarrow> ('p, 'c lru_map) percpu \<Rightarrow> 'p \<Rightarrow> string \<Rightarrow> u32 \<Rightarrow> (fault, string option) result \<times> 'p" where
  "percpu_lru_lookup_percpu c pc p key cpu = on_cpu pc cpu (\<lambda>m. lru_lookup c m key) p"

definition percpu_lru_get_next_key ::
  "'c lru_cache \<Rightarrow> ('p, 'c lru_map) percpu \<Rightarrow> u32 \<Rightarrow> 'p \<Rightarrow> string option \<Rightarrow> string \<Rightarrow> (fault, string) result" where
  "percpu_lru_get_next_key c pc cpu p key next_key = lru_get_next_key c (pc_get pc p cpu) key next_key"

definition percpu_lru_mem_usage :: "'c lru_cache \<Rightarrow> ('p, 'c lru_map) percpu \<Rightarrow> u32 \<Rightarrow> 'p \<Rightarrow> nat" where
  "percpu_lru_mem_usage c pc cpu p = lru_mem_usage c (pc_get pc p cpu)"

section \<open>Interleaved operations\<close>

text \<open>Operations of the CPUs in the order in which they take the lock of the map.\<close>

fun percpu_run :: "(u32 \<Rightarrow> 'p map_ops) \<Rightarrow> 'p \<Rightarrow> (u32 \<times> map_call) list \<Rightarrow> 'p" where
  "percpu_run ops p [] = p"
| "percpu_run ops p ((cpu, c) # cs) = percpu_run ops (snd (map_step (ops cpu) p c)) cs"

definition own_calls :: "u32 \<Rightarrow> (u32 \<times> map_call) list \<Rightarrow> map_call list" where
  "own_calls cpu cs = map snd (filter (\<lambda>(d, _). d = cpu) cs)"

definition percpu_ops :: "('p, 'a) percpu \<Rightarrow> 'a map_ops \<Rightarrow> u32 \<Rightarrow> 'p map_ops" where
  "percpu_ops pc ops cpu =
     \<lparr>op_lookup = (\<lambda>p k. on_cpu pc cpu (\<lambda>m. op_lookup ops m k) p),
      op_update = (\<lambda>p k v fl. on_cpu pc cpu (\<lambda>m. op_update ops m k v fl) p),
      op_delete = (\<lambda>p k. on_cpu pc cpu (\<lambda>m. op_delete ops m k) p)\<rparr>"

definition percpu_array_ops :: "('p, array_map) percpu \<Rightarrow> u32 \<Rightarrow> 'p map_ops" where
  "percpu_array_ops pc cpu =
     \<lparr>op_lookup = percpu_array_lookup pc cpu, op_update = percpu_array_update pc cpu, op_delete = percpu_array_delete pc cpu\<rparr>"

definition percpu_hash_ops :: "('p, hash_map) percpu \<Rightarrow> u32 \<Rightarrow> 'p map_ops" where
  "percpu_hash_ops pc cpu =
     \<lparr>op_lookup = percpu_hash_lookup pc cpu, op_update = percpu_hash_update pc cpu, op_delete = percpu_hash_delete pc cpu\<rparr>"

definition percpu_lru_ops :: "'c lru_cache \<Rightarrow> ('p, 'c lru_map) percpu \<Rightarrow> u32 \<Rightarrow> 'p map_ops" where
  "percpu_lru_ops c pc cpu =
     \<lparr>op_lookup = percpu_lru_lookup c pc cpu, op_update = percpu_lru_update c pc cpu, op_delete = percpu_lru_delete c pc cpu\<rparr>"

lemma percpu_array_ops: "percpu_array_ops pc = percpu_ops pc array_ops"
  by (simp add: fun_eq_iff percpu_ops_def percpu_array_ops_def array_ops_def percpu_array_lookup_def
      percpu_array_update_def percpu_array_delete_def)

lemma percpu_hash_ops: "percpu_hash_ops pc = percpu_ops pc hash_ops"
  by (simp add: fun_eq_iff percpu_ops_def percpu_hash_ops_def hash_ops_def percpu_hash_lookup_def
      percpu_hash_update_def percpu_hash_delete_def)

lemma percpu_lru_ops: "percpu_lru_ops c pc = percpu_ops pc (lru_ops c)"
  by (simp add: fun_eq_iff percpu_ops_def percpu_lru_ops_def lru_ops_def percpu_lru_lookup_def
      percpu_lru_update_def percpu_lru_delete_def)

text \<open>A step on one CPU is the step of its map, and the maps of the others stay.\<close>

lemma percpu_step:
  assumes "percpu_laws n pc" "cpu < n" "d < n"
  shows "pc_get pc (snd (map_step (percpu_ops pc ops cpu) p c)) d =
    (if d = cpu then snd (map_step ops (pc_get pc p cpu) c) else pc_get pc p d)"
  by (cases c)
    (use assms in \<open>auto simp: percpu_ops_def fault_of_def on_cpu_def percpu_laws_def Let_def split: prod.splits\<close>)

lemma snd_map_run: "fst (map_run ops m w cs) = fold (\<lambda>c m. snd (map_step ops m c)) cs m"
proof (induction cs arbitrary: m w)
  case (Cons c cs)
  show ?case by (cases "map_step ops m c"; cases "fst (map_step ops m c)") (auto simp: Cons.IH)
qed simp

lemma percpu_run_own:
  "percpu_laws n pc \<Longrightarrow> cpu < n \<Longrightarrow> \<forall>(d, _) \<in> set cs. d < n \<Longrightarrow>
     pc_get pc (percpu_run (percpu_ops pc ops) p cs) cpu = fst (map_run ops (pc_get pc p cpu) w (own_calls cpu cs))"
proof (induction cs arbitrary: p)
  case (Cons dc cs)
  obtain d c where dc: "dc = (d, c)" by (cases dc)
  then have "d < n" using Cons.prems(3) by simp
  note step = percpu_step [OF Cons.prems(1) this Cons.prems(2), of ops p c]
  have "pc_get pc (percpu_run (percpu_ops pc ops) (snd (map_step (percpu_ops pc ops d) p c)) cs) cpu =
      fst (map_run ops (pc_get pc (snd (map_step (percpu_ops pc ops d) p c)) cpu) w (own_calls cpu cs))"
    using Cons.prems by (intro Cons.IH) auto
  then show ?case using step by (simp add: dc own_calls_def snd_map_run)
qed (simp add: own_calls_def)


text \<open>A kernel that keeps the data of its CPUs in a function.\<close>

definition fun_percpu :: "(u32 \<Rightarrow> 'a, 'a) percpu" where
  "fun_percpu = \<lparr>pc_create = (\<lambda>a. Some (\<lambda>_. a)), pc_get = (\<lambda>p. p), pc_set = (\<lambda>p c a. p(c := a))\<rparr>"

lemma fun_percpu_laws: "percpu_laws n fun_percpu"
  by (simp add: percpu_laws_def fun_percpu_def)


end
