(* ===== verification/BpfUnified.thy ===== *)
theory BpfUnified
  imports BpfPerCpu BpfQueue RingBuf
begin

text \<open>
  Creation and dispatch of maps, \<open>bpf-basic/src/map/mod.rs\<close>: the metadata read from the
  attributes of the system call, the map object behind \<open>Box<dyn BpfMapCommonOps>\<close>, and its
  operations with the defaults of the trait. An invariant of the objects excludes every panic.
\<close>

section \<open>Metadata\<close>

text \<open>The discriminants of \<open>BpfMapType\<close>, in the order of its variants.\<close>

definition map_types :: "bpf_map_type list" where
  "map_types =
     [MAP_UNSPEC, MAP_HASH, MAP_ARRAY, MAP_PROG_ARRAY, MAP_PERF_EVENT_ARRAY, MAP_PERCPU_HASH,
      MAP_PERCPU_ARRAY, MAP_STACK_TRACE, MAP_CGROUP_ARRAY, MAP_LRU_HASH, MAP_LRU_PERCPU_HASH,
      MAP_LPM_TRIE, MAP_ARRAY_OF_MAPS, MAP_HASH_OF_MAPS, MAP_DEVMAP, MAP_SOCKMAP, MAP_CPUMAP,
      MAP_XSKMAP, MAP_SOCKHASH, MAP_CGROUP_STORAGE_DEPRECATED, MAP_REUSEPORT_SOCKARRAY,
      MAP_PERCPU_CGROUP_STORAGE_DEPRECATED, MAP_QUEUE, MAP_STACK, MAP_SK_STORAGE,
      MAP_DEVMAP_HASH, MAP_STRUCT_OPS, MAP_RINGBUF, MAP_INODE_STORAGE, MAP_TASK_STORAGE,
      MAP_BLOOM_FILTER, MAP_USER_RINGBUF, MAP_CGRP_STORAGE, MAP_ARENA, MAX_MAP_TYPE]"

definition map_type_of :: "u32 \<Rightarrow> (fault, bpf_map_type) result" where
  "map_type_of n = (if unat n < length map_types then Ok (map_types ! unat n) else Err (Fails EINVAL))"

text \<open>\<open>BpfMapCreateFlags::from_bits\<close>: the flags are the bits 0 to 14.\<close>

definition create_flags_from_bits :: "u32 \<Rightarrow> (fault, u32) result" where
  "create_flags_from_bits bits = (if bits AND NOT 0x7FFF = 0 then Ok bits else Err (Fails EINVAL))"

text \<open>The part of \<open>bpf_attr\<close> that describes a new map; the name has 16 bytes.\<close>

record create_attr =
  attr_map_type :: u32
  attr_key_size :: u32
  attr_value_size :: u32
  attr_max_entries :: u32
  attr_map_flags :: u32
  attr_map_name :: string

text \<open>\<open>CStr::from_bytes_until_nul\<close> and \<open>to_str\<close>.\<close>

definition name_until_nul :: "string \<Rightarrow> (fault, string) result" where
  "name_until_nul bs =
     (if CHR 0x00 \<notin> set bs then Err (Fails EINVAL)
      else let s = takeWhile (\<lambda>c. c \<noteq> CHR 0x00) bs in if is_utf8 s then Ok s else Err (Fails EINVAL))"

definition meta_try_from :: "create_attr \<Rightarrow> (fault, map_meta) result" where
  "meta_try_from u =
     and_then (name_until_nul (attr_map_name u)) (\<lambda>name.
     and_then (map_type_of (attr_map_type u)) (\<lambda>ty.
     and_then (create_flags_from_bits (attr_map_flags u)) (\<lambda>flags.
       Ok \<lparr>meta_map_type = ty, meta_key_size = attr_key_size u, meta_value_size = attr_value_size u,
           meta_max_entries = attr_max_entries u, meta_map_flags = flags, meta_map_name = name\<rparr>)))"

section \<open>Objects\<close>

text \<open>
  The implementations of the trait. The cache of the LRU map and the stores of the per-CPU maps
  are types of the kernel.
\<close>

datatype ('c, 'pa, 'ph, 'pl) bpf_obj =
    ArrayObj array_map
  | PerCpuArrayObj 'pa
  | PerfEventObj perf_array
  | HashObj hash_map
  | PerCpuHashObj 'ph
  | QueueObj queue_map
  | StackObj queue_map
  | LruObj "'c lru_map"
  | PerCpuLruObj 'pl
  | RingObj ringbuf

record ('c, 'pa, 'ph, 'pl) bpf_kernel =
  bk_cache :: "'c lru_cache"
  bk_array :: "('pa, array_map) percpu"
  bk_hash :: "('ph, hash_map) percpu"
  bk_lru :: "('pl, 'c lru_map) percpu"
  bk_ring :: ring_kernel
  bk_num_cpus :: u32

record ('c, 'pa, 'ph, 'pl) unified_map =
  um_obj :: "('c, 'pa, 'ph, 'pl) bpf_obj"
  um_meta :: map_meta

text \<open>
  \<open>bpf_map_create\<close>; \<open>waker\<close> says whether the caller passed a poll waker. Next to the result,
  the pages that a failed ring buffer gives back.
\<close>

definition map_obj_create ::
  "('c, 'pa, 'ph, 'pl) bpf_kernel \<Rightarrow> map_meta \<Rightarrow> bool \<Rightarrow> (fault, ('c, 'pa, 'ph, 'pl) bpf_obj) result \<times> u64 list" where
  "map_obj_create K meta waker =
     (case meta_map_type meta of
        MAP_ARRAY \<Rightarrow> (and_then (ArrayMap_new meta) (\<lambda>m. Ok (ArrayObj m)), [])
      | MAP_PERCPU_ARRAY \<Rightarrow> (and_then (PerCpuArrayMap_new (bk_array K) meta) (\<lambda>m. Ok (PerCpuArrayObj m)), [])
      | MAP_PERF_EVENT_ARRAY \<Rightarrow> (and_then (PerfEventArrayMap_new meta (bk_num_cpus K)) (\<lambda>m. Ok (PerfEventObj m)), [])
      | MAP_HASH \<Rightarrow> (and_then (BpfHashMap_new meta) (\<lambda>m. Ok (HashObj m)), [])
      | MAP_PERCPU_HASH \<Rightarrow> (and_then (PerCpuHashMap_new (bk_hash K) meta) (\<lambda>m. Ok (PerCpuHashObj m)), [])
      | MAP_QUEUE \<Rightarrow> (and_then (QueueMap_new meta) (\<lambda>m. Ok (QueueObj m)), [])
      | MAP_STACK \<Rightarrow> (and_then (StackMap_new meta) (\<lambda>m. Ok (StackObj m)), [])
      | MAP_LRU_HASH \<Rightarrow> (and_then (LruMap_new (bk_cache K) meta) (\<lambda>m. Ok (LruObj m)), [])
      | MAP_LRU_PERCPU_HASH \<Rightarrow>
          (and_then (PerCpuLruMap_new (bk_cache K) (bk_lru K) meta) (\<lambda>m. Ok (PerCpuLruObj m)), [])
      | MAP_RINGBUF \<Rightarrow>
          (if waker then (let (r, freed) = RingBuf_new (bk_ring K) meta in (and_then r (\<lambda>rb. Ok (RingObj rb)), freed))
           else (Err (Fails EINVAL), []))
      | _ \<Rightarrow> (Err (Fails EPERM), []))"

definition bpf_map_create ::
  "('c, 'pa, 'ph, 'pl) bpf_kernel \<Rightarrow> map_meta \<Rightarrow> bool \<Rightarrow> (fault, ('c, 'pa, 'ph, 'pl) unified_map) result \<times> u64 list" where
  "bpf_map_create K meta waker =
     (let (r, freed) = map_obj_create K meta waker in
      (and_then r (\<lambda>m. Ok \<lparr>um_obj = m, um_meta = meta\<rparr>), freed))"

section \<open>Operations of an object\<close>

definition lift_obj :: "('m \<Rightarrow> 'o) \<Rightarrow> 'r \<times> 'm \<Rightarrow> 'r \<times> 'o" where
  "lift_obj C x = (fst x, C (snd x))"

text \<open>The default of an operation that an implementation does not override.\<close>

definition eperm :: "'o \<Rightarrow> (fault, 'r) result \<times> 'o" where
  "eperm m = (Err (Fails EPERM), m)"

fun obj_lookup ::
  "('c, 'pa, 'ph, 'pl) bpf_kernel \<Rightarrow> u32 \<Rightarrow> ('c, 'pa, 'ph, 'pl) bpf_obj \<Rightarrow> string \<Rightarrow>
     (fault, string option) result \<times> ('c, 'pa, 'ph, 'pl) bpf_obj" where
  "obj_lookup K cpu (ArrayObj m) key = lift_obj ArrayObj (array_lookup m key)"
| "obj_lookup K cpu (PerCpuArrayObj m) key = lift_obj PerCpuArrayObj (percpu_array_lookup (bk_array K) cpu m key)"
| "obj_lookup K cpu (PerfEventObj m) key = lift_obj PerfEventObj (perf_lookup m key)"
| "obj_lookup K cpu (HashObj m) key = lift_obj HashObj (hash_lookup m key)"
| "obj_lookup K cpu (PerCpuHashObj m) key = lift_obj PerCpuHashObj (percpu_hash_lookup (bk_hash K) cpu m key)"
| "obj_lookup K cpu (QueueObj m) key = lift_obj QueueObj (special_lookup QueueMap m key)"
| "obj_lookup K cpu (StackObj m) key = lift_obj StackObj (special_lookup StackMap m key)"
| "obj_lookup K cpu (LruObj m) key = lift_obj LruObj (lru_lookup (bk_cache K) m key)"
| "obj_lookup K cpu (PerCpuLruObj m) key =
     lift_obj PerCpuLruObj (percpu_lru_lookup (bk_cache K) (bk_lru K) cpu m key)"
| "obj_lookup K cpu (RingObj rb) key = eperm (RingObj rb)"

fun obj_update ::
  "('c, 'pa, 'ph, 'pl) bpf_kernel \<Rightarrow> u32 \<Rightarrow> ('c, 'pa, 'ph, 'pl) bpf_obj \<Rightarrow> string \<Rightarrow> string \<Rightarrow> u64 \<Rightarrow>
     (fault, unit) result \<times> ('c, 'pa, 'ph, 'pl) bpf_obj" where
  "obj_update K cpu (ArrayObj m) key val flags = lift_obj ArrayObj (array_update m key val flags)"
| "obj_update K cpu (PerCpuArrayObj m) key val flags =
     lift_obj PerCpuArrayObj (percpu_array_update (bk_array K) cpu m key val flags)"
| "obj_update K cpu (PerfEventObj m) key val flags = lift_obj PerfEventObj (perf_update m key val flags)"
| "obj_update K cpu (HashObj m) key val flags = lift_obj HashObj (hash_update m key val flags)"
| "obj_update K cpu (PerCpuHashObj m) key val flags =
     lift_obj PerCpuHashObj (percpu_hash_update (bk_hash K) cpu m key val flags)"
| "obj_update K cpu (QueueObj m) key val flags = lift_obj QueueObj (special_update QueueMap m key val flags)"
| "obj_update K cpu (StackObj m) key val flags = lift_obj StackObj (special_update StackMap m key val flags)"
| "obj_update K cpu (LruObj m) key val flags = lift_obj LruObj (lru_update (bk_cache K) m key val flags)"
| "obj_update K cpu (PerCpuLruObj m) key val flags =
     lift_obj PerCpuLruObj (percpu_lru_update (bk_cache K) (bk_lru K) cpu m key val flags)"
| "obj_update K cpu (RingObj rb) key val flags = eperm (RingObj rb)"

fun obj_delete ::
  "('c, 'pa, 'ph, 'pl) bpf_kernel \<Rightarrow> u32 \<Rightarrow> ('c, 'pa, 'ph, 'pl) bpf_obj \<Rightarrow> string \<Rightarrow>
     (fault, unit) result \<times> ('c, 'pa, 'ph, 'pl) bpf_obj" where
  "obj_delete K cpu (ArrayObj m) key = lift_obj ArrayObj (array_delete m key)"
| "obj_delete K cpu (PerCpuArrayObj m) key = lift_obj PerCpuArrayObj (percpu_array_delete (bk_array K) cpu m key)"
| "obj_delete K cpu (PerfEventObj m) key = lift_obj PerfEventObj (perf_delete m key)"
| "obj_delete K cpu (HashObj m) key = lift_obj HashObj (hash_delete m key)"
| "obj_delete K cpu (PerCpuHashObj m) key = lift_obj PerCpuHashObj (percpu_hash_delete (bk_hash K) cpu m key)"
| "obj_delete K cpu (LruObj m) key = lift_obj LruObj (lru_delete (bk_cache K) m key)"
| "obj_delete K cpu (PerCpuLruObj m) key =
     lift_obj PerCpuLruObj (percpu_lru_delete (bk_cache K) (bk_lru K) cpu m key)"
| "obj_delete K cpu m key = eperm m"

text \<open>Here and in the next operations the result is the new content of the caller's buffer.\<close>

fun obj_lookup_and_delete ::
  "('c, 'pa, 'ph, 'pl) bpf_kernel \<Rightarrow> u32 \<Rightarrow> ('c, 'pa, 'ph, 'pl) bpf_obj \<Rightarrow> string \<Rightarrow> string \<Rightarrow>
     (fault, string) result \<times> ('c, 'pa, 'ph, 'pl) bpf_obj" where
  "obj_lookup_and_delete K cpu (PerCpuArrayObj m) key val =
     lift_obj PerCpuArrayObj (percpu_array_lookup_and_delete m key val)"
| "obj_lookup_and_delete K cpu (HashObj m) key val = lift_obj HashObj (hash_lookup_and_delete m key val)"
| "obj_lookup_and_delete K cpu (PerCpuHashObj m) key val =
     lift_obj PerCpuHashObj (percpu_hash_lookup_and_delete (bk_hash K) cpu m key val)"
| "obj_lookup_and_delete K cpu (QueueObj m) key val = lift_obj QueueObj (special_lookup_and_delete QueueMap m key val)"
| "obj_lookup_and_delete K cpu (StackObj m) key val = lift_obj StackObj (special_lookup_and_delete StackMap m key val)"
| "obj_lookup_and_delete K cpu (LruObj m) key val = lift_obj LruObj (lru_lookup_and_delete (bk_cache K) m key val)"
| "obj_lookup_and_delete K cpu (PerCpuLruObj m) key val =
     lift_obj PerCpuLruObj (percpu_lru_lookup_and_delete (bk_cache K) (bk_lru K) cpu m key val)"
| "obj_lookup_and_delete K cpu m key val = eperm m"

fun obj_lookup_percpu ::
  "('c, 'pa, 'ph, 'pl) bpf_kernel \<Rightarrow> ('c, 'pa, 'ph, 'pl) bpf_obj \<Rightarrow> string \<Rightarrow> u32 \<Rightarrow>
     (fault, string option) result \<times> ('c, 'pa, 'ph, 'pl) bpf_obj" where
  "obj_lookup_percpu K (PerCpuArrayObj m) key cpu =
     lift_obj PerCpuArrayObj (percpu_array_lookup_percpu (bk_array K) m key cpu)"
| "obj_lookup_percpu K (PerCpuHashObj m) key cpu = lift_obj PerCpuHashObj (percpu_hash_lookup_percpu (bk_hash K) m key cpu)"
| "obj_lookup_percpu K (PerCpuLruObj m) key cpu =
     lift_obj PerCpuLruObj (percpu_lru_lookup_percpu (bk_cache K) (bk_lru K) m key cpu)"
| "obj_lookup_percpu K m key cpu = eperm m"

fun obj_get_next_key ::
  "('c, 'pa, 'ph, 'pl) bpf_kernel \<Rightarrow> u32 \<Rightarrow> ('c, 'pa, 'ph, 'pl) bpf_obj \<Rightarrow> string option \<Rightarrow> string \<Rightarrow>
     (fault, string) result" where
  "obj_get_next_key K cpu (ArrayObj m) key next_key = array_get_next_key m key next_key"
| "obj_get_next_key K cpu (PerCpuArrayObj m) key next_key = percpu_array_get_next_key (bk_array K) cpu m key next_key"
| "obj_get_next_key K cpu (HashObj m) key next_key = hash_get_next_key m key next_key"
| "obj_get_next_key K cpu (PerCpuHashObj m) key next_key = percpu_hash_get_next_key (bk_hash K) cpu m key next_key"
| "obj_get_next_key K cpu (LruObj m) key next_key = lru_get_next_key (bk_cache K) m key next_key"
| "obj_get_next_key K cpu (PerCpuLruObj m) key next_key =
     percpu_lru_get_next_key (bk_cache K) (bk_lru K) cpu m key next_key"
| "obj_get_next_key K cpu m key next_key = Err (Fails EPERM)"

fun obj_for_each ::
  "('c, 'pa, 'ph, 'pl) bpf_kernel \<Rightarrow> u32 \<Rightarrow> ('c, 'pa, 'ph, 'pl) bpf_obj \<Rightarrow> 's callback \<Rightarrow> 's \<Rightarrow> u64 \<Rightarrow>
     (fault, nat) result \<times> 's" where
  "obj_for_each K cpu (ArrayObj m) cb s flags = array_for_each m cb s flags"
| "obj_for_each K cpu (PerCpuArrayObj m) cb s flags = percpu_array_for_each (bk_array K) cpu m cb s flags"
| "obj_for_each K cpu (PerfEventObj m) cb s flags = perf_for_each m cb s flags"
| "obj_for_each K cpu (HashObj m) cb s flags = hash_for_each m cb s flags"
| "obj_for_each K cpu (PerCpuHashObj m) cb s flags = percpu_hash_for_each (bk_hash K) cpu m cb s flags"
| "obj_for_each K cpu (LruObj m) cb s flags = lru_for_each (bk_cache K) m cb s flags"
| "obj_for_each K cpu (PerCpuLruObj m) cb s flags = percpu_lru_for_each (bk_cache K) (bk_lru K) cpu m cb s flags"
| "obj_for_each K cpu m cb s flags = (Err (Fails EPERM), s)"

fun obj_push :: "('c, 'pa, 'ph, 'pl) bpf_obj \<Rightarrow> string \<Rightarrow> u64 \<Rightarrow> (fault, unit) result \<times> ('c, 'pa, 'ph, 'pl) bpf_obj" where
  "obj_push (QueueObj m) val flags = lift_obj QueueObj (special_push_elem QueueMap m val flags)"
| "obj_push (StackObj m) val flags = lift_obj StackObj (special_push_elem StackMap m val flags)"
| "obj_push m val flags = eperm m"

fun obj_pop :: "('c, 'pa, 'ph, 'pl) bpf_obj \<Rightarrow> string \<Rightarrow> (fault, string) result \<times> ('c, 'pa, 'ph, 'pl) bpf_obj" where
  "obj_pop (QueueObj m) val = lift_obj QueueObj (special_pop_elem QueueMap m val)"
| "obj_pop (StackObj m) val = lift_obj StackObj (special_pop_elem StackMap m val)"
| "obj_pop m val = eperm m"

fun obj_peek :: "('c, 'pa, 'ph, 'pl) bpf_obj \<Rightarrow> string \<Rightarrow> (fault, string) result" where
  "obj_peek (QueueObj m) val = special_peek_elem QueueMap m val"
| "obj_peek (StackObj m) val = special_peek_elem StackMap m val"
| "obj_peek m val = Err (Fails EPERM)"

text \<open>Only the array map accepts a freeze; it does nothing.\<close>

fun obj_freeze :: "('c, 'pa, 'ph, 'pl) bpf_obj \<Rightarrow> (fault, unit) result" where
  "obj_freeze (ArrayObj m) = Ok ()"
| "obj_freeze m = Err (Fails EPERM)"

text \<open>\<open>start\<close> is the address of the values.\<close>

fun obj_ptr_range ::
  "('c, 'pa, 'ph, 'pl) bpf_kernel \<Rightarrow> u32 \<Rightarrow> ('c, 'pa, 'ph, 'pl) bpf_obj \<Rightarrow> u64 \<Rightarrow> (fault, u64 \<times> u64) result" where
  "obj_ptr_range K cpu (ArrayObj m) start = Ok (array_ptr_range m start)"
| "obj_ptr_range K cpu (PerCpuArrayObj m) start = Ok (percpu_array_ptr_range (bk_array K) cpu m start)"
| "obj_ptr_range K cpu (PerfEventObj m) start = Ok (start, start + of_nat (length (elem_bytes (fds m))))"
| "obj_ptr_range K cpu m start = Err (Fails EPERM)"

fun obj_mem_usage :: "('c, 'pa, 'ph, 'pl) bpf_kernel \<Rightarrow> u32 \<Rightarrow> ('c, 'pa, 'ph, 'pl) bpf_obj \<Rightarrow> nat" where
  "obj_mem_usage K cpu (ArrayObj m) = array_mem_usage m"
| "obj_mem_usage K cpu (PerCpuArrayObj m) = percpu_array_mem_usage (bk_array K) cpu m"
| "obj_mem_usage K cpu (PerfEventObj m) = perf_mem_usage m"
| "obj_mem_usage K cpu (HashObj m) = hash_mem_usage m"
| "obj_mem_usage K cpu (PerCpuHashObj m) = percpu_hash_mem_usage (bk_hash K) cpu m"
| "obj_mem_usage K cpu (QueueObj m) = sp_mem_usage QueueMap m"
| "obj_mem_usage K cpu (StackObj m) = sp_mem_usage StackMap m"
| "obj_mem_usage K cpu (LruObj m) = lru_mem_usage (bk_cache K) m"
| "obj_mem_usage K cpu (PerCpuLruObj m) = percpu_lru_mem_usage (bk_cache K) (bk_lru K) cpu m"
| "obj_mem_usage K cpu (RingObj rb) = ring_mem_usage rb"

fun obj_mmap :: "('c, 'pa, 'ph, 'pl) bpf_obj \<Rightarrow> nat \<Rightarrow> nat \<Rightarrow> (fault, u64 list) result" where
  "obj_mmap (RingObj rb) offset len = ring_mmap rb offset len"
| "obj_mmap m offset len = Err (Fails EPERM)"

fun obj_readable :: "('c, 'pa, 'ph, 'pl) bpf_obj \<Rightarrow> bool" where
  "obj_readable (RingObj rb) = ring_readable rb"
| "obj_readable m = False"

end
