(* ===== verification/BpfObjSafe.thy ===== *)
theory BpfObjSafe
  imports BpfUnified
begin

text \<open>
  The invariant of the map objects and its preservation: with it, no operation of a map panics,
  whatever the keys, values, flags and buffers of the caller are.
\<close>

section \<open>Safe results\<close>

definition safe :: "('m \<Rightarrow> bool) \<Rightarrow> (fault, 'r) result \<times> 'm \<Rightarrow> bool" where
  "safe P x \<longleftrightarrow> fst x \<noteq> Err Panics \<and> P (snd x)"

lemma safe_lift [simp]: "safe P (lift_obj C x) \<longleftrightarrow> safe (\<lambda>m. P (C m)) x"
  by (simp add: safe_def lift_obj_def)

lemma safe_eperm [simp]: "safe P (eperm m) \<longleftrightarrow> P m"
  by (simp add: safe_def eperm_def)

lemma safe_same [simp]: "safe P (r, m) \<longleftrightarrow> r \<noteq> Err Panics \<and> P m"
  by (simp add: safe_def)

lemma safe_commit:
  "P m \<Longrightarrow> r \<noteq> Err Panics \<Longrightarrow> (\<And>m'. r = Ok m' \<Longrightarrow> P m') \<Longrightarrow> safe P (commit m r)"
  by (auto simp: safe_def commit_def split: sum.splits)

lemma safe_on_cpu:
  assumes "percpu_laws n pc" "cpu < n" "\<forall>d<n. P (pc_get pc p d)" "safe P (f (pc_get pc p cpu))"
  shows "safe (\<lambda>p. \<forall>d<n. P (pc_get pc p d)) (on_cpu pc cpu f p)"
  using assms by (auto simp: safe_def on_cpu_def percpu_laws_def Let_def split: prod.splits)

section \<open>Array maps\<close>

definition array_ok :: "map_meta \<Rightarrow> array_map \<Rightarrow> bool" where
  "array_ok meta m \<longleftrightarrow>
     array_wf m \<and> am_value_size m = meta_value_size meta \<and> am_max_entries m = meta_max_entries meta"

lemma array_lookup_safe: "array_ok meta m \<Longrightarrow> safe (array_ok meta) (array_lookup m key)"
  by (simp add: array_ok_def array_lookup_view)

lemma array_update_safe: "array_ok meta m \<Longrightarrow> safe (array_ok meta) (array_update m key val flags)"
proof -
  assume ok: "array_ok meta m"
  obtain r m' where u: "array_update m key val flags = (r, m')" by (cases "array_update m key val flags")
  then have "am_value_size m' = am_value_size m"
    by (auto simp: array_update_def commit_def Let_def and_then_def split: sum.splits if_splits)
  with array_update_cases [OF _ u] ok u show ?thesis by (auto simp: array_ok_def)
qed

lemma each_index_safe:
  "store_fits d n \<Longrightarrow> \<forall>i \<in> set is. i < n \<Longrightarrow> n < 2 ^ 32 \<Longrightarrow> fst (each_index d cb is used s) \<noteq> Err Panics"
proof (induction d cb "is" used s rule: each_index.induct)
  case (2 d cb i "is" used s)
  have "unat (of_nat i :: u32) < n" using 2(3,4) by (simp add: unsigned_of_nat take_bit_nat_eq_self)
  with data_index_row [OF 2(2)] 2 show ?case by (auto split: prod.splits)
qed simp

lemma array_for_each_safe: "array_ok meta m \<Longrightarrow> fst (array_for_each m cb s flags) \<noteq> Err Panics"
  using each_index_safe [of "am_data m" "unat (am_max_entries m)" "[0..<unat (am_max_entries m)]" cb 0 s]
    unsigned_less [of "am_max_entries m", where 'a = nat]
  by (auto simp: array_for_each_def array_ok_def array_wf_def)

lemma array_get_next_key_safe: "array_get_next_key m key next_key \<noteq> Err Panics"
  by (auto simp: array_get_next_key_def copy_from_slice_def Let_def split: option.split)

definition perf_ok :: "map_meta \<Rightarrow> perf_array \<Rightarrow> bool" where
  "perf_ok meta m \<longleftrightarrow>
     store_fits (fds m) (unat (num_cpus m)) \<and> elem_size (fds m) = 4 \<and> num_cpus m = meta_max_entries meta"

lemma perf_cpu_cases: "perf_cpu m key = Err (Fails EINVAL) \<or> (\<exists>c. perf_cpu m key = Ok c \<and> c < num_cpus m)"
  by (auto simp: perf_cpu_def Let_def)

lemma perf_lookup_safe: "perf_ok meta m \<Longrightarrow> safe (perf_ok meta) (perf_lookup m key)"
  using perf_cpu_cases [of m key] data_index_row [of "fds m" "unat (num_cpus m)"]
  by (auto simp: perf_ok_def perf_lookup_def word_less_nat_alt)

lemma perf_store_safe:
  assumes "perf_ok meta m" "length val = 4"
  shows "safe (perf_ok meta) (commit m (and_then (perf_cpu m key) (\<lambda>cpu_id.
    and_then (data_store (fds m) cpu_id val) (\<lambda>d. Ok (m\<lparr>fds := d\<rparr>)))))"
proof (cases "perf_cpu m key")
  case (Inl f)
  with perf_cpu_cases [of m key] assms(1) show ?thesis by (auto simp: commit_def)
next
  case (Inr c)
  then have "unat c < unat (num_cpus m)" using perf_cpu_cases [of m key] by (simp add: word_less_nat_alt)
  with data_store_Ok [of "fds m" "unat (num_cpus m)" c val] assms obtain d where
    "data_store (fds m) c val = Ok d" "store_fits d (unat (num_cpus m))" "elem_size d = 4"
    by (auto simp: perf_ok_def)
  with Inr assms show ?thesis by (simp add: commit_def perf_ok_def)
qed

lemma perf_update_safe: "perf_ok meta m \<Longrightarrow> safe (perf_ok meta) (perf_update m key val flags)"
  using perf_store_safe [of meta m val key]
  by (auto simp: perf_update_def flags_from_bits_def commit_def)

lemma perf_delete_safe: "perf_ok meta m \<Longrightarrow> safe (perf_ok meta) (perf_delete m key)"
  unfolding perf_delete_def by (rule perf_store_safe) simp_all

lemma perf_for_each_safe: "perf_ok meta m \<Longrightarrow> fst (perf_for_each m cb s flags) \<noteq> Err Panics"
  using each_index_safe [of "fds m" "unat (num_cpus m)" "[0..<unat (num_cpus m)]" cb 0 s]
    unsigned_less [of "num_cpus m", where 'a = nat]
  by (auto simp: perf_for_each_def perf_ok_def)

section \<open>Hash and LRU maps\<close>

text \<open>All keys and values have the sizes of the map.\<close>

definition sized :: "map_meta \<Rightarrow> (string \<times> string) list \<Rightarrow> bool" where
  "sized meta kvs \<longleftrightarrow>
     (\<forall>(k, v) \<in> set kvs. length k = unat (meta_key_size meta) \<and> length v = unat (meta_value_size meta))"

lemma sized_map_of: "sized meta kvs \<Longrightarrow> map_of kvs k = Some v \<Longrightarrow> length v = unat (meta_value_size meta)"
  by (auto simp: sized_def dest: map_of_SomeD)

lemma next_key_in_mem: "next_key_in kvs key = Some k \<Longrightarrow> \<exists>v. (k, v) \<in> set kvs"
proof -
  assume a: "next_key_in kvs key = Some k"
  define nxt where "nxt = (case key of None \<Rightarrow> kvs
    | Some k \<Rightarrow> (if k \<notin> set (map fst kvs) then kvs else drop 1 (dropWhile (\<lambda>(k', _). k' \<noteq> k) kvs)))"
  have "x \<in> set kvs" if "x \<in> set nxt" for x
    using that by (auto simp: nxt_def dest: in_set_dropD set_dropWhileD split: option.splits if_splits)
  moreover have "\<exists>v kvs'. nxt = (k, v) # kvs'"
    using a unfolding next_key_in_def nxt_def [symmetric] Let_def by (auto split: list.splits)
  ultimately show ?thesis by (metis list.set_intros(1))
qed

definition hash_ok :: "map_meta \<Rightarrow> hash_map \<Rightarrow> bool" where
  "hash_ok meta m \<longleftrightarrow>
     hash_wf m \<and> hm_key_size m = meta_key_size meta \<and> hm_value_size m = meta_value_size meta \<and>
     hm_max_entries m = meta_max_entries meta"

lemma hash_ok_sized: "hash_ok meta m \<Longrightarrow> sized meta (hm_data m)"
  by (auto simp: hash_ok_def hash_wf_def sized_def)

lemma hash_lookup_safe: "hash_ok meta m \<Longrightarrow> safe (hash_ok meta) (hash_lookup m key)"
  by (auto simp: hash_lookup_def and_then_Err_iff)

lemma hash_update_safe: "hash_ok meta m \<Longrightarrow> safe (hash_ok meta) (hash_update m key val flags)"
proof -
  assume ok: "hash_ok meta m"
  obtain r m' where u: "hash_update m key val flags = (r, m')" by (cases "hash_update m key val flags")
  have "hm_key_size m' = hm_key_size m \<and> hm_value_size m' = hm_value_size m \<and> hm_max_entries m' = hm_max_entries m"
    using u by (auto simp: hash_update_def commit_def Let_def and_then_def split: sum.splits if_splits)
  then show ?thesis
    using hash.update_Ok [of m key val flags _ m'] hash.update_Err [of m key val flags _ m'] ok u
    by (cases r) (auto simp: hash_ok_def hash_ops_def)
qed

lemma bt_remove_ok: "hash_ok meta m \<Longrightarrow> hash_ok meta (m\<lparr>hm_data := bt_remove key (hm_data m)\<rparr>)"
  by (auto simp: hash_ok_def hash_wf_def bt_remove_ordered)
    (auto simp: bt_remove_def intro: order_trans [OF length_filter_le])

lemma hash_delete_safe: "hash_ok meta m \<Longrightarrow> safe (hash_ok meta) (hash_delete m key)"
  unfolding hash_delete_def by (rule safe_commit) (auto simp: and_then_Err_iff and_then_Ok_iff bt_remove_ok)

lemma hash_lookup_and_delete_safe: "hash_ok meta m \<Longrightarrow> safe (hash_ok meta) (hash_lookup_and_delete m key val)"
  using hash_ok_sized [of meta m] sized_map_of [of meta "hm_data m" key] bt_remove_ok [of meta m key]
  by (auto simp: hash_lookup_and_delete_def and_then_Err_iff copy_from_slice_def Let_def
      hash_ok_def [of meta m] ok_or_def split: sum.splits option.splits)

lemma hash_get_next_key_safe: "hash_ok meta m \<Longrightarrow> hash_get_next_key m key next_key \<noteq> Err Panics"
proof -
  assume ok: "hash_ok meta m"
  have "length k = unat (hm_key_size m)" if "next_key_in (hm_data m) key = Some k" for k
    using next_key_in_mem [OF that] hash_ok_sized [OF ok] ok by (auto simp: sized_def hash_ok_def)
  then show ?thesis
    by (auto simp: hash_get_next_key_def and_then_Err_iff copy_from_slice_def split: option.splits)
qed

lemma hash_for_each_safe: "fst (hash_for_each m cb s flags) \<noteq> Err Panics"
  by (auto simp: hash_for_each_def split: prod.splits)

definition lru_ok :: "'c lru_cache \<Rightarrow> map_meta \<Rightarrow> 'c lru_map \<Rightarrow> bool" where
  "lru_ok c meta m \<longleftrightarrow>
     lm_key_size m = meta_key_size meta \<and> lm_value_size m = meta_value_size meta \<and>
     lc_cap c (lm_data m) = unat (meta_max_entries meta) \<and> 0 < lc_cap c (lm_data m) \<and> length (lc_iter c (lm_data m)) \<le> lc_cap c (lm_data m) \<and>
     sized meta (lc_iter c (lm_data m))"

lemma sized_others: "sized meta kvs \<Longrightarrow> sized meta (others k kvs)"
  using others_props(5) [of k kvs] by (auto simp: sized_def)

lemma lru_get_ok:
  assumes "lru_laws c" "lru_ok c meta m"
  shows "lru_ok c meta (m\<lparr>lm_data := snd (lc_get c (lm_data m) key)\<rparr>)"
proof (cases "map_of (lc_iter c (lm_data m)) key")
  case None
  with assms show ?thesis by (simp add: lru_ok_def lru_laws_simps)
next
  case (Some v)
  moreover from Some have "(key, v) \<in> set (lc_iter c (lm_data m))" by (rule map_of_SomeD)
  moreover have "length (others key (lc_iter c (lm_data m))) < length (lc_iter c (lm_data m))"
    using others_props(3) [of "lc_iter c (lm_data m)" key] Some by simp
  ultimately show ?thesis
    using assms sized_others [of meta "lc_iter c (lm_data m)" key]
    by (auto simp: lru_ok_def lru_laws_simps sized_def)
qed

lemma lru_lookup_safe: "lru_laws c \<Longrightarrow> lru_ok c meta m \<Longrightarrow> safe (lru_ok c meta) (lru_lookup c m key)"
  using lru_get_ok [of c meta m key] by (auto simp: lru_lookup_def split: sum.splits prod.splits)

lemma lru_put_ok:
  assumes "lru_laws c" "lru_ok c meta m" "length key = unat (meta_key_size meta)" "length val = unat (meta_value_size meta)"
  shows "lru_ok c meta (m\<lparr>lm_data := lc_put c (lm_data m) key val\<rparr>)"
proof -
  have "sized meta ((key, val) # others key (lc_iter c (lm_data m)))"
    using assms(2-4) sized_others [of meta "lc_iter c (lm_data m)" key] by (auto simp: lru_ok_def sized_def)
  then have "sized meta (take n ((key, val) # others key (lc_iter c (lm_data m))))" for n
    using set_take_subset [of n "(key, val) # others key (lc_iter c (lm_data m))"] unfolding sized_def by blast
  then show ?thesis using assms(2) by (simp add: lru_ok_def lru_laws_simps [OF assms(1)])
qed

lemma lru_update_safe: "lru_laws c \<Longrightarrow> lru_ok c meta m \<Longrightarrow> safe (lru_ok c meta) (lru_update c m key val flags)"
  unfolding lru_update_def
  by (rule safe_commit)
    (auto simp: and_then_Err_iff and_then_Ok_iff Let_def lru_put_ok lru_ok_def [of c meta m]
      dest: check_update_flags_fault split: if_splits)

lemma lru_pop_ok: "lru_laws c \<Longrightarrow> lru_ok c meta m \<Longrightarrow> lru_ok c meta (m\<lparr>lm_data := lc_pop c (lm_data m) key\<rparr>)"
  using others_props(2) [of key "lc_iter c (lm_data m)"] sized_others [of meta "lc_iter c (lm_data m)" key]
  by (simp add: lru_ok_def lru_laws_simps)

lemma lru_delete_safe: "lru_laws c \<Longrightarrow> lru_ok c meta m \<Longrightarrow> safe (lru_ok c meta) (lru_delete c m key)"
  unfolding lru_delete_def by (rule safe_commit) (auto simp: and_then_Err_iff and_then_Ok_iff lru_pop_ok)

lemma lru_lookup_and_delete_safe:
  assumes "lru_laws c" "lru_ok c meta m"
  shows "safe (lru_ok c meta) (lru_lookup_and_delete c m key val)"
proof -
  obtain found d where g: "lc_get c (lm_data m) key = (found, d)" by (cases "lc_get c (lm_data m) key")
  have ok: "lru_ok c meta (m\<lparr>lm_data := d\<rparr>)" using lru_get_ok [OF assms, of key] g by simp
  have "found = map_of (lc_iter c (lm_data m)) key" using lru_laws_simps(3) [OF assms(1), of "lm_data m" key] g by simp
  then have "length v = unat (meta_value_size meta)" if "found = Some v" for v
    using that assms(2) sized_map_of by (auto simp: lru_ok_def)
  then show ?thesis
    using assms(2) ok lru_pop_ok [OF assms(1) ok, of key] g
    by (auto simp: lru_lookup_and_delete_def and_then_Err_iff and_then_Ok_iff Let_def lru_ok_def [of c meta m]
        split: sum.splits option.splits)
qed

lemma lru_get_next_key_safe: "lru_ok c meta m \<Longrightarrow> lru_get_next_key c m key next_key \<noteq> Err Panics"
proof -
  assume ok: "lru_ok c meta m"
  have "length k = unat (lm_key_size m)" if "next_key_in (lc_iter c (lm_data m)) key = Some k" for k
    using next_key_in_mem [OF that] ok by (auto simp: sized_def lru_ok_def)
  then show ?thesis
    by (auto simp: lru_get_next_key_def and_then_Err_iff copy_from_slice_def split: option.splits)
qed

lemma lru_for_each_safe: "fst (lru_for_each c m cb s flags) \<noteq> Err Panics"
  by (auto simp: lru_for_each_def split: prod.splits)

section \<open>Queues and stacks\<close>

definition special_ok :: "map_meta \<Rightarrow> queue_map \<Rightarrow> bool" where
  "special_ok meta m \<longleftrightarrow>
     0 < unat (qm_max_entries m) \<and> length (qm_data m) \<le> unat (qm_max_entries m) \<and>
     (\<forall>v \<in> set (qm_data m). length v = unat (qm_value_size m)) \<and>
     qm_value_size m = meta_value_size meta \<and> qm_max_entries m = meta_max_entries meta"

lemma special_ok_fits:
  "special_ok meta m \<longleftrightarrow> queue.fits m \<and> qm_value_size m = meta_value_size meta \<and> qm_max_entries m = meta_max_entries meta"
  "special_ok meta m \<longleftrightarrow> stack.fits m \<and> qm_value_size m = meta_value_size meta \<and> qm_max_entries m = meta_max_entries meta"
  by (auto simp: special_ok_def queue.fits_def stack.fits_def queue_value_size_def)

lemma special_lookup_safe: "P m \<Longrightarrow> safe P (special_lookup t m key)"
  by (simp add: special_lookup_def)

lemma unat_eqD: "unat x = unat y \<Longrightarrow> x = y"
  by (simp add: unsigned_word_eqI)

lemma special_update_safe:
  assumes "special_ok meta m"
  shows "safe (special_ok meta) (special_update QueueMap m key val flags)"
    and "safe (special_ok meta) (special_update StackMap m key val flags)"
proof -
  obtain r m' where u: "special_update QueueMap m key val flags = (r, m')" by (cases "special_update QueueMap m key val flags")
  from queue.update_fits [OF _ u] assms u show "safe (special_ok meta) (special_update QueueMap m key val flags)"
    by (auto simp: special_ok_fits(1) queue_value_size_def dest: unat_eqD)
next
  obtain r m' where u: "special_update StackMap m key val flags = (r, m')" by (cases "special_update StackMap m key val flags")
  from stack.update_fits [OF _ u] assms u show "safe (special_ok meta) (special_update StackMap m key val flags)"
    by (auto simp: special_ok_fits(2) queue_value_size_def dest: unat_eqD)
qed

lemma special_lookup_and_delete_safe:
  assumes "special_ok meta m"
  shows "safe (special_ok meta) (special_lookup_and_delete QueueMap m key val)"
    and "safe (special_ok meta) (special_lookup_and_delete StackMap m key val)"
proof -
  obtain r m' where u: "special_lookup_and_delete QueueMap m key val = (r, m')"
    by (cases "special_lookup_and_delete QueueMap m key val")
  from queue.delete_fits [OF _ u] assms u show "safe (special_ok meta) (special_lookup_and_delete QueueMap m key val)"
    by (auto simp: special_ok_fits(1) queue_value_size_def dest: unat_eqD)
next
  obtain r m' where u: "special_lookup_and_delete StackMap m key val = (r, m')"
    by (cases "special_lookup_and_delete StackMap m key val")
  from stack.delete_fits [OF _ u] assms u show "safe (special_ok meta) (special_lookup_and_delete StackMap m key val)"
    by (auto simp: special_ok_fits(2) queue_value_size_def dest: unat_eqD)
qed

lemma special_peek_safe:
  assumes "special_ok meta m"
  shows "special_peek_elem QueueMap m val \<noteq> Err Panics" "special_peek_elem StackMap m val \<noteq> Err Panics"
proof -
  have "last (qm_data m) \<in> set (qm_data m)" if "qm_data m \<noteq> []" using that by simp
  then show "special_peek_elem QueueMap m val \<noteq> Err Panics" "special_peek_elem StackMap m val \<noteq> Err Panics"
    using assms
    by (auto simp: special_peek_elem_def special_ok_def QueueMap_def StackMap_def queue_peek_def stack_peek_def
        queue_value_size_def copy_from_slice_def split: list.splits)
qed

section \<open>Objects\<close>

definition kernel_ok :: "('c, 'pa, 'ph, 'pl) bpf_kernel \<Rightarrow> bool" where
  "kernel_ok K \<longleftrightarrow>
     lru_laws (bk_cache K) \<and> percpu_laws (bk_num_cpus K) (bk_array K) \<and> percpu_laws (bk_num_cpus K) (bk_hash K) \<and>
     percpu_laws (bk_num_cpus K) (bk_lru K) \<and> unat (bk_num_cpus K) < 2 ^ 30"

text \<open>The values of an array map fit 32-bit arithmetic.\<close>

definition array_fits :: "map_meta \<Rightarrow> bool" where
  "array_fits meta \<longleftrightarrow>
     meta_map_type meta \<in> {MAP_ARRAY, MAP_PERCPU_ARRAY} \<longrightarrow>
     unat (meta_value_size meta) * unat (meta_max_entries meta) < 2 ^ 32"

fun obj_ok :: "('c, 'pa, 'ph, 'pl) bpf_kernel \<Rightarrow> map_meta \<Rightarrow> ('c, 'pa, 'ph, 'pl) bpf_obj \<Rightarrow> bool" where
  "obj_ok K meta (ArrayObj m) \<longleftrightarrow> meta_map_type meta = MAP_ARRAY \<and> array_ok meta m"
| "obj_ok K meta (PerCpuArrayObj p) \<longleftrightarrow>
     meta_map_type meta = MAP_PERCPU_ARRAY \<and> (\<forall>d < bk_num_cpus K. array_ok meta (pc_get (bk_array K) p d))"
| "obj_ok K meta (PerfEventObj m) \<longleftrightarrow> meta_map_type meta = MAP_PERF_EVENT_ARRAY \<and> perf_ok meta m"
| "obj_ok K meta (HashObj m) \<longleftrightarrow> meta_map_type meta = MAP_HASH \<and> hash_ok meta m"
| "obj_ok K meta (PerCpuHashObj p) \<longleftrightarrow>
     meta_map_type meta = MAP_PERCPU_HASH \<and> (\<forall>d < bk_num_cpus K. hash_ok meta (pc_get (bk_hash K) p d))"
| "obj_ok K meta (QueueObj m) \<longleftrightarrow> meta_map_type meta = MAP_QUEUE \<and> special_ok meta m"
| "obj_ok K meta (StackObj m) \<longleftrightarrow> meta_map_type meta = MAP_STACK \<and> special_ok meta m"
| "obj_ok K meta (LruObj m) \<longleftrightarrow> meta_map_type meta = MAP_LRU_HASH \<and> lru_ok (bk_cache K) meta m"
| "obj_ok K meta (PerCpuLruObj p) \<longleftrightarrow>
     meta_map_type meta = MAP_LRU_PERCPU_HASH \<and>
     (\<forall>d < bk_num_cpus K. lru_ok (bk_cache K) meta (pc_get (bk_lru K) p d))"
| "obj_ok K meta (RingObj rb) \<longleftrightarrow> meta_map_type meta = MAP_RINGBUF"

lemma array_new_ok:
  "ArrayMap_new meta = Ok m \<Longrightarrow> unat (meta_value_size meta) * unat (meta_max_entries meta) < 2 ^ 32 \<Longrightarrow> array_ok meta m"
  using array_new_wf [of meta m] by (auto simp: array_ok_def ArrayMap_new_def split: if_splits)

lemma hash_new_ok: "BpfHashMap_new meta = Ok m \<Longrightarrow> hash_ok meta m"
  using hash_new_wf [of meta m] by (auto simp: hash_ok_def BpfHashMap_new_def split: if_splits)

lemma lru_new_ok: "lru_laws c \<Longrightarrow> LruMap_new c meta = Ok m \<Longrightarrow> lru_ok c meta m"
  using lru_new_wf [of c meta m] by (auto simp: lru_ok_def sized_def lru_wf_def)

lemma special_new_ok: "QueueMap_new meta = Ok m \<Longrightarrow> special_ok meta m"
  by (auto simp: special_ok_def QueueMap_new_def unat_gt_0 split: if_splits)

lemma perf_new_ok: "unat n < 2 ^ 30 \<Longrightarrow> PerfEventArrayMap_new meta n = Ok m \<Longrightarrow> perf_ok meta m"
  by (auto simp: perf_ok_def PerfEventArrayMap_new_def ArrayMapData_new_def store_fits_def unat_word_ariths
      split: if_splits)

lemma percpu_create_ok:
  "percpu_laws n pc \<Longrightarrow> ok_or (pc_create pc a) f = Ok p \<Longrightarrow> P a \<Longrightarrow> \<forall>d<n. P (pc_get pc p d)"
  by (auto simp: percpu_laws_def ok_or_def split: option.splits)

lemma map_obj_create_ok:
  assumes "kernel_ok K" "array_fits meta" "fst (map_obj_create K meta waker) = Ok x"
  shows "obj_ok K meta x"
  using assms
  by (cases "meta_map_type meta")
    (auto simp: map_obj_create_def kernel_ok_def array_fits_def and_then_Ok_iff PerCpuArrayMap_new_def
      PerCpuHashMap_new_def PerCpuLruMap_new_def StackMap_new_def Let_def
      intro: array_new_ok [simplified] hash_new_ok lru_new_ok special_new_ok perf_new_ok [simplified]
      dest: percpu_create_ok [where P = "array_ok meta", rotated, OF _ array_new_ok]
        percpu_create_ok [where P = "hash_ok meta", rotated, OF _ hash_new_ok]
        percpu_create_ok [where P = "lru_ok (bk_cache K) meta", rotated, OF _ lru_new_ok]
      split: if_splits prod.splits)

text \<open>The facts that carry the safety of each kind of map.\<close>

lemmas map_safe =
  array_lookup_safe array_update_safe perf_lookup_safe perf_update_safe perf_delete_safe
  hash_lookup_safe hash_update_safe hash_delete_safe hash_lookup_and_delete_safe
  lru_lookup_safe lru_update_safe lru_delete_safe lru_lookup_and_delete_safe
  special_lookup_safe special_update_safe special_lookup_and_delete_safe

lemmas percpu_defs =
  percpu_array_lookup_def percpu_array_update_def percpu_array_delete_def percpu_array_lookup_and_delete_def
  percpu_array_lookup_percpu_def percpu_array_get_next_key_def percpu_array_for_each_def
  percpu_hash_lookup_def percpu_hash_update_def percpu_hash_delete_def percpu_hash_lookup_and_delete_def
  percpu_hash_lookup_percpu_def percpu_hash_get_next_key_def percpu_hash_for_each_def
  percpu_lru_lookup_def percpu_lru_update_def percpu_lru_delete_def percpu_lru_lookup_and_delete_def
  percpu_lru_lookup_percpu_def percpu_lru_get_next_key_def percpu_lru_for_each_def

lemma safe_conj_const [simp]: "safe (\<lambda>m. b \<and> P m) x \<longleftrightarrow> b \<and> safe P x"
  by (auto simp: safe_def)

lemma percpu_safe:
  assumes "kernel_ok K" "cpu < bk_num_cpus K"
  shows "\<forall>d < bk_num_cpus K. array_ok meta (pc_get (bk_array K) pa d) \<Longrightarrow>
      safe (array_ok meta) (fa (pc_get (bk_array K) pa cpu)) \<Longrightarrow>
      safe (\<lambda>p. \<forall>d < bk_num_cpus K. array_ok meta (pc_get (bk_array K) p d)) (on_cpu (bk_array K) cpu fa pa)"
    and "\<forall>d < bk_num_cpus K. hash_ok meta (pc_get (bk_hash K) ph d) \<Longrightarrow>
      safe (hash_ok meta) (fh (pc_get (bk_hash K) ph cpu)) \<Longrightarrow>
      safe (\<lambda>p. \<forall>d < bk_num_cpus K. hash_ok meta (pc_get (bk_hash K) p d)) (on_cpu (bk_hash K) cpu fh ph)"
    and "\<forall>d < bk_num_cpus K. lru_ok (bk_cache K) meta (pc_get (bk_lru K) pl d) \<Longrightarrow>
      safe (lru_ok (bk_cache K) meta) (fl (pc_get (bk_lru K) pl cpu)) \<Longrightarrow>
      safe (\<lambda>p. \<forall>d < bk_num_cpus K. lru_ok (bk_cache K) meta (pc_get (bk_lru K) p d)) (on_cpu (bk_lru K) cpu fl pl)"
  using assms by (auto simp: kernel_ok_def intro: safe_on_cpu)

lemma kernel_ok_lru: "kernel_ok K \<Longrightarrow> lru_laws (bk_cache K)"
  by (simp add: kernel_ok_def)

lemma array_delete_safe: "P m \<Longrightarrow> safe P (array_delete m key)"
  by (simp add: array_delete_def)

lemmas obj_safe_intros = map_safe array_delete_safe percpu_safe kernel_ok_lru

lemma obj_lookup_safe:
  "kernel_ok K \<Longrightarrow> cpu < bk_num_cpus K \<Longrightarrow> obj_ok K meta m \<Longrightarrow> safe (obj_ok K meta) (obj_lookup K cpu m key)"
  by (cases m) (auto simp: percpu_defs intro!: obj_safe_intros)

lemma obj_update_safe:
  "kernel_ok K \<Longrightarrow> cpu < bk_num_cpus K \<Longrightarrow> obj_ok K meta m \<Longrightarrow> safe (obj_ok K meta) (obj_update K cpu m key val flags)"
  by (cases m) (auto simp: percpu_defs intro!: obj_safe_intros)

lemma obj_delete_safe:
  "kernel_ok K \<Longrightarrow> cpu < bk_num_cpus K \<Longrightarrow> obj_ok K meta m \<Longrightarrow> safe (obj_ok K meta) (obj_delete K cpu m key)"
  by (cases m) (auto simp: percpu_defs intro!: obj_safe_intros)

lemma obj_lookup_and_delete_safe:
  "kernel_ok K \<Longrightarrow> cpu < bk_num_cpus K \<Longrightarrow> obj_ok K meta m \<Longrightarrow>
     safe (obj_ok K meta) (obj_lookup_and_delete K cpu m key val)"
  by (cases m) (auto simp: percpu_defs intro!: obj_safe_intros)

lemma obj_lookup_percpu_safe:
  "kernel_ok K \<Longrightarrow> cpu < bk_num_cpus K \<Longrightarrow> obj_ok K meta m \<Longrightarrow> safe (obj_ok K meta) (obj_lookup_percpu K m key cpu)"
  by (cases m) (auto simp: percpu_defs intro!: obj_safe_intros)

lemma obj_push_safe: "obj_ok K meta m \<Longrightarrow> safe (obj_ok K meta) (obj_push m val flags)"
  by (cases m) (auto simp: special_push_elem_def intro!: obj_safe_intros)

lemma obj_pop_safe: "obj_ok K meta m \<Longrightarrow> safe (obj_ok K meta) (obj_pop m val)"
  by (cases m) (auto simp: special_pop_elem_def intro!: obj_safe_intros)

lemma obj_peek_safe: "obj_ok K meta m \<Longrightarrow> obj_peek m val \<noteq> Err Panics"
  by (cases m) (auto simp: special_peek_safe)

lemma obj_get_next_key_safe:
  "cpu < bk_num_cpus K \<Longrightarrow> obj_ok K meta m \<Longrightarrow> obj_get_next_key K cpu m key next_key \<noteq> Err Panics"
  by (cases m) (auto simp: percpu_defs array_get_next_key_safe dest: hash_get_next_key_safe lru_get_next_key_safe)

lemma obj_for_each_safe:
  "cpu < bk_num_cpus K \<Longrightarrow> obj_ok K meta m \<Longrightarrow> fst (obj_for_each K cpu m cb s flags) \<noteq> Err Panics"
  by (cases m)
    (auto simp: percpu_defs hash_for_each_safe lru_for_each_safe dest: array_for_each_safe perf_for_each_safe)

lemma obj_freeze_safe: "obj_freeze m \<noteq> Err Panics"
  by (cases m) simp_all

end
