(* ===== verification/BpfSyscall.thy ===== *)
theory BpfSyscall
  imports BpfObjSafe
begin

text \<open>
  The map commands of the \<open>bpf\<close> system call, \<open>bpf-basic/src/map/mod.rs\<close>: arguments from
  \<open>bpf_attr\<close>, copies from and to user memory, and the map behind a file descriptor. The file
  descriptors and user memory belong to the kernel.
\<close>

section \<open>The kernel's side\<close>

text \<open>\<open>copy_from_user\<close> fills a buffer of the given size.\<close>

record 'u user_ops =
  copy_from_user :: "'u \<Rightarrow> u64 \<Rightarrow> nat \<Rightarrow> (bpf_error, string) result"
  copy_to_user :: "'u \<Rightarrow> u64 \<Rightarrow> nat \<Rightarrow> string \<Rightarrow> (bpf_error, 'u) result"
  bad_fd :: bpf_error

definition user_laws :: "'u user_ops \<Rightarrow> bool" where
  "user_laws U \<longleftrightarrow>
     (\<forall>u p n bs. copy_from_user U u p n = Ok bs \<longrightarrow> length bs = n) \<and>
     (\<forall>u p n bs u'. copy_to_user U u p n bs = Ok u' \<longrightarrow> length bs = n \<longrightarrow> copy_from_user U u' p n = Ok bs)"

record ('u, 'm) bpf_sys =
  sys_maps :: "u32 \<Rightarrow> 'm option"
  sys_user :: 'u

text \<open>\<open>get_unified_map_from_fd\<close>: the closure works on the map and on user memory.\<close>

definition with_map ::
  "'u user_ops \<Rightarrow> ('u, 'm) bpf_sys \<Rightarrow> u32 \<Rightarrow> ('m \<Rightarrow> 'u \<Rightarrow> (fault, 'r) result \<times> 'm \<times> 'u) \<Rightarrow>
     (fault, 'r) result \<times> ('u, 'm) bpf_sys" where
  "with_map U st fd f =
     (case sys_maps st fd of
        None \<Rightarrow> (Err (Fails (bad_fd U)), st)
      | Some um \<Rightarrow>
          (let (r, um, u) = f um (sys_user st)
           in (r, \<lparr>sys_maps = (sys_maps st)(fd \<mapsto> um), sys_user = u\<rparr>)))"

definition read_user :: "'u user_ops \<Rightarrow> 'u \<Rightarrow> u64 \<Rightarrow> nat \<Rightarrow> (fault, string) result" where
  "read_user U u p n = (case copy_from_user U u p n of Inl e \<Rightarrow> Err (Fails e) | Inr bs \<Rightarrow> Ok bs)"

section \<open>Arguments\<close>

text \<open>The element part of \<open>bpf_attr\<close>; \<open>ea_value\<close> is the union of \<open>value\<close> and \<open>next_key\<close>.\<close>

record elem_attr =
  ea_map_fd :: u32
  ea_key :: u64
  ea_value :: u64
  ea_flags :: u64

record update_arg =
  ua_map_fd :: u32
  ua_key :: u64
  ua_value :: u64
  ua_flags :: u64

record next_key_arg =
  na_map_fd :: u32
  na_key :: "u64 option"
  na_next_key :: u64

definition update_arg_from :: "elem_attr \<Rightarrow> update_arg" where
  "update_arg_from a = \<lparr>ua_map_fd = ea_map_fd a, ua_key = ea_key a, ua_value = ea_value a, ua_flags = ea_flags a\<rparr>"

definition next_key_arg_from :: "elem_attr \<Rightarrow> next_key_arg" where
  "next_key_arg_from a =
     \<lparr>na_map_fd = ea_map_fd a, na_key = (if ea_key a \<noteq> 0 then Some (ea_key a) else None), na_next_key = ea_value a\<rparr>"

section \<open>The commands\<close>

type_synonym ('u, 'c, 'pa, 'ph, 'pl) sys = "('u, ('c, 'pa, 'ph, 'pl) unified_map) bpf_sys"

definition bpf_map_update_elem ::
  "'u user_ops \<Rightarrow> ('c, 'pa, 'ph, 'pl) bpf_kernel \<Rightarrow> u32 \<Rightarrow> ('u, 'c, 'pa, 'ph, 'pl) sys \<Rightarrow> update_arg \<Rightarrow>
     (fault, unit) result \<times> ('u, 'c, 'pa, 'ph, 'pl) sys" where
  "bpf_map_update_elem U K cpu st arg =
     with_map U st (ua_map_fd arg) (\<lambda>um u.
       case and_then (read_user U u (ua_key arg) (unat (meta_key_size (um_meta um)))) (\<lambda>key.
            and_then (read_user U u (ua_value arg) (unat (meta_value_size (um_meta um)))) (\<lambda>val. Ok (key, val))) of
         Inl f \<Rightarrow> (Err f, um, u)
       | Inr (key, val) \<Rightarrow>
           (let (r, m) = obj_update K cpu (um_obj um) key val (ua_flags arg) in (r, um\<lparr>um_obj := m\<rparr>, u)))"

definition bpf_map_freeze ::
  "'u user_ops \<Rightarrow> ('u, 'c, 'pa, 'ph, 'pl) sys \<Rightarrow> u32 \<Rightarrow> (fault, unit) result \<times> ('u, 'c, 'pa, 'ph, 'pl) sys" where
  "bpf_map_freeze U st fd = with_map U st fd (\<lambda>um u. (obj_freeze (um_obj um), um, u))"

definition bpf_lookup_elem ::
  "'u user_ops \<Rightarrow> ('c, 'pa, 'ph, 'pl) bpf_kernel \<Rightarrow> u32 \<Rightarrow> ('u, 'c, 'pa, 'ph, 'pl) sys \<Rightarrow> update_arg \<Rightarrow>
     (fault, unit) result \<times> ('u, 'c, 'pa, 'ph, 'pl) sys" where
  "bpf_lookup_elem U K cpu st arg =
     with_map U st (ua_map_fd arg) (\<lambda>um u.
       case read_user U u (ua_key arg) (unat (meta_key_size (um_meta um))) of
         Inl f \<Rightarrow> (Err f, um, u)
       | Inr key \<Rightarrow>
           (let (r, m) = obj_lookup K cpu (um_obj um) key; um = um\<lparr>um_obj := m\<rparr> in
            case r of
              Inl f \<Rightarrow> (Err f, um, u)
            | Inr None \<Rightarrow> (Err (Fails ENOENT), um, u)
            | Inr (Some r_value) \<Rightarrow>
                (case copy_to_user U u (ua_value arg) (unat (meta_value_size (um_meta um))) r_value of
                   Inl e \<Rightarrow> (Err (Fails e), um, u)
                 | Inr u \<Rightarrow> (Ok (), um, u))))"

text \<open>\<open>next_key\<close> starts as a buffer of zero bytes.\<close>

definition bpf_map_get_next_key ::
  "'u user_ops \<Rightarrow> ('c, 'pa, 'ph, 'pl) bpf_kernel \<Rightarrow> u32 \<Rightarrow> ('u, 'c, 'pa, 'ph, 'pl) sys \<Rightarrow> next_key_arg \<Rightarrow>
     (fault, unit) result \<times> ('u, 'c, 'pa, 'ph, 'pl) sys" where
  "bpf_map_get_next_key U K cpu st arg =
     with_map U st (na_map_fd arg) (\<lambda>um u.
       let key_size = unat (meta_key_size (um_meta um));
           next_key = replicate key_size (CHR 0x00);
           r = (case na_key arg of
                  Some key_ptr \<Rightarrow>
                    and_then (read_user U u key_ptr key_size) (\<lambda>key.
                      obj_get_next_key K cpu (um_obj um) (Some key) next_key)
                | None \<Rightarrow> obj_get_next_key K cpu (um_obj um) None next_key)
       in case r of
            Inl f \<Rightarrow> (Err f, um, u)
          | Inr next_key \<Rightarrow>
              (case copy_to_user U u (na_next_key arg) key_size next_key of
                 Inl e \<Rightarrow> (Err (Fails e), um, u)
               | Inr u \<Rightarrow> (Ok (), um, u)))"

definition bpf_map_delete_elem ::
  "'u user_ops \<Rightarrow> ('c, 'pa, 'ph, 'pl) bpf_kernel \<Rightarrow> u32 \<Rightarrow> ('u, 'c, 'pa, 'ph, 'pl) sys \<Rightarrow> update_arg \<Rightarrow>
     (fault, unit) result \<times> ('u, 'c, 'pa, 'ph, 'pl) sys" where
  "bpf_map_delete_elem U K cpu st arg =
     with_map U st (ua_map_fd arg) (\<lambda>um u.
       case read_user U u (ua_key arg) (unat (meta_key_size (um_meta um))) of
         Inl f \<Rightarrow> (Err f, um, u)
       | Inr key \<Rightarrow> (let (r, m) = obj_delete K cpu (um_obj um) key in (r, um\<lparr>um_obj := m\<rparr>, u)))"

definition bpf_map_lookup_batch :: "update_arg \<Rightarrow> (fault, nat) result" where
  "bpf_map_lookup_batch arg = Err (Fails EPERM)"

definition bpf_map_lookup_and_delete_elem ::
  "'u user_ops \<Rightarrow> ('c, 'pa, 'ph, 'pl) bpf_kernel \<Rightarrow> u32 \<Rightarrow> ('u, 'c, 'pa, 'ph, 'pl) sys \<Rightarrow> update_arg \<Rightarrow>
     (fault, unit) result \<times> ('u, 'c, 'pa, 'ph, 'pl) sys" where
  "bpf_map_lookup_and_delete_elem U K cpu st arg =
     with_map U st (ua_map_fd arg) (\<lambda>um u.
       let value_size = unat (meta_value_size (um_meta um)) in
       case read_user U u (ua_key arg) (unat (meta_key_size (um_meta um))) of
         Inl f \<Rightarrow> (Err f, um, u)
       | Inr key \<Rightarrow>
           (let (r, m) = obj_lookup_and_delete K cpu (um_obj um) key (replicate value_size (CHR 0x00));
                um = um\<lparr>um_obj := m\<rparr>
            in case r of
                 Inl f \<Rightarrow> (Err f, um, u)
               | Inr val \<Rightarrow>
                   (case copy_to_user U u (ua_value arg) value_size val of
                      Inl e \<Rightarrow> (Err (Fails e), um, u)
                    | Inr u \<Rightarrow> (Ok (), um, u))))"

section \<open>Sequences of commands\<close>

text \<open>A map that is created is installed under a descriptor that the kernel chooses.\<close>

datatype bpf_call =
    MapCreate u32 create_attr bool
  | UpdateElem update_arg
  | LookupElem update_arg
  | GetNextKey next_key_arg
  | DeleteElem update_arg
  | LookupAndDelete update_arg
  | Freeze u32

fun bpf_step ::
  "'u user_ops \<Rightarrow> ('c, 'pa, 'ph, 'pl) bpf_kernel \<Rightarrow> u32 \<Rightarrow> ('u, 'c, 'pa, 'ph, 'pl) sys \<Rightarrow> bpf_call \<Rightarrow>
     (fault, unit) result \<times> ('u, 'c, 'pa, 'ph, 'pl) sys" where
  "bpf_step U K cpu st (MapCreate fd attr waker) =
     (case and_then (meta_try_from attr) (\<lambda>meta. fst (bpf_map_create K meta waker)) of
        Inl f \<Rightarrow> (Err f, st)
      | Inr um \<Rightarrow> (Ok (), st\<lparr>sys_maps := (sys_maps st)(fd \<mapsto> um)\<rparr>))"
| "bpf_step U K cpu st (UpdateElem arg) = bpf_map_update_elem U K cpu st arg"
| "bpf_step U K cpu st (LookupElem arg) = bpf_lookup_elem U K cpu st arg"
| "bpf_step U K cpu st (GetNextKey arg) = bpf_map_get_next_key U K cpu st arg"
| "bpf_step U K cpu st (DeleteElem arg) = bpf_map_delete_elem U K cpu st arg"
| "bpf_step U K cpu st (LookupAndDelete arg) = bpf_map_lookup_and_delete_elem U K cpu st arg"
| "bpf_step U K cpu st (Freeze fd) = bpf_map_freeze U st fd"

fun bpf_run ::
  "'u user_ops \<Rightarrow> ('c, 'pa, 'ph, 'pl) bpf_kernel \<Rightarrow> ('u, 'c, 'pa, 'ph, 'pl) sys \<Rightarrow> (u32 \<times> bpf_call) list \<Rightarrow>
     (fault, unit) result list \<times> ('u, 'c, 'pa, 'ph, 'pl) sys" where
  "bpf_run U K st [] = ([], st)"
| "bpf_run U K st ((cpu, c) # cs) =
     (let (r, st) = bpf_step U K cpu st c; (rs, st) = bpf_run U K st cs in (r # rs, st))"

section \<open>Type safety\<close>

definition map_ok :: "('c, 'pa, 'ph, 'pl) bpf_kernel \<Rightarrow> ('c, 'pa, 'ph, 'pl) unified_map \<Rightarrow> bool" where
  "map_ok K um \<longleftrightarrow> obj_ok K (um_meta um) (um_obj um)"

definition sys_ok :: "('c, 'pa, 'ph, 'pl) bpf_kernel \<Rightarrow> ('u, 'c, 'pa, 'ph, 'pl) sys \<Rightarrow> bool" where
  "sys_ok K st \<longleftrightarrow> (\<forall>fd um. sys_maps st fd = Some um \<longrightarrow> map_ok K um)"

lemma with_map_safe:
  assumes "sys_ok K st"
    and "\<And>um. sys_maps st fd = Some um \<Longrightarrow> map_ok K um \<Longrightarrow>
      fst (f um (sys_user st)) \<noteq> Err Panics \<and> map_ok K (fst (snd (f um (sys_user st))))"
  shows "safe (sys_ok K) (with_map U st fd f)"
proof (cases "sys_maps st fd")
  case None
  with assms(1) show ?thesis by (simp add: with_map_def)
next
  case (Some um)
  with assms(1) have "map_ok K um" by (simp add: sys_ok_def)
  with assms Some show ?thesis
    by (cases "f um (sys_user st)") (auto simp: with_map_def sys_ok_def)
qed

lemma read_user_safe [simp]: "read_user U u p n \<noteq> Err Panics"
  by (simp add: read_user_def split: sum.splits)

lemma ok_or_Err [simp]: "ok_or x f = Inl g \<longleftrightarrow> x = None \<and> g = f"
  by (auto simp: ok_or_def split: option.splits)

lemma new_safe:
  "ArrayMap_new meta \<noteq> Err Panics" "BpfHashMap_new meta \<noteq> Err Panics" "LruMap_new c meta \<noteq> Err Panics"
  "QueueMap_new meta \<noteq> Err Panics" "StackMap_new meta \<noteq> Err Panics" "PerfEventArrayMap_new meta n \<noteq> Err Panics"
  "PerCpuArrayMap_new pa meta \<noteq> Err Panics" "PerCpuHashMap_new ph meta \<noteq> Err Panics"
  "PerCpuLruMap_new c pl meta \<noteq> Err Panics"
  by (simp_all add: ArrayMap_new_def BpfHashMap_new_def LruMap_new_def QueueMap_new_def StackMap_new_def
      PerfEventArrayMap_new_def PerCpuArrayMap_new_def PerCpuHashMap_new_def PerCpuLruMap_new_def and_then_Err_iff)

lemma ring_new_safe: "fst (RingBuf_new R meta) \<noteq> Err Panics"
  by (simp add: RingBuf_new_def Let_def split: sum.splits prod.splits)

lemma create_safe: "fst (bpf_map_create K meta waker) \<noteq> Err Panics"
proof -
  have "fst (map_obj_create K meta waker) \<noteq> Err Panics"
    using new_safe ring_new_safe [of "bk_ring K" meta]
    by (cases "meta_map_type meta") (simp_all add: map_obj_create_def and_then_Err_iff Let_def split_beta)
  then show ?thesis by (simp add: bpf_map_create_def Let_def split_beta and_then_Err_iff)
qed

lemma create_map_ok:
  "kernel_ok K \<Longrightarrow> array_fits meta \<Longrightarrow> fst (bpf_map_create K meta waker) = Ok um \<Longrightarrow> map_ok K um"
  using map_obj_create_ok [of K meta waker]
  by (auto simp: bpf_map_create_def map_ok_def and_then_Ok_iff Let_def split: prod.splits)

text \<open>The calls of a client: its CPU exists and the arrays that it creates fit 32 bits.\<close>

fun call_fits :: "bpf_call \<Rightarrow> bool" where
  "call_fits (MapCreate fd attr waker) \<longleftrightarrow> (\<forall>meta. meta_try_from attr = Ok meta \<longrightarrow> array_fits meta)"
| "call_fits c \<longleftrightarrow> True"

lemma meta_try_from_safe: "meta_try_from attr \<noteq> Err Panics"
  by (auto simp: meta_try_from_def and_then_Err_iff name_until_nul_def map_type_of_def create_flags_from_bits_def
      Let_def split: if_splits)

lemma bpf_step_safe:
  assumes K: "kernel_ok K" and cpu: "cpu < bk_num_cpus K" and st: "sys_ok K st" and c: "call_fits c"
  shows "safe (sys_ok K) (bpf_step U K cpu st c)"
proof (cases c)
  case (MapCreate fd attr waker)
  show ?thesis
  proof (cases "and_then (meta_try_from attr) (\<lambda>meta. fst (bpf_map_create K meta waker))")
    case (Inl f)
    then have "f \<noteq> Panics"
      using create_safe [of K _ waker] meta_try_from_safe [of attr] by (auto simp: and_then_Err_iff)
    then show ?thesis using Inl st MapCreate by simp
  next
    case (Inr um)
    then obtain meta where "meta_try_from attr = Ok meta" "fst (bpf_map_create K meta waker) = Ok um"
      by (auto simp: and_then_Ok_iff)
    then have "map_ok K um" using create_map_ok [OF K] c MapCreate by simp
    then show ?thesis using Inr st MapCreate by (simp add: sys_ok_def)
  qed
next
  case (UpdateElem arg)
  have "safe (obj_ok K (um_meta um)) (obj_update K cpu (um_obj um) key val flags)" if "map_ok K um" for um key val flags
    using obj_update_safe [OF K cpu] that by (simp add: map_ok_def)
  then show ?thesis
    unfolding UpdateElem bpf_step.simps bpf_map_update_elem_def
    by (intro with_map_safe [OF st])
      (auto simp: map_ok_def safe_def Let_def split_beta and_then_Err_iff split: sum.splits)
next
  case (LookupElem arg)
  have "safe (obj_ok K (um_meta um)) (obj_lookup K cpu (um_obj um) key)" if "map_ok K um" for um key
    using obj_lookup_safe [OF K cpu] that by (simp add: map_ok_def)
  then show ?thesis
    unfolding LookupElem bpf_step.simps bpf_lookup_elem_def
    by (intro with_map_safe [OF st])
      (auto simp: map_ok_def safe_def Let_def split_beta split: sum.splits option.splits)
next
  case (GetNextKey arg)
  have "obj_get_next_key K cpu (um_obj um) key buf \<noteq> Err Panics" if "map_ok K um" for um key buf
    using obj_get_next_key_safe [OF cpu] that by (simp add: map_ok_def)
  then show ?thesis
    unfolding GetNextKey bpf_step.simps bpf_map_get_next_key_def
    by (intro with_map_safe [OF st])
      (auto simp: Let_def and_then_Err_iff split: sum.splits option.splits)
next
  case (DeleteElem arg)
  have "safe (obj_ok K (um_meta um)) (obj_delete K cpu (um_obj um) key)" if "map_ok K um" for um key
    using obj_delete_safe [OF K cpu] that by (simp add: map_ok_def)
  then show ?thesis
    unfolding DeleteElem bpf_step.simps bpf_map_delete_elem_def
    by (intro with_map_safe [OF st]) (auto simp: map_ok_def safe_def Let_def split_beta split: sum.splits)
next
  case (LookupAndDelete arg)
  have "safe (obj_ok K (um_meta um)) (obj_lookup_and_delete K cpu (um_obj um) key val)" if "map_ok K um" for um key val
    using obj_lookup_and_delete_safe [OF K cpu] that by (simp add: map_ok_def)
  then show ?thesis
    unfolding LookupAndDelete bpf_step.simps bpf_map_lookup_and_delete_elem_def
    by (intro with_map_safe [OF st]) (auto simp: map_ok_def safe_def Let_def split_beta split: sum.splits)
next
  case (Freeze fd)
  then show ?thesis
    by (auto simp: bpf_map_freeze_def obj_freeze_safe intro!: with_map_safe [OF st])
qed

lemma bpf_run_safe:
  "kernel_ok K \<Longrightarrow> sys_ok K st \<Longrightarrow> \<forall>(cpu, c) \<in> set cs. cpu < bk_num_cpus K \<and> call_fits c \<Longrightarrow>
     bpf_run U K st cs = (rs, st') \<Longrightarrow> Err Panics \<notin> set rs \<and> sys_ok K st'"
proof (induction cs arbitrary: st rs)
  case (Cons d cs)
  obtain cpu c where d: "d = (cpu, c)" by (cases d)
  obtain r st1 where s: "bpf_step U K cpu st c = (r, st1)" by (cases "bpf_step U K cpu st c")
  obtain rs1 st2 where t: "bpf_run U K st1 cs = (rs1, st2)" by (cases "bpf_run U K st1 cs")
  have "safe (sys_ok K) (r, st1)"
    using bpf_step_safe [of K cpu st c U] Cons.prems d s by simp
  then show ?case
    using Cons.IH [of st1 rs1] Cons.prems d s t by auto
qed simp

text \<open>
  The map commands are type safe. From a system without maps, whatever commands are issued on
  any CPUs with any arguments and user memory, none panics, and every map is an object of the
  implementation that its metadata names, with the sizes, the capacity and the invariant of that
  implementation - as long as the arrays that are created have a byte size below \<open>2 ^ 32\<close>.
\<close>

theorem map_commands_type_safe:
  assumes "kernel_ok K" "\<forall>(cpu, c) \<in> set cs. cpu < bk_num_cpus K \<and> call_fits c"
    and "bpf_run U K \<lparr>sys_maps = \<lambda>_. None, sys_user = u\<rparr> cs = (rs, st)"
  shows "Err Panics \<notin> set rs \<and> (\<forall>fd um. sys_maps st fd = Some um \<longrightarrow> obj_ok K (um_meta um) (um_obj um))"
  using bpf_run_safe [OF assms(1) _ assms(2,3)] by (simp add: sys_ok_def map_ok_def)

section \<open>Reading what was written\<close>

text \<open>The maps whose elements are found by their keys.\<close>

definition keyed :: "bpf_map_type \<Rightarrow> bool" where
  "keyed ty \<longleftrightarrow>
     ty \<in> {MAP_ARRAY, MAP_PERCPU_ARRAY, MAP_PERF_EVENT_ARRAY, MAP_HASH, MAP_PERCPU_HASH, MAP_LRU_HASH,
           MAP_LRU_PERCPU_HASH}"

lemma array_update_lookup:
  assumes "array_ok meta m" "array_update m key val flags = (Ok u, m')"
  shows "fst (array_lookup m' key) = Ok (Some val)"
proof -
  have wf: "array_wf m'" "array_view m' = (array_view m)(key \<mapsto> val)"
    using array_update_cases [of m key val flags "Ok u" m'] assms by (auto simp: array_ok_def)
  then have "array_view m' key = Some val" by simp
  then have "length key = 4 \<and> index_of key < am_max_entries m'" by (auto simp: array_view_def split: if_splits)
  with wf show ?thesis by (simp add: array_lookup_view)
qed

lemma perf_update_lookup:
  assumes "perf_ok meta m" "perf_update m key val flags = (Ok u, m')"
  shows "fst (perf_lookup m' key) = Ok (Some val)"
proof -
  obtain c d where c: "perf_cpu m key = Ok c" "length val = 4" "data_store (fds m) c val = Ok d" "m' = m\<lparr>fds := d\<rparr>"
    using assms(2) by (auto simp: perf_update_def commit_iffs and_then_Ok_iff split: if_splits)
  then have lt: "unat c < unat (num_cpus m)" using perf_cpu_cases [of m key] by (auto simp: word_less_nat_alt)
  with data_store_Ok [of "fds m" "unat (num_cpus m)" c val] assms(1) c have
    "store_fits d (unat (num_cpus m))" "row d (unat c) = val" by (auto simp: perf_ok_def)
  then have "data_index d c = Ok val" using data_index_row [of d "unat (num_cpus m)" c] lt by simp
  moreover have "perf_cpu m' key = Ok c" using c(1,4) by (auto simp: perf_cpu_def split: if_splits)
  ultimately show ?thesis using c(4) by (simp add: perf_lookup_def)
qed

lemma hash_update_lookup:
  assumes "hash_ok meta m" "hash_update m key val flags = (Ok u, m')"
  shows "fst (hash_lookup m' key) = Ok (Some val)"
proof -
  have "hash_view m' key = Some val"
    using hash.update_Ok [of m key val flags u m'] assms by (auto simp: hash_ok_def hash_ops_def)
  moreover have "length key = unat (hm_key_size m')"
    using assms(2) by (auto simp: hash_update_def commit_iffs and_then_Ok_iff Let_def split: if_splits)
  ultimately show ?thesis by (simp add: hash_lookup_def hash_view_def check_len_def)
qed

lemma lru_update_lookup:
  assumes "lru_laws c" "lru_ok c meta m" "lru_update c m key val flags = (Ok u, m')"
  shows "fst (lru_lookup c m' key) = Ok (Some val)"
proof -
  have m': "m' = m\<lparr>lm_data := lc_put c (lm_data m) key val\<rparr>" "length key = unat (lm_key_size m)"
    using assms(3) by (auto simp: lru_update_def commit_iffs and_then_Ok_iff Let_def split: if_splits)
  obtain n where n: "lc_cap c (lm_data m) = Suc n" using assms(2) by (cases "lc_cap c (lm_data m)") (auto simp: lru_ok_def)
  have "fst (lc_get c (lm_data m') key) = Some val"
    using n by (simp add: m'(1) lru_laws_simps [OF assms(1)])
  then show ?thesis using m' by (cases "lc_get c (lm_data m') key") (simp add: lru_lookup_def check_len_def)
qed

lemma on_cpu_update_lookup:
  assumes "percpu_laws n pc" "cpu < n" "fst (on_cpu pc cpu f p) = r"
    and "\<And>m'. f (pc_get pc p cpu) = (r, m') \<Longrightarrow> fst (g m') = x"
  shows "fst (on_cpu pc cpu g (snd (on_cpu pc cpu f p))) = x"
  using assms by (auto simp: on_cpu_def percpu_laws_def Let_def split: prod.splits)

lemma obj_update_lookup:
  assumes "kernel_ok K" "cpu < bk_num_cpus K" "obj_ok K meta m" "keyed (meta_map_type meta)"
    and "obj_update K cpu m key val flags = (Ok u, m')"
  shows "fst (obj_lookup K cpu m' key) = Ok (Some val)"
proof -
  have laws: "percpu_laws (bk_num_cpus K) (bk_array K)" "percpu_laws (bk_num_cpus K) (bk_hash K)"
    "percpu_laws (bk_num_cpus K) (bk_lru K)" and lru: "lru_laws (bk_cache K)"
    using assms(1) by (simp_all add: kernel_ok_def)
  show ?thesis
  proof (cases m)
    case (PerCpuArrayObj p)
    then show ?thesis
      using assms(2,3,5) array_update_lookup [of meta "pc_get (bk_array K) p cpu" key val flags u]
      by (auto simp: lift_obj_def percpu_array_update_def percpu_array_lookup_def intro!: on_cpu_update_lookup [OF laws(1)])
  next
    case (PerCpuHashObj p)
    then show ?thesis
      using assms(2,3,5) hash_update_lookup [of meta "pc_get (bk_hash K) p cpu" key val flags u]
      by (auto simp: lift_obj_def percpu_hash_update_def percpu_hash_lookup_def intro!: on_cpu_update_lookup [OF laws(2)])
  next
    case (PerCpuLruObj p)
    then show ?thesis
      using assms(2,3,5) lru_update_lookup [OF lru, of meta "pc_get (bk_lru K) p cpu" key val flags u]
      by (auto simp: lift_obj_def percpu_lru_update_def percpu_lru_lookup_def intro!: on_cpu_update_lookup [OF laws(3)])
  next
    case (ArrayObj x)
    then show ?thesis using assms(3,5) array_update_lookup [of meta x key val flags u] by (auto simp: lift_obj_def prod_eq_iff)
  next
    case (PerfEventObj x)
    then show ?thesis using assms(3,5) perf_update_lookup [of meta x key val flags u] by (auto simp: lift_obj_def prod_eq_iff)
  next
    case (HashObj x)
    then show ?thesis using assms(3,5) hash_update_lookup [of meta x key val flags u] by (auto simp: lift_obj_def prod_eq_iff)
  next
    case (LruObj x)
    then show ?thesis
      using assms(3,5) lru_update_lookup [OF lru, of meta x key val flags u] by (auto simp: lift_obj_def prod_eq_iff)
  qed (use assms(3,4) in \<open>auto simp: keyed_def\<close>)
qed

text \<open>
  C36: what a program stores it reads back. After a successful \<open>BPF_MAP_UPDATE_ELEM\<close> on an
  array, hash, LRU or perf event map or one of their per-CPU variants, \<open>BPF_MAP_LOOKUP_ELEM\<close> with
  the same key on the same CPU succeeds and leaves at its output address the bytes that the update
  read from user memory - unless the kernel cannot write there.
\<close>

theorem update_lookup_roundtrip:
  assumes "kernel_ok K" "user_laws U" "cpu < bk_num_cpus K" "sys_ok K st"
    and "sys_maps st (ua_map_fd arg) = Some um" "keyed (meta_map_type (um_meta um))"
    and "bpf_map_update_elem U K cpu st arg = (Ok (), st1)"
    and "ua_map_fd arg' = ua_map_fd arg" "ua_key arg' = ua_key arg"
    and "\<forall>bs. \<exists>u. copy_to_user U (sys_user st1) (ua_value arg') (unat (meta_value_size (um_meta um))) bs = Ok u"
  shows "\<exists>st2. bpf_lookup_elem U K cpu st1 arg' = (Ok (), st2) \<and>
    copy_from_user U (sys_user st2) (ua_value arg') (unat (meta_value_size (um_meta um))) =
    copy_from_user U (sys_user st) (ua_value arg) (unat (meta_value_size (um_meta um)))"
proof -
  let ?ks = "unat (meta_key_size (um_meta um))" and ?vs = "unat (meta_value_size (um_meta um))"
  obtain key val m' where key: "copy_from_user U (sys_user st) (ua_key arg) ?ks = Ok key"
    and val: "copy_from_user U (sys_user st) (ua_value arg) ?vs = Ok val"
    and upd: "obj_update K cpu (um_obj um) key val (ua_flags arg) = (Ok (), m')"
    and st1: "st1 = \<lparr>sys_maps = (sys_maps st)(ua_map_fd arg \<mapsto> um\<lparr>um_obj := m'\<rparr>), sys_user = sys_user st\<rparr>"
    using assms(5,7)
    by (auto simp: bpf_map_update_elem_def with_map_def and_then_Ok_iff read_user_def Let_def
        split: sum.splits prod.splits)
  have "obj_ok K (um_meta um) (um_obj um)" using assms(4,5) by (simp add: sys_ok_def map_ok_def)
  from obj_update_lookup [OF assms(1,3) this assms(6) upd] obtain m2 where
    look: "obj_lookup K cpu m' key = (Ok (Some val), m2)" by (cases "obj_lookup K cpu m' key") auto
  obtain u where u: "copy_to_user U (sys_user st) (ua_value arg') ?vs val = Ok u" using assms(10) st1 by auto
  have "length val = ?vs" using assms(2) val by (simp add: user_laws_def)
  then have "copy_from_user U u (ua_value arg') ?vs = Ok val" using assms(2) u unfolding user_laws_def by blast
  then show ?thesis
    using key val look u assms(8,9) by (simp add: bpf_lookup_elem_def with_map_def st1 read_user_def)
qed

section \<open>Examples\<close>

text \<open>A kernel with two CPUs, no free pages, and user memory that keeps blocks of bytes.\<close>

definition demo_kernel ::
  "(nat \<times> (string \<times> string) list, u32 \<Rightarrow> array_map, u32 \<Rightarrow> hash_map,
    u32 \<Rightarrow> (nat \<times> (string \<times> string) list) lru_map) bpf_kernel" where
  "demo_kernel =
     \<lparr>bk_cache = list_lru, bk_array = fun_percpu, bk_hash = fun_percpu, bk_lru = fun_percpu,
      bk_ring = \<lparr>alloc_page = \<lambda>_. Err ENOMEM, vmap = \<lambda>_. Err ENOMEM, fresh_mem = \<lambda>_. CHR 0x00\<rparr>,
      bk_num_cpus = 2\<rparr>"

definition block_user :: "(u64 \<Rightarrow> string) user_ops" where
  "block_user =
     \<lparr>copy_from_user = \<lambda>u p n. if length (u p) = n then Ok (u p) else Err EFAULT,
      copy_to_user = \<lambda>u p n bs. Ok (u(p := bs)), bad_fd = EINVAL\<rparr>"

lemma demo_kernel_ok: "kernel_ok demo_kernel"
  by (simp add: kernel_ok_def demo_kernel_def list_lru_laws fun_percpu_laws)

lemma block_user_laws: "user_laws block_user"
  by (simp add: user_laws_def block_user_def)

definition demo_attr :: create_attr where
  "demo_attr =
     \<lparr>attr_map_type = 2, attr_key_size = 4, attr_value_size = 8, attr_max_entries = 16, attr_map_flags = 0,
      attr_map_name = ''a'' @ replicate 15 (CHR 0x00)\<rparr>"

definition demo_arg :: "u64 \<Rightarrow> u64 \<Rightarrow> update_arg" where
  "demo_arg k v = \<lparr>ua_map_fd = 3, ua_key = k, ua_value = v, ua_flags = 0\<rparr>"

lemma demo_call_fits: "call_fits (MapCreate 3 demo_attr False)"
proof -
  have "array_fits meta" if "meta_try_from demo_attr = Ok meta" for meta
  proof -
    have "meta_value_size meta = 8" "meta_max_entries meta = 16"
      using that by (auto simp: meta_try_from_def and_then_Ok_iff demo_attr_def)
    then show ?thesis by (simp add: array_fits_def)
  qed
  then show ?thesis by simp
qed

theorem map_commands_type_safe_witness:
  "Err Panics \<notin> set (fst (bpf_run block_user demo_kernel \<lparr>sys_maps = \<lambda>_. None, sys_user = \<lambda>_. ''key!''\<rparr>
     [(0, MapCreate 3 demo_attr False), (1, UpdateElem (demo_arg 1 2)), (0, LookupElem (demo_arg 1 2))]))"
proof -
  let ?st = "\<lparr>sys_maps = \<lambda>_. None, sys_user = \<lambda>_. ''key!''\<rparr>"
  let ?cs = "[(0, MapCreate 3 demo_attr False), (1, UpdateElem (demo_arg 1 2)), (0, LookupElem (demo_arg 1 2))]"
  obtain rs st where run: "bpf_run block_user demo_kernel ?st ?cs = (rs, st)"
    by (cases "bpf_run block_user demo_kernel ?st ?cs")
  have "\<forall>(cpu, c) \<in> set ?cs. cpu < bk_num_cpus demo_kernel \<and> call_fits c"
    using demo_call_fits by (simp add: demo_kernel_def del: call_fits.simps(1))
  from map_commands_type_safe [OF demo_kernel_ok this run] run show ?thesis by simp
qed

text \<open>A hash map under descriptor 3; user memory holds a key at address 1 and a value at address 2.\<close>

definition demo_sys :: "(string \<times> string) list \<Rightarrow> (u64 \<Rightarrow> string, nat \<times> (string \<times> string) list, u32 \<Rightarrow> array_map,
    u32 \<Rightarrow> hash_map, u32 \<Rightarrow> (nat \<times> (string \<times> string) list) lru_map) sys" where
  "demo_sys kvs =
     \<lparr>sys_maps = [3 \<mapsto> \<lparr>um_obj = HashObj (small_map kvs), um_meta = small_meta\<rparr>],
      sys_user = (\<lambda>_. [])(1 := ''k'', 2 := ''v1'')\<rparr>"

lemma demo_sys_ok: "sys_ok demo_kernel (demo_sys [])"
  using hash_new_ok [OF new_small_map] by (auto simp: sys_ok_def demo_sys_def map_ok_def small_meta_def)

lemma demo_update:
  "bpf_map_update_elem block_user demo_kernel 0 (demo_sys []) (demo_arg 1 2) = (Ok (), demo_sys [(''k'', ''v1'')])"
  by (simp add: bpf_map_update_elem_def with_map_def demo_sys_def demo_arg_def read_user_def block_user_def
      small_meta_def small_map_def lift_obj_def hash_update_def commit_def check_len_def check_update_flags_def
      flags_from_bits_def has_bits_def update_flag_defs Let_def)

theorem update_lookup_roundtrip_witness:
  "\<exists>st2. bpf_lookup_elem block_user demo_kernel 0 (demo_sys [(''k'', ''v1'')]) (demo_arg 1 9) = (Ok (), st2) \<and>
    sys_user st2 9 = ''v1''"
proof -
  have maps: "sys_maps (demo_sys []) (ua_map_fd (demo_arg 1 2)) = Some \<lparr>um_obj = HashObj (small_map []), um_meta = small_meta\<rparr>"
    by (simp add: demo_sys_def demo_arg_def)
  have "\<exists>st2. bpf_lookup_elem block_user demo_kernel 0 (demo_sys [(''k'', ''v1'')]) (demo_arg 1 9) = (Ok (), st2) \<and>
    copy_from_user block_user (sys_user st2) 9 2 = copy_from_user block_user (sys_user (demo_sys [])) 2 2"
    using update_lookup_roundtrip [OF demo_kernel_ok block_user_laws _ demo_sys_ok maps _ demo_update, of "demo_arg 1 9"]
    by (simp add: demo_arg_def small_meta_def keyed_def block_user_def demo_kernel_def)
  then show ?thesis by (auto simp: block_user_def demo_sys_def split: if_splits)
qed

end
