(* ===== verification/BpfHelper.thy ===== *)
theory BpfHelper
  imports BpfSyscall RingRecords BTreeMap
begin

text \<open>
  The helper functions that eBPF programs call, \<open>bpf-basic/src/helper/mod.rs\<close> and
  \<open>bpf-basic/src/helper/ringbuf.rs\<close>: element access by the address of a map, queues and stacks,
  perf events, memory and strings, \<open>trace_printk\<close>, ring buffer samples and dynamic pointers, and
  the table from helper numbers to functions. The maps are those of the map commands; the program's
  memory is a function from addresses to bytes.
\<close>

section \<open>The kernel's side and the state\<close>

type_synonym prog_memory = "u64 \<Rightarrow> char"

definition load_bytes :: "prog_memory \<Rightarrow> u64 \<Rightarrow> nat \<Rightarrow> string" where
  "load_bytes mem p n = map (\<lambda>i. mem (p + of_nat i)) [0..<n]"

fun store_bytes :: "prog_memory \<Rightarrow> u64 \<Rightarrow> string \<Rightarrow> prog_memory" where
  "store_bytes mem p [] = mem"
| "store_bytes mem p (b # bs) = store_bytes (mem(p := b)) (p + 1) bs"

definition load_u64 :: "prog_memory \<Rightarrow> u64 \<Rightarrow> u64" where
  "load_u64 mem p = of_nat (le_nat (load_bytes mem p 8))"

text \<open>
  The services of \<open>KernelAuxiliaryOps\<close>: the descriptor of the map at an address, the error for an
  address without a map, perf output, strings in user memory and the clock. \<open>ho_printf\<close> is \<open>format\<close>
  of the crate \<open>printf_compat\<close> with the kernel's writer: it formats the text at an address with
  three arguments and returns the number of bytes. \<open>ho_callback\<close> runs the program's function at an
  address with a context. \<open>ho_ring_of\<close> is the descriptor of the ring buffer that is mapped at an
  address. The last type is the rest of the kernel's state.
\<close>

record ('u, 's) helper_ops =
  ho_map_of :: "u64 \<Rightarrow> u32 option"
  ho_no_map :: bpf_error
  ho_perf_event_output :: "u64 \<Rightarrow> u32 \<Rightarrow> u32 \<Rightarrow> string \<Rightarrow> 's \<Rightarrow> (bpf_error, unit) result \<times> 's"
  ho_user_cstr :: "'u \<Rightarrow> u64 \<Rightarrow> (bpf_error, string) result"
  ho_time_ns :: "'s \<Rightarrow> (bpf_error, u64) result"
  ho_printf :: "prog_memory \<Rightarrow> u64 \<Rightarrow> u64 list \<Rightarrow> 's \<Rightarrow> 32 word \<times> 's"
  ho_callback :: "u64 \<Rightarrow> u64 \<Rightarrow> (prog_memory \<times> 's) callback"
  ho_ring_of :: "u64 \<Rightarrow> u32 option"

text \<open>\<open>BpfDynPtr\<close> of \<open>bpf-basic/src/map/stream/mod.rs\<close>.\<close>

record dyn_ptr =
  dp_data :: u64
  dp_size :: u32
  dp_offset :: u32

text \<open>The state: the maps, the program's memory, the dynamic pointers by their addresses, the rest.\<close>

record ('y, 's) prog_state =
  ps_sys :: 'y
  ps_mem :: prog_memory
  ps_dyn :: "u64 \<Rightarrow> dyn_ptr"
  ps_rest :: 's

type_synonym ('u, 'c, 'pa, 'ph, 'pl, 's) prog = "(('u, 'c, 'pa, 'ph, 'pl) sys, 's) prog_state"

text \<open>What a helper returns: a number or an address, or the address of a value, null when absent.\<close>

datatype helper_ret = Ret u64 | ValuePtr "string option"

text \<open>\<open>LinuxError\<close> is an enumeration of the Linux error numbers; \<open>e as _\<close> is the number itself.\<close>

fun errno :: "bpf_error \<Rightarrow> u64" where
  "errno EPERM = 1"
| "errno ENOENT = 2"
| "errno EAGAIN = 11"
| "errno ENOMEM = 12"
| "errno EFAULT = 14"
| "errno EEXIST = 17"
| "errno EINVAL = 22"
| "errno ENOSPC = 28"
| "errno (OtherErrno n) = scast n"

text \<open>The end of every raw helper: the value of a success, or the error number.\<close>

fun ret_of :: "('a \<Rightarrow> u64) \<Rightarrow> (fault, 'a) result \<Rightarrow> (fault, helper_ret) result" where
  "ret_of f (Inr x) = Ok (Ret (f x))"
| "ret_of f (Inl (Fails e)) = Ok (Ret (errno e))"
| "ret_of f (Inl Panics) = Err Panics"

definition ret_unit :: "(fault, unit) result \<Rightarrow> (fault, helper_ret) result" where
  "ret_unit = ret_of (\<lambda>_. 0)"

text \<open>\<open>get_unified_map_from_ptr\<close>: the closure works on the map and on the state.\<close>

definition with_map_ptr ::
  "('u, 's) helper_ops \<Rightarrow> ('u, 'c, 'pa, 'ph, 'pl, 's) prog \<Rightarrow> u64 \<Rightarrow>
     (('c, 'pa, 'ph, 'pl) unified_map \<Rightarrow> ('u, 'c, 'pa, 'ph, 'pl, 's) prog \<Rightarrow>
       (fault, 'r) result \<times> ('c, 'pa, 'ph, 'pl) unified_map \<times> ('u, 'c, 'pa, 'ph, 'pl, 's) prog) \<Rightarrow>
     (fault, 'r) result \<times> ('u, 'c, 'pa, 'ph, 'pl, 's) prog" where
  "with_map_ptr H st p f =
     (case Option.bind (ho_map_of H p) (\<lambda>fd. map_option (Pair fd) (sys_maps (ps_sys st) fd)) of
        None \<Rightarrow> (Err (Fails (ho_no_map H)), st)
      | Some (fd, um) \<Rightarrow>
          (let (r, um, st) = f um st; y = ps_sys st
           in (r, st\<lparr>ps_sys := y\<lparr>sys_maps := (sys_maps y)(fd \<mapsto> um)\<rparr>\<rparr>)))"

text \<open>An operation on the object of a map.\<close>

definition on_obj ::
  "('c, 'pa, 'ph, 'pl) unified_map \<Rightarrow> 'r \<times> ('c, 'pa, 'ph, 'pl) bpf_obj \<Rightarrow> 'r \<times> ('c, 'pa, 'ph, 'pl) unified_map" where
  "on_obj um x = (fst x, um\<lparr>um_obj := snd x\<rparr>)"

abbreviation key_at :: "('u, 'c, 'pa, 'ph, 'pl, 's) prog \<Rightarrow> ('c, 'pa, 'ph, 'pl) unified_map \<Rightarrow> u64 \<Rightarrow> string" where
  "key_at st um p \<equiv> load_bytes (ps_mem st) p (unat (meta_key_size (um_meta um)))"

abbreviation value_at :: "('u, 'c, 'pa, 'ph, 'pl, 's) prog \<Rightarrow> ('c, 'pa, 'ph, 'pl) unified_map \<Rightarrow> u64 \<Rightarrow> string" where
  "value_at st um p \<equiv> load_bytes (ps_mem st) p (unat (meta_value_size (um_meta um)))"

section \<open>Printing\<close>

definition fmt_flags :: string where "fmt_flags = ''-+#0 .0123456789lhL*''"
definition fmt_types :: string where "fmt_types = ''cdieEfFgGosuxXpn''"

text \<open>The format text from the position on; the two loops of the code.\<close>

function extract_format_specifiers :: "string \<Rightarrow> nat" where
  "extract_format_specifiers [] = 0"
| "extract_format_specifiers (c # cs) =
     (if c = CHR ''%'' then
        if cs \<noteq> [] \<and> hd cs = CHR ''%'' then extract_format_specifiers (tl cs)
        else
          let rest = dropWhile (\<lambda>d. d \<in> set fmt_flags) cs in
          if rest \<noteq> [] \<and> hd rest \<in> set fmt_types then 1 + extract_format_specifiers (tl rest)
          else extract_format_specifiers rest
      else extract_format_specifiers cs)"
  by pat_completeness auto
termination
proof (relation "measure length", goal_cases)
  case (2 c cs)
  then show ?case by (cases cs) auto
next
  case (3 c cs rest)
  have "length rest \<le> length cs" using 3 by (simp add: length_dropWhile_le)
  then show ?case by simp
next
  case (4 c cs rest)
  have "length rest \<le> length cs" using 4 by (simp add: length_dropWhile_le)
  then show ?case by simp
qed simp_all

text \<open>
  \<open>trace_printf\<close>: the number of specifiers says how many of the three arguments are read through
  their addresses; the others are 0. \<open>printf\<close> adds one for the final null byte.
\<close>

definition trace_printf ::
  "('u, 's) helper_ops \<Rightarrow> ('u, 'c, 'pa, 'ph, 'pl, 's) prog \<Rightarrow> u64 \<Rightarrow> u64 \<Rightarrow> u64 \<Rightarrow> u64 \<Rightarrow> u64 \<Rightarrow>
     (fault, helper_ret) result \<times> ('u, 'c, 'pa, 'ph, 'pl, 's) prog" where
  "trace_printf H st fmt_ptr fmt_len arg3 arg4 arg5 =
     (let fmt_arg_count = extract_format_specifiers (load_bytes (ps_mem st) fmt_ptr (unat fmt_len));
          arg = load_u64 (ps_mem st)
      in if fmt_arg_count \<notin> {0, 1, 2, 3} then (Ok (Ret (- 1)), st)
         else
           let args = (if fmt_arg_count = 0 then [0, 0, 0]
                       else if fmt_arg_count = 1 then [arg arg3, 0, 0]
                       else if fmt_arg_count = 2 then [arg arg3, arg arg4, 0]
                       else [arg arg3, arg arg4, arg arg5]);
               (bytes_written, rest) = ho_printf H (ps_mem st) fmt_ptr args (ps_rest st)
           in (Ok (Ret (scast (bytes_written + 1))), st\<lparr>ps_rest := rest\<rparr>))"

section \<open>Elements of maps\<close>

text \<open>An error of the lookup is reported as an absent element.\<close>

definition map_lookup_elem ::
  "('c, 'pa, 'ph, 'pl) bpf_kernel \<Rightarrow> u32 \<Rightarrow> ('c, 'pa, 'ph, 'pl) unified_map \<Rightarrow> string \<Rightarrow>
     (fault, string option) result \<times> ('c, 'pa, 'ph, 'pl) unified_map" where
  "map_lookup_elem K cpu um key =
     (let (r, um) = on_obj um (obj_lookup K cpu (um_obj um) key)
      in (case r of Inl Panics \<Rightarrow> Err Panics | Inr (Some val) \<Rightarrow> Ok (Some val) | _ \<Rightarrow> Ok None, um))"

definition raw_map_lookup_elem ::
  "('u, 's) helper_ops \<Rightarrow> ('c, 'pa, 'ph, 'pl) bpf_kernel \<Rightarrow> u32 \<Rightarrow> ('u, 'c, 'pa, 'ph, 'pl, 's) prog \<Rightarrow> u64 \<Rightarrow> u64 \<Rightarrow>
     (fault, helper_ret) result \<times> ('u, 'c, 'pa, 'ph, 'pl, 's) prog" where
  "raw_map_lookup_elem H K cpu st map_p key_p =
     (let (r, st) = with_map_ptr H st map_p (\<lambda>um st.
            let (r, um) = map_lookup_elem K cpu um (key_at st um key_p) in (r, um, st))
      in (case r of Inl Panics \<Rightarrow> Err Panics | Inr v \<Rightarrow> Ok (ValuePtr v) | Inl _ \<Rightarrow> Ok (ValuePtr None), st))"

definition map_update_elem ::
  "('c, 'pa, 'ph, 'pl) bpf_kernel \<Rightarrow> u32 \<Rightarrow> ('c, 'pa, 'ph, 'pl) unified_map \<Rightarrow> string \<Rightarrow> string \<Rightarrow> u64 \<Rightarrow>
     (fault, unit) result \<times> ('c, 'pa, 'ph, 'pl) unified_map" where
  "map_update_elem K cpu um key val flags = on_obj um (obj_update K cpu (um_obj um) key val flags)"

definition raw_map_update_elem ::
  "('u, 's) helper_ops \<Rightarrow> ('c, 'pa, 'ph, 'pl) bpf_kernel \<Rightarrow> u32 \<Rightarrow> ('u, 'c, 'pa, 'ph, 'pl, 's) prog \<Rightarrow>
     u64 \<Rightarrow> u64 \<Rightarrow> u64 \<Rightarrow> u64 \<Rightarrow> (fault, helper_ret) result \<times> ('u, 'c, 'pa, 'ph, 'pl, 's) prog" where
  "raw_map_update_elem H K cpu st map_p key_p value_p flags =
     (let (r, st) = with_map_ptr H st map_p (\<lambda>um st.
            let (r, um) = map_update_elem K cpu um (key_at st um key_p) (value_at st um value_p) flags in (r, um, st))
      in (ret_unit r, st))"

definition map_delete_elem ::
  "('c, 'pa, 'ph, 'pl) bpf_kernel \<Rightarrow> u32 \<Rightarrow> ('c, 'pa, 'ph, 'pl) unified_map \<Rightarrow> string \<Rightarrow>
     (fault, unit) result \<times> ('c, 'pa, 'ph, 'pl) unified_map" where
  "map_delete_elem K cpu um key = on_obj um (obj_delete K cpu (um_obj um) key)"

definition raw_map_delete_elem ::
  "('u, 's) helper_ops \<Rightarrow> ('c, 'pa, 'ph, 'pl) bpf_kernel \<Rightarrow> u32 \<Rightarrow> ('u, 'c, 'pa, 'ph, 'pl, 's) prog \<Rightarrow> u64 \<Rightarrow> u64 \<Rightarrow>
     (fault, helper_ret) result \<times> ('u, 'c, 'pa, 'ph, 'pl, 's) prog" where
  "raw_map_delete_elem H K cpu st map_p key_p =
     (let (r, st) = with_map_ptr H st map_p (\<lambda>um st.
            let (r, um) = map_delete_elem K cpu um (key_at st um key_p) in (r, um, st))
      in (ret_unit r, st))"

text \<open>
  The walk over the elements runs the callback under the lock of the map, on the program's memory
  and on the rest of the state. The address of the callback is read from the program's memory.
\<close>

definition map_for_each_elem ::
  "('c, 'pa, 'ph, 'pl) bpf_kernel \<Rightarrow> u32 \<Rightarrow> ('c, 'pa, 'ph, 'pl) unified_map \<Rightarrow> 'x callback \<Rightarrow> 'x \<Rightarrow> u64 \<Rightarrow>
     (fault, nat) result \<times> 'x" where
  "map_for_each_elem K cpu um cb x flags = obj_for_each K cpu (um_obj um) cb x flags"

definition raw_map_for_each_elem ::
  "('u, 's) helper_ops \<Rightarrow> ('c, 'pa, 'ph, 'pl) bpf_kernel \<Rightarrow> u32 \<Rightarrow> ('u, 'c, 'pa, 'ph, 'pl, 's) prog \<Rightarrow>
     u64 \<Rightarrow> u64 \<Rightarrow> u64 \<Rightarrow> u64 \<Rightarrow> (fault, helper_ret) result \<times> ('u, 'c, 'pa, 'ph, 'pl, 's) prog" where
  "raw_map_for_each_elem H K cpu st map_p cb ctx flags =
     (if cb = 0 then (Ok (Ret (errno EINVAL)), st)
      else
        let (r, st) = with_map_ptr H st map_p (\<lambda>um st.
              let f = ho_callback H (load_u64 (ps_mem st) cb) ctx;
                  (r, mem, rest) = map_for_each_elem K cpu um f (ps_mem st, ps_rest st) flags
              in (r, um, st\<lparr>ps_mem := mem, ps_rest := rest\<rparr>))
        in (ret_of (\<lambda>n. ucast (of_nat n :: u32)) r, st))"

definition map_lookup_percpu_elem ::
  "('c, 'pa, 'ph, 'pl) bpf_kernel \<Rightarrow> ('c, 'pa, 'ph, 'pl) unified_map \<Rightarrow> string \<Rightarrow> u32 \<Rightarrow>
     (fault, string option) result \<times> ('c, 'pa, 'ph, 'pl) unified_map" where
  "map_lookup_percpu_elem K um key cpu =
     (let (r, um) = on_obj um (obj_lookup_percpu K (um_obj um) key cpu)
      in (case r of Inl Panics \<Rightarrow> Err Panics | Inr (Some val) \<Rightarrow> Ok (Some val) | _ \<Rightarrow> Ok None, um))"

definition raw_map_lookup_percpu_elem ::
  "('u, 's) helper_ops \<Rightarrow> ('c, 'pa, 'ph, 'pl) bpf_kernel \<Rightarrow> ('u, 'c, 'pa, 'ph, 'pl, 's) prog \<Rightarrow> u64 \<Rightarrow> u64 \<Rightarrow> u32 \<Rightarrow>
     (fault, helper_ret) result \<times> ('u, 'c, 'pa, 'ph, 'pl, 's) prog" where
  "raw_map_lookup_percpu_elem H K st map_p key_p cpu =
     (let (r, st) = with_map_ptr H st map_p (\<lambda>um st.
            let (r, um) = map_lookup_percpu_elem K um (key_at st um key_p) cpu in (r, um, st))
      in (case r of Inl Panics \<Rightarrow> Err Panics | Inr v \<Rightarrow> Ok (ValuePtr v) | Inl _ \<Rightarrow> Ok (ValuePtr None), st))"

section \<open>Queues and stacks\<close>

definition map_push_elem ::
  "('c, 'pa, 'ph, 'pl) unified_map \<Rightarrow> string \<Rightarrow> u64 \<Rightarrow> (fault, unit) result \<times> ('c, 'pa, 'ph, 'pl) unified_map" where
  "map_push_elem um val flags = on_obj um (obj_push (um_obj um) val flags)"

definition raw_map_push_elem ::
  "('u, 's) helper_ops \<Rightarrow> ('u, 'c, 'pa, 'ph, 'pl, 's) prog \<Rightarrow> u64 \<Rightarrow> u64 \<Rightarrow> u64 \<Rightarrow>
     (fault, helper_ret) result \<times> ('u, 'c, 'pa, 'ph, 'pl, 's) prog" where
  "raw_map_push_elem H st map_p value_p flags =
     (let (r, st) = with_map_ptr H st map_p (\<lambda>um st.
            let (r, um) = map_push_elem um (value_at st um value_p) flags in (r, um, st))
      in (ret_unit r, st))"

text \<open>The buffer that a pop or a peek fills is a slice of the program's memory.\<close>

definition fill_buffer :: "('y, 's) prog_state \<Rightarrow> u64 \<Rightarrow> (fault, string) result \<Rightarrow> (fault, unit) result \<times> ('y, 's) prog_state" where
  "fill_buffer st p r =
     (case r of Inl f \<Rightarrow> (Err f, st) | Inr bs \<Rightarrow> (Ok (), st\<lparr>ps_mem := store_bytes (ps_mem st) p bs\<rparr>))"

definition map_pop_elem ::
  "('c, 'pa, 'ph, 'pl) unified_map \<Rightarrow> string \<Rightarrow> (fault, string) result \<times> ('c, 'pa, 'ph, 'pl) unified_map" where
  "map_pop_elem um val = on_obj um (obj_pop (um_obj um) val)"

definition raw_map_pop_elem ::
  "('u, 's) helper_ops \<Rightarrow> ('u, 'c, 'pa, 'ph, 'pl, 's) prog \<Rightarrow> u64 \<Rightarrow> u64 \<Rightarrow>
     (fault, helper_ret) result \<times> ('u, 'c, 'pa, 'ph, 'pl, 's) prog" where
  "raw_map_pop_elem H st map_p value_p =
     (let (r, st) = with_map_ptr H st map_p (\<lambda>um st.
            let (r, um') = map_pop_elem um (value_at st um value_p);
                (r, st) = fill_buffer st value_p r
            in (r, um', st))
      in (ret_unit r, st))"

definition map_peek_elem :: "('c, 'pa, 'ph, 'pl) unified_map \<Rightarrow> string \<Rightarrow> (fault, string) result" where
  "map_peek_elem um val = obj_peek (um_obj um) val"

definition raw_map_peek_elem ::
  "('u, 's) helper_ops \<Rightarrow> ('u, 'c, 'pa, 'ph, 'pl, 's) prog \<Rightarrow> u64 \<Rightarrow> u64 \<Rightarrow>
     (fault, helper_ret) result \<times> ('u, 'c, 'pa, 'ph, 'pl, 's) prog" where
  "raw_map_peek_elem H st map_p value_p =
     (let (r, st) = with_map_ptr H st map_p (\<lambda>um st.
            let (r, st) = fill_buffer st value_p (map_peek_elem um (value_at st um value_p)) in (r, um, st))
      in (ret_unit r, st))"

section \<open>Perf events, time and memory\<close>

definition BPF_F_CURRENT_CPU :: u64 where "BPF_F_CURRENT_CPU = 4294967295"

text \<open>The lower half of the flags is the index in the map, or the current CPU.\<close>

definition perf_event_output ::
  "('u, 's) helper_ops \<Rightarrow> ('c, 'pa, 'ph, 'pl) bpf_kernel \<Rightarrow> u32 \<Rightarrow> 's \<Rightarrow> u64 \<Rightarrow> ('c, 'pa, 'ph, 'pl) unified_map \<Rightarrow>
     u64 \<Rightarrow> string \<Rightarrow> (fault, unit) result \<times> ('c, 'pa, 'ph, 'pl) unified_map \<times> 's" where
  "perf_event_output H K cpu rest ctx um flags data =
     (let index = (ucast flags :: u32);
          flags = (ucast (drop_bit 32 flags) :: u32);
          key = (if index = ucast BPF_F_CURRENT_CPU then cpu else index);
          (r, um) = on_obj um (obj_lookup K cpu (um_obj um) (le_bytes 4 (unat key)))
      in case r of
           Inl f \<Rightarrow> (Err f, um, rest)
         | Inr None \<Rightarrow> (Err (Fails ENOENT), um, rest)
         | Inr (Some fd) \<Rightarrow>
             (if length fd \<noteq> 4 then (Err (Fails EINVAL), um, rest)
              else
                let (r, rest) = ho_perf_event_output H ctx (of_nat (le_nat fd)) flags data rest
                in (case r of Inl e \<Rightarrow> Err (Fails e) | Inr _ \<Rightarrow> Ok (), um, rest)))"

definition raw_perf_event_output ::
  "('u, 's) helper_ops \<Rightarrow> ('c, 'pa, 'ph, 'pl) bpf_kernel \<Rightarrow> u32 \<Rightarrow> ('u, 'c, 'pa, 'ph, 'pl, 's) prog \<Rightarrow>
     u64 \<Rightarrow> u64 \<Rightarrow> u64 \<Rightarrow> u64 \<Rightarrow> u64 \<Rightarrow> (fault, helper_ret) result \<times> ('u, 'c, 'pa, 'ph, 'pl, 's) prog" where
  "raw_perf_event_output H K cpu st ctx map_p flags data_p len =
     (let (r, st) = with_map_ptr H st map_p (\<lambda>um st.
            let (r, um, rest) = perf_event_output H K cpu (ps_rest st) ctx um flags
                  (load_bytes (ps_mem st) data_p (unat len))
            in (r, um, st\<lparr>ps_rest := rest\<rparr>))
      in (ret_unit r, st))"

definition bpf_probe_read :: "string \<Rightarrow> string \<Rightarrow> (fault, string) result" where
  "bpf_probe_read dst src = copy_from_slice dst src"

definition raw_bpf_probe_read ::
  "('y, 's) prog_state \<Rightarrow> u64 \<Rightarrow> u32 \<Rightarrow> u64 \<Rightarrow> (fault, helper_ret) result \<times> ('y, 's) prog_state" where
  "raw_bpf_probe_read st dst len unsafe_ptr =
     (let (r, st) = fill_buffer st dst
            (bpf_probe_read (load_bytes (ps_mem st) dst (unat len)) (load_bytes (ps_mem st) unsafe_ptr (unat len)))
      in (ret_unit r, st))"

text \<open>\<open>unwrap_or_default\<close>: without a clock the time is 0.\<close>

definition bpf_ktime_get_ns :: "('u, 's) helper_ops \<Rightarrow> ('y, 's) prog_state \<Rightarrow> u64" where
  "bpf_ktime_get_ns H st = (case ho_time_ns H (ps_rest st) of Inl e \<Rightarrow> 0 | Inr t \<Rightarrow> t)"

text \<open>The result has the new content of the buffer and the length with the final null byte.\<close>

definition probe_read_user_str ::
  "('u, 's) helper_ops \<Rightarrow> 'u \<Rightarrow> string \<Rightarrow> u64 \<Rightarrow> (fault, string \<times> nat) result" where
  "probe_read_user_str H u dst src =
     (if dst = [] then Err (Fails EINVAL)
      else case ho_user_cstr H u src of
        Inl e \<Rightarrow> Err (Fails e)
      | Inr str \<Rightarrow>
          let copy_len = min (length str) (length dst - 1);
              dst = take copy_len str @ drop copy_len dst;
              dst = dst[copy_len := CHR 0x00]
          in Ok (dst, copy_len + 1))"

definition raw_probe_read_user_str ::
  "('u, 's) helper_ops \<Rightarrow> ('u, 'c, 'pa, 'ph, 'pl, 's) prog \<Rightarrow> u64 \<Rightarrow> u32 \<Rightarrow> u64 \<Rightarrow>
     (fault, helper_ret) result \<times> ('u, 'c, 'pa, 'ph, 'pl, 's) prog" where
  "raw_probe_read_user_str H st dst len unsafe_ptr =
     (case probe_read_user_str H (sys_user (ps_sys st)) (load_bytes (ps_mem st) dst (unat len)) unsafe_ptr of
        Inl f \<Rightarrow> (ret_of id (Inl f), st)
      | Inr (bs, n) \<Rightarrow> (Ok (Ret (of_nat n)), st\<lparr>ps_mem := store_bytes (ps_mem st) dst bs\<rparr>))"

section \<open>Ring buffers\<close>

definition as_ring :: "('c, 'pa, 'ph, 'pl) unified_map \<Rightarrow> ringbuf option" where
  "as_ring um = (case um_obj um of RingObj rb \<Rightarrow> Some rb | _ \<Rightarrow> None)"

definition bpf_ringbuf_output ::
  "('c, 'pa, 'ph, 'pl) unified_map \<Rightarrow> string \<Rightarrow> u64 \<Rightarrow> (fault, unit) result \<times> ('c, 'pa, 'ph, 'pl) unified_map" where
  "bpf_ringbuf_output um data flags =
     (case as_ring um of
        None \<Rightarrow> (Err (Fails EINVAL), um)
      | Some rb \<Rightarrow> on_obj um (lift_obj RingObj (ring_output rb data flags)))"

definition raw_bpf_ringbuf_output ::
  "('u, 's) helper_ops \<Rightarrow> ('u, 'c, 'pa, 'ph, 'pl, 's) prog \<Rightarrow> u64 \<Rightarrow> u64 \<Rightarrow> u64 \<Rightarrow> u64 \<Rightarrow>
     (fault, helper_ret) result \<times> ('u, 'c, 'pa, 'ph, 'pl, 's) prog" where
  "raw_bpf_ringbuf_output H st map_p data_p len flags =
     (let (r, st) = with_map_ptr H st map_p (\<lambda>um st.
            let (r, um) = bpf_ringbuf_output um (load_bytes (ps_mem st) data_p (unat len)) flags in (r, um, st))
      in (ret_unit r, st))"

definition bpf_ringbuf_reserve ::
  "('c, 'pa, 'ph, 'pl) unified_map \<Rightarrow> u64 \<Rightarrow> (fault, u64) result \<times> ('c, 'pa, 'ph, 'pl) unified_map" where
  "bpf_ringbuf_reserve um len =
     (case as_ring um of
        None \<Rightarrow> (Err (Fails EINVAL), um)
      | Some rb \<Rightarrow> on_obj um (lift_obj RingObj (ring_reserve rb len)))"

text \<open>The raw helper returns null on every error.\<close>

definition raw_bpf_ringbuf_reserve ::
  "('u, 's) helper_ops \<Rightarrow> ('u, 'c, 'pa, 'ph, 'pl, 's) prog \<Rightarrow> u64 \<Rightarrow> u64 \<Rightarrow> u64 \<Rightarrow>
     (fault, helper_ret) result \<times> ('u, 'c, 'pa, 'ph, 'pl, 's) prog" where
  "raw_bpf_ringbuf_reserve H st map_p len flags =
     (if flags \<noteq> 0 then (Ok (Ret 0), st)
      else
        let (r, st) = with_map_ptr H st map_p (\<lambda>um st. let (r, um) = bpf_ringbuf_reserve um len in (r, um, st))
        in (case r of Inl Panics \<Rightarrow> Err Panics | Inl _ \<Rightarrow> Ok (Ret 0) | Inr p \<Rightarrow> Ok (Ret p), st))"

text \<open>
  \<open>RingBuf::commit\<close> finds its ring buffer from the sample alone. A sample outside every ring buffer
  is undefined behaviour; the model panics there.
\<close>

definition commit_sample ::
  "('u, 's) helper_ops \<Rightarrow> ('u, 'c, 'pa, 'ph, 'pl, 's) prog \<Rightarrow> u64 \<Rightarrow> u64 \<Rightarrow> bool \<Rightarrow>
     (fault, unit) result \<times> ('u, 'c, 'pa, 'ph, 'pl, 's) prog" where
  "commit_sample H st sample flags discard =
     (case Option.bind (ho_ring_of H sample) (\<lambda>fd.
            Option.bind (sys_maps (ps_sys st) fd) (\<lambda>um. map_option (\<lambda>rb. (fd, um, rb)) (as_ring um))) of
        None \<Rightarrow> (Err Panics, st)
      | Some (fd, um, rb) \<Rightarrow>
          (let (r, rb) = ring_commit rb sample flags discard; y = ps_sys st
           in (r, st\<lparr>ps_sys := y\<lparr>sys_maps := (sys_maps y)(fd \<mapsto> um\<lparr>um_obj := RingObj rb\<rparr>)\<rparr>\<rparr>)))"

definition bpf_ringbuf_submit ::
  "('u, 's) helper_ops \<Rightarrow> ('u, 'c, 'pa, 'ph, 'pl, 's) prog \<Rightarrow> u64 \<Rightarrow> u64 \<Rightarrow>
     (fault, unit) result \<times> ('u, 'c, 'pa, 'ph, 'pl, 's) prog" where
  "bpf_ringbuf_submit H st sample flags =
     (case ring_flags flags of Inl f \<Rightarrow> (Err f, st) | Inr flags \<Rightarrow> commit_sample H st sample flags False)"

definition raw_bpf_ringbuf_submit ::
  "('u, 's) helper_ops \<Rightarrow> ('u, 'c, 'pa, 'ph, 'pl, 's) prog \<Rightarrow> u64 \<Rightarrow> u64 \<Rightarrow>
     (fault, helper_ret) result \<times> ('u, 'c, 'pa, 'ph, 'pl, 's) prog" where
  "raw_bpf_ringbuf_submit H st sample flags =
     (let (r, st) = bpf_ringbuf_submit H st sample flags in (ret_unit r, st))"

definition bpf_ringbuf_discard ::
  "('u, 's) helper_ops \<Rightarrow> ('u, 'c, 'pa, 'ph, 'pl, 's) prog \<Rightarrow> u64 \<Rightarrow> u64 \<Rightarrow>
     (fault, unit) result \<times> ('u, 'c, 'pa, 'ph, 'pl, 's) prog" where
  "bpf_ringbuf_discard H st sample flags =
     (case ring_flags flags of Inl f \<Rightarrow> (Err f, st) | Inr flags \<Rightarrow> commit_sample H st sample flags True)"

definition raw_bpf_ringbuf_discard ::
  "('u, 's) helper_ops \<Rightarrow> ('u, 'c, 'pa, 'ph, 'pl, 's) prog \<Rightarrow> u64 \<Rightarrow> u64 \<Rightarrow>
     (fault, helper_ret) result \<times> ('u, 'c, 'pa, 'ph, 'pl, 's) prog" where
  "raw_bpf_ringbuf_discard H st sample flags =
     (let (r, st) = bpf_ringbuf_discard H st sample flags in (ret_unit r, st))"

definition BPF_RB_AVAIL_DATA :: u64 where "BPF_RB_AVAIL_DATA = 0"
definition BPF_RB_RING_SIZE :: u64 where "BPF_RB_RING_SIZE = 1"
definition BPF_RB_CONS_POS :: u64 where "BPF_RB_CONS_POS = 2"
definition BPF_RB_PROD_POS :: u64 where "BPF_RB_PROD_POS = 3"

definition bpf_ringbuf_query :: "('c, 'pa, 'ph, 'pl) unified_map \<Rightarrow> u64 \<Rightarrow> (fault, u64) result" where
  "bpf_ringbuf_query um flags =
     (case as_ring um of
        None \<Rightarrow> Err (Fails EINVAL)
      | Some rb \<Rightarrow>
          Ok (if flags = BPF_RB_AVAIL_DATA then avail_data_size rb
              else if flags = BPF_RB_RING_SIZE then total_data_size rb
              else if flags = BPF_RB_CONS_POS then rb_consumer_pos rb
              else if flags = BPF_RB_PROD_POS then rb_producer_pos rb
              else 0))"

definition raw_bpf_ringbuf_query ::
  "('u, 's) helper_ops \<Rightarrow> ('u, 'c, 'pa, 'ph, 'pl, 's) prog \<Rightarrow> u64 \<Rightarrow> u64 \<Rightarrow>
     (fault, helper_ret) result \<times> ('u, 'c, 'pa, 'ph, 'pl, 's) prog" where
  "raw_bpf_ringbuf_query H st map_p flags =
     (let (r, st) = with_map_ptr H st map_p (\<lambda>um st. (bpf_ringbuf_query um flags, um, st))
      in (Ok (Ret (case r of Inl _ \<Rightarrow> 0 | Inr n \<Rightarrow> n)), st))"

section \<open>Dynamic pointers\<close>

definition DYNPTR_MAX_SIZE :: u32 where "DYNPTR_MAX_SIZE = push_bit 24 1 - 1"
definition DYNPTR_TYPE_SHIFT :: nat where "DYNPTR_TYPE_SHIFT = 28"
definition BPF_DYNPTR_TYPE_RINGBUF :: u32 where "BPF_DYNPTR_TYPE_RINGBUF = 2"

definition dynptr_check_size :: "u32 \<Rightarrow> (fault, unit) result" where
  "dynptr_check_size n = (if DYNPTR_MAX_SIZE < n then Err (Fails EINVAL) else Ok ())"

definition dynptr_init :: "u64 \<Rightarrow> u32 \<Rightarrow> u32 \<Rightarrow> u32 \<Rightarrow> dyn_ptr" where
  "dynptr_init data dynptr_type offset n =
     \<lparr>dp_data = data, dp_size = n OR push_bit DYNPTR_TYPE_SHIFT dynptr_type, dp_offset = offset\<rparr>"

definition bpf_dynptr_set_null :: dyn_ptr where
  "bpf_dynptr_set_null = \<lparr>dp_data = 0, dp_size = 0, dp_offset = 0\<rparr>"

definition set_dyn :: "u64 \<Rightarrow> dyn_ptr \<Rightarrow> ('y, 's) prog_state \<Rightarrow> ('y, 's) prog_state" where
  "set_dyn p d st = st\<lparr>ps_dyn := (ps_dyn st)(p := d)\<rparr>"

text \<open>The result is the error or success, the map, and the new dynamic pointer.\<close>

definition bpf_ringbuf_reserve_dynptr ::
  "('c, 'pa, 'ph, 'pl) unified_map \<Rightarrow> u32 \<Rightarrow> dyn_ptr \<Rightarrow>
     (fault, unit) result \<times> ('c, 'pa, 'ph, 'pl) unified_map \<times> dyn_ptr" where
  "bpf_ringbuf_reserve_dynptr um len d =
     (case dynptr_check_size len of
        Inl _ \<Rightarrow> (Err (Fails EINVAL), um, bpf_dynptr_set_null)
      | Inr _ \<Rightarrow>
          (case as_ring um of
             None \<Rightarrow> (Err (Fails EINVAL), um, d)
           | Some rb \<Rightarrow>
               (let (r, um) = on_obj um (lift_obj RingObj (ring_reserve rb (ucast len)))
                in case r of
                     Inl Panics \<Rightarrow> (Err Panics, um, d)
                   | Inl _ \<Rightarrow> (Err (Fails EINVAL), um, bpf_dynptr_set_null)
                   | Inr p \<Rightarrow> (Ok (), um, dynptr_init p BPF_DYNPTR_TYPE_RINGBUF 0 len))))"

definition raw_bpf_ringbuf_reserve_dynptr ::
  "('u, 's) helper_ops \<Rightarrow> ('u, 'c, 'pa, 'ph, 'pl, 's) prog \<Rightarrow> u64 \<Rightarrow> u32 \<Rightarrow> u64 \<Rightarrow> u64 \<Rightarrow>
     (fault, helper_ret) result \<times> ('u, 'c, 'pa, 'ph, 'pl, 's) prog" where
  "raw_bpf_ringbuf_reserve_dynptr H st map_p len flags dyn_p =
     (if flags \<noteq> 0 then (Ok (Ret (errno EINVAL)), set_dyn dyn_p bpf_dynptr_set_null st)
      else
        let (r, st) = with_map_ptr H st map_p (\<lambda>um st.
              let (r, um, d) = bpf_ringbuf_reserve_dynptr um len (ps_dyn st dyn_p) in (r, um, set_dyn dyn_p d st))
        in (ret_unit r, st))"

text \<open>The commit of a dynamic pointer, with the flag for submit or discard.\<close>

definition commit_dynptr ::
  "('u, 's) helper_ops \<Rightarrow> ('u, 'c, 'pa, 'ph, 'pl, 's) prog \<Rightarrow> u64 \<Rightarrow> u64 \<Rightarrow> bool \<Rightarrow>
     (fault, unit) result \<times> ('u, 'c, 'pa, 'ph, 'pl, 's) prog" where
  "commit_dynptr H st dyn_p flags discard =
     (let data = dp_data (ps_dyn st dyn_p) in
      if data = 0 then (Ok (), st)
      else case ring_flags flags of
        Inl f \<Rightarrow> (Err f, st)
      | Inr flags \<Rightarrow>
          (case commit_sample H st data flags discard of
             (Inl f, st) \<Rightarrow> (Err f, st)
           | (Inr _, st) \<Rightarrow> (Ok (), set_dyn dyn_p bpf_dynptr_set_null st)))"

definition bpf_ringbuf_submit_dynptr ::
  "('u, 's) helper_ops \<Rightarrow> ('u, 'c, 'pa, 'ph, 'pl, 's) prog \<Rightarrow> u64 \<Rightarrow> u64 \<Rightarrow>
     (fault, unit) result \<times> ('u, 'c, 'pa, 'ph, 'pl, 's) prog" where
  "bpf_ringbuf_submit_dynptr H st dyn_p flags = commit_dynptr H st dyn_p flags False"

definition raw_bpf_ringbuf_submit_dynptr ::
  "('u, 's) helper_ops \<Rightarrow> ('u, 'c, 'pa, 'ph, 'pl, 's) prog \<Rightarrow> u64 \<Rightarrow> u64 \<Rightarrow>
     (fault, helper_ret) result \<times> ('u, 'c, 'pa, 'ph, 'pl, 's) prog" where
  "raw_bpf_ringbuf_submit_dynptr H st dyn_p flags =
     (let (r, st) = bpf_ringbuf_submit_dynptr H st dyn_p flags in (ret_unit r, st))"

definition bpf_ringbuf_discard_dynptr ::
  "('u, 's) helper_ops \<Rightarrow> ('u, 'c, 'pa, 'ph, 'pl, 's) prog \<Rightarrow> u64 \<Rightarrow> u64 \<Rightarrow>
     (fault, unit) result \<times> ('u, 'c, 'pa, 'ph, 'pl, 's) prog" where
  "bpf_ringbuf_discard_dynptr H st dyn_p flags = commit_dynptr H st dyn_p flags True"

definition raw_bpf_ringbuf_discard_dynptr ::
  "('u, 's) helper_ops \<Rightarrow> ('u, 'c, 'pa, 'ph, 'pl, 's) prog \<Rightarrow> u64 \<Rightarrow> u64 \<Rightarrow>
     (fault, helper_ret) result \<times> ('u, 'c, 'pa, 'ph, 'pl, 's) prog" where
  "raw_bpf_ringbuf_discard_dynptr H st dyn_p flags =
     (let (r, st) = bpf_ringbuf_discard_dynptr H st dyn_p flags in (ret_unit r, st))"

section \<open>The table of helpers\<close>

definition HELPER_MAP_LOOKUP_ELEM :: u32 where "HELPER_MAP_LOOKUP_ELEM = 1"
definition HELPER_MAP_UPDATE_ELEM :: u32 where "HELPER_MAP_UPDATE_ELEM = 2"
definition HELPER_MAP_DELETE_ELEM :: u32 where "HELPER_MAP_DELETE_ELEM = 3"
definition HELPER_BPF_PROBE_READ :: u32 where "HELPER_BPF_PROBE_READ = 4"
definition HELPER_KTIME_GET_NS :: u32 where "HELPER_KTIME_GET_NS = 5"
definition HELPER_TRACE_PRINTF :: u32 where "HELPER_TRACE_PRINTF = 6"
definition HELPER_PERF_EVENT_OUTPUT :: u32 where "HELPER_PERF_EVENT_OUTPUT = 25"
definition HELPER_MAP_PUSH_ELEM :: u32 where "HELPER_MAP_PUSH_ELEM = 87"
definition HELPER_MAP_POP_ELEM :: u32 where "HELPER_MAP_POP_ELEM = 88"
definition HELPER_MAP_PEEK_ELEM :: u32 where "HELPER_MAP_PEEK_ELEM = 89"
definition HELPER_PROBE_READ_USER_STR :: u32 where "HELPER_PROBE_READ_USER_STR = 114"
definition HELPER_BPF_RINGBUF_OUTPUT :: u32 where "HELPER_BPF_RINGBUF_OUTPUT = 130"
definition HELPER_BPF_RINGBUF_RESERVE :: u32 where "HELPER_BPF_RINGBUF_RESERVE = 131"
definition HELPER_BPF_RINGBUF_SUBMIT :: u32 where "HELPER_BPF_RINGBUF_SUBMIT = 132"
definition HELPER_BPF_RINGBUF_DISCARD :: u32 where "HELPER_BPF_RINGBUF_DISCARD = 133"
definition HELPER_BPF_RINGBUF_QUERY :: u32 where "HELPER_BPF_RINGBUF_QUERY = 134"
definition HELPER_BPF_RINGBUF_RESERVE_DYNPTR :: u32 where "HELPER_BPF_RINGBUF_RESERVE_DYNPTR = 198"
definition HELPER_BPF_RINGBUF_SUBMIT_DYNPTR :: u32 where "HELPER_BPF_RINGBUF_SUBMIT_DYNPTR = 199"
definition HELPER_BPF_RINGBUF_DISCARD_DYNPTR :: u32 where "HELPER_BPF_RINGBUF_DISCARD_DYNPTR = 200"
definition HELPER_MAP_FOR_EACH_ELEM :: u32 where "HELPER_MAP_FOR_EACH_ELEM = 164"
definition HELPER_MAP_LOOKUP_PERCPU_ELEM :: u32 where "HELPER_MAP_LOOKUP_PERCPU_ELEM = 195"

lemmas helper_ids =
  HELPER_MAP_LOOKUP_ELEM_def HELPER_MAP_UPDATE_ELEM_def HELPER_MAP_DELETE_ELEM_def HELPER_BPF_PROBE_READ_def
  HELPER_KTIME_GET_NS_def HELPER_TRACE_PRINTF_def HELPER_PERF_EVENT_OUTPUT_def HELPER_MAP_PUSH_ELEM_def
  HELPER_MAP_POP_ELEM_def HELPER_MAP_PEEK_ELEM_def HELPER_PROBE_READ_USER_STR_def HELPER_BPF_RINGBUF_OUTPUT_def
  HELPER_BPF_RINGBUF_RESERVE_def HELPER_BPF_RINGBUF_SUBMIT_def HELPER_BPF_RINGBUF_DISCARD_def
  HELPER_BPF_RINGBUF_QUERY_def HELPER_BPF_RINGBUF_RESERVE_DYNPTR_def HELPER_BPF_RINGBUF_SUBMIT_DYNPTR_def
  HELPER_BPF_RINGBUF_DISCARD_DYNPTR_def HELPER_MAP_FOR_EACH_ELEM_def HELPER_MAP_LOOKUP_PERCPU_ELEM_def

text \<open>The functions whose addresses are in the table.\<close>

datatype helper_fn =
    MapLookupElem | MapUpdateElem | MapDeleteElem | KtimeGetNs | MapForEachElem | MapLookupPercpuElem
  | PerfEventOutput | ProbeRead | TracePrintf | MapPushElem | MapPopElem | MapPeekElem | ProbeReadUserStr
  | RingbufOutput | RingbufReserve | RingbufSubmit | RingbufDiscard | RingbufQuery | RingbufReserveDynptr
  | RingbufSubmitDynptr | RingbufDiscardDynptr

definition init_helper_functions :: "(u32 \<times> helper_fn) list" where
  "init_helper_functions =
     fold (\<lambda>(i, f). bt_insert i f)
       [(HELPER_MAP_LOOKUP_ELEM, MapLookupElem), (HELPER_MAP_UPDATE_ELEM, MapUpdateElem),
        (HELPER_MAP_DELETE_ELEM, MapDeleteElem), (HELPER_KTIME_GET_NS, KtimeGetNs),
        (HELPER_MAP_FOR_EACH_ELEM, MapForEachElem), (HELPER_MAP_LOOKUP_PERCPU_ELEM, MapLookupPercpuElem),
        (HELPER_PERF_EVENT_OUTPUT, PerfEventOutput), (HELPER_BPF_PROBE_READ, ProbeRead),
        (HELPER_TRACE_PRINTF, TracePrintf), (HELPER_MAP_PUSH_ELEM, MapPushElem), (HELPER_MAP_POP_ELEM, MapPopElem),
        (HELPER_MAP_PEEK_ELEM, MapPeekElem), (HELPER_PROBE_READ_USER_STR, ProbeReadUserStr),
        (HELPER_BPF_RINGBUF_OUTPUT, RingbufOutput), (HELPER_BPF_RINGBUF_RESERVE, RingbufReserve),
        (HELPER_BPF_RINGBUF_SUBMIT, RingbufSubmit), (HELPER_BPF_RINGBUF_DISCARD, RingbufDiscard),
        (HELPER_BPF_RINGBUF_QUERY, RingbufQuery), (HELPER_BPF_RINGBUF_RESERVE_DYNPTR, RingbufReserveDynptr),
        (HELPER_BPF_RINGBUF_SUBMIT_DYNPTR, RingbufSubmitDynptr),
        (HELPER_BPF_RINGBUF_DISCARD_DYNPTR, RingbufDiscardDynptr)] []"

text \<open>
  A call through the table: five registers, of which a function reads those of its parameters, a
  32-bit parameter the lower half.
\<close>

fun call_helper ::
  "('u, 's) helper_ops \<Rightarrow> ('c, 'pa, 'ph, 'pl) bpf_kernel \<Rightarrow> u32 \<Rightarrow> ('u, 'c, 'pa, 'ph, 'pl, 's) prog \<Rightarrow> helper_fn \<Rightarrow>
     u64 \<times> u64 \<times> u64 \<times> u64 \<times> u64 \<Rightarrow> (fault, helper_ret) result \<times> ('u, 'c, 'pa, 'ph, 'pl, 's) prog" where
  "call_helper H K cpu st MapLookupElem (a, b, c, d, e) = raw_map_lookup_elem H K cpu st a b"
| "call_helper H K cpu st MapUpdateElem (a, b, c, d, e) = raw_map_update_elem H K cpu st a b c d"
| "call_helper H K cpu st MapDeleteElem (a, b, c, d, e) = raw_map_delete_elem H K cpu st a b"
| "call_helper H K cpu st KtimeGetNs (a, b, c, d, e) = (Ok (Ret (bpf_ktime_get_ns H st)), st)"
| "call_helper H K cpu st MapForEachElem (a, b, c, d, e) = raw_map_for_each_elem H K cpu st a b c d"
| "call_helper H K cpu st MapLookupPercpuElem (a, b, c, d, e) = raw_map_lookup_percpu_elem H K st a b (ucast c)"
| "call_helper H K cpu st PerfEventOutput (a, b, c, d, e) = raw_perf_event_output H K cpu st a b c d e"
| "call_helper H K cpu st ProbeRead (a, b, c, d, e) = raw_bpf_probe_read st a (ucast b) c"
| "call_helper H K cpu st TracePrintf (a, b, c, d, e) = trace_printf H st a b c d e"
| "call_helper H K cpu st MapPushElem (a, b, c, d, e) = raw_map_push_elem H st a b c"
| "call_helper H K cpu st MapPopElem (a, b, c, d, e) = raw_map_pop_elem H st a b"
| "call_helper H K cpu st MapPeekElem (a, b, c, d, e) = raw_map_peek_elem H st a b"
| "call_helper H K cpu st ProbeReadUserStr (a, b, c, d, e) = raw_probe_read_user_str H st a (ucast b) c"
| "call_helper H K cpu st RingbufOutput (a, b, c, d, e) = raw_bpf_ringbuf_output H st a b c d"
| "call_helper H K cpu st RingbufReserve (a, b, c, d, e) = raw_bpf_ringbuf_reserve H st a b c"
| "call_helper H K cpu st RingbufSubmit (a, b, c, d, e) = raw_bpf_ringbuf_submit H st a b"
| "call_helper H K cpu st RingbufDiscard (a, b, c, d, e) = raw_bpf_ringbuf_discard H st a b"
| "call_helper H K cpu st RingbufQuery (a, b, c, d, e) = raw_bpf_ringbuf_query H st a b"
| "call_helper H K cpu st RingbufReserveDynptr (a, b, c, d, e) = raw_bpf_ringbuf_reserve_dynptr H st a (ucast b) c d"
| "call_helper H K cpu st RingbufSubmitDynptr (a, b, c, d, e) = raw_bpf_ringbuf_submit_dynptr H st a b"
| "call_helper H K cpu st RingbufDiscardDynptr (a, b, c, d, e) = raw_bpf_ringbuf_discard_dynptr H st a b"

end
