(* ===== verification/BpfPreprocess.thy ===== *)
theory BpfPreprocess
  imports BpfUnified
begin

text \<open>
  The relocation of map file descriptors in eBPF programs, \<open>bpf-basic/src/preprocessor.rs\<close>. The
  decoded instructions are a type of the kernel with the trait \<open>EbpfInst\<close> as a record of its
  operations. \<open>usize\<close> has 64 bits and its arithmetic wraps.
\<close>

section \<open>The kernel's instructions\<close>

record 'i inst_ops =
  opc :: "'i \<Rightarrow> u8"
  imm :: "'i \<Rightarrow> 32 word"
  src :: "'i \<Rightarrow> u8"
  set_imm :: "'i \<Rightarrow> 32 word \<Rightarrow> 'i"
  to_array :: "'i \<Rightarrow> string"

text \<open>
  Setting the immediate changes nothing else, and an instruction is 8 bytes long.
\<close>

definition inst_laws :: "'i inst_ops \<Rightarrow> bool" where
  "inst_laws I \<longleftrightarrow>
     (\<forall>i v. imm I (set_imm I i v) = v \<and> opc I (set_imm I i v) = opc I i \<and> src I (set_imm I i v) = src I i) \<and>
     (\<forall>i. length (to_array I i) = 8)"

text \<open>
  \<open>translate\<close> is \<open>translate_instruction\<close>; \<open>value_range\<close> is \<open>map_values_ptr_range\<close> of the map
  behind a descriptor and \<open>map_ptr\<close> is \<open>get_unified_map_ptr_from_fd\<close>.
\<close>

record 'i loader =
  translate :: "string \<Rightarrow> (bpf_error, 'i list) result"
  value_range :: "u32 \<Rightarrow> (fault, u64 \<times> u64) result"
  map_ptr :: "u32 \<Rightarrow> (bpf_error, u64) result"

definition LD_DW_IMM :: u8 where "LD_DW_IMM = 0x18"
definition BPF_PSEUDO_MAP_FD :: u32 where "BPF_PSEUDO_MAP_FD = 1"
definition BPF_PSEUDO_MAP_VALUE :: u32 where "BPF_PSEUDO_MAP_VALUE = 2"

lemmas pseudo_defs = BPF_PSEUDO_MAP_FD_def BPF_PSEUDO_MAP_VALUE_def

section \<open>The preprocessor\<close>

text \<open>
  The pointer for an instruction pair, and whether it is a pointer to a map to remember. The file
  descriptor goes through \<open>usize\<close> and back, which keeps its 32 bits; the offset is sign
  extended.
\<close>

definition relocation :: "'i inst_ops \<Rightarrow> 'i loader \<Rightarrow> 'i \<Rightarrow> 'i \<Rightarrow> (fault, (u64 \<times> bool) option) result" where
  "relocation I L insn next_insn =
     (let map_fd = (scast (imm I insn) :: u64); src_reg = (ucast (src I insn) :: u32) in
      if src_reg = BPF_PSEUDO_MAP_VALUE then
        and_then (value_range L (ucast map_fd)) (\<lambda>(start, stop).
          let offset = scast (imm I next_insn) in Ok (Some (start + offset, False)))
      else if src_reg = BPF_PSEUDO_MAP_FD then
        (case map_ptr L (ucast map_fd) of
           Inl e \<Rightarrow> Err (Fails e)
         | Inr p \<Rightarrow> Ok (Some (p, True)))
      else Ok None)"

text \<open>The loop from \<open>index\<close>; indexing behind the last instruction panics.\<close>

function relocate :: "'i inst_ops \<Rightarrow> 'i loader \<Rightarrow> 'i list \<Rightarrow> nat \<Rightarrow> u64 list \<Rightarrow> (fault, 'i list \<times> u64 list) result" where
  "relocate I L fmt_insn index raw_file_ptr =
     (if length fmt_insn \<le> index then Ok (fmt_insn, raw_file_ptr)
      else let insn = fmt_insn ! index in
        if opc I insn = LD_DW_IMM then
          if length fmt_insn \<le> index + 1 then Err Panics
          else let next_insn = fmt_insn ! (index + 1) in
            (case relocation I L insn next_insn of
               Inl f \<Rightarrow> Err f
             | Inr None \<Rightarrow> relocate I L fmt_insn (index + 1) raw_file_ptr
             | Inr (Some (p, is_map)) \<Rightarrow>
                 relocate I L
                   (fmt_insn[index := set_imm I insn (ucast p), index + 1 := set_imm I next_insn (ucast (drop_bit 32 p))])
                   (index + 2) (if is_map then raw_file_ptr @ [p] else raw_file_ptr))
        else relocate I L fmt_insn (index + 1) raw_file_ptr)"
  by pat_completeness auto
termination
  by (relation "measure (\<lambda>(I, L, fmt_insn, index, ptrs). length fmt_insn - index)") auto

declare relocate.simps [simp del]

text \<open>The loop that writes the instructions back, from byte \<open>idx\<close>.\<close>

fun write_back :: "'i inst_ops \<Rightarrow> string \<Rightarrow> nat \<Rightarrow> 'i list \<Rightarrow> (fault, string) result" where
  "write_back I bytes idx [] = Ok bytes"
| "write_back I bytes idx (ins # rest) =
     and_then (or_panic (slice_of bytes idx (idx + 8))) (\<lambda>old.
     and_then (copy_from_slice old (to_array I ins)) (\<lambda>new.
       write_back I (take idx bytes @ new @ drop (idx + 8) bytes) (idx + 8) rest))"

record preprocessed =
  new_insn :: string
  raw_file_ptr :: "u64 list"

definition preprocess :: "'i inst_ops \<Rightarrow> 'i loader \<Rightarrow> string \<Rightarrow> (fault, preprocessed) result" where
  "preprocess I L instructions =
     (case translate L instructions of
        Inl e \<Rightarrow> Err (Fails e)
      | Inr fmt_insn \<Rightarrow>
          and_then (relocate I L fmt_insn 0 []) (\<lambda>(fmt_insn, ptrs).
          and_then (write_back I instructions 0 fmt_insn) (\<lambda>bytes.
            Ok \<lparr>new_insn = bytes, raw_file_ptr = ptrs\<rparr>)))"

section \<open>What it produces\<close>

text \<open>
  In a program as compilers emit it, every \<open>LD_DW_IMM\<close> is followed by a second slot that is not
  one itself.
\<close>

fun paired :: "'i inst_ops \<Rightarrow> 'i list \<Rightarrow> bool" where
  "paired I [] \<longleftrightarrow> True"
| "paired I [i] \<longleftrightarrow> opc I i \<noteq> LD_DW_IMM"
| "paired I (i # j # is) \<longleftrightarrow> (opc I i = LD_DW_IMM \<longrightarrow> opc I j \<noteq> LD_DW_IMM) \<and> paired I (j # is)"

text \<open>The 64-bit immediate of a pair.\<close>

definition imm64 :: "'i inst_ops \<Rightarrow> 'i \<Rightarrow> 'i \<Rightarrow> u64" where
  "imm64 I i j = (ucast (imm I i)) OR push_bit 32 (ucast (imm I j))"

text \<open>
  What loading a program means, read off the instruction set standard and not off the code: the
  relocated instructions and the addresses of the maps, or the failure. A 64-bit load with source
  register 1 names a map by its descriptor, and the pair gets the address of the map; with source
  register 2 it names an offset into the values of an array map, and the pair gets the address of the
  first value plus the second immediate, a signed number; with any other source register it is a
  constant and stays. Every other instruction stays. A first slot at the end of the program is a panic.
\<close>

definition patched_pair :: "'i inst_ops \<Rightarrow> 'i \<Rightarrow> 'i \<Rightarrow> u64 \<Rightarrow> 'i \<Rightarrow> 'i \<Rightarrow> bool" where
  "patched_pair I i j p i' j' \<longleftrightarrow> imm64 I i' j' = p \<and> (\<exists>lo hi. i' = set_imm I i lo \<and> j' = set_imm I j hi)"

inductive relocated ::
  "'i inst_ops \<Rightarrow> 'i loader \<Rightarrow> 'i list \<Rightarrow> (fault, 'i list \<times> u64 list) result \<Rightarrow> bool" for I L where
  Done: "relocated I L [] (Ok ([], []))"
| Other: "opc I i \<noteq> 0x18 \<Longrightarrow> relocated I L is r \<Longrightarrow>
    relocated I L (i # is) (and_then r (\<lambda>(is', ps). Ok (i # is', ps)))"
| Constant: "opc I i = 0x18 \<Longrightarrow> src I i \<notin> {1, 2} \<Longrightarrow> relocated I L (j # is) r \<Longrightarrow>
    relocated I L (i # j # is) (and_then r (\<lambda>(is', ps). Ok (i # is', ps)))"
| Map: "opc I i = 0x18 \<Longrightarrow> src I i = 1 \<Longrightarrow> map_ptr L (imm I i) = Ok p \<Longrightarrow> patched_pair I i j p i' j' \<Longrightarrow>
    relocated I L is r \<Longrightarrow> relocated I L (i # j # is) (and_then r (\<lambda>(is', ps). Ok (i' # j' # is', p # ps)))"
| No_Map: "opc I i = 0x18 \<Longrightarrow> src I i = 1 \<Longrightarrow> map_ptr L (imm I i) = Err e \<Longrightarrow>
    relocated I L (i # j # is) (Err (Fails e))"
| Value: "opc I i = 0x18 \<Longrightarrow> src I i = 2 \<Longrightarrow> value_range L (imm I i) = Ok (start, stop) \<Longrightarrow>
    patched_pair I i j (start + word_of_int (sint (imm I j))) i' j' \<Longrightarrow>
    relocated I L is r \<Longrightarrow> relocated I L (i # j # is) (and_then r (\<lambda>(is', ps). Ok (i' # j' # is', ps)))"
| No_Value: "opc I i = 0x18 \<Longrightarrow> src I i = 2 \<Longrightarrow> value_range L (imm I i) = Err f \<Longrightarrow>
    relocated I L (i # j # is) (Err f)"
| Cut_Off: "opc I i = 0x18 \<Longrightarrow> relocated I L [i] (Err Panics)"

lemma patched_set_imm:
  assumes "inst_laws I"
  shows "patched_pair I i j p (set_imm I i (ucast p)) (set_imm I j (ucast (drop_bit 32 p)))"
proof -
  have "imm I (set_imm I k v) = v" for k v using assms by (simp add: inst_laws_def)
  then have "imm64 I (set_imm I i (ucast p)) (set_imm I j (ucast (drop_bit 32 p))) = p"
    unfolding imm64_def by (auto intro!: bit_eqI simp: bit_simps)
  then show ?thesis unfolding patched_pair_def by blast
qed

lemma descriptor_roundtrip [simp]: "ucast (scast (fd :: 32 word) :: u64) = fd"
  by (rule bit_eqI) (auto simp: bit_simps)

lemma src_u32: "(ucast (s :: u8) :: u32) = 1 \<longleftrightarrow> s = 1" "(ucast (s :: u8) :: u32) = 2 \<longleftrightarrow> s = 2"
proof -
  have inj: "(ucast s :: u32) = ucast t \<Longrightarrow> s = t" for t :: u8
  proof -
    have same: "ucast (ucast w :: u32) = w" for w :: u8 by (rule bit_eqI) (auto simp: bit_simps)
    assume "(ucast s :: u32) = ucast t"
    then show "s = t" using same by metis
  qed
  show "(ucast s :: u32) = 1 \<longleftrightarrow> s = 1" using inj [of 1] by auto
  show "(ucast s :: u32) = 2 \<longleftrightarrow> s = 2" using inj [of 2] by auto
qed

lemma relocate_relocated:
  assumes "inst_laws I"
  shows "\<exists>r. relocated I L post r \<and>
    relocate I L (pre @ post) (length pre) ptrs = and_then r (\<lambda>(post', new). Ok (pre @ post', ptrs @ new))"
proof (induction "length post" arbitrary: pre post ptrs rule: less_induct)
  case less
  note step = relocate.simps [of I L "pre @ post" "length pre" ptrs]
  show ?case
  proof (cases post)
    case Nil
    then show ?thesis using step Done by (intro exI [of _ "Ok ([], [])"]) simp
  next
    case (Cons i rest)
    obtain r where r: "relocated I L rest r"
      "relocate I L ((pre @ [i]) @ rest) (length (pre @ [i])) ptrs =
        and_then r (\<lambda>(post', new). Ok ((pre @ [i]) @ post', ptrs @ new))"
      using less.hyps [of rest "pre @ [i]" ptrs] Cons by auto
    let ?keep = "and_then r (\<lambda>(is', ps). Ok (i # is', ps))"
    have keep: "and_then r (\<lambda>(post', new). Ok ((pre @ [i]) @ post', ptrs @ new)) =
        and_then ?keep (\<lambda>(post', new). Ok (pre @ post', ptrs @ new))"
      by (cases r) auto
    show ?thesis
    proof (cases "opc I i = 0x18")
      case False
      then show ?thesis
        using step r keep Cons Other [OF False r(1)] by (intro exI [of _ ?keep]) (simp add: LD_DW_IMM_def)
    next
      case ld: True
      show ?thesis
      proof (cases rest)
        case Nil
        then show ?thesis
          using step Cons ld Cut_Off [of I i L, OF ld] by (intro exI [of _ "Err Panics"]) (simp add: LD_DW_IMM_def)
      next
        case j: (Cons j rest')
        have go: "relocate I L (pre @ post) (length pre) ptrs =
            (case relocation I L i j of
               Inl f \<Rightarrow> Err f
             | Inr None \<Rightarrow> relocate I L ((pre @ [i]) @ rest) (length (pre @ [i])) ptrs
             | Inr (Some (p, is_map)) \<Rightarrow>
                 relocate I L ((pre @ [set_imm I i (ucast p), set_imm I j (ucast (drop_bit 32 p))]) @ rest')
                   (length pre + 2) (if is_map then ptrs @ [p] else ptrs))"
          using step Cons j ld by (auto simp: LD_DW_IMM_def nth_append list_update_append split: sum.splits option.splits)
        have next2: "\<exists>r. relocated I L rest' r \<and>
            relocate I L ((pre @ [set_imm I i (ucast p), set_imm I j (ucast (drop_bit 32 p))]) @ rest')
              (length pre + 2) ptrs =
            and_then r (\<lambda>(post', new).
              Ok (pre @ set_imm I i (ucast p) # set_imm I j (ucast (drop_bit 32 p)) # post', ptrs @ new))" for p ptrs
          using less.hyps [of rest' "pre @ [set_imm I i (ucast p), set_imm I j (ucast (drop_bit 32 p))]" ptrs] Cons j
          by simp
        note patched = patched_set_imm [OF assms, of i j]
        consider "src I i \<notin> {1, 2}" | e where "src I i = 1" "map_ptr L (imm I i) = Err e"
          | p where "src I i = 1" "map_ptr L (imm I i) = Ok p" | f where "src I i = 2" "value_range L (imm I i) = Err f"
          | start stop where "src I i = 2" "value_range L (imm I i) = Ok (start, stop)"
          by (cases "map_ptr L (imm I i)"; cases "value_range L (imm I i)") fastforce+
        then show ?thesis
        proof cases
          case 1
          then show ?thesis
            using go r keep Cons j Constant [OF ld 1, of L j rest' r]
            by (intro exI [of _ ?keep]) (simp add: relocation_def src_u32 pseudo_defs)
        next
          case 2
          then show ?thesis
            using go Cons j No_Map [OF ld 2]
            by (intro exI [of _ "Err (Fails e)"]) (simp add: relocation_def src_u32 pseudo_defs)
        next
          case 3
          obtain q where q: "relocated I L rest' q" and run: "relocate I L
              ((pre @ [set_imm I i (ucast p), set_imm I j (ucast (drop_bit 32 p))]) @ rest') (length pre + 2) (ptrs @ [p]) =
            and_then q (\<lambda>(post', new).
              Ok (pre @ set_imm I i (ucast p) # set_imm I j (ucast (drop_bit 32 p)) # post', (ptrs @ [p]) @ new))"
            using next2 by blast
          show ?thesis
            using go run 3 Map [OF ld 3 patched q] unfolding Cons j
            by (intro exI [of _ "and_then q (\<lambda>(is', ps).
                Ok (set_imm I i (ucast p) # set_imm I j (ucast (drop_bit 32 p)) # is', p # ps))"] conjI, simp)
              (cases q, auto simp: relocation_def src_u32 pseudo_defs)
        next
          case 4
          then show ?thesis
            using go Cons j No_Value [OF ld 4]
            by (intro exI [of _ "Err f"]) (simp add: relocation_def src_u32 pseudo_defs)
        next
          case 5
          let ?p = "start + word_of_int (sint (imm I j))"
          obtain q where q: "relocated I L rest' q" and run: "relocate I L
              ((pre @ [set_imm I i (ucast ?p), set_imm I j (ucast (drop_bit 32 ?p))]) @ rest') (length pre + 2) ptrs =
            and_then q (\<lambda>(post', new).
              Ok (pre @ set_imm I i (ucast ?p) # set_imm I j (ucast (drop_bit 32 ?p)) # post', ptrs @ new))"
            using next2 by blast
          show ?thesis
            using go run 5 Value [OF ld 5 patched q] unfolding Cons j
            by (intro exI [of _ "and_then q (\<lambda>(is', ps).
                Ok (set_imm I i (ucast ?p) # set_imm I j (ucast (drop_bit 32 ?p)) # is', ps))"] conjI, simp)
              (cases q, auto simp: relocation_def src_u32 pseudo_defs)
        qed
      qed
    qed
  qed
qed

lemma paired_tl: "paired I (i # is) \<Longrightarrow> paired I is"
  by (cases "is") simp_all

text \<open>A program of whole pairs has no end that panics.\<close>

lemma relocated_cut_off:
  "relocated I L is r \<Longrightarrow> r = Err Panics \<Longrightarrow> \<forall>fd. value_range L fd \<noteq> Err Panics \<Longrightarrow> \<not> paired I is"
proof (induction rule: relocated.induct)
  case (Other i "is" r)
  then have "\<not> paired I is" by (cases r) auto
  then show ?case by (cases "is") auto
qed (auto simp: LD_DW_IMM_def and_then_Err_iff dest: paired_tl split: prod.splits)

lemma write_back_bytes:
  assumes "inst_laws I"
  shows "length pre = idx \<Longrightarrow> length mid = 8 * length is \<Longrightarrow>
    write_back I (pre @ mid @ post) idx is = Ok (pre @ concat (map (to_array I) is) @ post)"
proof (induction "is" arbitrary: pre mid idx)
  case (Cons i "is")
  have i8: "length (to_array I i) = 8" using assms by (simp add: inst_laws_def)
  define a and b where "a = take 8 mid" and "b = drop 8 mid"
  then have mid: "mid = a @ b" "length a = 8" "length b = 8 * length is" using Cons.prems(2) by auto
  have "slice_of (pre @ mid @ post) idx (idx + 8) = Ok a"
    using Cons.prems(1) mid by (simp add: slice_of_def bslice_def)
  moreover have "write_back I ((pre @ to_array I i) @ b @ post) (idx + 8) is =
      Ok ((pre @ to_array I i) @ concat (map (to_array I) is) @ post)"
    using Cons.IH [of "pre @ to_array I i" "idx + 8" b] Cons.prems(1) mid(3) i8 by simp
  ultimately show ?case using Cons.prems(1) mid(1,2) i8 by (simp add: copy_from_slice_def)
qed simp

lemma relocate_length: "relocate I L is index ptrs = Ok (out, ptrs') \<Longrightarrow> length out = length is"
proof (induction I L "is" index ptrs rule: relocate.induct)
  case (1 I L "is" index ptrs)
  show ?case
    using 1(4) relocate.simps [of I L "is" index ptrs]
      1(1) [OF _ refl _ _ refl] 1(2) [OF _ refl _ _ refl] 1(3) [OF _ refl]
    by (auto simp: Let_def split: if_splits sum.splits option.splits)
qed

text \<open>The addresses in a relocated program are those of descriptors that it names.\<close>

lemma relocated_pointer:
  "relocated I L is r \<Longrightarrow> r = Ok (is', ps) \<Longrightarrow> p \<in> set ps \<Longrightarrow> \<exists>i \<in> set is. map_ptr L (imm I i) = Ok p"
  by (induction arbitrary: is' ps rule: relocated.induct) (fastforce simp: and_then_Ok_iff)+

lemma preprocess_outcome:
  assumes "inst_laws I" "translate L code = Ok is" "length code = 8 * length is"
  shows "\<exists>r. relocated I L is r \<and>
    preprocess I L code =
      and_then r (\<lambda>(is', ps). Ok \<lparr>new_insn = concat (map (to_array I) is'), raw_file_ptr = ps\<rparr>)"
proof -
  obtain r where r: "relocated I L is r" "relocate I L is 0 [] = r"
  proof -
    obtain r where "relocated I L is r"
      "relocate I L is 0 [] = and_then r (\<lambda>(post', new). Ok (post', new))"
      using relocate_relocated [OF assms(1), of L "is" "[]" "[]"] unfolding append_Nil list.size(3) by blast
    then show thesis using that by (cases r) auto
  qed
  show ?thesis
  proof (cases r)
    case (Inr res)
    obtain out ptrs where res: "res = (out, ptrs)" by (cases res)
    then have "length out = length is" using r(2) Inr relocate_length by blast
    then have "write_back I code 0 out = Ok (concat (map (to_array I) out))"
      using write_back_bytes [OF assms(1), of "[]" 0 code out "[]"] assms(3) by simp
    then show ?thesis using r Inr res assms(2) by (intro exI [of _ r]) (simp add: preprocess_def)
  qed (use r assms(2) in \<open>auto simp: preprocess_def\<close>)
qed

text \<open>A program that ends in the first slot of a pair makes the loader panic.\<close>

lemma relocate_truncated:
  "\<forall>i \<in> set (drop index is). opc I i \<noteq> LD_DW_IMM \<Longrightarrow> opc I x = LD_DW_IMM \<Longrightarrow> index \<le> length is \<Longrightarrow>
     relocate I L (is @ [x]) index ptrs = Err Panics"
proof (induction "length is - index" arbitrary: index)
  case 0
  then show ?case by (simp add: relocate.simps [of I L "is @ [x]" index] nth_append)
next
  case (Suc n)
  then have lt: "index < length is" by simp
  then have "drop index is = is ! index # drop (index + 1) is" by (simp add: Cons_nth_drop_Suc)
  then show ?case
    using Suc.hyps(1) [of "index + 1"] Suc.hyps(2) Suc.prems lt
    by (simp add: relocate.simps [of I L "is @ [x]" index] nth_append)
qed

lemma truncated_pair_panics:
  "translate L code = Ok (is @ [x]) \<Longrightarrow> \<forall>i \<in> set is. opc I i \<noteq> LD_DW_IMM \<Longrightarrow> opc I x = LD_DW_IMM \<Longrightarrow>
     preprocess I L code = Err Panics"
  by (simp add: preprocess_def relocate_truncated)

text \<open>
  C37: the preprocessor relocates every program as the instruction set standard says, and fails
  exactly as a lookup fails. Where the kernel decodes one instruction of 8 bytes each, the result is
  the bytes of the relocated program with the addresses of its maps in order, or the error of the
  first descriptor that names no map or no array of values, or a panic. A program in which every
  \<open>LD_DW_IMM\<close> has its second slot does not panic in the preprocessor, unless the values of a map do;
  one that ends in a first slot panics.
\<close>

theorem preprocess_relocates:
  assumes "inst_laws I" "translate L code = Ok is" "length code = 8 * length is"
  shows "(\<exists>r. relocated I L is r \<and>
      preprocess I L code =
        and_then r (\<lambda>(is', ps). Ok \<lparr>new_insn = concat (map (to_array I) is'), raw_file_ptr = ps\<rparr>)) \<and>
    (paired I is \<longrightarrow> (\<forall>fd. value_range L fd \<noteq> Err Panics) \<longrightarrow> preprocess I L code \<noteq> Err Panics) \<and>
    (\<forall>xs x. is = xs @ [x] \<longrightarrow> (\<forall>i \<in> set xs. opc I i \<noteq> 0x18) \<longrightarrow> opc I x = 0x18 \<longrightarrow>
      preprocess I L code = Err Panics)"
proof -
  obtain r where r: "relocated I L is r" "preprocess I L code =
      and_then r (\<lambda>(is', ps). Ok \<lparr>new_insn = concat (map (to_array I) is'), raw_file_ptr = ps\<rparr>)"
    using preprocess_outcome [OF assms] by blast
  have "preprocess I L code \<noteq> Err Panics" if "paired I is" "\<forall>fd. value_range L fd \<noteq> Err Panics"
    using relocated_cut_off [OF r(1) _ that(2)] that(1) r(2) by (cases r) auto
  moreover have "preprocess I L code = Err Panics"
    if "is = xs @ [x]" "\<forall>i \<in> set xs. opc I i \<noteq> 0x18" "opc I x = 0x18" for xs x
    using truncated_pair_panics [of L code xs x I] that assms(2) by (simp add: LD_DW_IMM_def)
  ultimately show ?thesis using r by blast
qed

text \<open>An instruction set with the opcode, the source register and the immediate.\<close>

definition plain_insts :: "(u8 \<times> u8 \<times> 32 word) inst_ops" where
  "plain_insts =
     \<lparr>opc = fst, imm = \<lambda>i. snd (snd i), src = \<lambda>i. fst (snd i), set_imm = \<lambda>i v. (fst i, fst (snd i), v),
      to_array = \<lambda>i. le_bytes 1 (unat (fst i)) @ le_bytes 1 (unat (fst (snd i))) @ le_bytes 2 0 @
        le_bytes 4 (unat (snd (snd i)))\<rparr>"

lemma plain_insts_laws: "inst_laws plain_insts"
  by (simp add: inst_laws_def plain_insts_def)

text \<open>A load of the map behind descriptor 5, and an exit.\<close>

definition demo_code :: string where "demo_code = replicate 24 (CHR 0x00)"

definition demo_insts :: "32 word \<Rightarrow> 32 word \<Rightarrow> (u8 \<times> u8 \<times> 32 word) list" where
  "demo_insts lo hi = [(0x18, 1, lo), (0, 0, hi), (0x95, 0, 0)]"

definition demo_loader :: "(u8 \<times> u8 \<times> 32 word) loader" where
  "demo_loader =
     \<lparr>translate = \<lambda>_. Ok (demo_insts 5 0), value_range = \<lambda>_. Err (Fails EINVAL),
      map_ptr = \<lambda>fd. if fd = 5 then Ok 0x1200000034 else Err EINVAL\<rparr>"

lemma demo_relocate: "relocate plain_insts demo_loader (demo_insts 5 0) 0 [] = Ok (demo_insts 0x34 0x12, [0x1200000034])"
  by (simp add: relocate.simps demo_insts_def demo_loader_def plain_insts_def relocation_def LD_DW_IMM_def
      pseudo_defs)

lemma demo_preprocess: "\<exists>pp. preprocess plain_insts demo_loader demo_code = Ok pp \<and> raw_file_ptr pp = [0x1200000034]"
proof -
  have "length demo_code = 8 * length (demo_insts 0x34 0x12)" by (simp add: demo_code_def demo_insts_def)
  moreover have "translate demo_loader demo_code = Ok (demo_insts 5 0)" by (simp add: demo_loader_def)
  ultimately show ?thesis
    using write_back_bytes [OF plain_insts_laws, of "[]" 0 demo_code "demo_insts 0x34 0x12" "[]"]
    by (simp add: preprocess_def demo_relocate)
qed

theorem preprocess_relocates_witness:
  "(\<exists>r. relocated plain_insts demo_loader (demo_insts 5 0) r \<and> preprocess plain_insts demo_loader demo_code =
      and_then r (\<lambda>(is', ps). Ok \<lparr>new_insn = concat (map (to_array plain_insts) is'), raw_file_ptr = ps\<rparr>)) \<and>
    preprocess plain_insts demo_loader demo_code \<noteq> Err Panics"
proof -
  have "translate demo_loader demo_code = Ok (demo_insts 5 0)" "length demo_code = 8 * length (demo_insts 5 0)"
    "paired plain_insts (demo_insts 5 0)" "\<forall>fd. value_range demo_loader fd \<noteq> Err Panics"
    by (simp_all add: demo_loader_def demo_code_def demo_insts_def plain_insts_def LD_DW_IMM_def)
  with preprocess_relocates [OF plain_insts_laws this(1,2)] show ?thesis by blast
qed

end
