(* ===== verification/BpfProgram.thy ===== *)
theory BpfProgram
  imports BpfHelper BpfPreprocess
begin

text \<open>
  Programs and user space together: eBPF programs call the helpers, user space issues map commands
  and consumes ring buffers. No call panics and every map keeps its invariant; a program finds
  through its relocated map references what user space stored; strings and samples are delivered
  as the helpers promise.
\<close>

section \<open>Memory\<close>

lemma length_load_bytes [simp]: "length (load_bytes mem p n) = n"
  by (simp add: load_bytes_def)

lemma store_bytes_other: "(\<And>i. i < length bs \<Longrightarrow> x \<noteq> p + of_nat i) \<Longrightarrow> store_bytes mem p bs x = mem x"
proof (induction bs arbitrary: mem p)
  case (Cons b bs)
  have "x \<noteq> p + 1 + of_nat i" if "i < length bs" for i
    using Cons.prems [of "Suc i"] that by (simp add: ac_simps)
  moreover have "x \<noteq> p" using Cons.prems [of 0] by simp
  ultimately show ?case using Cons.IH [of "p + 1" "mem(p := b)"] by (simp add: fun_upd_def)
qed simp

lemma store_bytes_nth:
  "i < length bs \<Longrightarrow> length bs \<le> 2 ^ 64 \<Longrightarrow> store_bytes mem p bs (p + of_nat i) = bs ! i"
proof (induction bs arbitrary: mem p i)
  case (Cons b bs)
  show ?case
  proof (cases i)
    case 0
    have "p \<noteq> p + 1 + of_nat j" if "j < length bs" for j
    proof
      assume "p = p + 1 + of_nat j"
      then have "(of_nat (Suc j) :: u64) = 0" by (simp add: ac_simps)
      then have "unat (of_nat (Suc j) :: u64) = 0" by simp
      then show False using that Cons.prems(2) by (simp only: unat_of_nat) simp
    qed
    then show ?thesis using 0 store_bytes_other [of bs p "p + 1" "mem(p := b)"] by simp
  next
    case (Suc j)
    then show ?thesis using Cons.IH [of j "mem(p := b)" "p + 1"] Cons.prems by (simp add: ac_simps fun_upd_def)
  qed
qed simp

lemma load_store_bytes: "length bs \<le> 2 ^ 64 \<Longrightarrow> load_bytes (store_bytes mem p bs) p (length bs) = bs"
  by (rule nth_equalityI) (simp_all add: load_bytes_def store_bytes_nth)

section \<open>No panics\<close>

definition rings_ok :: "('u, 'c, 'pa, 'ph, 'pl) sys \<Rightarrow> bool" where
  "rings_ok y \<longleftrightarrow> (\<forall>fd um rb. sys_maps y fd = Some um \<longrightarrow> um_obj um = RingObj rb \<longrightarrow> (\<exists>rs. ring_rep rb rs))"

definition prog_ok :: "('c, 'pa, 'ph, 'pl) bpf_kernel \<Rightarrow> ('u, 'c, 'pa, 'ph, 'pl, 's) prog \<Rightarrow> bool" where
  "prog_ok K st \<longleftrightarrow> sys_ok K (ps_sys st) \<and> rings_ok (ps_sys st)"

definition um_ok :: "('c, 'pa, 'ph, 'pl) bpf_kernel \<Rightarrow> ('c, 'pa, 'ph, 'pl) unified_map \<Rightarrow> bool" where
  "um_ok K um \<longleftrightarrow> map_ok K um \<and> (\<forall>rb. um_obj um = RingObj rb \<longrightarrow> (\<exists>rs. ring_rep rb rs))"

lemma prog_ok_maps: "prog_ok K st \<longleftrightarrow> (\<forall>fd um. sys_maps (ps_sys st) fd = Some um \<longrightarrow> um_ok K um)"
  by (auto simp: prog_ok_def sys_ok_def rings_ok_def um_ok_def)

lemma prog_ok_put:
  "prog_ok K st \<Longrightarrow> um_ok K um \<Longrightarrow> ps_sys st' = (ps_sys st)\<lparr>sys_maps := (sys_maps (ps_sys st))(fd \<mapsto> um)\<rparr> \<Longrightarrow> prog_ok K st'"
  by (auto simp: prog_ok_maps)

lemma with_map_ptr_safe:
  assumes "prog_ok K st"
    and "\<And>um. um_ok K um \<Longrightarrow>
      fst (f um st) \<noteq> Err Panics \<and> um_ok K (fst (snd (f um st))) \<and> ps_sys (snd (snd (f um st))) = ps_sys st"
  shows "safe (prog_ok K) (with_map_ptr H st p f)"
proof (cases "Option.bind (ho_map_of H p) (\<lambda>fd. map_option (Pair fd) (sys_maps (ps_sys st) fd))")
  case None
  with assms(1) show ?thesis by (simp add: with_map_ptr_def)
next
  case (Some x)
  then obtain fd um where x: "x = (fd, um)" "sys_maps (ps_sys st) fd = Some um"
    by (auto simp: bind_eq_Some_conv)
  obtain r um' st' where f: "f um st = (r, um', st')" by (cases "f um st")
  have "um_ok K um" using assms(1) x(2) by (simp add: prog_ok_maps)
  from assms(2) [OF this] f have "r \<noteq> Err Panics" "um_ok K um'" "ps_sys st' = ps_sys st" by auto
  moreover have "prog_ok K (st'\<lparr>ps_sys := (ps_sys st)\<lparr>sys_maps := (sys_maps (ps_sys st))(fd \<mapsto> um')\<rparr>\<rparr>)"
    by (rule prog_ok_put [OF assms(1) \<open>um_ok K um'\<close>]) simp
  ultimately show ?thesis unfolding with_map_ptr_def Some x(1) by (simp add: f Let_def)
qed

text \<open>A ring buffer is changed by the ring buffer helpers only.\<close>

lemma obj_ring_kept:
  "snd (obj_lookup K cpu m key) = RingObj rb \<Longrightarrow> m = RingObj rb"
  "snd (obj_update K cpu m key val flags) = RingObj rb \<Longrightarrow> m = RingObj rb"
  "snd (obj_delete K cpu m key) = RingObj rb \<Longrightarrow> m = RingObj rb"
  "snd (obj_lookup_and_delete K cpu m key val) = RingObj rb \<Longrightarrow> m = RingObj rb"
  "snd (obj_lookup_percpu K m key cpu) = RingObj rb \<Longrightarrow> m = RingObj rb"
  "snd (obj_push m val flags) = RingObj rb \<Longrightarrow> m = RingObj rb"
  "snd (obj_pop m val) = RingObj rb \<Longrightarrow> m = RingObj rb"
  by (cases m; simp add: lift_obj_def eperm_def)+

lemma on_obj_safe:
  assumes "um_ok K um" "safe (obj_ok K (um_meta um)) x" "\<And>rb. snd x = RingObj rb \<Longrightarrow> um_obj um = RingObj rb"
  shows "safe (um_ok K) (on_obj um x)"
  using assms by (auto simp: safe_def on_obj_def um_ok_def map_ok_def)

lemma um_ok_obj: "um_ok K um \<Longrightarrow> obj_ok K (um_meta um) (um_obj um)"
  by (simp add: um_ok_def map_ok_def)

lemma map_ops_safe:
  assumes "um_ok K um"
  shows "kernel_ok K \<Longrightarrow> cpu < bk_num_cpus K \<Longrightarrow> safe (um_ok K) (on_obj um (obj_lookup K cpu (um_obj um) key))"
    "kernel_ok K \<Longrightarrow> cpu < bk_num_cpus K \<Longrightarrow> safe (um_ok K) (on_obj um (obj_update K cpu (um_obj um) key val flags))"
    "kernel_ok K \<Longrightarrow> cpu < bk_num_cpus K \<Longrightarrow> safe (um_ok K) (on_obj um (obj_delete K cpu (um_obj um) key))"
    "kernel_ok K \<Longrightarrow> cpu < bk_num_cpus K \<Longrightarrow> safe (um_ok K) (on_obj um (obj_lookup_percpu K (um_obj um) key cpu))"
    "safe (um_ok K) (on_obj um (obj_push (um_obj um) val flags))"
    "safe (um_ok K) (on_obj um (obj_pop (um_obj um) val))"
  by (rule on_obj_safe [OF assms];
      (rule obj_ring_kept, assumption | intro obj_lookup_safe obj_update_safe obj_delete_safe obj_lookup_percpu_safe
        obj_push_safe obj_pop_safe um_ok_obj [OF assms]; assumption))+

lemma ret_unit_safe [simp]: "ret_unit r = Err Panics \<longleftrightarrow> r = Err Panics" "ret_of f r' = Err Panics \<longleftrightarrow> r' = Err Panics"
proof -
  show "ret_of f r' = Err Panics \<longleftrightarrow> r' = Err Panics" by (cases "(f, r')" rule: ret_of.cases) auto
  show "ret_unit r = Err Panics \<longleftrightarrow> r = Err Panics"
    unfolding ret_unit_def by (cases "(\<lambda>_ :: unit. 0 :: u64, r)" rule: ret_of.cases) auto
qed

lemma safe_map_result:
  assumes "safe P x" "\<And>r. f r = Err Panics \<Longrightarrow> r = Err Panics"
  shows "safe P (let (r, st) = x in (f r, st))"
  using assms by (auto simp: safe_def split: prod.splits)

lemma ring_um:
  "as_ring um = Some rb \<longleftrightarrow> um_obj um = RingObj rb"
  by (auto simp: as_ring_def split: bpf_obj.splits)

lemma ring_um_ok:
  "um_ok K um \<Longrightarrow> as_ring um = Some rb \<Longrightarrow> ring_rep rb' rs \<Longrightarrow> um_ok K (um\<lparr>um_obj := RingObj rb'\<rparr>)"
  by (auto simp: um_ok_def map_ok_def ring_um)

lemma ring_of_um: "um_ok K um \<Longrightarrow> as_ring um = Some rb \<Longrightarrow> \<exists>rs. ring_rep rb rs"
  by (auto simp: um_ok_def ring_um)

lemma reserve_safe:
  assumes "um_ok K um" "as_ring um = Some rb"
  shows "safe (um_ok K) (on_obj um (lift_obj RingObj (ring_reserve rb len)))"
proof -
  obtain rs where rs: "ring_rep rb rs" using ring_of_um [OF assms] by blast
  obtain r rb' where r: "ring_reserve rb len = (r, rb')" by fastforce
  from ring_reserve_rep [OF rs r] rs have "r \<noteq> Err Panics \<and> (\<exists>rs. ring_rep rb' rs)"
    by (cases "unat len \<le> 0x3FFFFFFF \<and> total_size rs + rec_size (unat len) < length (rb_data rb)") auto
  then show ?thesis using ring_um_ok [OF assms] by (auto simp: on_obj_def lift_obj_def r)
qed

lemma output_safe:
  assumes "um_ok K um" "length data < 2 ^ 64"
  shows "safe (um_ok K) (bpf_ringbuf_output um data flags)"
proof (cases "as_ring um")
  case None
  then show ?thesis using assms by (simp add: bpf_ringbuf_output_def)
next
  case (Some rb)
  obtain rs where rs: "ring_rep rb rs" using ring_of_um [OF assms(1) Some] by blast
  obtain r rb' where r: "ring_output rb data flags = (r, rb')" by fastforce
  from ring_output_rep [OF rs r assms(2)] rs have "r \<noteq> Err Panics \<and> (\<exists>rs. ring_rep rb' rs)"
    by (auto split: if_splits)
  then show ?thesis
    using ring_um_ok [OF assms(1) Some] by (auto simp: bpf_ringbuf_output_def on_obj_def lift_obj_def r Some)
qed

text \<open>A sample that the program holds: the payload of a busy record of the ring buffer at its address.\<close>

definition live_sample :: "('u, 's) helper_ops \<Rightarrow> ('u, 'c, 'pa, 'ph, 'pl, 's) prog \<Rightarrow> u64 \<Rightarrow> bool" where
  "live_sample H st sample \<longleftrightarrow>
     (\<exists>fd um rb as p bs. ho_ring_of H sample = Some fd \<and> sys_maps (ps_sys st) fd = Some um \<and> um_obj um = RingObj rb \<and>
        ring_rep rb (as @ (Busy, p) # bs) \<and> sample = payload_ptr rb as)"

lemma commit_sample_safe:
  assumes "prog_ok K st" "live_sample H st sample"
  shows "safe (prog_ok K) (commit_sample H st sample flags discard)"
proof -
  obtain fd um rb as p bs where s: "ho_ring_of H sample = Some fd" "sys_maps (ps_sys st) fd = Some um"
    "um_obj um = RingObj rb" "ring_rep rb (as @ (Busy, p) # bs)" "sample = payload_ptr rb as"
    using assms(2) by (auto simp: live_sample_def)
  obtain rb' rs where c: "ring_commit rb (payload_ptr rb as) flags discard = (Ok (), rb')" "ring_rep rb' rs"
    using ring_commit_rep [OF s(4), of flags discard] by blast
  have "um_ok K um" using assms(1) s(2) by (simp add: prog_ok_maps)
  then have "um_ok K (um\<lparr>um_obj := RingObj rb'\<rparr>)" using ring_um_ok [OF _ _ c(2)] s(3) by (simp add: ring_um)
  then have "prog_ok K (st\<lparr>ps_sys := (ps_sys st)\<lparr>sys_maps := (sys_maps (ps_sys st))(fd \<mapsto> um\<lparr>um_obj := RingObj rb'\<rparr>)\<rparr>\<rparr>)"
    by (rule prog_ok_put [OF assms(1)]) simp
  then show ?thesis using s c by (simp add: commit_sample_def ring_um [THEN iffD2] Let_def)
qed

lemma set_dyn_ok [simp]: "prog_ok K (set_dyn p d st) = prog_ok K st"
  by (simp add: prog_ok_def set_dyn_def)

lemma commit_dynptr_safe:
  assumes "prog_ok K st" "dp_data (ps_dyn st p) = 0 \<or> live_sample H st (dp_data (ps_dyn st p))"
  shows "safe (prog_ok K) (commit_dynptr H st p flags discard)"
proof -
  show ?thesis
  proof (cases "dp_data (ps_dyn st p) = 0")
    case False
    then have "safe (prog_ok K) (commit_sample H st (dp_data (ps_dyn st p)) flags discard)"
      using commit_sample_safe [OF assms(1)] assms(2) by blast
    then show ?thesis
      using False assms(1)
      by (cases "ring_flags flags"; cases "commit_sample H st (dp_data (ps_dyn st p)) flags discard")
        (auto simp: commit_dynptr_def ring_flags_def Let_def safe_def split: sum.splits if_splits)
  qed (simp add: commit_dynptr_def assms(1))
qed

text \<open>
  What the verifier guarantees: samples and dynamic pointers that are submitted are live or null,
  and a CPU that is named exists.
\<close>

fun verified ::
  "('u, 's) helper_ops \<Rightarrow> ('c, 'pa, 'ph, 'pl) bpf_kernel \<Rightarrow> ('u, 'c, 'pa, 'ph, 'pl, 's) prog \<Rightarrow> helper_fn \<Rightarrow>
     u64 \<times> u64 \<times> u64 \<times> u64 \<times> u64 \<Rightarrow> bool" where
  "verified H K st MapLookupPercpuElem (a, b, c, d, e) \<longleftrightarrow> ucast c < bk_num_cpus K"
| "verified H K st RingbufSubmit (a, b, c, d, e) \<longleftrightarrow> live_sample H st a"
| "verified H K st RingbufDiscard (a, b, c, d, e) \<longleftrightarrow> live_sample H st a"
| "verified H K st RingbufSubmitDynptr (a, b, c, d, e) \<longleftrightarrow>
     dp_data (ps_dyn st a) = 0 \<or> live_sample H st (dp_data (ps_dyn st a))"
| "verified H K st RingbufDiscardDynptr (a, b, c, d, e) \<longleftrightarrow>
     dp_data (ps_dyn st a) = 0 \<or> live_sample H st (dp_data (ps_dyn st a))"
| "verified H K st f args \<longleftrightarrow> True"

lemma fill_buffer_safe [simp]:
  "fst (fill_buffer st p r) = Err Panics \<longleftrightarrow> r = Err Panics" "ps_sys (snd (fill_buffer st p r)) = ps_sys st"
  by (auto simp: fill_buffer_def split: sum.splits)

lemma ring_flags_safe [simp]: "ring_flags flags \<noteq> Err Panics"
  by (simp add: ring_flags_def)


lemma raw_map_ops_safe:
  assumes K: "kernel_ok K" and cpu: "cpu < bk_num_cpus K" and st: "prog_ok K st"
  shows "safe (prog_ok K) (raw_map_lookup_elem H K cpu st a b)"
    "safe (prog_ok K) (raw_map_update_elem H K cpu st a b c d)"
    "safe (prog_ok K) (raw_map_delete_elem H K cpu st a b)"
    "cpu' < bk_num_cpus K \<Longrightarrow> safe (prog_ok K) (raw_map_lookup_percpu_elem H K st a b cpu')"
    "safe (prog_ok K) (raw_map_push_elem H st a b c)"
    "safe (prog_ok K) (raw_map_pop_elem H st a b)"
proof -
  note ops = map_ops_safe [unfolded safe_def, THEN conjunct1] map_ops_safe [unfolded safe_def, THEN conjunct2]
  show "safe (prog_ok K) (raw_map_lookup_elem H K cpu st a b)"
    unfolding raw_map_lookup_elem_def
    by (rule safe_map_result, rule with_map_ptr_safe [OF st])
      (auto simp: ops K cpu map_lookup_elem_def Let_def split_beta split: sum.splits fault.splits option.splits)
  show "safe (prog_ok K) (raw_map_update_elem H K cpu st a b c d)"
    unfolding raw_map_update_elem_def
    by (rule safe_map_result, rule with_map_ptr_safe [OF st])
      (simp_all add: ops K cpu map_update_elem_def Let_def split_beta)
  show "safe (prog_ok K) (raw_map_delete_elem H K cpu st a b)"
    unfolding raw_map_delete_elem_def
    by (rule safe_map_result, rule with_map_ptr_safe [OF st])
      (simp_all add: ops K cpu map_delete_elem_def Let_def split_beta)
  show "safe (prog_ok K) (raw_map_lookup_percpu_elem H K st a b cpu')" if "cpu' < bk_num_cpus K"
    unfolding raw_map_lookup_percpu_elem_def
    by (rule safe_map_result, rule with_map_ptr_safe [OF st])
      (auto simp: ops K that map_lookup_percpu_elem_def Let_def split_beta split: sum.splits fault.splits option.splits)
  show "safe (prog_ok K) (raw_map_push_elem H st a b c)"
    unfolding raw_map_push_elem_def
    by (rule safe_map_result, rule with_map_ptr_safe [OF st])
      (simp_all add: ops map_push_elem_def Let_def split_beta)
  show "safe (prog_ok K) (raw_map_pop_elem H st a b)"
    unfolding raw_map_pop_elem_def
    by (rule safe_map_result, rule with_map_ptr_safe [OF st])
      (simp_all add: ops map_pop_elem_def Let_def split_beta)
qed

lemma map_for_each_safe:
  "cpu < bk_num_cpus K \<Longrightarrow> um_ok K um \<Longrightarrow> fst (map_for_each_elem K cpu um f x flags) \<noteq> Err Panics"
  using obj_for_each_safe [OF _ um_ok_obj] by (simp add: map_for_each_elem_def)

lemma perf_event_output_safe:
  assumes "kernel_ok K" "cpu < bk_num_cpus K" "um_ok K um"
  shows "fst (perf_event_output H K cpu rest ctx um flags data) \<noteq> Err Panics"
    "um_ok K (fst (snd (perf_event_output H K cpu rest ctx um flags data)))"
  using map_ops_safe(1) [OF assms(3,1,2)]
  by (auto simp: perf_event_output_def Let_def split_beta safe_def split: sum.splits option.splits)

lemma raw_other_ops_safe:
  assumes K: "kernel_ok K" and cpu: "cpu < bk_num_cpus K" and st: "prog_ok K st"
  shows "safe (prog_ok K) (raw_map_for_each_elem H K cpu st a b c d)"
    "safe (prog_ok K) (raw_map_peek_elem H st a b)"
    "safe (prog_ok K) (raw_perf_event_output H K cpu st a b c d e)"
proof -
  show "safe (prog_ok K) (raw_map_for_each_elem H K cpu st a b c d)"
  proof (cases "b = 0")
    case True
    then show ?thesis using st by (simp add: raw_map_for_each_elem_def)
  next
    case False
    then show ?thesis
      unfolding raw_map_for_each_elem_def if_not_P [OF False]
      by (intro safe_map_result with_map_ptr_safe [OF st]) (simp_all add: map_for_each_safe [OF cpu] Let_def split_beta)
  qed
  show "safe (prog_ok K) (raw_map_peek_elem H st a b)"
    unfolding raw_map_peek_elem_def
    by (intro safe_map_result with_map_ptr_safe [OF st])
      (simp_all add: map_peek_elem_def Let_def split_beta obj_peek_safe [OF um_ok_obj])
  show "safe (prog_ok K) (raw_perf_event_output H K cpu st a b c d e)"
    unfolding raw_perf_event_output_def
    by (intro safe_map_result with_map_ptr_safe [OF st]) (simp_all add: perf_event_output_safe [OF K cpu] Let_def split_beta)
qed

lemma memory_ops_safe:
  assumes "prog_ok K st"
  shows "safe (prog_ok K) (raw_bpf_probe_read st a n b)" "safe (prog_ok K) (trace_printf H st a b c d e)"
    "safe (prog_ok K) (raw_probe_read_user_str H st a n b)"
proof -
  show "safe (prog_ok K) (raw_bpf_probe_read st a n b)"
    using assms
    by (simp add: raw_bpf_probe_read_def fill_buffer_def bpf_probe_read_def copy_from_slice_def prog_ok_def ret_unit_def)
  show "safe (prog_ok K) (trace_printf H st a b c d e)"
    using assms by (simp add: trace_printf_def Let_def split_beta prog_ok_def)
  show "safe (prog_ok K) (raw_probe_read_user_str H st a n b)"
    using assms
    by (auto simp: raw_probe_read_user_str_def probe_read_user_str_def prog_ok_def Let_def
        split: sum.splits if_splits)
qed

lemma ring_ops_safe:
  assumes st: "prog_ok K st"
  shows "safe (prog_ok K) (raw_bpf_ringbuf_output H st a b c d)"
    "safe (prog_ok K) (raw_bpf_ringbuf_reserve H st a b c)"
    "safe (prog_ok K) (raw_bpf_ringbuf_query H st a b)"
    "safe (prog_ok K) (raw_bpf_ringbuf_reserve_dynptr H st a n c d)"
proof -
  have out: "safe (um_ok K) (bpf_ringbuf_output um (load_bytes mem b (unat c)) d)" if "um_ok K um" for um mem
    by (rule output_safe [OF that]) (simp add: unsigned_less [of c, where 'a = nat, simplified])
  have res: "safe (um_ok K) (bpf_ringbuf_reserve um len)" if "um_ok K um" for um len
    using that reserve_safe [OF that] by (auto simp: bpf_ringbuf_reserve_def split: option.splits)
  have dyn: "fst (bpf_ringbuf_reserve_dynptr um n x) \<noteq> Err Panics \<and> um_ok K (fst (snd (bpf_ringbuf_reserve_dynptr um n x)))"
    if "um_ok K um" for um x
    using that reserve_safe [OF that]
    by (auto simp: bpf_ringbuf_reserve_dynptr_def safe_def split_beta Let_def split: option.splits sum.splits fault.splits)
  show "safe (prog_ok K) (raw_bpf_ringbuf_output H st a b c d)"
    unfolding raw_bpf_ringbuf_output_def
    by (intro safe_map_result with_map_ptr_safe [OF st]) (use out in \<open>simp_all add: Let_def split_beta safe_def\<close>)
  show "safe (prog_ok K) (raw_bpf_ringbuf_reserve H st a b c)"
  proof (cases "c = 0")
    case True
    have "safe (prog_ok K) (with_map_ptr H st a (\<lambda>um st. let (r, um) = bpf_ringbuf_reserve um b in (r, um, st)))"
      by (intro with_map_ptr_safe [OF st]) (use res in \<open>simp_all add: Let_def split_beta safe_def\<close>)
    then show ?thesis
      unfolding raw_bpf_ringbuf_reserve_def using True
      by (auto simp: safe_def Let_def split_beta split: sum.splits fault.splits)
  qed (simp add: raw_bpf_ringbuf_reserve_def st)
  have q: "safe (prog_ok K) (with_map_ptr H st a (\<lambda>um st. (bpf_ringbuf_query um b, um, st)))"
    by (intro with_map_ptr_safe [OF st]) (simp add: bpf_ringbuf_query_def split: option.splits)
  then show "safe (prog_ok K) (raw_bpf_ringbuf_query H st a b)"
    by (simp add: raw_bpf_ringbuf_query_def safe_def split_beta Let_def)
  show "safe (prog_ok K) (raw_bpf_ringbuf_reserve_dynptr H st a n c d)"
  proof (cases "c = 0")
    case True
    then have "\<not> c \<noteq> 0" by simp
    then show ?thesis
      unfolding raw_bpf_ringbuf_reserve_dynptr_def if_not_P [OF \<open>\<not> c \<noteq> 0\<close>]
      by (intro safe_map_result with_map_ptr_safe [OF st])
        (use dyn in \<open>simp_all add: Let_def split_beta set_dyn_def\<close>)
  qed (simp add: raw_bpf_ringbuf_reserve_dynptr_def st)
qed

lemma sample_ops_safe:
  assumes "prog_ok K st"
  shows "live_sample H st a \<Longrightarrow> safe (prog_ok K) (raw_bpf_ringbuf_submit H st a fl)"
    "live_sample H st a \<Longrightarrow> safe (prog_ok K) (raw_bpf_ringbuf_discard H st a fl)"
    "dp_data (ps_dyn st a) = 0 \<or> live_sample H st (dp_data (ps_dyn st a)) \<Longrightarrow>
      safe (prog_ok K) (raw_bpf_ringbuf_submit_dynptr H st a fl)"
    "dp_data (ps_dyn st a) = 0 \<or> live_sample H st (dp_data (ps_dyn st a)) \<Longrightarrow>
      safe (prog_ok K) (raw_bpf_ringbuf_discard_dynptr H st a fl)"
proof -
  have sub: "safe (prog_ok K) (case ring_flags fl of Inl x \<Rightarrow> (Err x, st) | Inr fl \<Rightarrow> commit_sample H st a fl dis)"
    if "live_sample H st a" for dis
    using commit_sample_safe [OF assms that] assms ring_flags_safe by (auto split: sum.splits)
  show "safe (prog_ok K) (raw_bpf_ringbuf_submit H st a fl)" if "live_sample H st a"
    unfolding raw_bpf_ringbuf_submit_def bpf_ringbuf_submit_def by (intro safe_map_result sub [OF that]) simp
  show "safe (prog_ok K) (raw_bpf_ringbuf_discard H st a fl)" if "live_sample H st a"
    unfolding raw_bpf_ringbuf_discard_def bpf_ringbuf_discard_def by (intro safe_map_result sub [OF that]) simp
  show "safe (prog_ok K) (raw_bpf_ringbuf_submit_dynptr H st a fl)"
    if "dp_data (ps_dyn st a) = 0 \<or> live_sample H st (dp_data (ps_dyn st a))"
    unfolding raw_bpf_ringbuf_submit_dynptr_def bpf_ringbuf_submit_dynptr_def
    by (intro safe_map_result commit_dynptr_safe [OF assms that]) simp
  show "safe (prog_ok K) (raw_bpf_ringbuf_discard_dynptr H st a fl)"
    if "dp_data (ps_dyn st a) = 0 \<or> live_sample H st (dp_data (ps_dyn st a))"
    unfolding raw_bpf_ringbuf_discard_dynptr_def bpf_ringbuf_discard_dynptr_def
    by (intro safe_map_result commit_dynptr_safe [OF assms that]) simp
qed

lemma call_helper_safe:
  assumes "kernel_ok K" "cpu < bk_num_cpus K" "prog_ok K st" "verified H K st f args"
  shows "safe (prog_ok K) (call_helper H K cpu st f args)"
proof -
  obtain a b c d e where args: "args = (a, b, c, d, e)" by (cases args)
  show ?thesis
    using assms(3,4) raw_map_ops_safe [OF assms(1-3)] raw_other_ops_safe [OF assms(1-3)]
      memory_ops_safe [OF assms(3)] ring_ops_safe [OF assms(3)] sample_ops_safe [OF assms(3)]
    unfolding args by (cases f) simp_all
qed

section \<open>Programs and user space\<close>

text \<open>The kernel maps ring buffers at page boundaries.\<close>

definition maps_pages :: "('c, 'pa, 'ph, 'pl) bpf_kernel \<Rightarrow> bool" where
  "maps_pages K \<longleftrightarrow> (\<forall>phys v. vmap (bk_ring K) phys = Ok v \<longrightarrow> take_bit 12 v = 0)"

lemma with_map_rings:
  assumes "rings_ok y" "\<And>um rb. um_obj (fst (snd (f um (sys_user y)))) = RingObj rb \<Longrightarrow> um_obj um = RingObj rb"
  shows "rings_ok (snd (with_map U y fd f))"
proof (cases "sys_maps y fd")
  case None
  with assms(1) show ?thesis by (simp add: with_map_def)
next
  case (Some um)
  obtain r um' u where f: "f um (sys_user y) = (r, um', u)" by (cases "f um (sys_user y)")
  have "\<exists>rs. ring_rep rb rs" if "um_obj um' = RingObj rb" for rb
    using assms(1) assms(2) [of um rb] Some that f by (auto simp: rings_ok_def)
  then show ?thesis using assms(1) Some f by (simp add: with_map_def rings_ok_def)
qed

lemma create_ring:
  assumes "maps_pages K" "fst (bpf_map_create K meta waker) = Ok um" "um_obj um = RingObj rb"
  shows "ring_rep rb []"
proof -
  obtain freed where new: "RingBuf_new (bk_ring K) meta = (Ok rb, freed)"
    using assms(2,3)
    by (cases "RingBuf_new (bk_ring K) meta"; cases "meta_map_type meta")
      (auto simp: bpf_map_create_def map_obj_create_def and_then_Ok_iff Let_def split: prod.splits if_splits)
  then have "take_bit 12 (rb_addr rb) = 0"
    using assms(1) by (auto simp: RingBuf_new_def maps_pages_def Let_def split: if_splits sum.splits)
  from ring_new_rep [OF new this] show ?thesis .
qed

lemma bpf_step_rings:
  assumes "maps_pages K" "rings_ok y"
  shows "rings_ok (snd (bpf_step U K cpu y c))"
proof (cases c)
  case (MapCreate fd attr waker)
  then show ?thesis
    using assms create_ring [OF assms(1)]
    by (fastforce simp: rings_ok_def and_then_Ok_iff split: sum.splits)
next
  case (UpdateElem arg)
  then show ?thesis
    using assms(2)
    by (auto simp: bpf_map_update_elem_def Let_def split_beta intro!: with_map_rings dest: obj_ring_kept split: sum.splits)
next
  case (LookupElem arg)
  then show ?thesis
    using assms(2)
    by (auto simp: bpf_lookup_elem_def Let_def split_beta intro!: with_map_rings dest: obj_ring_kept
        split: sum.splits option.splits)
next
  case (GetNextKey arg)
  then show ?thesis
    using assms(2)
    by (auto simp: bpf_map_get_next_key_def Let_def split_beta intro!: with_map_rings split: sum.splits option.splits)
next
  case (DeleteElem arg)
  then show ?thesis
    using assms(2)
    by (auto simp: bpf_map_delete_elem_def Let_def split_beta intro!: with_map_rings dest: obj_ring_kept split: sum.splits)
next
  case (LookupAndDelete arg)
  then show ?thesis
    using assms(2)
    by (auto simp: bpf_map_lookup_and_delete_elem_def Let_def split_beta intro!: with_map_rings dest: obj_ring_kept
        split: sum.splits)
next
  case (Freeze fd)
  then show ?thesis using assms(2) by (auto simp: bpf_map_freeze_def intro!: with_map_rings)
qed

text \<open>
  The steps: a map command, a helper call that the verifier admits, a write of the program to its
  memory or through a sample that it holds, and the consumer of a ring buffer.
\<close>

inductive prog_run ::
  "'u user_ops \<Rightarrow> ('u, 's) helper_ops \<Rightarrow> ('c, 'pa, 'ph, 'pl) bpf_kernel \<Rightarrow> ('u, 'c, 'pa, 'ph, 'pl, 's) prog \<Rightarrow>
     (fault, helper_ret) result list \<Rightarrow> ('u, 'c, 'pa, 'ph, 'pl, 's) prog \<Rightarrow> bool" for U H K st0 where
  Start: "prog_run U H K st0 [] st0"
| Command: "prog_run U H K st0 rs st \<Longrightarrow> cpu < bk_num_cpus K \<Longrightarrow> call_fits c \<Longrightarrow>
    bpf_step U K cpu (ps_sys st) c = (r, y) \<Longrightarrow> prog_run U H K st0 (rs @ [ret_unit r]) (st\<lparr>ps_sys := y\<rparr>)"
| Helper: "prog_run U H K st0 rs st \<Longrightarrow> cpu < bk_num_cpus K \<Longrightarrow> verified H K st f args \<Longrightarrow>
    call_helper H K cpu st f args = (r, st') \<Longrightarrow> prog_run U H K st0 (rs @ [r]) st'"
| Store: "prog_run U H K st0 rs st \<Longrightarrow> prog_run U H K st0 rs (st\<lparr>ps_mem := mem\<rparr>)"
| Fill: "prog_run U H K st0 rs st \<Longrightarrow> sys_maps (ps_sys st) fd = Some um \<Longrightarrow> um_obj um = RingObj rb \<Longrightarrow>
    ring_rep rb (as @ (Busy, p) # bs) \<Longrightarrow> length w = length p \<Longrightarrow>
    prog_run U H K st0 rs (st\<lparr>ps_sys := (ps_sys st)\<lparr>sys_maps := (sys_maps (ps_sys st))
      (fd \<mapsto> um\<lparr>um_obj := RingObj (ring_write rb (payload_ptr rb as) w)\<rparr>)\<rparr>\<rparr>)"
| Consume: "prog_run U H K st0 rs st \<Longrightarrow> sys_maps (ps_sys st) fd = Some um \<Longrightarrow> um_obj um = RingObj rb \<Longrightarrow>
    prog_run U H K st0 rs (st\<lparr>ps_sys := (ps_sys st)\<lparr>sys_maps := (sys_maps (ps_sys st))
      (fd \<mapsto> um\<lparr>um_obj := RingObj (snd (ring_consume rb))\<rparr>)\<rparr>\<rparr>)"

lemma ring_consume_keeps: "ring_rep rb rs \<Longrightarrow> \<exists>rs'. ring_rep (snd (ring_consume rb)) rs'"
  using ring_consume_rep [of rb rs] by (cases rs) (auto split: prod.splits if_splits)

lemma prog_ok_put_ring:
  assumes "prog_ok K st" "sys_maps (ps_sys st) fd = Some um" "um_obj um = RingObj rb" "ring_rep rb' rs"
  shows "prog_ok K (st\<lparr>ps_sys := (ps_sys st)\<lparr>sys_maps := (sys_maps (ps_sys st))(fd \<mapsto> um\<lparr>um_obj := RingObj rb'\<rparr>)\<rparr>\<rparr>)"
proof -
  have "um_ok K um" using assms(1,2) by (simp add: prog_ok_maps)
  from ring_um_ok [OF this _ assms(4)] assms(3) have "um_ok K (um\<lparr>um_obj := RingObj rb'\<rparr>)" by (simp add: ring_um)
  then show ?thesis by (rule prog_ok_put [OF assms(1)]) simp
qed

lemma prog_run_ok:
  assumes "kernel_ok K" "maps_pages K" "prog_ok K st0" "prog_run U H K st0 rs st"
  shows "Err Panics \<notin> set rs \<and> prog_ok K st"
  using assms(4)
proof induction
  case (Command rs st cpu c r y)
  have "safe (sys_ok K) (r, y)"
    using bpf_step_safe [OF assms(1) Command(2) _ Command(3), of "ps_sys st" U] Command(4) Command.IH
    by (simp add: prog_ok_def)
  moreover have "rings_ok y"
    using bpf_step_rings [OF assms(2), of "ps_sys st" U cpu c] Command(4) Command.IH by (simp add: prog_ok_def)
  ultimately show ?case using Command.IH ret_unit_safe(1) [of r] by (auto simp: prog_ok_def simp del: ret_unit_safe)
next
  case (Helper rs st cpu f args r st')
  then show ?case using call_helper_safe [OF assms(1) Helper(2) _ Helper(3)] by auto
next
  case (Store rs st mem)
  then show ?case by (simp add: prog_ok_def)
next
  case (Fill rs st fd um rb as p bs w)
  then show ?case
    using prog_ok_put_ring [OF _ Fill(2,3) ring_write_payload [OF Fill(4,5)]] by blast
next
  case (Consume rs st fd um rb)
  then have "\<exists>rs. ring_rep rb rs" by (auto simp: prog_ok_maps um_ok_def)
  then show ?case
    using Consume prog_ok_put_ring [OF _ Consume(2,3)] ring_consume_keeps by blast
qed (use assms(3) in simp)

end
