(* ===== verification/HelperCalls.thy ===== *)
theory HelperCalls
  imports BpfProgram
begin

text \<open>
  What eBPF programs rely on when they call helpers: type safety of whole runs, map references that
  reach the maps of user space, samples through dynamic pointers, and strings from user memory.
\<close>

section \<open>Type safety\<close>


section \<open>Map references\<close>

text \<open>
  C9: a program finds what user space stored. Take a map reference that the preprocessor put into
  a program, where the kernel's address for a descriptor leads back to the map of the descriptor.
  It stems from an instruction that names a descriptor, and after a successful update of an element
  of the map of this descriptor by user space, the program that looks the same key up through the
  reference gets the value.
\<close>

theorem program_finds_update:
  fixes K :: "('c, 'pa, 'ph, 'pl) bpf_kernel" and st :: "('u, 'c, 'pa, 'ph, 'pl, 's) prog"
  assumes "inst_laws I" "translate L code = Ok is" "length code = 8 * length is" "paired I is"
    and "preprocess I L code = Ok pp" "p \<in> set (raw_file_ptr pp)"
    and "\<forall>fd q. map_ptr L fd = Ok q \<longrightarrow> ho_map_of H q = Some fd"
    and "kernel_ok K" "cpu < bk_num_cpus K" "prog_ok K st"
  shows "\<exists>i \<in> set is. map_ptr L (imm I i) = Ok p \<and> (\<forall>(um :: ('c, 'pa, 'ph, 'pl) unified_map) arg y key_p val.
    sys_maps (ps_sys st) (imm I i) = Some um \<longrightarrow> keyed (meta_map_type (um_meta um)) \<longrightarrow> ua_map_fd arg = imm I i \<longrightarrow>
    copy_from_user U (sys_user (ps_sys st)) (ua_key arg) (unat (meta_key_size (um_meta um))) =
      Ok (load_bytes (ps_mem st) key_p (unat (meta_key_size (um_meta um)))) \<longrightarrow>
    copy_from_user U (sys_user (ps_sys st)) (ua_value arg) (unat (meta_value_size (um_meta um))) = Ok val \<longrightarrow>
    bpf_map_update_elem U K cpu (ps_sys st) arg = (Ok (), y) \<longrightarrow>
    fst (raw_map_lookup_elem H K cpu (st\<lparr>ps_sys := y\<rparr>) p key_p) = Ok (ValuePtr (Some val)))"
proof -
  obtain is' where "relocated I L is (Ok (is', raw_file_ptr pp))"
    using preprocess_outcome [OF assms(1-3)] unfolding assms(5) by (auto simp: eq_commute [of "Ok pp"] and_then_Ok_iff)
  from relocated_pointer [OF this refl assms(6)] obtain i where i: "i \<in> set is" "map_ptr L (imm I i) = Ok p" by blast
  then have fd: "ho_map_of H p = Some (imm I i)" using assms(7) by blast
  show ?thesis
  proof (intro bexI [OF _ i(1)] conjI i(2) allI impI)
    fix um :: "('c, 'pa, 'ph, 'pl) unified_map" and arg y key_p val
    let ?key = "load_bytes (ps_mem st) key_p (unat (meta_key_size (um_meta um)))"
    assume um: "sys_maps (ps_sys st) (imm I i) = Some um" and kd: "keyed (meta_map_type (um_meta um))"
      and arg: "ua_map_fd arg = imm I i"
      and key: "copy_from_user U (sys_user (ps_sys st)) (ua_key arg) (unat (meta_key_size (um_meta um))) = Ok ?key"
      and val: "copy_from_user U (sys_user (ps_sys st)) (ua_value arg) (unat (meta_value_size (um_meta um))) = Ok val"
      and upd: "bpf_map_update_elem U K cpu (ps_sys st) arg = (Ok (), y)"
    obtain m' where m': "obj_update K cpu (um_obj um) ?key val (ua_flags arg) = (Ok (), m')"
      "y = \<lparr>sys_maps = (sys_maps (ps_sys st))(imm I i \<mapsto> um\<lparr>um_obj := m'\<rparr>), sys_user = sys_user (ps_sys st)\<rparr>"
      using upd um arg key val
      by (auto simp: bpf_map_update_elem_def with_map_def and_then_Ok_iff read_user_def Let_def
          split: sum.splits prod.splits)
    have "obj_ok K (um_meta um) (um_obj um)"
      using assms(10) um by (intro um_ok_obj) (simp add: prog_ok_maps)
    from obj_update_lookup [OF assms(8,9) this kd m'(1)]
    show "fst (raw_map_lookup_elem H K cpu (st\<lparr>ps_sys := y\<rparr>) p key_p) = Ok (ValuePtr (Some val))"
      by (simp add: raw_map_lookup_elem_def with_map_ptr_def map_lookup_elem_def on_obj_def fd m'(2) Let_def split_beta)
  qed
qed

section \<open>Dynamic pointers\<close>

definition commit_dyn_call ::
  "('u, 's) helper_ops \<Rightarrow> ('u, 'c, 'pa, 'ph, 'pl, 's) prog \<Rightarrow> bool \<Rightarrow> u64 \<Rightarrow> u64 \<Rightarrow>
     (fault, helper_ret) result \<times> ('u, 'c, 'pa, 'ph, 'pl, 's) prog" where
  "commit_dyn_call H st discard d flags =
     (if discard then raw_bpf_ringbuf_discard_dynptr H st d flags else raw_bpf_ringbuf_submit_dynptr H st d flags)"

lemma commit_dyn_call_eq:
  "commit_dyn_call H st discard d flags = (let (r, st) = commit_dynptr H st d flags discard in (ret_unit r, st))"
  by (simp add: commit_dyn_call_def raw_bpf_ringbuf_discard_dynptr_def raw_bpf_ringbuf_submit_dynptr_def
      bpf_ringbuf_discard_dynptr_def bpf_ringbuf_submit_dynptr_def)

lemma ret_unit_simps [simp]: "ret_unit (Inr u) = Ok (Ret 0)" "ret_unit (Inl (Fails e)) = Ok (Ret (errno e))"
  by (simp_all add: ret_unit_def)

lemma commit_null: "dp_data (ps_dyn st d) = 0 \<Longrightarrow> commit_dyn_call H st discard d flags = (Ok (Ret 0), st)"
  by (simp add: commit_dyn_call_eq commit_dynptr_def)

definition ring_at :: "('u, 'c, 'pa, 'ph, 'pl, 's) prog \<Rightarrow> u32 \<Rightarrow> ringbuf option" where
  "ring_at st fd = Option.bind (sys_maps (ps_sys st) fd) as_ring"

lemma as_ring_put [simp]: "as_ring (um\<lparr>um_obj := RingObj rb\<rparr>) = Some rb"
  by (simp add: as_ring_def)

lemma commit_live:
  assumes "ring_at st fd = Some rb" "ring_rep rb (as @ (Busy, p) # bs)" "ho_ring_of H (payload_ptr rb as) = Some fd"
    and "dp_data (ps_dyn st d) = payload_ptr rb as" "payload_ptr rb as \<noteq> 0" "ring_flags flags = Ok flags"
  shows "\<exists>st' rb'. commit_dyn_call H st discard d flags = (Ok (Ret 0), st') \<and> ring_at st' fd = Some rb' \<and>
    ring_rep rb' (as @ (if discard then Discarded else Ready, p) # bs) \<and> ps_dyn st' d = bpf_dynptr_set_null"
proof -
  obtain um where um: "sys_maps (ps_sys st) fd = Some um" "as_ring um = Some rb"
    using assms(1) by (auto simp: ring_at_def bind_eq_Some_conv)
  obtain rb' where rb': "ring_commit rb (payload_ptr rb as) flags discard = (Ok (), rb')"
    "ring_rep rb' (as @ (if discard then Discarded else Ready, p) # bs)"
    using ring_commit_rep [OF assms(2), of flags discard] by blast
  let ?y = "(ps_sys st)\<lparr>sys_maps := (sys_maps (ps_sys st))(fd \<mapsto> um\<lparr>um_obj := RingObj rb'\<rparr>)\<rparr>"
  let ?st = "set_dyn d bpf_dynptr_set_null (st\<lparr>ps_sys := ?y\<rparr>)"
  have "commit_dyn_call H st discard d flags = (Ok (Ret 0), ?st)"
    using assms(3-6) um rb'(1) by (simp add: commit_dyn_call_eq commit_dynptr_def commit_sample_def Let_def)
  moreover have "ring_at ?st fd = Some rb'" "ps_dyn ?st d = bpf_dynptr_set_null"
    by (simp_all add: ring_at_def set_dyn_def ring_um)
  ultimately show ?thesis using rb'(2) by blast
qed


text \<open>
  On a map of another type a reservation leaves the dynamic pointer as it was, so that a pointer to
  an old sample stays in place.
\<close>

lemma reserve_dynptr_stale:
  "as_ring um = None \<Longrightarrow> \<not> DYNPTR_MAX_SIZE < n \<Longrightarrow> bpf_ringbuf_reserve_dynptr um n d = (Err (Fails EINVAL), um, d)"
  by (simp add: bpf_ringbuf_reserve_dynptr_def dynptr_check_size_def)

section \<open>Strings from user memory\<close>

text \<open>
  C39: a string from user memory is bounded and terminated. Into a buffer of \<open>len\<close> bytes the helper
  writes the longest prefix of the string that leaves room for the null byte, then the null byte;
  it returns the number of bytes written, and no other byte of the program's memory changes.
\<close>

theorem user_string_terminated:
  assumes "ho_user_cstr H (sys_user (ps_sys st)) p = Ok str" "len \<noteq> 0"
  defines "k \<equiv> min (length str) (unat len - 1)"
  shows "\<exists>st'. raw_probe_read_user_str H st dst len p = (Ok (Ret (of_nat (k + 1))), st') \<and> k < unat len \<and>
    load_bytes (ps_mem st') dst (k + 1) = take k str @ [CHR 0x00] \<and>
    (\<forall>x. (\<forall>i \<le> k. x \<noteq> dst + of_nat i) \<longrightarrow> ps_mem st' x = ps_mem st x)"
proof -
  have len: "0 < unat len" using assms(2) by (simp add: unat_gt_0)
  then have k: "k < unat len" by (auto simp: k_def)
  have l64: "unat len \<le> 2 ^ 64" using unsigned_less [of len, where 'a = nat] by simp
  let ?old = "load_bytes (ps_mem st) dst (unat len)"
  define bs where "bs = (take k str @ drop k ?old)[k := CHR 0x00]"
  let ?mem = "store_bytes (ps_mem st) dst bs"
  have ks: "length (take k str) = k" by (simp add: k_def)
  have ne: "?old \<noteq> []" using len by (metis length_load_bytes list.size(3) less_numeral_extra(3))
  have run: "raw_probe_read_user_str H st dst len p = (Ok (Ret (of_nat (k + 1))), st\<lparr>ps_mem := ?mem\<rparr>)"
    using assms(1) ne by (simp add: raw_probe_read_user_str_def probe_read_user_str_def Let_def bs_def k_def)
  have lb: "length bs = unat len" using k ks by (simp add: bs_def)
  have at: "bs ! i = (take k str @ [CHR 0x00]) ! i" if "i \<le> k" for i
    using that k ks by (auto simp: bs_def nth_append nth_list_update le_less)
  have "load_bytes ?mem dst (k + 1) = take k str @ [CHR 0x00]"
  proof (rule nth_equalityI)
    show "length (load_bytes ?mem dst (k + 1)) = length (take k str @ [CHR 0x00])" using ks by simp
    show "load_bytes ?mem dst (k + 1) ! i = (take k str @ [CHR 0x00]) ! i" if "i < length (load_bytes ?mem dst (k + 1))" for i
      using that at [of i] k lb l64 store_bytes_nth [of i bs "ps_mem st" dst]
      by (simp add: load_bytes_def del: upt_Suc)
  qed
  moreover have "?mem x = ps_mem st x" if x: "\<forall>i \<le> k. x \<noteq> dst + of_nat i" for x
  proof (cases "\<exists>i < length bs. x = dst + of_nat i")
    case True
    then obtain i where i: "i < length bs" "x = dst + of_nat i" by blast
    then have "k < i" using x not_less by blast
    then have "bs ! i = ?old ! i" using i(1) ks k lb by (simp add: bs_def nth_append)
    then show ?thesis using store_bytes_nth [of i bs "ps_mem st" dst] i lb l64 by (simp add: load_bytes_def)
  qed (use store_bytes_other [of bs x dst] in blast)
  ultimately show ?thesis using run k by (intro exI [of _ "st\<lparr>ps_mem := ?mem\<rparr>"]) simp
qed

text \<open>The error numbers are positive: an empty buffer returns 22, like a string of 21 bytes.\<close>

lemma user_string_error_positive:
  "raw_probe_read_user_str H st dst 0 p = (Ok (Ret 22), st)"
  by (simp add: raw_probe_read_user_str_def probe_read_user_str_def load_bytes_def)

section \<open>Examples\<close>

text \<open>
  A kernel with one map at the address that \<open>demo_loader\<close> names, under descriptor 5, and programs with
  a memory full of the letter k.
\<close>

definition demo_helpers :: "(u64 \<Rightarrow> string, unit) helper_ops" where
  "demo_helpers =
     \<lparr>ho_map_of = \<lambda>p. if p = 0x1200000034 then Some 5 else None, ho_no_map = EINVAL,
      ho_perf_event_output = \<lambda>ctx fd flags data s. (Ok (), s), ho_user_cstr = \<lambda>u p. Ok (u p),
      ho_time_ns = \<lambda>s. Ok 7, ho_printf = \<lambda>mem p args s. (0, s), ho_callback = \<lambda>f ctx k v x. (0, x),
      ho_ring_of = \<lambda>p. Some 5\<rparr>"

type_synonym demo_map =
  "(nat \<times> (string \<times> string) list, u32 \<Rightarrow> array_map, u32 \<Rightarrow> hash_map,
    u32 \<Rightarrow> (nat \<times> (string \<times> string) list) lru_map) unified_map"

definition demo_prog :: "(u32 \<Rightarrow> demo_map option) \<Rightarrow> ((u64 \<Rightarrow> string, demo_map) bpf_sys, unit) prog_state" where
  "demo_prog maps =
     \<lparr>ps_sys = \<lparr>sys_maps = maps, sys_user = (\<lambda>_. [])(1 := ''k'', 2 := ''v1'')\<rparr>, ps_mem = \<lambda>_. CHR ''k'',
      ps_dyn = \<lambda>_. bpf_dynptr_set_null, ps_rest = ()\<rparr>"

definition demo_hash :: "(string \<times> string) list \<Rightarrow> demo_map" where
  "demo_hash kvs = \<lparr>um_obj = HashObj (small_map kvs), um_meta = small_meta\<rparr>"

definition demo_ring :: demo_map where
  "demo_ring = \<lparr>um_obj = RingObj fresh_ring, um_meta = ring_meta\<rparr>"

lemma demo_hash_ok: "um_ok demo_kernel (demo_hash [])"
  using hash_new_ok [OF new_small_map] by (simp add: um_ok_def map_ok_def demo_hash_def small_meta_def)

lemma demo_maps_pages: "maps_pages demo_kernel"
  by (simp add: maps_pages_def demo_kernel_def)

definition small_attr :: create_attr where
  "small_attr =
     \<lparr>attr_map_type = 1, attr_key_size = 1, attr_value_size = 2, attr_max_entries = 1, attr_map_flags = 0,
      attr_map_name = ''small'' @ replicate 11 (CHR 0x00)\<rparr>"

lemma demo_create:
  "bpf_step block_user demo_kernel 0 (ps_sys (demo_prog (\<lambda>_. None))) (MapCreate 5 small_attr False) =
     (Ok (), ps_sys (demo_prog [5 \<mapsto> demo_hash []]))"
proof -
  have "meta_try_from small_attr = Ok small_meta"
    by (simp add: meta_try_from_def small_attr_def name_until_nul_def is_utf8_def map_type_of_def map_types_def
        create_flags_from_bits_def small_meta_def Let_def)
  then show ?thesis
    by (simp add: bpf_map_create_def map_obj_create_def small_meta_def [THEN arg_cong, of meta_map_type, simplified]
        new_small_map demo_prog_def demo_hash_def)
qed


definition demo_store :: update_arg where
  "demo_store = \<lparr>ua_map_fd = 5, ua_key = 1, ua_value = 2, ua_flags = 0\<rparr>"

lemma demo_hash_update:
  "bpf_map_update_elem block_user demo_kernel 0 (ps_sys (demo_prog [5 \<mapsto> demo_hash []])) demo_store =
     (Ok (), ps_sys (demo_prog [5 \<mapsto> demo_hash [(''k'', ''v1'')]]))"
  by (simp add: bpf_map_update_elem_def with_map_def demo_prog_def demo_store_def demo_hash_def read_user_def block_user_def
      small_meta_def small_map_def lift_obj_def hash_update_def commit_def check_len_def check_update_flags_def
      flags_from_bits_def has_bits_def update_flag_defs Let_def)

theorem program_finds_update_witness:
  "fst (raw_map_lookup_elem demo_helpers demo_kernel 0 (demo_prog [5 \<mapsto> demo_hash [(''k'', ''v1'')]]) 0x1200000034 64) =
     Ok (ValuePtr (Some ''v1''))"
proof -
  let ?st = "demo_prog [5 \<mapsto> demo_hash []]"
  obtain pp where pp: "preprocess plain_insts demo_loader demo_code = Ok pp" "raw_file_ptr pp = [0x1200000034]"
    using demo_preprocess by blast
  have code: "translate demo_loader demo_code = Ok (demo_insts 5 0)" "length demo_code = 8 * length (demo_insts 5 0)"
    "paired plain_insts (demo_insts 5 0)"
    by (simp_all add: demo_loader_def demo_code_def demo_insts_def plain_insts_def LD_DW_IMM_def)
  have ref: "0x1200000034 \<in> set (raw_file_ptr pp)" by (simp add: pp(2))
  have ptr: "\<forall>fd q. map_ptr demo_loader fd = Ok q \<longrightarrow> ho_map_of demo_helpers q = Some fd"
    by (simp add: demo_loader_def demo_helpers_def)
  have cpu: "0 < bk_num_cpus demo_kernel" by (simp add: demo_kernel_def)
  have ok: "prog_ok demo_kernel ?st" using demo_hash_ok by (simp add: prog_ok_maps demo_prog_def)
  have um: "sys_maps (ps_sys ?st) 5 = Some (demo_hash [])" "keyed (meta_map_type (um_meta (demo_hash [])))"
    "ua_map_fd demo_store = 5"
    "copy_from_user block_user (sys_user (ps_sys ?st)) (ua_key demo_store) (unat (meta_key_size (um_meta (demo_hash [])))) =
      Ok (load_bytes (ps_mem ?st) 64 (unat (meta_key_size (um_meta (demo_hash [])))))"
    "copy_from_user block_user (sys_user (ps_sys ?st)) (ua_value demo_store) (unat (meta_value_size (um_meta (demo_hash [])))) =
      Ok ''v1''"
    by (simp_all add: demo_prog_def demo_hash_def demo_store_def small_meta_def keyed_def block_user_def load_bytes_def)
  have st: "?st\<lparr>ps_sys := ps_sys (demo_prog [5 \<mapsto> demo_hash [(''k'', ''v1'')]])\<rparr> =
      demo_prog [5 \<mapsto> demo_hash [(''k'', ''v1'')]]"
    by (simp add: demo_prog_def)
  from program_finds_update [OF plain_insts_laws code pp(1) ref ptr demo_kernel_ok cpu ok, of block_user]
  obtain i where i: "map_ptr demo_loader (imm plain_insts i) = Ok 0x1200000034"
    "\<forall>um arg y key_p val. sys_maps (ps_sys ?st) (imm plain_insts i) = Some um \<longrightarrow> keyed (meta_map_type (um_meta um)) \<longrightarrow>
       ua_map_fd arg = imm plain_insts i \<longrightarrow>
       copy_from_user block_user (sys_user (ps_sys ?st)) (ua_key arg) (unat (meta_key_size (um_meta um))) =
         Ok (load_bytes (ps_mem ?st) key_p (unat (meta_key_size (um_meta um)))) \<longrightarrow>
       copy_from_user block_user (sys_user (ps_sys ?st)) (ua_value arg) (unat (meta_value_size (um_meta um))) = Ok val \<longrightarrow>
       bpf_map_update_elem block_user demo_kernel 0 (ps_sys ?st) arg = (Ok (), y) \<longrightarrow>
       fst (raw_map_lookup_elem demo_helpers demo_kernel 0 (?st\<lparr>ps_sys := y\<rparr>) 0x1200000034 key_p) = Ok (ValuePtr (Some val))"
    by blast
  have "imm plain_insts i = 5" using i(1) by (simp add: demo_loader_def split: if_splits)
  from i(2) [unfolded this, rule_format, OF um demo_hash_update] show ?thesis by (simp only: st)
qed


theorem user_string_terminated_witness:
  "\<exists>st'. raw_probe_read_user_str demo_helpers (demo_prog (\<lambda>_. None)) 16 2 2 = (Ok (Ret 2), st') \<and>
     load_bytes (ps_mem st') 16 2 = ''v'' @ [CHR 0x00] \<and> ps_mem st' 64 = CHR ''k''"
proof -
  let ?st = "demo_prog (\<lambda>_. None)"
  have str: "ho_user_cstr demo_helpers (sys_user (ps_sys ?st)) 2 = Ok ''v1''" "(2 :: u32) \<noteq> 0"
    by (simp_all add: demo_helpers_def demo_prog_def)
  have k: "min (length ''v1'') (unat (2 :: u32) - 1) = 1" by simp
  obtain st' where
    "raw_probe_read_user_str demo_helpers ?st 16 2 2 = (Ok (Ret 2), st')"
    "load_bytes (ps_mem st') 16 2 = ''v'' @ [CHR 0x00]"
    "\<forall>x. (\<forall>i \<le> 1. x \<noteq> 16 + of_nat i) \<longrightarrow> ps_mem st' x = ps_mem ?st x"
    using user_string_terminated [OF str, of 16, unfolded k one_add_one] by auto
  moreover have "\<forall>i \<le> 1. (64 :: u64) \<noteq> 16 + of_nat i" by (auto simp: le_Suc_eq)
  ultimately show ?thesis by (intro exI [of _ st']) (simp add: demo_prog_def)
qed

end
