(* ===== verification/BpfAttr.thy ===== *)
theory BpfAttr
  imports BpfSyscall
begin

text \<open>
  What the system calls take from their attributes besides maps: the metadata of a program to load
  and of its verifier log (\<open>bpf-basic/src/prog/mod.rs\<close>), a raw tracepoint to attach to
  (\<open>raw_tracepoint.rs\<close>) and a perf event to open (\<open>perf/util.rs\<close>). Enumerations are their numbers;
  \<open>cstr\<close> is \<open>string_from_user_cstr\<close> of the kernel.
\<close>

type_synonym 'u user_cstr = "'u \<Rightarrow> u64 \<Rightarrow> (bpf_error, string) result"

definition read_cstr :: "'u user_cstr \<Rightarrow> 'u \<Rightarrow> u64 \<Rightarrow> (fault, string) result" where
  "read_cstr cstr u p = (case cstr u p of Inl e \<Rightarrow> Err (Fails e) | Inr s \<Rightarrow> Ok s)"

section \<open>Programs\<close>

text \<open>The variants of \<open>bpf_prog_type\<close> are 0 to 33, those of \<open>bpf_attach_type\<close> 0 to 56.\<close>

definition prog_type_of :: "u32 \<Rightarrow> (fault, u32) result" where
  "prog_type_of n = (if n \<le> 33 then Ok n else Err (Fails EINVAL))"

definition attach_type_of :: "u32 \<Rightarrow> (fault, u32) result" where
  "attach_type_of n = (if n \<le> 56 then Ok n else Err (Fails EINVAL))"

record prog_attr =
  pa_prog_type :: u32
  pa_insn_cnt :: u32
  pa_insns :: u64
  pa_license :: u64
  pa_log_level :: u32
  pa_log_size :: u32
  pa_log_buf :: u64
  pa_kern_version :: u32
  pa_prog_flags :: u32
  pa_prog_name :: string
  pa_expected_attach_type :: u32

record prog_meta =
  pm_prog_flags :: u32
  pm_prog_type :: u32
  pm_expected_attach_type :: u32
  pm_insns :: "string option"
  pm_license :: string
  pm_kern_version :: u32
  pm_name :: string

definition take_insns :: "prog_meta \<Rightarrow> string option \<times> prog_meta" where
  "take_insns m = (pm_insns m, m\<lparr>pm_insns := None\<rparr>)"

definition try_from_bpf_attr :: "'u user_ops \<Rightarrow> 'u user_cstr \<Rightarrow> 'u \<Rightarrow> prog_attr \<Rightarrow> (fault, prog_meta) result" where
  "try_from_bpf_attr U cstr u a =
     and_then (prog_type_of (pa_prog_type a)) (\<lambda>prog_type.
     and_then (attach_type_of (pa_expected_attach_type a)) (\<lambda>expected_attach_type.
     and_then (name_until_nul (pa_prog_name a)) (\<lambda>prog_name.
     and_then (if pa_license a \<noteq> 0 then read_cstr cstr u (pa_license a) else Ok []) (\<lambda>license.
     and_then
       (if pa_insns a = 0 then (if pa_insn_cnt a \<noteq> 0 then Err Panics else Ok [])
        else read_user U u (pa_insns a) (unat (pa_insn_cnt a) * 8)) (\<lambda>insns_buf.
       Ok \<lparr>pm_prog_flags = pa_prog_flags a, pm_prog_type = prog_type,
           pm_expected_attach_type = expected_attach_type, pm_insns = Some insns_buf, pm_license = license,
           pm_kern_version = pa_kern_version a, pm_name = prog_name\<rparr>)))))"

text \<open>\<open>VerifierLogLevel::from_bits_truncate\<close> keeps the bits of \<open>VERBOSE\<close> and \<open>STATS\<close>.\<close>

definition log_level_truncate :: "u32 \<Rightarrow> u32" where
  "log_level_truncate bits = bits AND 7"

record verifier_info =
  vi_log_level :: u32
  vi_log_buf_size :: u32
  vi_log_buf_ptr :: u64

definition verifier_info_from :: "prog_attr \<Rightarrow> verifier_info" where
  "verifier_info_from a =
     \<lparr>vi_log_level = log_level_truncate (pa_log_level a), vi_log_buf_size = pa_log_size a, vi_log_buf_ptr = pa_log_buf a\<rparr>"

section \<open>Raw tracepoints\<close>

record raw_tp_attr =
  ra_name :: u64
  ra_prog_fd :: u32

record raw_tp_arg =
  rt_name :: string
  rt_prog_fd :: u32

definition raw_tp_try_from :: "'u user_cstr \<Rightarrow> 'u \<Rightarrow> raw_tp_attr \<Rightarrow> (fault, raw_tp_arg) result" where
  "raw_tp_try_from cstr u a =
     and_then (read_cstr cstr u (ra_name a)) (\<lambda>name. Ok \<lparr>rt_name = name, rt_prog_fd = ra_prog_fd a\<rparr>)"

section \<open>Perf events\<close>

datatype perf_type_id =
    PERF_TYPE_HARDWARE | PERF_TYPE_SOFTWARE | PERF_TYPE_TRACEPOINT | PERF_TYPE_HW_CACHE | PERF_TYPE_RAW
  | PERF_TYPE_BREAKPOINT | PERF_TYPE_KPROBE | PERF_TYPE_UPROBE

definition perf_types :: "perf_type_id list" where
  "perf_types =
     [PERF_TYPE_HARDWARE, PERF_TYPE_SOFTWARE, PERF_TYPE_TRACEPOINT, PERF_TYPE_HW_CACHE, PERF_TYPE_RAW,
      PERF_TYPE_BREAKPOINT, PERF_TYPE_KPROBE, PERF_TYPE_UPROBE]"

definition perf_type_of :: "u32 \<Rightarrow> (fault, perf_type_id) result" where
  "perf_type_of n = (if unat n < length perf_types then Ok (perf_types ! unat n) else Err (Fails EINVAL))"

text \<open>The variants of \<open>perf_sw_ids\<close> are 0 to 12.\<close>

definition perf_sw_of :: "u32 \<Rightarrow> (fault, u32) result" where
  "perf_sw_of n = (if n \<le> 12 then Ok n else Err (Fails EINVAL))"

datatype perf_config = PerfSwIds u32 | Raw u64

record perf_attr =
  pe_type :: u32
  pe_size :: u32
  pe_config :: u64
  pe_sample_type :: u64
  pe_config1 :: u64
  pe_config2 :: u64

record perf_args =
  pf_config :: perf_config
  pf_name :: string
  pf_offset :: u64
  pf_size :: u32
  pf_type :: perf_type_id
  pf_pid :: "32 word"
  pf_cpu :: "32 word"
  pf_group_fd :: "32 word"
  pf_flags :: u32
  pf_sample_type :: "u32 option"

text \<open>The variants of \<open>perf_event_sample_format\<close> are the powers of two up to \<open>2 ^ 25\<close>.\<close>

definition sample_format_of :: "u32 \<Rightarrow> u32 option" where
  "sample_format_of n = (if list_ex (\<lambda>k. n = 2 ^ k) [0..<26] then Some n else None)"

definition try_from_perf_attr ::
  "'u user_cstr \<Rightarrow> 'u \<Rightarrow> perf_attr \<Rightarrow> 32 word \<Rightarrow> 32 word \<Rightarrow> 32 word \<Rightarrow> u32 \<Rightarrow> (fault, perf_args) result" where
  "try_from_perf_attr cstr u a pid cpu group_fd flags =
     and_then (perf_type_of (pe_type a)) (\<lambda>ty.
     and_then
       (if ty \<in> {PERF_TYPE_KPROBE, PERF_TYPE_UPROBE, PERF_TYPE_TRACEPOINT} then Ok (Raw (pe_config a))
        else and_then (perf_sw_of (ucast (pe_config a))) (\<lambda>sw_id. Ok (PerfSwIds sw_id))) (\<lambda>config.
     and_then
       (if ty = PERF_TYPE_KPROBE \<or> ty = PERF_TYPE_UPROBE then read_cstr cstr u (pe_config1 a) else Ok []) (\<lambda>name.
       Ok \<lparr>pf_config = config, pf_name = name, pf_offset = pe_config2 a, pf_size = pe_size a, pf_type = ty,
           pf_pid = pid, pf_cpu = cpu, pf_group_fd = group_fd, pf_flags = flags AND 15,
           pf_sample_type = sample_format_of (ucast (pe_sample_type a))\<rparr>)))"

section \<open>What loading a program yields\<close>

lemma read_cstr_safe [simp]: "read_cstr cstr u p \<noteq> Err Panics"
  by (simp add: read_cstr_def split: sum.splits)

lemma type_of_safe [simp]: "prog_type_of n \<noteq> Err Panics" "attach_type_of n \<noteq> Err Panics" "name_until_nul bs \<noteq> Err Panics"
  by (simp_all add: prog_type_of_def attach_type_of_def name_until_nul_def Let_def)

lemma name_until_nul_Ok:
  assumes "name_until_nul bs = Ok s"
  shows "is_utf8 s \<and> CHR 0x00 \<notin> set s \<and> (\<exists>rest. bs = s @ CHR 0x00 # rest)"
proof -
  have s: "s = takeWhile (\<lambda>c. c \<noteq> CHR 0x00) bs" "is_utf8 s" "CHR 0x00 \<in> set bs"
    using assms by (auto simp: name_until_nul_def Let_def split: if_splits)
  then have "dropWhile (\<lambda>c. c \<noteq> CHR 0x00) bs \<noteq> []" by (auto simp: dropWhile_eq_Nil_conv)
  then obtain c rest where d: "dropWhile (\<lambda>c. c \<noteq> CHR 0x00) bs = c # rest" by (cases "dropWhile (\<lambda>c. c \<noteq> CHR 0x00) bs") auto
  then have "c = CHR 0x00" using hd_dropWhile [of "\<lambda>c. c \<noteq> CHR 0x00" bs] by simp
  with d s(1) have "bs = s @ CHR 0x00 # rest" by (metis takeWhile_dropWhile_id)
  moreover have "CHR 0x00 \<notin> set s" unfolding s(1) by (blast dest: set_takeWhileD)
  ultimately show ?thesis using s(2) by blast
qed

text \<open>
  C40: loading the metadata of a program. A success holds eight bytes for each instruction that was
  announced and the name up to its null byte, which is UTF-8. The only panic is the assertion on a
  null pointer to instructions whose count is not zero, and it is reached exactly when the types, the
  name and the license before it are accepted.
\<close>

theorem prog_load_outcome:
  assumes "user_laws U"
  shows "case try_from_bpf_attr U cstr u a of
      Inr m \<Rightarrow> map_option length (pm_insns m) = Some (8 * unat (pa_insn_cnt a)) \<and> is_utf8 (pm_name m) \<and>
        CHR 0x00 \<notin> set (pm_name m) \<and> (\<exists>rest. pa_prog_name a = pm_name m @ CHR 0x00 # rest)
    | Inl f \<Rightarrow> f = Panics \<longleftrightarrow> pa_insns a = 0 \<and> pa_insn_cnt a \<noteq> 0 \<and> pa_prog_type a \<le> 33 \<and>
        pa_expected_attach_type a \<le> 56 \<and> is_ok (name_until_nul (pa_prog_name a)) \<and>
        (pa_license a = 0 \<or> is_ok (cstr u (pa_license a)))"
proof (cases "try_from_bpf_attr U cstr u a")
  case (Inr m)
  then have "name_until_nul (pa_prog_name a) = Ok (pm_name m)"
    and insns: "(if pa_insns a = 0 then (if pa_insn_cnt a \<noteq> 0 then Err Panics else Ok [])
      else read_user U u (pa_insns a) (unat (pa_insn_cnt a) * 8)) = Ok (the (pm_insns m))" "pm_insns m \<noteq> None"
    by (auto simp: try_from_bpf_attr_def and_then_Ok_iff)
  moreover have "length (the (pm_insns m)) = 8 * unat (pa_insn_cnt a)"
    using insns(1) assms by (auto simp: read_user_def user_laws_def split: if_splits sum.splits)
  ultimately show ?thesis using Inr name_until_nul_Ok [of "pa_prog_name a" "pm_name m"] by auto
next
  case (Inl f)
  have eq: "try_from_bpf_attr U cstr u a = Err Panics \<longleftrightarrow> pa_insns a = 0 \<and> pa_insn_cnt a \<noteq> 0 \<and> pa_prog_type a \<le> 33 \<and>
      pa_expected_attach_type a \<le> 56 \<and> is_ok (name_until_nul (pa_prog_name a)) \<and>
      (pa_license a = 0 \<or> is_ok (cstr u (pa_license a)))"
    unfolding try_from_bpf_attr_def
    by (cases "name_until_nul (pa_prog_name a)"; cases "cstr u (pa_license a)")
      (auto simp: and_then_Err_iff and_then_Ok_iff prog_type_of_def attach_type_of_def read_cstr_def)
  show ?thesis using Inl eq by auto
qed

definition null_insns_attr :: prog_attr where
  "null_insns_attr =
     \<lparr>pa_prog_type = 2, pa_insn_cnt = 1, pa_insns = 0, pa_license = 0, pa_log_level = 0, pa_log_size = 0, pa_log_buf = 0,
      pa_kern_version = 0, pa_prog_flags = 0, pa_prog_name = ''p'' @ replicate 15 (CHR 0x00),
      pa_expected_attach_type = 0\<rparr>"

theorem prog_load_outcome_witness:
  "try_from_bpf_attr block_user (\<lambda>u p. Ok (u p)) (\<lambda>_. []) null_insns_attr = Err Panics"
proof -
  have name: "name_until_nul (pa_prog_name null_insns_attr) = Ok ''p''"
    by (simp add: null_insns_attr_def name_until_nul_def is_utf8_def Let_def)
  then obtain f where f: "try_from_bpf_attr block_user (\<lambda>u p. Ok (u p)) (\<lambda>_. []) null_insns_attr = Err f"
    by (simp add: try_from_bpf_attr_def prog_type_of_def attach_type_of_def) (simp add: null_insns_attr_def)
  then show ?thesis
    using prog_load_outcome [OF block_user_laws, where cstr = "\<lambda>u p. Ok (u p)" and u = "\<lambda>_. []" and a = null_insns_attr] name
    by (simp add: null_insns_attr_def)
qed

text \<open>A combination of sample formats is no variant of the enumeration.\<close>

lemma sample_format_mask: "sample_format_of 3 = None"
  by (simp add: sample_format_of_def upt_rec)

end
