(* ===== verification/TracePipe.thy ===== *)
theory TracePipe
  imports TpLexer "HOL-Library.Sublist"
begin

text \<open>
  The buffer behind \<open>trace_pipe\<close> and the cache of command names,
  \<open>ktracepoint/src/trace_pipe.rs\<close>: a bounded queue that drops its oldest records, snapshots of
  it, and an LRU cache of the crate \<open>lru\<close>, whose operations are a parameter with their
  documented laws.
\<close>

section \<open>The buffer\<close>

record trace_record =
  tr_timestamp :: u64
  tr_cpu_id :: u32
  tr_event :: string

definition TracePipeRecord_new :: "u64 \<Rightarrow> u32 \<Rightarrow> string \<Rightarrow> trace_record" where
  "TracePipeRecord_new timestamp cpu_id event = \<lparr>tr_timestamp = timestamp, tr_cpu_id = cpu_id, tr_event = event\<rparr>"

record trace_pipe =
  max_record :: nat
  event_buf :: "trace_record list"

definition TracePipeRaw_new :: "nat \<Rightarrow> trace_pipe" where
  "TracePipeRaw_new max_records = \<lparr>max_record = max_records, event_buf = []\<rparr>"

text \<open>\<open>drain(0..remove_count)\<close> drops the oldest records.\<close>

definition set_max_record :: "trace_pipe \<Rightarrow> nat \<Rightarrow> trace_pipe" where
  "set_max_record p max_records =
     (let p = p\<lparr>max_record := max_records\<rparr> in
      if max_records < length (event_buf p) then
        let remove_count = length (event_buf p) - max_records in p\<lparr>event_buf := drop remove_count (event_buf p)\<rparr>
      else p)"

definition push_record :: "trace_pipe \<Rightarrow> u64 \<Rightarrow> u32 \<Rightarrow> string \<Rightarrow> trace_pipe" where
  "push_record p timestamp cpu_id event =
     (if max_record p = 0 then p
      else
        let p = (if max_record p \<le> length (event_buf p) then p\<lparr>event_buf := tl (event_buf p)\<rparr> else p)
        in p\<lparr>event_buf := event_buf p @ [TracePipeRecord_new timestamp cpu_id event]\<rparr>)"

definition push_event :: "trace_pipe \<Rightarrow> string \<Rightarrow> trace_pipe" where
  "push_event p event = push_record p 0 0 event"

definition event_count :: "trace_pipe \<Rightarrow> nat" where "event_count p = length (event_buf p)"

definition pipe_clear :: "trace_pipe \<Rightarrow> trace_pipe" where "pipe_clear p = p\<lparr>event_buf := []\<rparr>"

text \<open>\<open>TracePipeOps\<close> on the buffer and on a snapshot, which is the list of its records.\<close>

definition buf_peek :: "'r list \<Rightarrow> 'r option" where
  "buf_peek b = (case b of [] \<Rightarrow> None | r # _ \<Rightarrow> Some r)"

definition buf_pop :: "'r list \<Rightarrow> 'r option \<times> 'r list" where
  "buf_pop b = (case b of [] \<Rightarrow> (None, []) | r # rs \<Rightarrow> (Some r, rs))"

definition pipe_peek :: "trace_pipe \<Rightarrow> trace_record option" where "pipe_peek p = buf_peek (event_buf p)"

definition pipe_pop :: "trace_pipe \<Rightarrow> trace_record option \<times> trace_pipe" where
  "pipe_pop p = (let (r, b) = buf_pop (event_buf p) in (r, p\<lparr>event_buf := b\<rparr>))"

definition pipe_is_empty :: "trace_pipe \<Rightarrow> bool" where "pipe_is_empty p \<longleftrightarrow> event_buf p = []"

definition pipe_snapshot :: "trace_pipe \<Rightarrow> trace_record list" where "pipe_snapshot p = event_buf p"

definition nl :: string where "nl = [CHR 0x0A]"

definition default_fmt_str :: "trace_record list \<Rightarrow> string" where
  "default_fmt_str snap =
     ''# tracer: nop'' @ nl @ ''#'' @ nl @ ''# entries-in-buffer/entries-written: '' @ show_nat (length snap) @ ''/'' @
     show_nat (length snap) @ ''   #P:32'' @ nl @
     ''#'' @ nl @
     ''#'' @ nl @
     ''#                                _-----=> irqs-off/BH-disabled'' @ nl @
     ''#                               / _----=> need-resched'' @ nl @
     ''#                              | / _---=> hardirq/softirq'' @ nl @
     ''#                              || / _--=> preempt-depth'' @ nl @
     ''#                              ||| / _-=> migrate-disable'' @ nl @
     ''#                              |||| /     delay'' @ nl @
     ''#           TASK-PID     CPU#  |||||  TIMESTAMP  FUNCTION'' @ nl @
     ''#              | |         |   |||||     |         |'' @ nl"

section \<open>A bounded queue of the most recent records\<close>

datatype pipe_call = PipePush u64 u32 string | PipePop | PipeResize nat | PipeClear

text \<open>The records that were pushed and those that were popped, each in order.\<close>

fun pipe_run :: "trace_pipe \<Rightarrow> pipe_call list \<Rightarrow> trace_pipe \<times> trace_record list \<times> trace_record list" where
  "pipe_run p [] = (p, [], [])"
| "pipe_run p (PipePush t c e # cs) =
     (let (p', ins, outs) = pipe_run (push_record p t c e) cs in (p', TracePipeRecord_new t c e # ins, outs))"
| "pipe_run p (PipePop # cs) =
     (let (r, p1) = pipe_pop p; (p', ins, outs) = pipe_run p1 cs
      in (p', ins, case r of None \<Rightarrow> outs | Some r \<Rightarrow> r # outs))"
| "pipe_run p (PipeResize n # cs) = pipe_run (set_max_record p n) cs"
| "pipe_run p (PipeClear # cs) = pipe_run (pipe_clear p) cs"

definition pipe_ok :: "trace_pipe \<Rightarrow> bool" where
  "pipe_ok p \<longleftrightarrow> length (event_buf p) \<le> max_record p"

lemma push_record_buf:
  "pipe_ok p \<Longrightarrow> event_buf (push_record p t c e) =
     (let b = event_buf p @ [TracePipeRecord_new t c e] in drop (length b - max_record p) b)"
  by (cases "event_buf p")
    (auto simp: push_record_def pipe_ok_def Let_def drop_Suc split: nat_diff_split)

lemma pipe_ok_step:
  assumes "pipe_ok p"
  shows "pipe_ok (push_record p t c e)" "pipe_ok (snd (pipe_pop p))" "pipe_ok (set_max_record p n)" "pipe_ok (pipe_clear p)"
  using assms
  by (auto simp: pipe_ok_def push_record_def pipe_pop_def buf_pop_def set_max_record_def pipe_clear_def Let_def
      split: list.splits)

lemma max_record_push [simp]: "max_record (push_record p t c e) = max_record p"
  by (simp add: push_record_def Let_def)

lemma push_record_suffix: "\<exists>gone. event_buf p @ [TracePipeRecord_new t c e] = gone @ event_buf (push_record p t c e)"
  if "pipe_ok p"
  unfolding push_record_buf [OF that] Let_def by (metis append_take_drop_id)

lemma set_max_record_suffix: "\<exists>gone. event_buf p = gone @ event_buf (set_max_record p n)"
proof -
  have "event_buf p = take (length (event_buf p) - n) (event_buf p) @ event_buf (set_max_record p n)"
    by (simp add: set_max_record_def Let_def)
  then show ?thesis by blast
qed

text \<open>What is popped and what stays are records that were there or were pushed, in that order.\<close>

lemma pipe_run_order:
  "pipe_ok p \<Longrightarrow> pipe_run p cs = (p', ins, outs) \<Longrightarrow>
     pipe_ok p' \<and> subseq (outs @ event_buf p') (event_buf p @ ins)"
proof (induction p cs arbitrary: p' ins outs rule: pipe_run.induct)
  case (2 p t c e cs)
  obtain q ins1 outs1 where r: "pipe_run (push_record p t c e) cs = (q, ins1, outs1)"
    by (cases "pipe_run (push_record p t c e) cs")
  obtain gone where gone: "event_buf p @ [TracePipeRecord_new t c e] = gone @ event_buf (push_record p t c e)"
    using push_record_suffix [OF 2(2)] by blast
  have IH: "pipe_ok q" "subseq (outs1 @ event_buf q) (event_buf (push_record p t c e) @ ins1)"
    using 2(1) [OF pipe_ok_step(1) [OF 2(2)] r] by auto
  have "subseq (event_buf (push_record p t c e) @ ins1) (gone @ event_buf (push_record p t c e) @ ins1)"
    by (rule subseq_drop_many) simp
  then have "subseq (outs1 @ event_buf q) ((event_buf p @ [TracePipeRecord_new t c e]) @ ins1)"
    unfolding gone using IH(2) subseq_order.trans by fastforce
  then show ?case using 2(3) r IH(1) by simp
next
  case (3 p cs)
  show ?case
  proof (cases "event_buf p")
    case Nil
    then have "pipe_pop p = (None, p)" by (simp add: pipe_pop_def buf_pop_def)
    then show ?thesis using 3 by (auto split: prod.splits)
  next
    case (Cons r rs)
    then have pop: "pipe_pop p = (Some r, p\<lparr>event_buf := rs\<rparr>)" by (simp add: pipe_pop_def buf_pop_def)
    obtain q ins1 outs1 where run: "pipe_run (p\<lparr>event_buf := rs\<rparr>) cs = (q, ins1, outs1)"
      by (cases "pipe_run (p\<lparr>event_buf := rs\<rparr>) cs")
    have "pipe_ok (p\<lparr>event_buf := rs\<rparr>)" using pipe_ok_step(2) [OF 3(2)] pop by simp
    then have "pipe_ok q \<and> subseq (outs1 @ event_buf q) (rs @ ins1)"
      using 3(1) [OF _ _ _ run] pop by auto
    then show ?thesis using 3(3) pop run Cons by auto
  qed
next
  case (4 p n cs)
  obtain gone where gone: "event_buf p = gone @ event_buf (set_max_record p n)" using set_max_record_suffix by blast
  have IH: "pipe_ok p'" "subseq (outs @ event_buf p') (event_buf (set_max_record p n) @ ins)"
    using 4(1) [OF pipe_ok_step(3) [OF 4(2)]] 4(3) by auto
  have "subseq (event_buf (set_max_record p n) @ ins) (gone @ event_buf (set_max_record p n) @ ins)"
    by (rule subseq_drop_many) simp
  then have "subseq (outs @ event_buf p') (event_buf p @ ins)"
    unfolding gone using IH(2) subseq_order.trans by fastforce
  then show ?case using IH(1) by simp
next
  case (5 p cs)
  have IH: "pipe_ok p'" "subseq (outs @ event_buf p') ins"
    using 5(1) [OF pipe_ok_step(4) [OF 5(2)]] 5(3) by (auto simp: pipe_clear_def)
  then show ?case by (auto intro: subseq_drop_many)
qed auto

lemma last_last: "drop (length (drop (length b - n) b @ c) - n) (drop (length b - n) b @ c) = drop (length (b @ c) - n) (b @ c)"
proof -
  have "drop (length b - n) b @ c = drop (length b - n) (b @ c)" by simp
  then have "drop (length (drop (length b - n) b @ c) - n) (drop (length b - n) b @ c) =
      drop (length (drop (length b - n) (b @ c)) - n + (length b - n)) (b @ c)" by (simp only: drop_drop)
  moreover have "length (drop (length b - n) (b @ c)) - n + (length b - n) = length (b @ c) - n" by simp
  ultimately show ?thesis by (simp only:)
qed

text \<open>Without pops, exactly the most recent records stay.\<close>

lemma pipe_run_recent:
  "pipe_ok p \<Longrightarrow> list_all (\<lambda>c. case c of PipePush t c e \<Rightarrow> True | _ \<Rightarrow> False) cs \<Longrightarrow> pipe_run p cs = (p', ins, outs) \<Longrightarrow>
     event_buf p' = drop (length (event_buf p @ ins) - max_record p) (event_buf p @ ins) \<and> max_record p' = max_record p"
proof (induction p cs arbitrary: p' ins outs rule: pipe_run.induct)
  case (2 p t c e cs)
  obtain q ins1 outs1 where r: "pipe_run (push_record p t c e) cs = (q, ins1, outs1)"
    by (cases "pipe_run (push_record p t c e) cs")
  let ?b = "event_buf p @ [TracePipeRecord_new t c e]" and ?n = "max_record p"
  have IH: "event_buf q = drop (length (drop (length ?b - ?n) ?b @ ins1) - ?n) (drop (length ?b - ?n) ?b @ ins1)"
    "max_record q = ?n"
    using 2(1) [OF pipe_ok_step(1) [OF 2(2)] _ r] 2(3) push_record_buf [OF 2(2), of t c e] by (simp_all add: Let_def)
  have "event_buf q = drop (length (?b @ ins1) - ?n) (?b @ ins1)" unfolding IH(1) by (rule last_last)
  moreover have "p' = q" "?b @ ins1 = event_buf p @ ins" using 2(4) r by auto
  ultimately show ?case using IH(2) by metis
next
  case (1 p)
  then show ?case by (simp add: pipe_ok_def)
next
  case (3 p cs)
  from 3(3) show ?case by simp
next
  case (4 p n cs)
  from 4(3) show ?case by simp
next
  case (5 p cs)
  from 5(3) show ?case by simp
qed

text \<open>
  C38: \<open>trace_pipe\<close> keeps the most recent records in order. From a new buffer, after any pushes,
  pops, resizes and clears, the records popped and those in the buffer are a subsequence of the
  records pushed, the buffer is within its limit, and as long as records are only pushed it holds
  exactly the last \<open>max_record\<close> of them.
\<close>

theorem trace_pipe_recent:
  assumes "pipe_run (TracePipeRaw_new n) cs = (p, ins, outs)"
  shows "subseq (outs @ event_buf p) ins \<and> length (event_buf p) \<le> max_record p \<and>
    (list_all (\<lambda>c. case c of PipePush t c e \<Rightarrow> True | _ \<Rightarrow> False) cs \<longrightarrow> event_buf p = drop (length ins - n) ins)"
proof -
  have ok: "pipe_ok (TracePipeRaw_new n)" by (simp add: pipe_ok_def TracePipeRaw_new_def)
  from pipe_run_order [OF ok assms] pipe_run_recent [OF ok _ assms] show ?thesis
    by (simp add: pipe_ok_def TracePipeRaw_new_def)
qed

theorem trace_pipe_recent_witness:
  "map tr_event (event_buf (fst (pipe_run (TracePipeRaw_new 2) [PipePush 1 0 ''a'', PipePush 2 0 ''b'', PipePush 3 1 ''c'']))) =
     [''b'', ''c'']"
proof -
  obtain p ins outs where run: "pipe_run (TracePipeRaw_new 2) [PipePush 1 0 ''a'', PipePush 2 0 ''b'', PipePush 3 1 ''c''] =
      (p, ins, outs)" by (cases "pipe_run (TracePipeRaw_new 2) [PipePush 1 0 ''a'', PipePush 2 0 ''b'', PipePush 3 1 ''c'']")
  have "event_buf p = drop (length ins - 2) ins" using trace_pipe_recent [OF run] by simp
  moreover have "ins = [TracePipeRecord_new 1 0 ''a'', TracePipeRecord_new 2 0 ''b'', TracePipeRecord_new 3 1 ''c'']"
    using run by auto
  ultimately show ?thesis by (simp add: run TracePipeRecord_new_def del: pipe_run.simps)
qed

section \<open>Command names\<close>

record 'c cmd_lru =
  cl_new :: "nat \<Rightarrow> 'c"
  cl_put :: "'c \<Rightarrow> u32 \<Rightarrow> string \<Rightarrow> 'c"
  cl_iter :: "'c \<Rightarrow> (u32 \<times> string) list"
  cl_resize :: "'c \<Rightarrow> nat \<Rightarrow> 'c"
  cl_cap :: "'c \<Rightarrow> nat"

text \<open>
  The documented behaviour: \<open>put\<close> makes the key the most recent one and drops the least recent
  entry of a full cache, \<open>iter\<close> starts with the most recent entry, \<open>resize\<close> drops the entries
  beyond the new capacity.
\<close>

definition cmd_laws :: "'c cmd_lru \<Rightarrow> bool" where
  "cmd_laws C \<longleftrightarrow>
     (\<forall>n. cl_iter C (cl_new C n) = [] \<and> cl_cap C (cl_new C n) = n) \<and>
     (\<forall>x k v. cl_iter C (cl_put C x k v) = take (cl_cap C x) ((k, v) # filter (\<lambda>(j, _). j \<noteq> k) (cl_iter C x)) \<and>
        cl_cap C (cl_put C x k v) = cl_cap C x) \<and>
     (\<forall>x n. cl_iter C (cl_resize C x n) = take n (cl_iter C x) \<and> cl_cap C (cl_resize C x n) = n)"

text \<open>\<open>insert\<close>: \<open>split_at\<close> panics inside a character.\<close>

definition cmdline_insert :: "'c cmd_lru \<Rightarrow> 'c \<Rightarrow> u32 \<Rightarrow> string \<Rightarrow> (panic, 'c) result" where
  "cmdline_insert C x pid cmdline =
     (let mid = min 16 (length cmdline) in
      if \<not> is_char_boundary cmdline mid then Err Panic
      else Ok (cl_put C x pid (show_nat (unat pid) @ '' '' @ take mid cmdline @ nl)))"

definition trim_nl :: "string \<Rightarrow> string" where
  "trim_nl s = rev (dropWhile (\<lambda>c. c = CHR 0x0A) (rev s))"

text \<open>\<open>get\<close>: the part behind the first space; \<open>unwrap\<close> panics when there is none.\<close>

definition cmdline_get :: "'c cmd_lru \<Rightarrow> 'c \<Rightarrow> u32 \<Rightarrow> (panic, string option) result" where
  "cmdline_get C x pid =
     (case find (\<lambda>(k, _). k = pid) (cl_iter C x) of
        None \<Rightarrow> Ok None
      | Some (_, line) \<Rightarrow>
          (case split_once (CHR '' '') line of
             None \<Rightarrow> Err Panic
           | Some (_, rest) \<Rightarrow> Ok (Some (trim_nl rest))))"

definition cmdline_snapshot :: "'c cmd_lru \<Rightarrow> 'c \<Rightarrow> string list" where
  "cmdline_snapshot C x = map snd (rev (cl_iter C x))"

text \<open>A name that was stored is found, cut to 16 bytes and without newlines at its end.\<close>

lemma show_nat_no_space: "CHR '' '' \<notin> set (show_nat n)"
proof
  assume "CHR '' '' \<in> set (show_nat n)"
  then obtain d where "d < 10" "CHR '' '' = digit_char d" using set_show_radix [of 10 n] by auto
  then have "(of_char (CHR '' '') :: nat) = 48 + d" by (simp add: digit_char_def)
  then show False by simp
qed

lemma split_once_space: "CHR '' '' \<notin> set xs \<Longrightarrow> split_once (CHR '' '') (xs @ CHR '' '' # ys) = Some (xs, ys)"
proof -
  assume "CHR '' '' \<notin> set xs"
  then have "\<forall>x \<in> set xs. x \<noteq> CHR '' ''" by blast
  then have "takeWhile (\<lambda>x. x \<noteq> CHR '' '') (xs @ CHR '' '' # ys) = xs"
    "dropWhile (\<lambda>x. x \<noteq> CHR '' '') (xs @ CHR '' '' # ys) = CHR '' '' # ys"
    by (simp_all add: takeWhile_append2 dropWhile_append2)
  then show ?thesis by (simp add: split_once_def)
qed

lemma cmdline_insert_get:
  assumes "cmd_laws C" "0 < cl_cap C x" "is_char_boundary cmdline (min 16 (length cmdline))"
  shows "\<exists>y. cmdline_insert C x pid cmdline = Ok y \<and> cmdline_get C y pid = Ok (Some (trim_nl (take 16 cmdline)))"
proof -
  have take16: "take (min 16 (length cmdline)) cmdline = take 16 cmdline" by (simp add: min_def)
  let ?line = "show_nat (unat pid) @ '' '' @ take 16 cmdline @ nl"
  let ?y = "cl_put C x pid ?line"
  obtain n where "cl_cap C x = Suc n" using assms(2) by (cases "cl_cap C x") auto
  then have "find (\<lambda>(k, _). k = pid) (cl_iter C ?y) = Some (pid, ?line)"
    using assms(1) by (simp add: cmd_laws_def)
  moreover have "split_once (CHR '' '') ?line = Some (show_nat (unat pid), take 16 cmdline @ nl)"
    using split_once_space [OF show_nat_no_space] by simp
  moreover have "trim_nl (s @ nl) = trim_nl s" for s by (simp add: trim_nl_def nl_def)
  ultimately show ?thesis
    using assms(3) take16 by (simp add: cmdline_insert_def cmdline_get_def)
qed

end
