(* ===== verification/TracePoint.thy ===== *)
theory TracePoint
  imports TpEval TracePipe
begin

text \<open>
  Tracepoints, \<open>ktracepoint/src/point.rs\<close>, the files in \<open>lib.rs\<close>, the code that the macro
  \<open>define_event_trace!\<close> of \<open>basic_macro.rs\<close> generates for a tracepoint, and the formatting of
  its records in \<open>trace_pipe.rs\<close>.
\<close>

section \<open>Tracepoints and their callbacks\<close>

text \<open>
  Callbacks are compared by the addresses of their \<open>Arc\<close>s. \<open>df_print\<close> says whether the
  function of a default callback is the generated \<open>trace_default_<name>\<close>.
\<close>

record default_func =
  df_arc :: nat
  df_print :: bool

datatype trace_callback = DefaultCb default_func | EventCb nat | RawEventCb nat

fun same_callback :: "trace_callback \<Rightarrow> trace_callback \<Rightarrow> bool" where
  "same_callback (DefaultCb f) (DefaultCb g) \<longleftrightarrow> df_arc f = df_arc g"
| "same_callback (EventCb f) (EventCb g) \<longleftrightarrow> f = g"
| "same_callback (RawEventCb f) (RawEventCb g) \<longleftrightarrow> f = g"
| "same_callback _ _ \<longleftrightarrow> False"

text \<open>\<open>tp_key\<close> is the state of the static key, \<open>tp_fmt\<close> formats an entry.\<close>

record tracepoint =
  tp_name :: string
  tp_system :: string
  tp_key :: bool
  tp_id :: u32
  tp_fmt :: "string \<Rightarrow> string"
  tp_print :: string
  tp_schema :: schema
  tp_flags :: u8

record ext_tracepoint =
  et_point :: tracepoint
  et_callbacks :: "trace_callback list"
  et_compiled :: "compiled option"
  et_default :: default_func

definition ExtTracePoint_new :: "tracepoint \<Rightarrow> default_func \<Rightarrow> ext_tracepoint" where
  "ExtTracePoint_new tp d = \<lparr>et_point = tp, et_callbacks = [], et_compiled = None, et_default = d\<rparr>"

definition set_key :: "bool \<Rightarrow> ext_tracepoint \<Rightarrow> ext_tracepoint" where
  "set_key b et = et\<lparr>et_point := (et_point et)\<lparr>tp_key := b\<rparr>\<rparr>"

definition register_cb :: "ext_tracepoint \<Rightarrow> trace_callback \<Rightarrow> ext_tracepoint" where
  "register_cb et cb =
     (let et = (if \<not> list_ex (\<lambda>f. same_callback f cb) (et_callbacks et)
                then et\<lparr>et_callbacks := et_callbacks et @ [cb]\<rparr> else et)
      in if et_callbacks et \<noteq> [] then set_key True et else et)"

definition unregister_cb :: "ext_tracepoint \<Rightarrow> trace_callback \<Rightarrow> ext_tracepoint" where
  "unregister_cb et cb =
     (let et = et\<lparr>et_callbacks := filter (\<lambda>f. \<not> same_callback f cb) (et_callbacks et)\<rparr>
      in if et_callbacks et = [] then set_key False et else et)"

definition set_compiled_expr :: "ext_tracepoint \<Rightarrow> compiled option \<Rightarrow> ext_tracepoint" where
  "set_compiled_expr et c = et\<lparr>et_compiled := c\<rparr>"

definition print_fmt :: "tracepoint \<Rightarrow> string" where
  "print_fmt tp = ''name: '' @ tp_name tp @ nl @ ''ID: '' @ show_nat (unat (tp_id tp)) @ nl @ tp_print tp @ nl"

section \<open>The files\<close>

definition enable_read :: "tracepoint \<Rightarrow> string" where
  "enable_read tp = (if tp_key tp then ''1'' @ nl else ''0'' @ nl)"

definition enable_write :: "ext_tracepoint \<Rightarrow> char \<Rightarrow> ext_tracepoint" where
  "enable_write et enable =
     (if enable = CHR ''1'' then register_cb et (DefaultCb (et_default et))
      else if enable = CHR ''0'' then unregister_cb et (DefaultCb (et_default et))
      else et)"

definition id_read :: "tracepoint \<Rightarrow> string" where
  "id_read tp = show_nat (unat (tp_id tp)) @ nl"

definition format_read :: "tracepoint \<Rightarrow> string" where
  "format_read tp = print_fmt tp"

text \<open>
  The error text of the filter file is the message of a parse failure and a newline; the model
  keeps the failure.
\<close>

record filter_file =
  filter_expr :: "string option"
  pre_error :: "parse_failure option"

datatype filter_text = FilterText string | ErrorText parse_failure

definition TraceFilterFile_new :: filter_file where
  "TraceFilterFile_new = \<lparr>filter_expr = None, pre_error = None\<rparr>"

definition filter_read :: "filter_file \<Rightarrow> filter_text" where
  "filter_read f =
     (case pre_error f of
        Some err \<Rightarrow> ErrorText err
      | None \<Rightarrow> FilterText (case filter_expr f of Some s \<Rightarrow> s | None \<Rightarrow> ''none'' @ nl))"

text \<open>The outcome is a panic, or whether the filter was accepted.\<close>

definition filter_write ::
  "filter_file \<Rightarrow> ext_tracepoint \<Rightarrow> string \<Rightarrow> (panic, bool \<times> filter_file \<times> ext_tracepoint) result" where
  "filter_write f et flt =
     and_then (nth_of flt 0) (\<lambda>c.
       if c = CHR ''0'' then
         Ok (True, f\<lparr>filter_expr := None, pre_error := None\<rparr>, set_compiled_expr et None)
       else
         (case compile_with_schema flt (tp_schema (et_point et)) of
            Inr compiled \<Rightarrow>
              Ok (True, f\<lparr>filter_expr := Some flt, pre_error := None\<rparr>, set_compiled_expr et (Some compiled))
          | Inl e \<Rightarrow>
              Ok (False, f\<lparr>pre_error := Some e, filter_expr := None\<rparr>, set_compiled_expr et None)))"

section \<open>Hitting a tracepoint\<close>

text \<open>The common header: the id in 16 bits, the flags, no preemption count, the process id.\<close>

definition entry_header :: "tracepoint \<Rightarrow> u32 \<Rightarrow> string" where
  "entry_header tp pid =
     le_bytes 2 (unat (ucast (tp_id tp) :: u16)) @ le_bytes 1 (unat (tp_flags tp)) @ le_bytes 1 0 @ le_bytes 4 (unat pid)"

text \<open>
  \<open>FullEntry\<close>: \<open>entry\<close> holds the bytes after the header, which start with the padding that the
  alignment of the user's fields asks for.
\<close>

definition full_entry :: "tracepoint \<Rightarrow> u32 \<Rightarrow> string \<Rightarrow> string" where
  "full_entry tp pid entry = entry_header tp pid @ entry"

datatype trace_effect =
    CmdlinePush u32 | PipePushRaw string | CustomCall nat | EventCall nat string | RawCall nat

text \<open>\<open>trace_default_<name>\<close>.\<close>

definition trace_default :: "tracepoint \<Rightarrow> compiled option \<Rightarrow> u32 \<Rightarrow> string \<Rightarrow> (panic, trace_effect list) result" where
  "trace_default tp compiled pid entry =
     (let event = full_entry tp pid entry in
      case compiled of
        None \<Rightarrow> Ok [CmdlinePush pid, PipePushRaw event]
      | Some expr \<Rightarrow>
          (case evaluate expr (buf_context \<lparr>bc_buf = event, bc_schema = tp_schema tp\<rparr>) of
             None \<Rightarrow> Err Panic
           | Some False \<Rightarrow> Ok []
           | Some True \<Rightarrow> Ok [CmdlinePush pid, PipePushRaw event]))"

text \<open>\<open>perf\<close> are the \<open>perf_enable\<close> flags of the event callbacks.\<close>

definition call_back :: "(nat \<Rightarrow> bool) \<Rightarrow> ext_tracepoint \<Rightarrow> u32 \<Rightarrow> string \<Rightarrow> trace_callback \<Rightarrow> (panic, trace_effect list) result" where
  "call_back perf et pid entry cb =
     (case cb of
        DefaultCb f \<Rightarrow>
          (if df_print f then trace_default (et_point et) (et_compiled et) pid entry else Ok [CustomCall (df_arc f)])
      | EventCb f \<Rightarrow> Ok (if perf f then [EventCall f (full_entry (et_point et) pid entry)] else [])
      | RawEventCb f \<Rightarrow> Ok [RawCall f])"

fun call_all :: "(nat \<Rightarrow> bool) \<Rightarrow> ext_tracepoint \<Rightarrow> u32 \<Rightarrow> string \<Rightarrow> trace_callback list \<Rightarrow> (panic, trace_effect list) result" where
  "call_all perf et pid entry [] = Ok []"
| "call_all perf et pid entry (cb # cbs) =
     and_then (call_back perf et pid entry cb) (\<lambda>es.
     and_then (call_all perf et pid entry cbs) (\<lambda>es'. Ok (es @ es')))"

text \<open>\<open>trace_<name>\<close>: the static branch, then every callback.\<close>

definition trace_hit :: "(nat \<Rightarrow> bool) \<Rightarrow> ext_tracepoint \<Rightarrow> u32 \<Rightarrow> string \<Rightarrow> (panic, trace_effect list) result" where
  "trace_hit perf et pid entry =
     (if tp_key (et_point et) then call_all perf et pid entry (et_callbacks et) else Ok [])"

section \<open>Histories\<close>

text \<open>
  What can happen to a tracepoint: writes to its enable and filter files, registration and
  removal of other callbacks, and hits by a process with an entry.
\<close>

datatype tp_call =
    EnableWrite char
  | FilterWrite string
  | RegisterCb trace_callback
  | UnregisterCb trace_callback
  | Hit u32 string

fun tp_step ::
  "(nat \<Rightarrow> bool) \<Rightarrow> ext_tracepoint \<times> filter_file \<Rightarrow> tp_call \<Rightarrow>
     (panic, (ext_tracepoint \<times> filter_file) \<times> trace_effect list) result" where
  "tp_step perf (et, f) (EnableWrite c) = Ok ((enable_write et c, f), [])"
| "tp_step perf (et, f) (FilterWrite s) = and_then (filter_write f et s) (\<lambda>(_, f, et). Ok ((et, f), []))"
| "tp_step perf (et, f) (RegisterCb cb) = Ok ((register_cb et cb, f), [])"
| "tp_step perf (et, f) (UnregisterCb cb) = Ok ((unregister_cb et cb, f), [])"
| "tp_step perf (et, f) (Hit pid entry) = and_then (trace_hit perf et pid entry) (\<lambda>es. Ok ((et, f), es))"

fun tp_run ::
  "(nat \<Rightarrow> bool) \<Rightarrow> ext_tracepoint \<times> filter_file \<Rightarrow> tp_call list \<Rightarrow>
     (panic, (ext_tracepoint \<times> filter_file) \<times> trace_effect list) result" where
  "tp_run perf st [] = Ok (st, [])"
| "tp_run perf st (c # cs) =
     and_then (tp_step perf st c) (\<lambda>(st, es).
     and_then (tp_run perf st cs) (\<lambda>(st, es'). Ok (st, es @ es')))"

fun pushed :: "trace_effect list \<Rightarrow> string list" where
  "pushed [] = []"
| "pushed (PipePushRaw b # es) = b # pushed es"
| "pushed (_ # es) = pushed es"

lemma pushed_append [simp]: "pushed (es @ es') = pushed es @ pushed es'"
  by (induction es rule: pushed.induct) auto

text \<open>
  The abstract specification: a switch that the last \<open>1\<close> or \<open>0\<close> in the enable file sets, a
  filter that the last write to the filter file sets (none when it is \<open>0\<close> or rejected), and a
  log of the entries of the hits that the switch and the filter let through.
\<close>

definition new_filter :: "schema \<Rightarrow> string \<Rightarrow> compiled option" where
  "new_filter sch s =
     (if hd s = CHR ''0'' then None
      else case compile_with_schema s sch of Inl _ \<Rightarrow> None | Inr c \<Rightarrow> Some c)"

definition passes :: "tracepoint \<Rightarrow> compiled option \<Rightarrow> string \<Rightarrow> bool" where
  "passes tp flt event \<longleftrightarrow>
     (case flt of None \<Rightarrow> True
      | Some c \<Rightarrow> evaluate c (buf_context \<lparr>bc_buf = event, bc_schema = tp_schema tp\<rparr>) = Some True)"

fun spec_log :: "tracepoint \<Rightarrow> bool \<Rightarrow> compiled option \<Rightarrow> tp_call list \<Rightarrow> string list" where
  "spec_log tp on flt [] = []"
| "spec_log tp on flt (EnableWrite c # cs) =
     spec_log tp (if c = CHR ''1'' then True else if c = CHR ''0'' then False else on) flt cs"
| "spec_log tp on flt (FilterWrite s # cs) = spec_log tp on (new_filter (tp_schema tp) s) cs"
| "spec_log tp on flt (Hit pid entry # cs) =
     (if on \<and> passes tp flt (full_entry tp pid entry) then [full_entry tp pid entry] else []) @ spec_log tp on flt cs"
| "spec_log tp on flt (_ # cs) = spec_log tp on flt cs"

text \<open>
  The calls of a client: filters are not empty, entries fit the schema, and the callbacks that
  others register are not the default one.
\<close>

fun other_callback :: "default_func \<Rightarrow> trace_callback \<Rightarrow> bool" where
  "other_callback d (DefaultCb f) \<longleftrightarrow> df_arc f \<noteq> df_arc d \<and> \<not> df_print f"
| "other_callback d _ \<longleftrightarrow> True"

fun tp_call_ok :: "tracepoint \<Rightarrow> default_func \<Rightarrow> tp_call \<Rightarrow> bool" where
  "tp_call_ok tp d (FilterWrite s) \<longleftrightarrow> s \<noteq> []"
| "tp_call_ok tp d (RegisterCb cb) \<longleftrightarrow> other_callback d cb"
| "tp_call_ok tp d (UnregisterCb cb) \<longleftrightarrow> other_callback d cb"
| "tp_call_ok tp d (Hit pid entry) \<longleftrightarrow> list_all (\<lambda>(n, fld). field_fits (full_entry tp pid entry) fld) (tp_schema tp)"
| "tp_call_ok tp d (EnableWrite c) \<longleftrightarrow> True"

text \<open>
  The invariant: the key is enabled exactly when there are callbacks, the default callback is
  there at most once and exactly when the switch is on, and the filter was compiled against the
  schema of the tracepoint.
\<close>

definition tp_inv :: "tracepoint \<Rightarrow> default_func \<Rightarrow> bool \<Rightarrow> compiled option \<Rightarrow> ext_tracepoint \<Rightarrow> bool" where
  "tp_inv tp d on flt et \<longleftrightarrow>
     et_point et = tp\<lparr>tp_key := et_callbacks et \<noteq> []\<rparr> \<and> et_default et = d \<and> et_compiled et = flt \<and>
     filter (\<lambda>cb. \<not> other_callback d cb) (et_callbacks et) = (if on then [DefaultCb d] else []) \<and>
     (\<forall>c. flt = Some c \<longrightarrow> (\<exists>s. compile_with_schema s (tp_schema tp) = Ok c))"

lemma other_default [simp]: "\<not> other_callback d (DefaultCb d)"
  by simp

lemma same_callback_refl [simp]: "same_callback cb cb"
  by (cases cb) simp_all

lemma same_callback_default: "same_callback cb (DefaultCb d) \<Longrightarrow> \<not> other_callback d cb"
  by (cases cb) auto

lemma same_callback_other: "same_callback f cb \<Longrightarrow> other_callback d cb \<Longrightarrow> f \<noteq> DefaultCb d"
  by (cases cb) auto

lemma full_entry_key [simp]: "full_entry (tp\<lparr>tp_key := b\<rparr>) = full_entry tp"
  by (simp add: full_entry_def entry_header_def fun_eq_iff)

lemma callbacks_default:
  assumes "tp_inv tp d on flt et"
  shows "list_ex (\<lambda>f. same_callback f (DefaultCb d)) (et_callbacks et) \<longleftrightarrow> on"
    and "filter (\<lambda>cb. \<not> other_callback d cb) (filter (\<lambda>f. \<not> same_callback f (DefaultCb d)) (et_callbacks et)) = []"
proof -
  have flt: "filter (\<lambda>cb. \<not> other_callback d cb) (et_callbacks et) = (if on then [DefaultCb d] else [])"
    using assms by (simp add: tp_inv_def)
  have "cb = DefaultCb d" if "cb \<in> set (et_callbacks et)" "\<not> other_callback d cb" for cb
  proof -
    have "cb \<in> set (filter (\<lambda>cb. \<not> other_callback d cb) (et_callbacks et))" using that by simp
    then show ?thesis unfolding flt by (simp split: if_splits)
  qed
  note only = this
  show "filter (\<lambda>cb. \<not> other_callback d cb) (filter (\<lambda>f. \<not> same_callback f (DefaultCb d)) (et_callbacks et)) = []"
    using only by (auto simp: filter_empty_conv)
  have "on \<longleftrightarrow> DefaultCb d \<in> set (filter (\<lambda>cb. \<not> other_callback d cb) (et_callbacks et))"
    unfolding flt by simp
  also have "\<dots> \<longleftrightarrow> list_ex (\<lambda>f. same_callback f (DefaultCb d)) (et_callbacks et)"
  proof
    assume "DefaultCb d \<in> set (filter (\<lambda>cb. \<not> other_callback d cb) (et_callbacks et))"
    then have "DefaultCb d \<in> set (et_callbacks et)" by simp
    then show "list_ex (\<lambda>f. same_callback f (DefaultCb d)) (et_callbacks et)"
      unfolding list_ex_iff by (rule bexI [rotated]) (rule same_callback_refl)
  next
    assume "list_ex (\<lambda>f. same_callback f (DefaultCb d)) (et_callbacks et)"
    then obtain f where f: "f \<in> set (et_callbacks et)" "same_callback f (DefaultCb d)"
      unfolding list_ex_iff by blast
    then have "f = DefaultCb d" by (intro only same_callback_default)
    with f(1) show "DefaultCb d \<in> set (filter (\<lambda>cb. \<not> other_callback d cb) (et_callbacks et))" by simp
  qed
  finally show "list_ex (\<lambda>f. same_callback f (DefaultCb d)) (et_callbacks et) \<longleftrightarrow> on" by simp
qed

lemma register_default: "tp_inv tp d on flt et \<Longrightarrow> tp_inv tp d True flt (register_cb et (DefaultCb d))"
  using callbacks_default(1) [of tp d on flt et]
  by (auto simp: tp_inv_def register_cb_def set_key_def Let_def)

lemma tp_inv_unregister:
  assumes "tp_inv tp d on flt et"
    and kept: "filter (\<lambda>cb. \<not> other_callback d cb) (filter (\<lambda>f. \<not> same_callback f cb) (et_callbacks et)) =
      (if on' then [DefaultCb d] else [])"
  shows "tp_inv tp d on' flt (unregister_cb et cb)"
proof (cases "filter (\<lambda>f. \<not> same_callback f cb) (et_callbacks et) = []")
  case True
  then have "\<not> on'" using kept by (auto split: if_splits)
  with assms(1) True show ?thesis by (simp add: tp_inv_def unregister_cb_def set_key_def)
next
  case False
  then have "et_callbacks et \<noteq> []" by auto
  with assms False show ?thesis by (simp add: tp_inv_def unregister_cb_def)
qed

lemma unregister_default: "tp_inv tp d on flt et \<Longrightarrow> tp_inv tp d False flt (unregister_cb et (DefaultCb d))"
  by (rule tp_inv_unregister) (auto dest: callbacks_default(2) simp del: filter_filter)

lemma register_other: "tp_inv tp d on flt et \<Longrightarrow> other_callback d cb \<Longrightarrow> tp_inv tp d on flt (register_cb et cb)"
  by (auto simp: tp_inv_def register_cb_def set_key_def Let_def)

lemma unregister_other: "tp_inv tp d on flt et \<Longrightarrow> other_callback d cb \<Longrightarrow> tp_inv tp d on flt (unregister_cb et cb)"
proof -
  assume inv: "tp_inv tp d on flt et" and cb: "other_callback d cb"
  let ?f = "filter (\<lambda>cb. \<not> other_callback d cb) (et_callbacks et)"
  have "filter (\<lambda>f. \<not> same_callback f cb) ?f = ?f"
    using inv same_callback_other [OF _ cb] by (auto simp: tp_inv_def)
  then have "filter (\<lambda>cb. \<not> other_callback d cb) (filter (\<lambda>f. \<not> same_callback f cb) (et_callbacks et)) = ?f"
    by (simp add: conj_commute)
  with inv show ?thesis by (intro tp_inv_unregister [OF inv]) (simp add: tp_inv_def del: filter_filter)
qed

lemma filter_write_inv:
  assumes "tp_inv tp d on flt et" "s \<noteq> []"
  shows "\<exists>ok f' et'. filter_write f et s = Ok (ok, f', et') \<and> tp_inv tp d on (new_filter (tp_schema tp) s) et'"
proof -
  have c: "nth_of s 0 = Ok (hd s)" using assms(2) by (cases s) (simp_all add: nth_of_def)
  have sch: "tp_schema (et_point et) = tp_schema tp" using assms(1) by (simp add: tp_inv_def)
  show ?thesis
    using assms(1)
    by (cases "compile_with_schema s (tp_schema tp)")
      (auto simp: filter_write_def c sch new_filter_def set_compiled_expr_def tp_inv_def)
qed

text \<open>A hit pushes the entry once when the default callback is there and the filter passes.\<close>

lemma trace_default_total:
  assumes "list_all (\<lambda>(n, fld). field_fits (full_entry tp pid entry) fld) (tp_schema tp)"
    and "\<forall>c. flt = Some c \<longrightarrow> (\<exists>s. compile_with_schema s (tp_schema tp) = Ok c)"
  shows "\<exists>es. trace_default (tp\<lparr>tp_key := b\<rparr>) flt pid entry = Ok es \<and>
    pushed es = (if passes tp flt (full_entry tp pid entry) then [full_entry tp pid entry] else [])"
proof (cases flt)
  case None
  then show ?thesis by (simp add: trace_default_def passes_def)
next
  case (Some c)
  let ?ctx = "\<lparr>bc_buf = full_entry tp pid entry, bc_schema = tp_schema tp\<rparr>"
  obtain s where s: "compile_with_schema s (tp_schema tp) = Ok c" using assms(2) Some by blast
  have "list_all (buf_ready ?ctx) (leaves (co_expr c))" using assms(1) by (simp add: buf_ready_def list_all_iff)
  from bufc.try_evaluate_total [OF s this] obtain v where "evaluate c (buf_context ?ctx) = Some v"
    by (auto simp: evaluate_def buf_context_def)
  then show ?thesis using Some by (cases v) (simp_all add: trace_default_def passes_def)
qed

lemma call_all_pushes:
  assumes "trace_default (et_point et) (et_compiled et) pid entry = Ok es" "df_print d"
  shows "\<forall>cb \<in> set cbs. other_callback d cb \<or> cb = DefaultCb d \<Longrightarrow>
    \<exists>es'. call_all perf et pid entry cbs = Ok es' \<and>
      pushed es' = concat (replicate (length (filter (\<lambda>cb. \<not> other_callback d cb) cbs)) (pushed es))"
proof (induction cbs)
  case (Cons cb cbs)
  then obtain es' where es': "call_all perf et pid entry cbs = Ok es'"
    "pushed es' = concat (replicate (length (filter (\<lambda>cb. \<not> other_callback d cb) cbs)) (pushed es))" by auto
  show ?case
  proof (cases "other_callback d cb")
    case True
    then obtain es1 where "call_back perf et pid entry cb = Ok es1" "pushed es1 = []"
      by (cases cb) (auto simp: call_back_def)
    with es' True show ?thesis by auto
  next
    case False
    then have "cb = DefaultCb d" using Cons.prems by auto
    with es' False assms show ?thesis by (auto simp: call_back_def)
  qed
qed simp

lemma trace_hit_pushes:
  assumes inv: "tp_inv tp d on flt et" and "df_print d"
    and fits: "list_all (\<lambda>(n, fld). field_fits (full_entry tp pid entry) fld) (tp_schema tp)"
  shows "\<exists>es. trace_hit perf et pid entry = Ok es \<and>
    pushed es = (if on \<and> passes tp flt (full_entry tp pid entry) then [full_entry tp pid entry] else [])"
proof (cases "et_callbacks et = []")
  case True
  then show ?thesis using inv by (auto simp: trace_hit_def tp_inv_def split: if_splits)
next
  case False
  have "\<forall>c. flt = Some c \<longrightarrow> (\<exists>s. compile_with_schema s (tp_schema tp) = Ok c)" using inv by (simp add: tp_inv_def)
  from trace_default_total [OF fits this, of True] obtain es where es:
    "trace_default (et_point et) (et_compiled et) pid entry = Ok es"
    "pushed es = (if passes tp flt (full_entry tp pid entry) then [full_entry tp pid entry] else [])"
    using inv False by (auto simp: tp_inv_def)
  have only: "\<forall>cb \<in> set (et_callbacks et). other_callback d cb \<or> cb = DefaultCb d"
  proof
    fix cb assume "cb \<in> set (et_callbacks et)"
    then have "other_callback d cb \<or> cb \<in> set (filter (\<lambda>cb. \<not> other_callback d cb) (et_callbacks et))" by simp
    moreover have "set (filter (\<lambda>cb. \<not> other_callback d cb) (et_callbacks et)) \<subseteq> {DefaultCb d}"
      using inv unfolding tp_inv_def by (auto simp del: set_filter split: if_splits)
    ultimately show "other_callback d cb \<or> cb = DefaultCb d" by blast
  qed
  from call_all_pushes [OF es(1) assms(2) this] obtain es' where "call_all perf et pid entry (et_callbacks et) = Ok es'"
    "pushed es' = concat (replicate (length (filter (\<lambda>cb. \<not> other_callback d cb) (et_callbacks et))) (pushed es))" by blast
  then show ?thesis using inv False es(2) by (simp add: trace_hit_def tp_inv_def)
qed

lemma tp_run_log:
  "tp_inv tp d on flt et \<Longrightarrow> df_print d \<Longrightarrow> list_all (tp_call_ok tp d) cs \<Longrightarrow>
     \<exists>et' f' es. tp_run perf (et, f) cs = Ok ((et', f'), es) \<and> pushed es = spec_log tp on flt cs \<and>
       tp_key (et_point et') = (et_callbacks et' \<noteq> [])"
proof (induction cs arbitrary: on flt et f)
  case Nil
  then show ?case by (simp add: tp_inv_def)
next
  case (Cons c cs)
  have step: "\<exists>et1 f1 es on1 flt1. tp_step perf (et, f) c = Ok ((et1, f1), es) \<and> tp_inv tp d on1 flt1 et1 \<and>
    spec_log tp on flt (c # cs) = pushed es @ spec_log tp on1 flt1 cs"
  proof (cases c)
    case (EnableWrite e)
    have "et_default et = d" using Cons.prems(1) by (simp add: tp_inv_def)
    then show ?thesis
      using EnableWrite Cons.prems(1) register_default [OF Cons.prems(1)] unregister_default [OF Cons.prems(1)]
      by (auto simp: enable_write_def)
  next
    case (FilterWrite s)
    then show ?thesis using filter_write_inv [OF Cons.prems(1), of s f] Cons.prems(3) by fastforce
  next
    case (RegisterCb cb)
    then show ?thesis using register_other [OF Cons.prems(1)] Cons.prems(3) by fastforce
  next
    case (UnregisterCb cb)
    then show ?thesis using unregister_other [OF Cons.prems(1)] Cons.prems(3) by fastforce
  next
    case (Hit pid entry)
    then show ?thesis using trace_hit_pushes [OF Cons.prems(1,2), of pid entry perf] Cons.prems(1,3) by fastforce
  qed
  then obtain et1 f1 es on1 flt1 where s: "tp_step perf (et, f) c = Ok ((et1, f1), es)" "tp_inv tp d on1 flt1 et1"
    "spec_log tp on flt (c # cs) = pushed es @ spec_log tp on1 flt1 cs" by blast
  from Cons.IH [OF s(2) Cons.prems(2)] Cons.prems(3) obtain et' f' es' where
    "tp_run perf (et1, f1) cs = Ok ((et', f'), es')" "pushed es' = spec_log tp on1 flt1 cs"
    "tp_key (et_point et') = (et_callbacks et' \<noteq> [])" by force
  with s show ?case by (auto simp del: spec_log.simps)
qed

text \<open>
  C6: a tracepoint records what its files ask for. From a new tracepoint, whatever is written to
  its enable and filter files, whichever other callbacks come and go, and whichever processes hit
  it, the entries pushed to the trace pipe are those of the hits at which the enable file was on
  and the filter held; nothing panics, and the static key is on exactly while there are callbacks.
\<close>

theorem tracepoint_records_filtered:
  assumes "df_print d" "list_all (tp_call_ok tp d) cs" "\<not> tp_key tp"
  shows "\<exists>et f es. tp_run perf (ExtTracePoint_new tp d, TraceFilterFile_new) cs = Ok ((et, f), es) \<and>
    pushed es = spec_log tp False None cs \<and> tp_key (et_point et) = (et_callbacks et \<noteq> [])"
proof (rule tp_run_log [OF _ assms(1,2)])
  show "tp_inv tp d False None (ExtTracePoint_new tp d)" using assms(3) by (simp add: tp_inv_def ExtTracePoint_new_def)
qed

definition example_point :: tracepoint where
  "example_point = \<lparr>tp_name = ''signal'', tp_system = ''task'', tp_key = False, tp_id = 3, tp_fmt = (\<lambda>b. b),
     tp_print = ''%s'', tp_schema = example_schema, tp_flags = 0\<rparr>"

theorem tracepoint_records_filtered_witness:
  "\<exists>et f es. tp_run (\<lambda>_. True) (ExtTracePoint_new example_point \<lparr>df_arc = 0, df_print = True\<rparr>, TraceFilterFile_new)
      [Hit 7 ''rejected'', EnableWrite CHR ''1'', RegisterCb (EventCb 5), Hit 7 ''accepted'', EnableWrite CHR ''0'',
       Hit 7 ''too late''] = Ok ((et, f), es) \<and>
    pushed es = [full_entry example_point 7 ''accepted''] \<and> tp_key (et_point et) = (et_callbacks et \<noteq> [])"
proof -
  let ?cs = "[Hit 7 ''rejected'', EnableWrite CHR ''1'', RegisterCb (EventCb 5), Hit 7 ''accepted'', EnableWrite CHR ''0'',
       Hit 7 ''too late'']"
  have "list_all (tp_call_ok example_point \<lparr>df_arc = 0, df_print = True\<rparr>) ?cs"
    by (simp add: example_point_def example_schema_def full_entry_def entry_header_def IntegerToI64_def to_i64_def decode_int_def)
  moreover have "spec_log example_point False None ?cs = [full_entry example_point 7 ''accepted'']"
    by (simp add: passes_def)
  ultimately show ?thesis
    using tracepoint_records_filtered [of "\<lparr>df_arc = 0, df_print = True\<rparr>" example_point ?cs "\<lambda>_. True"]
    by (simp add: example_point_def del: tp_run.simps spec_log.simps)
qed

end
