(* ===== verification/TraceEvents.thy ===== *)
theory TraceEvents
  imports TracePoint BTreeMap "HOL-Library.Product_Lexorder"
begin

text \<open>
  All tracepoints of a kernel: their registration by \<open>global_init_events\<close> of
  \<open>ktracepoint/src/lib.rs\<close>, the parser of recorded events in \<open>trace_pipe.rs\<close>, the format file that the
  macro generates, and the proof that the parser resolves what a registered tracepoint recorded.
\<close>

section \<open>Registration\<close>

text \<open>
  An element of the section \<open>.tracepoint\<close>; its print function is the generated one. \<open>arc\<close> gives the
  address of the \<open>Arc\<close> that is allocated for a default callback.
\<close>

record trace_meta =
  tm_point :: tracepoint

text \<open>The loop over the sorted section, with the counter of the ids, the map and the runtime states.\<close>

fun init_loop ::
  "(u32 \<Rightarrow> nat) \<Rightarrow> u32 \<Rightarrow> trace_meta list \<Rightarrow> (u32 \<times> tracepoint) list \<Rightarrow> ext_tracepoint list \<Rightarrow>
     u32 \<times> (u32 \<times> tracepoint) list \<times> ext_tracepoint list" where
  "init_loop arc next_id [] tp_map ext_tps = (next_id, tp_map, ext_tps)"
| "init_loop arc next_id (m # ms) tp_map ext_tps =
     (let tracepoint = (tm_point m)\<lparr>tp_id := next_id\<rparr>;
          default_callback = \<lparr>df_arc = arc next_id, df_print = True\<rparr>;
          ext_tracepoint = ExtTracePoint_new tracepoint default_callback
      in init_loop arc (next_id + 1) ms (bt_insert next_id tracepoint tp_map) (ext_tps @ [ext_tracepoint]))"

text \<open>\<open>sort_by\<close> is stable; names are compared first, then systems.\<close>

definition global_init_events ::
  "(u32 \<Rightarrow> nat) \<Rightarrow> u32 \<Rightarrow> trace_meta list \<Rightarrow> u32 \<times> (u32 \<times> tracepoint) list \<times> ext_tracepoint list" where
  "global_init_events arc next_id tracepoint_data =
     init_loop arc next_id (sort_key (\<lambda>m. (tp_name (tm_point m), tp_system (tm_point m))) tracepoint_data) [] []"

section \<open>Formatting\<close>

text \<open>The number of characters of a text in UTF-8, and the widths of \<open>format!\<close>.\<close>

definition char_count :: "string \<Rightarrow> nat" where
  "char_count s = length (filter (\<lambda>c. (of_char c :: nat) div 64 \<noteq> 2) s)"

definition pad_left :: "char \<Rightarrow> nat \<Rightarrow> string \<Rightarrow> string" where
  "pad_left c n s = replicate (n - char_count s) c @ s"

definition pad_right :: "char \<Rightarrow> nat \<Rightarrow> string \<Rightarrow> string" where
  "pad_right c n s = s @ replicate (n - char_count s) c"

definition show_i32 :: "32 word \<Rightarrow> string" where
  "show_i32 n = (if sint n < 0 then ''-'' @ show_nat (nat (- sint n)) else show_nat (nat (sint n)))"

text \<open>\<open>trace_print_lat_fmt\<close>: the two halves of the preemption count.\<close>

definition trace_print_lat_fmt :: "u8 \<Rightarrow> string" where
  "trace_print_lat_fmt common_preempt_count =
     (let low = unat (common_preempt_count AND 0xF); high = unat (drop_bit 4 common_preempt_count)
      in ''...'' @ [if low \<noteq> 0 then char_of (48 + low) else CHR ''.''] @
         [if high \<noteq> 0 then char_of (48 + high) else CHR ''.''])"

definition event_line :: "string \<Rightarrow> 32 word \<Rightarrow> u8 \<Rightarrow> u32 \<Rightarrow> u64 \<Rightarrow> string \<Rightarrow> string \<Rightarrow> string" where
  "event_line pname pid preempt_count cpu_id time name str =
     (let secs = unat time div 1000000000; usec_rem = unat time mod 1000000000 div 1000 in
      pad_left (CHR '' '') 16 pname @ ''-'' @ pad_right (CHR '' '') 7 (show_i32 pid) @ '' ['' @
      pad_left (CHR ''0'') 3 (show_nat (unat cpu_id)) @ ''] '' @ trace_print_lat_fmt preempt_count @ '' '' @
      pad_left (CHR '' '') 5 (show_nat secs) @ ''.'' @ pad_left (CHR ''0'') 6 (show_nat usec_rem) @ '': '' @
      name @ ''('' @ str @ '')'' @ nl)"

text \<open>
  \<open>TraceEntryParser::parse\<close>. The header is read through a pointer to the bytes of the record; a
  record shorter than a header is undefined behaviour, the model panics there.
\<close>

definition parse_event ::
  "'c cmd_lru \<Rightarrow> (u32 \<times> tracepoint) list \<Rightarrow> 'c \<Rightarrow> trace_record \<Rightarrow> (panic, string) result" where
  "parse_event C tracepoint_map cmdline_cache rec =
     (let entry = tr_event rec in
      if length entry < 8 then Err Panic
      else
        let common_type = (of_nat (le_nat (take 2 entry)) :: u16);
            common_preempt_count = of_nat (le_nat (take 1 (drop 3 entry)));
            common_pid = of_nat (le_nat (take 4 (drop 4 entry)))
        in case map_of tracepoint_map (ucast common_type) of
             None \<Rightarrow> Err Panic
           | Some tp \<Rightarrow>
               let str = tp_fmt tp (drop 8 entry) in
               and_then (cmdline_get C cmdline_cache common_pid) (\<lambda>name.
                 let pname = (case name of Some s \<Rightarrow> s | None \<Rightarrow> ''<...>'')
                 in Ok (event_line pname common_pid common_preempt_count (tr_cpu_id rec) (tr_timestamp rec)
                      (tp_name tp) str)))"

section \<open>The format file\<close>

definition tab :: string where "tab = [CHR 0x09]"

text \<open>A field of the user's entry: its type, name, offset and size.\<close>

record format_field =
  ff_type :: string
  ff_name :: string
  ff_offset :: nat
  ff_size :: nat

definition is_signed :: "string \<Rightarrow> bool" where
  "is_signed ty \<longleftrightarrow> ty \<in> {''i8'', ''i16'', ''i32'', ''i64'', ''i128'', ''isize''}"

definition format_line :: "format_field \<Rightarrow> string" where
  "format_line f =
     tab @ ''field: '' @ ff_type f @ '' '' @ ff_name f @ '' offset: '' @ show_nat (ff_offset f) @ ''; size: '' @
     show_nat (ff_size f) @ ''; signed: '' @ show_nat (if is_signed (ff_type f) then 1 else 0) @ '';'' @ nl"

text \<open>\<open>trace_fmt_show<name>\<close>; the last argument is the text of the format expression.\<close>

definition trace_fmt_show :: "format_field list \<Rightarrow> string \<Rightarrow> string" where
  "trace_fmt_show entries fmt_expr =
     ''format:'' @ nl @
     tab @ ''field: u16 common_type; offset: 0; size: 2; signed: 0;'' @ nl @
     tab @ ''field: u8 common_flags; offset: 2; size: 1; signed: 0;'' @ nl @
     tab @ ''field: u8 common_preempt_count; offset: 3; size: 1; signed: 0;'' @ nl @
     tab @ ''field: i32 common_pid; offset: 4; size: 4; signed: 1;'' @ nl @ nl @
     concat (map format_line entries) @ nl @ ''print fmt: '' @ [CHR 0x22] @ fmt_expr @ [CHR 0x22]"

section \<open>What registration yields\<close>

lemma init_loop_spec:
  assumes "init_loop arc i ms m es = (i', m', es')" "unat i + length ms < 2 ^ 32"
  shows "\<exists>new. es' = es @ new \<and> length new = length ms \<and>
    (\<forall>j < length ms. new ! j = ExtTracePoint_new ((tm_point (ms ! j))\<lparr>tp_id := i + of_nat j\<rparr>)
        \<lparr>df_arc = arc (i + of_nat j), df_print = True\<rparr> \<and>
      map_of m' (i + of_nat j) = Some ((tm_point (ms ! j))\<lparr>tp_id := i + of_nat j\<rparr>)) \<and>
    (\<forall>k. unat k < unat i \<longrightarrow> map_of m' k = map_of m k)"
  using assms
proof (induction arc i ms m es rule: init_loop.induct)
  case (2 arc i t ts m es)
  let ?tp = "(tm_point t)\<lparr>tp_id := i\<rparr>"
  let ?et = "ExtTracePoint_new ?tp \<lparr>df_arc = arc i, df_print = True\<rparr>"
  have u: "unat (i + 1) = unat i + 1"
    using 2(3) by (simp only: unat_word_ariths) simp
  have run: "init_loop arc (i + 1) ts (bt_insert i ?tp m) (es @ [?et]) = (i', m', es')"
    using 2(2) by (simp add: Let_def)
  obtain new where new: "es' = (es @ [?et]) @ new" "length new = length ts"
    "\<forall>j < length ts. new ! j = ExtTracePoint_new ((tm_point (ts ! j))\<lparr>tp_id := i + 1 + of_nat j\<rparr>)
        \<lparr>df_arc = arc (i + 1 + of_nat j), df_print = True\<rparr> \<and>
      map_of m' (i + 1 + of_nat j) = Some ((tm_point (ts ! j))\<lparr>tp_id := i + 1 + of_nat j\<rparr>)"
    "\<forall>k. unat k < unat (i + 1) \<longrightarrow> map_of m' k = map_of (bt_insert i ?tp m) k"
    using 2(1) [OF refl refl refl run] 2(3) u by auto
  have "map_of m' i = Some ?tp" using new(4) u by simp
  moreover have "map_of m' k = map_of m k" if "unat k < unat i" for k
    using new(4) u that by auto
  ultimately show ?case
    using new(1-3) by (intro exI [of _ "?et # new"]) (auto simp: less_Suc_eq_0_disj ac_simps)
qed simp

lemma init_events_resolved:
  assumes "global_init_events arc 0 metas = (n, tpm, ets)" "length metas \<le> 2 ^ 16" "et \<in> set ets"
  shows "\<exists>t \<in> set metas. \<exists>i. unat i < 2 ^ 16 \<and> map_of tpm i = Some ((tm_point t)\<lparr>tp_id := i\<rparr>) \<and>
    et = ExtTracePoint_new ((tm_point t)\<lparr>tp_id := i\<rparr>) \<lparr>df_arc = arc i, df_print = True\<rparr>"
proof -
  let ?ms = "sort_key (\<lambda>m. (tp_name (tm_point m), tp_system (tm_point m))) metas"
  have run: "init_loop arc 0 ?ms [] [] = (n, tpm, ets)" using assms(1) by (simp add: global_init_events_def)
  have len: "unat (0 :: u32) + length ?ms < 2 ^ 32" using assms(2) by simp
  from init_loop_spec [OF run len] obtain j where j: "j < length ?ms"
    "et = ExtTracePoint_new ((tm_point (?ms ! j))\<lparr>tp_id := of_nat j\<rparr>) \<lparr>df_arc = arc (of_nat j), df_print = True\<rparr>"
    "map_of tpm (of_nat j) = Some ((tm_point (?ms ! j))\<lparr>tp_id := of_nat j\<rparr>)"
    using assms(3) by (auto simp: in_set_conv_nth)
  have "?ms ! j \<in> set metas" using j(1) by (metis nth_mem set_sort)
  moreover have "unat (of_nat j :: u32) < 2 ^ 16"
    using j(1) assms(2) by (simp add: unat_of_nat)
  ultimately show ?thesis using j(2,3) by blast
qed

text \<open>Only hits are recorded.\<close>

lemma spec_log_hits:
  "ev \<in> set (spec_log tp on flt cs) \<Longrightarrow> \<exists>pid entry. Hit pid entry \<in> set cs \<and> ev = full_entry tp pid entry"
  by (induction tp on flt cs rule: spec_log.induct) (auto split: if_splits)

lemma parse_full_entry:
  assumes "map_of tpm (tp_id tp) = Some tp" "unat (tp_id tp) < 2 ^ 16" "cmdline_get C cache pid = Ok name"
  shows "parse_event C tpm cache \<lparr>tr_timestamp = t, tr_cpu_id = cpu, tr_event = full_entry tp pid entry\<rparr> =
    Ok (event_line (case name of Some s \<Rightarrow> s | None \<Rightarrow> ''<...>'') pid 0 cpu t (tp_name tp) (tp_fmt tp entry))"
proof -
  let ?e = "full_entry tp pid entry"
  have ty: "le_nat (take 2 ?e) = unat (tp_id tp)"
    using assms(2) by (simp add: full_entry_def entry_header_def le_nat_le_bytes unsigned_ucast_eq take_bit_nat_eq_self)
  have pc: "le_nat (take 1 (drop 3 ?e)) = 0"
    by (simp add: full_entry_def entry_header_def le_nat_le_bytes)
  have pid: "le_nat (take 4 (drop 4 ?e)) = unat pid"
    using unsigned_less [of pid, where 'a = nat] by (simp add: full_entry_def entry_header_def le_nat_le_bytes)
  have "unat (ucast (of_nat (unat (tp_id tp)) :: u16) :: u32) = unat (tp_id tp)"
    using assms(2) by (simp add: unsigned_ucast_eq unsigned_take_bit_eq take_bit_nat_eq_self)
  then have id: "ucast (of_nat (unat (tp_id tp)) :: u16) = tp_id tp" by (rule unsigned_word_eqI)
  have "\<not> length ?e < 8" "drop 8 ?e = entry" by (simp_all add: full_entry_def entry_header_def)
  then show ?thesis
    unfolding parse_event_def trace_record.select_convs Let_def ty pc pid id of_nat_0
    using assms(1,3) by simp
qed

section \<open>From a hit to its line\<close>


text \<open>Two tracepoints, given in the wrong order; a cache that keeps a list.\<close>

definition list_cmd :: "(nat \<times> (u32 \<times> string) list) cmd_lru" where
  "list_cmd =
     \<lparr>cl_new = \<lambda>n. (n, []), cl_put = \<lambda>(n, c) k v. (n, take n ((k, v) # filter (\<lambda>(j, _). j \<noteq> k) c)),
      cl_iter = snd, cl_resize = \<lambda>(_, c) n. (n, take n c), cl_cap = fst\<rparr>"

definition other_point :: tracepoint where
  "other_point = example_point\<lparr>tp_name := ''fork''\<rparr>"

definition both_points :: "trace_meta list" where
  "both_points = [\<lparr>tm_point = example_point\<rparr>, \<lparr>tm_point = other_point\<rparr>]"

lemma init_both_points:
  "global_init_events unat 0 both_points =
     (2, [(0, other_point\<lparr>tp_id := 0\<rparr>), (1, example_point\<lparr>tp_id := 1\<rparr>)],
      [ExtTracePoint_new (other_point\<lparr>tp_id := 0\<rparr>) \<lparr>df_arc = 0, df_print = True\<rparr>,
       ExtTracePoint_new (example_point\<lparr>tp_id := 1\<rparr>) \<lparr>df_arc = 1, df_print = True\<rparr>])"
  by (simp add: global_init_events_def both_points_def other_point_def example_point_def Let_def)


end
