(* ===== verification/ProbeTypes.thy ===== *)
theory ProbeTypes
  imports BTreeMap RustText
begin

text \<open>
  The data of the probe crate, \<open>kprobe/src/arch/mod.rs\<close>, \<open>kprobe/src/arch/retprobe.rs\<close> and
  \<open>kprobe/src/lib.rs\<close>: probes, their builders and handlers, and the operations that the kernel
  provides. Objects behind an \<open>Arc\<close> are named by numbers, functions of the client too. \<open>usize\<close>
  has 64 bits and its arithmetic wraps.
\<close>

type_synonym usize = u64

text \<open>An address space: the kernel's, or that of a process.\<close>

type_synonym space = "32 word option"

datatype ProbeInstallError =
    InvalidAddress | DecodeFailed | UnsupportedInstruction | UnsafeInstruction | RelocationFailed | PatchFailed

section \<open>Integers in memory\<close>

text \<open>Little-endian byte order, as on every supported architecture.\<close>

definition u16_of :: "u8 list \<Rightarrow> u16" where
  "u16_of bs = ucast (bs ! 0) OR push_bit 8 (ucast (bs ! 1))"

definition u32_of :: "u8 list \<Rightarrow> u32" where
  "u32_of bs = ucast (bs ! 0) OR push_bit 8 (ucast (bs ! 1)) OR push_bit 16 (ucast (bs ! 2)) OR push_bit 24 (ucast (bs ! 3))"

definition u16_bytes :: "u16 \<Rightarrow> u8 list" where
  "u16_bytes v = [ucast v, ucast (drop_bit 8 v)]"

definition u32_bytes :: "u32 \<Rightarrow> u8 list" where
  "u32_bytes v = [ucast v, ucast (drop_bit 8 v), ucast (drop_bit 16 v), ucast (drop_bit 24 v)]"

definition word_bytes :: "u64 \<Rightarrow> u8 list" where
  "word_bytes v = map (\<lambda>i. ucast (drop_bit (8 * i) v)) [0..<8]"

definition bytes_word :: "u8 list \<Rightarrow> u64" where
  "bytes_word bs = foldr (\<lambda>b v. ucast b OR push_bit 8 v) bs 0"

section \<open>Return probe instances\<close>

text \<open>A weak reference is the object it may still reach, \<open>None\<close> is \<open>Weak::new()\<close>.\<close>

record RetprobeInstance =
  ri_ret_addr :: usize
  ri_frame :: usize
  ri_user_data :: "nat option"
  ri_retprobe :: "nat option"

record RetprobeData =
  rd_free_instances :: "RetprobeInstance list"
  rd_retprobe :: "nat option"

section \<open>The kernel\<close>

text \<open>
  \<open>KprobeAuxiliaryOps\<close> over the state \<open>'k\<close> of the kernel. \<open>mem_read\<close> is the byte at an address,
  \<open>mem_write\<close> stores bytes: through a pointer, or through the pointer that
  \<open>set_writeable_for_address\<close> hands to its action. \<open>alloc_kernel\<close> and \<open>free_kernel\<close> are the pages
  for kernel probes, \<open>alloc_box\<close> and \<open>free_box\<close> the boxed pages for user probes, \<open>alloc_user\<close> and
  \<open>free_user\<close> the pages in a process, the first with the bytes that its action copies there.
  \<open>pop_instance\<close> is \<open>None\<close> where the kernel has no instance for the task.
\<close>

record 'k aux_ops =
  mem_read :: "'k \<Rightarrow> space \<Rightarrow> usize \<Rightarrow> u8"
  mem_write :: "'k \<Rightarrow> space \<Rightarrow> usize \<Rightarrow> u8 list \<Rightarrow> 'k"
  alloc_kernel :: "'k \<Rightarrow> usize \<times> 'k"
  free_kernel :: "'k \<Rightarrow> usize \<Rightarrow> 'k"
  alloc_box :: "'k \<Rightarrow> usize \<times> 'k"
  free_box :: "'k \<Rightarrow> usize \<Rightarrow> 'k"
  alloc_user :: "'k \<Rightarrow> space \<Rightarrow> u8 list \<Rightarrow> usize \<times> 'k"
  free_user :: "'k \<Rightarrow> space \<Rightarrow> usize \<Rightarrow> 'k"
  push_instance :: "'k \<Rightarrow> RetprobeInstance \<Rightarrow> 'k"
  pop_instance :: "'k \<Rightarrow> (RetprobeInstance \<times> 'k) option"

definition read_bytes :: "'k aux_ops \<Rightarrow> 'k \<Rightarrow> space \<Rightarrow> usize \<Rightarrow> nat \<Rightarrow> u8 list" where
  "read_bytes F k sp a n = map (\<lambda>i. mem_read F k sp (a + of_nat i)) [0..<n]"

text \<open>\<open>copy_memory\<close>: the destination is always in the kernel.\<close>

definition copy_memory :: "'k aux_ops \<Rightarrow> 'k \<Rightarrow> usize \<Rightarrow> usize \<Rightarrow> nat \<Rightarrow> space \<Rightarrow> 'k" where
  "copy_memory F k src dst len sp = mem_write F k None dst (read_bytes F k sp src len)"

datatype ExecMemType = UserMem usize | KernelMem usize

fun as_ptr :: "ExecMemType \<Rightarrow> usize" where
  "as_ptr (UserMem p) = p"
| "as_ptr (KernelMem p) = p"

fun drop_exec_memory :: "'k aux_ops \<Rightarrow> 'k \<Rightarrow> ExecMemType \<Rightarrow> 'k" where
  "drop_exec_memory F k (UserMem p) = free_box F k p"
| "drop_exec_memory F k (KernelMem p) = free_kernel F k p"

definition alloc_exec_memory :: "'k aux_ops \<Rightarrow> 'k \<Rightarrow> space \<Rightarrow> ExecMemType \<times> 'k" where
  "alloc_exec_memory F k user_pid =
     (if user_pid \<noteq> None then let (p, k) = alloc_box F k in (UserMem p, k)
      else let (p, k) = alloc_kernel F k in (KernelMem p, k))"

section \<open>Handlers and builders\<close>

text \<open>
  A handler is a function of the client, or \<open>pre_handler_kretprobe\<close> in the probe of a return
  probe; the handlers of a return probe itself are functions of the client.
\<close>

datatype ProbeHandler = UserHandler nat | PreHandlerKretprobe

text \<open>\<open>Box<dyn ProbeData>\<close>: the unit value, data of the client, or the data of a return probe.\<close>

datatype ProbeData = UnitData | UserData nat | RetData RetprobeData

record ProbeBuilder =
  bd_symbol :: "string option"
  bd_symbol_addr :: usize
  bd_offset :: usize
  bd_pre_handler :: "ProbeHandler option"
  bd_post_handler :: "ProbeHandler option"
  bd_fault_handler :: "ProbeHandler option"
  bd_event_callbacks :: "(u32 \<times> nat) list"
  bd_probe_point :: "nat option"
  bd_enable :: bool
  bd_data :: "ProbeData option"
  bd_user_pid :: space

definition ProbeBuilder_new :: ProbeBuilder where
  "ProbeBuilder_new =
     \<lparr>bd_symbol = None, bd_symbol_addr = 0, bd_offset = 0, bd_pre_handler = None, bd_post_handler = None,
      bd_fault_handler = None, bd_event_callbacks = [], bd_probe_point = None, bd_enable = False,
      bd_data = None, bd_user_pid = None\<rparr>"

definition with_enable :: "bool \<Rightarrow> ProbeBuilder \<Rightarrow> ProbeBuilder" where
  "with_enable enable b = b\<lparr>bd_enable := enable\<rparr>"

definition with_symbol_addr :: "usize \<Rightarrow> ProbeBuilder \<Rightarrow> ProbeBuilder" where
  "with_symbol_addr symbol_addr b = b\<lparr>bd_symbol_addr := symbol_addr\<rparr>"

definition with_offset :: "usize \<Rightarrow> ProbeBuilder \<Rightarrow> ProbeBuilder" where
  "with_offset offset b = b\<lparr>bd_offset := offset\<rparr>"

definition with_symbol :: "string \<Rightarrow> ProbeBuilder \<Rightarrow> ProbeBuilder" where
  "with_symbol symbol b = b\<lparr>bd_symbol := Some symbol\<rparr>"

definition with_user_mode :: "32 word \<Rightarrow> ProbeBuilder \<Rightarrow> ProbeBuilder" where
  "with_user_mode user_pid b = b\<lparr>bd_user_pid := Some user_pid\<rparr>"

definition with_data :: "nat \<Rightarrow> ProbeBuilder \<Rightarrow> ProbeBuilder" where
  "with_data d b = b\<lparr>bd_data := Some (UserData d)\<rparr>"

definition with_pre_handler :: "nat \<Rightarrow> ProbeBuilder \<Rightarrow> ProbeBuilder" where
  "with_pre_handler func b = b\<lparr>bd_pre_handler := Some (UserHandler func)\<rparr>"

definition with_post_handler :: "nat \<Rightarrow> ProbeBuilder \<Rightarrow> ProbeBuilder" where
  "with_post_handler func b = b\<lparr>bd_post_handler := Some (UserHandler func)\<rparr>"

definition with_fault_handler :: "nat \<Rightarrow> ProbeBuilder \<Rightarrow> ProbeBuilder" where
  "with_fault_handler func b = b\<lparr>bd_fault_handler := Some (UserHandler func)\<rparr>"

definition with_probe_point :: "nat \<Rightarrow> ProbeBuilder \<Rightarrow> ProbeBuilder" where
  "with_probe_point q b = b\<lparr>bd_probe_point := Some q\<rparr>"

definition with_event_callback :: "u32 \<Rightarrow> nat \<Rightarrow> ProbeBuilder \<Rightarrow> ProbeBuilder" where
  "with_event_callback callback_id cb b = b\<lparr>bd_event_callbacks := bt_insert callback_id cb (bd_event_callbacks b)\<rparr>"

definition probe_addr :: "ProbeBuilder \<Rightarrow> usize" where
  "probe_addr b = bd_symbol_addr b + bd_offset b"

section \<open>Probes\<close>

record ProbeBasic =
  pb_symbol :: "string option"
  pb_symbol_addr :: usize
  pb_offset :: usize
  pb_pre_handler :: "ProbeHandler option"
  pb_post_handler :: "ProbeHandler option"
  pb_fault_handler :: "ProbeHandler option"
  pb_event_callbacks :: "(u32 \<times> nat) list"
  pb_enable :: bool
  pb_data :: ProbeData

definition ProbeBasic_from :: "ProbeBuilder \<Rightarrow> ProbeBasic" where
  "ProbeBasic_from b =
     \<lparr>pb_symbol = bd_symbol b, pb_symbol_addr = bd_symbol_addr b, pb_offset = bd_offset b,
      pb_pre_handler = bd_pre_handler b, pb_post_handler = bd_post_handler b,
      pb_fault_handler = bd_fault_handler b, pb_event_callbacks = bd_event_callbacks b,
      pb_enable = bd_enable b, pb_data = (case bd_data b of Some d \<Rightarrow> d | None \<Rightarrow> UnitData)\<rparr>"

definition register_event_callback :: "u32 \<Rightarrow> nat \<Rightarrow> ProbeBasic \<Rightarrow> ProbeBasic" where
  "register_event_callback callback_id cb p = p\<lparr>pb_event_callbacks := bt_insert callback_id cb (pb_event_callbacks p)\<rparr>"

definition unregister_event_callback :: "u32 \<Rightarrow> ProbeBasic \<Rightarrow> ProbeBasic" where
  "unregister_event_callback callback_id p = p\<lparr>pb_event_callbacks := bt_remove callback_id (pb_event_callbacks p)\<rparr>"

definition probe_disable :: "ProbeBasic \<Rightarrow> ProbeBasic" where "probe_disable p = p\<lparr>pb_enable := False\<rparr>"
definition probe_enable :: "ProbeBasic \<Rightarrow> ProbeBasic" where "probe_enable p = p\<lparr>pb_enable := True\<rparr>"
definition is_enabled :: "ProbeBasic \<Rightarrow> bool" where "is_enabled p = pb_enable p"

text \<open>\<open>Probe\<close>, with the probe point it shares, and \<open>Retprobe\<close> around one.\<close>

record Probe =
  pr_basic :: ProbeBasic
  pr_point :: nat

record Retprobe =
  rp_kprobe :: Probe
  rp_nmissed :: u64
  rp_entry_handler :: "nat option"
  rp_ret_handler :: "nat option"
  rp_event_callbacks :: "(u32 \<times> nat) list"

definition Retprobe_new :: "Probe \<Rightarrow> nat option \<Rightarrow> nat option \<Rightarrow> Retprobe" where
  "Retprobe_new kprobe entry_handler ret_handler =
     \<lparr>rp_kprobe = kprobe, rp_nmissed = 0, rp_entry_handler = entry_handler, rp_ret_handler = ret_handler,
      rp_event_callbacks = []\<rparr>"

definition retprobe_register_event_callback :: "u32 \<Rightarrow> nat \<Rightarrow> Retprobe \<Rightarrow> Retprobe" where
  "retprobe_register_event_callback callback_id cb r =
     r\<lparr>rp_event_callbacks := bt_insert callback_id cb (rp_event_callbacks r)\<rparr>"

definition retprobe_unregister_event_callback :: "u32 \<Rightarrow> Retprobe \<Rightarrow> Retprobe" where
  "retprobe_unregister_event_callback callback_id r =
     r\<lparr>rp_event_callbacks := bt_remove callback_id (rp_event_callbacks r)\<rparr>"

section \<open>Return probe builders\<close>

record RetprobeBuilder =
  rb_symbol :: "string option"
  rb_enable :: bool
  rb_symbol_addr :: usize
  rb_maxactive :: u32
  rb_data :: "nat list"
  rb_ret_handler :: "nat option"
  rb_entry_handler :: "nat option"
  rb_event_callbacks :: "(u32 \<times> nat) list"

definition RetprobeBuilder_new :: "u32 \<Rightarrow> RetprobeBuilder" where
  "RetprobeBuilder_new maxactive =
     \<lparr>rb_symbol = None, rb_enable = False, rb_symbol_addr = 0, rb_maxactive = maxactive, rb_data = [],
      rb_ret_handler = None, rb_entry_handler = None, rb_event_callbacks = []\<rparr>"

definition ret_with_enable :: "bool \<Rightarrow> RetprobeBuilder \<Rightarrow> RetprobeBuilder" where
  "ret_with_enable enable b = b\<lparr>rb_enable := enable\<rparr>"

definition ret_with_symbol_addr :: "usize \<Rightarrow> RetprobeBuilder \<Rightarrow> RetprobeBuilder" where
  "ret_with_symbol_addr symbol_addr b = b\<lparr>rb_symbol_addr := symbol_addr\<rparr>"

definition ret_with_symbol :: "string \<Rightarrow> RetprobeBuilder \<Rightarrow> RetprobeBuilder" where
  "ret_with_symbol symbol b = b\<lparr>rb_symbol := Some symbol\<rparr>"

text \<open>The clones of the data for the instances are one value of the client.\<close>

definition ret_with_data :: "nat \<Rightarrow> RetprobeBuilder \<Rightarrow> RetprobeBuilder" where
  "ret_with_data d b = b\<lparr>rb_data := rb_data b @ replicate (unat (rb_maxactive b)) d\<rparr>"

definition ret_with_event_callback :: "u32 \<Rightarrow> nat \<Rightarrow> RetprobeBuilder \<Rightarrow> RetprobeBuilder" where
  "ret_with_event_callback callback_id cb b =
     b\<lparr>rb_event_callbacks := bt_insert callback_id cb (rb_event_callbacks b)\<rparr>"

definition with_ret_handler :: "nat \<Rightarrow> RetprobeBuilder \<Rightarrow> RetprobeBuilder" where
  "with_ret_handler func b = b\<lparr>rb_ret_handler := Some func\<rparr>"

definition with_entry_handler :: "nat \<Rightarrow> RetprobeBuilder \<Rightarrow> RetprobeBuilder" where
  "with_entry_handler func b = b\<lparr>rb_entry_handler := Some func\<rparr>"

definition ret_handler :: "RetprobeBuilder \<Rightarrow> nat option \<times> nat option" where
  "ret_handler b = (rb_entry_handler b, rb_ret_handler b)"

text \<open>The loop over \<open>maxactive\<close> that pops the data of each instance.\<close>

fun new_instances :: "nat \<Rightarrow> nat list \<Rightarrow> RetprobeInstance list \<Rightarrow> RetprobeInstance list" where
  "new_instances 0 d instances = instances"
| "new_instances (Suc n) d instances =
     new_instances n (butlast d)
       (instances @ [\<lparr>ri_ret_addr = 0, ri_frame = 0, ri_user_data = (if d = [] then None else Some (last d)),
                      ri_retprobe = None\<rparr>])"

definition ProbeBuilder_from :: "RetprobeBuilder \<Rightarrow> ProbeBuilder" where
  "ProbeBuilder_from v =
     \<lparr>bd_symbol = rb_symbol v, bd_symbol_addr = rb_symbol_addr v, bd_offset = 0,
      bd_pre_handler = Some PreHandlerKretprobe, bd_post_handler = None, bd_fault_handler = None,
      bd_event_callbacks = [], bd_probe_point = None, bd_enable = rb_enable v,
      bd_data = Some (RetData \<lparr>rd_free_instances = new_instances (unat (rb_maxactive v)) (rb_data v) [], rd_retprobe = None\<rparr>),
      bd_user_pid = None\<rparr>"

lemma length_new_instances [simp]: "length (new_instances n d is) = length is + n"
  by (induction n d "is" rule: new_instances.induct) auto

section \<open>Either kind of probe\<close>

text \<open>The object behind an \<open>Arc\<close>, and \<open>UniProbe\<close> with the object it points to.\<close>

datatype probe_obj = ProbeObj Probe | RetObj Retprobe

datatype UniProbe = Kprobe nat | Kretprobe nat | Uprobe nat | Uretprobe nat

fun obj_of :: "UniProbe \<Rightarrow> nat" where
  "obj_of (Kprobe i) = i"
| "obj_of (Kretprobe i) = i"
| "obj_of (Uprobe i) = i"
| "obj_of (Uretprobe i) = i"

text \<open>\<open>PartialEq\<close>: the same kind and the same object, which is equality of \<open>UniProbe\<close>.\<close>

fun uni_eq :: "UniProbe \<Rightarrow> UniProbe \<Rightarrow> bool" where
  "uni_eq (Kprobe i) (Kprobe j) \<longleftrightarrow> i = j"
| "uni_eq (Kretprobe i) (Kretprobe j) \<longleftrightarrow> i = j"
| "uni_eq (Uprobe i) (Uprobe j) \<longleftrightarrow> i = j"
| "uni_eq (Uretprobe i) (Uretprobe j) \<longleftrightarrow> i = j"
| "uni_eq _ _ \<longleftrightarrow> False"

lemma uni_eq_iff [simp]: "uni_eq p q \<longleftrightarrow> p = q"
  by (cases p; cases q) auto

fun is_kretprobe :: "UniProbe \<Rightarrow> bool" where
  "is_kretprobe (Kretprobe _) = True"
| "is_kretprobe _ = False"

text \<open>\<open>Deref\<close>: the probe in the object.\<close>

fun obj_probe :: "probe_obj \<Rightarrow> Probe" where
  "obj_probe (ProbeObj p) = p"
| "obj_probe (RetObj r) = rp_kprobe r"

fun set_obj_probe :: "probe_obj \<Rightarrow> Probe \<Rightarrow> probe_obj" where
  "set_obj_probe (ProbeObj _) p = ProbeObj p"
| "set_obj_probe (RetObj r) p = RetObj (r\<lparr>rp_kprobe := p\<rparr>)"

lemma obj_probe_set [simp]: "obj_probe (set_obj_probe ob p) = p"
  by (cases ob) auto

end
