(* ===== verification/ProbeManager.thy ===== *)
theory ProbeManager
  imports ProbeTypes
begin

text \<open>
  Registration of probes and dispatch of their traps: \<open>kprobe/src/manager.rs\<close>,
  \<open>kprobe/src/lib.rs\<close>, \<open>kprobe/src/kprobe/mod.rs\<close>, \<open>kprobe/src/uprobe/mod.rs\<close> and the handlers of
  \<open>kprobe/src/arch/retprobe.rs\<close>. The code is compiled against one architecture; what it takes from
  there is the record \<open>arch_ops\<close>, which the theories of the architectures define.
\<close>

section \<open>The architecture\<close>

text \<open>
  For points \<open>'p\<close> and registers \<open>'r\<close>: \<open>ProbeBuilder::replace_inst\<close>, \<open>Drop\<close> of a point (with its
  executable memory), the trait \<open>KprobeOps\<close>, the program counter of the registers, the single step
  functions and the return hooks. The kernel state is passed along where memory changes.
\<close>

record ('k, 'p, 'r) arch_ops =
  ar_replace_inst :: "'k \<Rightarrow> ProbeBuilder \<Rightarrow> (ProbeInstallError, 'p) result \<times> 'k"
  ar_drop_point :: "'k \<Rightarrow> 'p \<Rightarrow> 'k"
  ar_return_address :: "'p \<Rightarrow> usize"
  ar_single_step_address :: "'p \<Rightarrow> usize"
  ar_debug_address :: "'p \<Rightarrow> usize"
  ar_break_address :: "'p \<Rightarrow> usize"
  ar_dynamic_user_ptr :: "'p \<Rightarrow> usize"
  ar_set_dynamic_user_ptr :: "'p \<Rightarrow> usize \<Rightarrow> 'p \<times> usize"
  ar_original_instruction_len :: "'p \<Rightarrow> nat"
  ar_instruction_slot_len :: "'p \<Rightarrow> nat"
  ar_pid :: "'p \<Rightarrow> space"
  ar_reg_break_address :: "'r \<Rightarrow> usize"
  ar_reg_debug_address :: "'r \<Rightarrow> usize"
  ar_setup_single_step :: "'r \<Rightarrow> usize \<Rightarrow> 'r"
  ar_clear_single_step :: "'r \<Rightarrow> usize \<Rightarrow> 'r"
  ar_rethook_prepare :: "'k \<Rightarrow> RetprobeInstance \<Rightarrow> 'r \<Rightarrow> RetprobeInstance \<times> 'r \<times> 'k"
  ar_rethook_fixup_return :: "'k \<Rightarrow> usize \<Rightarrow> usize \<Rightarrow> 'k"

section \<open>The state\<close>

text \<open>
  The kernel, the probe points and probes behind their \<open>Arc\<close>s, the handles that clients hold, the
  lists of the \<open>ProbeManager\<close> and the \<open>ProbePointList\<close>.
\<close>

record ('k, 'p) probe_sys =
  ps_kernel :: 'k
  ps_points :: "(nat \<times> 'p) list"
  ps_objs :: "(nat \<times> probe_obj) list"
  ps_next :: nat
  ps_handles :: "nat list"
  ps_break_list :: "(usize \<times> UniProbe list) list"
  ps_debug_list :: "(usize \<times> UniProbe list) list"
  ps_point_list :: "(usize \<times> nat) list"

definition ProbeManager_new :: "'k \<Rightarrow> ('k, 'p) probe_sys" where
  "ProbeManager_new k =
     \<lparr>ps_kernel = k, ps_points = [], ps_objs = [], ps_next = 0, ps_handles = [],
      ps_break_list = [], ps_debug_list = [], ps_point_list = []\<rparr>"

text \<open>\<open>UniProbe::probe_point\<close>; the object and the point behind an \<open>Arc\<close> are always there.\<close>

definition obj_point :: "('k, 'p) probe_sys \<Rightarrow> nat \<Rightarrow> nat option" where
  "obj_point S i = map_option (\<lambda>ob. pr_point (obj_probe ob)) (map_of (ps_objs S) i)"

definition probe_point :: "('k, 'p) probe_sys \<Rightarrow> UniProbe \<Rightarrow> 'p option" where
  "probe_point S u = Option.bind (obj_point S (obj_of u)) (map_of (ps_points S))"

definition list_at :: "(usize \<times> UniProbe list) list \<Rightarrow> usize \<Rightarrow> UniProbe list" where
  "list_at ls a = (case map_of ls a of Some l \<Rightarrow> l | None \<Rightarrow> [])"

section \<open>The manager\<close>

definition insert_point :: "usize \<Rightarrow> UniProbe \<Rightarrow> (usize \<times> UniProbe list) list \<Rightarrow> (usize \<times> UniProbe list) list" where
  "insert_point address probe ls = bt_insert address (list_at ls address @ [probe]) ls"

definition insert_probe :: "('k, 'p, 'r) arch_ops \<Rightarrow> ('k, 'p) probe_sys \<Rightarrow> UniProbe \<Rightarrow> ('k, 'p) probe_sys" where
  "insert_probe A S probe =
     (case probe_point S probe of
        None \<Rightarrow> S
      | Some pt \<Rightarrow>
          S\<lparr>ps_break_list := insert_point (ar_break_address A pt) probe (ps_break_list S),
            ps_debug_list := insert_point (ar_debug_address A pt) probe (ps_debug_list S)\<rparr>)"

definition get_break_list :: "('k, 'p) probe_sys \<Rightarrow> usize \<Rightarrow> UniProbe list option" where
  "get_break_list S address = map_of (ps_break_list S) address"

definition get_debug_list :: "('k, 'p) probe_sys \<Rightarrow> usize \<Rightarrow> UniProbe list option" where
  "get_debug_list S address = map_of (ps_debug_list S) address"

definition kprobe_num :: "('k, 'p) probe_sys \<Rightarrow> usize \<Rightarrow> nat" where
  "kprobe_num S address = length (list_at (ps_break_list S) address)"

definition replace_debug_list_with_new_address :: "usize \<Rightarrow> usize \<Rightarrow> ('k, 'p) probe_sys \<Rightarrow> ('k, 'p) probe_sys" where
  "replace_debug_list_with_new_address old_address new_address S =
     (case map_of (ps_debug_list S) old_address of
        None \<Rightarrow> S
      | Some l \<Rightarrow> S\<lparr>ps_debug_list := bt_insert new_address l (bt_remove old_address (ps_debug_list S))\<rparr>)"

text \<open>\<open>retain\<close>, and removal of the entry when nothing is left.\<close>

definition remove_one :: "usize \<Rightarrow> UniProbe \<Rightarrow> (usize \<times> UniProbe list) list \<Rightarrow> (usize \<times> UniProbe list) list" where
  "remove_one address probe ls =
     (let ls = (case map_of ls address of
                  Some l \<Rightarrow> bt_insert address (filter (\<lambda>x. \<not> uni_eq x probe) l) ls
                | None \<Rightarrow> ls)
      in if length (list_at ls address) = 0 then bt_remove address ls else ls)"

text \<open>
  Dropping an \<open>Arc\<close>: an object goes with its last reference, a point with the last of the point
  list's and the probes' references, and its \<open>Drop\<close> runs.
\<close>

definition listed :: "(usize \<times> UniProbe list) list \<Rightarrow> nat \<Rightarrow> bool" where
  "listed ls i \<longleftrightarrow> list_ex (\<lambda>(_, l). list_ex (\<lambda>u. obj_of u = i) l) ls"

definition release_point :: "('k, 'p, 'r) arch_ops \<Rightarrow> ('k, 'p) probe_sys \<Rightarrow> nat \<Rightarrow> ('k, 'p) probe_sys" where
  "release_point A S q =
     (if list_ex (\<lambda>(_, q'). q' = q) (ps_point_list S) \<or>
         list_ex (\<lambda>(_, ob). pr_point (obj_probe ob) = q) (ps_objs S) then S
      else case map_of (ps_points S) q of
        None \<Rightarrow> S
      | Some p \<Rightarrow> S\<lparr>ps_kernel := ar_drop_point A (ps_kernel S) p, ps_points := bt_remove q (ps_points S)\<rparr>)"

definition release_obj :: "('k, 'p, 'r) arch_ops \<Rightarrow> ('k, 'p) probe_sys \<Rightarrow> nat \<Rightarrow> ('k, 'p) probe_sys" where
  "release_obj A S i =
     (if i \<in> set (ps_handles S) \<or> listed (ps_break_list S) i \<or> listed (ps_debug_list S) i then S
      else case obj_point S i of
        None \<Rightarrow> S
      | Some q \<Rightarrow> release_point A (S\<lparr>ps_objs := bt_remove i (ps_objs S)\<rparr>) q)"

text \<open>\<open>remove_probe\<close> consumes a handle of the probe.\<close>

definition remove_probe :: "('k, 'p, 'r) arch_ops \<Rightarrow> ('k, 'p) probe_sys \<Rightarrow> UniProbe \<Rightarrow> ('k, 'p) probe_sys" where
  "remove_probe A S probe =
     (case probe_point S probe of
        None \<Rightarrow> S
      | Some pt \<Rightarrow>
          release_obj A
            (S\<lparr>ps_break_list := remove_one (ar_break_address A pt) probe (ps_break_list S),
               ps_debug_list := remove_one (ar_debug_address A pt) probe (ps_debug_list S),
               ps_handles := remove1 (obj_of probe) (ps_handles S)\<rparr>)
            (obj_of probe))"

section \<open>Registration\<close>

text \<open>\<open>ProbeBuilder::install\<close>: the point of the builder, or a new one.\<close>

definition install ::
  "('k, 'p, 'r) arch_ops \<Rightarrow> ('k, 'p) probe_sys \<Rightarrow> ProbeBuilder \<Rightarrow>
     (ProbeInstallError, Probe \<times> nat) result \<times> ('k, 'p) probe_sys" where
  "install A S b =
     (case bd_probe_point b of
        Some q \<Rightarrow> (Ok (\<lparr>pr_basic = ProbeBasic_from b, pr_point = q\<rparr>, q), S)
      | None \<Rightarrow>
          (case ar_replace_inst A (ps_kernel S) b of
             (Inl e, k) \<Rightarrow> (Err e, S\<lparr>ps_kernel := k\<rparr>)
           | (Inr p, k) \<Rightarrow>
               let q = ps_next S in
               (Ok (\<lparr>pr_basic = ProbeBasic_from b, pr_point = q\<rparr>, q),
                S\<lparr>ps_kernel := k, ps_points := bt_insert q p (ps_points S), ps_next := Suc q\<rparr>)))"

definition register_kprobe_inner ::
  "('k, 'p, 'r) arch_ops \<Rightarrow> ('k, 'p) probe_sys \<Rightarrow> ProbeBuilder \<Rightarrow>
     (ProbeInstallError, Probe) result \<times> ('k, 'p) probe_sys" where
  "register_kprobe_inner A S b =
     (let address = probe_addr b in
      case map_of (ps_point_list S) address of
        Some existed_point \<Rightarrow>
          (case install A S (with_probe_point existed_point b) of
             (Inl e, S) \<Rightarrow> (Err e, S)
           | (Inr (probe, _), S) \<Rightarrow> (Ok probe, S))
      | None \<Rightarrow>
          (case install A S b of
             (Inl e, S) \<Rightarrow> (Err e, S)
           | (Inr (probe, q), S) \<Rightarrow> (Ok probe, S\<lparr>ps_point_list := bt_insert address q (ps_point_list S)\<rparr>)))"

text \<open>\<open>Arc::new\<close>, with the handle that the client gets.\<close>

definition new_obj :: "('k, 'p) probe_sys \<Rightarrow> probe_obj \<Rightarrow> nat \<times> ('k, 'p) probe_sys" where
  "new_obj S ob =
     (let i = ps_next S in
      (i, S\<lparr>ps_objs := bt_insert i ob (ps_objs S), ps_next := Suc i, ps_handles := ps_handles S @ [i]\<rparr>))"

definition register_kprobe ::
  "('k, 'p, 'r) arch_ops \<Rightarrow> ('k, 'p) probe_sys \<Rightarrow> ProbeBuilder \<Rightarrow>
     (ProbeInstallError, nat) result \<times> ('k, 'p) probe_sys" where
  "register_kprobe A S b =
     (case register_kprobe_inner A S b of
        (Inl e, S) \<Rightarrow> (Err e, S)
      | (Inr kprobe, S) \<Rightarrow>
          let (i, S) = new_obj S (ProbeObj kprobe) in (Ok i, insert_probe A S (Kprobe i)))"

text \<open>\<open>register_kretprobe\<close>; the weak reference in the data of the probe is set to the new object.\<close>

definition register_kretprobe ::
  "('k, 'p, 'r) arch_ops \<Rightarrow> ('k, 'p) probe_sys \<Rightarrow> RetprobeBuilder \<Rightarrow>
     (panic, (ProbeInstallError, nat) result \<times> ('k, 'p) probe_sys) result" where
  "register_kretprobe A S rb =
     (let (entry_handler, ret_handler) = ret_handler rb in
      case register_kprobe_inner A S (ProbeBuilder_from rb) of
        (Inl e, S) \<Rightarrow> Ok (Err e, S)
      | (Inr kprobe, S) \<Rightarrow>
          (case pb_data (pr_basic kprobe) of
             RetData rd \<Rightarrow>
               let i = ps_next S;
                   kprobe = kprobe\<lparr>pr_basic := (pr_basic kprobe)\<lparr>pb_data := RetData (rd\<lparr>rd_retprobe := Some i\<rparr>)\<rparr>\<rparr>;
                   (i, S) = new_obj S (RetObj (Retprobe_new kprobe entry_handler ret_handler))
               in Ok (Ok i, insert_probe A S (Kretprobe i))
           | _ \<Rightarrow> Err Panic))"

definition register_uprobe ::
  "('k, 'p, 'r) arch_ops \<Rightarrow> ('k, 'p) probe_sys \<Rightarrow> ProbeBuilder \<Rightarrow>
     (panic, (ProbeInstallError, nat) result \<times> ('k, 'p) probe_sys) result" where
  "register_uprobe A S b =
     (if bd_user_pid b = None then Err Panic
      else case register_kprobe_inner A S b of
        (Inl e, S) \<Rightarrow> Ok (Err e, S)
      | (Inr uprobe, S) \<Rightarrow>
          let (i, S) = new_obj S (ProbeObj uprobe) in Ok (Ok i, insert_probe A S (Uprobe i)))"

text \<open>The three functions that unregister a probe are the same but for the kind of the probe.\<close>

definition unregister_probe :: "('k, 'p, 'r) arch_ops \<Rightarrow> ('k, 'p) probe_sys \<Rightarrow> UniProbe \<Rightarrow> ('k, 'p) probe_sys" where
  "unregister_probe A S probe =
     (case probe_point S probe of
        None \<Rightarrow> S
      | Some pt \<Rightarrow>
          let addr = ar_break_address A pt;
              S = remove_probe A S probe
          in if kprobe_num S addr = 0 then
               (case map_of (ps_point_list S) addr of
                  None \<Rightarrow> S
                | Some q \<Rightarrow> release_point A (S\<lparr>ps_point_list := bt_remove addr (ps_point_list S)\<rparr>) q)
             else S)"

definition unregister_kprobe :: "('k, 'p, 'r) arch_ops \<Rightarrow> ('k, 'p) probe_sys \<Rightarrow> nat \<Rightarrow> ('k, 'p) probe_sys" where
  "unregister_kprobe A S i = unregister_probe A S (Kprobe i)"

definition unregister_kretprobe :: "('k, 'p, 'r) arch_ops \<Rightarrow> ('k, 'p) probe_sys \<Rightarrow> nat \<Rightarrow> ('k, 'p) probe_sys" where
  "unregister_kretprobe A S i = unregister_probe A S (Kretprobe i)"

definition unregister_uprobe :: "('k, 'p, 'r) arch_ops \<Rightarrow> ('k, 'p) probe_sys \<Rightarrow> nat \<Rightarrow> ('k, 'p) probe_sys" where
  "unregister_uprobe A S i = unregister_probe A S (Uprobe i)"

text \<open>What a client does with a handle: clone it, drop it, or change the probe behind it.\<close>

definition clone_handle :: "('k, 'p) probe_sys \<Rightarrow> nat \<Rightarrow> ('k, 'p) probe_sys" where
  "clone_handle S i = S\<lparr>ps_handles := ps_handles S @ [i]\<rparr>"

definition drop_handle :: "('k, 'p, 'r) arch_ops \<Rightarrow> ('k, 'p) probe_sys \<Rightarrow> nat \<Rightarrow> ('k, 'p) probe_sys" where
  "drop_handle A S i = release_obj A (S\<lparr>ps_handles := remove1 i (ps_handles S)\<rparr>) i"

definition update_obj :: "('k, 'p) probe_sys \<Rightarrow> nat \<Rightarrow> (probe_obj \<Rightarrow> probe_obj) \<Rightarrow> ('k, 'p) probe_sys" where
  "update_obj S i f =
     (case map_of (ps_objs S) i of
        None \<Rightarrow> S
      | Some ob \<Rightarrow> S\<lparr>ps_objs := bt_insert i (f ob) (ps_objs S)\<rparr>)"

definition update_basic :: "('k, 'p) probe_sys \<Rightarrow> nat \<Rightarrow> (ProbeBasic \<Rightarrow> ProbeBasic) \<Rightarrow> ('k, 'p) probe_sys" where
  "update_basic S i f =
     update_obj S i (\<lambda>ob. set_obj_probe ob ((obj_probe ob)\<lparr>pr_basic := f (pr_basic (obj_probe ob))\<rparr>))"

end
