(* ===== verification/ProbeLaws.thy ===== *)
theory ProbeLaws
  imports ProbeManager
begin

text \<open>
  What the probe code relies on: the laws of the kernel's memory operations, and the contract that
  every architecture gives to the manager. The contract is the locale \<open>probe_arch\<close>; the manager's
  invariant is proved in it once, and each architecture interprets it.
\<close>

section \<open>Regions of memory\<close>

definition region :: "usize \<Rightarrow> nat \<Rightarrow> usize set" where
  "region a n = {x. unat (x - a) < n}"

abbreviation page :: "usize \<Rightarrow> usize set" where
  "page p \<equiv> region p 4096"

lemma region_mono: "m \<le> n \<Longrightarrow> region a m \<subseteq> region a n"
  by (auto simp: region_def)

lemma in_region: "x \<in> region a n \<longleftrightarrow> unat (x - a) < n"
  by (simp add: region_def)

lemma unat_of_nat_small: "i < 2 ^ 64 \<Longrightarrow> unat (of_nat i :: u64) = i"
  by (simp add: unat_of_nat take_bit_nat_eq_self)

lemma offset_in_region: "i < n \<Longrightarrow> i < 2 ^ 64 \<Longrightarrow> a + of_nat i \<in> region a n"
  by (simp add: region_def unat_of_nat_small)

lemma region_offset: "x \<in> region a n \<Longrightarrow> a + of_nat (unat (x - a)) = x"
  by simp

lemma length_read_bytes [simp]: "length (read_bytes F k sp a n) = n"
  by (simp add: read_bytes_def)

lemma nth_read_bytes [simp]: "i < n \<Longrightarrow> read_bytes F k sp a n ! i = mem_read F k sp (a + of_nat i)"
  by (simp add: read_bytes_def)

definition bytes_at :: "(usize \<Rightarrow> u8) \<Rightarrow> usize \<Rightarrow> nat \<Rightarrow> u8 list" where
  "bytes_at m a n = map (\<lambda>i. m (a + of_nat i)) [0..<n]"

lemma read_bytes_at: "read_bytes F k sp a n = bytes_at (mem_read F k sp) a n"
  by (simp add: read_bytes_def bytes_at_def)

lemma length_bytes_at [simp]: "length (bytes_at m a n) = n"
  by (simp add: bytes_at_def)

lemma nth_bytes_at [simp]: "i < n \<Longrightarrow> bytes_at m a n ! i = m (a + of_nat i)"
  by (simp add: bytes_at_def)

lemma take_bytes_at: "j \<le> n \<Longrightarrow> take j (bytes_at m a n) = bytes_at m a j"
  by (simp add: bytes_at_def take_map)

lemma bytes_at_cong:
  assumes "n < 2 ^ 64" "\<And>x. x \<in> region a n \<Longrightarrow> m' x = m x"
  shows "bytes_at m' a n = bytes_at m a n"
proof (rule nth_equalityI)
  fix i assume "i < length (bytes_at m' a n)"
  then show "bytes_at m' a n ! i = bytes_at m a n ! i" using assms by (simp add: offset_in_region)
qed simp

lemma read_bytes_cong:
  "(\<And>i. i < n \<Longrightarrow> mem_read F k sp (a + of_nat i) = mem_read F k' sp' (a' + of_nat i)) \<Longrightarrow>
     read_bytes F k sp a n = read_bytes F k' sp' a' n"
  by (simp add: read_bytes_def)

lemma read_bytes_prefix:
  assumes "read_bytes F k sp a (m + j) = xs @ ys" "length xs = m"
  shows "read_bytes F k sp a m = xs"
proof -
  have "read_bytes F k sp a m = take m (read_bytes F k sp a (m + j))" unfolding read_bytes_at by (simp add: take_bytes_at)
  then show ?thesis using assms by simp
qed

section \<open>The kernel\<close>

text \<open>
  \<open>pages k\<close> are the executable pages that are allocated, \<open>heap\<close> is the part of an address space
  they come from. While the kernel has room, an allocation returns a fresh page, whose addresses no
  other page has in any address space, and changes nothing else; freeing a page changes nothing
  outside it. Whether there is room depends on the allocated pages.
\<close>

definition fresh_page ::
  "'k aux_ops \<Rightarrow> ('k \<Rightarrow> (space \<times> usize) set) \<Rightarrow> (space \<Rightarrow> usize set) \<Rightarrow> 'k \<Rightarrow> space \<Rightarrow> usize \<times> 'k \<Rightarrow> bool" where
  "fresh_page F pages heap k sp = (\<lambda>(p, k').
     p \<noteq> 0 \<and> page p \<subseteq> heap sp \<and> (sp, p) \<notin> pages k \<and> (\<forall>s q. (s, q) \<in> pages k \<longrightarrow> page q \<inter> page p = {}) \<and>
     pages k' = insert (sp, p) (pages k) \<and>
     (\<forall>s x. \<not> (s = sp \<and> x \<in> page p) \<longrightarrow> mem_read F k' s x = mem_read F k s x))"

definition freed_page ::
  "'k aux_ops \<Rightarrow> ('k \<Rightarrow> (space \<times> usize) set) \<Rightarrow> 'k \<Rightarrow> space \<Rightarrow> usize \<Rightarrow> 'k \<Rightarrow> bool" where
  "freed_page F pages k sp p k' \<longleftrightarrow>
     pages k' = pages k - {(sp, p)} \<and> (\<forall>s x. \<not> (s = sp \<and> x \<in> page p) \<longrightarrow> mem_read F k' s x = mem_read F k s x)"

definition room_by_pages :: "('k \<Rightarrow> (space \<times> usize) set) \<Rightarrow> ('k \<Rightarrow> bool) \<Rightarrow> bool" where
  "room_by_pages pages room \<longleftrightarrow> (\<forall>k k'. pages k' = pages k \<longrightarrow> room k \<longrightarrow> room k')"

definition aux_laws ::
  "'k aux_ops \<Rightarrow> ('k \<Rightarrow> (space \<times> usize) set) \<Rightarrow> (space \<Rightarrow> usize set) \<Rightarrow> ('k \<Rightarrow> bool) \<Rightarrow> bool" where
  "aux_laws F pages heap room \<longleftrightarrow>
     (\<forall>k sp a bs s x. mem_read F (mem_write F k sp a bs) s x =
        (if s = sp \<and> unat (x - a) < length bs then bs ! unat (x - a) else mem_read F k s x)) \<and>
     (\<forall>k sp a bs. pages (mem_write F k sp a bs) = pages k) \<and>
     (\<forall>k. room k \<longrightarrow> fresh_page F pages heap k None (alloc_kernel F k)) \<and>
     (\<forall>k. room k \<longrightarrow> fresh_page F pages heap k None (alloc_box F k)) \<and>
     (\<forall>k p. freed_page F pages k None p (free_kernel F k p)) \<and>
     (\<forall>k p. freed_page F pages k None p (free_box F k p)) \<and>
     (\<forall>k sp bs. room k \<longrightarrow> fresh_page F pages heap k sp (alloc_user F k sp bs) \<and>
        (length bs \<le> 4096 \<longrightarrow>
          read_bytes F (snd (alloc_user F k sp bs)) sp (fst (alloc_user F k sp bs)) (length bs) = bs)) \<and>
     (\<forall>k sp p. freed_page F pages k sp p (free_user F k sp p)) \<and>
     room_by_pages pages room"

text \<open>The instances of the tasks are kept apart from the memory that probes see.\<close>

definition task_laws :: "'k aux_ops \<Rightarrow> ('k \<Rightarrow> (space \<times> usize) set) \<Rightarrow> bool" where
  "task_laws F pages \<longleftrightarrow>
     (\<forall>k i. pop_instance F (push_instance F k i) = Some (i, k)) \<and>
     (\<forall>k i. pages (push_instance F k i) = pages k \<and> mem_read F (push_instance F k i) = mem_read F k) \<and>
     (\<forall>k i k'. pop_instance F k = Some (i, k') \<longrightarrow> pages k' = pages k \<and> mem_read F k' = mem_read F k)"

lemma fresh_outside: "fresh_page F pages heap k sp (p, k') \<Longrightarrow> x \<notin> heap s \<Longrightarrow> mem_read F k' s x = mem_read F k s x"
proof -
  assume fresh: "fresh_page F pages heap k sp (p, k')" and "x \<notin> heap s"
  then have "\<not> (s = sp \<and> x \<in> page p)" by (auto simp: fresh_page_def)
  with fresh show ?thesis by (simp add: fresh_page_def)
qed

lemma aux_write:
  "aux_laws F pages heap room \<Longrightarrow>
     mem_read F (mem_write F k sp a bs) s x =
       (if s = sp \<and> x \<in> region a (length bs) then bs ! unat (x - a) else mem_read F k s x)"
  by (simp add: aux_laws_def in_region)

lemma aux_write_pages: "aux_laws F pages heap room \<Longrightarrow> pages (mem_write F k sp a bs) = pages k"
  by (simp add: aux_laws_def)

lemma aux_alloc_exec:
  assumes "aux_laws F pages heap room" "room k" "alloc_exec_memory F k sp = (t, k')"
  shows "fresh_page F pages heap k None (as_ptr t, k')"
proof -
  have "fresh_page F pages heap k None (alloc_box F k)" "fresh_page F pages heap k None (alloc_kernel F k)"
    using assms(1,2) by (simp_all add: aux_laws_def)
  then show ?thesis using assms(3) by (auto simp: alloc_exec_memory_def split: if_splits prod.splits)
qed

lemma aux_drop_exec:
  "aux_laws F pages heap room \<Longrightarrow> freed_page F pages k None (as_ptr t) (drop_exec_memory F k t)"
  by (cases t) (auto simp: aux_laws_def)

lemma aux_free_user: "aux_laws F pages heap room \<Longrightarrow> freed_page F pages k sp p (free_user F k sp p)"
  by (simp add: aux_laws_def)

lemma aux_alloc_user:
  assumes "aux_laws F pages heap room" "room k" "alloc_user F k sp bs = (p, k')"
  shows "fresh_page F pages heap k sp (p, k')" "length bs \<le> 4096 \<Longrightarrow> read_bytes F k' sp p (length bs) = bs"
proof -
  have "fresh_page F pages heap k sp (alloc_user F k sp bs)"
    "length bs \<le> 4096 \<longrightarrow> read_bytes F (snd (alloc_user F k sp bs)) sp (fst (alloc_user F k sp bs)) (length bs) = bs"
    using assms(1,2) by (simp_all add: aux_laws_def)
  then show "fresh_page F pages heap k sp (p, k')" "length bs \<le> 4096 \<Longrightarrow> read_bytes F k' sp p (length bs) = bs"
    using assms(3) by simp_all
qed

lemma aux_room: "aux_laws F pages heap room \<Longrightarrow> pages k' = pages k \<Longrightarrow> room k \<Longrightarrow> room k'"
  unfolding aux_laws_def room_by_pages_def by metis

section \<open>The contract of an architecture\<close>

text \<open>
  \<open>ilen m a\<close> is the length of the instruction at \<open>a\<close> when a probe can be installed there, \<open>patch n\<close>
  are the bytes that replace the beginning of an instruction of length \<open>n\<close>, \<open>trail n\<close> is the
  breakpoint behind an instruction of length \<open>n\<close> in its slot, if the architecture needs one, and
  \<open>saved k p\<close> are the bytes that dropping a point writes back.
\<close>

text \<open>The allocated pages lie in the heap and share no address, in whatever address spaces they are.\<close>

definition pages_ok :: "('k \<Rightarrow> (space \<times> usize) set) \<Rightarrow> (space \<Rightarrow> usize set) \<Rightarrow> 'k \<Rightarrow> bool" where
  "pages_ok pages heap k \<longleftrightarrow>
     (\<forall>s q. (s, q) \<in> pages k \<longrightarrow> page q \<subseteq> heap s) \<and>
     (\<forall>s q s' q'. (s, q) \<in> pages k \<longrightarrow> (s', q') \<in> pages k \<longrightarrow> (s, q) \<noteq> (s', q') \<longrightarrow> page q \<inter> page q' = {})"

lemma pages_ok_heap: "pages_ok pages heap k \<Longrightarrow> (s, q) \<in> pages k \<Longrightarrow> page q \<subseteq> heap s"
  by (simp add: pages_ok_def)

lemma pages_ok_apart:
  "pages_ok pages heap k \<Longrightarrow> (s, q) \<in> pages k \<Longrightarrow> (s', q') \<in> pages k \<Longrightarrow> (s, q) \<noteq> (s', q') \<Longrightarrow> page q \<inter> page q' = {}"
  unfolding pages_ok_def by metis

lemma pages_ok_fresh: "pages_ok pages heap k \<Longrightarrow> fresh_page F pages heap k sp (p, k') \<Longrightarrow> pages_ok pages heap k'"
  unfolding pages_ok_def fresh_page_def by (auto simp: Int_commute)

text \<open>The pages of a point: its slot, and the copy of the slot in its process when there is one.\<close>

definition slot_pages :: "('k, 'p, 'r) arch_ops \<Rightarrow> 'p \<Rightarrow> (space \<times> usize) set" where
  "slot_pages A p =
     {(None, ar_single_step_address A p)} \<union>
     (if ar_dynamic_user_ptr A p \<noteq> 0 then {(ar_pid A p, ar_dynamic_user_ptr A p)} else {})"

text \<open>What may change outside the heap, and in the pages that stay allocated.\<close>

definition frame ::
  "'k aux_ops \<Rightarrow> ('k \<Rightarrow> (space \<times> usize) set) \<Rightarrow> (space \<Rightarrow> usize set) \<Rightarrow> 'k \<Rightarrow> 'k \<Rightarrow> (space \<Rightarrow> usize \<Rightarrow> u8) \<Rightarrow> bool" where
  "frame F pages heap k k' m \<longleftrightarrow>
     (\<forall>s x. x \<notin> heap s \<longrightarrow> mem_read F k' s x = m s x) \<and>
     (\<forall>s q x. (s, q) \<in> pages k \<inter> pages k' \<longrightarrow> x \<in> page q \<longrightarrow> mem_read F k' s x = mem_read F k s x)"

definition overwrite :: "(space \<Rightarrow> usize \<Rightarrow> u8) \<Rightarrow> space \<Rightarrow> usize \<Rightarrow> u8 list \<Rightarrow> space \<Rightarrow> usize \<Rightarrow> u8" where
  "overwrite m sp a bs = (\<lambda>s x. if s = sp \<and> x \<in> region a (length bs) then bs ! unat (x - a) else m s x)"

section \<open>Facts that the architectures share\<close>

lemma region_shift:
  assumes "unat d + m \<le> n"
  shows "region (a + d) m \<subseteq> region a n"
proof
  fix x assume "x \<in> region (a + d) m"
  then have x: "unat (x - (a + d)) < m" by (simp add: region_def)
  have "x - a = (x - (a + d)) + d" by simp
  then have "unat (x - a) \<le> unat (x - (a + d)) + unat d" by (metis unat_word_ariths(1) mod_less_eq_dividend)
  then show "x \<in> region a n" using x assms by (simp add: region_def)
qed

text \<open>A probe that is refused has allocated a slot, written there, and freed it.\<close>

lemma refused_frame:
  assumes aux: "aux_laws F pages heap room" and ok: "pages_ok pages heap k"
    and fresh: "fresh_page F pages heap k None (as_ptr t, k1)"
    and k2: "pages k2 = pages k1" "\<And>s x. \<not> (s = None \<and> x \<in> page (as_ptr t)) \<Longrightarrow> mem_read F k2 s x = mem_read F k1 s x"
  shows "pages (drop_exec_memory F k2 t) = pages k" "frame F pages heap k (drop_exec_memory F k2 t) (mem_read F k)"
proof -
  have freed: "freed_page F pages k2 None (as_ptr t) (drop_exec_memory F k2 t)" by (rule aux_drop_exec [OF aux])
  then show "pages (drop_exec_memory F k2 t) = pages k" using fresh k2(1) by (auto simp: freed_page_def fresh_page_def)
  have same: "mem_read F (drop_exec_memory F k2 t) s x = mem_read F k s x" if "\<not> (s = None \<and> x \<in> page (as_ptr t))" for s x
    using that freed k2(2) fresh by (auto simp: freed_page_def fresh_page_def)
  show "frame F pages heap k (drop_exec_memory F k2 t) (mem_read F k)"
    unfolding frame_def
  proof (intro conjI allI impI)
    fix s x assume "x \<notin> heap s"
    then show "mem_read F (drop_exec_memory F k2 t) s x = mem_read F k s x"
      using fresh by (intro same) (auto simp: fresh_page_def)
  next
    fix s q x assume "(s, q) \<in> pages k \<inter> pages (drop_exec_memory F k2 t)" "x \<in> page q"
    then show "mem_read F (drop_exec_memory F k2 t) s x = mem_read F k s x"
      using fresh by (intro same) (auto simp: fresh_page_def)
  qed
qed

text \<open>A probe that is accepted writes its patch and its slot.\<close>

lemma accepted_frame:
  assumes ok: "pages_ok pages heap k"
    and fresh: "fresh_page F pages heap k None (p, k1)"
    and k2: "pages k2 = pages k1"
      "\<And>s x. \<not> (s = None \<and> x \<in> page p) \<Longrightarrow> mem_read F k2 s x = overwrite (mem_read F k1) sp a bs s x"
    and out: "region a (length bs) \<inter> heap sp = {}"
  shows "(None, p) \<notin> pages k \<and> pages k2 = insert (None, p) (pages k) \<and> pages_ok pages heap k2 \<and>
    frame F pages heap k k2 (overwrite (mem_read F k) sp a bs)"
proof (intro conjI)
  show "(None, p) \<notin> pages k" using fresh by (simp add: fresh_page_def)
  show pg: "pages k2 = insert (None, p) (pages k)" using fresh k2(1) by (simp add: fresh_page_def)
  show "pages_ok pages heap k2"
    using ok fresh unfolding pages_ok_def pg fresh_page_def by (auto simp: Int_commute)
  have same: "mem_read F k2 s x = overwrite (mem_read F k) sp a bs s x" if "\<not> (s = None \<and> x \<in> page p)" for s x
    using that k2(2) fresh by (auto simp: fresh_page_def overwrite_def)
  show "frame F pages heap k k2 (overwrite (mem_read F k) sp a bs)"
    unfolding frame_def
  proof (intro conjI allI impI)
    fix s x assume "x \<notin> heap s"
    then show "mem_read F k2 s x = overwrite (mem_read F k) sp a bs s x"
      using fresh by (intro same) (auto simp: fresh_page_def)
  next
    fix s q x assume q: "(s, q) \<in> pages k \<inter> pages k2" "x \<in> page q"
    then have "x \<in> heap s" using ok by (auto simp: pages_ok_def)
    then have "overwrite (mem_read F k) sp a bs s x = mem_read F k s x" using out by (auto simp: overwrite_def)
    moreover have "\<not> (s = None \<and> x \<in> page p)" using q fresh by (auto simp: fresh_page_def)
    ultimately show "mem_read F k2 s x = mem_read F k s x" using same by simp
  qed
qed

text \<open>Dropping a point writes the saved bytes back and frees its pages.\<close>

lemma dropped_frame:
  assumes aux: "aux_laws F pages heap room" and ok: "pages_ok pages heap k" and slot: "(None, as_ptr t) \<in> pages k"
    and user: "d \<noteq> 0 \<Longrightarrow> (sp, d) \<in> pages k" and out: "region a (length bs) \<inter> heap sp = {}"
    and k': "k' = drop_exec_memory F
      (if d \<noteq> 0 then free_user F (mem_write F k sp a bs) sp d else mem_write F k sp a bs) t"
  shows "pages k' = pages k - ({(None, as_ptr t)} \<union> (if d \<noteq> 0 then {(sp, d)} else {})) \<and>
    frame F pages heap k k' (overwrite (mem_read F k) sp a bs)"
proof
  let ?w = "mem_write F k sp a bs"
  let ?u = "if d \<noteq> 0 then free_user F ?w sp d else ?w"
  have freed: "freed_page F pages ?u None (as_ptr t) k'" unfolding k' by (rule aux_drop_exec [OF aux])
  have u: "pages ?u = pages k - (if d \<noteq> 0 then {(sp, d)} else {})"
    "\<not> (d \<noteq> 0 \<and> s = sp \<and> x \<in> page d) \<Longrightarrow> mem_read F ?u s x = mem_read F ?w s x" for s x
    using aux_free_user [OF aux, of ?w sp d] by (auto simp: freed_page_def aux_write_pages [OF aux])
  show pg: "pages k' = pages k - ({(None, as_ptr t)} \<union> (if d \<noteq> 0 then {(sp, d)} else {}))"
    using freed u(1) by (auto simp: freed_page_def)
  have same: "mem_read F k' s x = overwrite (mem_read F k) sp a bs s x"
    if "\<not> (s = None \<and> x \<in> page (as_ptr t))" "\<not> (d \<noteq> 0 \<and> s = sp \<and> x \<in> page d)" for s x
  proof -
    have "mem_read F k' s x = mem_read F ?u s x" using that(1) freed unfolding freed_page_def by blast
    then show ?thesis unfolding u(2) [OF that(2)] by (simp add: aux_write [OF aux] overwrite_def)
  qed
  show "frame F pages heap k k' (overwrite (mem_read F k) sp a bs)"
    unfolding frame_def
  proof (intro conjI allI impI)
    fix s x assume "x \<notin> heap s"
    then show "mem_read F k' s x = overwrite (mem_read F k) sp a bs s x"
      using pages_ok_heap [OF ok slot] pages_ok_heap [OF ok user] by (intro same) auto
  next
    fix s q x assume q: "(s, q) \<in> pages k \<inter> pages k'" "x \<in> page q"
    then have "x \<in> heap s" using pages_ok_heap [OF ok] by blast
    then have "overwrite (mem_read F k) sp a bs s x = mem_read F k s x" using out by (auto simp: overwrite_def)
    moreover have "\<not> (s = None \<and> x \<in> page (as_ptr t))"
      using q(1) unfolding pg by (intro notI) (use q(2) pages_ok_apart [OF ok slot, of s q] in blast)
    moreover have "\<not> (d \<noteq> 0 \<and> s = sp \<and> x \<in> page d)"
      using q(1) unfolding pg by (intro notI) (use q(2) pages_ok_apart [OF ok user, of s q] in force)
    ultimately show "mem_read F k' s x = mem_read F k s x" using same by simp
  qed
qed

lemma dropped_point:
  assumes "aux_laws F pages heap room" "pages_ok pages heap k" "slot_pages A p \<subseteq> pages k" "ar_single_step_address A p = as_ptr t"
    "region a (length bs) \<inter> heap (ar_pid A p) = {}"
    "k' = drop_exec_memory F
      (if ar_dynamic_user_ptr A p \<noteq> 0
       then free_user F (mem_write F k (ar_pid A p) a bs) (ar_pid A p) (ar_dynamic_user_ptr A p)
       else mem_write F k (ar_pid A p) a bs) t"
  shows "pages k' = pages k - slot_pages A p \<and> frame F pages heap k k' (overwrite (mem_read F k) (ar_pid A p) a bs)"
  using dropped_frame [OF assms(1,2) _ _ assms(5,6)] assms(3,4) by (auto simp: slot_pages_def)

section \<open>The interface\<close>

locale probe_arch =
  fixes F :: "'k aux_ops"
    and A :: "('k, 'p, 'r) arch_ops"
    and pages :: "'k \<Rightarrow> (space \<times> usize) set"
    and heap :: "space \<Rightarrow> usize set"
    and room :: "'k \<Rightarrow> bool"
    and ilen :: "(usize \<Rightarrow> u8) \<Rightarrow> usize \<Rightarrow> nat option"
    and patch :: "nat \<Rightarrow> u8 list"
    and trail :: "nat \<Rightarrow> u8 list"
    and saved :: "'k \<Rightarrow> 'p \<Rightarrow> u8 list"
  assumes ilen_bounds: "ilen m a = Some n \<Longrightarrow> 0 < n \<and> n \<le> 15"
    and ilen_prefix: "ilen m a = Some n \<Longrightarrow> (\<And>x. x \<in> region a n \<Longrightarrow> m' x = m x) \<Longrightarrow> ilen m' a = Some n"
    and patch_len: "ilen m a = Some n \<Longrightarrow> 0 < length (patch n) \<and> length (patch n) \<le> n"
    and patch_refused: "ilen m a = Some n \<Longrightarrow>
      (\<And>x. x \<in> region a (length (patch n)) \<Longrightarrow> m' x = patch n ! unat (x - a)) \<Longrightarrow> ilen m' a = None"
    and return_address: "ar_return_address A p = ar_break_address A p + of_nat (ar_original_instruction_len A p)"
    and debug_address: "ar_debug_address A p =
      (if ar_dynamic_user_ptr A p \<noteq> 0 then ar_dynamic_user_ptr A p else ar_single_step_address A p) +
        of_nat (ar_original_instruction_len A p)"
    and slot_len: "ar_instruction_slot_len A p =
      ar_original_instruction_len A p + length (trail (ar_original_instruction_len A p))"
    and trail_len: "length (trail n) \<le> 15"
    and set_user: "ar_set_dynamic_user_ptr A p ptr = (p', d) \<Longrightarrow>
      ar_break_address A p' = ar_break_address A p \<and> ar_original_instruction_len A p' = ar_original_instruction_len A p \<and>
      ar_pid A p' = ar_pid A p \<and> ar_single_step_address A p' = ar_single_step_address A p \<and>
      ar_dynamic_user_ptr A p' = ptr \<and> (\<forall>k. saved k p' = saved k p) \<and>
      d = ptr + of_nat (ar_original_instruction_len A p)"
    and replace_refused: "ar_replace_inst A k b = (r, k') \<Longrightarrow> pages_ok pages heap k \<Longrightarrow> room k \<Longrightarrow>
      region (probe_addr b) 15 \<inter> heap (bd_user_pid b) = {} \<Longrightarrow>
      ilen (mem_read F k (bd_user_pid b)) (probe_addr b) = None \<Longrightarrow>
      (\<exists>e. r = Err e) \<and> pages k' = pages k \<and> frame F pages heap k k' (mem_read F k)"
    and replace_accepted: "ar_replace_inst A k b = (r, k') \<Longrightarrow> pages_ok pages heap k \<Longrightarrow> room k \<Longrightarrow>
      region (probe_addr b) 15 \<inter> heap (bd_user_pid b) = {} \<Longrightarrow>
      ilen (mem_read F k (bd_user_pid b)) (probe_addr b) = Some n \<Longrightarrow>
      \<exists>p. r = Ok p \<and> ar_break_address A p = probe_addr b \<and> ar_original_instruction_len A p = n \<and>
        ar_pid A p = bd_user_pid b \<and> ar_dynamic_user_ptr A p = 0 \<and>
        (None, ar_single_step_address A p) \<notin> pages k \<and>
        pages k' = insert (None, ar_single_step_address A p) (pages k) \<and>
        pages_ok pages heap k' \<and>
        frame F pages heap k k' (overwrite (mem_read F k) (bd_user_pid b) (probe_addr b) (patch n)) \<and>
        saved k' p = read_bytes F k (bd_user_pid b) (probe_addr b) n \<and>
        read_bytes F k' None (ar_single_step_address A p) (n + length (trail n)) =
          read_bytes F k (bd_user_pid b) (probe_addr b) n @ trail n"
    and drop_point: "slot_pages A p \<subseteq> pages k \<Longrightarrow> pages_ok pages heap k \<Longrightarrow>
      region (ar_break_address A p) 15 \<inter> heap (ar_pid A p) = {} \<Longrightarrow> ar_original_instruction_len A p \<le> 15 \<Longrightarrow>
      pages (ar_drop_point A k p) = pages k - slot_pages A p \<and>
      frame F pages heap k (ar_drop_point A k p)
        (overwrite (mem_read F k) (ar_pid A p) (ar_break_address A p) (saved k p))"
    and saved_stable: "ar_original_instruction_len A p \<le> 15 \<Longrightarrow>
      (\<And>x. x \<in> page (ar_single_step_address A p) \<Longrightarrow> mem_read F k' None x = mem_read F k None x) \<Longrightarrow>
      saved k' p = saved k p"
    and saved_len: "length (saved k p) = ar_original_instruction_len A p"
begin

end

end
