(* ===== verification/ProbeInv.thy ===== *)
theory ProbeInv
  imports ProbeLaws
begin

text \<open>
  The invariant of the probe manager over any architecture with the contract \<open>probe_arch\<close>: the
  memory is the original one with a breakpoint at every live probe point, and the lists of the
  manager, the point list and the references between the objects agree.
\<close>

section \<open>Memory and probe points\<close>

text \<open>
  \<open>sites\<close> are the places where clients probe: instructions of the original memory \<open>m0\<close> that can be
  probed, outside of every heap, and not overlapping each other. The code tells them apart by their
  address alone, so an address is a site in one address space at most.
\<close>

definition sites_ok ::
  "(space \<Rightarrow> usize set) \<Rightarrow> ((usize \<Rightarrow> u8) \<Rightarrow> usize \<Rightarrow> nat option) \<Rightarrow> (space \<Rightarrow> usize \<Rightarrow> u8) \<Rightarrow> (space \<times> usize) set \<Rightarrow> bool" where
  "sites_ok heap ilen m0 sites \<longleftrightarrow>
     (\<forall>sp a. (sp, a) \<in> sites \<longrightarrow> (\<forall>s. region a 15 \<inter> heap s = {}) \<and> ilen (m0 sp) a \<noteq> None) \<and>
     (\<forall>sp sp' a. (sp, a) \<in> sites \<longrightarrow> (sp', a) \<in> sites \<longrightarrow> sp = sp') \<and>
     (\<forall>sp a b n n'. (sp, a) \<in> sites \<longrightarrow> (sp, b) \<in> sites \<longrightarrow> a \<noteq> b \<longrightarrow> ilen (m0 sp) a = Some n \<longrightarrow>
        ilen (m0 sp) b = Some n' \<longrightarrow> region a n \<inter> region b n' = {})"

text \<open>The memory \<open>m\<close> outside the heap is \<open>m0\<close> with the breakpoints of the points \<open>pts\<close>.\<close>

definition armed ::
  "('k, 'p, 'r) arch_ops \<Rightarrow> (nat \<Rightarrow> u8 list) \<Rightarrow> (space \<Rightarrow> usize set) \<Rightarrow> (space \<Rightarrow> usize \<Rightarrow> u8) \<Rightarrow>
     (nat \<rightharpoonup> 'p) \<Rightarrow> (space \<Rightarrow> usize \<Rightarrow> u8) \<Rightarrow> bool" where
  "armed A patch heap m0 pts m \<longleftrightarrow>
     (\<forall>sp x. x \<notin> heap sp \<longrightarrow>
        (\<forall>q p. pts q = Some p \<longrightarrow> ar_pid A p = sp \<longrightarrow>
           x \<in> region (ar_break_address A p) (length (patch (ar_original_instruction_len A p))) \<longrightarrow>
           m sp x = patch (ar_original_instruction_len A p) ! unat (x - ar_break_address A p)) \<and>
        ((\<forall>q p. pts q = Some p \<longrightarrow> ar_pid A p = sp \<longrightarrow>
           x \<notin> region (ar_break_address A p) (length (patch (ar_original_instruction_len A p)))) \<longrightarrow>
           m sp x = m0 sp x))"

lemma armed_at:
  "armed A patch heap m0 pts m \<Longrightarrow> x \<notin> heap (ar_pid A p) \<Longrightarrow> pts q = Some p \<Longrightarrow>
     x \<in> region (ar_break_address A p) (length (patch (ar_original_instruction_len A p))) \<Longrightarrow>
     m (ar_pid A p) x = patch (ar_original_instruction_len A p) ! unat (x - ar_break_address A p)"
  unfolding armed_def by blast

lemma armed_rest:
  "armed A patch heap m0 pts m \<Longrightarrow> x \<notin> heap sp \<Longrightarrow>
     (\<And>q p. pts q = Some p \<Longrightarrow> ar_pid A p = sp \<Longrightarrow>
        x \<notin> region (ar_break_address A p) (length (patch (ar_original_instruction_len A p)))) \<Longrightarrow>
     m sp x = m0 sp x"
  unfolding armed_def by blast

text \<open>
  A live point: its site, and the original instruction in its slot, in the copy of the slot in its
  process, and in its saved bytes.
\<close>

definition slot_bytes ::
  "'k aux_ops \<Rightarrow> ('k, 'p, 'r) arch_ops \<Rightarrow> (nat \<Rightarrow> u8 list) \<Rightarrow> 'k \<Rightarrow> 'p \<Rightarrow> u8 list" where
  "slot_bytes F A trail k0 p =
     read_bytes F k0 (ar_pid A p) (ar_break_address A p) (ar_original_instruction_len A p) @
     trail (ar_original_instruction_len A p)"

definition point_inv ::
  "'k aux_ops \<Rightarrow> ('k, 'p, 'r) arch_ops \<Rightarrow> ('k \<Rightarrow> (space \<times> usize) set) \<Rightarrow>
     ((usize \<Rightarrow> u8) \<Rightarrow> usize \<Rightarrow> nat option) \<Rightarrow> (nat \<Rightarrow> u8 list) \<Rightarrow> ('k \<Rightarrow> 'p \<Rightarrow> u8 list) \<Rightarrow>
     (space \<times> usize) set \<Rightarrow> 'k \<Rightarrow> 'k \<Rightarrow> 'p \<Rightarrow> bool" where
  "point_inv F A pages ilen trail saved sites k0 k p \<longleftrightarrow>
     (ar_pid A p, ar_break_address A p) \<in> sites \<and>
     ilen (mem_read F k0 (ar_pid A p)) (ar_break_address A p) = Some (ar_original_instruction_len A p) \<and>
     (ar_dynamic_user_ptr A p \<noteq> 0 \<longrightarrow> ar_pid A p \<noteq> None) \<and> slot_pages A p \<inter> pages k0 = {} \<and>
     saved k p = read_bytes F k0 (ar_pid A p) (ar_break_address A p) (ar_original_instruction_len A p) \<and>
     read_bytes F k None (ar_single_step_address A p) (ar_instruction_slot_len A p) = slot_bytes F A trail k0 p \<and>
     (ar_dynamic_user_ptr A p \<noteq> 0 \<longrightarrow>
        read_bytes F k (ar_pid A p) (ar_dynamic_user_ptr A p) (ar_instruction_slot_len A p) = slot_bytes F A trail k0 p)"

definition mem_inv ::
  "'k aux_ops \<Rightarrow> ('k, 'p, 'r) arch_ops \<Rightarrow> ('k \<Rightarrow> (space \<times> usize) set) \<Rightarrow> (space \<Rightarrow> usize set) \<Rightarrow>
     ((usize \<Rightarrow> u8) \<Rightarrow> usize \<Rightarrow> nat option) \<Rightarrow> (nat \<Rightarrow> u8 list) \<Rightarrow> (nat \<Rightarrow> u8 list) \<Rightarrow> ('k \<Rightarrow> 'p \<Rightarrow> u8 list) \<Rightarrow>
     (space \<times> usize) set \<Rightarrow> 'k \<Rightarrow> 'k \<Rightarrow> (nat \<rightharpoonup> 'p) \<Rightarrow> bool" where
  "mem_inv F A pages heap ilen patch trail saved sites k0 k pts \<longleftrightarrow>
     pages_ok pages heap k \<and>
     pages k = pages k0 \<union> \<Union> (slot_pages A ` ran pts) \<and>
     armed A patch heap (mem_read F k0) pts (mem_read F k) \<and>
     (\<forall>q p. pts q = Some p \<longrightarrow> point_inv F A pages ilen trail saved sites k0 k p) \<and>
     (\<forall>q q' p p'. pts q = Some p \<longrightarrow> pts q' = Some p' \<longrightarrow> q \<noteq> q' \<longrightarrow>
        slot_pages A p \<inter> slot_pages A p' = {} \<and>
        (ar_pid A p, ar_break_address A p) \<noteq> (ar_pid A p', ar_break_address A p'))"

lemma slot_in_pages [simp]: "(None, ar_single_step_address A p) \<in> slot_pages A p"
  by (simp add: slot_pages_def)

lemma user_in_pages: "ar_dynamic_user_ptr A p \<noteq> 0 \<Longrightarrow> (ar_pid A p, ar_dynamic_user_ptr A p) \<in> slot_pages A p"
  by (simp add: slot_pages_def)

context probe_arch
begin

abbreviation minv :: "(space \<times> usize) set \<Rightarrow> 'k \<Rightarrow> 'k \<Rightarrow> (nat \<rightharpoonup> 'p) \<Rightarrow> bool" where
  "minv \<equiv> mem_inv F A pages heap ilen patch trail saved"

abbreviation pinv :: "(space \<times> usize) set \<Rightarrow> 'k \<Rightarrow> 'k \<Rightarrow> 'p \<Rightarrow> bool" where
  "pinv \<equiv> point_inv F A pages ilen trail saved"

lemma minv_parts:
  assumes "minv sites k0 k pts"
  shows "pages_ok pages heap k" "pages k = pages k0 \<union> \<Union> (slot_pages A ` ran pts)"
    "armed A patch heap (mem_read F k0) pts (mem_read F k)"
  using assms by (simp_all add: mem_inv_def)

lemma minv_pinv: "minv sites k0 k pts \<Longrightarrow> pts q = Some p \<Longrightarrow> pinv sites k0 k p"
  by (simp add: mem_inv_def)

lemma minv_point:
  assumes "minv sites k0 k pts" "pts q = Some p"
  shows "(ar_pid A p, ar_break_address A p) \<in> sites"
    "ilen (mem_read F k0 (ar_pid A p)) (ar_break_address A p) = Some (ar_original_instruction_len A p)"
    "ar_dynamic_user_ptr A p \<noteq> 0 \<Longrightarrow> ar_pid A p \<noteq> None" "slot_pages A p \<subseteq> pages k"
    "slot_pages A p \<inter> pages k0 = {}"
    "saved k p = read_bytes F k0 (ar_pid A p) (ar_break_address A p) (ar_original_instruction_len A p)"
    "0 < ar_original_instruction_len A p" "ar_original_instruction_len A p \<le> 15"
proof -
  note inv = minv_pinv [OF assms]
  then show len: "ilen (mem_read F k0 (ar_pid A p)) (ar_break_address A p) = Some (ar_original_instruction_len A p)"
    by (simp add: point_inv_def)
  from ilen_bounds [OF len] show "0 < ar_original_instruction_len A p" "ar_original_instruction_len A p \<le> 15" by auto
  have "p \<in> ran pts" by (rule ranI) (rule assms(2))
  then show "slot_pages A p \<subseteq> pages k" unfolding minv_parts(2) [OF assms(1)] by blast
qed (use minv_pinv [OF assms] in \<open>simp_all add: point_inv_def\<close>)

lemma minv_distinct:
  assumes "minv sites k0 k pts" "pts q = Some p" "pts q' = Some p'" "q \<noteq> q'"
  shows "slot_pages A p \<inter> slot_pages A p' = {} \<and>
    (ar_pid A p, ar_break_address A p) \<noteq> (ar_pid A p', ar_break_address A p')"
  using assms unfolding mem_inv_def by meson

lemma slot_len_page: "ar_original_instruction_len A p \<le> 15 \<Longrightarrow> ar_instruction_slot_len A p \<le> 4096"
  using trail_len [of "ar_original_instruction_len A p"] by (simp add: slot_len)

text \<open>A change that respects the pages keeps slots, their copies and saved bytes.\<close>

lemma page_kept:
  assumes "frame F pages heap k k' m" "(s, q) \<in> pages k \<inter> pages k'" "n \<le> 4096"
  shows "read_bytes F k' s q n = read_bytes F k s q n"
proof -
  have "mem_read F k' s x = mem_read F k s x" if "x \<in> region q n" for x
    using assms(1,2) region_mono [OF assms(3), of q] that unfolding frame_def by blast
  then show ?thesis unfolding read_bytes_at using assms(3) by (intro bytes_at_cong) auto
qed

lemma pinv_kept:
  assumes fr: "frame F pages heap k k' m" and inv: "pinv sites k0 k p" and pg: "slot_pages A p \<subseteq> pages k \<inter> pages k'"
  shows "pinv sites k0 k' p"
proof -
  have n: "ar_original_instruction_len A p \<le> 15" using inv ilen_bounds unfolding point_inv_def by blast
  have slot: "(None, ar_single_step_address A p) \<in> pages k \<inter> pages k'" using pg slot_in_pages [of A p] by blast
  have same: "mem_read F k' None x = mem_read F k None x" if "x \<in> page (ar_single_step_address A p)" for x
    using fr slot that unfolding frame_def by blast
  have "saved k' p = saved k p" by (rule saved_stable [OF n same])
  moreover have "read_bytes F k' None (ar_single_step_address A p) (ar_instruction_slot_len A p) =
      read_bytes F k None (ar_single_step_address A p) (ar_instruction_slot_len A p)"
    by (rule page_kept [OF fr slot slot_len_page [OF n]])
  moreover have "read_bytes F k' (ar_pid A p) (ar_dynamic_user_ptr A p) (ar_instruction_slot_len A p) =
      read_bytes F k (ar_pid A p) (ar_dynamic_user_ptr A p) (ar_instruction_slot_len A p)" if "ar_dynamic_user_ptr A p \<noteq> 0"
    using pg user_in_pages [OF that] by (intro page_kept [OF fr _ slot_len_page [OF n]]) blast
  ultimately show ?thesis using inv by (simp add: point_inv_def)
qed

lemma minv_same:
  assumes inv: "minv sites k0 k pts" and pg: "pages k' = pages k" and fr: "frame F pages heap k k' (mem_read F k)"
  shows "minv sites k0 k' pts"
proof -
  have "pinv sites k0 k' p" if "pts q = Some p" for q p
    using pinv_kept [OF fr minv_pinv [OF inv that]] minv_point(4) [OF inv that] pg by simp
  moreover have "armed A patch heap (mem_read F k0) pts (mem_read F k')"
    using minv_parts(3) [OF inv] fr unfolding armed_def frame_def by simp
  moreover have "pages_ok pages heap k'" using minv_parts(1) [OF inv] pg by (simp add: pages_ok_def)
  ultimately show ?thesis using inv pg by (simp add: mem_inv_def)
qed

lemma site_out: "sites_ok heap ilen m0 sites \<Longrightarrow> (sp, a) \<in> sites \<Longrightarrow> region a 15 \<inter> heap s = {}"
  unfolding sites_ok_def by blast

lemma site_space: "sites_ok heap ilen m0 sites \<Longrightarrow> (sp, a) \<in> sites \<Longrightarrow> (sp', a) \<in> sites \<Longrightarrow> sp' = sp"
  unfolding sites_ok_def by blast

text \<open>Where no point is, the instruction of a site is the original one.\<close>

lemma site_original:
  assumes inv: "minv sites k0 k pts" and sites: "sites_ok heap ilen (mem_read F k0) sites" and site: "(sp, a) \<in> sites"
    and n: "ilen (mem_read F k0 sp) a = Some n"
    and free: "\<And>q p. pts q = Some p \<Longrightarrow> (ar_pid A p, ar_break_address A p) \<noteq> (sp, a)"
    and x: "x \<in> region a n"
  shows "mem_read F k sp x = mem_read F k0 sp x"
proof -
  have n15: "n \<le> 15" using ilen_bounds n by blast
  have "x \<notin> heap sp" using site_out [OF sites site] x region_mono [OF n15] by blast
  moreover have "x \<notin> region (ar_break_address A p) (length (patch (ar_original_instruction_len A p)))"
    if p: "pts q = Some p" "ar_pid A p = sp" for q p
  proof -
    note pt = minv_point [OF inv p(1)]
    have "ar_break_address A p \<noteq> a" using free p by blast
    then have "region a n \<inter> region (ar_break_address A p) (ar_original_instruction_len A p) = {}"
      using sites site pt(1,2) n p(2) unfolding sites_ok_def by blast
    then show ?thesis using x region_mono patch_len [OF pt(2)] by blast
  qed
  ultimately show ?thesis using inv unfolding mem_inv_def armed_def by blast
qed

lemma minv_refused:
  assumes "minv sites k0 k pts" "room k" "ar_replace_inst A k b = (r, k')"
    "region (probe_addr b) 15 \<inter> heap (bd_user_pid b) = {}" "ilen (mem_read F k (bd_user_pid b)) (probe_addr b) = None"
  shows "(\<exists>e. r = Err e) \<and> minv sites k0 k' pts"
proof -
  have "pages_ok pages heap k" using assms(1) by (simp add: mem_inv_def)
  from replace_refused [OF assms(3) this assms(2,4,5)] minv_same [OF assms(1)] show ?thesis by blast
qed

text \<open>At a site that has a point already, a second installation is refused.\<close>

lemma site_taken:
  assumes inv: "minv sites k0 k pts" and sites: "sites_ok heap ilen (mem_read F k0) sites" and p: "pts q = Some p"
  shows "ilen (mem_read F k (ar_pid A p)) (ar_break_address A p) = None"
proof (rule patch_refused [OF minv_point(2) [OF inv p]])
  fix x assume x: "x \<in> region (ar_break_address A p) (length (patch (ar_original_instruction_len A p)))"
  note pt = minv_point [OF inv p]
  have "length (patch (ar_original_instruction_len A p)) \<le> 15" using patch_len [OF pt(2)] pt(8) by linarith
  then have "x \<notin> heap (ar_pid A p)" using x site_out [OF sites pt(1)] region_mono by blast
  then show "mem_read F k (ar_pid A p) x = patch (ar_original_instruction_len A p) ! unat (x - ar_break_address A p)"
    using inv p x unfolding mem_inv_def armed_def by blast
qed

lemma armed_upd:
  assumes arm: "armed A patch heap m0 pts m" and out: "\<And>s x. x \<notin> heap s \<Longrightarrow>
      m' s x = overwrite m (ar_pid A p) (ar_break_address A p) (patch (ar_original_instruction_len A p)) s x"
    and new: "pts q = None"
    and disj: "\<And>q' p'. pts q' = Some p' \<Longrightarrow> ar_pid A p' = ar_pid A p \<Longrightarrow>
      region (ar_break_address A p') (length (patch (ar_original_instruction_len A p'))) \<inter>
      region (ar_break_address A p) (length (patch (ar_original_instruction_len A p))) = {}"
  shows "armed A patch heap m0 (pts(q \<mapsto> p)) m'"
  unfolding armed_def
proof (intro allI impI conjI)
  fix sp x q' p'
  assume x: "x \<notin> heap sp" "(pts(q \<mapsto> p)) q' = Some p'" "ar_pid A p' = sp"
    "x \<in> region (ar_break_address A p') (length (patch (ar_original_instruction_len A p')))"
  show "m' sp x = patch (ar_original_instruction_len A p') ! unat (x - ar_break_address A p')"
  proof (cases "q' = q")
    case True
    then show ?thesis using x out by (simp add: overwrite_def)
  next
    case False
    then have p': "pts q' = Some p'" using x(2) by simp
    then have "m' sp x = m sp x" using disj [OF p'] x(3,4) out [OF x(1)] by (auto simp: overwrite_def)
    then show ?thesis using armed_at [where p = p', OF arm _ p'] x by simp
  qed
next
  fix sp x
  assume x: "x \<notin> heap sp" "\<forall>q' p'. (pts(q \<mapsto> p)) q' = Some p' \<longrightarrow> ar_pid A p' = sp \<longrightarrow>
    x \<notin> region (ar_break_address A p') (length (patch (ar_original_instruction_len A p')))"
  have others: "\<forall>q' p'. pts q' = Some p' \<longrightarrow> ar_pid A p' = sp \<longrightarrow>
    x \<notin> region (ar_break_address A p') (length (patch (ar_original_instruction_len A p')))"
  proof (intro allI impI)
    fix q' p' assume "pts q' = Some p'" "ar_pid A p' = sp"
    moreover from this(1) have "q' \<noteq> q" using new by auto
    ultimately show "x \<notin> region (ar_break_address A p') (length (patch (ar_original_instruction_len A p')))"
      using x(2) [rule_format, of q' p'] by simp
  qed
  have "m' sp x = m sp x" using x(2) [rule_format, of q p] out [OF x(1)] by (auto simp: overwrite_def)
  then show "m' sp x = m0 sp x" using armed_rest [OF arm x(1)] others by simp
qed

lemma minv_install:
  assumes inv: "minv sites k0 k pts" and sites: "sites_ok heap ilen (mem_read F k0) sites"
    and site: "(bd_user_pid b, probe_addr b) \<in> sites"
    and room: "room k" and run: "ar_replace_inst A k b = (Ok p, k')" and new: "pts q = None"
  shows "minv sites k0 k' (pts(q \<mapsto> p)) \<and> ar_break_address A p = probe_addr b \<and> ar_pid A p = bd_user_pid b"
proof -
  let ?sp = "bd_user_pid b" and ?a = "probe_addr b"
  note out = site_out [OF sites site]
  have pgk: "pages_ok pages heap k" using inv by (simp add: mem_inv_def)
  obtain n where n0: "ilen (mem_read F k0 ?sp) ?a = Some n" using sites site unfolding sites_ok_def by blast
  have free: "(ar_pid A p', ar_break_address A p') \<noteq> (?sp, ?a)" if "pts q' = Some p'" for q' p'
    using site_taken [OF inv sites that] replace_refused [OF run pgk room out] by auto
  have n: "ilen (mem_read F k ?sp) ?a = Some n"
    using site_original [OF inv sites site n0 free] by (intro ilen_prefix [OF n0]) auto
  from replace_accepted [OF run pgk room out n] have p: "ar_break_address A p = ?a" "ar_original_instruction_len A p = n"
    "ar_pid A p = ?sp" "ar_dynamic_user_ptr A p = 0" "(None, ar_single_step_address A p) \<notin> pages k"
    "pages k' = insert (None, ar_single_step_address A p) (pages k)" "pages_ok pages heap k'"
    "frame F pages heap k k' (overwrite (mem_read F k) ?sp ?a (patch n))"
    "saved k' p = read_bytes F k ?sp ?a n"
    "read_bytes F k' None (ar_single_step_address A p) (n + length (trail n)) = read_bytes F k ?sp ?a n @ trail n"
    by auto
  have sl: "slot_pages A p = {(None, ar_single_step_address A p)}" using p(4) by (simp add: slot_pages_def)
  have n15: "n \<le> 15" "n < 2 ^ 64" using ilen_bounds [OF n0] by auto
  have orig: "read_bytes F k ?sp ?a n = read_bytes F k0 ?sp ?a n"
    unfolding read_bytes_at using site_original [OF inv sites site n0 free] n15(2) by (intro bytes_at_cong) auto
  have kept: "pinv sites k0 k' p'" if "pts q' = Some p'" for q' p'
    using pinv_kept [OF p(8) minv_pinv [OF inv that]] minv_point(4) [OF inv that] p(6) by blast
  have slots: "slot_pages A p' \<inter> slot_pages A p = {}" if "pts q' = Some p'" for q' p'
    using minv_point(4) [OF inv that] p(5) unfolding sl by auto
  have fresh0: "slot_pages A p \<inter> pages k0 = {}" using p(5) minv_parts(2) [OF inv] unfolding sl by auto
  have new_inv: "pinv sites k0 k' p"
    using p(1-4,9,10) orig n0 site fresh0 by (simp add: point_inv_def slot_bytes_def slot_len)
  have arm: "armed A patch heap (mem_read F k0) (pts(q \<mapsto> p)) (mem_read F k')"
  proof (rule armed_upd)
    show "pts q = None" by (rule new)
    show "armed A patch heap (mem_read F k0) pts (mem_read F k)" using inv by (simp add: mem_inv_def)
    show "mem_read F k' s x = overwrite (mem_read F k) (ar_pid A p) (ar_break_address A p)
        (patch (ar_original_instruction_len A p)) s x" if "x \<notin> heap s" for s x
      using p(8) that p(1-3) unfolding frame_def by simp
    show "region (ar_break_address A p') (length (patch (ar_original_instruction_len A p'))) \<inter>
      region (ar_break_address A p) (length (patch (ar_original_instruction_len A p))) = {}"
      if p': "pts q' = Some p'" "ar_pid A p' = ar_pid A p" for q' p'
    proof -
      note pt = minv_point [OF inv p'(1)]
      have "ar_break_address A p' \<noteq> ?a" using free [OF p'(1)] p' p(3) by simp
      then have "region (ar_break_address A p') (ar_original_instruction_len A p') \<inter> region ?a n = {}"
        using sites site pt(1,2) n0 p' p(3) unfolding sites_ok_def by metis
      moreover have "region (ar_break_address A p') (length (patch (ar_original_instruction_len A p'))) \<subseteq>
          region (ar_break_address A p') (ar_original_instruction_len A p')" "region ?a (length (patch n)) \<subseteq> region ?a n"
        using patch_len [OF pt(2)] patch_len [OF n0] by (intro region_mono; simp)+
      ultimately show ?thesis unfolding p(1,2) by blast
    qed
  qed
  have pg: "pages k' = pages k0 \<union> \<Union> (slot_pages A ` ran (pts(q \<mapsto> p)))"
    using inv p(6) new by (simp add: mem_inv_def sl)
  have pi: "pinv sites k0 k' p'" if "(pts(q \<mapsto> p)) q' = Some p'" for q' p'
    using that kept new_inv by (simp split: if_splits)
  have di: "slot_pages A p' \<inter> slot_pages A r' = {} \<and>
      (ar_pid A p', ar_break_address A p') \<noteq> (ar_pid A r', ar_break_address A r')"
    if "(pts(q \<mapsto> p)) q' = Some p'" "(pts(q \<mapsto> p)) r = Some r'" "q' \<noteq> r" for q' p' r r'
  proof -
    show ?thesis
    proof (cases "q' = q")
      case True
      with that have "p' = p" "pts r = Some r'" by simp_all
      then show ?thesis using slots [of r r'] free [of r r'] p(1,3) by auto
    next
      case False
      with that(1) have q': "pts q' = Some p'" by simp
      show ?thesis
      proof (cases "r = q")
        case True
        with that(2) have "r' = p" by simp
        then show ?thesis using slots [OF q'] free [OF q'] p(1,3) by auto
      next
        case False
        with that(2) have "pts r = Some r'" by simp
        then show ?thesis using minv_distinct [OF inv q' _ that(3)] by blast
      qed
    qed
  qed
  have "minv sites k0 k' (pts(q \<mapsto> p))"
    unfolding mem_inv_def by (intro conjI [OF p(7)] conjI [OF pg] conjI [OF arm] conjI allI impI pi; (assumption | (drule di, assumption+, simp)))
  with p(1,3) show ?thesis by simp
qed

text \<open>Different points have different breakpoints, slots and debug addresses.\<close>

lemma points_apart:
  assumes inv: "minv sites k0 k pts" and sites: "sites_ok heap ilen (mem_read F k0) sites"
    and p: "pts q = Some p" "pts q' = Some p'" "q \<noteq> q'" "ar_pid A p = ar_pid A p'"
  shows "region (ar_break_address A p) (ar_original_instruction_len A p) \<inter>
    region (ar_break_address A p') (ar_original_instruction_len A p') = {}"
proof -
  have "ar_break_address A p \<noteq> ar_break_address A p'" using minv_distinct [OF inv p(1-3)] p(4) by simp
  then show ?thesis
    using sites minv_point(1,2) [OF inv p(1)] minv_point(1,2) [OF inv p(2)] p(4) unfolding sites_ok_def by metis
qed

lemma debug_at_page:
  assumes "minv sites k0 k pts" "pts q = Some p"
  shows "\<exists>s d. (s, d) \<in> slot_pages A p \<and> ar_debug_address A p \<in> page d"
proof -
  let ?n = "ar_original_instruction_len A p"
  have n: "?n < 4096" "?n < 2 ^ 64" using minv_point(8) [OF assms] by auto
  show ?thesis
  proof (cases "ar_dynamic_user_ptr A p = 0")
    case True
    then have "ar_debug_address A p \<in> page (ar_single_step_address A p)"
      using n by (simp add: debug_address offset_in_region)
    then show ?thesis using slot_in_pages [of A p] by blast
  next
    case False
    then have "ar_debug_address A p \<in> page (ar_dynamic_user_ptr A p)"
      using n by (simp add: debug_address offset_in_region)
    then show ?thesis using user_in_pages [OF False] by blast
  qed
qed

lemma debug_apart:
  assumes inv: "minv sites k0 k pts" and p: "pts q = Some p" "pts q' = Some p'" "q \<noteq> q'"
  shows "ar_debug_address A p \<noteq> ar_debug_address A p'"
proof -
  obtain s d where d: "(s, d) \<in> slot_pages A p" "ar_debug_address A p \<in> page d"
    using debug_at_page [OF inv p(1)] by blast
  obtain s' d' where d': "(s', d') \<in> slot_pages A p'" "ar_debug_address A p' \<in> page d'"
    using debug_at_page [OF inv p(2)] by blast
  have "(s, d) \<noteq> (s', d')" using minv_distinct [OF inv p] d(1) d'(1) by blast
  then have "page d \<inter> page d' = {}"
    using pages_ok_apart [OF minv_parts(1) [OF inv], of s d s' d'] minv_point(4) [OF inv p(1)] minv_point(4) [OF inv p(2)]
      d(1) d'(1) by blast
  with d(2) d'(2) show ?thesis by auto
qed

lemma ran_remove: "pts q = Some p \<Longrightarrow> ran pts = insert p (ran (pts(q := None)))"
  by (metis fun_upd_triv fun_upd_upd fun_upd_same ran_map_upd)

lemma minv_drop:
  assumes inv: "minv sites k0 k pts" and sites: "sites_ok heap ilen (mem_read F k0) sites" and p: "pts q = Some p"
  shows "minv sites k0 (ar_drop_point A k p) (pts(q := None))"
proof -
  let ?k = "ar_drop_point A k p" and ?n = "ar_original_instruction_len A p" and ?a = "ar_break_address A p"
  note pt = minv_point [OF inv p]
  from drop_point [OF pt(4) minv_parts(1) [OF inv] site_out [OF sites pt(1)] pt(8)]
  have pg: "pages ?k = pages k - slot_pages A p"
    and fr: "frame F pages heap k ?k (overwrite (mem_read F k) (ar_pid A p) ?a (saved k p))" by auto
  have pok: "pages_ok pages heap ?k" using minv_parts(1) [OF inv] unfolding pages_ok_def pg by blast
  have others: "slot_pages A p \<inter> \<Union> (slot_pages A ` ran (pts(q := None))) = {}"
  proof -
    have "slot_pages A p \<inter> slot_pages A r = {}" if r: "r \<in> ran (pts(q := None))" for r
    proof -
      obtain i where "pts i = Some r" "i \<noteq> q" using r by (auto simp: ran_def split: if_splits)
      then show ?thesis using minv_distinct [OF inv p, of i r] by blast
    qed
    then show ?thesis by blast
  qed
  have pg': "pages ?k = pages k0 \<union> \<Union> (slot_pages A ` ran (pts(q := None)))"
    unfolding pg minv_parts(2) [OF inv] ran_remove [of pts q p, OF p] using pt(5) others by blast
  have pi: "pinv sites k0 ?k p'" if "(pts(q := None)) q' = Some p'" for q' p'
  proof -
    have q': "pts q' = Some p'" "q' \<noteq> q" using that by (auto split: if_splits)
    have "slot_pages A p' \<subseteq> pages k \<inter> pages ?k"
      using minv_point(4) [OF inv q'(1)] minv_distinct [OF inv q'(1) p q'(2)] pg by blast
    then show ?thesis by (rule pinv_kept [OF fr minv_pinv [OF inv q'(1)]])
  qed
  have mem: "mem_read F ?k s x = (if s = ar_pid A p \<and> x \<in> region ?a ?n then mem_read F k0 s x else mem_read F k s x)"
    if x: "x \<notin> heap s" for s x
  proof -
    have "mem_read F ?k s x = overwrite (mem_read F k) (ar_pid A p) ?a (saved k p) s x" using fr x by (simp add: frame_def)
    then show ?thesis using pt(6) by (auto simp: overwrite_def in_region)
  qed
  have arm: "armed A patch heap (mem_read F k0) (pts(q := None)) (mem_read F ?k)"
    unfolding armed_def
  proof (intro allI impI conjI)
    fix sp x q' p'
    assume x: "x \<notin> heap sp" "(pts(q := None)) q' = Some p'" "ar_pid A p' = sp"
      "x \<in> region (ar_break_address A p') (length (patch (ar_original_instruction_len A p')))"
    then have q': "pts q' = Some p'" "q' \<noteq> q" by (auto split: if_splits)
    have "x \<in> region (ar_break_address A p') (ar_original_instruction_len A p')"
      using x(4) region_mono patch_len [OF minv_point(2) [OF inv q'(1)]] by blast
    then have "\<not> (sp = ar_pid A p \<and> x \<in> region ?a ?n)"
      using points_apart [OF inv sites q'(1) p q'(2)] x(3) by auto
    then have "mem_read F ?k sp x = mem_read F k sp x" using mem [OF x(1)] by auto
    then show "mem_read F ?k sp x = patch (ar_original_instruction_len A p') ! unat (x - ar_break_address A p')"
      using armed_at [where p = p', OF minv_parts(3) [OF inv] _ q'(1)] x by simp
  next
    fix sp x
    assume x: "x \<notin> heap sp" "\<forall>q' p'. (pts(q := None)) q' = Some p' \<longrightarrow> ar_pid A p' = sp \<longrightarrow>
      x \<notin> region (ar_break_address A p') (length (patch (ar_original_instruction_len A p')))"
    show "mem_read F ?k sp x = mem_read F k0 sp x"
    proof (cases "sp = ar_pid A p \<and> x \<in> region ?a ?n")
      case False
      have "mem_read F k sp x = mem_read F k0 sp x"
      proof (rule armed_rest [OF minv_parts(3) [OF inv] x(1)])
        fix q' p' assume p': "pts q' = Some p'" "ar_pid A p' = sp"
        show "x \<notin> region (ar_break_address A p') (length (patch (ar_original_instruction_len A p')))"
        proof (cases "q' = q")
          case True
          then have "p' = p" using p p' by simp
          then show ?thesis using False p'(2) region_mono [of "length (patch ?n)" ?n] patch_len [OF pt(2)] by auto
        next
          case False
          then show ?thesis using x(2) [rule_format, of q' p'] p' by simp
        qed
      qed
      with False show ?thesis using mem [OF x(1)] by auto
    qed (use mem [OF x(1)] in simp)
  qed
  have di: "slot_pages A p' \<inter> slot_pages A r' = {} \<and>
      (ar_pid A p', ar_break_address A p') \<noteq> (ar_pid A r', ar_break_address A r')"
    if "(pts(q := None)) q' = Some p'" "(pts(q := None)) r = Some r'" "q' \<noteq> r" for q' p' r r'
    using minv_distinct [OF inv _ _ that(3)] that by (simp split: if_splits)
  show ?thesis
    unfolding mem_inv_def by (intro conjI [OF pok] conjI [OF pg'] conjI [OF arm] conjI allI impI pi; (assumption | (drule di, assumption+, simp)))
qed

text \<open>The first hit of a user probe gives its point a copy of the slot in a fresh page of the process.\<close>

lemma minv_user_slot:
  assumes inv: "minv sites k0 k pts" and p: "pts q = Some p" "ar_dynamic_user_ptr A p = 0" "ar_pid A p \<noteq> None"
    and aux: "aux_laws F pages heap room" and room: "room k"
    and alloc: "alloc_user F k (ar_pid A p) (read_bytes F k None (ar_single_step_address A p) (ar_instruction_slot_len A p)) = (ptr, k')"
    and set: "ar_set_dynamic_user_ptr A p ptr = (p', d)"
  shows "minv sites k0 k' (pts(q \<mapsto> p')) \<and> ptr \<noteq> 0 \<and> d = ar_debug_address A p' \<and>
    ar_break_address A p' = ar_break_address A p"
proof -
  note pt = minv_point [OF inv p(1)] and pok = minv_parts(1) [OF inv]
  note fresh = aux_alloc_user(1) [OF aux room alloc] and set = set_user [OF set]
  have ptr: "ptr \<noteq> 0" "(ar_pid A p, ptr) \<notin> pages k" "pages k' = insert (ar_pid A p, ptr) (pages k)"
    "\<And>s x. \<not> (s = ar_pid A p \<and> x \<in> page ptr) \<Longrightarrow> mem_read F k' s x = mem_read F k s x"
    using fresh by (simp_all add: fresh_page_def)
  have copy: "read_bytes F k' (ar_pid A p) ptr (ar_instruction_slot_len A p) = slot_bytes F A trail k0 p"
    using aux_alloc_user(2) [OF aux room alloc] slot_len_page [OF pt(8)] minv_pinv [OF inv p(1)] by (simp add: point_inv_def)
  have fr: "frame F pages heap k k' (mem_read F k)"
    unfolding frame_def
  proof (intro conjI allI impI)
    fix s x assume "x \<notin> heap s"
    then show "mem_read F k' s x = mem_read F k s x" by (rule fresh_outside [OF fresh])
  next
    fix s c x assume c: "(s, c) \<in> pages k \<inter> pages k'" "x \<in> page c"
    then have "(s, c) \<in> pages k" by blast
    then have "page c \<inter> page ptr = {}" using fresh unfolding fresh_page_def by blast
    then show "mem_read F k' s x = mem_read F k s x" using c(2) by (intro ptr(4)) blast
  qed
  have sl: "slot_pages A p = {(None, ar_single_step_address A p)}"
    "slot_pages A p' = insert (ar_pid A p, ptr) (slot_pages A p)"
    using p(2) set ptr(1) by (auto simp: slot_pages_def)
  have same: "slot_bytes F A trail k0 p' = slot_bytes F A trail k0 p" "ar_instruction_slot_len A p' = ar_instruction_slot_len A p"
    using set by (simp_all add: slot_bytes_def slot_len)
  have kept: "pinv sites k0 k' r" if "pts i = Some r" for i r
    using pinv_kept [OF fr minv_pinv [OF inv that]] minv_point(4) [OF inv that] ptr(3) by blast
  have new0: "(ar_pid A p, ptr) \<notin> pages k0" using ptr(2) minv_parts(2) [OF inv] by blast
  have new: "pinv sites k0 k' p'"
    using kept [OF p(1)] copy set ptr(1) new0 p(3) sl same by (simp add: point_inv_def)
  have pi: "pinv sites k0 k' r" if "(pts(q \<mapsto> p')) i = Some r" for i r
    using that kept new by (simp split: if_splits)
  have arm: "armed A patch heap (mem_read F k0) (pts(q \<mapsto> p')) (mem_read F k')"
    unfolding armed_def
  proof (intro allI impI conjI)
    fix sp x i r assume x: "x \<notin> heap sp" "(pts(q \<mapsto> p')) i = Some r" "ar_pid A r = sp"
      "x \<in> region (ar_break_address A r) (length (patch (ar_original_instruction_len A r)))"
    then obtain r' where "pts i = Some r'" "ar_pid A r' = ar_pid A r" "ar_break_address A r' = ar_break_address A r"
      "ar_original_instruction_len A r' = ar_original_instruction_len A r"
      using p(1) set by (auto split: if_splits)
    with armed_at [where p = r', OF minv_parts(3) [OF inv], of x i] x
    show "mem_read F k' sp x = patch (ar_original_instruction_len A r) ! unat (x - ar_break_address A r)"
      using fr by (simp add: frame_def)
  next
    fix sp x assume x: "x \<notin> heap sp" "\<forall>i r. (pts(q \<mapsto> p')) i = Some r \<longrightarrow> ar_pid A r = sp \<longrightarrow>
      x \<notin> region (ar_break_address A r) (length (patch (ar_original_instruction_len A r)))"
    have "mem_read F k sp x = mem_read F k0 sp x"
    proof (rule armed_rest [OF minv_parts(3) [OF inv] x(1)])
      fix i r assume r: "pts i = Some r" "ar_pid A r = sp"
      show "x \<notin> region (ar_break_address A r) (length (patch (ar_original_instruction_len A r)))"
        using x(2) [rule_format, of q p'] x(2) [rule_format, of i r] r p(1) set by (cases "i = q") auto
    qed
    then show "mem_read F k' sp x = mem_read F k0 sp x" using fr x(1) by (simp add: frame_def)
  qed
  have di: "slot_pages A r \<inter> slot_pages A r' = {} \<and> (ar_pid A r, ar_break_address A r) \<noteq> (ar_pid A r', ar_break_address A r')"
    if r: "(pts(q \<mapsto> p')) i = Some r" "(pts(q \<mapsto> p')) i' = Some r'" "i \<noteq> i'" for i i' r r'
  proof -
    have other: "slot_pages A w \<inter> slot_pages A p' = {} \<and> (ar_pid A w, ar_break_address A w) \<noteq> (ar_pid A p', ar_break_address A p')"
      if "pts j = Some w" "j \<noteq> q" for j w
      using minv_distinct [OF inv that(1) p(1) that(2)] minv_point(4) [OF inv that(1)] ptr(2) sl(2) set by auto
    show ?thesis
    proof (cases "i = q")
      case True
      then show ?thesis using r other [of i' r'] by (auto simp: Int_commute)
    next
      case False
      then show ?thesis using r other [of i r] minv_distinct [OF inv, of i r i' r'] by (cases "i' = q") auto
    qed
  qed
  have pg: "pages k' = pages k0 \<union> \<Union> (slot_pages A ` ran (pts(q \<mapsto> p')))"
  proof -
    have "ran (pts(q \<mapsto> p')) = insert p' (ran (pts(q := None)))" by (auto simp: ran_def)
    then show ?thesis unfolding ptr(3) minv_parts(2) [OF inv] ran_remove [of pts q p, OF p(1)] using sl(2) by auto
  qed
  have "minv sites k0 k' (pts(q \<mapsto> p'))"
    unfolding mem_inv_def
    by (intro conjI [OF pages_ok_fresh [OF pok fresh]] conjI [OF pg] conjI [OF arm] conjI allI impI pi; (assumption | (drule di, assumption+, simp)))
  then show ?thesis using ptr(1) set by (simp add: debug_address)
qed

end

end
