(* ===== verification/ProbeRefs.thy ===== *)
theory ProbeRefs
  imports ProbeInv
begin

text \<open>
  The references of the probe manager: which objects and points are alive, and how the break list,
  the debug list and the point list agree. The operations are shown to keep the whole invariant.
\<close>

section \<open>References\<close>

text \<open>
  \<open>X\<close>, \<open>Y\<close> and \<open>Z\<close> are the objects, points and addresses in transit: objects and points that may
  have lost their last reference, and addresses in the point list that have no probes.
\<close>

definition ordered_inv :: "('k, 'p) probe_sys \<Rightarrow> bool" where
  "ordered_inv S \<longleftrightarrow>
     key_ordered (ps_points S) \<and> key_ordered (ps_objs S) \<and> key_ordered (ps_break_list S) \<and>
     key_ordered (ps_debug_list S) \<and> key_ordered (ps_point_list S)"

text \<open>Names are below the next one, probes have their point, clients' handles their object.\<close>

definition alive_inv :: "('k, 'p) probe_sys \<Rightarrow> bool" where
  "alive_inv S \<longleftrightarrow>
     (\<forall>q p. map_of (ps_points S) q = Some p \<longrightarrow> q < ps_next S) \<and>
     (\<forall>i ob. map_of (ps_objs S) i = Some ob \<longrightarrow> i < ps_next S \<and> map_of (ps_points S) (pr_point (obj_probe ob)) \<noteq> None) \<and>
     (\<forall>i \<in> set (ps_handles S). map_of (ps_objs S) i \<noteq> None)"

text \<open>The point list maps the address of a point to it; the same probes are at its break and debug address.\<close>

definition point_list_inv :: "('k, 'p, 'r) arch_ops \<Rightarrow> ('k, 'p) probe_sys \<Rightarrow> bool" where
  "point_list_inv A S \<longleftrightarrow>
     (\<forall>a q. map_of (ps_point_list S) a = Some q \<longrightarrow>
        (\<exists>p. map_of (ps_points S) q = Some p \<and> ar_break_address A p = a \<and>
             map_of (ps_debug_list S) (ar_debug_address A p) = map_of (ps_break_list S) a))"

text \<open>The probes in the break list at an address have the point that the point list has there.\<close>

definition break_inv :: "('k, 'p) probe_sys \<Rightarrow> bool" where
  "break_inv S \<longleftrightarrow>
     (\<forall>a l. map_of (ps_break_list S) a = Some l \<longrightarrow> l \<noteq> [] \<and>
        (\<exists>q. map_of (ps_point_list S) a = Some q \<and>
           (\<forall>u \<in> set l. obj_point S (obj_of u) = Some q)))"

definition debug_inv :: "('k, 'p, 'r) arch_ops \<Rightarrow> ('k, 'p) probe_sys \<Rightarrow> bool" where
  "debug_inv A S \<longleftrightarrow>
     (\<forall>d l. map_of (ps_debug_list S) d = Some l \<longrightarrow>
        (\<exists>a q p. map_of (ps_point_list S) a = Some q \<and> map_of (ps_points S) q = Some p \<and> ar_debug_address A p = d))"

definition no_gap :: "('k, 'p) probe_sys \<Rightarrow> usize set \<Rightarrow> bool" where
  "no_gap S Z \<longleftrightarrow> (\<forall>a. map_of (ps_break_list S) a = None \<longrightarrow> a \<notin> Z \<longrightarrow> map_of (ps_point_list S) a = None)"

text \<open>Objects and points that nothing refers to are gone.\<close>

definition obj_used :: "('k, 'p) probe_sys \<Rightarrow> nat \<Rightarrow> bool" where
  "obj_used S i \<longleftrightarrow> i \<in> set (ps_handles S) \<or> (\<exists>a l. map_of (ps_break_list S) a = Some l \<and> i \<in> obj_of ` set l)"

definition point_used :: "('k, 'p) probe_sys \<Rightarrow> nat \<Rightarrow> bool" where
  "point_used S q \<longleftrightarrow> (\<exists>a. map_of (ps_point_list S) a = Some q) \<or> (\<exists>i. obj_point S i = Some q)"

definition used_inv :: "('k, 'p) probe_sys \<Rightarrow> nat set \<Rightarrow> nat set \<Rightarrow> bool" where
  "used_inv S X Y \<longleftrightarrow>
     (\<forall>i. map_of (ps_objs S) i \<noteq> None \<longrightarrow> i \<notin> X \<longrightarrow> obj_used S i) \<and>
     (\<forall>q. map_of (ps_points S) q \<noteq> None \<longrightarrow> q \<notin> Y \<longrightarrow> point_used S q)"

definition refs_inv :: "('k, 'p, 'r) arch_ops \<Rightarrow> ('k, 'p) probe_sys \<Rightarrow> nat set \<Rightarrow> nat set \<Rightarrow> usize set \<Rightarrow> bool" where
  "refs_inv A S X Y Z \<longleftrightarrow>
     ordered_inv S \<and> alive_inv S \<and> point_list_inv A S \<and> break_inv S \<and> debug_inv A S \<and> no_gap S Z \<and> used_inv S X Y"

lemmas refs_defs = ordered_inv_def alive_inv_def point_list_inv_def break_inv_def debug_inv_def no_gap_def used_inv_def

lemma list_ex_entries:
  "key_ordered kvs \<Longrightarrow> list_ex (\<lambda>(_, v). P v) kvs \<longleftrightarrow> (\<exists>k v. map_of kvs k = Some v \<and> P v)"
  by (force simp: list_ex_iff key_ordered_def split: prod.splits)

lemma listed_iff: "key_ordered ls \<Longrightarrow> listed ls i \<longleftrightarrow> (\<exists>a l. map_of ls a = Some l \<and> i \<in> obj_of ` set l)"
  unfolding listed_def by (subst list_ex_entries) (auto simp: list_ex_iff)

lemma refs_init: "refs_inv A (ProbeManager_new k) {} {} {}"
  by (simp add: refs_inv_def refs_defs ProbeManager_new_def)

text \<open>Lists after a change at one address.\<close>

lemma map_of_insert_point: "map_of (insert_point a u ls) = (map_of ls)(a \<mapsto> list_at ls a @ [u])"
  by (simp add: insert_point_def)

lemma map_of_remove_one:
  "map_of (remove_one a u ls) =
     (map_of ls)(a := (let l = filter (\<lambda>x. x \<noteq> u) (list_at ls a) in if l = [] then None else Some l))"
  by (auto simp: remove_one_def list_at_def Let_def map_of_bt_remove fun_eq_iff split: option.splits)

lemma remove_one_ordered: "key_ordered ls \<Longrightarrow> key_ordered (remove_one a u ls)"
  by (auto simp: remove_one_def Let_def bt_insert_ordered bt_remove_ordered split: option.splits)

lemma insert_point_ordered: "key_ordered ls \<Longrightarrow> key_ordered (insert_point a u ls)"
  by (simp add: insert_point_def bt_insert_ordered)

section \<open>Removing a probe from the lists\<close>

lemma break_no_other:
  assumes "break_inv S" "obj_point S (obj_of u) = Some q" "map_of (ps_point_list S) a = Some q'" "q' \<noteq> q"
  shows "filter (\<lambda>x. x \<noteq> u) (list_at (ps_break_list S) a) = list_at (ps_break_list S) a"
proof (cases "map_of (ps_break_list S) a")
  case (Some l)
  then have "\<forall>v \<in> set l. obj_point S (obj_of v) = Some q'" using assms(1,3) by (fastforce simp: break_inv_def)
  then have "u \<notin> set l" using assms(2,4) by auto
  then show ?thesis using Some by (auto simp: list_at_def intro!: filter_True)
qed (simp add: list_at_def)

lemma list_at_Some: "break_inv S \<Longrightarrow> list_at (ps_break_list S) a = l \<Longrightarrow> l \<noteq> [] \<Longrightarrow> map_of (ps_break_list S) a = Some l"
  by (auto simp: list_at_def split: option.splits)

lemma list_at_Nil: "break_inv S \<Longrightarrow> list_at (ps_break_list S) a = [] \<longleftrightarrow> map_of (ps_break_list S) a = None"
  by (auto simp: list_at_def break_inv_def split: option.splits)

lemma list_at_point:
  assumes "break_inv S" "map_of (ps_point_list S) a = Some q" "v \<in> set (list_at (ps_break_list S) a)"
  shows "obj_point S (obj_of v) = Some q"
proof -
  obtain l where l: "map_of (ps_break_list S) a = Some l" "v \<in> set l"
    using assms(3) by (cases "map_of (ps_break_list S) a") (auto simp: list_at_def)
  from assms(1) [unfolded break_inv_def, rule_format, OF l(1)] obtain q' where
    "map_of (ps_point_list S) a = Some q'" "\<forall>u\<in>set l. obj_point S (obj_of u) = Some q'" by blast
  with assms(2) l(2) show ?thesis by auto
qed

lemma refs_remove_lists:
  assumes inv: "refs_inv A S {} {} {}" and u: "obj_point S (obj_of u) = Some q" "map_of (ps_points S) q = Some p"
    and apart: "\<And>q' p'. map_of (ps_points S) q' = Some p' \<Longrightarrow> q' \<noteq> q \<Longrightarrow> ar_debug_address A p' \<noteq> ar_debug_address A p"
  shows "refs_inv A
      (S\<lparr>ps_break_list := remove_one (ar_break_address A p) u (ps_break_list S),
         ps_debug_list := remove_one (ar_debug_address A p) u (ps_debug_list S),
         ps_handles := remove1 (obj_of u) (ps_handles S)\<rparr>) {obj_of u} {} {ar_break_address A p}"
    (is "refs_inv A ?S _ _ _")
  unfolding refs_inv_def
proof (intro conjI)
  have o: "ordered_inv S" and al: "alive_inv S" and pl: "point_list_inv A S" and b: "break_inv S" and d: "debug_inv A S"
    and g: "no_gap S {}" and us: "used_inv S {} {}" using inv by (simp_all add: refs_inv_def)
  have op: "obj_point ?S = obj_point S" by (simp add: obj_point_def fun_eq_iff)
  show "ordered_inv ?S" using o by (simp add: ordered_inv_def remove_one_ordered)
  show "alive_inv ?S" using al set_remove1_subset [of "obj_of u" "ps_handles S"] by (auto simp: alive_inv_def)
  show "point_list_inv A ?S"
    unfolding point_list_inv_def
  proof (intro allI impI)
    fix a q' assume a: "map_of (ps_point_list ?S) a = Some q'"
    then obtain p' where p': "map_of (ps_points S) q' = Some p'" "ar_break_address A p' = a"
      "map_of (ps_debug_list S) (ar_debug_address A p') = map_of (ps_break_list S) a"
      using pl by (auto simp: point_list_inv_def)
    show "\<exists>p. map_of (ps_points ?S) q' = Some p \<and> ar_break_address A p = a \<and>
      map_of (ps_debug_list ?S) (ar_debug_address A p) = map_of (ps_break_list ?S) a"
    proof (cases "q' = q")
      case True
      then have "p' = p" using p' u(2) by simp
      then show ?thesis using p' by (simp add: map_of_remove_one list_at_def)
    next
      case False
      then have dd: "ar_debug_address A p' \<noteq> ar_debug_address A p" using apart p'(1) by blast
      show ?thesis
      proof (cases "a = ar_break_address A p")
        case True
        have "map_of (ps_break_list ?S) a = map_of (ps_break_list S) a"
          using break_no_other [OF b u(1) _ False, of a] a True list_at_Nil [OF b, of a]
          by (auto simp: map_of_remove_one Let_def list_at_def split: option.splits)
        then show ?thesis using p' dd by (simp add: map_of_remove_one)
      next
        case False
        then show ?thesis using p' dd by (simp add: map_of_remove_one)
      qed
    qed
  qed
  show "break_inv ?S"
    unfolding break_inv_def op
  proof (intro allI impI)
    fix a l assume l: "map_of (ps_break_list ?S) a = Some l"
    then have "l \<noteq> []" "set l \<subseteq> set (list_at (ps_break_list S) a)" "map_of (ps_break_list S) a \<noteq> None"
      using b by (auto simp: map_of_remove_one Let_def list_at_def break_inv_def split: if_splits option.splits)
    then show "l \<noteq> [] \<and> (\<exists>q. map_of (ps_point_list ?S) a = Some q \<and> (\<forall>u\<in>set l. obj_point S (obj_of u) = Some q))"
      using b by (fastforce simp: break_inv_def list_at_def)
  qed
  show "debug_inv A ?S"
    using d by (auto simp: debug_inv_def map_of_remove_one Let_def list_at_def split: if_splits option.splits)
  show "no_gap ?S {ar_break_address A p}" using g by (auto simp: no_gap_def map_of_remove_one)
  have "obj_used ?S i" if "obj_used S i" "i \<noteq> obj_of u" for i
  proof -
    from that(1) consider "i \<in> set (ps_handles S)" | a l where "map_of (ps_break_list S) a = Some l" "i \<in> obj_of ` set l"
      by (auto simp: obj_used_def)
    then show ?thesis
    proof cases
      case 1
      then show ?thesis using that(2) by (simp add: obj_used_def in_set_remove1)
    next
      case 2
      then obtain v where v: "v \<in> set l" "obj_of v = i" by auto
      then have "v \<in> set (filter (\<lambda>x. x \<noteq> u) l)" using that(2) by auto
      then have "\<exists>l'. map_of (ps_break_list ?S) a = Some l' \<and> v \<in> set l'"
        using 2(1) v(1) by (auto simp: map_of_remove_one Let_def list_at_def filter_empty_conv)
      then show ?thesis using v(2) by (auto simp: obj_used_def)
    qed
  qed
  then show "used_inv ?S {obj_of u} {}" using us by (auto simp: used_inv_def point_used_def op)
qed

section \<open>Dropping references\<close>

lemma debug_listed:
  assumes "debug_inv A S" "point_list_inv A S" "map_of (ps_debug_list S) d = Some l"
  shows "\<exists>a. map_of (ps_break_list S) a = Some l"
  using assms unfolding debug_inv_def point_list_inv_def by (metis option.inject)

lemma release_obj_used:
  assumes "refs_inv A S X Y Z"
  shows "(i \<in> set (ps_handles S) \<or> listed (ps_break_list S) i \<or> listed (ps_debug_list S) i) \<longleftrightarrow> obj_used S i"
proof -
  have "key_ordered (ps_break_list S)" "key_ordered (ps_debug_list S)"
    using assms by (simp_all add: refs_inv_def ordered_inv_def)
  moreover have "\<exists>a l. map_of (ps_break_list S) a = Some l \<and> i \<in> obj_of ` set l"
    if "map_of (ps_debug_list S) d = Some l" "i \<in> obj_of ` set l" for d l
    using debug_listed [of A S d l] that assms by (auto simp: refs_inv_def)
  ultimately show ?thesis unfolding obj_used_def by (auto simp: listed_iff)
qed

lemma release_point_used:
  assumes "refs_inv A S X Y Z"
  shows "(list_ex (\<lambda>(_, q'). q' = q) (ps_point_list S) \<or> list_ex (\<lambda>(_, ob). pr_point (obj_probe ob) = q) (ps_objs S))
    \<longleftrightarrow> point_used S q"
proof -
  have "key_ordered (ps_point_list S)" "key_ordered (ps_objs S)"
    using assms by (simp_all add: refs_inv_def ordered_inv_def)
  then show ?thesis unfolding point_used_def obj_point_def by (simp add: list_ex_entries)
qed

lemma refs_drop_obj:
  assumes inv: "refs_inv A S {i} {} Z" and i: "\<not> obj_used S i" "obj_point S i = Some q"
  shows "refs_inv A (S\<lparr>ps_objs := bt_remove i (ps_objs S)\<rparr>) {} {q} Z" (is "refs_inv A ?S _ _ _")
  unfolding refs_inv_def
proof (intro conjI)
  have o: "ordered_inv S" and al: "alive_inv S" and pl: "point_list_inv A S" and b: "break_inv S" and d: "debug_inv A S"
    and g: "no_gap S Z" and us: "used_inv S {i} {}" using inv by (simp_all add: refs_inv_def)
  have op: "obj_point ?S j = (if j = i then None else obj_point S j)" for j by (simp add: obj_point_def map_of_bt_remove)
  show "ordered_inv ?S" using o by (simp add: ordered_inv_def bt_remove_ordered)
  show "alive_inv ?S" using al i(1) by (auto simp: alive_inv_def map_of_bt_remove obj_used_def split: if_splits)
  show "point_list_inv A ?S" using pl by (simp add: point_list_inv_def)
  show "break_inv ?S"
    unfolding break_inv_def op
  proof (intro allI impI)
    fix a l assume l: "map_of (ps_break_list ?S) a = Some l"
    then have "obj_of v \<noteq> i" if "v \<in> set l" for v using i(1) that by (auto simp: obj_used_def)
    then show "l \<noteq> [] \<and> (\<exists>q. map_of (ps_point_list ?S) a = Some q \<and>
        (\<forall>u\<in>set l. (if obj_of u = i then None else obj_point S (obj_of u)) = Some q))"
      using l b by (simp add: break_inv_def)
  qed
  show "debug_inv A ?S" using d by (simp add: debug_inv_def)
  show "no_gap ?S Z" using g by (simp add: no_gap_def)
  have "point_used ?S q'" if "point_used S q'" "q' \<noteq> q" for q'
    using that i(2) by (simp add: point_used_def op) (metis option.inject)
  then show "used_inv ?S {} {q}" using us by (auto simp: used_inv_def obj_used_def map_of_bt_remove split: if_splits)
qed

lemma refs_drop_point:
  assumes inv: "refs_inv A S {} {q} Z" and q: "\<not> point_used S q"
  shows "refs_inv A (S\<lparr>ps_kernel := k, ps_points := bt_remove q (ps_points S)\<rparr>) {} {} Z" (is "refs_inv A ?S _ _ _")
  unfolding refs_inv_def
proof (intro conjI)
  have o: "ordered_inv S" and al: "alive_inv S" and pl: "point_list_inv A S" and b: "break_inv S" and d: "debug_inv A S"
    and g: "no_gap S Z" and us: "used_inv S {} {q}" using inv by (simp_all add: refs_inv_def)
  have op: "obj_point ?S = obj_point S" by (simp add: obj_point_def fun_eq_iff)
  have nl: "map_of (ps_point_list S) a \<noteq> Some q" and no: "obj_point S j \<noteq> Some q" for a j using q by (auto simp: point_used_def)
  show "ordered_inv ?S" using o by (simp add: ordered_inv_def bt_remove_ordered)
  show "alive_inv ?S" using al no by (fastforce simp: alive_inv_def map_of_bt_remove obj_point_def split: if_splits)
  show "point_list_inv A ?S" using pl nl by (auto simp: point_list_inv_def map_of_bt_remove)
  show "break_inv ?S" using b by (simp add: break_inv_def op)
  show "debug_inv A ?S" using d nl unfolding debug_inv_def by (simp add: map_of_bt_remove) metis
  show "no_gap ?S Z" using g by (simp add: no_gap_def)
  show "used_inv ?S {} {}" using us by (simp add: used_inv_def obj_used_def point_used_def op map_of_bt_remove)
qed

text \<open>The address of a point list entry without probes is removed.\<close>

lemma refs_drop_entry:
  assumes inv: "refs_inv A S {} {} {a}" and a: "map_of (ps_break_list S) a = None" "map_of (ps_point_list S) a = Some q"
  shows "refs_inv A (S\<lparr>ps_point_list := bt_remove a (ps_point_list S)\<rparr>) {} {q} {}" (is "refs_inv A ?S _ _ _")
  unfolding refs_inv_def
proof (intro conjI)
  have o: "ordered_inv S" and al: "alive_inv S" and pl: "point_list_inv A S" and b: "break_inv S" and d: "debug_inv A S"
    and g: "no_gap S {a}" and us: "used_inv S {} {}" using inv by (simp_all add: refs_inv_def)
  have op: "obj_point ?S = obj_point S" by (simp add: obj_point_def fun_eq_iff)
  show "ordered_inv ?S" using o by (simp add: ordered_inv_def bt_remove_ordered)
  show "alive_inv ?S" using al by (simp add: alive_inv_def)
  show "point_list_inv A ?S" using pl by (auto simp: point_list_inv_def map_of_bt_remove)
  show "break_inv ?S" using b a(1) by (auto simp: break_inv_def op map_of_bt_remove)
  show "debug_inv A ?S"
    unfolding debug_inv_def
  proof (intro allI impI)
    fix e l assume e: "map_of (ps_debug_list ?S) e = Some l"
    then obtain a' q' p' where p': "map_of (ps_point_list S) a' = Some q'" "map_of (ps_points S) q' = Some p'" "ar_debug_address A p' = e"
      using d by (auto simp: debug_inv_def)
    then have "map_of (ps_debug_list S) e = map_of (ps_break_list S) a'" using pl by (fastforce simp: point_list_inv_def)
    then have "a' \<noteq> a" using e a(1) by auto
    with p' show "\<exists>a q p. map_of (ps_point_list ?S) a = Some q \<and> map_of (ps_points ?S) q = Some p \<and> ar_debug_address A p = e"
      by (intro exI [of _ a']) (simp add: map_of_bt_remove)
  qed
  show "no_gap ?S {}" using g by (simp add: no_gap_def map_of_bt_remove)
  have "point_used ?S q'" if "point_used S q'" "q' \<noteq> q" for q'
    using that a(2) by (simp add: point_used_def op map_of_bt_remove) (metis option.inject)
  then show "used_inv ?S {} {q}" using us by (auto simp: used_inv_def obj_used_def)
qed

section \<open>The operations keep the invariant\<close>

lemma no_gap_fill: "no_gap S {a} \<Longrightarrow> map_of (ps_break_list S) a \<noteq> None \<Longrightarrow> no_gap S {}"
  unfolding no_gap_def by (metis singletonD)

lemma refs_used_point:
  assumes "refs_inv A S {} {q} Z" "point_used S q \<or> map_of (ps_points S) q = None"
  shows "refs_inv A S {} {} Z"
  using assms by (auto simp: refs_inv_def used_inv_def)

lemma refs_used_obj:
  assumes "refs_inv A S {i} {} Z" "obj_used S i \<or> obj_point S i = None"
  shows "refs_inv A S {} {} Z"
  using assms by (auto simp: refs_inv_def used_inv_def obj_point_def)

lemma map_of_bt_remove_upd: "map_of (bt_remove k kvs) = (map_of kvs)(k := None)"
  by (rule map_of_bt_remove)

text \<open>The fields that dropping a reference leaves alone.\<close>

lemma release_point_fields [simp]:
  "ps_break_list (release_point A S q) = ps_break_list S" "ps_point_list (release_point A S q) = ps_point_list S"
  "ps_debug_list (release_point A S q) = ps_debug_list S" "ps_handles (release_point A S q) = ps_handles S"
  by (auto simp: release_point_def split: option.splits)

lemma release_obj_fields [simp]:
  "ps_break_list (release_obj A S i) = ps_break_list S" "ps_point_list (release_obj A S i) = ps_point_list S"
  "ps_debug_list (release_obj A S i) = ps_debug_list S" "ps_handles (release_obj A S i) = ps_handles S"
  by (auto simp: release_obj_def split: option.splits)

context probe_arch
begin

abbreviation sinv :: "(space \<times> usize) set \<Rightarrow> 'k \<Rightarrow> ('k, 'p) probe_sys \<Rightarrow> bool" where
  "sinv sites k0 S \<equiv> refs_inv A S {} {} {} \<and> minv sites k0 (ps_kernel S) (map_of (ps_points S))"

lemma release_point_inv:
  assumes "refs_inv A S {} {q} Z" "minv sites k0 (ps_kernel S) (map_of (ps_points S))"
    and sites: "sites_ok heap ilen (mem_read F k0) sites"
  shows "refs_inv A (release_point A S q) {} {} Z \<and>
    minv sites k0 (ps_kernel (release_point A S q)) (map_of (ps_points (release_point A S q)))"
proof (cases "point_used S q \<or> map_of (ps_points S) q = None")
  case True
  then have "release_point A S q = S"
    using release_point_used [OF assms(1), of q] by (auto simp: release_point_def)
  then show ?thesis using refs_used_point [OF assms(1) True] assms(2) by simp
next
  case False
  then obtain p where p: "map_of (ps_points S) q = Some p" "\<not> point_used S q" by auto
  have "release_point A S q = S\<lparr>ps_kernel := ar_drop_point A (ps_kernel S) p, ps_points := bt_remove q (ps_points S)\<rparr>"
    unfolding release_point_def release_point_used [OF assms(1)] using p by simp
  then show ?thesis
    using refs_drop_point [OF assms(1) p(2)] minv_drop [OF assms(2) sites p(1)] by (simp add: map_of_bt_remove)
qed

lemma release_obj_inv:
  assumes "refs_inv A S {i} {} Z" "minv sites k0 (ps_kernel S) (map_of (ps_points S))"
    and sites: "sites_ok heap ilen (mem_read F k0) sites"
  shows "refs_inv A (release_obj A S i) {} {} Z \<and>
    minv sites k0 (ps_kernel (release_obj A S i)) (map_of (ps_points (release_obj A S i)))"
proof (cases "obj_used S i \<or> obj_point S i = None")
  case True
  then have "release_obj A S i = S"
    using release_obj_used [OF assms(1), of i] by (auto simp: release_obj_def)
  then show ?thesis using refs_used_obj [OF assms(1) True] assms(2) by simp
next
  case False
  then obtain q where q: "obj_point S i = Some q" "\<not> obj_used S i" by auto
  have "release_obj A S i = release_point A (S\<lparr>ps_objs := bt_remove i (ps_objs S)\<rparr>) q"
    unfolding release_obj_def release_obj_used [OF assms(1)] using q by simp
  then show ?thesis
    using release_point_inv [OF refs_drop_obj [OF assms(1) q(2,1)] _ sites] assms(2) by simp
qed

lemma unregister_probe_inv:
  assumes inv: "sinv sites k0 S" and sites: "sites_ok heap ilen (mem_read F k0) sites"
  shows "sinv sites k0 (unregister_probe A S u)"
proof (cases "probe_point S u")
  case None
  then show ?thesis using inv by (simp add: unregister_probe_def)
next
  case (Some p)
  then obtain q where q: "obj_point S (obj_of u) = Some q" "map_of (ps_points S) q = Some p"
    by (auto simp: probe_point_def bind_eq_Some_conv)
  let ?a = "ar_break_address A p" and ?S = "remove_probe A S u"
  have apart: "ar_debug_address A p' \<noteq> ar_debug_address A p" if "map_of (ps_points S) q' = Some p'" "q' \<noteq> q" for q' p'
    using debug_apart [OF conjunct2 [OF inv] that(1) q(2) that(2)] .
  have S: "refs_inv A ?S {} {} {?a} \<and> minv sites k0 (ps_kernel ?S) (map_of (ps_points ?S))"
    using release_obj_inv [OF refs_remove_lists [OF conjunct1 [OF inv] q apart] _ sites] inv Some
    by (simp add: remove_probe_def)
  show ?thesis
  proof (cases "kprobe_num ?S ?a = 0")
    case True
    then have none: "map_of (ps_break_list ?S) ?a = None"
      using S by (simp add: kprobe_num_def list_at_Nil refs_inv_def)
    show ?thesis
    proof (cases "map_of (ps_point_list ?S) ?a")
      case None
      have "no_gap ?S {}" using S None by (auto simp: refs_inv_def no_gap_def)
      then show ?thesis using S True None Some by (simp add: unregister_probe_def refs_inv_def)
    next
      case (Some q')
      have "sinv sites k0 (release_point A (?S\<lparr>ps_point_list := bt_remove ?a (ps_point_list ?S)\<rparr>) q')"
        using release_point_inv [OF refs_drop_entry [OF conjunct1 [OF S] none Some] _ sites] S by simp
      then show ?thesis using True Some \<open>probe_point S u = Some p\<close> by (simp add: unregister_probe_def Let_def)
    qed
  next
    case False
    then have "map_of (ps_break_list ?S) ?a \<noteq> None" by (auto simp: kprobe_num_def list_at_def split: option.splits)
    then have "no_gap ?S {}" using S no_gap_fill [of ?S ?a] by (simp add: refs_inv_def)
    then show ?thesis using S False Some by (simp add: unregister_probe_def refs_inv_def)
  qed
qed

lemma drop_handle_inv:
  assumes inv: "sinv sites k0 S" and sites: "sites_ok heap ilen (mem_read F k0) sites"
  shows "sinv sites k0 (drop_handle A S i)"
proof -
  let ?S = "S\<lparr>ps_handles := remove1 i (ps_handles S)\<rparr>"
  have op: "obj_point ?S = obj_point S" by (simp add: obj_point_def fun_eq_iff)
  have "obj_used ?S j" if "obj_used S j" "j \<noteq> i" for j using that by (auto simp: obj_used_def in_set_remove1)
  then have "refs_inv A ?S {i} {} {}"
    using inv set_remove1_subset [of i "ps_handles S"]
    by (auto simp: refs_inv_def ordered_inv_def alive_inv_def point_list_inv_def break_inv_def debug_inv_def no_gap_def
      used_inv_def point_used_def op)
  from release_obj_inv [OF this _ sites] inv show ?thesis by (simp add: drop_handle_def)
qed

lemma clone_handle_inv: "sinv sites k0 S \<Longrightarrow> i \<in> set (ps_handles S) \<Longrightarrow> sinv sites k0 (clone_handle S i)"
  by (auto simp: clone_handle_def refs_inv_def ordered_inv_def alive_inv_def point_list_inv_def break_inv_def debug_inv_def
    no_gap_def used_inv_def point_used_def obj_used_def obj_point_def)

text \<open>Changes of an object that keep its point.\<close>

lemma update_obj_inv:
  assumes inv: "sinv sites k0 S" and f: "\<And>ob. map_of (ps_objs S) i = Some ob \<Longrightarrow> pr_point (obj_probe (f ob)) = pr_point (obj_probe ob)"
  shows "sinv sites k0 (update_obj S i f)"
proof (cases "map_of (ps_objs S) i")
  case None
  then show ?thesis using inv by (simp add: update_obj_def)
next
  case (Some ob)
  let ?S = "S\<lparr>ps_objs := bt_insert i (f ob) (ps_objs S)\<rparr>"
  have op: "obj_point ?S j = obj_point S j" for j using Some f by (simp add: obj_point_def)
  have dom: "map_of (ps_objs ?S) j = None \<longleftrightarrow> map_of (ps_objs S) j = None" for j using Some by simp
  have "alive_inv ?S"
    using inv Some f unfolding refs_inv_def alive_inv_def by (auto split: if_splits)
  moreover have "ordered_inv ?S" using inv by (simp add: refs_inv_def ordered_inv_def bt_insert_ordered)
  moreover have "used_inv ?S {} {}"
    using inv unfolding refs_inv_def used_inv_def point_used_def obj_used_def op dom by simp
  ultimately have "refs_inv A ?S {} {} {}"
    using inv unfolding refs_inv_def point_list_inv_def break_inv_def debug_inv_def no_gap_def op by simp
  then show ?thesis using inv Some by (simp add: update_obj_def)
qed

lemma update_basic_inv: "sinv sites k0 S \<Longrightarrow> sinv sites k0 (update_basic S i f)"
  unfolding update_basic_def by (rule update_obj_inv) simp_all

text \<open>
  Registration: the point of the builder's address, new or shared, and then the probe in both
  lists.
\<close>

lemma register_inner_inv:
  assumes inv: "sinv sites k0 S" and sites: "sites_ok heap ilen (mem_read F k0) sites"
    and room: "room (ps_kernel S)"
    and b: "bd_probe_point b = None" "region (probe_addr b) 15 \<inter> heap (bd_user_pid b) = {}"
      "(bd_user_pid b, probe_addr b) \<in> sites \<or> ilen (mem_read F (ps_kernel S) (bd_user_pid b)) (probe_addr b) = None"
    and run: "register_kprobe_inner A S b = (r, S')"
  shows "case r of Inl e \<Rightarrow> sinv sites k0 S' | Inr probe \<Rightarrow>
      refs_inv A S' {} {} {probe_addr b} \<and> minv sites k0 (ps_kernel S') (map_of (ps_points S')) \<and>
      map_of (ps_point_list S') (probe_addr b) = Some (pr_point probe) \<and> pr_basic probe = ProbeBasic_from b"
proof (cases "map_of (ps_point_list S) (probe_addr b)")
  case (Some q)
  then have "r = Ok \<lparr>pr_basic = ProbeBasic_from (with_probe_point q b), pr_point = q\<rparr>" "S' = S"
    using run by (simp_all add: register_kprobe_inner_def install_def with_probe_point_def Let_def)
  moreover have "refs_inv A S {} {} {probe_addr b}" using inv by (auto simp: refs_inv_def no_gap_def)
  ultimately show ?thesis using inv Some by (simp add: with_probe_point_def ProbeBasic_from_def)
next
  case None
  obtain r1 k1 where r1: "ar_replace_inst A (ps_kernel S) b = (r1, k1)" by fastforce
  show ?thesis
  proof (cases r1)
    case (Inl e)
    have "minv sites k0 k1 (map_of (ps_points S))"
    proof (cases "ilen (mem_read F (ps_kernel S) (bd_user_pid b)) (probe_addr b)")
      case None
      then show ?thesis using minv_refused [OF conjunct2 [OF inv] room r1 b(2)] by simp
    next
      case (Some n)
      have "pages_ok pages heap (ps_kernel S)" using minv_parts(1) inv by blast
      from replace_accepted [OF r1 this room b(2) Some] Inl show ?thesis by auto
    qed
    moreover have "refs_inv A (S\<lparr>ps_kernel := k1\<rparr>) {} {} {}"
      using inv by (simp add: refs_inv_def refs_defs obj_used_def point_used_def obj_point_def)
    moreover have "r = Err e" "S' = S\<lparr>ps_kernel := k1\<rparr>"
      using run None b(1) r1 Inl by (simp_all add: register_kprobe_inner_def install_def Let_def)
    ultimately show ?thesis by simp
  next
    case (Inr p)
    let ?q = "ps_next S" and ?a = "probe_addr b"
    have S': "r = Ok \<lparr>pr_basic = ProbeBasic_from b, pr_point = ?q\<rparr>"
      "S' = S\<lparr>ps_kernel := k1, ps_points := bt_insert ?q p (ps_points S), ps_next := Suc ?q,
              ps_point_list := bt_insert ?a ?q (ps_point_list S)\<rparr>"
      using run None b(1) r1 Inr by (simp_all add: register_kprobe_inner_def install_def Let_def)
    have al: "alive_inv S" using inv by (simp add: refs_inv_def)
    then have new: "map_of (ps_points S) ?q = None" unfolding alive_inv_def by (meson less_irrefl not_None_eq)
    have "(bd_user_pid b, ?a) \<in> sites"
      using b(3) minv_refused [OF conjunct2 [OF inv] room r1 b(2)] Inr by auto
    from minv_install [OF conjunct2 [OF inv] sites this room r1 [unfolded Inr] new]
    have m: "minv sites k0 k1 ((map_of (ps_points S))(?q \<mapsto> p))" "ar_break_address A p = ?a" by auto
    have "refs_inv A S' {} {} {?a}"
      unfolding refs_inv_def
    proof (intro conjI)
      have o: "ordered_inv S" and pl: "point_list_inv A S" and br: "break_inv S" and d: "debug_inv A S"
        and g: "no_gap S {}" and us: "used_inv S {} {}" using inv by (simp_all add: refs_inv_def)
      have op: "obj_point S' = obj_point S" by (simp add: S' obj_point_def fun_eq_iff)
      have gap: "map_of (ps_break_list S) ?a = None"
        using br None by (auto simp: break_inv_def) (metis not_None_eq option.distinct(1))
      have dbg: "map_of (ps_debug_list S) (ar_debug_address A p) = None"
      proof (rule ccontr)
        assume "map_of (ps_debug_list S) (ar_debug_address A p) \<noteq> None"
        then obtain q' p' where p': "map_of (ps_points S) q' = Some p'" "ar_debug_address A p' = ar_debug_address A p"
          using d by (fastforce simp: debug_inv_def)
        then have "q' \<noteq> ?q" using new by auto
        with debug_apart [OF m(1), of q' p' ?q p] p' show False by simp
      qed
      show "ordered_inv S'" using o by (simp add: ordered_inv_def S' bt_insert_ordered)
      show "alive_inv S'" using al unfolding alive_inv_def S' by (auto simp: less_Suc_eq)
      show "point_list_inv A S'"
        unfolding point_list_inv_def
      proof (intro allI impI)
        fix a' q' assume a': "map_of (ps_point_list S') a' = Some q'"
        show "\<exists>p. map_of (ps_points S') q' = Some p \<and> ar_break_address A p = a' \<and>
          map_of (ps_debug_list S') (ar_debug_address A p) = map_of (ps_break_list S') a'"
        proof (cases "a' = ?a")
          case True
          then show ?thesis using a' m(2) gap dbg by (simp add: S')
        next
          case False
          then have pl': "map_of (ps_point_list S) a' = Some q'" using a' by (simp add: S')
          then obtain p' where p': "map_of (ps_points S) q' = Some p'" "ar_break_address A p' = a'"
            "map_of (ps_debug_list S) (ar_debug_address A p') = map_of (ps_break_list S) a'"
            using pl by (auto simp: point_list_inv_def)
          then have "q' \<noteq> ?q" using new by auto
          then show ?thesis using p' by (simp add: S')
        qed
      qed
      show "break_inv S'" using br None unfolding break_inv_def op by (simp add: S') (metis option.distinct(1))
      show "debug_inv A S'" using d None new unfolding debug_inv_def by (simp add: S') (metis option.distinct(1))
      show "no_gap S' {?a}" using g by (simp add: no_gap_def S')
      have "point_used S' q'" if "point_used S q'" for q'
        using that None by (simp add: point_used_def op) (simp add: S', metis option.distinct(1))
      moreover have "point_used S' ?q" by (auto simp: point_used_def S')
      ultimately show "used_inv S' {} {}" using us by (simp add: used_inv_def obj_used_def) (simp add: S')
    qed
    then show ?thesis using m(1) by (simp add: S')
  qed
qed

lemma insert_new_inv:
  assumes refs: "refs_inv A S {} {} {a}" and m: "minv sites k0 (ps_kernel S) (map_of (ps_points S))"
    and q: "map_of (ps_point_list S) a = Some q" "pr_point (obj_probe ob) = q" and u: "obj_of u = ps_next S"
  shows "sinv sites k0 (insert_probe A (snd (new_obj S ob)) u)"
proof -
  have o: "ordered_inv S" and al: "alive_inv S" and pl: "point_list_inv A S" and br: "break_inv S" and d: "debug_inv A S"
    and g: "no_gap S {a}" and us: "used_inv S {} {}" using refs by (simp_all add: refs_inv_def)
  let ?i = "ps_next S"
  obtain p where p: "map_of (ps_points S) q = Some p" "ar_break_address A p = a"
    "map_of (ps_debug_list S) (ar_debug_address A p) = map_of (ps_break_list S) a"
    using pl q(1) by (auto simp: point_list_inv_def)
  have new: "map_of (ps_objs S) ?i = None" using al unfolding alive_inv_def by (meson less_irrefl not_None_eq)
  define S' where "S' = insert_probe A (snd (new_obj S ob)) u"
  have S': "S' = S\<lparr>ps_objs := bt_insert ?i ob (ps_objs S), ps_next := Suc ?i, ps_handles := ps_handles S @ [?i],
      ps_break_list := insert_point a u (ps_break_list S),
      ps_debug_list := insert_point (ar_debug_address A p) u (ps_debug_list S)\<rparr>"
    using p(1,2) q(2) u by (simp add: S'_def insert_probe_def new_obj_def probe_point_def obj_point_def Let_def)
  have lists: "list_at (ps_debug_list S) (ar_debug_address A p) = list_at (ps_break_list S) a" using p(3) by (simp add: list_at_def)
  have op: "obj_point S' j = (if j = ?i then Some q else obj_point S j)" for j using q(2) by (simp add: S' obj_point_def)
  have old: "obj_of v \<noteq> ?i" if "obj_point S (obj_of v) = Some q'" for v q' using that new by (auto simp: obj_point_def)
  have "refs_inv A S' {} {} {}"
    unfolding refs_inv_def
  proof (intro conjI)
    show "ordered_inv S'" using o by (simp add: ordered_inv_def S' bt_insert_ordered insert_point_ordered)
    show "alive_inv S'" using al p(1) q(2) unfolding alive_inv_def S' by (auto simp: less_Suc_eq)
    show "point_list_inv A S'"
      unfolding point_list_inv_def
    proof (intro allI impI)
      fix a' q' assume "map_of (ps_point_list S') a' = Some q'"
      then have a': "map_of (ps_point_list S) a' = Some q'" by (simp add: S')
      then obtain p' where p': "map_of (ps_points S) q' = Some p'" "ar_break_address A p' = a'"
        "map_of (ps_debug_list S) (ar_debug_address A p') = map_of (ps_break_list S) a'"
        using pl by (auto simp: point_list_inv_def)
      show "\<exists>p. map_of (ps_points S') q' = Some p \<and> ar_break_address A p = a' \<and>
        map_of (ps_debug_list S') (ar_debug_address A p) = map_of (ps_break_list S') a'"
      proof (cases "q' = q")
        case True
        then have "p' = p" "a' = a" using p p' by auto
        then show ?thesis using p' lists by (simp add: S' map_of_insert_point)
      next
        case False
        then have "a' \<noteq> a" "ar_debug_address A p' \<noteq> ar_debug_address A p"
          using a' q(1) debug_apart [OF m p'(1) p(1)] by auto
        then show ?thesis using p' by (simp add: S' map_of_insert_point)
      qed
    qed
    show "break_inv S'"
      unfolding break_inv_def op
    proof (intro allI impI)
      fix a' l assume l: "map_of (ps_break_list S') a' = Some l"
      show "l \<noteq> [] \<and> (\<exists>q'. map_of (ps_point_list S') a' = Some q' \<and>
        (\<forall>v\<in>set l. (if obj_of v = ?i then Some q else obj_point S (obj_of v)) = Some q'))"
      proof (cases "a' = a")
        case True
        have "obj_point S (obj_of v) = Some q" if "v \<in> set (list_at (ps_break_list S) a)" for v
          using list_at_point [OF br q(1) that] .
        then show ?thesis using l True q(1) u by (auto simp: S' map_of_insert_point)
      next
        case False
        then have l': "map_of (ps_break_list S) a' = Some l" using l by (simp add: S' map_of_insert_point)
        from br [unfolded break_inv_def, rule_format, OF l'] obtain q' where "l \<noteq> []"
          "map_of (ps_point_list S) a' = Some q'" "\<forall>v\<in>set l. obj_point S (obj_of v) = Some q'" by blast
        then show ?thesis using old by (auto simp: S')
      qed
    qed
    show "debug_inv A S'"
      unfolding debug_inv_def
    proof (intro allI impI)
      fix e l assume e: "map_of (ps_debug_list S') e = Some l"
      show "\<exists>a q p. map_of (ps_point_list S') a = Some q \<and> map_of (ps_points S') q = Some p \<and> ar_debug_address A p = e"
      proof (cases "e = ar_debug_address A p")
        case True
        then show ?thesis using q(1) p(1) by (auto simp: S')
      next
        case False
        then show ?thesis using e d by (simp add: S' map_of_insert_point debug_inv_def)
      qed
    qed
    show "no_gap S' {}" using g by (auto simp: no_gap_def S' map_of_insert_point)
    have listed': "\<exists>l'. map_of (ps_break_list S') a' = Some l' \<and> set l \<subseteq> set l'"
      if "map_of (ps_break_list S) a' = Some l" for a' l
      using that by (cases "a' = a") (auto simp: S' map_of_insert_point list_at_def)
    have keep: "obj_point S' j = Some q'" if "obj_point S j = Some q'" for j q'
      using that new by (auto simp: S' obj_point_def)
    have "obj_used S' j" if use: "obj_used S j" for j
    proof (cases "j \<in> set (ps_handles S)")
      case True
      then show ?thesis by (simp add: obj_used_def S')
    next
      case False
      then obtain a' l where l: "map_of (ps_break_list S) a' = Some l" "j \<in> obj_of ` set l"
        using use unfolding obj_used_def by blast
      from listed' [OF l(1)] l(2) show ?thesis unfolding obj_used_def by blast
    qed
    moreover have "obj_used S' ?i" by (simp add: obj_used_def S')
    moreover have "point_used S' q'" if "point_used S q'" for q'
      using that keep unfolding point_used_def by (auto simp: S')
    ultimately show "used_inv S' {} {}" using us by (simp add: used_inv_def) (simp add: S')
  qed
  then show ?thesis using m by (simp add: S'_def [symmetric]) (simp add: S')
qed

end

end
