(* ===== verification/ProbeTraps.thy ===== *)
theory ProbeTraps
  imports ProbeManager
begin

text \<open>
  The traps of probes: \<open>kprobe_handler_from_break\<close>, \<open>kprobe_handler_from_debug\<close> and their
  counterparts for user probes, the entry handler of return probes and the handler behind the
  return trampoline.
\<close>

section \<open>Functions of the client\<close>

text \<open>
  A handler gets its data (\<open>None\<close> is the unit value) and may change the registers, a callback gets
  the registers. Every call is recorded.
\<close>

record 'r client =
  cl_handler :: "nat \<Rightarrow> nat option \<Rightarrow> 'r \<Rightarrow> 'r"
  cl_callback :: "nat \<Rightarrow> 'r \<Rightarrow> 'r"

datatype probe_event = HandlerCall nat "nat option" | CallbackCall nat

type_synonym ('k, 'p, 'r) trap_state = "('k, 'p) probe_sys \<times> 'r \<times> probe_event list"

fun data_view :: "ProbeData \<Rightarrow> nat option" where
  "data_view UnitData = None"
| "data_view (UserData d) = Some d"
| "data_view (RetData _) = None"

definition user_call :: "'r client \<Rightarrow> nat \<Rightarrow> nat option \<Rightarrow> ('k, 'p, 'r) trap_state \<Rightarrow> ('k, 'p, 'r) trap_state" where
  "user_call C f d = (\<lambda>(S, regs, log). (S, cl_handler C f d regs, log @ [HandlerCall f d]))"

fun call_callbacks :: "'r client \<Rightarrow> nat list \<Rightarrow> ('k, 'p, 'r) trap_state \<Rightarrow> ('k, 'p, 'r) trap_state" where
  "call_callbacks C [] st = st"
| "call_callbacks C (cb # cbs) (S, regs, log) =
     call_callbacks C cbs (S, cl_callback C cb regs, log @ [CallbackCall cb])"

section \<open>Return probes\<close>

text \<open>\<open>Weak::upgrade\<close> of a reference to a return probe: the object is gone with its last handle.\<close>

definition upgrade :: "('k, 'p) probe_sys \<Rightarrow> nat option \<Rightarrow> Retprobe option" where
  "upgrade S w =
     (case w of
        None \<Rightarrow> None
      | Some i \<Rightarrow> (case map_of (ps_objs S) i of Some (RetObj r) \<Rightarrow> Some r | _ \<Rightarrow> None))"

definition set_ret_data :: "('k, 'p) probe_sys \<Rightarrow> nat \<Rightarrow> RetprobeData \<Rightarrow> ('k, 'p) probe_sys" where
  "set_ret_data S i rd = update_basic S i (\<lambda>pb. pb\<lparr>pb_data := RetData rd\<rparr>)"

text \<open>\<open>pre_handler_kretprobe\<close>, called for the probe \<open>i\<close> with its data.\<close>

definition pre_handler_kretprobe ::
  "('k, 'p, 'r) arch_ops \<Rightarrow> 'k aux_ops \<Rightarrow> 'r client \<Rightarrow> nat \<Rightarrow> ProbeData \<Rightarrow> ('k, 'p, 'r) trap_state \<Rightarrow>
     (panic, ('k, 'p, 'r) trap_state) result" where
  "pre_handler_kretprobe A F C i d = (\<lambda>(S, regs, log).
     case d of
       RetData rd \<Rightarrow>
         if rd_free_instances rd \<noteq> [] then
           let inst = last (rd_free_instances rd);
               S = set_ret_data S i (rd\<lparr>rd_free_instances := butlast (rd_free_instances rd)\<rparr>);
               (inst, regs, k) = ar_rethook_prepare A (ps_kernel S) inst regs;
               S = S\<lparr>ps_kernel := k\<rparr>
           in (case upgrade S (rd_retprobe rd) of
                 None \<Rightarrow> Err Panic
               | Some kretprobe \<Rightarrow>
                   let (S, regs, log) = (case rp_entry_handler kretprobe of
                                           Some f \<Rightarrow> user_call C f (ri_user_data inst) (S, regs, log)
                                         | None \<Rightarrow> (S, regs, log))
                   in Ok (S\<lparr>ps_kernel := push_instance F (ps_kernel S) (inst\<lparr>ri_retprobe := rd_retprobe rd\<rparr>)\<rparr>, regs, log))
         else
           (case (rd_retprobe rd, upgrade S (rd_retprobe rd)) of
              (Some j, Some retprobe) \<Rightarrow>
                Ok (update_obj S j (\<lambda>_. RetObj (retprobe\<lparr>rp_nmissed := rp_nmissed retprobe + 1\<rparr>)), regs, log)
            | _ \<Rightarrow> Err Panic)
     | _ \<Rightarrow> Err Panic)"

text \<open>
  \<open>rethook_trampoline_handler\<close>: \<open>regs_ptr\<close> is the address of the saved registers, which the
  architecture may need to fix the return address up.
\<close>

definition rethook_trampoline_handler ::
  "('k, 'p, 'r) arch_ops \<Rightarrow> 'k aux_ops \<Rightarrow> 'r client \<Rightarrow> usize \<Rightarrow> usize \<Rightarrow> ('k, 'p, 'r) trap_state \<Rightarrow>
     (panic, usize \<times> ('k, 'p, 'r) trap_state) result" where
  "rethook_trampoline_handler A F C regs_ptr frame = (\<lambda>(S, regs, log).
     case pop_instance F (ps_kernel S) of
       None \<Rightarrow> Err Panic
     | Some (inst, k) \<Rightarrow>
         if ri_frame inst \<noteq> frame then Err Panic
         else
           let S = S\<lparr>ps_kernel := k\<rparr> in
           (case (ri_retprobe inst, upgrade S (ri_retprobe inst)) of
              (Some j, Some retprobe) \<Rightarrow>
                let st = (S, regs, log);
                    st = (case rp_ret_handler retprobe of Some f \<Rightarrow> user_call C f (ri_user_data inst) st | None \<Rightarrow> st);
                    (S, regs, log) = call_callbacks C (map snd (rp_event_callbacks retprobe)) st
                in (case pb_data (pr_basic (rp_kprobe retprobe)) of
                      RetData rd \<Rightarrow>
                        let S = set_ret_data S j (rd\<lparr>rd_free_instances := rd_free_instances rd @ [inst]\<rparr>);
                            S = S\<lparr>ps_kernel := ar_rethook_fixup_return A (ps_kernel S) regs_ptr (ri_ret_addr inst)\<rparr>
                        in Ok (ri_ret_addr inst, S, regs, log)
                    | _ \<Rightarrow> Err Panic)
            | _ \<Rightarrow> Err Panic))"

section \<open>Traps\<close>

definition call_pre_handler ::
  "('k, 'p, 'r) arch_ops \<Rightarrow> 'k aux_ops \<Rightarrow> 'r client \<Rightarrow> nat \<Rightarrow> ProbeBasic \<Rightarrow> ('k, 'p, 'r) trap_state \<Rightarrow>
     (panic, ('k, 'p, 'r) trap_state) result" where
  "call_pre_handler A F C i pb st =
     (case pb_pre_handler pb of
        None \<Rightarrow> Ok st
      | Some (UserHandler f) \<Rightarrow> Ok (user_call C f (data_view (pb_data pb)) st)
      | Some PreHandlerKretprobe \<Rightarrow> pre_handler_kretprobe A F C i (pb_data pb) st)"

definition call_post_handler ::
  "('k, 'p, 'r) arch_ops \<Rightarrow> 'k aux_ops \<Rightarrow> 'r client \<Rightarrow> nat \<Rightarrow> ProbeBasic \<Rightarrow> ('k, 'p, 'r) trap_state \<Rightarrow>
     (panic, ('k, 'p, 'r) trap_state) result" where
  "call_post_handler A F C i pb st =
     (case pb_post_handler pb of
        None \<Rightarrow> Ok st
      | Some (UserHandler f) \<Rightarrow> Ok (user_call C f (data_view (pb_data pb)) st)
      | Some PreHandlerKretprobe \<Rightarrow> pre_handler_kretprobe A F C i (pb_data pb) st)"

definition call_fault_handler ::
  "('k, 'p, 'r) arch_ops \<Rightarrow> 'k aux_ops \<Rightarrow> 'r client \<Rightarrow> nat \<Rightarrow> ProbeBasic \<Rightarrow> ('k, 'p, 'r) trap_state \<Rightarrow>
     (panic, ('k, 'p, 'r) trap_state) result" where
  "call_fault_handler A F C i pb st =
     (case pb_fault_handler pb of
        None \<Rightarrow> Ok st
      | Some (UserHandler f) \<Rightarrow> Ok (user_call C f (data_view (pb_data pb)) st)
      | Some PreHandlerKretprobe \<Rightarrow> pre_handler_kretprobe A F C i (pb_data pb) st)"

definition call_event_callback :: "'r client \<Rightarrow> ProbeBasic \<Rightarrow> ('k, 'p, 'r) trap_state \<Rightarrow> ('k, 'p, 'r) trap_state" where
  "call_event_callback C pb st = call_callbacks C (map snd (pb_event_callbacks pb)) st"

text \<open>The loops over the probes at an address; the probe is read when its turn comes.\<close>

definition uni_basic :: "('k, 'p) probe_sys \<Rightarrow> UniProbe \<Rightarrow> ProbeBasic option" where
  "uni_basic S u = map_option (\<lambda>ob. pr_basic (obj_probe ob)) (map_of (ps_objs S) (obj_of u))"

fun pre_loop ::
  "('k, 'p, 'r) arch_ops \<Rightarrow> 'k aux_ops \<Rightarrow> 'r client \<Rightarrow> UniProbe list \<Rightarrow> ('k, 'p, 'r) trap_state \<Rightarrow>
     (panic, ('k, 'p, 'r) trap_state) result" where
  "pre_loop A F C [] st = Ok st"
| "pre_loop A F C (u # us) st =
     and_then
       (case uni_basic (fst st) u of
          Some pb \<Rightarrow> if is_enabled pb then call_pre_handler A F C (obj_of u) pb st else Ok st
        | None \<Rightarrow> Ok st)
       (pre_loop A F C us)"

fun post_loop ::
  "('k, 'p, 'r) arch_ops \<Rightarrow> 'k aux_ops \<Rightarrow> 'r client \<Rightarrow> UniProbe list \<Rightarrow> ('k, 'p, 'r) trap_state \<Rightarrow>
     (panic, ('k, 'p, 'r) trap_state) result" where
  "post_loop A F C [] st = Ok st"
| "post_loop A F C (u # us) st =
     and_then
       (case uni_basic (fst st) u of
          Some pb \<Rightarrow>
            if is_enabled pb then
              and_then (call_post_handler A F C (obj_of u) pb st) (\<lambda>st. Ok (call_event_callback C pb st))
            else Ok st
        | None \<Rightarrow> Ok st)
       (post_loop A F C us)"

text \<open>\<open>list[0].probe_point()\<close>.\<close>

definition first_point :: "('k, 'p) probe_sys \<Rightarrow> UniProbe list \<Rightarrow> (panic, 'p) result" where
  "first_point S l = and_then (nth_of l 0) (\<lambda>u. ok_or (probe_point S u) Panic)"

text \<open>The outcome says whether a probe was found.\<close>

definition kprobe_handler_from_debug ::
  "('k, 'p, 'r) arch_ops \<Rightarrow> 'k aux_ops \<Rightarrow> 'r client \<Rightarrow> ('k, 'p, 'r) trap_state \<Rightarrow>
     (panic, bool \<times> ('k, 'p, 'r) trap_state) result" where
  "kprobe_handler_from_debug A F C = (\<lambda>(S, regs, log).
     case get_debug_list S (ar_reg_debug_address A regs) of
       Some kprobe_list \<Rightarrow>
         and_then (post_loop A F C kprobe_list (S, regs, log)) (\<lambda>(S, regs, log).
         and_then (first_point S kprobe_list) (\<lambda>pt.
           Ok (True, S, ar_clear_single_step A regs (ar_return_address A pt), log)))
     | None \<Rightarrow> Ok (False, S, regs, log))"

definition kprobe_handler_from_break ::
  "('k, 'p, 'r) arch_ops \<Rightarrow> 'k aux_ops \<Rightarrow> 'r client \<Rightarrow> ('k, 'p, 'r) trap_state \<Rightarrow>
     (panic, bool \<times> ('k, 'p, 'r) trap_state) result" where
  "kprobe_handler_from_break A F C = (\<lambda>(S, regs, log).
     case get_break_list S (ar_reg_break_address A regs) of
       Some kprobe_list \<Rightarrow>
         and_then (pre_loop A F C kprobe_list (S, regs, log)) (\<lambda>(S, regs, log).
         and_then (first_point S kprobe_list) (\<lambda>pt.
           Ok (True, S, ar_setup_single_step A regs (ar_single_step_address A pt), log)))
     | None \<Rightarrow> kprobe_handler_from_debug A F C (S, regs, log))"

definition uprobe_handler_from_debug ::
  "('k, 'p, 'r) arch_ops \<Rightarrow> 'k aux_ops \<Rightarrow> 'r client \<Rightarrow> ('k, 'p, 'r) trap_state \<Rightarrow>
     (panic, bool \<times> ('k, 'p, 'r) trap_state) result" where
  "uprobe_handler_from_debug A F C = (\<lambda>(S, regs, log).
     case get_debug_list S (ar_reg_debug_address A regs) of
       Some uprobe_list \<Rightarrow>
         and_then (post_loop A F C uprobe_list (S, regs, log)) (\<lambda>(S, regs, log).
         and_then (first_point S uprobe_list) (\<lambda>pt.
           Ok (True, S, ar_clear_single_step A regs (ar_return_address A pt), log)))
     | None \<Rightarrow> Ok (False, S, regs, log))"

text \<open>
  The first hit of a user probe copies the prepared slot to a page of the process, stores that
  page in the shared point and moves the debug list to the new address.
\<close>

definition prepare_user_slot ::
  "('k, 'p, 'r) arch_ops \<Rightarrow> 'k aux_ops \<Rightarrow> ('k, 'p) probe_sys \<Rightarrow> nat \<Rightarrow> 'p \<Rightarrow> usize \<times> ('k, 'p) probe_sys" where
  "prepare_user_slot A F S q pt =
     (let slot = read_bytes F (ps_kernel S) None (ar_single_step_address A pt) (ar_instruction_slot_len A pt);
          (user_ptr, k) = alloc_user F (ps_kernel S) (ar_pid A pt) slot;
          old_debug_address = ar_debug_address A pt;
          (pt, new_debug_address) = ar_set_dynamic_user_ptr A pt user_ptr;
          S = S\<lparr>ps_kernel := k, ps_points := bt_insert q pt (ps_points S)\<rparr>
      in (user_ptr, replace_debug_list_with_new_address old_debug_address new_debug_address S))"

definition uprobe_handler_from_break ::
  "('k, 'p, 'r) arch_ops \<Rightarrow> 'k aux_ops \<Rightarrow> 'r client \<Rightarrow> ('k, 'p, 'r) trap_state \<Rightarrow>
     (panic, bool \<times> ('k, 'p, 'r) trap_state) result" where
  "uprobe_handler_from_break A F C = (\<lambda>(S, regs, log).
     case get_break_list S (ar_reg_break_address A regs) of
       Some uprobe_list \<Rightarrow>
         and_then (pre_loop A F C uprobe_list (S, regs, log)) (\<lambda>(S, regs, log).
         and_then (nth_of uprobe_list 0) (\<lambda>u.
         and_then (ok_or (obj_point S (obj_of u)) Panic) (\<lambda>q.
         and_then (ok_or (map_of (ps_points S) q) Panic) (\<lambda>pt.
           if ar_dynamic_user_ptr A pt \<noteq> 0 then
             Ok (True, S, ar_setup_single_step A regs (ar_dynamic_user_ptr A pt), log)
           else
             let (user_ptr, S) = prepare_user_slot A F S q pt
             in Ok (True, S, ar_setup_single_step A regs user_ptr, log)))))
     | None \<Rightarrow> uprobe_handler_from_debug A F C (S, regs, log))"

end
