(* ===== verification/ProbeKinds.thy ===== *)
theory ProbeKinds
  imports ProbeTraps
begin

text \<open>
  What clients can build: probes whose handlers are their own functions, and return probes whose
  data refers back to them. Together with the distinctness of the lists this makes the handlers of
  a trap run without a panic, each probe once.
\<close>

section \<open>Kinds of probes\<close>

definition client_probe :: "ProbeBasic \<Rightarrow> bool" where
  "client_probe pb \<longleftrightarrow>
     pb_pre_handler pb \<noteq> Some PreHandlerKretprobe \<and> pb_post_handler pb \<noteq> Some PreHandlerKretprobe \<and>
     pb_fault_handler pb \<noteq> Some PreHandlerKretprobe \<and> (\<forall>rd. pb_data pb \<noteq> RetData rd)"

definition ret_probe :: "nat \<Rightarrow> ProbeBasic \<Rightarrow> bool" where
  "ret_probe i pb \<longleftrightarrow>
     pb_pre_handler pb = Some PreHandlerKretprobe \<and> pb_post_handler pb = None \<and> pb_fault_handler pb = None \<and>
     (\<exists>free. pb_data pb = RetData \<lparr>rd_free_instances = free, rd_retprobe = Some i\<rparr>)"

fun kind_ok :: "nat \<Rightarrow> probe_obj \<Rightarrow> bool" where
  "kind_ok i (ProbeObj p) \<longleftrightarrow> client_probe (pr_basic p)"
| "kind_ok i (RetObj r) \<longleftrightarrow> ret_probe i (pr_basic (rp_kprobe r))"

definition kinds_inv :: "('k, 'p) probe_sys \<Rightarrow> bool" where
  "kinds_inv S \<longleftrightarrow>
     key_ordered (ps_objs S) \<and>
     (\<forall>i ob. map_of (ps_objs S) i = Some ob \<longrightarrow> i < ps_next S \<and> kind_ok i ob) \<and>
     (\<forall>a l. map_of (ps_break_list S) a = Some l \<longrightarrow> distinct (map obj_of l) \<and> (\<forall>u \<in> set l. obj_of u < ps_next S))"

lemma kinds_init: "kinds_inv (ProbeManager_new k)"
  by (simp add: kinds_inv_def ProbeManager_new_def)

lemma kinds_obj: "kinds_inv S \<Longrightarrow> map_of (ps_objs S) i = Some ob \<Longrightarrow> kind_ok i ob"
  by (simp add: kinds_inv_def)

text \<open>Builders of clients: the methods of \<open>ProbeBuilder\<close> take functions of the client only.\<close>

definition client_builder :: "ProbeBuilder \<Rightarrow> bool" where
  "client_builder b \<longleftrightarrow> bd_probe_point b = None \<and> client_probe (ProbeBasic_from b)"

lemma client_builder_new: "client_builder ProbeBuilder_new"
  by (simp add: client_builder_def client_probe_def ProbeBuilder_new_def ProbeBasic_from_def)

lemma client_builder_with:
  assumes "client_builder b"
  shows "client_builder (with_enable e b)" "client_builder (with_symbol_addr a b)" "client_builder (with_offset a b)"
    "client_builder (with_symbol s b)" "client_builder (with_user_mode pid b)" "client_builder (with_data d b)"
    "client_builder (with_pre_handler f b)" "client_builder (with_post_handler f b)" "client_builder (with_fault_handler f b)"
    "client_builder (with_event_callback n cb b)"
  using assms
  by (simp_all add: client_builder_def client_probe_def ProbeBasic_from_def with_enable_def with_symbol_addr_def
    with_offset_def with_symbol_def with_user_mode_def with_data_def with_pre_handler_def with_post_handler_def
    with_fault_handler_def with_event_callback_def)

section \<open>Preservation\<close>

text \<open>Operations that only remove objects and list entries.\<close>

lemma kinds_less:
  assumes "kinds_inv S" "key_ordered (ps_objs S')" "ps_next S \<le> ps_next S'"
    and "\<And>i ob. map_of (ps_objs S') i = Some ob \<Longrightarrow> map_of (ps_objs S) i = Some ob"
    and "\<And>a l. map_of (ps_break_list S') a = Some l \<Longrightarrow> \<exists>l' P. map_of (ps_break_list S) a = Some l' \<and> l = filter P l'"
  shows "kinds_inv S'"
  unfolding kinds_inv_def
proof (intro conjI allI impI)
  show "key_ordered (ps_objs S')" by (rule assms(2))
  fix i ob assume "map_of (ps_objs S') i = Some ob"
  from assms(4) [OF this] assms(1,3) show "i < ps_next S'" "kind_ok i ob" unfolding kinds_inv_def by (auto dest: less_le_trans)
next
  fix a l assume "map_of (ps_break_list S') a = Some l"
  from assms(5) [OF this] obtain l' P where l': "map_of (ps_break_list S) a = Some l'" "l = filter P l'" by blast
  then have "distinct (map obj_of l')" "\<forall>u \<in> set l'. obj_of u < ps_next S" using assms(1) unfolding kinds_inv_def by blast+
  then show "distinct (map obj_of l)" "\<forall>u \<in> set l. obj_of u < ps_next S'"
    using l'(2) assms(3) by (auto simp: distinct_map_filter dest: less_le_trans)
qed

lemma kinds_release_point: "kinds_inv S \<Longrightarrow> kinds_inv (release_point A S q)"
  by (auto simp: release_point_def kinds_inv_def split: option.splits)

lemma kinds_release_obj:
  assumes "kinds_inv S"
  shows "kinds_inv (release_obj A S i)"
proof -
  have "kinds_inv (S\<lparr>ps_objs := bt_remove i (ps_objs S)\<rparr>)"
    using assms by (auto simp: kinds_inv_def bt_remove_ordered map_of_bt_remove split: if_splits)
  then show ?thesis using assms by (auto simp: release_obj_def kinds_release_point split: option.splits)
qed

lemma remove_one_at:
  assumes "map_of (remove_one a u ls) a' = Some l"
  shows "\<exists>l' P. map_of ls a' = Some l' \<and> l = filter P l'"
proof (cases "a' = a")
  case True
  then show ?thesis
    using assms by (auto simp: remove_one_def list_at_def Let_def map_of_bt_remove split: option.splits if_splits)
next
  case False
  then have "map_of ls a' = Some l"
    using assms by (auto simp: remove_one_def list_at_def Let_def map_of_bt_remove split: option.splits if_splits)
  then show ?thesis by (intro exI [of _ l] exI [of _ "\<lambda>x. True"]) simp
qed

lemma kinds_unregister:
  assumes "kinds_inv S"
  shows "kinds_inv (unregister_probe A S u)"
proof (cases "probe_point S u")
  case (Some pt)
  have "kinds_inv (S\<lparr>ps_break_list := remove_one (ar_break_address A pt) u (ps_break_list S),
      ps_debug_list := remove_one (ar_debug_address A pt) u (ps_debug_list S), ps_handles := remove1 (obj_of u) (ps_handles S)\<rparr>)"
    using assms remove_one_at by (intro kinds_less [OF assms]) (auto simp: kinds_inv_def)
  from kinds_release_obj [OF this, of A "obj_of u"] have k: "kinds_inv (remove_probe A S u)"
    using Some by (simp add: remove_probe_def)
  then have "kinds_inv ((remove_probe A S u)\<lparr>ps_point_list := pl\<rparr>)" for pl by (simp add: kinds_inv_def)
  then show ?thesis using Some k by (auto simp: unregister_probe_def Let_def kinds_release_point split: option.splits)
qed (use assms in \<open>simp add: unregister_probe_def\<close>)

lemma kinds_drop_handle: "kinds_inv S \<Longrightarrow> kinds_inv (drop_handle A S i)"
  unfolding drop_handle_def by (rule kinds_release_obj) (simp add: kinds_inv_def)

lemma kinds_clone_handle: "kinds_inv S \<Longrightarrow> kinds_inv (clone_handle S i)"
  by (simp add: clone_handle_def kinds_inv_def)

lemma kinds_update_obj:
  assumes "kinds_inv S" "\<And>ob. map_of (ps_objs S) i = Some ob \<Longrightarrow> kind_ok i ob \<Longrightarrow> kind_ok i (f ob)"
  shows "kinds_inv (update_obj S i f)"
  using assms by (auto simp: update_obj_def kinds_inv_def bt_insert_ordered split: option.splits)

lemma kinds_update_basic:
  assumes "kinds_inv S" "\<And>pb. client_probe pb \<Longrightarrow> client_probe (f pb)" "\<And>pb. ret_probe i pb \<Longrightarrow> ret_probe i (f pb)"
  shows "kinds_inv (update_basic S i f)"
  unfolding update_basic_def
proof (rule kinds_update_obj [OF assms(1)])
  fix ob assume "kind_ok i ob"
  then show "kind_ok i (set_obj_probe ob ((obj_probe ob)\<lparr>pr_basic := f (pr_basic (obj_probe ob))\<rparr>))"
    using assms(2,3) by (cases ob) auto
qed

lemma kinds_kernel: "kinds_inv S \<Longrightarrow> kinds_inv (S\<lparr>ps_kernel := k\<rparr>)"
  by (simp add: kinds_inv_def)

lemma inner_same:
  assumes "register_kprobe_inner A S b = (r, S')"
  shows "ps_objs S' = ps_objs S" "ps_break_list S' = ps_break_list S" "ps_handles S' = ps_handles S" "ps_next S \<le> ps_next S'"
  using assms
  by (auto simp: register_kprobe_inner_def install_def Let_def split: option.splits prod.splits sum.splits)

lemma kinds_inner:
  assumes "kinds_inv S" "register_kprobe_inner A S b = (r, S')"
  shows "kinds_inv S'"
  using assms(1) unfolding kinds_inv_def inner_same(1,2) [OF assms(2)] by (meson inner_same(4) [OF assms(2)] less_le_trans)

lemma inner_basic:
  assumes "register_kprobe_inner A S b = (Inr p, S')"
  shows "pr_basic p = ProbeBasic_from b"
  using assms
  by (auto simp: register_kprobe_inner_def install_def Let_def with_probe_point_def ProbeBasic_from_def
    split: option.splits prod.splits sum.splits)

lemma kinds_insert_new:
  assumes "kinds_inv S" "kind_ok (ps_next S) ob" "obj_of u = ps_next S"
  shows "kinds_inv (insert_probe A (snd (new_obj S ob)) u)"
proof -
  let ?i = "ps_next S"
  let ?S = "snd (new_obj S ob)"
  have new: "?i \<notin> obj_of ` set (list_at (ps_break_list S) a)" for a
    using assms(1) by (force simp: kinds_inv_def list_at_def split: option.splits)
  have old: "distinct (map obj_of (list_at (ps_break_list S) a))" "\<forall>u\<in>set (list_at (ps_break_list S) a). obj_of u < ?i" for a
    using assms(1) by (cases "map_of (ps_break_list S) a"; simp add: kinds_inv_def list_at_def)+
  have S: "kinds_inv ?S" using assms(1,2) by (auto simp: new_obj_def Let_def kinds_inv_def bt_insert_ordered less_Suc_eq)
  have br: "ps_break_list ?S = ps_break_list S" "ps_next ?S = Suc ?i" by (simp_all add: new_obj_def Let_def)
  have "kinds_inv (?S\<lparr>ps_break_list := insert_point a u (ps_break_list ?S), ps_debug_list := d\<rparr>)" for a d
    using S new [of a] old [of a] assms(3)
    unfolding kinds_inv_def br by (auto simp: insert_point_def br less_Suc_eq split: if_splits)
  then show ?thesis using S by (auto simp: insert_probe_def split: option.splits)
qed

lemma kinds_register_kprobe:
  assumes "kinds_inv S" "client_builder b" "register_kprobe A S b = (r, S')"
  shows "kinds_inv S'"
proof (cases "register_kprobe_inner A S b")
  case (Pair r1 S1)
  have k: "kinds_inv S1" by (rule kinds_inner [OF assms(1) Pair])
  show ?thesis
  proof (cases r1)
    case (Inl e)
    then show ?thesis using assms(3) Pair k by (simp add: register_kprobe_def)
  next
    case (Inr p)
    have "S' = insert_probe A (snd (new_obj S1 (ProbeObj p))) (Kprobe (ps_next S1))"
      using assms(3) Pair Inr by (auto simp: register_kprobe_def new_obj_def Let_def)
    moreover have "client_probe (pr_basic p)" using inner_basic [of A S b p S1] Pair Inr assms(2) by (simp add: client_builder_def)
    ultimately show ?thesis using kinds_insert_new [OF k, of "ProbeObj p" "Kprobe (ps_next S1)" A] by simp
  qed
qed

lemma kinds_register_uprobe:
  assumes "kinds_inv S" "client_builder b" "register_uprobe A S b = Ok (r, S')"
  shows "kinds_inv S'"
proof (cases "register_kprobe_inner A S b")
  case (Pair r1 S1)
  have k: "kinds_inv S1" by (rule kinds_inner [OF assms(1) Pair])
  show ?thesis
  proof (cases r1)
    case (Inl e)
    then show ?thesis using assms(3) Pair k by (simp add: register_uprobe_def split: if_splits)
  next
    case (Inr p)
    have "S' = insert_probe A (snd (new_obj S1 (ProbeObj p))) (Uprobe (ps_next S1))"
      using assms(3) Pair Inr by (auto simp: register_uprobe_def new_obj_def Let_def split: if_splits)
    moreover have "client_probe (pr_basic p)" using inner_basic [of A S b p S1] Pair Inr assms(2) by (simp add: client_builder_def)
    ultimately show ?thesis using kinds_insert_new [OF k, of "ProbeObj p" "Uprobe (ps_next S1)" A] by simp
  qed
qed

text \<open>The probe of a return probe builder, and the object that registration makes of it.\<close>

definition ret_obj :: "RetprobeBuilder \<Rightarrow> nat \<Rightarrow> nat \<Rightarrow> probe_obj" where
  "ret_obj rb i q =
     RetObj (Retprobe_new
       \<lparr>pr_basic = (ProbeBasic_from (ProbeBuilder_from rb))
          \<lparr>pb_data := RetData \<lparr>rd_free_instances = new_instances (unat (rb_maxactive rb)) (rb_data rb) [], rd_retprobe = Some i\<rparr>\<rparr>,
        pr_point = q\<rparr> (rb_entry_handler rb) (rb_ret_handler rb))"

lemma kind_ok_ret_obj: "kind_ok i (ret_obj rb i q)"
  by (simp add: ret_obj_def Retprobe_new_def ret_probe_def ProbeBasic_from_def ProbeBuilder_from_def)

lemma register_kretprobe_cases:
  assumes "register_kprobe_inner A S (ProbeBuilder_from rb) = (r, S1)"
  shows "register_kretprobe A S rb =
    (case r of Inl e \<Rightarrow> Ok (Err e, S1)
     | Inr p \<Rightarrow> Ok (Ok (ps_next S1), insert_probe A (snd (new_obj S1 (ret_obj rb (ps_next S1) (pr_point p)))) (Kretprobe (ps_next S1))))"
proof (cases r)
  case (Inr p)
  have "pr_basic p = ProbeBasic_from (ProbeBuilder_from rb)" using inner_basic [of A S _ p S1] assms Inr by simp
  then show ?thesis
    using assms Inr
    by (cases p) (simp add: register_kretprobe_def ret_handler_def new_obj_def Let_def ret_obj_def ProbeBasic_from_def
      ProbeBuilder_from_def Retprobe_new_def)
qed (use assms in \<open>simp add: register_kretprobe_def ret_handler_def\<close>)

lemma kinds_register_kretprobe:
  assumes "kinds_inv S" "register_kretprobe A S rb = Ok (r, S')"
  shows "kinds_inv S'"
proof (cases "register_kprobe_inner A S (ProbeBuilder_from rb)")
  case (Pair r1 S1)
  have k: "kinds_inv S1" by (rule kinds_inner [OF assms(1) Pair])
  with assms(2) register_kretprobe_cases [OF Pair] show ?thesis
    using kinds_insert_new [OF k kind_ok_ret_obj, of "Kretprobe (ps_next S1)"] by (auto split: sum.splits)
qed

end
