(* ===== verification/ProbeCalls.thy ===== *)
theory ProbeCalls
  imports ProbeKinds ProbeLaws
begin

text \<open>
  What a trap does: the calls it makes, the part of the state it may change, and that it does not
  panic. The hooks of the architecture come in through the locale \<open>probe_hooks\<close>.
\<close>

section \<open>The calls of a trap\<close>

text \<open>The enabled probes at an address are called in the order of the list.\<close>

definition handler_calls :: "ProbeHandler option \<Rightarrow> ProbeData \<Rightarrow> probe_event list" where
  "handler_calls h d = (case h of Some (UserHandler f) \<Rightarrow> [HandlerCall f (data_view d)] | _ \<Rightarrow> [])"

definition ret_instances :: "ProbeBasic \<Rightarrow> RetprobeInstance list" where
  "ret_instances pb = (case pb_data pb of RetData rd \<Rightarrow> rd_free_instances rd | _ \<Rightarrow> [])"

fun obj_pre_calls :: "probe_obj \<Rightarrow> probe_event list" where
  "obj_pre_calls (ProbeObj p) =
     (if is_enabled (pr_basic p) then handler_calls (pb_pre_handler (pr_basic p)) (pb_data (pr_basic p)) else [])"
| "obj_pre_calls (RetObj r) =
     (let pb = pr_basic (rp_kprobe r) in
      if is_enabled pb \<and> ret_instances pb \<noteq> [] then
        (case rp_entry_handler r of Some f \<Rightarrow> [HandlerCall f (ri_user_data (last (ret_instances pb)))] | None \<Rightarrow> [])
      else [])"

definition obj_post_calls :: "probe_obj \<Rightarrow> probe_event list" where
  "obj_post_calls ob =
     (let pb = pr_basic (obj_probe ob) in
      if is_enabled pb
      then handler_calls (pb_post_handler pb) (pb_data pb) @ map (\<lambda>(_, cb). CallbackCall cb) (pb_event_callbacks pb)
      else [])"

text \<open>No return probe is among the probes of a list.\<close>

definition no_retprobe :: "('k, 'p) probe_sys \<Rightarrow> UniProbe list \<Rightarrow> bool" where
  "no_retprobe S l \<longleftrightarrow> (\<forall>u \<in> set l. \<forall>r. map_of (ps_objs S) (obj_of u) \<noteq> Some (RetObj r))"

definition list_calls :: "(probe_obj \<Rightarrow> probe_event list) \<Rightarrow> ('k, 'p) probe_sys \<Rightarrow> UniProbe list \<Rightarrow> probe_event list" where
  "list_calls calls S l = concat (map (\<lambda>u. case map_of (ps_objs S) (obj_of u) of Some ob \<Rightarrow> calls ob | None \<Rightarrow> []) l)"

lemma list_calls_simps [simp]:
  "list_calls calls S [] = []"
  "list_calls calls S (u # l) = (case map_of (ps_objs S) (obj_of u) of Some ob \<Rightarrow> calls ob | None \<Rightarrow> []) @ list_calls calls S l"
  by (simp_all add: list_calls_def)

text \<open>The registers that a sequence of calls leaves.\<close>

fun apply_call :: "'r client \<Rightarrow> probe_event \<Rightarrow> 'r \<Rightarrow> 'r" where
  "apply_call C (HandlerCall f d) regs = cl_handler C f d regs"
| "apply_call C (CallbackCall cb) regs = cl_callback C cb regs"

definition handled :: "'r client \<Rightarrow> probe_event list \<Rightarrow> 'r \<Rightarrow> 'r" where
  "handled C calls regs = fold (apply_call C) calls regs"

lemma handled_simps [simp]:
  "handled C [] regs = regs" "handled C (calls @ calls') regs = handled C calls' (handled C calls regs)"
  by (simp_all add: handled_def)

section \<open>What a trap may change\<close>

text \<open>A return probe may lose a free instance or count a miss; all else of the probes stays.\<close>

definition set_free :: "nat \<Rightarrow> RetprobeInstance list \<Rightarrow> u64 \<Rightarrow> Retprobe \<Rightarrow> Retprobe" where
  "set_free i free n r =
     r\<lparr>rp_kprobe := (rp_kprobe r)\<lparr>pr_basic := (pr_basic (rp_kprobe r))
         \<lparr>pb_data := RetData \<lparr>rd_free_instances = free, rd_retprobe = Some i\<rparr>\<rparr>\<rparr>,
       rp_nmissed := n\<rparr>"

fun same_obj :: "nat \<Rightarrow> probe_obj \<Rightarrow> probe_obj \<Rightarrow> bool" where
  "same_obj i (ProbeObj p) ob' \<longleftrightarrow> ob' = ProbeObj p"
| "same_obj i (RetObj r) ob' \<longleftrightarrow> (\<exists>free n. ob' = RetObj (set_free i free n r))"

definition same_probes :: "('k, 'p) probe_sys \<Rightarrow> ('k, 'p) probe_sys \<Rightarrow> bool" where
  "same_probes S S' \<longleftrightarrow>
     (\<exists>k objs. S' = S\<lparr>ps_kernel := k, ps_objs := objs\<rparr> \<and> key_ordered objs \<and>
        (\<forall>i. rel_option (same_obj i) (map_of (ps_objs S) i) (map_of objs i)))"

lemma same_obj_refl: "kind_ok i ob \<Longrightarrow> same_obj i ob ob"
proof (cases ob)
  case (RetObj r)
  assume "kind_ok i ob"
  then obtain free where "pb_data (pr_basic (rp_kprobe r)) = RetData \<lparr>rd_free_instances = free, rd_retprobe = Some i\<rparr>"
    using RetObj by (auto simp: ret_probe_def)
  then have "r = set_free i free (rp_nmissed r) r" by (simp add: set_free_def)
  then show ?thesis using RetObj by (auto intro!: exI)
qed simp

lemma same_obj_trans: "same_obj i ob ob' \<Longrightarrow> same_obj i ob' ob'' \<Longrightarrow> same_obj i ob ob''"
  by (cases ob) (auto simp: set_free_def)

lemma same_obj_facts:
  assumes "same_obj i ob ob'"
  shows "pr_point (obj_probe ob') = pr_point (obj_probe ob)" "kind_ok i ob \<Longrightarrow> kind_ok i ob'"
    "kind_ok i ob \<Longrightarrow> obj_post_calls ob' = obj_post_calls ob"
  using assms by (cases ob; auto simp: set_free_def ret_probe_def obj_post_calls_def handler_calls_def is_enabled_def Let_def)+

lemma same_probes_refl: "kinds_inv S \<Longrightarrow> same_probes S S"
  unfolding same_probes_def
  by (intro exI [of _ "ps_kernel S"] exI [of _ "ps_objs S"])
     (auto simp: kinds_inv_def same_obj_refl intro!: option.rel_refl_strong)

lemma same_probes_trans:
  assumes "same_probes S S'" "same_probes S' S''"
  shows "same_probes S S''"
proof -
  obtain k objs where 1: "S' = S\<lparr>ps_kernel := k, ps_objs := objs\<rparr>"
    "\<And>i. rel_option (same_obj i) (map_of (ps_objs S) i) (map_of objs i)"
    using assms(1) by (auto simp: same_probes_def)
  obtain k' objs' where 2: "S'' = S'\<lparr>ps_kernel := k', ps_objs := objs'\<rparr>" "key_ordered objs'"
    "\<And>i. rel_option (same_obj i) (map_of objs i) (map_of objs' i)"
    using assms(2) 1(1) by (auto simp: same_probes_def)
  have "rel_option (same_obj i) (map_of (ps_objs S) i) (map_of objs' i)" for i
    using 1(2) [of i] 2(3) [of i] by (auto simp: option_rel_Some1 option_rel_Some2 elim!: option.rel_cases intro: same_obj_trans)
  then show ?thesis unfolding same_probes_def 2(1) 1(1) using 2(2) by (intro exI conjI) (auto simp: fun_eq_iff)
qed

lemma same_probes_fields:
  assumes "same_probes S S'"
  shows "ps_points S' = ps_points S" "ps_next S' = ps_next S" "ps_handles S' = ps_handles S"
    "ps_break_list S' = ps_break_list S" "ps_debug_list S' = ps_debug_list S" "ps_point_list S' = ps_point_list S"
    "key_ordered (ps_objs S')"
    "rel_option (same_obj i) (map_of (ps_objs S) i) (map_of (ps_objs S') i)"
    "obj_point S' i = obj_point S i" "probe_point S' u = probe_point S u"
proof -
  obtain k objs where S': "S' = S\<lparr>ps_kernel := k, ps_objs := objs\<rparr>" "key_ordered objs"
    "\<And>i. rel_option (same_obj i) (map_of (ps_objs S) i) (map_of objs i)"
    using assms by (auto simp: same_probes_def)
  show "ps_points S' = ps_points S" "ps_next S' = ps_next S" "ps_handles S' = ps_handles S"
    "ps_break_list S' = ps_break_list S" "ps_debug_list S' = ps_debug_list S" "ps_point_list S' = ps_point_list S"
    "key_ordered (ps_objs S')" "rel_option (same_obj i) (map_of (ps_objs S) i) (map_of (ps_objs S') i)"
    using S' by simp_all
  have op: "obj_point S' j = obj_point S j" for j
    using S'(3) [of j] S'(1) by (auto simp: obj_point_def elim!: option.rel_cases dest: same_obj_facts(1))
  then show "obj_point S' i = obj_point S i" "probe_point S' u = probe_point S u" using S'(1) by (simp_all add: probe_point_def)
qed

lemma same_probes_kinds:
  assumes "same_probes S S'" "kinds_inv S"
  shows "kinds_inv S'"
  unfolding kinds_inv_def same_probes_fields(2,4) [OF assms(1)]
proof (intro conjI)
  show "key_ordered (ps_objs S')" by (rule same_probes_fields(7) [OF assms(1)])
  show "\<forall>i ob. map_of (ps_objs S') i = Some ob \<longrightarrow> i < ps_next S \<and> kind_ok i ob"
  proof (intro allI impI)
    fix i ob assume "map_of (ps_objs S') i = Some ob"
    then obtain ob0 where "map_of (ps_objs S) i = Some ob0" "same_obj i ob0 ob"
      using same_probes_fields(8) [OF assms(1), of i] by (auto simp: option_rel_Some2)
    then show "i < ps_next S \<and> kind_ok i ob" using assms(2) same_obj_facts(2) unfolding kinds_inv_def by blast
  qed
  show "\<forall>a l. map_of (ps_break_list S) a = Some l \<longrightarrow> distinct (map obj_of l) \<and> (\<forall>u\<in>set l. obj_of u < ps_next S)"
    using assms(2) unfolding kinds_inv_def by blast
qed

lemma same_probes_post_calls:
  assumes "same_probes S S'" "kinds_inv S"
  shows "list_calls obj_post_calls S' l = list_calls obj_post_calls S l"
proof -
  have "(case map_of (ps_objs S') i of Some ob \<Rightarrow> obj_post_calls ob | None \<Rightarrow> []) =
      (case map_of (ps_objs S) i of Some ob \<Rightarrow> obj_post_calls ob | None \<Rightarrow> [])" for i
    using same_probes_fields(8) [OF assms(1), of i] kinds_obj [OF assms(2), of i]
    by (auto elim!: option.rel_cases simp: same_obj_facts(3))
  then show ?thesis by (simp add: list_calls_def)
qed

lemma same_probes_update:
  assumes "kinds_inv S" "map_of (ps_objs S) i = Some ob" "same_obj i ob ob'"
  shows "same_probes S (S\<lparr>ps_kernel := k, ps_objs := bt_insert i ob' (ps_objs S)\<rparr>)"
  unfolding same_probes_def
  using assms by (intro exI [of _ k] exI [of _ "bt_insert i ob' (ps_objs S)"])
    (auto simp: kinds_inv_def bt_insert_ordered same_obj_refl intro!: option.rel_refl_strong)

lemma same_probes_kernel: "kinds_inv S \<Longrightarrow> same_probes S (S\<lparr>ps_kernel := k\<rparr>)"
  unfolding same_probes_def
  by (intro exI [of _ k] exI [of _ "ps_objs S"]) (auto simp: kinds_inv_def same_obj_refl intro!: option.rel_refl_strong)

section \<open>After the single step\<close>

lemma call_callbacks_eq:
  "call_callbacks C cbs (S, regs, log) = (S, fold (cl_callback C) cbs regs, log @ map CallbackCall cbs)"
  by (induction cbs arbitrary: regs log) auto

lemma handled_callbacks: "fold (cl_callback C) cbs regs = handled C (map CallbackCall cbs) regs"
  by (induction cbs arbitrary: regs) (simp_all add: handled_def)

lemma call_post_handler_ok:
  assumes "kind_ok i ob" "is_enabled (pr_basic (obj_probe ob))"
  shows "and_then (call_post_handler A F C i (pr_basic (obj_probe ob)) (S, regs, log))
      (\<lambda>st. Ok (call_event_callback C (pr_basic (obj_probe ob)) st)) =
    Ok (S, handled C (obj_post_calls ob) regs, log @ obj_post_calls ob)"
proof -
  let ?pb = "pr_basic (obj_probe ob)"
  let ?calls = "handler_calls (pb_post_handler ?pb) (pb_data ?pb)"
  have "pb_post_handler ?pb \<noteq> Some PreHandlerKretprobe"
    using assms(1) by (cases ob) (auto simp: client_probe_def ret_probe_def)
  then have "call_post_handler A F C i ?pb (S, regs, log) = Ok (S, handled C ?calls regs, log @ ?calls)"
    by (cases "pb_post_handler ?pb")
       (auto simp: call_post_handler_def handler_calls_def user_call_def handled_def split: ProbeHandler.splits)
  then show ?thesis
    using assms(2) by (simp add: call_event_callback_def call_callbacks_eq handled_callbacks obj_post_calls_def Let_def
      comp_def case_prod_unfold)
qed

lemma post_loop_ok:
  assumes "kinds_inv S"
  shows "post_loop A F C l (S, regs, log) =
    Ok (S, handled C (list_calls obj_post_calls S l) regs, log @ list_calls obj_post_calls S l)"
proof (induction l arbitrary: regs log)
  case (Cons u l)
  let ?i = "obj_of u" and ?calls = "case map_of (ps_objs S) (obj_of u) of Some ob \<Rightarrow> obj_post_calls ob | None \<Rightarrow> []"
  have "(case uni_basic S u of
       Some pb \<Rightarrow> if is_enabled pb
         then and_then (call_post_handler A F C ?i pb (S, regs, log)) (\<lambda>st. Ok (call_event_callback C pb st))
         else Ok (S, regs, log)
     | None \<Rightarrow> Ok (S, regs, log)) = Ok (S, handled C ?calls regs, log @ ?calls)"
  proof (cases "map_of (ps_objs S) ?i")
    case (Some ob)
    show ?thesis
    proof (cases "is_enabled (pr_basic (obj_probe ob))")
      case True
      show ?thesis using call_post_handler_ok [OF kinds_obj [OF assms Some] True] Some True by (simp add: uni_basic_def)
    next
      case False
      then show ?thesis using Some by (simp add: uni_basic_def obj_post_calls_def Let_def)
    qed
  qed (simp add: uni_basic_def)
  then show ?case using Cons.IH by simp
qed simp

lemma debug_trap_ok:
  assumes "kinds_inv S" "map_of (ps_debug_list S) (ar_reg_debug_address A regs) = Some (u # l)" "probe_point S u = Some pt"
  shows "kprobe_handler_from_debug A F C (S, regs, log) =
    Ok (True, S, ar_clear_single_step A (handled C (list_calls obj_post_calls S (u # l)) regs) (ar_return_address A pt),
      log @ list_calls obj_post_calls S (u # l))"
  using assms(2,3) post_loop_ok [OF assms(1), of A F C "u # l" regs log]
  by (simp add: kprobe_handler_from_debug_def get_debug_list_def first_point_def nth_of_def ok_or_def
    del: post_loop.simps list_calls_simps)

text \<open>The two handlers for the trap behind an instruction are the same function.\<close>

lemma uprobe_debug_eq: "uprobe_handler_from_debug = kprobe_handler_from_debug"
  by (simp add: fun_eq_iff uprobe_handler_from_debug_def kprobe_handler_from_debug_def)

lemma debug_trap_none:
  "map_of (ps_debug_list S) (ar_reg_debug_address A regs) = None \<Longrightarrow>
     kprobe_handler_from_debug A F C (S, regs, log) = Ok (False, S, regs, log)"
  by (simp add: kprobe_handler_from_debug_def get_debug_list_def)

section \<open>Hooks\<close>

text \<open>A step that changes the kernel's memory in \<open>T\<close> only.\<close>

definition touches :: "'k aux_ops \<Rightarrow> ('k \<Rightarrow> (space \<times> usize) set) \<Rightarrow> usize set \<Rightarrow> 'k \<Rightarrow> 'k \<Rightarrow> bool" where
  "touches F pages T k k' \<longleftrightarrow>
     pages k' = pages k \<and> (\<forall>s x. \<not> (s = None \<and> x \<in> T) \<longrightarrow> mem_read F k' s x = mem_read F k s x)"

lemma touches_refl [simp]: "touches F pages T k k"
  by (simp add: touches_def)

lemma touches_trans: "touches F pages T k k' \<Longrightarrow> touches F pages T k' k'' \<Longrightarrow> touches F pages T k k''"
  by (simp add: touches_def)

lemma touches_mono: "touches F pages T k k' \<Longrightarrow> T \<subseteq> T' \<Longrightarrow> touches F pages T' k k'"
  by (auto simp: touches_def)

text \<open>Functions of the client that leave the stack of the trapped task where it is.\<close>

definition keeps_stack :: "('r \<Rightarrow> usize set) \<Rightarrow> 'r client \<Rightarrow> bool" where
  "keeps_stack stack C \<longleftrightarrow> (\<forall>f d r. stack (cl_handler C f d r) = stack r)"

text \<open>
  \<open>stack regs\<close> is the memory where the hook of a call may store the trampoline, \<open>fixup ptr\<close> the
  memory where the return address is repaired for the registers saved at \<open>ptr\<close>. \<open>step_to regs a\<close>
  are the registers of a task that is to execute the one instruction at \<open>a\<close>, \<open>step_off regs a\<close> those of
  a task that goes on at \<open>a\<close>.
\<close>

locale probe_hooks =
  fixes F :: "'k aux_ops"
    and A :: "('k, 'p, 'r) arch_ops"
    and pages :: "'k \<Rightarrow> (space \<times> usize) set"
    and stack :: "'r \<Rightarrow> usize set"
    and fixup :: "usize \<Rightarrow> usize set"
    and step_to :: "'r \<Rightarrow> usize \<Rightarrow> 'r"
    and step_off :: "'r \<Rightarrow> usize \<Rightarrow> 'r"
  assumes push_touches: "touches F pages {} k (push_instance F k i)"
    and pop_touches: "pop_instance F k = Some (i, k') \<Longrightarrow> touches F pages {} k k'"
    and prepare_touches: "ar_rethook_prepare A k inst regs = (inst', regs', k') \<Longrightarrow>
      touches F pages (stack regs) k k' \<and> stack regs' = stack regs \<and> ri_user_data inst' = ri_user_data inst"
    and fixup_touches: "touches F pages (fixup ptr) k (ar_rethook_fixup_return A k ptr ret)"
    and setup_step: "ar_setup_single_step A regs a = step_to regs a"
    and clear_step: "ar_clear_single_step A regs a = step_off regs a"
    and step_pc: "ar_reg_debug_address A (step_to regs a) = a"
begin

text \<open>The entry handler of a return probe.\<close>

lemma pre_handler_kretprobe_ok:
  assumes inv: "kinds_inv S" and r: "map_of (ps_objs S) i = Some (RetObj r)" and C: "keeps_stack stack C"
    and on: "is_enabled (pr_basic (rp_kprobe r))"
  shows "\<exists>S' regs'. pre_handler_kretprobe A F C i (pb_data (pr_basic (rp_kprobe r))) (S, regs, log) =
      Ok (S', regs', log @ obj_pre_calls (RetObj r)) \<and>
    same_probes S S' \<and> (\<forall>j. j \<noteq> i \<longrightarrow> map_of (ps_objs S') j = map_of (ps_objs S) j) \<and>
    touches F pages (stack regs) (ps_kernel S) (ps_kernel S') \<and> stack regs' = stack regs"
proof -
  let ?pb = "pr_basic (rp_kprobe r)"
  obtain free where d: "pb_data ?pb = RetData \<lparr>rd_free_instances = free, rd_retprobe = Some i\<rparr>"
    using kinds_obj [OF inv r] by (auto simp: ret_probe_def)
  show ?thesis
  proof (cases "free = []")
    case True
    have "same_obj i (RetObj r) (RetObj (r\<lparr>rp_nmissed := rp_nmissed r + 1\<rparr>))"
      using d by (auto simp: set_free_def intro!: exI [of _ free] exI [of _ "rp_nmissed r + 1"])
    from same_probes_update [OF inv r this, of "ps_kernel S"] show ?thesis
      using True d r by (simp add: pre_handler_kretprobe_def upgrade_def update_obj_def ret_instances_def)
  next
    case False
    define r1 where "r1 = set_free i (butlast free) (rp_nmissed r) r"
    define S1 where "S1 = S\<lparr>ps_objs := bt_insert i (RetObj r1) (ps_objs S)\<rparr>"
    have set: "set_ret_data S i \<lparr>rd_free_instances = butlast free, rd_retprobe = Some i\<rparr> = S1"
      using r by (simp add: set_ret_data_def update_basic_def update_obj_def S1_def r1_def set_free_def)
    obtain inst regs1 k1 where prep: "ar_rethook_prepare A (ps_kernel S) (last free) regs = (inst, regs1, k1)"
      by (metis prod_cases3)
    note hook = prepare_touches [OF prep]
    let ?k = "push_instance F k1 (inst\<lparr>ri_retprobe := Some i\<rparr>)"
    let ?S = "S\<lparr>ps_kernel := ?k, ps_objs := bt_insert i (RetObj r1) (ps_objs S)\<rparr>"
    have "same_obj i (RetObj r) (RetObj r1)" by (auto simp: r1_def)
    from same_probes_update [OF inv r this] have same: "same_probes S ?S" .
    have touch: "touches F pages (stack regs) (ps_kernel S) ?k"
      using touches_trans [OF conjunct1 [OF hook] touches_mono [OF push_touches]] by simp
    have up: "upgrade (S1\<lparr>ps_kernel := k1\<rparr>) (Some i) = Some r1" by (simp add: upgrade_def S1_def)
    have entry: "rp_entry_handler r1 = rp_entry_handler r" by (simp add: r1_def set_free_def)
    have "pre_handler_kretprobe A F C i (pb_data ?pb) (S, regs, log) =
      Ok (?S, (case rp_entry_handler r of Some f \<Rightarrow> cl_handler C f (ri_user_data inst) regs1 | None \<Rightarrow> regs1),
          log @ obj_pre_calls (RetObj r))"
      unfolding pre_handler_kretprobe_def d using False up on
      by (auto simp: set prep S1_def entry user_call_def hook ret_instances_def d split: option.splits)
    then show ?thesis using same touch hook C by (auto simp: keeps_stack_def split: option.splits)
  qed
qed

lemma call_pre_handler_ok:
  assumes inv: "kinds_inv S" and ob: "map_of (ps_objs S) i = Some ob" and C: "keeps_stack stack C"
    and on: "is_enabled (pr_basic (obj_probe ob))"
  shows "\<exists>S' regs'. call_pre_handler A F C i (pr_basic (obj_probe ob)) (S, regs, log) =
      Ok (S', regs', log @ obj_pre_calls ob) \<and>
    same_probes S S' \<and> (\<forall>j. j \<noteq> i \<longrightarrow> map_of (ps_objs S') j = map_of (ps_objs S) j) \<and>
    touches F pages (stack regs) (ps_kernel S) (ps_kernel S') \<and> stack regs' = stack regs \<and>
    ((\<forall>r. ob \<noteq> RetObj r) \<longrightarrow> regs' = handled C (obj_pre_calls ob) regs)"
proof (cases ob)
  case (ProbeObj p)
  then have "client_probe (pr_basic p)" using kinds_obj [OF inv ob] by simp
  then show ?thesis
    using ProbeObj same_probes_refl [OF inv] C on
    by (cases "pb_pre_handler (pr_basic p)")
       (auto simp: call_pre_handler_def client_probe_def handler_calls_def user_call_def keeps_stack_def handled_def
         split: ProbeHandler.splits)
next
  case (RetObj r)
  then have "pb_pre_handler (pr_basic (rp_kprobe r)) = Some PreHandlerKretprobe"
    using kinds_obj [OF inv ob] by (simp add: ret_probe_def)
  then show ?thesis
    using pre_handler_kretprobe_ok [OF inv _ C, of i r regs log] RetObj ob on by (simp add: call_pre_handler_def)
qed

text \<open>The loop over the probes at an address, each of which is called as it was at the trap.\<close>

lemma pre_loop_ok:
  assumes "kinds_inv S" "keeps_stack stack C" "distinct (map obj_of l)"
  shows "\<exists>S' regs'. pre_loop A F C l (S, regs, log) = Ok (S', regs', log @ list_calls obj_pre_calls S l) \<and>
    same_probes S S' \<and> touches F pages (stack regs) (ps_kernel S) (ps_kernel S') \<and> stack regs' = stack regs \<and>
    (no_retprobe S l \<longrightarrow> regs' = handled C (list_calls obj_pre_calls S l) regs)"
  using assms
proof (induction l arbitrary: S regs log)
  case Nil
  then show ?case by (simp add: same_probes_refl)
next
  case (Cons u l)
  let ?i = "obj_of u" and ?calls = "case map_of (ps_objs S) (obj_of u) of Some ob \<Rightarrow> obj_pre_calls ob | None \<Rightarrow> []"
  have step: "\<exists>S1 regs1. (case uni_basic S u of
       Some pb \<Rightarrow> if is_enabled pb then call_pre_handler A F C ?i pb (S, regs, log) else Ok (S, regs, log)
     | None \<Rightarrow> Ok (S, regs, log)) = Ok (S1, regs1, log @ ?calls) \<and>
    same_probes S S1 \<and> (\<forall>j. j \<noteq> ?i \<longrightarrow> map_of (ps_objs S1) j = map_of (ps_objs S) j) \<and>
    touches F pages (stack regs) (ps_kernel S) (ps_kernel S1) \<and> stack regs1 = stack regs \<and>
    (no_retprobe S [u] \<longrightarrow> regs1 = handled C ?calls regs)"
  proof (cases "map_of (ps_objs S) ?i")
    case None
    then show ?thesis using same_probes_refl [OF Cons.prems(1)] by (simp add: uni_basic_def)
  next
    case (Some ob)
    show ?thesis
    proof (cases "is_enabled (pr_basic (obj_probe ob))")
      case True
      then show ?thesis using call_pre_handler_ok [OF Cons.prems(1) Some Cons.prems(2) True] Some
        by (simp add: uni_basic_def no_retprobe_def)
    next
      case False
      then have "obj_pre_calls ob = []" by (cases ob) (auto simp: Let_def)
      then show ?thesis using False Some same_probes_refl [OF Cons.prems(1)] by (simp add: uni_basic_def)
    qed
  qed
  then obtain S1 regs1 where 1: "(case uni_basic S u of
       Some pb \<Rightarrow> if is_enabled pb then call_pre_handler A F C ?i pb (S, regs, log) else Ok (S, regs, log)
     | None \<Rightarrow> Ok (S, regs, log)) = Ok (S1, regs1, log @ ?calls)"
    "same_probes S S1" "\<And>j. j \<noteq> ?i \<Longrightarrow> map_of (ps_objs S1) j = map_of (ps_objs S) j"
    "touches F pages (stack regs) (ps_kernel S) (ps_kernel S1)" "stack regs1 = stack regs"
    "no_retprobe S [u] \<longrightarrow> regs1 = handled C ?calls regs" by blast
  have others: "map_of (ps_objs S1) (obj_of v) = map_of (ps_objs S) (obj_of v)" if "v \<in> set l" for v
    using Cons.prems(3) that by (intro 1(3)) (auto simp: image_iff)
  have calls: "list_calls obj_pre_calls S1 l = list_calls obj_pre_calls S l"
    unfolding list_calls_def using others by (intro arg_cong [where f = concat] map_cong) auto
  have none: "no_retprobe S1 l = no_retprobe S l" "no_retprobe S (u # l) \<longleftrightarrow> no_retprobe S [u] \<and> no_retprobe S l"
    using others by (auto simp: no_retprobe_def)
  from Cons.IH [OF same_probes_kinds [OF 1(2) Cons.prems(1)] Cons.prems(2), of regs1 "log @ ?calls"] Cons.prems(3)
  obtain S2 regs2 where 2: "pre_loop A F C l (S1, regs1, log @ ?calls) =
      Ok (S2, regs2, (log @ ?calls) @ list_calls obj_pre_calls S l)"
    "same_probes S1 S2" "touches F pages (stack regs) (ps_kernel S1) (ps_kernel S2)" "stack regs2 = stack regs"
    "no_retprobe S l \<longrightarrow> regs2 = handled C (list_calls obj_pre_calls S l) regs1"
    using 1(5) unfolding calls none(1) by auto
  have "pre_loop A F C (u # l) (S, regs, log) = Ok (S2, regs2, log @ list_calls obj_pre_calls S (u # l))"
    using 1(1) 2(1) by simp
  moreover have "no_retprobe S (u # l) \<longrightarrow> regs2 = handled C (list_calls obj_pre_calls S (u # l)) regs"
    using 1(6) 2(5) none(2) by simp
  ultimately show ?case using same_probes_trans [OF 1(2) 2(2)] touches_trans [OF 1(4) 2(3)] 2(4) by blast
qed

lemma break_trap_ok:
  assumes "kinds_inv S" "keeps_stack stack C"
    and "map_of (ps_break_list S) (ar_reg_break_address A regs) = Some (u # l)" "probe_point S u = Some pt"
  shows "\<exists>S' regs'. kprobe_handler_from_break A F C (S, regs, log) =
      Ok (True, S', step_to regs' (ar_single_step_address A pt), log @ list_calls obj_pre_calls S (u # l)) \<and>
    same_probes S S' \<and> touches F pages (stack regs) (ps_kernel S) (ps_kernel S') \<and>
    (no_retprobe S (u # l) \<longrightarrow> regs' = handled C (list_calls obj_pre_calls S (u # l)) regs)"
proof -
  have "distinct (map obj_of (u # l))" using assms(1,3) unfolding kinds_inv_def by blast
  from pre_loop_ok [OF assms(1,2) this] obtain S' regs' where
    1: "pre_loop A F C (u # l) (S, regs, log) = Ok (S', regs', log @ list_calls obj_pre_calls S (u # l))"
    "same_probes S S'" "touches F pages (stack regs) (ps_kernel S) (ps_kernel S')"
    "no_retprobe S (u # l) \<longrightarrow> regs' = handled C (list_calls obj_pre_calls S (u # l)) regs" by blast
  have "probe_point S' u = Some pt" using assms(4) by (simp add: same_probes_fields(10) [OF 1(2)])
  then have "kprobe_handler_from_break A F C (S, regs, log) =
      Ok (True, S', step_to regs' (ar_single_step_address A pt), log @ list_calls obj_pre_calls S (u # l))"
    using assms(3) 1(1)
    by (simp add: kprobe_handler_from_break_def get_break_list_def first_point_def nth_of_def ok_or_def setup_step
      del: pre_loop.simps)
  then show ?thesis using 1(2-4) by blast
qed

text \<open>The same for a probe in a process: with a copy of the slot the task goes there, else one is made.\<close>

lemma user_break_trap_ok:
  assumes "kinds_inv S" "keeps_stack stack C"
    and "map_of (ps_break_list S) (ar_reg_break_address A regs) = Some (u # l)" "obj_point S (obj_of u) = Some q"
    and "map_of (ps_points S) q = Some pt"
  shows "\<exists>S' regs'. uprobe_handler_from_break A F C (S, regs, log) =
      (if ar_dynamic_user_ptr A pt \<noteq> 0
       then Ok (True, S', step_to regs' (ar_dynamic_user_ptr A pt), log @ list_calls obj_pre_calls S (u # l))
       else let (ptr, S2) = prepare_user_slot A F S' q pt
         in Ok (True, S2, step_to regs' ptr, log @ list_calls obj_pre_calls S (u # l))) \<and>
    same_probes S S' \<and> touches F pages (stack regs) (ps_kernel S) (ps_kernel S') \<and>
    (no_retprobe S (u # l) \<longrightarrow> regs' = handled C (list_calls obj_pre_calls S (u # l)) regs)"
proof -
  have "distinct (map obj_of (u # l))" using assms(1,3) unfolding kinds_inv_def by blast
  from pre_loop_ok [OF assms(1,2) this] obtain S' regs' where
    1: "pre_loop A F C (u # l) (S, regs, log) = Ok (S', regs', log @ list_calls obj_pre_calls S (u # l))"
    "same_probes S S'" "touches F pages (stack regs) (ps_kernel S) (ps_kernel S')"
    "no_retprobe S (u # l) \<longrightarrow> regs' = handled C (list_calls obj_pre_calls S (u # l)) regs" by blast
  have "obj_point S' (obj_of u) = Some q" "map_of (ps_points S') q = Some pt"
    using assms(4,5) by (simp_all add: same_probes_fields [OF 1(2)])
  then show ?thesis
    using assms(3) 1
    by (intro exI [of _ S'] exI [of _ regs'])
       (simp add: uprobe_handler_from_break_def get_break_list_def nth_of_def ok_or_def setup_step del: pre_loop.simps
         split: prod.split)
qed

text \<open>The handler behind the trampoline gives the instance back and returns to the caller.\<close>

lemma trampoline_ok:
  assumes inv: "kinds_inv S" and pop: "pop_instance F (ps_kernel S) = Some (inst, k)" "ri_frame inst = fp"
    and r: "ri_retprobe inst = Some j" "map_of (ps_objs S) j = Some (RetObj r)"
  shows "\<exists>S' regs'. rethook_trampoline_handler A F C ptr fp (S, regs, log) =
      Ok (ri_ret_addr inst, S', regs',
        log @ (case rp_ret_handler r of Some f \<Rightarrow> [HandlerCall f (ri_user_data inst)] | None \<Rightarrow> []) @
          map (\<lambda>(_, cb). CallbackCall cb) (rp_event_callbacks r)) \<and>
    same_probes S S' \<and>
    map_of (ps_objs S') j =
      Some (RetObj (set_free j (ret_instances (pr_basic (rp_kprobe r)) @ [inst]) (rp_nmissed r) r)) \<and>
    ps_kernel S' = ar_rethook_fixup_return A k ptr (ri_ret_addr inst) \<and>
    touches F pages (fixup ptr) (ps_kernel S) (ps_kernel S')"
proof -
  obtain free where d: "pb_data (pr_basic (rp_kprobe r)) = RetData \<lparr>rd_free_instances = free, rd_retprobe = Some j\<rparr>"
    using kinds_obj [OF inv r(2)] by (auto simp: ret_probe_def)
  let ?r = "set_free j (free @ [inst]) (rp_nmissed r) r"
  let ?k = "ar_rethook_fixup_return A k ptr (ri_ret_addr inst)"
  let ?S = "S\<lparr>ps_kernel := ?k, ps_objs := bt_insert j (RetObj ?r) (ps_objs S)\<rparr>"
  have same: "same_probes S ?S" by (rule same_probes_update [OF inv r(2)]) auto
  have touch: "touches F pages (fixup ptr) (ps_kernel S) ?k"
    using touches_trans [OF touches_mono [OF pop_touches [OF pop(1)]] fixup_touches] by simp
  let ?regs = "fold (cl_callback C) (map snd (rp_event_callbacks r))
    (case rp_ret_handler r of Some f \<Rightarrow> cl_handler C f (ri_user_data inst) regs | None \<Rightarrow> regs)"
  have "rethook_trampoline_handler A F C ptr fp (S, regs, log) =
      Ok (ri_ret_addr inst, ?S, ?regs,
        log @ (case rp_ret_handler r of Some f \<Rightarrow> [HandlerCall f (ri_user_data inst)] | None \<Rightarrow> []) @
          map (\<lambda>(_, cb). CallbackCall cb) (rp_event_callbacks r))"
    using pop r d
    by (auto simp: rethook_trampoline_handler_def upgrade_def user_call_def call_callbacks_eq set_ret_data_def
      update_basic_def update_obj_def set_free_def comp_def case_prod_unfold split: option.splits)
  then show ?thesis using same touch d by (auto simp: ret_instances_def)
qed

lemma trampoline_runs:
  assumes "rethook_trampoline_handler A F C ptr fp (S, regs, log) = Ok res"
  shows "\<exists>inst k j r. pop_instance F (ps_kernel S) = Some (inst, k) \<and> ri_frame inst = fp \<and> ri_retprobe inst = Some j \<and>
    map_of (ps_objs S) j = Some (RetObj r)"
proof -
  obtain inst k where pop: "pop_instance F (ps_kernel S) = Some (inst, k)" "ri_frame inst = fp"
    using assms by (auto simp: rethook_trampoline_handler_def split: option.splits prod.splits if_splits)
  with assms have "ri_retprobe inst \<noteq> None \<and> upgrade (S\<lparr>ps_kernel := k\<rparr>) (ri_retprobe inst) \<noteq> None"
    by (auto simp: rethook_trampoline_handler_def Let_def split: option.splits)
  then show ?thesis using pop by (auto simp: upgrade_def split: option.splits probe_obj.splits)
qed

lemma trampoline_same:
  assumes "kinds_inv S" "rethook_trampoline_handler A F C ptr fp (S, regs, log) = Ok (ret, S', regs', log')"
  shows "same_probes S S' \<and> touches F pages (fixup ptr) (ps_kernel S) (ps_kernel S')"
proof -
  from trampoline_runs [OF assms(2)] obtain inst k j r where
    "pop_instance F (ps_kernel S) = Some (inst, k)" "ri_frame inst = fp" "ri_retprobe inst = Some j"
    "map_of (ps_objs S) j = Some (RetObj r)" by blast
  from trampoline_ok [OF assms(1) this, of C ptr regs log] assms(2) show ?thesis by auto
qed

end

end
