(* ===== verification/ProbeUser.thy ===== *)
theory ProbeUser
  imports ProbeRefs ProbeCalls
begin

text \<open>
  The first hit of a user probe: the slot is copied to a page of the process, the shared point gets
  the address of that page, and the debug list moves there. The invariant of the manager is kept.
\<close>

lemma prepare_user_slot_fields:
  assumes "prepare_user_slot A F S q p = (ptr, S')"
  shows "ps_objs S' = ps_objs S" "ps_next S' = ps_next S" "ps_handles S' = ps_handles S"
    "ps_break_list S' = ps_break_list S" "ps_point_list S' = ps_point_list S"
  using assms
  by (auto simp: prepare_user_slot_def replace_debug_list_with_new_address_def Let_def split: prod.splits option.splits)

lemma kinds_prepare_user_slot:
  "kinds_inv S \<Longrightarrow> prepare_user_slot A F S q p = (ptr, S') \<Longrightarrow> kinds_inv S'"
  unfolding kinds_inv_def by (simp add: prepare_user_slot_fields)

context probe_arch
begin

lemma prepare_user_slot_inv:
  assumes inv: "sinv sites k0 S" and aux: "aux_laws F pages heap room" and room: "room (ps_kernel S)"
    and q: "map_of (ps_point_list S) a = Some q" "map_of (ps_points S) q = Some p" "map_of (ps_break_list S) a = Some l"
    and p: "ar_dynamic_user_ptr A p = 0" "ar_pid A p \<noteq> None"
    and run: "prepare_user_slot A F S q p = (ptr, S')"
  shows "sinv sites k0 S' \<and> (\<exists>p'. map_of (ps_points S') q = Some p' \<and> ar_dynamic_user_ptr A p' = ptr \<and> ptr \<noteq> 0)"
proof -
  have o: "ordered_inv S" and al: "alive_inv S" and pl: "point_list_inv A S" and br: "break_inv S" and d: "debug_inv A S"
    and g: "no_gap S {}" and us: "used_inv S {} {}" using inv by (simp_all add: refs_inv_def)
  let ?d = "ar_debug_address A p"
  obtain k where alloc: "alloc_user F (ps_kernel S) (ar_pid A p)
      (read_bytes F (ps_kernel S) None (ar_single_step_address A p) (ar_instruction_slot_len A p)) = (ptr, k)"
    using run by (auto simp: prepare_user_slot_def Let_def split: prod.splits)
  obtain p' d' where set: "ar_set_dynamic_user_ptr A p ptr = (p', d')" by fastforce
  have old: "ar_break_address A p = a" "map_of (ps_debug_list S) ?d = Some l"
    using pl [unfolded point_list_inv_def, rule_format, OF q(1)] q(2,3) by auto
  have S': "S' = S\<lparr>ps_kernel := k, ps_points := bt_insert q p' (ps_points S),
      ps_debug_list := bt_insert d' l (bt_remove ?d (ps_debug_list S))\<rparr>"
    using run alloc set old(2) by (simp add: prepare_user_slot_def replace_debug_list_with_new_address_def Let_def)
  from minv_user_slot [OF conjunct2 [OF inv] q(2) p aux room alloc set]
  have m: "minv sites k0 k ((map_of (ps_points S))(q \<mapsto> p'))" and new: "ptr \<noteq> 0" "d' = ar_debug_address A p'"
    "ar_break_address A p' = a" using old(1) by auto
  have op: "obj_point S' = obj_point S" by (simp add: S' obj_point_def fun_eq_iff)
  have dl: "map_of (ps_debug_list S') = (map_of (ps_debug_list S))(?d := None, d' \<mapsto> l)"
    by (simp add: S' map_of_bt_remove)
  have other: "ar_debug_address A r \<noteq> ?d" "ar_debug_address A r \<noteq> d'" if "map_of (ps_points S) i = Some r" "i \<noteq> q" for i r
    using debug_apart [OF conjunct2 [OF inv] that(1) q(2) that(2)] debug_apart [OF m, of i r q p'] that new(2) by auto
  have "refs_inv A S' {} {} {}"
    unfolding refs_inv_def
  proof (intro conjI)
    show "ordered_inv S'" using o by (simp add: ordered_inv_def S' bt_insert_ordered bt_remove_ordered)
    show "alive_inv S'" using al q(2) by (auto simp: alive_inv_def S')
    show "point_list_inv A S'"
      unfolding point_list_inv_def
    proof (intro allI impI)
      fix a' q' assume "map_of (ps_point_list S') a' = Some q'"
      then have a': "map_of (ps_point_list S) a' = Some q'" by (simp add: S')
      then obtain r where r: "map_of (ps_points S) q' = Some r" "ar_break_address A r = a'"
        "map_of (ps_debug_list S) (ar_debug_address A r) = map_of (ps_break_list S) a'"
        using pl by (auto simp: point_list_inv_def)
      show "\<exists>p. map_of (ps_points S') q' = Some p \<and> ar_break_address A p = a' \<and>
        map_of (ps_debug_list S') (ar_debug_address A p) = map_of (ps_break_list S') a'"
      proof (cases "q' = q")
        case True
        then have "a' = a" using r q(2) old(1) by simp
        then show ?thesis using True new q(3) by (intro exI [of _ p'] conjI) (simp_all add: dl, simp_all add: S')
      next
        case False
        then show ?thesis using r other [OF r(1) False] by (intro exI [of _ r] conjI) (simp_all add: dl, simp_all add: S')
      qed
    qed
    show "break_inv S'" using br unfolding break_inv_def op by (simp add: S')
    show "debug_inv A S'"
      unfolding debug_inv_def
    proof (intro allI impI)
      fix e l' assume e: "map_of (ps_debug_list S') e = Some l'"
      show "\<exists>a q p. map_of (ps_point_list S') a = Some q \<and> map_of (ps_points S') q = Some p \<and> ar_debug_address A p = e"
      proof (cases "e = d'")
        case True
        then show ?thesis using q(1) new(2) by (intro exI [of _ a] exI [of _ q] exI [of _ p']) (simp add: S')
      next
        case False
        then have "map_of (ps_debug_list S) e = Some l'" "e \<noteq> ?d" using e by (auto simp: dl split: if_splits)
        then obtain a' q' r where r: "map_of (ps_point_list S) a' = Some q'" "map_of (ps_points S) q' = Some r"
          "ar_debug_address A r = e" using d by (auto simp: debug_inv_def)
        then have "q' \<noteq> q" using q(2) \<open>e \<noteq> ?d\<close> by auto
        then show ?thesis using r by (intro exI [of _ a'] exI [of _ q'] exI [of _ r]) (simp add: S')
      qed
    qed
    show "no_gap S' {}" using g by (simp add: no_gap_def S')
    have "point_used S' = point_used S" "obj_used S' = obj_used S"
      by (simp_all add: fun_eq_iff point_used_def obj_used_def op) (simp_all add: S')
    then show "used_inv S' {} {}" using us q(2) by (auto simp: used_inv_def S')
  qed
  then show ?thesis using m new(1) set_user [OF set] by (simp add: S')
qed

end

end
