(* ===== verification/ProbeRun.thy ===== *)
theory ProbeRun
  imports ProbeUser
begin

text \<open>
  Histories of the probe subsystem: clients register and unregister probes, keep and drop handles,
  switch probes on and off, and tasks run into breakpoints, in the kernel and in processes, and
  return through the trampoline. The invariant of the manager holds in every state that such a
  history reaches.
\<close>

section \<open>Steps\<close>

text \<open>
  \<open>reg_ok\<close>, \<open>trap_ok\<close>, \<open>user_ok\<close> and \<open>ret_ok\<close> say which requests and traps occur. A client uses the
  handles it has; a step that panics has no next state. The handlers of the probes at an address are
  also steps of their own, as other CPUs may interleave with them.
\<close>

inductive probe_step ::
  "('k, 'p, 'r) arch_ops \<Rightarrow> 'k aux_ops \<Rightarrow> 'r client \<Rightarrow> (('k, 'p) probe_sys \<Rightarrow> ProbeBuilder \<Rightarrow> bool) \<Rightarrow>
     (('k, 'p) probe_sys \<Rightarrow> 'r \<Rightarrow> bool) \<Rightarrow> (('k, 'p) probe_sys \<Rightarrow> 'r \<Rightarrow> bool) \<Rightarrow> (('k, 'p) probe_sys \<Rightarrow> usize \<Rightarrow> bool) \<Rightarrow>
     ('k, 'p) probe_sys \<Rightarrow> ('k, 'p) probe_sys \<Rightarrow> bool"
  for A F C reg_ok trap_ok user_ok ret_ok where
  RegisterKprobe: "client_builder b \<Longrightarrow> reg_ok S b \<Longrightarrow> register_kprobe A S b = (r, S') \<Longrightarrow>
    probe_step A F C reg_ok trap_ok user_ok ret_ok S S'"
| RegisterKretprobe: "reg_ok S (ProbeBuilder_from rb) \<Longrightarrow> register_kretprobe A S rb = Ok (r, S') \<Longrightarrow>
    probe_step A F C reg_ok trap_ok user_ok ret_ok S S'"
| RegisterUprobe: "client_builder b \<Longrightarrow> reg_ok S b \<Longrightarrow> register_uprobe A S b = Ok (r, S') \<Longrightarrow>
    probe_step A F C reg_ok trap_ok user_ok ret_ok S S'"
| Unregister: "i \<in> set (ps_handles S) \<Longrightarrow>
    S' \<in> {unregister_kprobe A S i, unregister_kretprobe A S i, unregister_uprobe A S i} \<Longrightarrow>
    probe_step A F C reg_ok trap_ok user_ok ret_ok S S'"
| CloneHandle: "i \<in> set (ps_handles S) \<Longrightarrow> probe_step A F C reg_ok trap_ok user_ok ret_ok S (clone_handle S i)"
| DropHandle: "i \<in> set (ps_handles S) \<Longrightarrow> probe_step A F C reg_ok trap_ok user_ok ret_ok S (drop_handle A S i)"
| Switch: "i \<in> set (ps_handles S) \<Longrightarrow>
    f \<in> {probe_enable, probe_disable, register_event_callback n cb, unregister_event_callback n} \<Longrightarrow>
    probe_step A F C reg_ok trap_ok user_ok ret_ok S (update_basic S i f)"
| BreakTrap: "trap_ok S regs \<Longrightarrow> kprobe_handler_from_break A F C (S, regs, log) = Ok (found, S', regs', log') \<Longrightarrow>
    probe_step A F C reg_ok trap_ok user_ok ret_ok S S'"
| DebugTrap: "kprobe_handler_from_debug A F C (S, regs, log) = Ok (found, S', regs', log') \<Longrightarrow>
    probe_step A F C reg_ok trap_ok user_ok ret_ok S S'"
| UserBreakTrap: "user_ok S regs \<Longrightarrow> uprobe_handler_from_break A F C (S, regs, log) = Ok (found, S', regs', log') \<Longrightarrow>
    probe_step A F C reg_ok trap_ok user_ok ret_ok S S'"
| UserDebugTrap: "uprobe_handler_from_debug A F C (S, regs, log) = Ok (found, S', regs', log') \<Longrightarrow>
    probe_step A F C reg_ok trap_ok user_ok ret_ok S S'"
| PreHandler: "trap_ok S regs \<Longrightarrow> map_of (ps_objs S) i = Some ob \<Longrightarrow> is_enabled (pr_basic (obj_probe ob)) \<Longrightarrow>
    call_pre_handler A F C i (pr_basic (obj_probe ob)) (S, regs, log) = Ok (S', regs', log') \<Longrightarrow>
    probe_step A F C reg_ok trap_ok user_ok ret_ok S S'"
| Return: "ret_ok S ptr \<Longrightarrow> rethook_trampoline_handler A F C ptr fp (S, regs, log) = Ok (ret, S', regs', log') \<Longrightarrow>
    probe_step A F C reg_ok trap_ok user_ok ret_ok S S'"

text \<open>
  Requests: the kernel has room for a page, and the address is outside the heap, and a site of the
  builder's address space, or a place that is refused now and a site of no address space. Traps and
  returns: the stack words that the hooks write are in the heap and not in a page for executable
  memory. The handler for processes is called for probes in processes, while there is room.
\<close>

definition request_ok ::
  "'k aux_ops \<Rightarrow> (space \<Rightarrow> usize set) \<Rightarrow> ('k \<Rightarrow> bool) \<Rightarrow> ((usize \<Rightarrow> u8) \<Rightarrow> usize \<Rightarrow> nat option) \<Rightarrow> (space \<times> usize) set \<Rightarrow>
     ('k, 'p) probe_sys \<Rightarrow> ProbeBuilder \<Rightarrow> bool" where
  "request_ok F heap room ilen sites S b \<longleftrightarrow>
     room (ps_kernel S) \<and>
     region (probe_addr b) 15 \<inter> heap (bd_user_pid b) = {} \<and>
     ((bd_user_pid b, probe_addr b) \<in> sites \<or>
      ilen (mem_read F (ps_kernel S) (bd_user_pid b)) (probe_addr b) = None \<and> (\<forall>sp. (sp, probe_addr b) \<notin> sites))"

definition private_stack ::
  "('k \<Rightarrow> (space \<times> usize) set) \<Rightarrow> (space \<Rightarrow> usize set) \<Rightarrow> usize set \<Rightarrow> ('k, 'p) probe_sys \<Rightarrow> bool" where
  "private_stack pages heap T S \<longleftrightarrow> T \<subseteq> heap None \<and> (\<forall>q. (None, q) \<in> pages (ps_kernel S) \<longrightarrow> page q \<inter> T = {})"

definition user_trap_ok ::
  "('k, 'p, 'r) arch_ops \<Rightarrow> ('k \<Rightarrow> (space \<times> usize) set) \<Rightarrow> (space \<Rightarrow> usize set) \<Rightarrow> ('k \<Rightarrow> bool) \<Rightarrow> ('r \<Rightarrow> usize set) \<Rightarrow>
     ('k, 'p) probe_sys \<Rightarrow> 'r \<Rightarrow> bool" where
  "user_trap_ok A pages heap room stack S regs \<longleftrightarrow>
     private_stack pages heap (stack regs) S \<and> room (ps_kernel S) \<and>
     (\<forall>l u p. get_break_list S (ar_reg_break_address A regs) = Some l \<longrightarrow> u \<in> set l \<longrightarrow> probe_point S u = Some p \<longrightarrow>
        ar_pid A p \<noteq> None)"

definition history_step ::
  "('k, 'p, 'r) arch_ops \<Rightarrow> 'k aux_ops \<Rightarrow> 'r client \<Rightarrow> ('k \<Rightarrow> (space \<times> usize) set) \<Rightarrow> (space \<Rightarrow> usize set) \<Rightarrow>
     ('k \<Rightarrow> bool) \<Rightarrow> ((usize \<Rightarrow> u8) \<Rightarrow> usize \<Rightarrow> nat option) \<Rightarrow> ('r \<Rightarrow> usize set) \<Rightarrow> (usize \<Rightarrow> usize set) \<Rightarrow> (space \<times> usize) set \<Rightarrow>
     ('k, 'p) probe_sys \<Rightarrow> ('k, 'p) probe_sys \<Rightarrow> bool" where
  "history_step A F C pages heap room ilen stack fixup sites =
     probe_step A F C (request_ok F heap room ilen sites) (\<lambda>S regs. private_stack pages heap (stack regs) S)
       (user_trap_ok A pages heap room stack) (\<lambda>S ptr. private_stack pages heap (fixup ptr) S)"

text \<open>The states that clients and tasks reach when the clients probe at the sites.\<close>

definition probe_history ::
  "('k, 'p, 'r) arch_ops \<Rightarrow> 'k aux_ops \<Rightarrow> 'r client \<Rightarrow> ('k \<Rightarrow> (space \<times> usize) set) \<Rightarrow> (space \<Rightarrow> usize set) \<Rightarrow>
     ('k \<Rightarrow> bool) \<Rightarrow> ((usize \<Rightarrow> u8) \<Rightarrow> usize \<Rightarrow> nat option) \<Rightarrow> ('r \<Rightarrow> usize set) \<Rightarrow> (usize \<Rightarrow> usize set) \<Rightarrow> (space \<times> usize) set \<Rightarrow>
     'k \<Rightarrow> ('k, 'p) probe_sys \<Rightarrow> bool" where
  "probe_history A F C pages heap room ilen stack fixup sites k0 S \<longleftrightarrow>
     sites_ok heap ilen (mem_read F k0) sites \<and>
     (history_step A F C pages heap room ilen stack fixup sites)\<^sup>*\<^sup>* (ProbeManager_new k0) S"

section \<open>What histories guarantee\<close>

text \<open>
  Breakpoints are where probes are registered: the probes at an address share one point, in the
  address space that the address is a site of; the breakpoint is in the memory of that address
  space, and the point's slot, and the copy of it in the process, hold the instruction that the
  breakpoint hides with the breakpoint for the step behind it. Outside the heap nothing else differs
  from the original memory.
\<close>

definition breakpoints_in_place ::
  "('k, 'p, 'r) arch_ops \<Rightarrow> 'k aux_ops \<Rightarrow> (space \<Rightarrow> usize set) \<Rightarrow> (nat \<Rightarrow> u8 list) \<Rightarrow> (nat \<Rightarrow> u8 list) \<Rightarrow> (space \<times> usize) set \<Rightarrow>
     'k \<Rightarrow> ('k, 'p) probe_sys \<Rightarrow> bool" where
  "breakpoints_in_place A F heap patch trail sites k0 S \<longleftrightarrow>
     (\<forall>a l. get_break_list S a = Some l \<longrightarrow>
        (\<exists>sp p. let n = ar_original_instruction_len A p; bp = patch n; slot = read_bytes F k0 sp a n @ trail n in
           (sp, a) \<in> sites \<and> l \<noteq> [] \<and> (\<forall>u \<in> set l. probe_point S u = Some p) \<and>
           ar_pid A p = sp \<and> ar_break_address A p = a \<and>
           get_debug_list S (ar_debug_address A p) = Some l \<and>
           read_bytes F (ps_kernel S) sp a (length bp) = bp \<and>
           read_bytes F (ps_kernel S) None (ar_single_step_address A p) (length slot) = slot \<and>
           (ar_dynamic_user_ptr A p \<noteq> 0 \<longrightarrow>
              read_bytes F (ps_kernel S) sp (ar_dynamic_user_ptr A p) (length slot) = slot))) \<and>
     (\<forall>sp x. x \<notin> heap sp \<longrightarrow> mem_read F (ps_kernel S) sp x \<noteq> mem_read F k0 sp x \<longrightarrow>
        (\<exists>i p. i \<in> set (ps_handles S) \<union> \<Union> ((\<lambda>l. obj_of ` set l) ` ran (get_break_list S)) \<and>
           probe_point S (Kprobe i) = Some p \<and> ar_pid A p = sp \<and>
           x \<in> region (ar_break_address A p) (ar_original_instruction_len A p)))"

text \<open>A registration that succeeds has put the breakpoint into the memory of the builder's own address space.\<close>

definition patched ::
  "'k aux_ops \<Rightarrow> ((usize \<Rightarrow> u8) \<Rightarrow> usize \<Rightarrow> nat option) \<Rightarrow> (nat \<Rightarrow> u8 list) \<Rightarrow> 'k \<Rightarrow> ProbeBuilder \<Rightarrow> UniProbe \<Rightarrow>
     ('k, 'p) probe_sys \<Rightarrow> bool" where
  "patched F ilen patch k0 b u S \<longleftrightarrow>
     (\<exists>l n. get_break_list S (probe_addr b) = Some l \<and> u \<in> set l \<and>
        ilen (mem_read F k0 (bd_user_pid b)) (probe_addr b) = Some n \<and>
        read_bytes F (ps_kernel S) (bd_user_pid b) (probe_addr b) (length (patch n)) = patch n)"

definition registers_in_place ::
  "('k, 'p, 'r) arch_ops \<Rightarrow> 'k aux_ops \<Rightarrow> (space \<Rightarrow> usize set) \<Rightarrow> ('k \<Rightarrow> bool) \<Rightarrow> ((usize \<Rightarrow> u8) \<Rightarrow> usize \<Rightarrow> nat option) \<Rightarrow>
     (nat \<Rightarrow> u8 list) \<Rightarrow> (space \<times> usize) set \<Rightarrow> 'k \<Rightarrow> ('k, 'p) probe_sys \<Rightarrow> bool" where
  "registers_in_place A F heap room ilen patch sites k0 S \<longleftrightarrow>
     (\<forall>b i S'. client_builder b \<longrightarrow> request_ok F heap room ilen sites S b \<longrightarrow>
        (register_kprobe A S b = (Ok i, S') \<longrightarrow> patched F ilen patch k0 b (Kprobe i) S') \<and>
        (register_uprobe A S b = Ok (Ok i, S') \<longrightarrow> patched F ilen patch k0 b (Uprobe i) S')) \<and>
     (\<forall>rb i S'. request_ok F heap room ilen sites S (ProbeBuilder_from rb) \<longrightarrow>
        register_kretprobe A S rb = Ok (Ok i, S') \<longrightarrow> patched F ilen patch k0 (ProbeBuilder_from rb) (Kretprobe i) S')"

text \<open>With no registered probe and no handle left, the pages and the memory are the original ones.\<close>

definition text_restored ::
  "'k aux_ops \<Rightarrow> ('k \<Rightarrow> (space \<times> usize) set) \<Rightarrow> (space \<Rightarrow> usize set) \<Rightarrow> 'k \<Rightarrow> ('k, 'p) probe_sys \<Rightarrow> bool" where
  "text_restored F pages heap k0 S \<longleftrightarrow>
     (ps_handles S = [] \<longrightarrow> (\<forall>a. get_break_list S a = None) \<longrightarrow>
        pages (ps_kernel S) = pages k0 \<and> (\<forall>sp x. x \<notin> heap sp \<longrightarrow> mem_read F (ps_kernel S) sp x = mem_read F k0 sp x))"

text \<open>
  A task in the address space \<open>sp\<close> at a breakpoint, with the handlers \<open>brk\<close> and \<open>dbg\<close>: after the
  handlers of the enabled probes it continues in a slot in its address space, with the original
  instruction there and the breakpoint behind it, and with the registers that the handlers left but
  for those that make it step. The trap behind that instruction runs the other handlers and the
  callbacks, and the task continues behind the probed instruction with the registers they leave,
  no longer stepping. Where the trap behind the instruction is a breakpoint, it may come in through
  \<open>brk\<close> as well.
\<close>

definition steps_over ::
  "('k, 'p, 'r) arch_ops \<Rightarrow> 'k aux_ops \<Rightarrow> 'r client \<Rightarrow> ((usize \<Rightarrow> u8) \<Rightarrow> usize \<Rightarrow> nat option) \<Rightarrow> (nat \<Rightarrow> u8 list) \<Rightarrow>
     ('r \<Rightarrow> usize \<Rightarrow> 'r) \<Rightarrow> ('r \<Rightarrow> usize \<Rightarrow> 'r) \<Rightarrow> 'k \<Rightarrow> ('k, 'p) probe_sys \<Rightarrow> 'r \<Rightarrow> space \<Rightarrow> UniProbe list \<Rightarrow>
     (('k, 'p, 'r) trap_state \<Rightarrow> (panic, bool \<times> ('k, 'p, 'r) trap_state) result) \<Rightarrow>
     (('k, 'p, 'r) trap_state \<Rightarrow> (panic, bool \<times> ('k, 'p, 'r) trap_state) result) \<Rightarrow> bool" where
  "steps_over A F C ilen trail step_to step_off k0 S regs sp l brk dbg \<longleftrightarrow>
     (\<forall>log. \<exists>S' regs' n slot. let a = ar_reg_break_address A regs; code = read_bytes F k0 sp a n @ trail n in
        ilen (mem_read F k0 sp) a = Some n \<and>
        brk (S, regs, log) = Ok (True, S', step_to regs' slot, log @ list_calls obj_pre_calls S l) \<and>
        (no_retprobe S l \<longrightarrow> regs' = handled C (list_calls obj_pre_calls S l) regs) \<and>
        ar_reg_debug_address A (step_to regs' slot) = slot \<and>
        read_bytes F (ps_kernel S') sp slot (length code) = code \<and>
        (\<forall>h regs1 log1. h = dbg \<or> trail n \<noteq> [] \<and> h = brk \<longrightarrow> ar_reg_debug_address A regs1 = slot + of_nat n \<longrightarrow>
           h (S', regs1, log1) =
             Ok (True, S', step_off (handled C (list_calls obj_post_calls S l) regs1) (a + of_nat n),
               log1 @ list_calls obj_post_calls S l)))"

definition trap_steps_over ::
  "('k, 'p, 'r) arch_ops \<Rightarrow> 'k aux_ops \<Rightarrow> 'r client \<Rightarrow> ('k \<Rightarrow> bool) \<Rightarrow> ((usize \<Rightarrow> u8) \<Rightarrow> usize \<Rightarrow> nat option) \<Rightarrow> (nat \<Rightarrow> u8 list) \<Rightarrow>
     ('r \<Rightarrow> usize \<Rightarrow> 'r) \<Rightarrow> ('r \<Rightarrow> usize \<Rightarrow> 'r) \<Rightarrow> (space \<times> usize) set \<Rightarrow> 'k \<Rightarrow> ('k, 'p) probe_sys \<Rightarrow> 'r \<Rightarrow> bool" where
  "trap_steps_over A F C room ilen trail step_to step_off sites k0 S regs \<longleftrightarrow>
     (\<forall>l sp. get_break_list S (ar_reg_break_address A regs) = Some l \<longrightarrow> (sp, ar_reg_break_address A regs) \<in> sites \<longrightarrow>
        (if sp = None
         then steps_over A F C ilen trail step_to step_off k0 S regs sp l
                (kprobe_handler_from_break A F C) (kprobe_handler_from_debug A F C)
         else room (ps_kernel S) \<longrightarrow>
              steps_over A F C ilen trail step_to step_off k0 S regs sp l
                (uprobe_handler_from_break A F C) (uprobe_handler_from_debug A F C)))"

section \<open>The invariant\<close>

locale probe_run = probe_arch F A pages heap room ilen patch trail saved + probe_hooks F A pages stack fixup step_to step_off
  for F :: "'k aux_ops"
    and A :: "('k, 'p, 'r) arch_ops"
    and pages :: "'k \<Rightarrow> (space \<times> usize) set"
    and heap :: "space \<Rightarrow> usize set"
    and room :: "'k \<Rightarrow> bool"
    and ilen :: "(usize \<Rightarrow> u8) \<Rightarrow> usize \<Rightarrow> nat option"
    and patch :: "nat \<Rightarrow> u8 list"
    and trail :: "nat \<Rightarrow> u8 list"
    and saved :: "'k \<Rightarrow> 'p \<Rightarrow> u8 list"
    and stack :: "'r \<Rightarrow> usize set"
    and fixup :: "usize \<Rightarrow> usize set"
    and step_to :: "'r \<Rightarrow> usize \<Rightarrow> 'r"
    and step_off :: "'r \<Rightarrow> usize \<Rightarrow> 'r" +
  assumes aux: "aux_laws F pages heap room"
    and trail_break: "trail n \<noteq> [] \<Longrightarrow> ar_reg_break_address A regs = ar_reg_debug_address A regs"
begin

lemma touches_frame:
  assumes "touches F pages T k k'" "T \<subseteq> heap None" "\<And>q. (None, q) \<in> pages k \<Longrightarrow> page q \<inter> T = {}"
  shows "frame F pages heap k k' (mem_read F k)"
proof -
  have same: "mem_read F k' s x = mem_read F k s x" if "\<not> (s = None \<and> x \<in> T)" for s x
    using assms(1) that unfolding touches_def by blast
  show ?thesis
    unfolding frame_def
  proof (intro conjI allI impI)
    fix s x assume "x \<notin> heap s"
    then show "mem_read F k' s x = mem_read F k s x" using assms(2) by (intro same) auto
  next
    fix s q x assume q: "(s, q) \<in> pages k \<inter> pages k'" "x \<in> page q"
    have "\<not> (s = None \<and> x \<in> T)"
    proof
      assume "s = None \<and> x \<in> T"
      then show False using assms(3) [of q] q by blast
    qed
    then show "mem_read F k' s x = mem_read F k s x" by (rule same)
  qed
qed

lemma trap_inv:
  assumes inv: "sinv sites k0 S" and same: "same_probes S S'" and t: "touches F pages T (ps_kernel S) (ps_kernel S')"
    and T: "private_stack pages heap T S"
  shows "sinv sites k0 S'"
proof
  note eq = same_probes_fields [OF same]
  have dom: "map_of (ps_objs S') i = None \<longleftrightarrow> map_of (ps_objs S) i = None" for i
    using eq(8) [of i] by (auto elim: option.rel_cases)
  have pt: "pr_point (obj_probe ob') = pr_point (obj_probe ob)"
    if "map_of (ps_objs S) i = Some ob" "map_of (ps_objs S') i = Some ob'" for i ob ob'
    using eq(8) [of i] that by (auto dest: same_obj_facts(1))
  have alive: "alive_inv S'"
    using inv pt dom unfolding refs_inv_def alive_inv_def eq by (metis not_None_eq)
  show "refs_inv A S' {} {} {}"
    using inv alive eq(7) unfolding refs_inv_def ordered_inv_def point_list_inv_def break_inv_def debug_inv_def no_gap_def
      used_inv_def point_used_def obj_used_def eq dom by simp
  show "minv sites k0 (ps_kernel S') (map_of (ps_points S'))"
    unfolding eq
  proof (rule minv_same [OF conjunct2 [OF inv]])
    show "pages (ps_kernel S') = pages (ps_kernel S)" using t by (simp add: touches_def)
    show "frame F pages heap (ps_kernel S) (ps_kernel S') (mem_read F (ps_kernel S))"
      using T by (intro touches_frame [OF t]) (auto simp: private_stack_def)
  qed
qed

lemma register_inv:
  assumes inv: "sinv sites k0 S" and sites: "sites_ok heap ilen (mem_read F k0) sites"
    and b: "bd_probe_point b = None" "request_ok F heap room ilen sites S b"
    and run: "register_kprobe_inner A S b = (r, S1)"
  shows "(\<And>e. r = Inl e \<Longrightarrow> sinv sites k0 S1)"
    "(\<And>p ob u. r = Inr p \<Longrightarrow> pr_point (obj_probe ob) = pr_point p \<Longrightarrow> obj_of u = ps_next S1 \<Longrightarrow>
       sinv sites k0 (insert_probe A (snd (new_obj S1 ob)) u))"
proof -
  have *: "room (ps_kernel S)" and **: "region (probe_addr b) 15 \<inter> heap (bd_user_pid b) = {}"
    "(bd_user_pid b, probe_addr b) \<in> sites \<or> ilen (mem_read F (ps_kernel S) (bd_user_pid b)) (probe_addr b) = None"
    using b(2) by (auto simp: request_ok_def)
  note inner = register_inner_inv [OF inv sites * b(1) ** run]
  show "r = Inl e \<Longrightarrow> sinv sites k0 S1" for e using inner by simp
  show "sinv sites k0 (insert_probe A (snd (new_obj S1 ob)) u)"
    if "r = Inr p" "pr_point (obj_probe ob) = pr_point p" "obj_of u = ps_next S1" for p ob u
    using inner that insert_new_inv [of S1 "probe_addr b" sites k0 "pr_point p" ob u] by simp
qed

lemma register_kprobe_inv:
  assumes inv: "sinv sites k0 S" and sites: "sites_ok heap ilen (mem_read F k0) sites"
    and b: "bd_probe_point b = None" "request_ok F heap room ilen sites S b" and run: "register_kprobe A S b = (r, S')"
  shows "sinv sites k0 S'"
proof (cases "register_kprobe_inner A S b")
  case (Pair r1 S1)
  show ?thesis
    using register_inv [OF inv sites b Pair] run Pair
    by (cases r1) (auto simp: register_kprobe_def new_obj_def Let_def)
qed

lemma register_uprobe_inv:
  assumes inv: "sinv sites k0 S" and sites: "sites_ok heap ilen (mem_read F k0) sites"
    and b: "bd_probe_point b = None" "request_ok F heap room ilen sites S b" and run: "register_uprobe A S b = Ok (r, S')"
  shows "sinv sites k0 S'"
proof (cases "register_kprobe_inner A S b")
  case (Pair r1 S1)
  show ?thesis
    using register_inv [OF inv sites b Pair] run Pair
    by (cases r1) (auto simp: register_uprobe_def new_obj_def Let_def split: if_splits)
qed

lemma register_kretprobe_inv:
  assumes inv: "sinv sites k0 S" and sites: "sites_ok heap ilen (mem_read F k0) sites"
    and b: "request_ok F heap room ilen sites S (ProbeBuilder_from rb)" and run: "register_kretprobe A S rb = Ok (r, S')"
  shows "sinv sites k0 S'"
proof (cases "register_kprobe_inner A S (ProbeBuilder_from rb)")
  case (Pair r1 S1)
  have "bd_probe_point (ProbeBuilder_from rb) = None" by (simp add: ProbeBuilder_from_def)
  from register_inv [OF inv sites this b Pair] show ?thesis
    using run unfolding register_kretprobe_cases [OF Pair]
    by (cases r1) (auto simp: ret_obj_def Retprobe_new_def)
qed

section \<open>Traps in a consistent state\<close>

text \<open>The lists at an address are not empty, and their probes share the point there.\<close>

lemma break_entry:
  assumes inv: "sinv sites k0 S" and l: "map_of (ps_break_list S) a = Some l"
  shows "\<exists>u l' q p. l = u # l' \<and> map_of (ps_point_list S) a = Some q \<and> map_of (ps_points S) q = Some p \<and>
    ar_break_address A p = a \<and> map_of (ps_debug_list S) (ar_debug_address A p) = Some l \<and>
    (\<forall>v \<in> set l. probe_point S v = Some p)"
proof -
  have br: "break_inv S" and pl: "point_list_inv A S" using inv by (simp_all add: refs_inv_def)
  from br [unfolded break_inv_def, rule_format, OF l] obtain q where q: "l \<noteq> []"
    "map_of (ps_point_list S) a = Some q" "\<forall>v \<in> set l. obj_point S (obj_of v) = Some q" by blast
  from pl [unfolded point_list_inv_def, rule_format, OF q(2)] l obtain p where p: "map_of (ps_points S) q = Some p"
    "ar_break_address A p = a" "map_of (ps_debug_list S) (ar_debug_address A p) = Some l" by auto
  obtain u l' where "l = u # l'" using q(1) by (cases l) auto
  with q p show ?thesis by (auto simp: probe_point_def)
qed

lemma debug_entry:
  assumes inv: "sinv sites k0 S" and l: "map_of (ps_debug_list S) d = Some l"
  shows "\<exists>u l' p. l = u # l' \<and> probe_point S u = Some p \<and> ar_debug_address A p = d \<and>
    map_of (ps_break_list S) (ar_break_address A p) = Some l"
proof -
  have de: "debug_inv A S" and pl: "point_list_inv A S" using inv by (simp_all add: refs_inv_def)
  from de [unfolded debug_inv_def, rule_format, OF l] obtain a q p where q: "map_of (ps_point_list S) a = Some q"
    "map_of (ps_points S) q = Some p" "ar_debug_address A p = d" by blast
  with pl [unfolded point_list_inv_def, rule_format, OF q(1)] l have a: "ar_break_address A p = a"
    "map_of (ps_break_list S) a = Some l" by auto
  from break_entry [OF inv a(2)] q(1,2) a q(3) show ?thesis by auto
qed

lemma debug_same:
  assumes inv: "sinv sites k0 S" "kinds_inv S" and run: "kprobe_handler_from_debug A F C (S, regs, log) = Ok (found, S', regs', log')"
  shows "S' = S"
proof (cases "map_of (ps_debug_list S) (ar_reg_debug_address A regs)")
  case None
  then show ?thesis using run debug_trap_none [OF None, of F C log] by simp
next
  case (Some l)
  from debug_entry [OF inv(1) Some] obtain u l' p where "l = u # l'" "probe_point S u = Some p" by blast
  with debug_trap_ok [OF inv(2), of A regs u l' p F C log] Some run show ?thesis by auto
qed

lemma break_same:
  assumes inv: "sinv sites k0 S" "kinds_inv S" and C: "keeps_stack stack C"
    and run: "kprobe_handler_from_break A F C (S, regs, log) = Ok (found, S', regs', log')"
  shows "same_probes S S' \<and> touches F pages (stack regs) (ps_kernel S) (ps_kernel S')"
proof (cases "map_of (ps_break_list S) (ar_reg_break_address A regs)")
  case None
  then have "kprobe_handler_from_debug A F C (S, regs, log) = Ok (found, S', regs', log')"
    using run by (simp add: kprobe_handler_from_break_def get_break_list_def)
  from debug_same [OF inv this] show ?thesis using same_probes_refl [OF inv(2)] by simp
next
  case (Some l)
  from break_entry [OF inv(1) Some] obtain u l' p where "l = u # l'" "probe_point S u = Some p" by auto
  with break_trap_ok [OF inv(2) C, of regs u l' p log] Some run show ?thesis by auto
qed

text \<open>The outcome of a trap in a process.\<close>

lemma user_trap_cases:
  assumes inv: "sinv sites k0 S" "kinds_inv S" and C: "keeps_stack stack C"
    and ok: "private_stack pages heap (stack regs) S" "room (ps_kernel S)"
    and l: "map_of (ps_break_list S) (ar_reg_break_address A regs) = Some l"
    and user: "\<forall>u \<in> set l. \<forall>p. probe_point S u = Some p \<longrightarrow> ar_pid A p \<noteq> None"
  shows "\<exists>S' regs' q p. uprobe_handler_from_break A F C (S, regs, log) =
      Ok (True, S', step_to regs' (ar_dynamic_user_ptr A p), log @ list_calls obj_pre_calls S l) \<and>
    (no_retprobe S l \<longrightarrow> regs' = handled C (list_calls obj_pre_calls S l) regs) \<and>
    sinv sites k0 S' \<and> kinds_inv S' \<and> ar_dynamic_user_ptr A p \<noteq> 0 \<and>
    ps_break_list S' = ps_break_list S \<and> ps_next S' = ps_next S \<and>
    (\<forall>i. rel_option (same_obj i) (map_of (ps_objs S) i) (map_of (ps_objs S') i)) \<and>
    list_calls obj_post_calls S' l = list_calls obj_post_calls S l \<and>
    map_of (ps_point_list S') (ar_reg_break_address A regs) = Some q \<and> map_of (ps_points S') q = Some p"
proof -
  let ?a = "ar_reg_break_address A regs" and ?pre = "list_calls obj_pre_calls S l"
  from break_entry [OF inv(1) l] obtain u l' q p where p: "l = u # l'" "map_of (ps_point_list S) ?a = Some q"
    "map_of (ps_points S) q = Some p" "\<forall>v \<in> set l. probe_point S v = Some p" by blast
  have br: "break_inv S" using inv(1) by (simp add: refs_inv_def)
  from br [unfolded break_inv_def, rule_format, OF l] p(1,2) have u: "obj_point S (obj_of u) = Some q" by auto
  from user_break_trap_ok [OF inv(2) C l [unfolded p(1)] u p(3), of log] obtain S1 regs' where
    run: "uprobe_handler_from_break A F C (S, regs, log) =
      (if ar_dynamic_user_ptr A p \<noteq> 0 then Ok (True, S1, step_to regs' (ar_dynamic_user_ptr A p), log @ ?pre)
       else let (ptr, S2) = prepare_user_slot A F S1 q p in Ok (True, S2, step_to regs' ptr, log @ ?pre))" and
    same: "same_probes S S1" "touches F pages (stack regs) (ps_kernel S) (ps_kernel S1)"
      "no_retprobe S l \<longrightarrow> regs' = handled C ?pre regs" unfolding p(1) by blast
  note eq = same_probes_fields [OF same(1)]
  have inv1: "sinv sites k0 S1" "kinds_inv S1" using trap_inv [OF inv(1) same(1,2) ok(1)] same_probes_kinds [OF same(1) inv(2)] by auto
  have pid: "ar_pid A p \<noteq> None" using user p(1,4) by (metis list.set_intros(1))
  have post: "list_calls obj_post_calls S1 l = list_calls obj_post_calls S l" by (rule same_probes_post_calls [OF same(1) inv(2)])
  show ?thesis
  proof (cases "ar_dynamic_user_ptr A p = 0")
    case False
    then show ?thesis
      using run same(3) inv1 p eq post by (intro exI [of _ S1] exI [of _ regs'] exI [of _ q] exI [of _ p]) simp
  next
    case True
    obtain ptr S2 where S2: "prepare_user_slot A F S1 q p = (ptr, S2)" by fastforce
    have room: "room (ps_kernel S1)" using aux_room [OF aux _ ok(2)] same(2) by (simp add: touches_def)
    have at: "map_of (ps_point_list S1) ?a = Some q" "map_of (ps_points S1) q = Some p" "map_of (ps_break_list S1) ?a = Some l"
      using p(2,3) l eq by simp_all
    note f = prepare_user_slot_fields [OF S2]
    from prepare_user_slot_inv [OF inv1(1) aux room at True pid S2] obtain p' where
      p': "sinv sites k0 S2" "map_of (ps_points S2) q = Some p'" "ar_dynamic_user_ptr A p' = ptr" "ptr \<noteq> 0" by blast
    have "list_calls obj_post_calls S2 l = list_calls obj_post_calls S1 l" by (simp add: list_calls_def f)
    then show ?thesis
      using run S2 True same(3) p' kinds_prepare_user_slot [OF inv1(2) S2] at(1) eq post
      by (intro exI [of _ S2] exI [of _ regs'] exI [of _ q] exI [of _ p']) (simp add: f)
  qed
qed

lemma user_break_inv:
  assumes inv: "sinv sites k0 S" "kinds_inv S" and C: "keeps_stack stack C" and ok: "user_trap_ok A pages heap room stack S regs"
    and run: "uprobe_handler_from_break A F C (S, regs, log) = Ok (found, S', regs', log')"
  shows "sinv sites k0 S' \<and> kinds_inv S' \<and> ps_next S' = ps_next S \<and>
    (\<forall>i. rel_option (same_obj i) (map_of (ps_objs S) i) (map_of (ps_objs S') i))"
proof (cases "map_of (ps_break_list S) (ar_reg_break_address A regs)")
  case None
  then have "kprobe_handler_from_debug A F C (S, regs, log) = Ok (found, S', regs', log')"
    using run by (simp add: uprobe_handler_from_break_def get_break_list_def uprobe_debug_eq)
  from debug_same [OF inv this] inv same_probes_fields(8) [OF same_probes_refl [OF inv(2)]] show ?thesis by simp
next
  case (Some l)
  have "\<forall>u \<in> set l. \<forall>p. probe_point S u = Some p \<longrightarrow> ar_pid A p \<noteq> None"
    using ok Some unfolding user_trap_ok_def get_break_list_def by blast
  from user_trap_cases [OF inv C _ _ Some this, where log = log] ok run show ?thesis by (auto simp: user_trap_ok_def)
qed

text \<open>Every step keeps the invariant.\<close>

lemma step_inv:
  assumes "history_step A F C pages heap room ilen stack fixup sites S S'"
    and inv: "sinv sites k0 S" "kinds_inv S" and sites: "sites_ok heap ilen (mem_read F k0) sites" and C: "keeps_stack stack C"
  shows "sinv sites k0 S' \<and> kinds_inv S'"
  using assms(1) unfolding history_step_def
proof cases
  case (RegisterKprobe b r)
  then show ?thesis
    using register_kprobe_inv [OF inv(1) sites, of b r S'] kinds_register_kprobe [OF inv(2), of b A r S'] by (simp add: client_builder_def)
next
  case (RegisterKretprobe rb r)
  then show ?thesis using register_kretprobe_inv [OF inv(1) sites, of rb r S'] kinds_register_kretprobe [OF inv(2), of A rb r S'] by simp
next
  case (RegisterUprobe b r)
  then show ?thesis
    using register_uprobe_inv [OF inv(1) sites, of b r S'] kinds_register_uprobe [OF inv(2), of b A r S'] by (simp add: client_builder_def)
next
  case (Unregister i)
  then show ?thesis
    using unregister_probe_inv [OF inv(1) sites] kinds_unregister [OF inv(2)]
    by (auto simp: unregister_kprobe_def unregister_kretprobe_def unregister_uprobe_def)
next
  case (CloneHandle i)
  then show ?thesis using clone_handle_inv [OF inv(1)] kinds_clone_handle [OF inv(2)] by simp
next
  case (DropHandle i)
  then show ?thesis using drop_handle_inv [OF inv(1) sites] kinds_drop_handle [OF inv(2)] by simp
next
  case (Switch i f n cb)
  have "client_probe pb \<Longrightarrow> client_probe (f pb)" "ret_probe i pb \<Longrightarrow> ret_probe i (f pb)" for pb
    using Switch(3) by (auto simp: client_probe_def ret_probe_def probe_enable_def probe_disable_def
      register_event_callback_def unregister_event_callback_def)
  then show ?thesis using Switch(1) update_basic_inv [OF inv(1)] kinds_update_basic [OF inv(2), of f i] by simp
next
  case (BreakTrap regs log found regs' log')
  note same = break_same [OF inv C BreakTrap(2)]
  with trap_inv [OF inv(1) _ _ BreakTrap(1)] same_probes_kinds inv(2) show ?thesis by blast
next
  case (DebugTrap regs log found regs' log')
  then show ?thesis using debug_same [OF inv] inv by blast
next
  case (UserBreakTrap regs log found regs' log')
  then show ?thesis using user_break_inv [OF inv C] by blast
next
  case (UserDebugTrap regs log found regs' log')
  then show ?thesis using debug_same [OF inv] inv unfolding uprobe_debug_eq by blast
next
  case (PreHandler regs i ob log regs' log')
  from call_pre_handler_ok [OF inv(2) PreHandler(2) C PreHandler(3), of regs log] PreHandler(4)
  have "same_probes S S'" "touches F pages (stack regs) (ps_kernel S) (ps_kernel S')" by auto
  with trap_inv [OF inv(1) _ _ PreHandler(1)] same_probes_kinds inv(2) show ?thesis by blast
next
  case (Return ptr fp regs log ret regs' log')
  note same = trampoline_same [OF inv(2) Return(2)]
  with trap_inv [OF inv(1) _ _ Return(1)] same_probes_kinds inv(2) show ?thesis by blast
qed

lemma steps_inv:
  assumes "(history_step A F C pages heap room ilen stack fixup sites)\<^sup>*\<^sup>* S S'" "sinv sites k0 S" "kinds_inv S"
    and sites: "sites_ok heap ilen (mem_read F k0) sites" and C: "keeps_stack stack C"
  shows "sinv sites k0 S' \<and> kinds_inv S'"
  using assms(1)
proof (induction rule: rtranclp_induct)
  case base
  show ?case using assms(2,3) by simp
next
  case (step S' S'')
  then show ?case using step_inv [OF step(2) _ _ sites C] by blast
qed

lemma reaches_inv:
  assumes "probe_history A F C pages heap room ilen stack fixup sites k0 S" "pages_ok pages heap k0" and C: "keeps_stack stack C"
  shows "sinv sites k0 S" "kinds_inv S" "sites_ok heap ilen (mem_read F k0) sites"
proof -
  have "minv sites k0 k0 (map_of [])" using assms(2) by (simp add: mem_inv_def armed_def)
  then have "sinv sites k0 (ProbeManager_new k0)" using refs_init [of A k0] by (simp add: ProbeManager_new_def)
  then show "sinv sites k0 S" "kinds_inv S" "sites_ok heap ilen (mem_read F k0) sites"
    using assms(1) steps_inv [OF _ _ kinds_init _ C] unfolding probe_history_def by blast+
qed

end

end
