(* ===== verification/ProbeHistory.thy ===== *)
theory ProbeHistory
  imports ProbeRun
begin

text \<open>
  What the invariant of the manager gives in every state of a history: where the breakpoints are,
  what a registration does, what is left after the last probe, and what a trap does.
\<close>

text \<open>
  The lists are keyed by the address alone: where an address has a point, a probe of whatever
  process shares it, and the memory of that process is left as it is.
\<close>

lemma second_process_unpatched:
  assumes "bd_user_pid b \<noteq> None" "map_of (ps_point_list S) (probe_addr b) = Some q"
  shows "\<exists>S'. register_uprobe A S b = Ok (Ok (ps_next S), S') \<and> ps_kernel S' = ps_kernel S"
  using assms
  by (auto simp: register_uprobe_def register_kprobe_inner_def install_def with_probe_point_def new_obj_def insert_probe_def
    Let_def split: option.split)

context probe_run
begin

section \<open>Memory\<close>

lemma point_of_used:
  assumes inv: "sinv sites k0 S" and p: "map_of (ps_points S) q = Some p"
  shows "\<exists>i. (i \<in> set (ps_handles S) \<or> (\<exists>a l. map_of (ps_break_list S) a = Some l \<and> i \<in> obj_of ` set l)) \<and> obj_point S i = Some q"
proof -
  have us: "used_inv S {} {}" and br: "break_inv S" and ng: "no_gap S {}" using inv by (simp_all add: refs_inv_def)
  have "point_used S q" using us p by (simp add: used_inv_def)
  then consider a where "map_of (ps_point_list S) a = Some q" | i where "obj_point S i = Some q" by (auto simp: point_used_def)
  then show ?thesis
  proof cases
    case 1
    then obtain l where l: "map_of (ps_break_list S) a = Some l" using ng unfolding no_gap_def by force
    from break_entry [OF inv l] 1 br [unfolded break_inv_def, rule_format, OF l] obtain u l' where
      "l = u # l'" "obj_point S (obj_of u) = Some q" by auto
    with l have "obj_of u \<in> obj_of ` set l" by simp
    with l \<open>obj_point S (obj_of u) = Some q\<close> show ?thesis by blast
  next
    case 2
    then have "map_of (ps_objs S) i \<noteq> None" by (auto simp: obj_point_def)
    then have "obj_used S i" using us by (simp add: used_inv_def)
    with 2 show ?thesis by (auto simp: obj_used_def)
  qed
qed

lemma inv_text_restored:
  assumes inv: "sinv sites k0 S"
  shows "text_restored F pages heap k0 S"
  unfolding text_restored_def
proof (intro impI)
  assume none: "ps_handles S = []" "\<forall>a. get_break_list S a = None"
  have "map_of (ps_points S) q = None" for q
    using point_of_used [OF inv, of q] none by (cases "map_of (ps_points S) q") (auto simp: get_break_list_def)
  then have "map_of (ps_points S) = Map.empty" by (rule ext)
  then show "pages (ps_kernel S) = pages k0 \<and> (\<forall>sp x. x \<notin> heap sp \<longrightarrow> mem_read F (ps_kernel S) sp x = mem_read F k0 sp x)"
    using conjunct2 [OF inv] by (simp add: mem_inv_def armed_def)
qed

lemma inv_patch:
  assumes inv: "sinv sites k0 S" and sites: "sites_ok heap ilen (mem_read F k0) sites" and p: "map_of (ps_points S) q = Some p"
  shows "read_bytes F (ps_kernel S) (ar_pid A p) (ar_break_address A p) (length (patch (ar_original_instruction_len A p))) =
    patch (ar_original_instruction_len A p)"
proof (rule nth_equalityI)
  let ?n = "ar_original_instruction_len A p" and ?a = "ar_break_address A p"
  note pt = minv_point [OF conjunct2 [OF inv] p]
  have len: "length (patch ?n) \<le> 15" using patch_len [OF pt(2)] pt(8) by linarith
  fix i assume "i < length (read_bytes F (ps_kernel S) (ar_pid A p) ?a (length (patch ?n)))"
  then have i: "i < length (patch ?n)" "i < 2 ^ 64" using len by auto
  then have x: "?a + of_nat i \<in> region ?a (length (patch ?n))" by (simp add: offset_in_region)
  then have "?a + of_nat i \<notin> heap (ar_pid A p)" using site_out [OF sites pt(1)] region_mono [OF len] by blast
  from armed_at [OF minv_parts(3) [OF conjunct2 [OF inv]] this p x]
  show "read_bytes F (ps_kernel S) (ar_pid A p) ?a (length (patch ?n)) ! i = patch ?n ! i"
    using i by (simp add: unat_of_nat_small)
qed simp

lemma inv_slots:
  assumes inv: "sinv sites k0 S" and p: "map_of (ps_points S) q = Some p"
  defines "slot \<equiv> read_bytes F k0 (ar_pid A p) (ar_break_address A p) (ar_original_instruction_len A p) @
      trail (ar_original_instruction_len A p)"
  shows "read_bytes F (ps_kernel S) None (ar_single_step_address A p) (length slot) = slot"
    "ar_dynamic_user_ptr A p \<noteq> 0 \<Longrightarrow>
      read_bytes F (ps_kernel S) (ar_pid A p) (ar_dynamic_user_ptr A p) (length slot) = slot"
  using minv_pinv [OF conjunct2 [OF inv] p] by (simp_all add: point_inv_def slot_bytes_def slot_def slot_len)

lemma inv_breakpoints:
  assumes inv: "sinv sites k0 S" and sites: "sites_ok heap ilen (mem_read F k0) sites"
  shows "breakpoints_in_place A F heap patch trail sites k0 S"
  unfolding breakpoints_in_place_def get_break_list_def get_debug_list_def
proof (intro conjI allI impI)
  fix a l assume l: "map_of (ps_break_list S) a = Some l"
  from break_entry [OF inv l] obtain u l' q p where p: "l = u # l'" "map_of (ps_points S) q = Some p"
    "ar_break_address A p = a" "map_of (ps_debug_list S) (ar_debug_address A p) = Some l" "\<forall>v \<in> set l. probe_point S v = Some p"
    by blast
  note pt = minv_point [OF conjunct2 [OF inv] p(2)] and patch = inv_patch [OF inv sites p(2)] and slots = inv_slots [OF inv p(2)]
  show "\<exists>sp p. let n = ar_original_instruction_len A p; bp = patch n; slot = read_bytes F k0 sp a n @ trail n in
      (sp, a) \<in> sites \<and> l \<noteq> [] \<and> (\<forall>u \<in> set l. probe_point S u = Some p) \<and> ar_pid A p = sp \<and> ar_break_address A p = a \<and>
      map_of (ps_debug_list S) (ar_debug_address A p) = Some l \<and>
      read_bytes F (ps_kernel S) sp a (length bp) = bp \<and>
      read_bytes F (ps_kernel S) None (ar_single_step_address A p) (length slot) = slot \<and>
      (ar_dynamic_user_ptr A p \<noteq> 0 \<longrightarrow> read_bytes F (ps_kernel S) sp (ar_dynamic_user_ptr A p) (length slot) = slot)"
    using p pt(1) patch slots unfolding Let_def by (intro exI [of _ "ar_pid A p"] exI [of _ p]) simp
next
  fix sp x assume x: "x \<notin> heap sp" "mem_read F (ps_kernel S) sp x \<noteq> mem_read F k0 sp x"
  obtain q p where p: "map_of (ps_points S) q = Some p" "ar_pid A p = sp"
    "x \<in> region (ar_break_address A p) (length (patch (ar_original_instruction_len A p)))"
    using armed_rest [OF minv_parts(3) [OF conjunct2 [OF inv]] x(1)] x(2) by blast
  note pt = minv_point [OF conjunct2 [OF inv] p(1)]
  have "x \<in> region (ar_break_address A p) (ar_original_instruction_len A p)"
    using p(3) region_mono patch_len [OF pt(2)] by blast
  moreover obtain i where i: "i \<in> set (ps_handles S) \<or> (\<exists>a l. map_of (ps_break_list S) a = Some l \<and> i \<in> obj_of ` set l)"
    "obj_point S i = Some q" using point_of_used [OF inv p(1)] by blast
  moreover have "probe_point S (Kprobe i) = Some p" using i(2) p(1) by (simp add: probe_point_def)
  ultimately show "\<exists>i p. i \<in> set (ps_handles S) \<union> \<Union> ((\<lambda>l. obj_of ` set l) ` ran (\<lambda>a. map_of (ps_break_list S) a)) \<and>
      probe_point S (Kprobe i) = Some p \<and> ar_pid A p = sp \<and> x \<in> region (ar_break_address A p) (ar_original_instruction_len A p)"
    using p(2) by (intro exI [of _ i] exI [of _ p]) (auto simp: ran_def)
qed

section \<open>Registration\<close>

text \<open>Only a request at a site of the builder's address space is granted.\<close>

lemma granted_site:
  assumes inv: "sinv sites k0 S" and b: "bd_probe_point b = None" "request_ok F heap room ilen sites S b"
    and run: "register_kprobe_inner A S b = (Inr probe, S1)"
  shows "(bd_user_pid b, probe_addr b) \<in> sites"
proof (rule ccontr)
  assume "(bd_user_pid b, probe_addr b) \<notin> sites"
  then have no: "ilen (mem_read F (ps_kernel S) (bd_user_pid b)) (probe_addr b) = None" "(sp, probe_addr b) \<notin> sites"
    "room (ps_kernel S)" "region (probe_addr b) 15 \<inter> heap (bd_user_pid b) = {}" for sp
    using b(2) by (auto simp: request_ok_def)
  have pl: "point_list_inv A S" using inv by (simp add: refs_inv_def)
  show False
  proof (cases "map_of (ps_point_list S) (probe_addr b)")
    case (Some q)
    then obtain p where "map_of (ps_points S) q = Some p" "ar_break_address A p = probe_addr b"
      using pl by (auto simp: point_list_inv_def)
    then show False using minv_point(1) [OF conjunct2 [OF inv]] no(2) by metis
  next
    case None
    obtain r k where r: "ar_replace_inst A (ps_kernel S) b = (r, k)" by fastforce
    from minv_refused [OF conjunct2 [OF inv] no(3) r no(4,1)] obtain e where "r = Err e" by blast
    then show False using run None b(1) r by (simp add: register_kprobe_inner_def install_def Let_def)
  qed
qed

lemma granted_patched:
  assumes inv: "sinv sites k0 S" and sites: "sites_ok heap ilen (mem_read F k0) sites"
    and b: "bd_probe_point b = None" "request_ok F heap room ilen sites S b"
    and run: "register_kprobe_inner A S b = (Inr p, S1)"
    and ob: "pr_point (obj_probe ob) = pr_point p" "obj_of u = ps_next S1"
  shows "patched F ilen patch k0 b u (insert_probe A (snd (new_obj S1 ob)) u)"
proof -
  let ?S = "insert_probe A (snd (new_obj S1 ob)) u" and ?a = "probe_addr b"
  have *: "room (ps_kernel S)" and **: "region (probe_addr b) 15 \<inter> heap (bd_user_pid b) = {}"
    "(bd_user_pid b, probe_addr b) \<in> sites \<or> ilen (mem_read F (ps_kernel S) (bd_user_pid b)) (probe_addr b) = None"
    using b(2) by (auto simp: request_ok_def)
  from register_inner_inv [OF inv sites * b(1) ** run] have
    S1: "refs_inv A S1 {} {} {?a}" "map_of (ps_point_list S1) ?a = Some (pr_point p)" by auto
  then obtain pt where pt: "map_of (ps_points S1) (pr_point p) = Some pt" "ar_break_address A pt = ?a"
    by (auto simp: refs_inv_def point_list_inv_def)
  have l: "map_of (ps_break_list ?S) ?a = Some (list_at (ps_break_list S1) ?a @ [u])"
    using pt ob by (simp add: insert_probe_def new_obj_def probe_point_def obj_point_def Let_def map_of_insert_point)
  have inv': "sinv sites k0 ?S" using register_inv(2) [OF inv sites b run refl ob] .
  from break_entry [OF inv' l] obtain q r where r: "map_of (ps_points ?S) q = Some r" "ar_break_address A r = ?a" by blast
  note site = granted_site [OF inv b run] and rt = minv_point [OF conjunct2 [OF inv'] r(1)]
  have pid: "ar_pid A r = bd_user_pid b" using site_space [OF sites site] rt(1) r(2) by simp
  show ?thesis
    using l rt(2) inv_patch [OF inv' sites r(1)] r(2) pid unfolding patched_def get_break_list_def by auto
qed

lemma inv_registers:
  assumes inv: "sinv sites k0 S" and sites: "sites_ok heap ilen (mem_read F k0) sites"
  shows "registers_in_place A F heap room ilen patch sites k0 S"
  unfolding registers_in_place_def
proof (intro conjI allI impI)
  fix b i S' assume b: "client_builder b" "request_ok F heap room ilen sites S b"
  obtain r S1 where r: "register_kprobe_inner A S b = (r, S1)" by fastforce
  have "bd_probe_point b = None" using b(1) by (simp add: client_builder_def)
  note patched = granted_patched [OF inv sites this b(2)]
  show "patched F ilen patch k0 b (Kprobe i) S'" if "register_kprobe A S b = (Ok i, S')"
    using that r patched [of _ S1 "ProbeObj _" "Kprobe (ps_next S1)"]
    by (cases r) (auto simp: register_kprobe_def new_obj_def Let_def)
  show "patched F ilen patch k0 b (Uprobe i) S'" if "register_uprobe A S b = Ok (Ok i, S')"
    using that r patched [of _ S1 "ProbeObj _" "Uprobe (ps_next S1)"]
    by (cases r) (auto simp: register_uprobe_def new_obj_def Let_def split: if_splits)
next
  fix rb i S' assume b: "request_ok F heap room ilen sites S (ProbeBuilder_from rb)" "register_kretprobe A S rb = Ok (Ok i, S')"
  obtain r S1 where r: "register_kprobe_inner A S (ProbeBuilder_from rb) = (r, S1)" by fastforce
  have "bd_probe_point (ProbeBuilder_from rb) = None" by (simp add: ProbeBuilder_from_def)
  note patched = granted_patched [OF inv sites this b(1)]
  show "patched F ilen patch k0 (ProbeBuilder_from rb) (Kretprobe i) S'"
    using b(2) r patched [of _ S1 "ret_obj rb (ps_next S1) _" "Kretprobe (ps_next S1)"] unfolding register_kretprobe_cases [OF r]
    by (cases r) (auto simp: ret_obj_def Retprobe_new_def)
qed

section \<open>Traps\<close>

text \<open>The trap behind the instruction in the slot at \<open>slot\<close>, as the debug handler sees it, or the break handler.\<close>

lemma trap_behind:
  assumes inv: "sinv sites k0 S" "kinds_inv S" and sites: "sites_ok heap ilen (mem_read F k0) sites"
    and l: "map_of (ps_break_list S) a = Some l" "map_of (ps_point_list S) a = Some q" "map_of (ps_points S) q = Some p"
    and n: "n = ar_original_instruction_len A p"
    and slot: "(s, slot) \<in> pages (ps_kernel S)" "ar_debug_address A p = slot + of_nat n"
    and regs: "ar_reg_debug_address A regs = slot + of_nat n"
  shows "kprobe_handler_from_debug A F C (S, regs, log) =
      Ok (True, S, step_off (handled C (list_calls obj_post_calls S l) regs) (a + of_nat n), log @ list_calls obj_post_calls S l)"
    "trail n \<noteq> [] \<Longrightarrow> get_break_list S (ar_reg_break_address A regs) = None"
proof -
  from break_entry [OF inv(1) l(1)] l(2,3) obtain u l' where e: "l = u # l'" "ar_break_address A p = a"
    "map_of (ps_debug_list S) (ar_debug_address A p) = Some l" "probe_point S u = Some p" by auto
  note pt = minv_point [OF conjunct2 [OF inv(1)] l(3)]
  show "kprobe_handler_from_debug A F C (S, regs, log) =
      Ok (True, S, step_off (handled C (list_calls obj_post_calls S l) regs) (a + of_nat n), log @ list_calls obj_post_calls S l)"
    using debug_trap_ok [OF inv(2), of A regs u l' p F C log] e regs slot(2)
    by (simp add: clear_step return_address n del: list_calls_simps)
  assume brk: "trail n \<noteq> []"
  show "get_break_list S (ar_reg_break_address A regs) = None"
  proof (rule ccontr)
    let ?x = "slot + of_nat n"
    assume "get_break_list S (ar_reg_break_address A regs) \<noteq> None"
    then obtain l2 where "map_of (ps_break_list S) ?x = Some l2"
      using trail_break [OF brk, of regs] regs by (auto simp: get_break_list_def)
    from break_entry [OF inv(1) this] obtain q2 p2 where p2: "map_of (ps_points S) q2 = Some p2" "ar_break_address A p2 = ?x" by blast
    have "?x \<in> region ?x 15" by (simp add: region_def)
    moreover have "?x \<in> page slot" using pt(8) n by (intro offset_in_region) simp_all
    then have "?x \<in> heap s" using pages_ok_heap [OF minv_parts(1) [OF conjunct2 [OF inv(1)]] slot(1)] by blast
    ultimately show False using site_out [OF sites minv_point(1) [OF conjunct2 [OF inv(1)] p2(1)], of s] p2(2) by auto
  qed
qed

lemma break_falls_through:
  "get_break_list S (ar_reg_break_address A regs) = None \<Longrightarrow>
     kprobe_handler_from_break A F C (S, regs, log) = kprobe_handler_from_debug A F C (S, regs, log)"
  "get_break_list S (ar_reg_break_address A regs) = None \<Longrightarrow>
     uprobe_handler_from_break A F C (S, regs, log) = kprobe_handler_from_debug A F C (S, regs, log)"
  by (simp_all add: kprobe_handler_from_break_def uprobe_handler_from_break_def uprobe_debug_eq)

lemma kernel_trap_steps_over:
  assumes inv: "sinv sites k0 S" "kinds_inv S" and sites: "sites_ok heap ilen (mem_read F k0) sites" and C: "keeps_stack stack C"
    and T: "private_stack pages heap (stack regs) S" and l: "map_of (ps_break_list S) (ar_reg_break_address A regs) = Some l"
    and sp: "(None, ar_reg_break_address A regs) \<in> sites"
  shows "steps_over A F C ilen trail step_to step_off k0 S regs None l
      (kprobe_handler_from_break A F C) (kprobe_handler_from_debug A F C)"
  unfolding steps_over_def
proof
  fix log
  from break_entry [OF inv(1) l] obtain u l' q p where p: "l = u # l'" "map_of (ps_points S) q = Some p"
    "ar_break_address A p = ar_reg_break_address A regs" "map_of (ps_point_list S) (ar_reg_break_address A regs) = Some q"
    "\<forall>v \<in> set l. probe_point S v = Some p" by blast
  let ?n = "ar_original_instruction_len A p" and ?a = "ar_reg_break_address A regs" and ?slot = "ar_single_step_address A p"
  have u: "probe_point S u = Some p" using p by simp
  from break_trap_ok [OF inv(2) C l [unfolded p(1)] u, of log] p(1) obtain S' regs' where
    run: "kprobe_handler_from_break A F C (S, regs, log) = Ok (True, S', step_to regs' ?slot, log @ list_calls obj_pre_calls S l)" and
    same: "same_probes S S'" "touches F pages (stack regs) (ps_kernel S) (ps_kernel S')" and
    exact: "no_retprobe S l \<longrightarrow> regs' = handled C (list_calls obj_pre_calls S l) regs" by auto
  have inv': "sinv sites k0 S'" "kinds_inv S'" using trap_inv [OF inv(1) same T] same_probes_kinds [OF same(1) inv(2)] by auto
  note eq = same_probes_fields [OF same(1)]
  have p': "map_of (ps_points S') q = Some p" "map_of (ps_break_list S') ?a = Some l" "map_of (ps_point_list S') ?a = Some q"
    using p(2,4) l by (simp_all add: eq)
  note pt = minv_point [OF conjunct2 [OF inv'(1)] p'(1)]
  have pid: "ar_pid A p = None" using site_space [OF sites sp] pt(1) p(3) by simp
  then have dyn: "ar_dynamic_user_ptr A p = 0" using pt(3) by auto
  have code: "read_bytes F (ps_kernel S') None ?slot (length (read_bytes F k0 None ?a ?n @ trail ?n)) =
      read_bytes F k0 None ?a ?n @ trail ?n"
    using inv_slots(1) [OF inv'(1) p'(1)] pid p(3) by simp
  have page: "(None, ?slot) \<in> pages (ps_kernel S')" using pt(4) slot_in_pages [of A p] by blast
  have dbg: "ar_debug_address A p = ?slot + of_nat ?n" using dyn by (simp add: debug_address)
  note behind = trap_behind [OF inv' sites p'(2,3,1) refl page dbg]
  have after: "h (S', regs1, log1) = Ok (True, S', step_off (handled C (list_calls obj_post_calls S l) regs1) (?a + of_nat ?n),
      log1 @ list_calls obj_post_calls S l)"
    if "h = kprobe_handler_from_debug A F C \<or> trail ?n \<noteq> [] \<and> h = kprobe_handler_from_break A F C"
      "ar_reg_debug_address A regs1 = ?slot + of_nat ?n" for h regs1 log1
    using that(1) behind(1) [OF that(2), of C log1] behind(2) [OF that(2)] same_probes_post_calls [OF same(1) inv(2), of l]
      break_falls_through(1) [of S' regs1 C log1] by auto
  show "\<exists>S' regs' n slot. let a = ?a; code = read_bytes F k0 None a n @ trail n in
      ilen (mem_read F k0 None) a = Some n \<and>
      kprobe_handler_from_break A F C (S, regs, log) = Ok (True, S', step_to regs' slot, log @ list_calls obj_pre_calls S l) \<and>
      (no_retprobe S l \<longrightarrow> regs' = handled C (list_calls obj_pre_calls S l) regs) \<and>
      ar_reg_debug_address A (step_to regs' slot) = slot \<and>
      read_bytes F (ps_kernel S') None slot (length code) = code \<and>
      (\<forall>h regs1 log1. h = kprobe_handler_from_debug A F C \<or> trail n \<noteq> [] \<and> h = kprobe_handler_from_break A F C \<longrightarrow>
         ar_reg_debug_address A regs1 = slot + of_nat n \<longrightarrow>
         h (S', regs1, log1) = Ok (True, S', step_off (handled C (list_calls obj_post_calls S l) regs1) (a + of_nat n),
           log1 @ list_calls obj_post_calls S l))"
    unfolding Let_def
    by (rule exI [of _ S'], rule exI [of _ regs'], rule exI [of _ ?n], rule exI [of _ ?slot])
       (intro conjI allI impI run exact step_pc code pt(2) [unfolded p(3) pid] after; assumption)
qed

lemma user_trap_steps_over:
  assumes inv: "sinv sites k0 S" "kinds_inv S" and sites: "sites_ok heap ilen (mem_read F k0) sites" and C: "keeps_stack stack C"
    and T: "private_stack pages heap (stack regs) S" "room (ps_kernel S)"
    and l: "map_of (ps_break_list S) (ar_reg_break_address A regs) = Some l"
    and sp: "(sp, ar_reg_break_address A regs) \<in> sites" "sp \<noteq> None"
  shows "steps_over A F C ilen trail step_to step_off k0 S regs sp l
      (uprobe_handler_from_break A F C) (uprobe_handler_from_debug A F C)"
  unfolding steps_over_def uprobe_debug_eq
proof
  fix log
  let ?a = "ar_reg_break_address A regs"
  from break_entry [OF inv(1) l] obtain q0 p0 where p0: "map_of (ps_points S) q0 = Some p0"
    "ar_break_address A p0 = ?a" "\<forall>v \<in> set l. probe_point S v = Some p0" by blast
  have "ar_pid A p0 = sp" using site_space [OF sites sp(1)] minv_point(1) [OF conjunct2 [OF inv(1)] p0(1)] p0(2) by simp
  then have "\<forall>v \<in> set l. \<forall>p. probe_point S v = Some p \<longrightarrow> ar_pid A p \<noteq> None" using p0(3) sp(2) by simp
  from user_trap_cases [OF inv C T l this, of log] obtain S' regs' q p where
    run: "uprobe_handler_from_break A F C (S, regs, log) =
      Ok (True, S', step_to regs' (ar_dynamic_user_ptr A p), log @ list_calls obj_pre_calls S l)" and
    exact: "no_retprobe S l \<longrightarrow> regs' = handled C (list_calls obj_pre_calls S l) regs" and
    inv': "sinv sites k0 S'" "kinds_inv S'" and dyn: "ar_dynamic_user_ptr A p \<noteq> 0" and
    S': "ps_break_list S' = ps_break_list S" "list_calls obj_post_calls S' l = list_calls obj_post_calls S l"
      "map_of (ps_point_list S') ?a = Some q" and p: "map_of (ps_points S') q = Some p" by blast
  let ?n = "ar_original_instruction_len A p" and ?slot = "ar_dynamic_user_ptr A p"
  have l': "map_of (ps_break_list S') ?a = Some l" using l S'(1) by simp
  from break_entry [OF inv'(1) l'] S'(3) p have at: "ar_break_address A p = ?a" by auto
  note pt = minv_point [OF conjunct2 [OF inv'(1)] p]
  have pid: "ar_pid A p = sp" using site_space [OF sites sp(1)] pt(1) at by simp
  have code: "read_bytes F (ps_kernel S') sp ?slot (length (read_bytes F k0 sp ?a ?n @ trail ?n)) =
      read_bytes F k0 sp ?a ?n @ trail ?n"
    using inv_slots(2) [OF inv'(1) p dyn] pid at by simp
  have page: "(sp, ?slot) \<in> pages (ps_kernel S')" using pt(4) user_in_pages [OF dyn] pid by blast
  have dbg: "ar_debug_address A p = ?slot + of_nat ?n" using dyn by (simp add: debug_address)
  note behind = trap_behind [OF inv' sites l' S'(3) p refl page dbg]
  have after: "h (S', regs1, log1) = Ok (True, S', step_off (handled C (list_calls obj_post_calls S l) regs1) (?a + of_nat ?n),
      log1 @ list_calls obj_post_calls S l)"
    if "h = kprobe_handler_from_debug A F C \<or> trail ?n \<noteq> [] \<and> h = uprobe_handler_from_break A F C"
      "ar_reg_debug_address A regs1 = ?slot + of_nat ?n" for h regs1 log1
    using that(1) behind(1) [OF that(2), of C log1] behind(2) [OF that(2)] S'(2) break_falls_through(2) [of S' regs1 C log1] by auto
  show "\<exists>S' regs' n slot. let a = ?a; code = read_bytes F k0 sp a n @ trail n in
      ilen (mem_read F k0 sp) a = Some n \<and>
      uprobe_handler_from_break A F C (S, regs, log) = Ok (True, S', step_to regs' slot, log @ list_calls obj_pre_calls S l) \<and>
      (no_retprobe S l \<longrightarrow> regs' = handled C (list_calls obj_pre_calls S l) regs) \<and>
      ar_reg_debug_address A (step_to regs' slot) = slot \<and>
      read_bytes F (ps_kernel S') sp slot (length code) = code \<and>
      (\<forall>h regs1 log1. h = kprobe_handler_from_debug A F C \<or> trail n \<noteq> [] \<and> h = uprobe_handler_from_break A F C \<longrightarrow>
         ar_reg_debug_address A regs1 = slot + of_nat n \<longrightarrow>
         h (S', regs1, log1) = Ok (True, S', step_off (handled C (list_calls obj_post_calls S l) regs1) (a + of_nat n),
           log1 @ list_calls obj_post_calls S l))"
    unfolding Let_def
    by (rule exI [of _ S'], rule exI [of _ regs'], rule exI [of _ ?n], rule exI [of _ ?slot])
       (intro conjI allI impI run exact step_pc code pt(2) [unfolded at pid] after; assumption)
qed

section \<open>Histories\<close>

lemma history_inv:
  assumes "probe_history A F C pages heap room ilen stack fixup sites k0 S" "pages_ok pages heap k0" "keeps_stack stack C"
  shows "breakpoints_in_place A F heap patch trail sites k0 S \<and> registers_in_place A F heap room ilen patch sites k0 S \<and>
    text_restored F pages heap k0 S"
proof -
  note inv = reaches_inv [OF assms]
  show ?thesis using inv_breakpoints [OF inv(1,3)] inv_registers [OF inv(1,3)] inv_text_restored [OF inv(1)] by blast
qed

lemma history_traps:
  assumes "probe_history A F C pages heap room ilen stack fixup sites k0 S" "pages_ok pages heap k0" "keeps_stack stack C"
    "private_stack pages heap (stack regs) S"
  shows "trap_steps_over A F C room ilen trail step_to step_off sites k0 S regs"
proof -
  note inv = reaches_inv [OF assms(1-3)]
  show ?thesis
    unfolding trap_steps_over_def get_break_list_def
    using kernel_trap_steps_over [OF inv assms(3,4)] user_trap_steps_over [OF inv assms(3,4)] by simp
qed

end

end
