(* ===== verification/ProbeReturn.thy ===== *)
theory ProbeReturn
  imports ProbeHistory
begin

text \<open>
  Return probes: the entry of a probed function puts the trampoline in the place of the return
  address, and the handler behind the trampoline sends the task back to its caller, whatever clients
  and tasks have done in between.
\<close>

definition ret_calls :: "Retprobe \<Rightarrow> RetprobeInstance \<Rightarrow> probe_event list" where
  "ret_calls r inst =
     (case rp_ret_handler r of Some f \<Rightarrow> [HandlerCall f (ri_user_data inst)] | None \<Rightarrow> []) @
     map (\<lambda>(_, cb). CallbackCall cb) (rp_event_callbacks r)"

text \<open>
  \<open>ret_of k regs\<close> is the return address of the function that a task is about to enter, \<open>frame_of\<close>
  the frame that the hook records, \<open>fixed k ptr ret\<close> that the return address behind the registers
  saved at \<open>ptr\<close> is \<open>ret\<close>, where an architecture returns through it. An enabled probe without a free
  instance counts a miss and does nothing else. With one, the return address becomes the trampoline
  and an instance of the task is pushed. In every state that \<open>steps\<close> lead to from there and in which
  the kernel gives the task this instance, the handler behind the trampoline returns the original
  address and the instance while the probe is registered or a client has a handle of it; else the
  object is gone, and the handler panics.
\<close>

definition return_hooked ::
  "('k, 'p, 'r) arch_ops \<Rightarrow> 'k aux_ops \<Rightarrow> 'r client \<Rightarrow> ('k \<Rightarrow> 'r \<Rightarrow> usize) \<Rightarrow> ('r \<Rightarrow> usize) \<Rightarrow> ('k \<Rightarrow> usize \<Rightarrow> usize \<Rightarrow> bool) \<Rightarrow>
     usize \<Rightarrow> (('k, 'p) probe_sys \<Rightarrow> ('k, 'p) probe_sys \<Rightarrow> bool) \<Rightarrow> ('k, 'p) probe_sys \<Rightarrow> nat \<Rightarrow> 'r \<Rightarrow> bool" where
  "return_hooked A F C ret_of frame_of fixed trampoline steps S i regs \<longleftrightarrow>
     (\<forall>r log. let pb = pr_basic (rp_kprobe r) in
        map_of (ps_objs S) i = Some (RetObj r) \<longrightarrow> is_enabled pb \<longrightarrow>
        (if ret_instances pb = [] then
           call_pre_handler A F C i pb (S, regs, log) =
             Ok (S\<lparr>ps_objs := bt_insert i (RetObj (r\<lparr>rp_nmissed := rp_nmissed r + 1\<rparr>)) (ps_objs S)\<rparr>, regs, log)
         else
           (\<exists>S' regs1 inst k1.
              call_pre_handler A F C i pb (S, regs, log) =
                Ok (S', (case rp_entry_handler r of Some f \<Rightarrow> cl_handler C f (ri_user_data inst) regs1 | None \<Rightarrow> regs1),
                    log @ obj_pre_calls (RetObj r)) \<and>
              map_of (ps_objs S') i = Some (RetObj (set_free i (butlast (ret_instances pb)) (rp_nmissed r) r)) \<and>
              ret_of (ps_kernel S') regs1 = trampoline \<and>
              pop_instance F (ps_kernel S') = Some (inst, k1) \<and>
              (\<forall>S2 k2 ptr regs2 log2. steps S' S2 \<longrightarrow> pop_instance F (ps_kernel S2) = Some (inst, k2) \<longrightarrow>
                 (if obj_used S2 i then
                    (\<exists>r2 S3 regs3.
                       map_of (ps_objs S2) i = Some (RetObj r2) \<and>
                       rethook_trampoline_handler A F C ptr (frame_of regs) (S2, regs2, log2) =
                         Ok (ret_of (ps_kernel S) regs, S3, regs3, log2 @ ret_calls r2 inst) \<and>
                       map_of (ps_objs S3) i =
                         Some (RetObj (set_free i (ret_instances (pr_basic (rp_kprobe r2)) @ [inst]) (rp_nmissed r2) r2)) \<and>
                       fixed (ps_kernel S3) ptr (ret_of (ps_kernel S) regs))
                  else rethook_trampoline_handler A F C ptr (frame_of regs) (S2, regs2, log2) = Err Panic)))))"

section \<open>Names of return probes\<close>

text \<open>The name of a return probe is never the name of another kind of probe.\<close>

definition ret_name :: "('k, 'p) probe_sys \<Rightarrow> nat \<Rightarrow> bool" where
  "ret_name S i \<longleftrightarrow> i < ps_next S \<and> (\<forall>p. map_of (ps_objs S) i \<noteq> Some (ProbeObj p))"

lemma ret_name_less:
  "ret_name S i \<Longrightarrow> ps_next S \<le> ps_next S' \<Longrightarrow>
     (\<And>ob. map_of (ps_objs S') i = Some ob \<Longrightarrow> map_of (ps_objs S) i = Some ob) \<Longrightarrow> ret_name S' i"
  by (auto simp: ret_name_def)

lemma ret_name_same:
  assumes "ret_name S i" "ps_next S' = ps_next S" "rel_option (same_obj i) (map_of (ps_objs S) i) (map_of (ps_objs S') i)"
  shows "ret_name S' i"
proof -
  have "map_of (ps_objs S') i \<noteq> Some (ProbeObj p)" for p
  proof
    assume "map_of (ps_objs S') i = Some (ProbeObj p)"
    then obtain ob where "map_of (ps_objs S) i = Some ob" "same_obj i ob (ProbeObj p)"
      using assms(3) by (auto simp: option_rel_Some2)
    then show False using assms(1) by (cases ob) (auto simp: ret_name_def)
  qed
  then show ?thesis using assms(1,2) by (simp add: ret_name_def)
qed

lemma release_point_objs: "ps_objs (release_point A S q) = ps_objs S" "ps_next (release_point A S q) = ps_next S"
  by (auto simp: release_point_def split: option.splits)

lemma release_obj_objs:
  "ps_next (release_obj A S i) = ps_next S"
  "map_of (ps_objs (release_obj A S i)) j = Some ob \<Longrightarrow> map_of (ps_objs S) j = Some ob"
  by (auto simp: release_obj_def release_point_objs map_of_bt_remove split: if_splits option.splits)

lemma unregister_objs:
  "ps_next (unregister_probe A S u) = ps_next S"
  "map_of (ps_objs (unregister_probe A S u)) j = Some ob \<Longrightarrow> map_of (ps_objs S) j = Some ob"
  by (auto simp: unregister_probe_def remove_probe_def Let_def release_point_objs release_obj_objs(1)
    split: if_splits option.splits dest!: release_obj_objs(2))

lemma insert_new_objs:
  "ps_objs (insert_probe A (snd (new_obj S ob)) u) = bt_insert (ps_next S) ob (ps_objs S)"
  "ps_next (insert_probe A (snd (new_obj S ob)) u) = Suc (ps_next S)"
  by (auto simp: insert_probe_def new_obj_def Let_def split: option.splits)

lemma ret_name_register:
  assumes "ret_name S i" "register_kprobe_inner A S b = (r, S1)"
  shows "ret_name S1 i" "ret_name (insert_probe A (snd (new_obj S1 ob)) u) i"
proof -
  show S1: "ret_name S1 i" using assms(1) inner_same [OF assms(2)] by (simp add: ret_name_def)
  then show "ret_name (insert_probe A (snd (new_obj S1 ob)) u) i" by (auto simp: ret_name_def insert_new_objs)
qed

lemma ret_name_update:
  assumes "ret_name S i"
  shows "ret_name (update_basic S j f) i"
proof (cases "map_of (ps_objs S) j")
  case None
  then show ?thesis using assms by (simp add: update_basic_def update_obj_def)
next
  case (Some ob)
  then show ?thesis using assms by (cases ob) (auto simp: ret_name_def update_basic_def update_obj_def)
qed

context probe_run
begin

lemma ret_name_step:
  assumes "history_step A F C pages heap room ilen stack fixup sites S S'"
    and inv: "sinv sites k0 S" "kinds_inv S" and C: "keeps_stack stack C" and name: "ret_name S i"
  shows "ret_name S' i"
  using assms(1) unfolding history_step_def
proof cases
  case (RegisterKprobe b r)
  obtain r1 S1 where "register_kprobe_inner A S b = (r1, S1)" by fastforce
  then show ?thesis using RegisterKprobe(3) ret_name_register [OF name, of A b r1 S1]
    by (cases r1) (auto simp: register_kprobe_def new_obj_def Let_def)
next
  case (RegisterKretprobe rb r)
  obtain r1 S1 where r1: "register_kprobe_inner A S (ProbeBuilder_from rb) = (r1, S1)" by fastforce
  then show ?thesis using RegisterKretprobe(2) ret_name_register [OF name r1] unfolding register_kretprobe_cases [OF r1]
    by (cases r1) auto
next
  case (RegisterUprobe b r)
  obtain r1 S1 where "register_kprobe_inner A S b = (r1, S1)" by fastforce
  then show ?thesis using RegisterUprobe(3) ret_name_register [OF name, of A b r1 S1]
    by (cases r1) (auto simp: register_uprobe_def new_obj_def Let_def split: if_splits)
next
  case (Unregister j)
  then obtain u where "S' = unregister_probe A S u"
    by (auto simp: unregister_kprobe_def unregister_kretprobe_def unregister_uprobe_def)
  then show ?thesis by (intro ret_name_less [OF name]) (auto simp: unregister_objs(1) dest: unregister_objs(2))
next
  case (CloneHandle j)
  then show ?thesis using name by (simp add: ret_name_def clone_handle_def)
next
  case (DropHandle j)
  have "ret_name (S\<lparr>ps_handles := remove1 j (ps_handles S)\<rparr>) i" using name by (simp add: ret_name_def)
  then show ?thesis using DropHandle release_obj_objs unfolding drop_handle_def by (metis ret_name_less order_refl)
next
  case (Switch j f n cb)
  show ?thesis unfolding Switch(1) by (rule ret_name_update [OF name])
next
  case (BreakTrap regs log found regs' log')
  then have "same_probes S S'" using break_same [OF inv C] by blast
  then show ?thesis by (intro ret_name_same [OF name]) (simp_all add: same_probes_fields)
next
  case (DebugTrap regs log found regs' log')
  then show ?thesis using debug_same [OF inv] name by blast
next
  case (UserBreakTrap regs log found regs' log')
  from user_break_inv [OF inv C this] show ?thesis by (intro ret_name_same [OF name]) blast+
next
  case (UserDebugTrap regs log found regs' log')
  then show ?thesis using debug_same [OF inv] name unfolding uprobe_debug_eq by blast
next
  case (PreHandler regs j ob log regs' log')
  from call_pre_handler_ok [OF inv(2) PreHandler(2) C PreHandler(3), of regs log] PreHandler(4)
  have "same_probes S S'" by auto
  then show ?thesis by (intro ret_name_same [OF name]) (simp_all add: same_probes_fields)
next
  case (Return ptr fp regs log ret regs' log')
  then have "same_probes S S'" using trampoline_same [OF inv(2)] by blast
  then show ?thesis by (intro ret_name_same [OF name]) (simp_all add: same_probes_fields)
qed

lemma ret_name_steps:
  assumes "(history_step A F C pages heap room ilen stack fixup sites)\<^sup>*\<^sup>* S S'" "sinv sites k0 S" "kinds_inv S"
    and sites: "sites_ok heap ilen (mem_read F k0) sites" and C: "keeps_stack stack C" and "ret_name S i"
  shows "ret_name S' i"
  using assms(1)
proof (induction rule: rtranclp_induct)
  case base
  show ?case using assms(6) .
next
  case (step S1 S2)
  have "sinv sites k0 S1 \<and> kinds_inv S1" using steps_inv [OF step(1) assms(2,3) sites C] .
  then show ?case using ret_name_step [OF step(2) _ _ C step(3)] by blast
qed

text \<open>In a consistent state an object is there exactly when it is used.\<close>

lemma used_iff:
  assumes "sinv sites k0 S"
  shows "obj_used S i \<longleftrightarrow> map_of (ps_objs S) i \<noteq> None"
proof
  have al: "alive_inv S" and br: "break_inv S" and us: "used_inv S {} {}" using assms by (simp_all add: refs_inv_def)
  show "obj_used S i" if "map_of (ps_objs S) i \<noteq> None" using us that by (simp add: used_inv_def)
  assume "obj_used S i"
  then consider "i \<in> set (ps_handles S)" | a l where "map_of (ps_break_list S) a = Some l" "i \<in> obj_of ` set l"
    by (auto simp: obj_used_def)
  then show "map_of (ps_objs S) i \<noteq> None"
  proof cases
    case 1
    then show ?thesis using al by (simp add: alive_inv_def)
  next
    case 2
    then obtain q where "obj_point S i = Some q" using br by (fastforce simp: break_inv_def)
    then show ?thesis by (auto simp: obj_point_def)
  qed
qed

end

section \<open>Hooks of returns\<close>

lemma ret_instances_new:
  "pb_data pb = RetData \<lparr>rd_free_instances = free, rd_retprobe = w\<rparr> \<Longrightarrow> ret_instances pb = free"
  by (simp add: ret_instances_def)

locale return_hooks = probe_run F A pages heap room ilen patch trail saved stack fixup step_to step_off
  for F :: "'k aux_ops" and A :: "('k, 'p, 'r) arch_ops" and pages heap room ilen patch trail saved stack fixup step_to step_off +
  fixes ret_of :: "'k \<Rightarrow> 'r \<Rightarrow> usize"
    and frame_of :: "'r \<Rightarrow> usize"
    and fixed :: "'k \<Rightarrow> usize \<Rightarrow> usize \<Rightarrow> bool"
    and trampoline :: usize
    and regs_ok :: "'r \<Rightarrow> bool"
  assumes prepare_ret: "ar_rethook_prepare A k inst regs = (inst', regs', k') \<Longrightarrow> regs_ok regs \<Longrightarrow>
      ri_ret_addr inst' = ret_of k regs \<and> ri_frame inst' = frame_of regs \<and> ret_of k' regs' = trampoline"
    and ret_of_memory: "mem_read F k' = mem_read F k \<Longrightarrow> ret_of k' regs = ret_of k regs"
    and fixup_fixed: "fixed (ar_rethook_fixup_return A k ptr ret) ptr ret"
    and pop_push: "pop_instance F (push_instance F k inst) = Some (inst, k)"
begin

lemma return_is_hooked:
  assumes inv: "sinv sites k0 S" "kinds_inv S" and sites: "sites_ok heap ilen (mem_read F k0) sites" and C: "keeps_stack stack C"
    and T: "private_stack pages heap (stack regs) S" and regs: "regs_ok regs"
  shows "return_hooked A F C ret_of frame_of fixed trampoline
    (history_step A F C pages heap room ilen stack fixup sites)\<^sup>*\<^sup>* S i regs"
  unfolding return_hooked_def Let_def
proof (intro allI impI)
  fix r :: Retprobe and log
  let ?pb = "pr_basic (rp_kprobe r)"
  assume r: "map_of (ps_objs S) i = Some (RetObj r)" and on: "is_enabled ?pb"
  have ok: "ret_probe i ?pb" using kinds_obj [OF inv(2) r] by simp
  then obtain free where d: "pb_data ?pb = RetData \<lparr>rd_free_instances = free, rd_retprobe = Some i\<rparr>"
    by (auto simp: ret_probe_def)
  have free: "ret_instances ?pb = free" using ret_instances_new [OF d] .
  show "if ret_instances ?pb = [] then
      call_pre_handler A F C i ?pb (S, regs, log) =
        Ok (S\<lparr>ps_objs := bt_insert i (RetObj (r\<lparr>rp_nmissed := rp_nmissed r + 1\<rparr>)) (ps_objs S)\<rparr>, regs, log)
    else
      (\<exists>S' regs1 inst k1.
        call_pre_handler A F C i ?pb (S, regs, log) =
          Ok (S', (case rp_entry_handler r of Some f \<Rightarrow> cl_handler C f (ri_user_data inst) regs1 | None \<Rightarrow> regs1),
              log @ obj_pre_calls (RetObj r)) \<and>
        map_of (ps_objs S') i = Some (RetObj (set_free i (butlast (ret_instances ?pb)) (rp_nmissed r) r)) \<and>
        ret_of (ps_kernel S') regs1 = trampoline \<and>
        pop_instance F (ps_kernel S') = Some (inst, k1) \<and>
        (\<forall>S2 k2 ptr regs2 log2. (history_step A F C pages heap room ilen stack fixup sites)\<^sup>*\<^sup>* S' S2 \<longrightarrow>
           pop_instance F (ps_kernel S2) = Some (inst, k2) \<longrightarrow>
           (if obj_used S2 i then
              (\<exists>r2 S3 regs3.
                 map_of (ps_objs S2) i = Some (RetObj r2) \<and>
                 rethook_trampoline_handler A F C ptr (frame_of regs) (S2, regs2, log2) =
                   Ok (ret_of (ps_kernel S) regs, S3, regs3, log2 @ ret_calls r2 inst) \<and>
                 map_of (ps_objs S3) i =
                   Some (RetObj (set_free i (ret_instances (pr_basic (rp_kprobe r2)) @ [inst]) (rp_nmissed r2) r2)) \<and>
                 fixed (ps_kernel S3) ptr (ret_of (ps_kernel S) regs))
            else rethook_trampoline_handler A F C ptr (frame_of regs) (S2, regs2, log2) = Err Panic)))"
  proof (cases "free = []")
    case True
    then show ?thesis
      using ok r d on by (simp add: free call_pre_handler_def ret_probe_def pre_handler_kretprobe_def upgrade_def update_obj_def)
  next
    case False
    obtain inst0 regs1 k1 where prep: "ar_rethook_prepare A (ps_kernel S) (last free) regs = (inst0, regs1, k1)"
      by (metis prod_cases3)
    note hook = prepare_touches [OF prep] and ret = prepare_ret [OF prep regs]
    define r1 where "r1 = set_free i (butlast free) (rp_nmissed r) r"
    define inst where "inst = inst0\<lparr>ri_retprobe := Some i\<rparr>"
    let ?k = "push_instance F k1 inst"
    define S' where "S' = S\<lparr>ps_kernel := ?k, ps_objs := bt_insert i (RetObj r1) (ps_objs S)\<rparr>"
    have data: "ri_user_data inst = ri_user_data (last free)" "ri_user_data inst0 = ri_user_data (last free)"
      using hook by (simp_all add: inst_def)
    have run: "call_pre_handler A F C i ?pb (S, regs, log) =
        Ok (S', (case rp_entry_handler r of Some f \<Rightarrow> cl_handler C f (ri_user_data inst) regs1 | None \<Rightarrow> regs1),
            log @ obj_pre_calls (RetObj r))"
      using ok r free False on data
      by (auto simp: call_pre_handler_def ret_probe_def pre_handler_kretprobe_def d set_ret_data_def update_basic_def
        update_obj_def upgrade_def user_call_def prep r1_def S'_def inst_def set_free_def split: option.splits)
    have mem: "mem_read F ?k = mem_read F k1" using push_touches [of k1 inst] by (intro ext) (simp add: touches_def)
    have tramp: "ret_of (ps_kernel S') regs1 = trampoline" using ret ret_of_memory [OF mem] by (simp add: S'_def)
    have pop: "pop_instance F (ps_kernel S') = Some (inst, k1)" by (simp add: S'_def pop_push)
    have same: "same_probes S S'" unfolding S'_def by (rule same_probes_update [OF inv(2) r]) (auto simp: r1_def)
    have touch: "touches F pages (stack regs) (ps_kernel S) (ps_kernel S')"
      using touches_trans [OF conjunct1 [OF hook] touches_mono [OF push_touches]] by (simp add: S'_def)
    have inv': "sinv sites k0 S'" "kinds_inv S'"
      using trap_inv [OF inv(1) same touch T] same_probes_kinds [OF same inv(2)] by auto
    have obj: "map_of (ps_objs S') i = Some (RetObj r1)" by (simp add: S'_def)
    then have name: "ret_name S' i" using inv'(2) by (auto simp: ret_name_def kinds_inv_def)
    have inst: "ri_frame inst = frame_of regs" "ri_retprobe inst = Some i" "ri_ret_addr inst = ret_of (ps_kernel S) regs"
      using ret by (simp_all add: inst_def)
    have returns: "if obj_used S2 i then
        (\<exists>r2 S3 regs3.
           map_of (ps_objs S2) i = Some (RetObj r2) \<and>
           rethook_trampoline_handler A F C ptr (frame_of regs) (S2, regs2, log2) =
             Ok (ret_of (ps_kernel S) regs, S3, regs3, log2 @ ret_calls r2 inst) \<and>
           map_of (ps_objs S3) i =
             Some (RetObj (set_free i (ret_instances (pr_basic (rp_kprobe r2)) @ [inst]) (rp_nmissed r2) r2)) \<and>
           fixed (ps_kernel S3) ptr (ret_of (ps_kernel S) regs))
      else rethook_trampoline_handler A F C ptr (frame_of regs) (S2, regs2, log2) = Err Panic"
      if steps: "(history_step A F C pages heap room ilen stack fixup sites)\<^sup>*\<^sup>* S' S2"
        and k2: "pop_instance F (ps_kernel S2) = Some (inst, k2)" for S2 k2 ptr regs2 log2
    proof -
      have inv2: "sinv sites k0 S2" "kinds_inv S2" using steps_inv [OF steps inv' sites C] by auto
      have name2: "ret_name S2 i" by (rule ret_name_steps [OF steps inv' sites C name])
      show ?thesis
      proof (cases "obj_used S2 i")
        case True
        then obtain ob where ob: "map_of (ps_objs S2) i = Some ob" using used_iff [OF inv2(1)] by auto
        then obtain r2 where r2: "map_of (ps_objs S2) i = Some (RetObj r2)" using name2 by (cases ob) (auto simp: ret_name_def)
        from trampoline_ok [OF inv2(2) k2 inst(1,2) r2, of C ptr regs2 log2] obtain S3 regs3 where
          "rethook_trampoline_handler A F C ptr (frame_of regs) (S2, regs2, log2) =
            Ok (ri_ret_addr inst, S3, regs3, log2 @ (case rp_ret_handler r2 of Some f \<Rightarrow> [HandlerCall f (ri_user_data inst)] | None \<Rightarrow> []) @
              map (\<lambda>(_, cb). CallbackCall cb) (rp_event_callbacks r2))"
          "map_of (ps_objs S3) i = Some (RetObj (set_free i (ret_instances (pr_basic (rp_kprobe r2)) @ [inst]) (rp_nmissed r2) r2))"
          "ps_kernel S3 = ar_rethook_fixup_return A k2 ptr (ri_ret_addr inst)" by blast
        then show ?thesis using r2 fixup_fixed [of k2 ptr "ri_ret_addr inst"] unfolding inst(3) if_P [OF True] ret_calls_def
          by (intro exI [of _ r2] exI [of _ S3] exI [of _ regs3]) simp
      next
        case False
        then have "map_of (ps_objs S2) i = None" using used_iff [OF inv2(1)] by auto
        then show ?thesis using False k2 inst by (simp add: rethook_trampoline_handler_def upgrade_def)
      qed
    qed
    have left: "map_of (ps_objs S') i = Some (RetObj (set_free i (butlast free) (rp_nmissed r) r))" using obj by (simp add: r1_def)
    show ?thesis
      unfolding free if_not_P [OF False]
      by (rule exI [of _ S'], rule exI [of _ regs1], rule exI [of _ inst], rule exI [of _ k1])
         (intro conjI allI impI run left tramp pop returns)
  qed
qed

lemma history_returns:
  assumes "probe_history A F C pages heap room ilen stack fixup sites k0 S" "pages_ok pages heap k0" "keeps_stack stack C"
    "private_stack pages heap (stack regs) S" "regs_ok regs"
  shows "return_hooked A F C ret_of frame_of fixed trampoline
    (history_step A F C pages heap room ilen stack fixup sites)\<^sup>*\<^sup>* S i regs"
  using return_is_hooked [OF reaches_inv [OF assms(1-3)] assms(3-5)] .

end

end
