(* ===== verification/ProbeX86.thy ===== *)
theory ProbeX86
  imports ProbeTraps
begin

text \<open>
  Probe points and registers of x86-64, \<open>kprobe/src/arch/x86/mod.rs\<close>. The instruction decoder of
  yaxpeax is a parameter: from bytes to a decoded instruction, of which the model has the opcodes,
  operands and registers that the code tells apart.
\<close>

section \<open>Decoded instructions\<close>

datatype x86_opcode =
    Jcc | Invalid | CALL | CALLF | JMP | JMPF | JMPE | RETURN | RETF | IRET | IRETD | IRETQ | INT_op | INTO
  | LOOP | LOOPZ | LOOPNZ | JRCXZ | SYSCALL | SYSRET | SWAPGS | HLT | CLI | STI | UD0 | UD1 | UD2 | XBEGIN
  | OtherOpcode nat

datatype x86_reg = RIP | EIP | OtherReg nat

datatype x86_operand =
    MemDeref x86_reg | Disp x86_reg | MemDerefMasked x86_reg | DispMasked x86_reg
  | MemIndexScale x86_reg | MemIndexScaleDisp x86_reg | MemIndexScaleMasked x86_reg | MemIndexScaleDispMasked x86_reg
  | MemBaseIndexScale x86_reg x86_reg | MemBaseIndexScaleDisp x86_reg x86_reg
  | MemBaseIndexScaleMasked x86_reg x86_reg | MemBaseIndexScaleDispMasked x86_reg x86_reg
  | OtherOperand nat

record x86_inst =
  xi_opcode :: x86_opcode
  xi_operands :: "x86_operand list"
  xi_len :: nat

definition is_pc :: "x86_reg \<Rightarrow> bool" where "is_pc reg \<longleftrightarrow> reg = RIP \<or> reg = EIP"

fun operand_uses_pc :: "x86_operand \<Rightarrow> bool" where
  "operand_uses_pc (MemDeref base) = is_pc base"
| "operand_uses_pc (Disp base) = is_pc base"
| "operand_uses_pc (MemDerefMasked base) = is_pc base"
| "operand_uses_pc (DispMasked base) = is_pc base"
| "operand_uses_pc (MemIndexScale index) = is_pc index"
| "operand_uses_pc (MemIndexScaleDisp index) = is_pc index"
| "operand_uses_pc (MemIndexScaleMasked index) = is_pc index"
| "operand_uses_pc (MemIndexScaleDispMasked index) = is_pc index"
| "operand_uses_pc (MemBaseIndexScale base index) = (is_pc base \<or> is_pc index)"
| "operand_uses_pc (MemBaseIndexScaleDisp base index) = (is_pc base \<or> is_pc index)"
| "operand_uses_pc (MemBaseIndexScaleMasked base index) = (is_pc base \<or> is_pc index)"
| "operand_uses_pc (MemBaseIndexScaleDispMasked base index) = (is_pc base \<or> is_pc index)"
| "operand_uses_pc (OtherOperand _) = False"

definition x86_validate_instruction :: "x86_inst \<Rightarrow> (ProbeInstallError, unit) result" where
  "x86_validate_instruction inst =
     (if xi_opcode inst \<in>
           {Jcc, Invalid, CALL, CALLF, JMP, JMPF, JMPE, RETURN, RETF, IRET, IRETD, IRETQ, INT_op, INTO, LOOP, LOOPZ,
            LOOPNZ, JRCXZ, SYSCALL, SYSRET, SWAPGS, HLT, CLI, STI, UD0, UD1, UD2, XBEGIN}
      then Err UnsupportedInstruction
      else if list_ex operand_uses_pc (xi_operands inst) then Err UnsafeInstruction
      else Ok ())"

section \<open>Probe points\<close>

definition X86_EBREAK_INST :: u8 where "X86_EBREAK_INST = 0xcc"
definition MAX_INSTRUCTION_SIZE :: nat where "MAX_INSTRUCTION_SIZE = 15"

record X86ProbePoint =
  xp_addr :: usize
  xp_old_instruction_ptr :: ExecMemType
  xp_old_instruction_len :: nat
  xp_user_pid :: space
  xp_dynamic_user_ptr :: usize

definition x86_replace_inst ::
  "'k aux_ops \<Rightarrow> (u8 list \<Rightarrow> x86_inst option) \<Rightarrow> 'k \<Rightarrow> ProbeBuilder \<Rightarrow>
     (ProbeInstallError, X86ProbePoint) result \<times> 'k" where
  "x86_replace_inst F decode k b =
     (let address = bd_symbol_addr b + bd_offset b;
          (inst_tmp, k) = alloc_exec_memory F k (bd_user_pid b);
          k = copy_memory F k address (as_ptr inst_tmp) MAX_INSTRUCTION_SIZE (bd_user_pid b);
          buf = read_bytes F k None (as_ptr inst_tmp) MAX_INSTRUCTION_SIZE
      in case and_then (ok_or (decode buf) DecodeFailed)
                (\<lambda>inst. and_then (x86_validate_instruction inst) (\<lambda>_. Ok inst)) of
           Inl e \<Rightarrow> (Err e, drop_exec_memory F k inst_tmp)
         | Inr inst \<Rightarrow>
             let point = \<lparr>xp_addr = address, xp_old_instruction_ptr = inst_tmp, xp_old_instruction_len = xi_len inst,
                          xp_user_pid = bd_user_pid b, xp_dynamic_user_ptr = 0\<rparr>
             in (Ok point, mem_write F k (bd_user_pid b) address [X86_EBREAK_INST]))"

definition x86_drop_point :: "'k aux_ops \<Rightarrow> 'k \<Rightarrow> X86ProbePoint \<Rightarrow> 'k" where
  "x86_drop_point F k p =
     (let k = mem_write F k (xp_user_pid p) (xp_addr p)
                (read_bytes F k None (as_ptr (xp_old_instruction_ptr p)) (xp_old_instruction_len p));
          dyn_ptr = xp_dynamic_user_ptr p;
          k = (if dyn_ptr \<noteq> 0 then free_user F k (xp_user_pid p) dyn_ptr else k)
      in drop_exec_memory F k (xp_old_instruction_ptr p))"

definition x86_return_address :: "X86ProbePoint \<Rightarrow> usize" where
  "x86_return_address p = xp_addr p + of_nat (xp_old_instruction_len p)"

definition x86_single_step_address :: "X86ProbePoint \<Rightarrow> usize" where
  "x86_single_step_address p = as_ptr (xp_old_instruction_ptr p)"

definition x86_debug_address :: "X86ProbePoint \<Rightarrow> usize" where
  "x86_debug_address p =
     (if xp_dynamic_user_ptr p \<noteq> 0 then xp_dynamic_user_ptr p + of_nat (xp_old_instruction_len p)
      else as_ptr (xp_old_instruction_ptr p) + of_nat (xp_old_instruction_len p))"

definition x86_set_dynamic_user_ptr :: "X86ProbePoint \<Rightarrow> usize \<Rightarrow> X86ProbePoint \<times> usize" where
  "x86_set_dynamic_user_ptr p ptr = (p\<lparr>xp_dynamic_user_ptr := ptr\<rparr>, ptr + of_nat (xp_old_instruction_len p))"

section \<open>Registers\<close>

record X86PtRegs =
  r15 :: usize
  r14 :: usize
  r13 :: usize
  r12 :: usize
  rbp :: usize
  rbx :: usize
  r11 :: usize
  r10 :: usize
  r9 :: usize
  r8 :: usize
  rax :: usize
  rcx :: usize
  rdx :: usize
  rsi :: usize
  rdi :: usize
  orig_rax :: usize
  rip :: usize
  cs :: usize
  rflags :: usize
  rsp :: usize
  ss :: usize

definition x86_break_address :: "X86PtRegs \<Rightarrow> usize" where "x86_break_address regs = rip regs - 1"
definition x86_reg_debug_address :: "X86PtRegs \<Rightarrow> usize" where "x86_reg_debug_address regs = rip regs"
definition x86_update_pc :: "X86PtRegs \<Rightarrow> usize \<Rightarrow> X86PtRegs" where "x86_update_pc regs pc = regs\<lparr>rip := pc\<rparr>"

definition x86_set_single_step :: "X86PtRegs \<Rightarrow> bool \<Rightarrow> X86PtRegs" where
  "x86_set_single_step regs enable =
     (if enable then regs\<lparr>rflags := rflags regs OR 0x100\<rparr> else regs\<lparr>rflags := rflags regs AND NOT 0x100\<rparr>)"

definition x86_setup_single_step :: "X86PtRegs \<Rightarrow> usize \<Rightarrow> X86PtRegs" where
  "x86_setup_single_step regs a = x86_set_single_step (x86_update_pc regs a) True"

definition x86_clear_single_step :: "X86PtRegs \<Rightarrow> usize \<Rightarrow> X86PtRegs" where
  "x86_clear_single_step regs a = x86_set_single_step (x86_update_pc regs a) False"

definition x86_first_ret_value :: "X86PtRegs \<Rightarrow> usize" where "x86_first_ret_value regs = rax regs"
definition x86_second_ret_value :: "X86PtRegs \<Rightarrow> usize" where "x86_second_ret_value regs = rdx regs"

definition x86_args :: "X86PtRegs \<Rightarrow> usize list" where
  "x86_args regs = [rdi regs, rsi regs, rdx regs, rcx regs, r8 regs, r9 regs]"

section \<open>Return hooks\<close>

text \<open>\<open>trampoline\<close> is the address of the trampoline.\<close>

definition x86_rethook_prepare ::
  "'k aux_ops \<Rightarrow> usize \<Rightarrow> 'k \<Rightarrow> RetprobeInstance \<Rightarrow> X86PtRegs \<Rightarrow> RetprobeInstance \<times> X86PtRegs \<times> 'k" where
  "x86_rethook_prepare F trampoline k inst regs =
     (let sp = rsp regs;
          inst = inst\<lparr>ri_ret_addr := bytes_word (read_bytes F k None sp 8), ri_frame := sp\<rparr>
      in (inst, regs, mem_write F k None sp (word_bytes trampoline)))"

text \<open>\<open>PtRegs\<close> has 21 fields; the word behind it is the fake return address of the trampoline.\<close>

definition x86_regs_end :: "usize \<Rightarrow> usize" where "x86_regs_end regs_ptr = regs_ptr + 168"

definition x86_rethook_fixup_return :: "'k aux_ops \<Rightarrow> 'k \<Rightarrow> usize \<Rightarrow> usize \<Rightarrow> 'k" where
  "x86_rethook_fixup_return F k regs_ptr correct_ret_addr =
     mem_write F k None (x86_regs_end regs_ptr) (word_bytes correct_ret_addr)"

definition x86_arch ::
  "'k aux_ops \<Rightarrow> (u8 list \<Rightarrow> x86_inst option) \<Rightarrow> usize \<Rightarrow> ('k, X86ProbePoint, X86PtRegs) arch_ops" where
  "x86_arch F decode trampoline =
     \<lparr>ar_replace_inst = x86_replace_inst F decode, ar_drop_point = x86_drop_point F,
      ar_return_address = x86_return_address, ar_single_step_address = x86_single_step_address,
      ar_debug_address = x86_debug_address, ar_break_address = xp_addr,
      ar_dynamic_user_ptr = xp_dynamic_user_ptr, ar_set_dynamic_user_ptr = x86_set_dynamic_user_ptr,
      ar_original_instruction_len = xp_old_instruction_len, ar_instruction_slot_len = xp_old_instruction_len,
      ar_pid = xp_user_pid, ar_reg_break_address = x86_break_address,
      ar_reg_debug_address = x86_reg_debug_address, ar_setup_single_step = x86_setup_single_step,
      ar_clear_single_step = x86_clear_single_step, ar_rethook_prepare = x86_rethook_prepare F trampoline,
      ar_rethook_fixup_return = x86_rethook_fixup_return F\<rparr>"

definition x86_trampoline_callback ::
  "'k aux_ops \<Rightarrow> (u8 list \<Rightarrow> x86_inst option) \<Rightarrow> usize \<Rightarrow> X86PtRegs client \<Rightarrow> usize \<Rightarrow>
     ('k, X86ProbePoint, X86PtRegs) trap_state \<Rightarrow> (panic, usize \<times> ('k, X86ProbePoint, X86PtRegs) trap_state) result" where
  "x86_trampoline_callback F decode trampoline C regs_ptr = (\<lambda>(S, regs, log).
     let regs = regs\<lparr>rip := trampoline, orig_rax := - 1, rsp := rsp regs + 16\<rparr>
     in and_then (rethook_trampoline_handler (x86_arch F decode trampoline) F C regs_ptr (x86_regs_end regs_ptr) (S, regs, log))
          (\<lambda>(correct_ret_addr, S, regs, log). Ok (correct_ret_addr, S, regs\<lparr>ss := rflags regs\<rparr>, log)))"

end
