(* ===== verification/ProbeRv64.thy ===== *)
theory ProbeRv64
  imports ProbeTraps
begin

text \<open>
  Probe points and registers of RISC-V, \<open>kprobe/src/arch/rv64/mod.rs\<close>: instructions of 16 and of
  32 bits, in little-endian byte order.
\<close>

section \<open>Instructions\<close>

definition RV_EBREAK_INST :: u32 where "RV_EBREAK_INST = 0x00100073"
definition C_EBREAK_INST :: u32 where "C_EBREAK_INST = 0x9002"
definition INSN_LENGTH_MASK :: u16 where "INSN_LENGTH_MASK = 3"
definition INSN_LENGTH_32 :: u16 where "INSN_LENGTH_32 = 3"

datatype OpcodeTy = Inst16 u16 | Inst32 u32

definition validate_inst16 :: "u16 \<Rightarrow> (ProbeInstallError, unit) result" where
  "validate_inst16 inst =
     (if inst = ucast C_EBREAK_INST then Err UnsupportedInstruction
      else let quadrant = inst AND 0x3; funct3 = drop_bit 13 inst AND 0x7 in
        if quadrant = 0x1 \<and> funct3 \<in> {0x1, 0x5, 0x6, 0x7} then Err UnsafeInstruction
        else if quadrant = 0x2 \<and> funct3 = 0x4 \<and> drop_bit 2 inst AND 0x1f = 0 then Err UnsupportedInstruction
        else Ok ())"

definition validate_inst32 :: "u32 \<Rightarrow> (ProbeInstallError, unit) result" where
  "validate_inst32 inst =
     (if inst AND 0x7f \<in> {0x17, 0x67, 0x63, 0x6f, 0x0f, 0x73} then Err UnsupportedInstruction else Ok ())"

section \<open>Probe points\<close>

record Rv64ProbePoint =
  rv_addr :: usize
  rv_old_instruction :: OpcodeTy
  rv_old_instruction_ptr :: ExecMemType
  rv_user_pid :: space
  rv_dynamic_user_ptr :: usize

definition rv64_replace_inst ::
  "'k aux_ops \<Rightarrow> 'k \<Rightarrow> ProbeBuilder \<Rightarrow> (ProbeInstallError, Rv64ProbePoint) result \<times> 'k" where
  "rv64_replace_inst F k b =
     (let address = bd_symbol_addr b + bd_offset b; sp = bd_user_pid b in
      if address AND 0x1 \<noteq> 0 then (Err InvalidAddress, k)
      else
        let inst_16 = u16_of (read_bytes F k sp address 2);
            is_inst_16 = (inst_16 AND INSN_LENGTH_MASK \<noteq> INSN_LENGTH_32);
            (inst_tmp_ptr, k) = alloc_exec_memory F k sp;
            slot = as_ptr inst_tmp_ptr
        in if is_inst_16 then
             (case validate_inst16 inst_16 of
                Inl e \<Rightarrow> (Err e, drop_exec_memory F k inst_tmp_ptr)
              | Inr _ \<Rightarrow>
                  let k = mem_write F k sp address (u16_bytes (ucast C_EBREAK_INST));
                      k = mem_write F k None slot (u16_bytes inst_16);
                      k = mem_write F k None (slot + 2) (u16_bytes (ucast C_EBREAK_INST))
                  in (Ok \<lparr>rv_addr = address, rv_old_instruction = Inst16 inst_16, rv_old_instruction_ptr = inst_tmp_ptr,
                          rv_user_pid = sp, rv_dynamic_user_ptr = 0\<rparr>, k))
           else if address AND 0x3 \<noteq> 0 then (Err InvalidAddress, drop_exec_memory F k inst_tmp_ptr)
           else
             let inst_32 = u32_of (read_bytes F k sp address 4)
             in (case validate_inst32 inst_32 of
                   Inl e \<Rightarrow> (Err e, drop_exec_memory F k inst_tmp_ptr)
                 | Inr _ \<Rightarrow>
                     let k = mem_write F k sp address (u32_bytes RV_EBREAK_INST);
                         k = mem_write F k None slot (u32_bytes inst_32);
                         k = mem_write F k None (slot + 4) (u32_bytes RV_EBREAK_INST)
                     in (Ok \<lparr>rv_addr = address, rv_old_instruction = Inst32 inst_32, rv_old_instruction_ptr = inst_tmp_ptr,
                             rv_user_pid = sp, rv_dynamic_user_ptr = 0\<rparr>, k)))"

definition rv64_drop_point :: "'k aux_ops \<Rightarrow> 'k \<Rightarrow> Rv64ProbePoint \<Rightarrow> 'k" where
  "rv64_drop_point F k p =
     (let k = (case rv_old_instruction p of
                 Inst16 inst_16 \<Rightarrow> mem_write F k (rv_user_pid p) (rv_addr p) (u16_bytes inst_16)
               | Inst32 inst_32 \<Rightarrow> mem_write F k (rv_user_pid p) (rv_addr p) (u32_bytes inst_32));
          dyn_ptr = rv_dynamic_user_ptr p;
          k = (if dyn_ptr \<noteq> 0 then free_user F k (rv_user_pid p) dyn_ptr else k)
      in drop_exec_memory F k (rv_old_instruction_ptr p))"

definition rv64_original_instruction_len :: "Rv64ProbePoint \<Rightarrow> nat" where
  "rv64_original_instruction_len p = (case rv_old_instruction p of Inst16 _ \<Rightarrow> 2 | Inst32 _ \<Rightarrow> 4)"

definition rv64_instruction_slot_len :: "Rv64ProbePoint \<Rightarrow> nat" where
  "rv64_instruction_slot_len p = (case rv_old_instruction p of Inst16 _ \<Rightarrow> 2 + 2 | Inst32 _ \<Rightarrow> 4 + 4)"

definition rv64_return_address :: "Rv64ProbePoint \<Rightarrow> usize" where
  "rv64_return_address p = rv_addr p + of_nat (rv64_original_instruction_len p)"

definition rv64_single_step_address :: "Rv64ProbePoint \<Rightarrow> usize" where
  "rv64_single_step_address p = as_ptr (rv_old_instruction_ptr p)"

definition rv64_debug_address :: "Rv64ProbePoint \<Rightarrow> usize" where
  "rv64_debug_address p =
     (if rv_dynamic_user_ptr p = 0 then as_ptr (rv_old_instruction_ptr p) + of_nat (rv64_original_instruction_len p)
      else rv_dynamic_user_ptr p + of_nat (rv64_original_instruction_len p))"

definition rv64_set_dynamic_user_ptr :: "Rv64ProbePoint \<Rightarrow> usize \<Rightarrow> Rv64ProbePoint \<times> usize" where
  "rv64_set_dynamic_user_ptr p ptr =
     (p\<lparr>rv_dynamic_user_ptr := ptr\<rparr>, ptr + of_nat (rv64_original_instruction_len p))"

section \<open>Registers\<close>

record Rv64PtRegs =
  rv_epc :: usize
  rv_ra :: usize
  rv_sp :: usize
  rv_gp :: usize
  rv_tp :: usize
  rv_t0 :: usize
  rv_t1 :: usize
  rv_t2 :: usize
  rv_s0 :: usize
  rv_s1 :: usize
  rv_a0 :: usize
  rv_a1 :: usize
  rv_a2 :: usize
  rv_a3 :: usize
  rv_a4 :: usize
  rv_a5 :: usize
  rv_a6 :: usize
  rv_a7 :: usize
  rv_s2 :: usize
  rv_s3 :: usize
  rv_s4 :: usize
  rv_s5 :: usize
  rv_s6 :: usize
  rv_s7 :: usize
  rv_s8 :: usize
  rv_s9 :: usize
  rv_s10 :: usize
  rv_s11 :: usize
  rv_t3 :: usize
  rv_t4 :: usize
  rv_t5 :: usize
  rv_t6 :: usize
  rv_status :: usize
  rv_badaddr :: usize
  rv_cause :: usize
  rv_orig_a0 :: usize

definition rv64_break_address :: "Rv64PtRegs \<Rightarrow> usize" where "rv64_break_address regs = rv_epc regs"
definition rv64_reg_debug_address :: "Rv64PtRegs \<Rightarrow> usize" where "rv64_reg_debug_address regs = rv_epc regs"
definition rv64_update_pc :: "Rv64PtRegs \<Rightarrow> usize \<Rightarrow> Rv64PtRegs" where "rv64_update_pc regs pc = regs\<lparr>rv_epc := pc\<rparr>"
definition rv64_setup_single_step :: "Rv64PtRegs \<Rightarrow> usize \<Rightarrow> Rv64PtRegs" where "rv64_setup_single_step regs a = rv64_update_pc regs a"
definition rv64_clear_single_step :: "Rv64PtRegs \<Rightarrow> usize \<Rightarrow> Rv64PtRegs" where "rv64_clear_single_step regs a = rv64_update_pc regs a"
definition rv64_first_ret_value :: "Rv64PtRegs \<Rightarrow> usize" where "rv64_first_ret_value regs = rv_a0 regs"
definition rv64_second_ret_value :: "Rv64PtRegs \<Rightarrow> usize" where "rv64_second_ret_value regs = rv_a1 regs"

definition rv64_args :: "Rv64PtRegs \<Rightarrow> usize list" where
  "rv64_args regs = [rv_a0 regs, rv_a1 regs, rv_a2 regs, rv_a3 regs, rv_a4 regs, rv_a5 regs]"

section \<open>Return hooks\<close>

definition rv64_rethook_prepare ::
  "usize \<Rightarrow> 'k \<Rightarrow> RetprobeInstance \<Rightarrow> Rv64PtRegs \<Rightarrow> RetprobeInstance \<times> Rv64PtRegs \<times> 'k" where
  "rv64_rethook_prepare trampoline k inst regs =
     (inst\<lparr>ri_ret_addr := rv_ra regs, ri_frame := rv_s0 regs\<rparr>, regs\<lparr>rv_ra := trampoline\<rparr>, k)"

definition rv64_rethook_fixup_return :: "'k \<Rightarrow> usize \<Rightarrow> usize \<Rightarrow> 'k" where
  "rv64_rethook_fixup_return k regs_ptr correct_ret_addr = k"

definition rv64_arch :: "'k aux_ops \<Rightarrow> usize \<Rightarrow> ('k, Rv64ProbePoint, Rv64PtRegs) arch_ops" where
  "rv64_arch F trampoline =
     \<lparr>ar_replace_inst = rv64_replace_inst F, ar_drop_point = rv64_drop_point F,
      ar_return_address = rv64_return_address, ar_single_step_address = rv64_single_step_address,
      ar_debug_address = rv64_debug_address, ar_break_address = rv_addr,
      ar_dynamic_user_ptr = rv_dynamic_user_ptr, ar_set_dynamic_user_ptr = rv64_set_dynamic_user_ptr,
      ar_original_instruction_len = rv64_original_instruction_len, ar_instruction_slot_len = rv64_instruction_slot_len,
      ar_pid = rv_user_pid, ar_reg_break_address = rv64_break_address,
      ar_reg_debug_address = rv64_reg_debug_address, ar_setup_single_step = rv64_setup_single_step,
      ar_clear_single_step = rv64_clear_single_step, ar_rethook_prepare = rv64_rethook_prepare trampoline,
      ar_rethook_fixup_return = rv64_rethook_fixup_return\<rparr>"

definition rv64_trampoline_callback ::
  "'k aux_ops \<Rightarrow> usize \<Rightarrow> Rv64PtRegs client \<Rightarrow> usize \<Rightarrow> ('k, Rv64ProbePoint, Rv64PtRegs) trap_state \<Rightarrow>
     (panic, usize \<times> ('k, Rv64ProbePoint, Rv64PtRegs) trap_state) result" where
  "rv64_trampoline_callback F trampoline C regs_ptr = (\<lambda>(S, regs, log).
     rethook_trampoline_handler (rv64_arch F trampoline) F C regs_ptr (rv_s0 regs) (S, regs, log))"

end
