(* ===== verification/ProbeArm64.thy ===== *)
theory ProbeArm64
  imports ProbeTraps
begin

text \<open>Probe points and registers of AArch64, \<open>kprobe/src/arch/aarch64/mod.rs\<close>.\<close>

section \<open>Instructions\<close>

definition KPROBES_BRK_IMM :: u32 where "KPROBES_BRK_IMM = 0x004"
definition KPROBES_BRK_SS_IMM :: u32 where "KPROBES_BRK_SS_IMM = 0x006"
definition AARCH64_BREAK_MON :: u32 where "AARCH64_BREAK_MON = 0xd4200000"
definition BRK64_OPCODE_KPROBES :: u32 where "BRK64_OPCODE_KPROBES = AARCH64_BREAK_MON OR push_bit 5 KPROBES_BRK_IMM"
definition BRK64_OPCODE_KPROBES_SS :: u32 where "BRK64_OPCODE_KPROBES_SS = AARCH64_BREAK_MON OR push_bit 5 KPROBES_BRK_SS_IMM"
definition BRK64_INST_LEN :: nat where "BRK64_INST_LEN = 4"

definition arm_validate_instruction :: "u32 \<Rightarrow> (ProbeInstallError, unit) result" where
  "arm_validate_instruction inst =
     (if inst = BRK64_OPCODE_KPROBES \<or> inst = BRK64_OPCODE_KPROBES_SS then Err UnsupportedInstruction
      else
        let is_unconditional_branch = (inst AND 0x7c000000 = 0x14000000);
            is_compare_branch = (inst AND 0x7e000000 = 0x34000000);
            is_test_branch = (inst AND 0x7e000000 = 0x36000000);
            is_conditional_branch = (inst AND 0xff000010 = 0x54000000);
            is_register_branch = (inst AND 0xfffffc1f \<in> {0xd61f0000, 0xd63f0000, 0xd65f0000});
            is_pc_relative_address = (inst AND 0x9f000000 = 0x10000000);
            is_literal_load = (inst AND 0x3b000000 = 0x18000000);
            is_exception_or_system = (inst AND 0xff000000 \<in> {0xd4000000, 0xd5000000})
        in if is_unconditional_branch \<or> is_compare_branch \<or> is_test_branch \<or> is_conditional_branch \<or>
              is_register_branch \<or> is_pc_relative_address \<or> is_literal_load \<or> is_exception_or_system
           then Err UnsafeInstruction
           else Ok ())"

section \<open>Probe points\<close>

record AArch64ProbePoint =
  ap_addr :: usize
  ap_old_instruction_ptr :: ExecMemType
  ap_user_pid :: space
  ap_dynamic_user_ptr :: usize

definition arm_replace_inst ::
  "'k aux_ops \<Rightarrow> 'k \<Rightarrow> ProbeBuilder \<Rightarrow> (ProbeInstallError, AArch64ProbePoint) result \<times> 'k" where
  "arm_replace_inst F k b =
     (let address = bd_symbol_addr b + bd_offset b; sp = bd_user_pid b in
      if address AND of_nat (BRK64_INST_LEN - 1) \<noteq> 0 then (Err InvalidAddress, k)
      else
        let (inst_tmp_ptr, k) = alloc_exec_memory F k sp;
            slot = as_ptr inst_tmp_ptr;
            inst_32 = u32_of (read_bytes F k sp address 4)
        in case arm_validate_instruction inst_32 of
             Inl e \<Rightarrow> (Err e, drop_exec_memory F k inst_tmp_ptr)
           | Inr _ \<Rightarrow>
               let k = mem_write F k sp address (u32_bytes BRK64_OPCODE_KPROBES);
                   k = mem_write F k None slot (u32_bytes inst_32);
                   k = mem_write F k None (slot + 4) (u32_bytes BRK64_OPCODE_KPROBES_SS)
               in (Ok \<lparr>ap_addr = address, ap_old_instruction_ptr = inst_tmp_ptr, ap_user_pid = sp,
                       ap_dynamic_user_ptr = 0\<rparr>, k))"

definition arm_drop_point :: "'k aux_ops \<Rightarrow> 'k \<Rightarrow> AArch64ProbePoint \<Rightarrow> 'k" where
  "arm_drop_point F k p =
     (let k = mem_write F k (ap_user_pid p) (ap_addr p)
                (read_bytes F k None (as_ptr (ap_old_instruction_ptr p)) BRK64_INST_LEN);
          dyn_ptr = ap_dynamic_user_ptr p;
          k = (if dyn_ptr \<noteq> 0 then free_user F k (ap_user_pid p) dyn_ptr else k)
      in drop_exec_memory F k (ap_old_instruction_ptr p))"

definition arm_original_instruction_len :: "AArch64ProbePoint \<Rightarrow> nat" where
  "arm_original_instruction_len p = BRK64_INST_LEN"

definition arm_instruction_slot_len :: "AArch64ProbePoint \<Rightarrow> nat" where
  "arm_instruction_slot_len p = BRK64_INST_LEN * 2"

definition arm_return_address :: "AArch64ProbePoint \<Rightarrow> usize" where
  "arm_return_address p = ap_addr p + of_nat (arm_original_instruction_len p)"

definition arm_single_step_address :: "AArch64ProbePoint \<Rightarrow> usize" where
  "arm_single_step_address p = as_ptr (ap_old_instruction_ptr p)"

definition arm_debug_address :: "AArch64ProbePoint \<Rightarrow> usize" where
  "arm_debug_address p =
     (if ap_dynamic_user_ptr p \<noteq> 0 then ap_dynamic_user_ptr p + of_nat (arm_original_instruction_len p)
      else as_ptr (ap_old_instruction_ptr p) + of_nat (arm_original_instruction_len p))"

definition arm_set_dynamic_user_ptr :: "AArch64ProbePoint \<Rightarrow> usize \<Rightarrow> AArch64ProbePoint \<times> usize" where
  "arm_set_dynamic_user_ptr p ptr =
     (p\<lparr>ap_dynamic_user_ptr := ptr\<rparr>, ptr + of_nat (arm_original_instruction_len p))"

section \<open>Registers\<close>

text \<open>\<open>regs\<close> is an array of 31 registers.\<close>

record AArch64PtRegs =
  arm_regs :: "u64 list"
  arm_sp :: u64
  arm_pc :: u64
  arm_pstate :: u64
  arm_orig_x0 :: u64
  arm_syscallno :: "32 word"
  arm_unused2 :: u32

definition arm_break_address :: "AArch64PtRegs \<Rightarrow> usize" where "arm_break_address regs = arm_pc regs"
definition arm_reg_debug_address :: "AArch64PtRegs \<Rightarrow> usize" where "arm_reg_debug_address regs = arm_pc regs"
definition arm_update_pc :: "AArch64PtRegs \<Rightarrow> usize \<Rightarrow> AArch64PtRegs" where "arm_update_pc regs pc = regs\<lparr>arm_pc := pc\<rparr>"
definition arm_setup_single_step :: "AArch64PtRegs \<Rightarrow> usize \<Rightarrow> AArch64PtRegs" where "arm_setup_single_step regs a = arm_update_pc regs a"
definition arm_clear_single_step :: "AArch64PtRegs \<Rightarrow> usize \<Rightarrow> AArch64PtRegs" where "arm_clear_single_step regs a = arm_update_pc regs a"
definition arm_first_ret_value :: "AArch64PtRegs \<Rightarrow> usize" where "arm_first_ret_value regs = arm_regs regs ! 0"
definition arm_second_ret_value :: "AArch64PtRegs \<Rightarrow> usize" where "arm_second_ret_value regs = arm_regs regs ! 1"
definition arm_args :: "AArch64PtRegs \<Rightarrow> usize list" where "arm_args regs = map (nth (arm_regs regs)) [0..<8]"

section \<open>Return hooks\<close>

text \<open>The link register is number 30, the frame pointer number 29.\<close>

definition arm_rethook_prepare ::
  "usize \<Rightarrow> 'k \<Rightarrow> RetprobeInstance \<Rightarrow> AArch64PtRegs \<Rightarrow> RetprobeInstance \<times> AArch64PtRegs \<times> 'k" where
  "arm_rethook_prepare trampoline k inst regs =
     (inst\<lparr>ri_ret_addr := arm_regs regs ! 30, ri_frame := arm_regs regs ! 29\<rparr>,
      regs\<lparr>arm_regs := (arm_regs regs)[30 := trampoline]\<rparr>, k)"

definition arm_rethook_fixup_return :: "'k \<Rightarrow> usize \<Rightarrow> usize \<Rightarrow> 'k" where
  "arm_rethook_fixup_return k regs_ptr correct_ret_addr = k"

definition arm_arch :: "'k aux_ops \<Rightarrow> usize \<Rightarrow> ('k, AArch64ProbePoint, AArch64PtRegs) arch_ops" where
  "arm_arch F trampoline =
     \<lparr>ar_replace_inst = arm_replace_inst F, ar_drop_point = arm_drop_point F,
      ar_return_address = arm_return_address, ar_single_step_address = arm_single_step_address,
      ar_debug_address = arm_debug_address, ar_break_address = ap_addr,
      ar_dynamic_user_ptr = ap_dynamic_user_ptr, ar_set_dynamic_user_ptr = arm_set_dynamic_user_ptr,
      ar_original_instruction_len = arm_original_instruction_len, ar_instruction_slot_len = arm_instruction_slot_len,
      ar_pid = ap_user_pid, ar_reg_break_address = arm_break_address,
      ar_reg_debug_address = arm_reg_debug_address, ar_setup_single_step = arm_setup_single_step,
      ar_clear_single_step = arm_clear_single_step, ar_rethook_prepare = arm_rethook_prepare trampoline,
      ar_rethook_fixup_return = arm_rethook_fixup_return\<rparr>"

definition arm_trampoline_callback ::
  "'k aux_ops \<Rightarrow> usize \<Rightarrow> AArch64PtRegs client \<Rightarrow> usize \<Rightarrow> ('k, AArch64ProbePoint, AArch64PtRegs) trap_state \<Rightarrow>
     (panic, usize \<times> ('k, AArch64ProbePoint, AArch64PtRegs) trap_state) result" where
  "arm_trampoline_callback F trampoline C regs_ptr = (\<lambda>(S, regs, log).
     rethook_trampoline_handler (arm_arch F trampoline) F C regs_ptr (arm_regs regs ! 29) (S, regs, log))"

end
