(* ===== verification/ProbeLa64.thy ===== *)
theory ProbeLa64
  imports ProbeTraps
begin

text \<open>Probe points and registers of LoongArch64, \<open>kprobe/src/arch/loongarch64/mod.rs\<close>.\<close>

section \<open>Instructions\<close>

definition LA_EBREAK_INST :: u32 where "LA_EBREAK_INST = 0x002a0000"
definition EBREAK_INST_LEN :: nat where "EBREAK_INST_LEN = 4"

definition la_validate_instruction :: "u32 \<Rightarrow> (ProbeInstallError, unit) result" where
  "la_validate_instruction inst =
     (if inst = LA_EBREAK_INST then Err UnsupportedInstruction
      else let opcode = drop_bit 26 inst in
        if 0x13 \<le> opcode \<and> opcode \<le> 0x17 \<or> 0x19 \<le> opcode \<and> opcode \<le> 0x1b then Err UnsafeInstruction else Ok ())"

section \<open>Probe points\<close>

record LA64ProbePoint =
  lp_addr :: usize
  lp_old_instruction_ptr :: ExecMemType
  lp_user_pid :: space
  lp_dynamic_user_ptr :: usize

definition la_replace_inst ::
  "'k aux_ops \<Rightarrow> 'k \<Rightarrow> ProbeBuilder \<Rightarrow> (ProbeInstallError, LA64ProbePoint) result \<times> 'k" where
  "la_replace_inst F k b =
     (let address = bd_symbol_addr b + bd_offset b; sp = bd_user_pid b in
      if address AND of_nat (EBREAK_INST_LEN - 1) \<noteq> 0 then (Err InvalidAddress, k)
      else
        let (inst_tmp_ptr, k) = alloc_exec_memory F k sp;
            slot = as_ptr inst_tmp_ptr;
            inst_32 = u32_of (read_bytes F k sp address 4)
        in case la_validate_instruction inst_32 of
             Inl e \<Rightarrow> (Err e, drop_exec_memory F k inst_tmp_ptr)
           | Inr _ \<Rightarrow>
               let k = mem_write F k sp address (u32_bytes LA_EBREAK_INST);
                   k = mem_write F k None slot (u32_bytes inst_32);
                   k = mem_write F k None (slot + 4) (u32_bytes LA_EBREAK_INST)
               in (Ok \<lparr>lp_addr = address, lp_old_instruction_ptr = inst_tmp_ptr, lp_user_pid = sp,
                       lp_dynamic_user_ptr = 0\<rparr>, k))"

definition la_drop_point :: "'k aux_ops \<Rightarrow> 'k \<Rightarrow> LA64ProbePoint \<Rightarrow> 'k" where
  "la_drop_point F k p =
     (let k = mem_write F k (lp_user_pid p) (lp_addr p)
                (read_bytes F k None (as_ptr (lp_old_instruction_ptr p)) EBREAK_INST_LEN);
          dyn_ptr = lp_dynamic_user_ptr p;
          k = (if dyn_ptr \<noteq> 0 then free_user F k (lp_user_pid p) dyn_ptr else k)
      in drop_exec_memory F k (lp_old_instruction_ptr p))"

definition la_original_instruction_len :: "LA64ProbePoint \<Rightarrow> nat" where
  "la_original_instruction_len p = EBREAK_INST_LEN"

definition la_instruction_slot_len :: "LA64ProbePoint \<Rightarrow> nat" where
  "la_instruction_slot_len p = EBREAK_INST_LEN * 2"

definition la_return_address :: "LA64ProbePoint \<Rightarrow> usize" where
  "la_return_address p = lp_addr p + of_nat (la_original_instruction_len p)"

definition la_single_step_address :: "LA64ProbePoint \<Rightarrow> usize" where
  "la_single_step_address p = as_ptr (lp_old_instruction_ptr p)"

definition la_debug_address :: "LA64ProbePoint \<Rightarrow> usize" where
  "la_debug_address p =
     (if lp_dynamic_user_ptr p \<noteq> 0 then lp_dynamic_user_ptr p + of_nat (la_original_instruction_len p)
      else as_ptr (lp_old_instruction_ptr p) + of_nat (la_original_instruction_len p))"

definition la_set_dynamic_user_ptr :: "LA64ProbePoint \<Rightarrow> usize \<Rightarrow> LA64ProbePoint \<times> usize" where
  "la_set_dynamic_user_ptr p ptr =
     (p\<lparr>lp_dynamic_user_ptr := ptr\<rparr>, ptr + of_nat (la_original_instruction_len p))"

section \<open>Registers\<close>

text \<open>\<open>regs\<close> is an array of 32 registers.\<close>

record LA64PtRegs =
  la_regs :: "usize list"
  la_orig_a0 :: usize
  la_csr_era :: usize
  la_csr_badvaddr :: usize
  la_csr_crmd :: usize
  la_csr_prmd :: usize
  la_csr_euen :: usize
  la_csr_ecfg :: usize
  la_csr_estat :: usize

definition la_break_address :: "LA64PtRegs \<Rightarrow> usize" where "la_break_address regs = la_csr_era regs"
definition la_reg_debug_address :: "LA64PtRegs \<Rightarrow> usize" where "la_reg_debug_address regs = la_csr_era regs"
definition la_update_pc :: "LA64PtRegs \<Rightarrow> usize \<Rightarrow> LA64PtRegs" where "la_update_pc regs pc = regs\<lparr>la_csr_era := pc\<rparr>"
definition la_setup_single_step :: "LA64PtRegs \<Rightarrow> usize \<Rightarrow> LA64PtRegs" where "la_setup_single_step regs a = la_update_pc regs a"
definition la_clear_single_step :: "LA64PtRegs \<Rightarrow> usize \<Rightarrow> LA64PtRegs" where "la_clear_single_step regs a = la_update_pc regs a"
definition la_first_ret_value :: "LA64PtRegs \<Rightarrow> usize" where "la_first_ret_value regs = la_regs regs ! 4"
definition la_second_ret_value :: "LA64PtRegs \<Rightarrow> usize" where "la_second_ret_value regs = la_regs regs ! 5"
definition la_args :: "LA64PtRegs \<Rightarrow> usize list" where "la_args regs = map (nth (la_regs regs)) [4..<12]"

section \<open>Return hooks\<close>

text \<open>The return address is register 1; the frame is not recorded.\<close>

definition la_rethook_prepare ::
  "usize \<Rightarrow> 'k \<Rightarrow> RetprobeInstance \<Rightarrow> LA64PtRegs \<Rightarrow> RetprobeInstance \<times> LA64PtRegs \<times> 'k" where
  "la_rethook_prepare trampoline k inst regs =
     (inst\<lparr>ri_ret_addr := la_regs regs ! 1, ri_frame := 0\<rparr>, regs\<lparr>la_regs := (la_regs regs)[1 := trampoline]\<rparr>, k)"

definition la_rethook_fixup_return :: "'k \<Rightarrow> usize \<Rightarrow> usize \<Rightarrow> 'k" where
  "la_rethook_fixup_return k regs_ptr correct_ret_addr = k"

definition la_arch :: "'k aux_ops \<Rightarrow> usize \<Rightarrow> ('k, LA64ProbePoint, LA64PtRegs) arch_ops" where
  "la_arch F trampoline =
     \<lparr>ar_replace_inst = la_replace_inst F, ar_drop_point = la_drop_point F,
      ar_return_address = la_return_address, ar_single_step_address = la_single_step_address,
      ar_debug_address = la_debug_address, ar_break_address = lp_addr,
      ar_dynamic_user_ptr = lp_dynamic_user_ptr, ar_set_dynamic_user_ptr = la_set_dynamic_user_ptr,
      ar_original_instruction_len = la_original_instruction_len, ar_instruction_slot_len = la_instruction_slot_len,
      ar_pid = lp_user_pid, ar_reg_break_address = la_break_address,
      ar_reg_debug_address = la_reg_debug_address, ar_setup_single_step = la_setup_single_step,
      ar_clear_single_step = la_clear_single_step, ar_rethook_prepare = la_rethook_prepare trampoline,
      ar_rethook_fixup_return = la_rethook_fixup_return\<rparr>"

definition la_trampoline_callback ::
  "'k aux_ops \<Rightarrow> usize \<Rightarrow> LA64PtRegs client \<Rightarrow> usize \<Rightarrow> ('k, LA64ProbePoint, LA64PtRegs) trap_state \<Rightarrow>
     (panic, usize \<times> ('k, LA64ProbePoint, LA64PtRegs) trap_state) result" where
  "la_trampoline_callback F trampoline C regs_ptr = (\<lambda>(S, regs, log).
     rethook_trampoline_handler (la_arch F trampoline) F C regs_ptr 0 (S, regs, log))"

end
