(* ===== verification/ProbeArchs.thy ===== *)
theory ProbeArchs
  imports ProbeLaws ProbeX86 ProbeRv64 ProbeArm64 ProbeLa64
begin

text \<open>
  The architectures give the contract of \<open>probe_arch\<close>: each interprets the locale with its own
  installation and removal of breakpoints, for every kernel that satisfies \<open>aux_laws\<close>.
\<close>

section \<open>Integers in memory\<close>

lemma length_bytes [simp]: "length (u16_bytes v) = 2" "length (u32_bytes w) = 4"
  by (simp_all add: u16_bytes_def u32_bytes_def)

lemma bit_u8 [simp]: "\<not> bit (b :: u8) (8 + n)" "\<not> bit (b :: u8) (16 + n)" "\<not> bit (b :: u8) (24 + n)"
  using bit_imp_le_length [of b "8 + n"] bit_imp_le_length [of b "16 + n"] bit_imp_le_length [of b "24 + n"] by auto

lemma bytes_u16_of: "length bs = 2 \<Longrightarrow> u16_bytes (u16_of bs) = bs"
proof -
  assume "length bs = 2"
  then obtain a b where bs: "bs = [a, b]" by (auto simp: numeral_2_eq_2 length_Suc_conv)
  have "ucast (ucast a OR push_bit 8 (ucast b) :: u16) = a" "ucast (drop_bit 8 (ucast a OR push_bit 8 (ucast b) :: u16)) = b"
    by (auto intro!: bit_word_eqI simp: bit_simps)
  then show ?thesis by (simp add: bs u16_bytes_def u16_of_def)
qed

lemma bytes_u32_of: "length bs = 4 \<Longrightarrow> u32_bytes (u32_of bs) = bs"
proof -
  assume "length bs = 4"
  then obtain a b c d where bs: "bs = [a, b, c, d]" by (auto simp: numeral_eq_Suc length_Suc_conv)
  let ?w = "ucast a OR push_bit 8 (ucast b) OR push_bit 16 (ucast c) OR push_bit 24 (ucast d) :: u32"
  have "ucast ?w = a" "ucast (drop_bit 8 ?w) = b" "ucast (drop_bit 16 ?w) = c" "ucast (drop_bit 24 ?w) = d"
    by (auto intro!: bit_word_eqI simp: bit_simps)
  then show ?thesis by (simp add: bs u32_bytes_def u32_of_def)
qed

section \<open>x86-64\<close>

text \<open>
  The decoder reads a prefix of its input, of 1 to 15 bytes, and takes \<open>0xcc\<close> for an interrupt.
\<close>

definition decode_laws :: "(u8 list \<Rightarrow> x86_inst option) \<Rightarrow> bool" where
  "decode_laws decode \<longleftrightarrow>
     (\<forall>bs inst. decode bs = Some inst \<longrightarrow> 0 < xi_len inst \<and> xi_len inst \<le> 15 \<and>
        (\<forall>bs'. length bs' = length bs \<longrightarrow> take (xi_len inst) bs' = take (xi_len inst) bs \<longrightarrow> decode bs' = Some inst)) \<and>
     (\<forall>bs inst. decode (0xcc # bs) = Some inst \<longrightarrow> xi_opcode inst = INT_op)"

lemma decode_len: "decode_laws decode \<Longrightarrow> decode bs = Some inst \<Longrightarrow> 0 < xi_len inst \<and> xi_len inst \<le> 15"
  unfolding decode_laws_def by blast

lemma decode_prefix:
  "decode_laws decode \<Longrightarrow> decode bs = Some inst \<Longrightarrow> length bs' = length bs \<Longrightarrow>
     take (xi_len inst) bs' = take (xi_len inst) bs \<Longrightarrow> decode bs' = Some inst"
  unfolding decode_laws_def by blast

lemma decode_int3: "decode_laws decode \<Longrightarrow> decode (0xcc # bs) = Some inst \<Longrightarrow> xi_opcode inst = INT_op"
  unfolding decode_laws_def by blast

definition x86_ilen :: "(u8 list \<Rightarrow> x86_inst option) \<Rightarrow> (usize \<Rightarrow> u8) \<Rightarrow> usize \<Rightarrow> nat option" where
  "x86_ilen decode m a =
     (case decode (bytes_at m a MAX_INSTRUCTION_SIZE) of
        None \<Rightarrow> None
      | Some inst \<Rightarrow> if x86_validate_instruction inst = Ok () then Some (xi_len inst) else None)"

definition x86_patch :: "nat \<Rightarrow> u8 list" where "x86_patch n = [0xcc]"

definition x86_saved :: "'k aux_ops \<Rightarrow> 'k \<Rightarrow> X86ProbePoint \<Rightarrow> u8 list" where
  "x86_saved F k p = read_bytes F k None (as_ptr (xp_old_instruction_ptr p)) (xp_old_instruction_len p)"

lemma x86_ilen_Some:
  "x86_ilen decode m a = Some n \<longleftrightarrow>
     (\<exists>inst. decode (bytes_at m a MAX_INSTRUCTION_SIZE) = Some inst \<and>
        x86_validate_instruction inst = Ok () \<and> n = xi_len inst)"
  by (auto simp: x86_ilen_def split: option.splits)

lemma x86_ilen_prefix:
  assumes "decode_laws decode" "x86_ilen decode m a = Some n" "\<And>x. x \<in> region a n \<Longrightarrow> m' x = m x"
  shows "x86_ilen decode m' a = Some n"
proof -
  from assms(2) obtain inst where inst: "decode (bytes_at m a MAX_INSTRUCTION_SIZE) = Some inst"
    "x86_validate_instruction inst = Ok ()" "n = xi_len inst" by (auto simp: x86_ilen_Some)
  with decode_len [OF assms(1) inst(1)] have n: "n \<le> MAX_INSTRUCTION_SIZE" by (simp add: MAX_INSTRUCTION_SIZE_def)
  then have "n < 2 ^ 64" by (simp add: MAX_INSTRUCTION_SIZE_def)
  then have "take n (bytes_at m' a MAX_INSTRUCTION_SIZE) = take n (bytes_at m a MAX_INSTRUCTION_SIZE)"
    unfolding take_bytes_at [OF n] by (rule bytes_at_cong) (rule assms(3))
  then have "decode (bytes_at m' a MAX_INSTRUCTION_SIZE) = Some inst"
    using inst by (intro decode_prefix [OF assms(1) inst(1)]) simp_all
  with inst show ?thesis by (auto simp: x86_ilen_Some)
qed

lemma x86_patch_refused:
  assumes "decode_laws decode" "\<And>x. x \<in> region a (length (x86_patch n)) \<Longrightarrow> m' x = x86_patch n ! unat (x - a)"
  shows "x86_ilen decode m' a = None"
proof -
  have "m' a = 0xcc" using assms(2) [of a] by (simp add: region_def x86_patch_def)
  then have "bytes_at m' a MAX_INSTRUCTION_SIZE = 0xcc # tl (bytes_at m' a MAX_INSTRUCTION_SIZE)"
    by (simp add: bytes_at_def MAX_INSTRUCTION_SIZE_def upt_conv_Cons del: upt_Suc)
  then have "xi_opcode inst = INT_op" if "decode (bytes_at m' a MAX_INSTRUCTION_SIZE) = Some inst" for inst
    using decode_int3 [OF assms(1)] that by metis
  then show ?thesis by (auto simp: x86_ilen_def x86_validate_instruction_def split: option.splits)
qed

text \<open>The copy of the instruction in its slot, which is outside of the text.\<close>

lemma x86_slot_copy:
  assumes aux: "aux_laws F pages heap room" and fresh: "fresh_page F pages heap k None (p, k1)"
    and out: "region a n \<inter> heap sp = {}" and n: "n < 2 ^ 64"
  shows "read_bytes F (copy_memory F k1 a p n sp) None p n = bytes_at (mem_read F k sp) a n"
proof (rule nth_equalityI)
  fix i assume "i < length (read_bytes F (copy_memory F k1 a p n sp) None p n)"
  then have i: "i < n" "i < 2 ^ 64" using n by auto
  then have "a + of_nat i \<notin> heap sp" using out offset_in_region [of i n a] by blast
  then have "mem_read F k1 sp (a + of_nat i) = mem_read F k sp (a + of_nat i)" by (rule fresh_outside [OF fresh])
  then show "read_bytes F (copy_memory F k1 a p n sp) None p n ! i = bytes_at (mem_read F k sp) a n ! i"
    using i by (simp add: copy_memory_def aux_write [OF aux] offset_in_region unat_of_nat_small)
qed simp

lemma x86_copy_frame:
  assumes "aux_laws F pages heap room" "n \<le> 4096"
  shows "pages (copy_memory F k1 a p n sp) = pages k1"
    and "\<not> (s = None \<and> x \<in> page p) \<Longrightarrow> mem_read F (copy_memory F k1 a p n sp) s x = mem_read F k1 s x"
proof -
  have "region p n \<subseteq> page p" by (rule region_mono [OF assms(2)])
  then show "\<not> (s = None \<and> x \<in> page p) \<Longrightarrow> mem_read F (copy_memory F k1 a p n sp) s x = mem_read F k1 s x"
    by (auto simp: copy_memory_def aux_write [OF assms(1)])
qed (simp add: copy_memory_def aux_write_pages [OF assms(1)])


lemma x86_replace:
  assumes aux: "aux_laws F pages heap room" and dec: "decode_laws decode" and ok: "pages_ok pages heap k" and room: "room k"
    and out: "region (probe_addr b) 15 \<inter> heap (bd_user_pid b) = {}"
    and run: "x86_replace_inst F decode k b = (r, k')"
  shows "x86_ilen decode (mem_read F k (bd_user_pid b)) (probe_addr b) = None \<Longrightarrow>
      (\<exists>e. r = Err e) \<and> pages k' = pages k \<and> frame F pages heap k k' (mem_read F k)"
    and "x86_ilen decode (mem_read F k (bd_user_pid b)) (probe_addr b) = Some n \<Longrightarrow>
      \<exists>p. r = Ok p \<and> xp_addr p = probe_addr b \<and> xp_old_instruction_len p = n \<and>
        xp_user_pid p = bd_user_pid b \<and> xp_dynamic_user_ptr p = 0 \<and>
        (None, x86_single_step_address p) \<notin> pages k \<and>
        pages k' = insert (None, x86_single_step_address p) (pages k) \<and> pages_ok pages heap k' \<and>
        frame F pages heap k k' (overwrite (mem_read F k) (bd_user_pid b) (probe_addr b) (x86_patch n)) \<and>
        x86_saved F k' p = read_bytes F k (bd_user_pid b) (probe_addr b) n \<and>
        read_bytes F k' None (x86_single_step_address p) n = read_bytes F k (bd_user_pid b) (probe_addr b) n"
proof -
  let ?sp = "bd_user_pid b" and ?a = "probe_addr b"
  obtain t k1 where t: "alloc_exec_memory F k ?sp = (t, k1)" by fastforce
  note fresh = aux_alloc_exec [OF aux room t]
  let ?k2 = "copy_memory F k1 ?a (as_ptr t) MAX_INSTRUCTION_SIZE ?sp"
  have max: "MAX_INSTRUCTION_SIZE \<le> 4096" "MAX_INSTRUCTION_SIZE < 2 ^ 64" by (simp_all add: MAX_INSTRUCTION_SIZE_def)
  have out': "region ?a MAX_INSTRUCTION_SIZE \<inter> heap ?sp = {}" using out by (simp add: MAX_INSTRUCTION_SIZE_def)
  note buf = x86_slot_copy [OF aux fresh out' max(2)]
  let ?res = "and_then (ok_or (decode (bytes_at (mem_read F k ?sp) ?a MAX_INSTRUCTION_SIZE)) DecodeFailed)
    (\<lambda>inst. and_then (x86_validate_instruction inst) (\<lambda>_. Ok inst))"
  have rk: "(r, k') = (case ?res of
      Inl e \<Rightarrow> (Err e, drop_exec_memory F ?k2 t)
    | Inr inst \<Rightarrow> (Ok \<lparr>xp_addr = ?a, xp_old_instruction_ptr = t, xp_old_instruction_len = xi_len inst,
          xp_user_pid = ?sp, xp_dynamic_user_ptr = 0\<rparr>, mem_write F ?k2 ?sp ?a [0xcc]))"
    using run [symmetric] unfolding x86_replace_inst_def Let_def t prod.case probe_addr_def [symmetric] buf X86_EBREAK_INST_def .
  {
    assume "x86_ilen decode (mem_read F k ?sp) ?a = None"
    then obtain e where "?res = Err e"
      by (auto simp: x86_ilen_def split: option.splits if_splits) (metis and_then_simps(1) old.sum.exhaust old.unit.exhaust)
    with rk show "(\<exists>e. r = Err e) \<and> pages k' = pages k \<and> frame F pages heap k k' (mem_read F k)"
      using refused_frame [OF aux ok fresh x86_copy_frame [OF aux max(1)]] by auto
  }
  assume "x86_ilen decode (mem_read F k ?sp) ?a = Some n"
  then obtain inst where dv: "decode (bytes_at (mem_read F k ?sp) ?a MAX_INSTRUCTION_SIZE) = Some inst"
    "x86_validate_instruction inst = Ok ()" "n = xi_len inst" by (auto simp: x86_ilen_Some)
  then have inst: "?res = Ok inst" "n = xi_len inst"
    "decode (bytes_at (mem_read F k ?sp) ?a MAX_INSTRUCTION_SIZE) = Some inst" by simp_all
  let ?p = "\<lparr>xp_addr = ?a, xp_old_instruction_ptr = t, xp_old_instruction_len = xi_len inst,
    xp_user_pid = ?sp, xp_dynamic_user_ptr = 0\<rparr>"
  have r: "r = Ok ?p" "k' = mem_write F ?k2 ?sp ?a [0xcc]" using rk inst by auto
  have one: "region ?a (length [0xcc :: u8]) \<inter> heap ?sp = {}" using out region_mono [of 1 15 ?a] by auto
  have fr: "(None, as_ptr t) \<notin> pages k \<and> pages k' = insert (None, as_ptr t) (pages k) \<and> pages_ok pages heap k' \<and>
    frame F pages heap k k' (overwrite (mem_read F k) ?sp ?a [0xcc])"
  proof (rule accepted_frame [OF ok fresh _ _ one])
    show "pages k' = pages k1" by (simp add: r aux_write_pages [OF aux] x86_copy_frame [OF aux max(1)])
    show "mem_read F k' s x = overwrite (mem_read F k1) ?sp ?a [0xcc] s x" if "\<not> (s = None \<and> x \<in> page (as_ptr t))" for s x
      using x86_copy_frame(2) [OF aux max(1) that, of k1 ?a ?sp] by (simp add: r aux_write [OF aux] overwrite_def)
  qed
  have n: "n \<le> MAX_INSTRUCTION_SIZE" using decode_len [OF dec inst(3)] inst(2) by (simp add: MAX_INSTRUCTION_SIZE_def)
  have "read_bytes F k' None (as_ptr t) n = take n (read_bytes F ?k2 None (as_ptr t) MAX_INSTRUCTION_SIZE)"
    unfolding read_bytes_at take_bytes_at [OF n]
  proof (rule bytes_at_cong)
    fix x assume "x \<in> region (as_ptr t) n"
    then have "x \<in> page (as_ptr t)" using region_mono [of n 4096] n max(1) by auto
    then have "x \<in> heap None" using fresh by (auto simp: fresh_page_def)
    then have "\<not> (?sp = None \<and> x \<in> region ?a (length [0xcc :: u8]))" using one by auto
    then show "mem_read F k' None x = mem_read F ?k2 None x" by (auto simp: r aux_write [OF aux])
  qed (use n max in simp)
  then have slot: "read_bytes F k' None (as_ptr t) n = read_bytes F k ?sp ?a n"
    unfolding buf take_bytes_at [OF n] by (simp only: read_bytes_at)
  show "\<exists>p. r = Ok p \<and> xp_addr p = ?a \<and> xp_old_instruction_len p = n \<and> xp_user_pid p = ?sp \<and> xp_dynamic_user_ptr p = 0 \<and>
      (None, x86_single_step_address p) \<notin> pages k \<and> pages k' = insert (None, x86_single_step_address p) (pages k) \<and>
      pages_ok pages heap k' \<and>
      frame F pages heap k k' (overwrite (mem_read F k) ?sp ?a (x86_patch n)) \<and>
      x86_saved F k' p = read_bytes F k ?sp ?a n \<and>
      read_bytes F k' None (x86_single_step_address p) n = read_bytes F k ?sp ?a n"
    using r(1) fr slot inst(2) by (intro exI [of _ ?p]) (simp add: x86_single_step_address_def x86_patch_def x86_saved_def)
qed

lemma x86_probe_arch:
  assumes aux: "aux_laws F pages heap room" and dec: "decode_laws decode"
  shows "probe_arch F (x86_arch F decode trampoline) pages heap room (x86_ilen decode) x86_patch (\<lambda>_. []) (x86_saved F)"
proof (unfold_locales, goal_cases)
  case (1 m a n)
  then show ?case using decode_len [OF dec] by (auto simp: x86_ilen_Some)
next
  case (2 m a n m')
  show ?case by (rule x86_ilen_prefix [OF dec 2])
next
  case (3 m a n)
  then show ?case using decode_len [OF dec] by (fastforce simp: x86_ilen_Some x86_patch_def)
next
  case (4 m a n m')
  show ?case by (rule x86_patch_refused [OF dec 4(2)])
next
  case (5 p)
  then show ?case by (simp add: x86_arch_def x86_return_address_def)
next
  case (6 p)
  then show ?case by (simp add: x86_arch_def x86_debug_address_def x86_single_step_address_def)
next
  case (7 p)
  show ?case by (simp add: x86_arch_def)
next
  case (8 n)
  show ?case by simp
next
  case (9 p ptr p' d)
  then show ?case by (auto simp: x86_arch_def x86_set_dynamic_user_ptr_def x86_single_step_address_def x86_saved_def)
next
  case (10 k b r k')
  then show ?case using x86_replace(1) [OF aux dec] by (simp add: x86_arch_def)
next
  case (11 k b r k' n)
  then show ?case using x86_replace(2) [OF aux dec] by (simp add: x86_arch_def)
next
  case (12 p k)
  then have "region (xp_addr p) (xp_old_instruction_len p) \<inter> heap (xp_user_pid p) = {}"
    using region_mono [of "xp_old_instruction_len p" 15 "xp_addr p"] by (auto simp: x86_arch_def)
  then have out: "region (xp_addr p) (length (x86_saved F k p)) \<inter> heap (ar_pid (x86_arch F decode trampoline) p) = {}"
    by (simp add: x86_arch_def x86_drop_point_def x86_saved_def x86_single_step_address_def)
  have k': "ar_drop_point (x86_arch F decode trampoline) k p = drop_exec_memory F
      (if ar_dynamic_user_ptr (x86_arch F decode trampoline) p \<noteq> 0
       then free_user F (mem_write F k (ar_pid (x86_arch F decode trampoline) p) (xp_addr p) (x86_saved F k p)) (ar_pid (x86_arch F decode trampoline) p)
         (ar_dynamic_user_ptr (x86_arch F decode trampoline) p)
       else mem_write F k (ar_pid (x86_arch F decode trampoline) p) (xp_addr p) (x86_saved F k p)) (xp_old_instruction_ptr p)"
    by (simp add: x86_arch_def x86_drop_point_def x86_saved_def x86_single_step_address_def Let_def)
  have slot: "ar_single_step_address (x86_arch F decode trampoline) p = as_ptr (xp_old_instruction_ptr p)"
    "ar_break_address (x86_arch F decode trampoline) p = xp_addr p" by (simp_all add: x86_arch_def x86_single_step_address_def)
  show ?case using dropped_point [OF aux 12(2,1) slot(1) out k'] by (simp add: slot(2))
next
  case (13 p k' k)
  then show ?case
    using region_mono [of "xp_old_instruction_len p" 4096 "as_ptr (xp_old_instruction_ptr p)"]
    by (auto simp: x86_arch_def x86_saved_def x86_single_step_address_def read_bytes_at intro!: bytes_at_cong)
next
  case (14 k p)
  then show ?case by (simp add: x86_arch_def x86_saved_def)
qed

section \<open>Instructions with a breakpoint behind them\<close>

text \<open>
  RISC-V, AArch64 and LoongArch64 patch a whole instruction, and put the old one and a breakpoint
  of the same length into the slot.
\<close>

lemma slot_install:
  assumes aux: "aux_laws F pages heap room" and ok: "pages_ok pages heap k"
    and fresh: "fresh_page F pages heap k None (p, k1)" and out: "region a n \<inter> heap sp = {}"
    and len: "length bp = n" "length old = n" "length brk = n" "n \<le> 15"
    and k': "k' = mem_write F (mem_write F (mem_write F k1 sp a bp) None p old) None (p + of_nat n) brk"
  shows "(None, p) \<notin> pages k \<and> pages k' = insert (None, p) (pages k) \<and> pages_ok pages heap k' \<and>
    frame F pages heap k k' (overwrite (mem_read F k) sp a bp)"
    and "read_bytes F k' None p (n + length brk) = old @ brk"
proof -
  have n: "unat (of_nat n :: u64) = n" using len(4) by (intro unat_of_nat_small) simp
  have slot: "region p n \<subseteq> page p" using len(4) by (intro region_mono) simp
  have slot2: "region (p + of_nat n) n \<subseteq> page p" using len(4) n by (intro region_shift) simp
  show "(None, p) \<notin> pages k \<and> pages k' = insert (None, p) (pages k) \<and> pages_ok pages heap k' \<and>
    frame F pages heap k k' (overwrite (mem_read F k) sp a bp)"
  proof (rule accepted_frame [OF ok fresh])
    show "pages k' = pages k1" by (simp add: k' aux_write_pages [OF aux])
    show "region a (length bp) \<inter> heap sp = {}" using out len by simp
    show "mem_read F k' s x = overwrite (mem_read F k1) sp a bp s x" if "\<not> (s = None \<and> x \<in> page p)" for s x
      using that slot slot2 len by (auto simp: k' aux_write [OF aux] overwrite_def)
  qed
  have "mem_read F k' None (p + of_nat i) = old ! i" if "i < n" for i
  proof -
    have i: "unat (of_nat i :: u64) = i" using that len(4) by (intro unat_of_nat_small) simp
    have "unat (of_nat i - of_nat n :: u64) = i + 2 ^ 64 - n" using that i n by (simp add: unat_sub_if')
    then have "unat (of_nat i - of_nat n :: u64) \<ge> n" using len(4) by simp
    then have "p + of_nat i \<notin> region (p + of_nat n) n" by (simp add: region_def)
    moreover have "p + of_nat i \<in> region p n" using that i by (simp add: region_def)
    ultimately show ?thesis using len i by (simp add: k' aux_write [OF aux])
  qed
  moreover have "mem_read F k' None (p + of_nat i) = brk ! (i - n)" if "n \<le> i" "i < n + n" for i
  proof -
    have i: "unat (of_nat i :: u64) = i" using that len(4) by (intro unat_of_nat_small) simp
    have "unat (of_nat i - of_nat n :: u64) = i - n" using that i n by (simp add: unat_sub_if')
    moreover from this have "p + of_nat i \<in> region (p + of_nat n) n" using that by (simp add: region_def)
    ultimately show ?thesis using len by (simp add: k' aux_write [OF aux])
  qed
  ultimately show "read_bytes F k' None p (n + length brk) = old @ brk"
    using len by (intro nth_equalityI) (auto simp: nth_append)
qed

lemma bytes_at_eq:
  assumes "length bs < 2 ^ 64" "\<And>x. x \<in> region a (length bs) \<Longrightarrow> m x = bs ! unat (x - a)"
  shows "bytes_at m a (length bs) = bs"
proof (rule nth_equalityI)
  fix i assume "i < length (bytes_at m a (length bs))"
  then have "i < length bs" "i < 2 ^ 64" using assms(1) by auto
  then show "bytes_at m a (length bs) ! i = bs ! i"
    using assms(2) [of "a + of_nat i"] by (simp add: offset_in_region unat_of_nat_small)
qed simp

lemma u16_of_bytes: "u16_of (u16_bytes v) = v"
  by (auto simp: u16_of_def u16_bytes_def bit_simps intro!: bit_word_eqI)

lemma u32_of_bytes: "u32_of (u32_bytes v) = v"
proof (rule bit_word_eqI)
  fix n assume "n < LENGTH(32)"
  then have n: "n < 32" by simp
  consider "n < 8" | "8 \<le> n" "n < 16" | "16 \<le> n" "n < 24" | "24 \<le> n" by linarith
  then show "bit (u32_of (u32_bytes v)) n = bit v n"
    using n by cases (simp_all add: u32_of_def u32_bytes_def bit_simps less_diff_conv2)
qed

lemma fresh_read:
  assumes "fresh_page F pages heap k None (p, k1)" "region a n \<inter> heap sp = {}" "n < 2 ^ 64"
  shows "read_bytes F k1 sp a n = read_bytes F k sp a n"
  unfolding read_bytes_at using assms by (intro bytes_at_cong fresh_outside [OF assms(1)]) auto

section \<open>Instructions of one word\<close>

definition word_ilen :: "(u32 \<Rightarrow> (ProbeInstallError, unit) result) \<Rightarrow> (usize \<Rightarrow> u8) \<Rightarrow> usize \<Rightarrow> nat option" where
  "word_ilen validate m a = (if a AND 3 = 0 \<and> is_ok (validate (u32_of (bytes_at m a 4))) then Some 4 else None)"

definition word_replace_inst ::
  "'k aux_ops \<Rightarrow> (u32 \<Rightarrow> (ProbeInstallError, unit) result) \<Rightarrow> u32 \<Rightarrow> u32 \<Rightarrow> (usize \<Rightarrow> ExecMemType \<Rightarrow> space \<Rightarrow> 'p) \<Rightarrow>
     'k \<Rightarrow> ProbeBuilder \<Rightarrow> (ProbeInstallError, 'p) result \<times> 'k" where
  "word_replace_inst F validate bp brk mk k b =
     (let a = probe_addr b; sp = bd_user_pid b in
      if a AND 3 \<noteq> 0 then (Err InvalidAddress, k)
      else
        let (t, k1) = alloc_exec_memory F k sp; inst = u32_of (read_bytes F k1 sp a 4)
        in case validate inst of
             Inl e \<Rightarrow> (Err e, drop_exec_memory F k1 t)
           | Inr _ \<Rightarrow>
               (Ok (mk a t sp),
                mem_write F (mem_write F (mem_write F k1 sp a (u32_bytes bp)) None (as_ptr t) (u32_bytes inst))
                  None (as_ptr t + 4) (u32_bytes brk)))"

lemma word_ilen_prefix:
  assumes "word_ilen validate m a = Some n" "\<And>x. x \<in> region a n \<Longrightarrow> m' x = m x"
  shows "word_ilen validate m' a = Some n"
proof -
  have "n = 4" using assms(1) by (simp add: word_ilen_def split: if_splits)
  then have "bytes_at m' a 4 = bytes_at m a 4" using assms(2) by (intro bytes_at_cong) auto
  with assms(1) show ?thesis by (simp add: word_ilen_def)
qed

lemma word_patch_refused:
  assumes "\<not> is_ok (validate bp)" "\<And>x. x \<in> region a (length (u32_bytes bp)) \<Longrightarrow> m x = u32_bytes bp ! unat (x - a)"
  shows "word_ilen validate m a = None"
  using bytes_at_eq [of "u32_bytes bp" a m] assms by (simp add: word_ilen_def u32_of_bytes)

lemma word_replace:
  assumes aux: "aux_laws F pages heap room" and ok: "pages_ok pages heap k" and room: "room k"
    and out: "region (probe_addr b) 15 \<inter> heap (bd_user_pid b) = {}"
    and run: "word_replace_inst F validate bp brk mk k b = (r, k')"
  shows "word_ilen validate (mem_read F k (bd_user_pid b)) (probe_addr b) = None \<Longrightarrow>
      (\<exists>e. r = Err e) \<and> pages k' = pages k \<and> frame F pages heap k k' (mem_read F k)"
    and "word_ilen validate (mem_read F k (bd_user_pid b)) (probe_addr b) = Some n \<Longrightarrow>
      \<exists>t. r = Ok (mk (probe_addr b) t (bd_user_pid b)) \<and> n = 4 \<and> (None, as_ptr t) \<notin> pages k \<and>
        pages k' = insert (None, as_ptr t) (pages k) \<and> pages_ok pages heap k' \<and>
        frame F pages heap k k' (overwrite (mem_read F k) (bd_user_pid b) (probe_addr b) (u32_bytes bp)) \<and>
        read_bytes F k' None (as_ptr t) 4 = read_bytes F k (bd_user_pid b) (probe_addr b) 4 \<and>
        read_bytes F k' None (as_ptr t) (4 + length (u32_bytes brk)) =
          read_bytes F k (bd_user_pid b) (probe_addr b) 4 @ u32_bytes brk"
proof -
  let ?sp = "bd_user_pid b" and ?a = "probe_addr b"
  obtain t k1 where t: "alloc_exec_memory F k ?sp = (t, k1)" by fastforce
  note fresh = aux_alloc_exec [OF aux room t]
  have out4: "region ?a 4 \<inter> heap ?sp = {}" using out region_mono [of 4 15 ?a] by auto
  have rd: "read_bytes F k1 ?sp ?a 4 = read_bytes F k ?sp ?a 4" by (rule fresh_read [OF fresh out4]) simp
  let ?inst = "u32_of (read_bytes F k ?sp ?a 4)"
  {
    assume none: "word_ilen validate (mem_read F k ?sp) ?a = None"
    show "(\<exists>e. r = Err e) \<and> pages k' = pages k \<and> frame F pages heap k k' (mem_read F k)"
    proof (cases "?a AND 3 = 0")
      case True
      then obtain e where "validate ?inst = Err e"
        using none by (cases "validate ?inst") (auto simp: word_ilen_def read_bytes_at)
      then have "r = Err e" "k' = drop_exec_memory F k1 t"
        using run True by (simp_all add: word_replace_inst_def t rd Let_def)
      with refused_frame [OF aux ok fresh refl refl] show ?thesis by auto
    next
      case False
      then have "r = Err InvalidAddress" "k' = k" using run by (auto simp: word_replace_inst_def)
      then show ?thesis by (simp add: frame_def)
    qed
  }
  assume "word_ilen validate (mem_read F k ?sp) ?a = Some n"
  then have n: "n = 4" "?a AND 3 = 0" "is_ok (validate ?inst)" by (auto simp: word_ilen_def read_bytes_at split: if_splits)
  then obtain u where "validate ?inst = Ok u" by (cases "validate ?inst") auto
  then have r: "r = Ok (mk ?a t ?sp)" and k': "k' = mem_write F (mem_write F (mem_write F k1 ?sp ?a (u32_bytes bp)) None (as_ptr t)
      (u32_bytes ?inst)) None (as_ptr t + of_nat 4) (u32_bytes brk)"
    using run n by (simp_all add: word_replace_inst_def t rd Let_def)
  note inst = slot_install [OF aux ok fresh out4 _ _ _ _ k']
  have old: "u32_bytes ?inst = read_bytes F k ?sp ?a 4" by (rule bytes_u32_of) simp
  have "read_bytes F k' None (as_ptr t) 4 = u32_bytes ?inst"
    using inst(2) by (intro read_bytes_prefix [of F k' None "as_ptr t" 4 "length (u32_bytes brk)" _ "u32_bytes brk"]) simp_all
  with old inst r n show "\<exists>t. r = Ok (mk ?a t ?sp) \<and> n = 4 \<and> (None, as_ptr t) \<notin> pages k \<and> pages k' = insert (None, as_ptr t) (pages k) \<and>
      pages_ok pages heap k' \<and> frame F pages heap k k' (overwrite (mem_read F k) ?sp ?a (u32_bytes bp)) \<and>
      read_bytes F k' None (as_ptr t) 4 = read_bytes F k ?sp ?a 4 \<and>
      read_bytes F k' None (as_ptr t) (4 + length (u32_bytes brk)) = read_bytes F k ?sp ?a 4 @ u32_bytes brk"
    by (intro exI [of _ t]) simp
qed

section \<open>AArch64\<close>

definition arm_saved :: "'k aux_ops \<Rightarrow> 'k \<Rightarrow> AArch64ProbePoint \<Rightarrow> u8 list" where
  "arm_saved F k p = read_bytes F k None (as_ptr (ap_old_instruction_ptr p)) BRK64_INST_LEN"

lemma arm_replace_word:
  "arm_replace_inst F = word_replace_inst F arm_validate_instruction BRK64_OPCODE_KPROBES BRK64_OPCODE_KPROBES_SS
     (\<lambda>a t sp. \<lparr>ap_addr = a, ap_old_instruction_ptr = t, ap_user_pid = sp, ap_dynamic_user_ptr = 0\<rparr>)"
  by (simp add: fun_eq_iff arm_replace_inst_def word_replace_inst_def BRK64_INST_LEN_def probe_addr_def Let_def split: prod.split sum.split)

lemma arm_brk_refused: "\<not> is_ok (arm_validate_instruction BRK64_OPCODE_KPROBES)"
  by (simp add: arm_validate_instruction_def)

lemma arm_probe_arch:
  assumes aux: "aux_laws F pages heap room"
  shows "probe_arch F (arm_arch F trampoline) pages heap room (word_ilen arm_validate_instruction)
    (\<lambda>_. u32_bytes BRK64_OPCODE_KPROBES) (\<lambda>_. u32_bytes BRK64_OPCODE_KPROBES_SS) (arm_saved F)"
proof (unfold_locales, goal_cases)
  case (1 m a n)
  then show ?case by (simp add: word_ilen_def split: if_splits)
next
  case (2 m a n m')
  show ?case by (rule word_ilen_prefix [OF 2])
next
  case (3 m a n)
  then show ?case by (simp add: word_ilen_def split: if_splits)
next
  case (4 m a n m')
  show ?case by (rule word_patch_refused [where bp = BRK64_OPCODE_KPROBES]) (rule arm_brk_refused, rule 4(2))
next
  case (5 p)
  show ?case by (simp add: arm_arch_def arm_return_address_def)
next
  case (6 p)
  show ?case by (simp add: arm_arch_def arm_debug_address_def arm_single_step_address_def)
next
  case (7 p)
  show ?case by (simp add: arm_arch_def arm_instruction_slot_len_def arm_original_instruction_len_def BRK64_INST_LEN_def)
next
  case (8 n)
  show ?case by simp
next
  case (9 p ptr p' d)
  then show ?case by (auto simp: arm_arch_def arm_set_dynamic_user_ptr_def arm_single_step_address_def arm_saved_def arm_original_instruction_len_def)
next
  case (10 k b r k')
  then show ?case using word_replace(1) [OF aux] by (simp add: arm_arch_def arm_replace_word)
next
  case (11 k b r k' n)
  then have "word_replace_inst F arm_validate_instruction BRK64_OPCODE_KPROBES BRK64_OPCODE_KPROBES_SS
    (\<lambda>a t sp. \<lparr>ap_addr = a, ap_old_instruction_ptr = t, ap_user_pid = sp, ap_dynamic_user_ptr = 0\<rparr>) k b = (r, k')"
    by (simp add: arm_arch_def arm_replace_word)
  from word_replace(2) [OF aux 11(2,3,4) this 11(5)] obtain t where
    "r = Ok \<lparr>ap_addr = probe_addr b, ap_old_instruction_ptr = t, ap_user_pid = bd_user_pid b, ap_dynamic_user_ptr = 0\<rparr>"
    "n = 4" "(None, as_ptr t) \<notin> pages k" "pages k' = insert (None, as_ptr t) (pages k)" "pages_ok pages heap k'"
    "frame F pages heap k k' (overwrite (mem_read F k) (bd_user_pid b) (probe_addr b) (u32_bytes BRK64_OPCODE_KPROBES))"
    "read_bytes F k' None (as_ptr t) 4 = read_bytes F k (bd_user_pid b) (probe_addr b) 4"
    "read_bytes F k' None (as_ptr t) (4 + length (u32_bytes BRK64_OPCODE_KPROBES_SS)) =
      read_bytes F k (bd_user_pid b) (probe_addr b) 4 @ u32_bytes BRK64_OPCODE_KPROBES_SS" by blast
  then show ?case
    by (simp add: arm_arch_def arm_original_instruction_len_def arm_single_step_address_def arm_saved_def BRK64_INST_LEN_def)
next
  case (12 p k)
  then have "region (ap_addr p) 4 \<inter> heap (ap_user_pid p) = {}"
    using region_mono [of 4 15 "ap_addr p"] by (auto simp: arm_arch_def)
  then have out: "region (ap_addr p) (length (arm_saved F k p)) \<inter> heap (ar_pid (arm_arch F trampoline) p) = {}"
    by (simp add: arm_arch_def arm_drop_point_def arm_saved_def arm_single_step_address_def BRK64_INST_LEN_def)
  have k': "ar_drop_point (arm_arch F trampoline) k p = drop_exec_memory F
      (if ar_dynamic_user_ptr (arm_arch F trampoline) p \<noteq> 0
       then free_user F (mem_write F k (ar_pid (arm_arch F trampoline) p) (ap_addr p) (arm_saved F k p)) (ar_pid (arm_arch F trampoline) p)
         (ar_dynamic_user_ptr (arm_arch F trampoline) p)
       else mem_write F k (ar_pid (arm_arch F trampoline) p) (ap_addr p) (arm_saved F k p)) (ap_old_instruction_ptr p)"
    by (simp add: arm_arch_def arm_drop_point_def arm_saved_def arm_single_step_address_def BRK64_INST_LEN_def Let_def)
  have slot: "ar_single_step_address (arm_arch F trampoline) p = as_ptr (ap_old_instruction_ptr p)"
    "ar_break_address (arm_arch F trampoline) p = ap_addr p" by (simp_all add: arm_arch_def arm_single_step_address_def)
  show ?case using dropped_point [OF aux 12(2,1) slot(1) out k'] by (simp add: slot(2))
next
  case (13 p k' k)
  have "bytes_at (mem_read F k' None) (as_ptr (ap_old_instruction_ptr p)) 4 = bytes_at (mem_read F k None) (as_ptr (ap_old_instruction_ptr p)) 4"
    using 13(2) region_mono [of 4 4096 "as_ptr (ap_old_instruction_ptr p)"]
    by (intro bytes_at_cong) (auto simp: arm_arch_def arm_single_step_address_def)
  then show ?case by (simp add: arm_saved_def read_bytes_at BRK64_INST_LEN_def)
next
  case (14 k p)
  show ?case by (simp add: arm_arch_def arm_saved_def arm_original_instruction_len_def)
qed

section \<open>LoongArch64\<close>

definition la_saved :: "'k aux_ops \<Rightarrow> 'k \<Rightarrow> LA64ProbePoint \<Rightarrow> u8 list" where
  "la_saved F k p = read_bytes F k None (as_ptr (lp_old_instruction_ptr p)) EBREAK_INST_LEN"

lemma la_replace_word:
  "la_replace_inst F = word_replace_inst F la_validate_instruction LA_EBREAK_INST LA_EBREAK_INST
     (\<lambda>a t sp. \<lparr>lp_addr = a, lp_old_instruction_ptr = t, lp_user_pid = sp, lp_dynamic_user_ptr = 0\<rparr>)"
  by (simp add: fun_eq_iff la_replace_inst_def word_replace_inst_def EBREAK_INST_LEN_def probe_addr_def Let_def split: prod.split sum.split)

lemma la_brk_refused: "\<not> is_ok (la_validate_instruction LA_EBREAK_INST)"
  by (simp add: la_validate_instruction_def)

lemma la_probe_arch:
  assumes aux: "aux_laws F pages heap room"
  shows "probe_arch F (la_arch F trampoline) pages heap room (word_ilen la_validate_instruction)
    (\<lambda>_. u32_bytes LA_EBREAK_INST) (\<lambda>_. u32_bytes LA_EBREAK_INST) (la_saved F)"
proof (unfold_locales, goal_cases)
  case (1 m a n)
  then show ?case by (simp add: word_ilen_def split: if_splits)
next
  case (2 m a n m')
  show ?case by (rule word_ilen_prefix [OF 2])
next
  case (3 m a n)
  then show ?case by (simp add: word_ilen_def split: if_splits)
next
  case (4 m a n m')
  show ?case by (rule word_patch_refused [where bp = LA_EBREAK_INST]) (rule la_brk_refused, rule 4(2))
next
  case (5 p)
  show ?case by (simp add: la_arch_def la_return_address_def)
next
  case (6 p)
  show ?case by (simp add: la_arch_def la_debug_address_def la_single_step_address_def)
next
  case (7 p)
  show ?case by (simp add: la_arch_def la_instruction_slot_len_def la_original_instruction_len_def EBREAK_INST_LEN_def)
next
  case (8 n)
  show ?case by simp
next
  case (9 p ptr p' d)
  then show ?case by (auto simp: la_arch_def la_set_dynamic_user_ptr_def la_single_step_address_def la_saved_def la_original_instruction_len_def)
next
  case (10 k b r k')
  then show ?case using word_replace(1) [OF aux] by (simp add: la_arch_def la_replace_word)
next
  case (11 k b r k' n)
  then have "word_replace_inst F la_validate_instruction LA_EBREAK_INST LA_EBREAK_INST
    (\<lambda>a t sp. \<lparr>lp_addr = a, lp_old_instruction_ptr = t, lp_user_pid = sp, lp_dynamic_user_ptr = 0\<rparr>) k b = (r, k')"
    by (simp add: la_arch_def la_replace_word)
  from word_replace(2) [OF aux 11(2,3,4) this 11(5)] obtain t where
    "r = Ok \<lparr>lp_addr = probe_addr b, lp_old_instruction_ptr = t, lp_user_pid = bd_user_pid b, lp_dynamic_user_ptr = 0\<rparr>"
    "n = 4" "(None, as_ptr t) \<notin> pages k" "pages k' = insert (None, as_ptr t) (pages k)" "pages_ok pages heap k'"
    "frame F pages heap k k' (overwrite (mem_read F k) (bd_user_pid b) (probe_addr b) (u32_bytes LA_EBREAK_INST))"
    "read_bytes F k' None (as_ptr t) 4 = read_bytes F k (bd_user_pid b) (probe_addr b) 4"
    "read_bytes F k' None (as_ptr t) (4 + length (u32_bytes LA_EBREAK_INST)) =
      read_bytes F k (bd_user_pid b) (probe_addr b) 4 @ u32_bytes LA_EBREAK_INST" by blast
  then show ?case
    by (simp add: la_arch_def la_original_instruction_len_def la_single_step_address_def la_saved_def EBREAK_INST_LEN_def)
next
  case (12 p k)
  then have "region (lp_addr p) 4 \<inter> heap (lp_user_pid p) = {}"
    using region_mono [of 4 15 "lp_addr p"] by (auto simp: la_arch_def)
  then have out: "region (lp_addr p) (length (la_saved F k p)) \<inter> heap (ar_pid (la_arch F trampoline) p) = {}"
    by (simp add: la_arch_def la_drop_point_def la_saved_def la_single_step_address_def EBREAK_INST_LEN_def)
  have k': "ar_drop_point (la_arch F trampoline) k p = drop_exec_memory F
      (if ar_dynamic_user_ptr (la_arch F trampoline) p \<noteq> 0
       then free_user F (mem_write F k (ar_pid (la_arch F trampoline) p) (lp_addr p) (la_saved F k p)) (ar_pid (la_arch F trampoline) p)
         (ar_dynamic_user_ptr (la_arch F trampoline) p)
       else mem_write F k (ar_pid (la_arch F trampoline) p) (lp_addr p) (la_saved F k p)) (lp_old_instruction_ptr p)"
    by (simp add: la_arch_def la_drop_point_def la_saved_def la_single_step_address_def EBREAK_INST_LEN_def Let_def)
  have slot: "ar_single_step_address (la_arch F trampoline) p = as_ptr (lp_old_instruction_ptr p)"
    "ar_break_address (la_arch F trampoline) p = lp_addr p" by (simp_all add: la_arch_def la_single_step_address_def)
  show ?case using dropped_point [OF aux 12(2,1) slot(1) out k'] by (simp add: slot(2))
next
  case (13 p k' k)
  have "bytes_at (mem_read F k' None) (as_ptr (lp_old_instruction_ptr p)) 4 = bytes_at (mem_read F k None) (as_ptr (lp_old_instruction_ptr p)) 4"
    using 13(2) region_mono [of 4 4096 "as_ptr (lp_old_instruction_ptr p)"]
    by (intro bytes_at_cong) (auto simp: la_arch_def la_single_step_address_def)
  then show ?case by (simp add: la_saved_def read_bytes_at EBREAK_INST_LEN_def)
next
  case (14 k p)
  show ?case by (simp add: la_arch_def la_saved_def la_original_instruction_len_def)
qed

section \<open>RISC-V\<close>

definition rv64_ilen :: "(usize \<Rightarrow> u8) \<Rightarrow> usize \<Rightarrow> nat option" where
  "rv64_ilen m a =
     (let half = u16_of (bytes_at m a 2) in
      if a AND 1 \<noteq> 0 then None
      else if half AND 3 \<noteq> 3 then (if is_ok (validate_inst16 half) then Some 2 else None)
      else if a AND 3 = 0 \<and> is_ok (validate_inst32 (u32_of (bytes_at m a 4))) then Some 4 else None)"

definition rv64_patch :: "nat \<Rightarrow> u8 list" where
  "rv64_patch n = (if n = 2 then u16_bytes (ucast C_EBREAK_INST) else u32_bytes RV_EBREAK_INST)"

definition rv64_saved :: "'k \<Rightarrow> Rv64ProbePoint \<Rightarrow> u8 list" where
  "rv64_saved k p = (case rv_old_instruction p of Inst16 i \<Rightarrow> u16_bytes i | Inst32 i \<Rightarrow> u32_bytes i)"

lemma rv64_ilen_cases: "rv64_ilen m a = Some n \<Longrightarrow> n = 2 \<or> n = 4"
  by (auto simp: rv64_ilen_def Let_def split: if_splits)

lemma rv64_ilen_prefix:
  assumes "rv64_ilen m a = Some n" "\<And>x. x \<in> region a n \<Longrightarrow> m' x = m x"
  shows "rv64_ilen m' a = Some n"
proof -
  have "x \<in> region a n" if "x \<in> region a 2" for x
    using rv64_ilen_cases [OF assms(1)] that by (auto simp: region_def)
  then have two: "bytes_at m' a 2 = bytes_at m a 2" using assms(2) by (intro bytes_at_cong) auto
  have "n = 4 \<Longrightarrow> bytes_at m' a 4 = bytes_at m a 4" using assms(2) by (intro bytes_at_cong) auto
  with two assms(1) show ?thesis by (auto simp: rv64_ilen_def Let_def split: if_splits)
qed

lemma rv64_patch_refused:
  assumes "rv64_ilen m a = Some n" "\<And>x. x \<in> region a (length (rv64_patch n)) \<Longrightarrow> m' x = rv64_patch n ! unat (x - a)"
  shows "rv64_ilen m' a = None"
proof -
  have at: "bytes_at m' a (length (rv64_patch n)) = rv64_patch n"
    by (rule bytes_at_eq) (use assms(2) in \<open>simp_all add: rv64_patch_def\<close>)
  from rv64_ilen_cases [OF assms(1)] show ?thesis
  proof
    assume "n = 2"
    then have "u16_of (bytes_at m' a 2) = ucast C_EBREAK_INST" using at by (simp add: rv64_patch_def u16_of_bytes)
    then show ?thesis by (simp add: rv64_ilen_def C_EBREAK_INST_def validate_inst16_def)
  next
    assume "n = 4"
    then have four: "bytes_at m' a 4 = u32_bytes RV_EBREAK_INST" using at by (simp add: rv64_patch_def)
    then have "bytes_at m' a 2 = take 2 (u32_bytes RV_EBREAK_INST)" using take_bytes_at [of 2 4 m' a] by simp
    then have "u16_of (bytes_at m' a 2) = 0x73" by (simp add: u32_bytes_def RV_EBREAK_INST_def u16_of_def)
    with four show ?thesis by (simp add: rv64_ilen_def u32_of_bytes validate_inst32_def RV_EBREAK_INST_def)
  qed
qed

lemma rv64_replace:
  assumes aux: "aux_laws F pages heap room" and ok: "pages_ok pages heap k" and room: "room k"
    and out: "region (probe_addr b) 15 \<inter> heap (bd_user_pid b) = {}"
    and run: "rv64_replace_inst F k b = (r, k')"
  shows "rv64_ilen (mem_read F k (bd_user_pid b)) (probe_addr b) = None \<Longrightarrow>
      (\<exists>e. r = Err e) \<and> pages k' = pages k \<and> frame F pages heap k k' (mem_read F k)"
    and "rv64_ilen (mem_read F k (bd_user_pid b)) (probe_addr b) = Some n \<Longrightarrow>
      \<exists>p. r = Ok p \<and> rv_addr p = probe_addr b \<and> rv64_original_instruction_len p = n \<and>
        rv_user_pid p = bd_user_pid b \<and> rv_dynamic_user_ptr p = 0 \<and>
        (None, rv64_single_step_address p) \<notin> pages k \<and>
        pages k' = insert (None, rv64_single_step_address p) (pages k) \<and> pages_ok pages heap k' \<and>
        frame F pages heap k k' (overwrite (mem_read F k) (bd_user_pid b) (probe_addr b) (rv64_patch n)) \<and>
        rv64_saved k' p = read_bytes F k (bd_user_pid b) (probe_addr b) n \<and>
        read_bytes F k' None (rv64_single_step_address p) (n + length (rv64_patch n)) =
          read_bytes F k (bd_user_pid b) (probe_addr b) n @ rv64_patch n"
proof -
  let ?sp = "bd_user_pid b" and ?a = "probe_addr b"
  let ?h = "u16_of (read_bytes F k ?sp ?a 2)" and ?w = "u32_of (read_bytes F k ?sp ?a 4)"
  obtain t k1 where t: "alloc_exec_memory F k ?sp = (t, k1)" by fastforce
  note fresh = aux_alloc_exec [OF aux room t]
  have out2: "region ?a 2 \<inter> heap ?sp = {}" using out region_mono [of 2 15 ?a] by auto
  have out4: "region ?a 4 \<inter> heap ?sp = {}" using out region_mono [of 4 15 ?a] by auto
  have rd: "read_bytes F k1 ?sp ?a 4 = read_bytes F k ?sp ?a 4" by (rule fresh_read [OF fresh out4]) simp
  note refused = refused_frame [OF aux ok fresh refl refl]
  note defs = rv64_replace_inst_def probe_addr_def [symmetric] t rd Let_def INSN_LENGTH_MASK_def INSN_LENGTH_32_def
  {
    assume none: "rv64_ilen (mem_read F k ?sp) ?a = None"
    have "(\<exists>e. r = Err e) \<and> (k' = k \<or> k' = drop_exec_memory F k1 t)"
      using none run unfolding rv64_ilen_def Let_def read_bytes_at [symmetric]
      by (auto simp: defs split: if_splits sum.splits)
    then show "(\<exists>e. r = Err e) \<and> pages k' = pages k \<and> frame F pages heap k k' (mem_read F k)"
      using refused by (auto simp: frame_def)
  }
  assume some: "rv64_ilen (mem_read F k ?sp) ?a = Some n"
  let ?claim = "\<lambda>p. r = Ok p \<and> rv_addr p = ?a \<and> rv64_original_instruction_len p = n \<and> rv_user_pid p = ?sp \<and>
    rv_dynamic_user_ptr p = 0 \<and> (None, rv64_single_step_address p) \<notin> pages k \<and>
    pages k' = insert (None, rv64_single_step_address p) (pages k) \<and> pages_ok pages heap k' \<and>
    frame F pages heap k k' (overwrite (mem_read F k) ?sp ?a (rv64_patch n)) \<and>
    rv64_saved k' p = read_bytes F k ?sp ?a n \<and>
    read_bytes F k' None (rv64_single_step_address p) (n + length (rv64_patch n)) = read_bytes F k ?sp ?a n @ rv64_patch n"
  note point = rv64_original_instruction_len_def rv64_single_step_address_def rv64_saved_def rv64_patch_def
  show "\<exists>p. ?claim p"
  proof (cases "?h AND 3 = 3")
    case False
    then have n: "n = 2" "?a AND 1 = 0" "is_ok (validate_inst16 ?h)"
      using some by (auto simp: rv64_ilen_def Let_def read_bytes_at split: if_splits)
    then obtain u where u: "validate_inst16 ?h = Ok u" by (cases "validate_inst16 ?h") auto
    let ?p = "\<lparr>rv_addr = ?a, rv_old_instruction = Inst16 ?h, rv_old_instruction_ptr = t, rv_user_pid = ?sp, rv_dynamic_user_ptr = 0\<rparr>"
    have r: "r = Ok ?p" and k': "k' = mem_write F (mem_write F (mem_write F k1 ?sp ?a (u16_bytes (ucast C_EBREAK_INST))) None (as_ptr t)
        (u16_bytes ?h)) None (as_ptr t + of_nat 2) (u16_bytes (ucast C_EBREAK_INST))"
      using run n u False by (simp_all add: defs)
    have "u16_bytes ?h = read_bytes F k ?sp ?a 2" by (rule bytes_u16_of) simp
    with slot_install [OF aux ok fresh out2 _ _ _ _ k'] r n have "?claim ?p" by (simp add: point)
    then show ?thesis by (rule exI [of ?claim])
  next
    case True
    then have n: "n = 4" "?a AND 1 = 0" "?a AND 3 = 0" "is_ok (validate_inst32 ?w)"
      using some by (auto simp: rv64_ilen_def Let_def read_bytes_at split: if_splits)
    then obtain u where u: "validate_inst32 ?w = Ok u" by (cases "validate_inst32 ?w") auto
    let ?p = "\<lparr>rv_addr = ?a, rv_old_instruction = Inst32 ?w, rv_old_instruction_ptr = t, rv_user_pid = ?sp, rv_dynamic_user_ptr = 0\<rparr>"
    have r: "r = Ok ?p" and k': "k' = mem_write F (mem_write F (mem_write F k1 ?sp ?a (u32_bytes RV_EBREAK_INST)) None (as_ptr t)
        (u32_bytes ?w)) None (as_ptr t + of_nat 4) (u32_bytes RV_EBREAK_INST)"
      using run n u True by (simp_all add: defs)
    have "u32_bytes ?w = read_bytes F k ?sp ?a 4" by (rule bytes_u32_of) simp
    with slot_install [OF aux ok fresh out4 _ _ _ _ k'] r n have "?claim ?p" by (simp add: point)
    then show ?thesis by (rule exI [of ?claim])
  qed
qed

lemma rv64_probe_arch:
  assumes aux: "aux_laws F pages heap room"
  shows "probe_arch F (rv64_arch F trampoline) pages heap room rv64_ilen rv64_patch rv64_patch rv64_saved"
proof (unfold_locales, goal_cases)
  case (1 m a n)
  then show ?case by (auto dest: rv64_ilen_cases)
next
  case (2 m a n m')
  show ?case by (rule rv64_ilen_prefix [OF 2])
next
  case (3 m a n)
  then show ?case by (auto dest: rv64_ilen_cases simp: rv64_patch_def u16_bytes_def u32_bytes_def)
next
  case (4 m a n m')
  show ?case by (rule rv64_patch_refused [OF 4])
next
  case (5 p)
  show ?case by (simp add: rv64_arch_def rv64_return_address_def)
next
  case (6 p)
  show ?case by (simp add: rv64_arch_def rv64_debug_address_def rv64_single_step_address_def)
next
  case (7 p)
  show ?case by (simp add: rv64_arch_def rv64_instruction_slot_len_def rv64_original_instruction_len_def rv64_patch_def split: OpcodeTy.split)
next
  case (8 n)
  show ?case by (simp add: rv64_patch_def)
next
  case (9 p ptr p' d)
  then show ?case by (auto simp: rv64_arch_def rv64_set_dynamic_user_ptr_def rv64_single_step_address_def rv64_saved_def rv64_original_instruction_len_def)
next
  case (10 k b r k')
  then show ?case using rv64_replace(1) [OF aux] by (simp add: rv64_arch_def)
next
  case (11 k b r k' n)
  then show ?case using rv64_replace(2) [OF aux] by (simp add: rv64_arch_def)
next
  case (12 p k)
  have "region (rv_addr p) (length (rv64_saved k p)) \<subseteq> region (rv_addr p) 15"
    by (rule region_mono) (simp add: rv64_saved_def split: OpcodeTy.split)
  then have "region (rv_addr p) (length (rv64_saved k p)) \<inter> heap (rv_user_pid p) = {}" using 12 by (auto simp: rv64_arch_def)
  then have out: "region (rv_addr p) (length (rv64_saved k p)) \<inter> heap (ar_pid (rv64_arch F trampoline) p) = {}"
    by (simp add: rv64_arch_def rv64_drop_point_def rv64_saved_def rv64_single_step_address_def)
  have k': "ar_drop_point (rv64_arch F trampoline) k p = drop_exec_memory F
      (if ar_dynamic_user_ptr (rv64_arch F trampoline) p \<noteq> 0
       then free_user F (mem_write F k (ar_pid (rv64_arch F trampoline) p) (rv_addr p) (rv64_saved k p)) (ar_pid (rv64_arch F trampoline) p)
         (ar_dynamic_user_ptr (rv64_arch F trampoline) p)
       else mem_write F k (ar_pid (rv64_arch F trampoline) p) (rv_addr p) (rv64_saved k p)) (rv_old_instruction_ptr p)"
    by (simp add: rv64_arch_def rv64_drop_point_def rv64_saved_def rv64_single_step_address_def Let_def split: OpcodeTy.splits)
  have slot: "ar_single_step_address (rv64_arch F trampoline) p = as_ptr (rv_old_instruction_ptr p)"
    "ar_break_address (rv64_arch F trampoline) p = rv_addr p" by (simp_all add: rv64_arch_def rv64_single_step_address_def)
  show ?case using dropped_point [OF aux 12(2,1) slot(1) out k'] by (simp add: slot(2))
next
  case (13 p k' k)
  show ?case by (simp add: rv64_saved_def)
next
  case (14 k p)
  show ?case by (simp add: rv64_arch_def rv64_saved_def rv64_original_instruction_len_def split: OpcodeTy.split)
qed

end
