(* ===== verification/ProbeKernel.thy ===== *)
theory ProbeKernel
  imports ProbeReturn ProbeArchs
begin

text \<open>
  The probe subsystem on its four architectures: for every kernel that keeps the laws of its memory
  and tasks, each architecture gives the contracts of the manager, of the traps and of the return
  hooks.
\<close>

section \<open>Hooks of the architectures\<close>

lemma word_of_bytes: "bytes_word (word_bytes v) = v"
proof (rule bit_word_eqI)
  fix n assume "n < LENGTH(64)"
  then have n: "n < 64" by simp
  have bytes: "word_bytes v = [ucast v, ucast (drop_bit 8 v), ucast (drop_bit 16 v), ucast (drop_bit 24 v),
      ucast (drop_bit 32 v), ucast (drop_bit 40 v), ucast (drop_bit 48 v), ucast (drop_bit 56 v)]"
    by (simp add: word_bytes_def upt_rec)
  consider "n < 8" | "8 \<le> n" "n < 16" | "16 \<le> n" "n < 24" | "24 \<le> n" "n < 32"
    | "32 \<le> n" "n < 40" | "40 \<le> n" "n < 48" | "48 \<le> n" "n < 56" | "56 \<le> n" by linarith
  then show "bit (bytes_word (word_bytes v)) n = bit v n"
    unfolding bytes using n by cases (simp_all add: bytes_word_def bit_simps less_diff_conv2)
qed

lemma length_word_bytes [simp]: "length (word_bytes v) = 8"
  by (simp add: word_bytes_def)

definition x86_stack :: "X86PtRegs \<Rightarrow> usize set" where "x86_stack regs = region (rsp regs) 8"
definition x86_fixup :: "usize \<Rightarrow> usize set" where "x86_fixup regs_ptr = region (x86_regs_end regs_ptr) 8"

definition x86_ret_of :: "'k aux_ops \<Rightarrow> 'k \<Rightarrow> X86PtRegs \<Rightarrow> usize" where
  "x86_ret_of F k regs = bytes_word (read_bytes F k None (rsp regs) 8)"

text \<open>On the other architectures the return address is in a register.\<close>

abbreviation no_stack :: "'a \<Rightarrow> usize set" where "no_stack \<equiv> \<lambda>_. {}"

lemma write_touches:
  "aux_laws F pages heap room \<Longrightarrow> touches F pages (region a (length bs)) k (mem_write F k None a bs)"
  by (auto simp: touches_def aux_write aux_write_pages)

lemma read_written:
  assumes "aux_laws F pages heap room" "length bs \<le> 4096"
  shows "read_bytes F (mem_write F k sp a bs) sp a (length bs) = bs"
proof (rule nth_equalityI)
  fix i assume "i < length (read_bytes F (mem_write F k sp a bs) sp a (length bs))"
  then have "i < length bs" "i < 2 ^ 64" using assms(2) by auto
  then show "read_bytes F (mem_write F k sp a bs) sp a (length bs) ! i = bs ! i"
    by (simp add: aux_write [OF assms(1)] offset_in_region unat_of_nat_small)
qed simp

text \<open>
  The registers of a task that is to execute one instruction at \<open>a\<close>, and of one that goes on at
  \<open>a\<close>: x86 has a trap flag, bit 8 of the flags; the other architectures run into the breakpoint
  behind the instruction.
\<close>

definition x86_step_to :: "X86PtRegs \<Rightarrow> usize \<Rightarrow> X86PtRegs" where
  "x86_step_to regs a = regs\<lparr>rip := a, rflags := set_bit 8 (rflags regs)\<rparr>"

definition x86_step_off :: "X86PtRegs \<Rightarrow> usize \<Rightarrow> X86PtRegs" where
  "x86_step_off regs a = regs\<lparr>rip := a, rflags := unset_bit 8 (rflags regs)\<rparr>"

abbreviation rv64_go :: "Rv64PtRegs \<Rightarrow> usize \<Rightarrow> Rv64PtRegs" where "rv64_go regs a \<equiv> regs\<lparr>rv_epc := a\<rparr>"
abbreviation arm_go :: "AArch64PtRegs \<Rightarrow> usize \<Rightarrow> AArch64PtRegs" where "arm_go regs a \<equiv> regs\<lparr>arm_pc := a\<rparr>"
abbreviation la_go :: "LA64PtRegs \<Rightarrow> usize \<Rightarrow> LA64PtRegs" where "la_go regs a \<equiv> regs\<lparr>la_csr_era := a\<rparr>"

lemma trap_flag: "w OR 0x100 = set_bit 8 w" "w AND - 257 = unset_bit 8 w" for w :: u64
proof -
  have flag: "(0x100 :: u64) = push_bit 8 1" "(- 257 :: u64) = NOT (push_bit 8 1)" by simp_all
  show "w OR 0x100 = set_bit 8 w" "w AND - 257 = unset_bit 8 w"
    unfolding flag set_bit_eq_or unset_bit_eq_and_not by (rule refl)+
qed

text \<open>The bytes of a breakpoint, in the text and behind an instruction in a slot.\<close>

abbreviation arm_patch :: "nat \<Rightarrow> u8 list" where "arm_patch \<equiv> \<lambda>_. u32_bytes BRK64_OPCODE_KPROBES"
abbreviation arm_trail :: "nat \<Rightarrow> u8 list" where "arm_trail \<equiv> \<lambda>_. u32_bytes BRK64_OPCODE_KPROBES_SS"
abbreviation la_patch :: "nat \<Rightarrow> u8 list" where "la_patch \<equiv> \<lambda>_. u32_bytes LA_EBREAK_INST"
abbreviation x86_trail :: "nat \<Rightarrow> u8 list" where "x86_trail \<equiv> \<lambda>_. []"

text \<open>On x86 the task returns through the word behind the saved registers.\<close>

definition x86_fixed :: "'k aux_ops \<Rightarrow> 'k \<Rightarrow> usize \<Rightarrow> usize \<Rightarrow> bool" where
  "x86_fixed F k ptr ret \<longleftrightarrow> bytes_word (read_bytes F k None (x86_regs_end ptr) 8) = ret"

abbreviation no_fixup :: "'k \<Rightarrow> usize \<Rightarrow> usize \<Rightarrow> bool" where "no_fixup \<equiv> \<lambda>_ _ _. True"

abbreviation arm_ilen :: "(usize \<Rightarrow> u8) \<Rightarrow> usize \<Rightarrow> nat option" where "arm_ilen \<equiv> word_ilen arm_validate_instruction"
abbreviation la_ilen :: "(usize \<Rightarrow> u8) \<Rightarrow> usize \<Rightarrow> nat option" where "la_ilen \<equiv> word_ilen la_validate_instruction"

section \<open>The kernel as an interface\<close>

locale probe_kernel =
  fixes F :: "'k aux_ops"
    and pages :: "'k \<Rightarrow> (space \<times> usize) set"
    and heap :: "space \<Rightarrow> usize set"
    and room :: "'k \<Rightarrow> bool"
    and decode :: "u8 list \<Rightarrow> x86_inst option"
    and trampoline :: usize
  assumes aux: "aux_laws F pages heap room" and task: "task_laws F pages" and dec: "decode_laws decode"
begin

lemma instance_touches:
  "touches F pages T k (push_instance F k i)" "pop_instance F k = Some (i, k') \<Longrightarrow> touches F pages T k k'"
  "pop_instance F (push_instance F k i) = Some (i, k)"
  using task by (auto simp: task_laws_def touches_def)

end

sublocale probe_kernel \<subseteq> x86: probe_run F "x86_arch F decode trampoline" pages heap room "x86_ilen decode" x86_patch
  x86_trail "x86_saved F" x86_stack x86_fixup x86_step_to x86_step_off
proof (intro probe_run.intro x86_probe_arch [OF aux dec], unfold_locales, goal_cases)
  case (3 k inst regs inst' regs' k')
  then show ?case
    using write_touches [OF aux, of "rsp regs" "word_bytes trampoline" k]
    by (auto simp: x86_arch_def x86_rethook_prepare_def x86_stack_def Let_def)
next
  case (4 ptr k ret)
  then show ?case
    using write_touches [OF aux, of "x86_regs_end ptr" "word_bytes ret" k]
    by (simp add: x86_arch_def x86_rethook_fixup_return_def x86_fixup_def)
qed (auto simp: instance_touches aux x86_arch_def x86_reg_debug_address_def x86_setup_single_step_def
  x86_clear_single_step_def x86_set_single_step_def x86_update_pc_def x86_step_to_def x86_step_off_def trap_flag)

sublocale probe_kernel \<subseteq> x86_ret: return_hooks F "x86_arch F decode trampoline" pages heap room "x86_ilen decode" x86_patch
  x86_trail "x86_saved F" x86_stack x86_fixup x86_step_to x86_step_off "x86_ret_of F" rsp "x86_fixed F" trampoline "\<lambda>_. True"
proof (unfold_locales, goal_cases)
  case (1 k inst regs inst' regs' k')
  then show ?case
    using read_written [OF aux, of "word_bytes trampoline" k None "rsp regs"]
    by (auto simp: x86_arch_def x86_rethook_prepare_def x86_ret_of_def word_of_bytes Let_def)
next
  case (3 k ptr ret)
  show ?case
    using read_written [OF aux, of "word_bytes ret" k None "x86_regs_end ptr"]
    by (simp add: x86_arch_def x86_rethook_fixup_return_def x86_fixed_def word_of_bytes)
qed (auto simp: x86_ret_of_def read_bytes_def instance_touches)

sublocale probe_kernel \<subseteq> rv64: probe_run F "rv64_arch F trampoline" pages heap room rv64_ilen rv64_patch rv64_patch rv64_saved
  no_stack no_stack rv64_go rv64_go
  by (intro probe_run.intro rv64_probe_arch [OF aux], unfold_locales)
     (auto simp: instance_touches aux rv64_arch_def rv64_rethook_prepare_def rv64_rethook_fixup_return_def
       rv64_reg_debug_address_def rv64_break_address_def rv64_setup_single_step_def rv64_clear_single_step_def rv64_update_pc_def)

sublocale probe_kernel \<subseteq> rv64_ret: return_hooks F "rv64_arch F trampoline" pages heap room rv64_ilen rv64_patch rv64_patch
  rv64_saved no_stack no_stack rv64_go rv64_go "\<lambda>_. rv_ra" rv_s0 no_fixup trampoline "\<lambda>_. True"
  by unfold_locales (auto simp: rv64_arch_def rv64_rethook_prepare_def instance_touches)

sublocale probe_kernel \<subseteq> arm: probe_run F "arm_arch F trampoline" pages heap room arm_ilen arm_patch arm_trail "arm_saved F"
  no_stack no_stack arm_go arm_go
  by (intro probe_run.intro arm_probe_arch [OF aux], unfold_locales)
     (auto simp: instance_touches aux arm_arch_def arm_rethook_prepare_def arm_rethook_fixup_return_def
       arm_reg_debug_address_def arm_break_address_def arm_setup_single_step_def arm_clear_single_step_def arm_update_pc_def)

sublocale probe_kernel \<subseteq> arm_ret: return_hooks F "arm_arch F trampoline" pages heap room arm_ilen arm_patch arm_trail
  "arm_saved F" no_stack no_stack arm_go arm_go "\<lambda>_ regs. arm_regs regs ! 30" "\<lambda>regs. arm_regs regs ! 29" no_fixup trampoline
  "\<lambda>regs. length (arm_regs regs) = 31"
  by unfold_locales (auto simp: arm_arch_def arm_rethook_prepare_def instance_touches)

sublocale probe_kernel \<subseteq> la: probe_run F "la_arch F trampoline" pages heap room la_ilen la_patch la_patch "la_saved F"
  no_stack no_stack la_go la_go
  by (intro probe_run.intro la_probe_arch [OF aux], unfold_locales)
     (auto simp: instance_touches aux la_arch_def la_rethook_prepare_def la_rethook_fixup_return_def
       la_reg_debug_address_def la_break_address_def la_setup_single_step_def la_clear_single_step_def la_update_pc_def)

sublocale probe_kernel \<subseteq> la_ret: return_hooks F "la_arch F trampoline" pages heap room la_ilen la_patch la_patch "la_saved F"
  no_stack no_stack la_go la_go "\<lambda>_ regs. la_regs regs ! 1" "\<lambda>_. 0" no_fixup trampoline "\<lambda>regs. length (la_regs regs) = 32"
  by unfold_locales (auto simp: la_arch_def la_rethook_prepare_def instance_touches)

text \<open>What the contracts give on each architecture.\<close>

context probe_kernel
begin

lemmas x86_history_inv = x86.history_inv
lemmas x86_history_traps = x86.history_traps
lemmas x86_history_returns = x86_ret.history_returns
lemmas rv64_history_inv = rv64.history_inv
lemmas rv64_history_traps = rv64.history_traps
lemmas rv64_history_returns = rv64_ret.history_returns
lemmas arm_history_inv = arm.history_inv
lemmas arm_history_traps = arm.history_traps
lemmas arm_history_returns = arm_ret.history_returns
lemmas la_history_inv = la.history_inv
lemmas la_history_traps = la.history_traps
lemmas la_history_returns = la_ret.history_returns

end

section \<open>Histories on the architectures\<close>

text \<open>The states that histories reach when clients probe at the sites, on each architecture.\<close>

definition x86_history ::
  "'k aux_ops \<Rightarrow> ('k \<Rightarrow> (space \<times> usize) set) \<Rightarrow> (space \<Rightarrow> usize set) \<Rightarrow> ('k \<Rightarrow> bool) \<Rightarrow> (u8 list \<Rightarrow> x86_inst option) \<Rightarrow> usize \<Rightarrow>
     X86PtRegs client \<Rightarrow> (space \<times> usize) set \<Rightarrow> 'k \<Rightarrow> ('k, X86ProbePoint) probe_sys \<Rightarrow> bool" where
  "x86_history F pages heap room decode trampoline C =
     probe_history (x86_arch F decode trampoline) F C pages heap room (x86_ilen decode) x86_stack x86_fixup"

definition rv64_history ::
  "'k aux_ops \<Rightarrow> ('k \<Rightarrow> (space \<times> usize) set) \<Rightarrow> (space \<Rightarrow> usize set) \<Rightarrow> ('k \<Rightarrow> bool) \<Rightarrow> usize \<Rightarrow>
     Rv64PtRegs client \<Rightarrow> (space \<times> usize) set \<Rightarrow> 'k \<Rightarrow> ('k, Rv64ProbePoint) probe_sys \<Rightarrow> bool" where
  "rv64_history F pages heap room trampoline C =
     probe_history (rv64_arch F trampoline) F C pages heap room rv64_ilen no_stack no_stack"

definition arm_history ::
  "'k aux_ops \<Rightarrow> ('k \<Rightarrow> (space \<times> usize) set) \<Rightarrow> (space \<Rightarrow> usize set) \<Rightarrow> ('k \<Rightarrow> bool) \<Rightarrow> usize \<Rightarrow>
     AArch64PtRegs client \<Rightarrow> (space \<times> usize) set \<Rightarrow> 'k \<Rightarrow> ('k, AArch64ProbePoint) probe_sys \<Rightarrow> bool" where
  "arm_history F pages heap room trampoline C =
     probe_history (arm_arch F trampoline) F C pages heap room arm_ilen no_stack no_stack"

definition la_history ::
  "'k aux_ops \<Rightarrow> ('k \<Rightarrow> (space \<times> usize) set) \<Rightarrow> (space \<Rightarrow> usize set) \<Rightarrow> ('k \<Rightarrow> bool) \<Rightarrow> usize \<Rightarrow>
     LA64PtRegs client \<Rightarrow> (space \<times> usize) set \<Rightarrow> 'k \<Rightarrow> ('k, LA64ProbePoint) probe_sys \<Rightarrow> bool" where
  "la_history F pages heap room trampoline C =
     probe_history (la_arch F trampoline) F C pages heap room la_ilen no_stack no_stack"

text \<open>Any further steps of clients and tasks.\<close>

definition x86_steps ::
  "'k aux_ops \<Rightarrow> ('k \<Rightarrow> (space \<times> usize) set) \<Rightarrow> (space \<Rightarrow> usize set) \<Rightarrow> ('k \<Rightarrow> bool) \<Rightarrow> (u8 list \<Rightarrow> x86_inst option) \<Rightarrow> usize \<Rightarrow>
     X86PtRegs client \<Rightarrow> (space \<times> usize) set \<Rightarrow> ('k, X86ProbePoint) probe_sys \<Rightarrow> ('k, X86ProbePoint) probe_sys \<Rightarrow> bool" where
  "x86_steps F pages heap room decode trampoline C sites =
     (history_step (x86_arch F decode trampoline) F C pages heap room (x86_ilen decode) x86_stack x86_fixup sites)\<^sup>*\<^sup>*"

definition rv64_steps ::
  "'k aux_ops \<Rightarrow> ('k \<Rightarrow> (space \<times> usize) set) \<Rightarrow> (space \<Rightarrow> usize set) \<Rightarrow> ('k \<Rightarrow> bool) \<Rightarrow> usize \<Rightarrow>
     Rv64PtRegs client \<Rightarrow> (space \<times> usize) set \<Rightarrow> ('k, Rv64ProbePoint) probe_sys \<Rightarrow> ('k, Rv64ProbePoint) probe_sys \<Rightarrow> bool" where
  "rv64_steps F pages heap room trampoline C sites =
     (history_step (rv64_arch F trampoline) F C pages heap room rv64_ilen no_stack no_stack sites)\<^sup>*\<^sup>*"

definition arm_steps ::
  "'k aux_ops \<Rightarrow> ('k \<Rightarrow> (space \<times> usize) set) \<Rightarrow> (space \<Rightarrow> usize set) \<Rightarrow> ('k \<Rightarrow> bool) \<Rightarrow> usize \<Rightarrow>
     AArch64PtRegs client \<Rightarrow> (space \<times> usize) set \<Rightarrow> ('k, AArch64ProbePoint) probe_sys \<Rightarrow> ('k, AArch64ProbePoint) probe_sys \<Rightarrow> bool" where
  "arm_steps F pages heap room trampoline C sites =
     (history_step (arm_arch F trampoline) F C pages heap room arm_ilen no_stack no_stack sites)\<^sup>*\<^sup>*"

definition la_steps ::
  "'k aux_ops \<Rightarrow> ('k \<Rightarrow> (space \<times> usize) set) \<Rightarrow> (space \<Rightarrow> usize set) \<Rightarrow> ('k \<Rightarrow> bool) \<Rightarrow> usize \<Rightarrow>
     LA64PtRegs client \<Rightarrow> (space \<times> usize) set \<Rightarrow> ('k, LA64ProbePoint) probe_sys \<Rightarrow> ('k, LA64ProbePoint) probe_sys \<Rightarrow> bool" where
  "la_steps F pages heap room trampoline C sites =
     (history_step (la_arch F trampoline) F C pages heap room la_ilen no_stack no_stack sites)\<^sup>*\<^sup>*"

lemmas history_defs = x86_history_def rv64_history_def arm_history_def la_history_def
lemmas steps_defs = x86_steps_def rv64_steps_def arm_steps_def la_steps_def

lemma keeps_no_stack [simp]: "keeps_stack no_stack C"
  by (simp add: keeps_stack_def)

lemma private_no_stack [simp]: "private_stack pages heap {} S"
  by (simp add: private_stack_def)

lemmas kernel_intro = probe_kernel.intro

end
