(* ===== verification/ProbeMain.thy ===== *)
theory ProbeMain
  imports ProbeKernel
begin

text \<open>
  The properties of the probe subsystem on its four architectures, and a small kernel that keeps the
  laws they rely on: sixteen pages for executable memory, a memory of constant bytes, and one task.
\<close>

section \<open>A kernel\<close>

record demo =
  dm_mem :: "space \<Rightarrow> usize \<Rightarrow> u8"
  dm_pages :: "(space \<times> usize) list"
  dm_tasks :: "RetprobeInstance list"

definition demo_page :: "nat \<Rightarrow> usize" where "demo_page n = of_nat (4096 * n)"

definition demo_slots :: "usize list" where "demo_slots = map demo_page [16..<32]"

definition demo_heap :: "space \<Rightarrow> usize set" where "demo_heap sp = {x. 65536 \<le> unat x \<and> unat x < 131072}"

definition demo_pages :: "demo \<Rightarrow> (space \<times> usize) set" where "demo_pages k = set (dm_pages k)"

definition demo_room :: "demo \<Rightarrow> bool" where
  "demo_room k \<longleftrightarrow> card (demo_pages k) < 16 \<and> snd ` demo_pages k \<subseteq> set demo_slots"

definition demo_write :: "demo \<Rightarrow> space \<Rightarrow> usize \<Rightarrow> u8 list \<Rightarrow> demo" where
  "demo_write k sp a bs =
     k\<lparr>dm_mem := \<lambda>s x. if s = sp \<and> unat (x - a) < length bs then bs ! unat (x - a) else dm_mem k s x\<rparr>"

definition demo_alloc :: "demo \<Rightarrow> space \<Rightarrow> usize \<times> demo" where
  "demo_alloc k sp =
     (let p = hd (filter (\<lambda>p. p \<notin> set (map snd (dm_pages k))) demo_slots) in (p, k\<lparr>dm_pages := (sp, p) # dm_pages k\<rparr>))"

definition demo_free :: "demo \<Rightarrow> space \<Rightarrow> usize \<Rightarrow> demo" where
  "demo_free k sp p = k\<lparr>dm_pages := filter (\<lambda>q. q \<noteq> (sp, p)) (dm_pages k)\<rparr>"

definition demo_ops :: "demo aux_ops" where
  "demo_ops =
     \<lparr>mem_read = dm_mem, mem_write = demo_write, alloc_kernel = \<lambda>k. demo_alloc k None,
      free_kernel = \<lambda>k. demo_free k None, alloc_box = \<lambda>k. demo_alloc k None, free_box = \<lambda>k. demo_free k None,
      alloc_user = \<lambda>k sp bs. let (p, k) = demo_alloc k sp in (p, demo_write k sp p (take 4096 bs)),
      free_user = demo_free, push_instance = \<lambda>k i. k\<lparr>dm_tasks := i # dm_tasks k\<rparr>,
      pop_instance = \<lambda>k. case dm_tasks k of [] \<Rightarrow> None | i # is \<Rightarrow> Some (i, k\<lparr>dm_tasks := is\<rparr>)\<rparr>"

lemma in_demo_page: "n < 32 \<Longrightarrow> x \<in> page (demo_page n) \<longleftrightarrow> 4096 * n \<le> unat x \<and> unat x < 4096 * n + 4096"
proof -
  assume "n < 32"
  then have n: "unat (of_nat (4096 * n) :: u64) = 4096 * n" by (intro unat_of_nat_small) simp
  have "unat x < 2 ^ 64" by (rule order_less_le_trans [OF unsigned_less]) simp
  then show ?thesis
    using \<open>n < 32\<close> unfolding in_region demo_page_def unat_sub_if' n by (auto split: if_splits)
qed

lemma demo_page_inj: "n < 32 \<Longrightarrow> m < 32 \<Longrightarrow> demo_page n = demo_page m \<Longrightarrow> n = m"
  using unat_of_nat_small [of "4096 * n"] unat_of_nat_small [of "4096 * m"] by (auto simp: demo_page_def)

lemma distinct_slots: "distinct demo_slots"
  unfolding demo_slots_def distinct_map by (intro conjI distinct_upt inj_onI demo_page_inj) (simp_all only: set_upt atLeastLessThan_iff)

lemma in_slots: "p \<in> set demo_slots \<longleftrightarrow> (\<exists>n. 16 \<le> n \<and> n < 32 \<and> p = demo_page n)"
  unfolding demo_slots_def set_map set_upt image_def by auto

lemma length_slots: "length demo_slots = 16"
  unfolding demo_slots_def length_map length_upt by simp

lemma demo_alloc_slot:
  assumes "demo_room k" "demo_alloc k sp = (p, k')"
  shows "p \<in> set demo_slots" "p \<notin> snd ` set (dm_pages k)" "k' = k\<lparr>dm_pages := (sp, p) # dm_pages k\<rparr>"
proof -
  let ?free = "filter (\<lambda>p. p \<notin> set (map snd (dm_pages k))) demo_slots"
  have "?free \<noteq> []"
  proof
    assume "?free = []"
    then have "set demo_slots \<subseteq> snd ` demo_pages k" by (auto simp: filter_empty_conv demo_pages_def)
    moreover have fin: "finite (demo_pages k)" by (simp add: demo_pages_def)
    ultimately have "card (set demo_slots) \<le> card (demo_pages k)"
      using card_mono [OF finite_imageI [OF fin]] card_image_le [OF fin] by (meson order_trans)
    then show False using assms(1) distinct_card [OF distinct_slots] by (simp add: demo_room_def length_slots)
  qed
  then have "hd ?free \<in> set ?free" by (rule hd_in_set)
  moreover have "p = hd ?free" "k' = k\<lparr>dm_pages := (sp, p) # dm_pages k\<rparr>" using assms(2) by (auto simp: demo_alloc_def Let_def)
  ultimately show "p \<in> set demo_slots" "p \<notin> snd ` set (dm_pages k)" "k' = k\<lparr>dm_pages := (sp, p) # dm_pages k\<rparr>" by auto
qed

lemma demo_fresh:
  assumes "demo_room k" "demo_alloc k sp = (p, k')"
    and "dm_pages k'' = dm_pages k'" "\<And>s x. \<not> (s = sp \<and> x \<in> page p) \<Longrightarrow> dm_mem k'' s x = dm_mem k s x"
  shows "fresh_page demo_ops demo_pages demo_heap k sp (p, k'')"
proof -
  note slot = demo_alloc_slot [OF assms(1,2)]
  obtain n where n: "16 \<le> n" "n < 32" "p = demo_page n" using slot(1) by (auto simp: in_slots)
  have "p \<noteq> 0" using in_demo_page [of n 0] n by (auto simp: region_def)
  moreover have "page p \<subseteq> demo_heap sp" using n in_demo_page [of n] by (auto simp: demo_heap_def)
  moreover have "page q \<inter> page p = {}" if q: "(s, q) \<in> set (dm_pages k)" for s q
  proof -
    have "q \<in> set demo_slots" using q assms(1) by (force simp: demo_room_def demo_pages_def)
    then obtain m where m: "m < 32" "q = demo_page m" by (auto simp: in_slots)
    have "m \<noteq> n" using q slot(2) n m by force
    then show ?thesis using in_demo_page [OF m(1)] in_demo_page [OF n(2)] m(2) n(3) by auto
  qed
  ultimately show ?thesis
    using slot(2,3) assms(3,4) unfolding fresh_page_def demo_pages_def by (force simp: demo_ops_def)
qed

lemma demo_aux_laws: "aux_laws demo_ops demo_pages demo_heap demo_room"
  unfolding aux_laws_def
proof (intro conjI allI impI)
  fix k sp a bs s x
  show "mem_read demo_ops (mem_write demo_ops k sp a bs) s x =
      (if s = sp \<and> unat (x - a) < length bs then bs ! unat (x - a) else mem_read demo_ops k s x)"
    by (simp add: demo_ops_def demo_write_def)
  show "demo_pages (mem_write demo_ops k sp a bs) = demo_pages k" by (simp add: demo_ops_def demo_write_def demo_pages_def)
next
  fix k :: demo assume room: "demo_room k"
  obtain p k' where p: "demo_alloc k None = (p, k')" by fastforce
  have "fresh_page demo_ops demo_pages demo_heap k None (p, k')"
    using demo_alloc_slot(3) [OF room p] by (intro demo_fresh [OF room p]) simp_all
  then show "fresh_page demo_ops demo_pages demo_heap k None (alloc_kernel demo_ops k)"
    "fresh_page demo_ops demo_pages demo_heap k None (alloc_box demo_ops k)" using p by (simp_all add: demo_ops_def)
next
  fix k :: demo and sp bs assume room: "demo_room k"
  obtain p k' where p: "demo_alloc k sp = (p, k')" by fastforce
  let ?k = "demo_write k' sp p (take 4096 bs)"
  have user: "alloc_user demo_ops k sp bs = (p, ?k)" using p by (simp add: demo_ops_def)
  have "fresh_page demo_ops demo_pages demo_heap k sp (p, ?k)"
    using demo_alloc_slot(3) [OF room p] by (intro demo_fresh [OF room p]) (auto simp: demo_write_def region_def)
  then show "fresh_page demo_ops demo_pages demo_heap k sp (alloc_user demo_ops k sp bs)" by (simp add: user)
  show "read_bytes demo_ops (snd (alloc_user demo_ops k sp bs)) sp (fst (alloc_user demo_ops k sp bs)) (length bs) = bs"
    if "length bs \<le> 4096"
  proof (rule nth_equalityI)
    fix i assume "i < length (read_bytes demo_ops (snd (alloc_user demo_ops k sp bs)) sp (fst (alloc_user demo_ops k sp bs)) (length bs))"
    then have "i < length bs" "i < 2 ^ 64" using that by auto
    then show "read_bytes demo_ops (snd (alloc_user demo_ops k sp bs)) sp (fst (alloc_user demo_ops k sp bs)) (length bs) ! i = bs ! i"
      using that unfolding user by (simp add: demo_ops_def demo_write_def unat_of_nat_small)
  qed simp
qed (auto simp: demo_ops_def demo_free_def freed_page_def demo_pages_def demo_room_def room_by_pages_def)

lemma demo_task_laws: "task_laws demo_ops demo_pages"
  by (auto simp: task_laws_def demo_ops_def demo_pages_def split: list.splits)

text \<open>A decoder that knows the breakpoint and a push.\<close>

fun demo_decode :: "u8 list \<Rightarrow> x86_inst option" where
  "demo_decode [] = None"
| "demo_decode (b # _) =
     (if b = 0xcc then Some \<lparr>xi_opcode = INT_op, xi_operands = [], xi_len = 1\<rparr>
      else if b = 0x55 then Some \<lparr>xi_opcode = OtherOpcode 0, xi_operands = [], xi_len = 1\<rparr>
      else None)"

lemma demo_decode_laws: "decode_laws demo_decode"
  unfolding decode_laws_def
proof (intro conjI allI impI)
  fix bs inst bs' assume d: "demo_decode bs = Some inst"
  then obtain b r where bs: "bs = b # r" "xi_len inst = 1" by (cases bs) (auto split: if_splits)
  then show "0 < xi_len inst" "xi_len inst \<le> 15" by simp_all
  assume "length bs' = length bs" "take (xi_len inst) bs' = take (xi_len inst) bs"
  then obtain r' where "bs' = b # r'" using bs by (cases bs') auto
  then show "demo_decode bs' = Some inst" using d bs by simp
qed (auto split: if_splits)

interpretation demo: probe_kernel demo_ops demo_pages demo_heap demo_room demo_decode "0x9000"
  by unfold_locales (rule demo_aux_laws demo_task_laws demo_decode_laws)+

section \<open>Histories of this kernel\<close>

definition demo0 :: demo where "demo0 = \<lparr>dm_mem = \<lambda>_ _. 0x55, dm_pages = [], dm_tasks = []\<rparr>"

definition demo_client :: "'r client" where "demo_client = \<lparr>cl_handler = \<lambda>_ _ r. r, cl_callback = \<lambda>_ r. r\<rparr>"

definition demo_builder :: ProbeBuilder where
  "demo_builder = with_enable True (with_pre_handler 7 (with_symbol_addr 0x1000 ProbeBuilder_new))"

definition demo_ret_builder :: RetprobeBuilder where
  "demo_ret_builder = ret_with_enable True (with_ret_handler 8 (ret_with_symbol_addr 0x1000 (RetprobeBuilder_new 1)))"

definition demo_x86 :: "(demo, X86ProbePoint, X86PtRegs) arch_ops" where "demo_x86 = x86_arch demo_ops demo_decode 0x9000"

definition demo_on :: "(demo, X86ProbePoint) probe_sys" where
  "demo_on = snd (register_kprobe demo_x86 (ProbeManager_new demo0) demo_builder)"

definition demo_off :: "(demo, X86ProbePoint) probe_sys" where "demo_off = unregister_kprobe demo_x86 demo_on 1"

definition demo_ret :: "(demo, X86ProbePoint) probe_sys" where
  "demo_ret = (case register_kretprobe demo_x86 (ProbeManager_new demo0) demo_ret_builder of Inr (_, S) \<Rightarrow> S)"

text \<open>The point of the probe, and the kernel with its slot and its breakpoint.\<close>

definition demo_point :: X86ProbePoint where
  "demo_point = \<lparr>xp_addr = 0x1000, xp_old_instruction_ptr = KernelMem 0x10000, xp_old_instruction_len = 1,
    xp_user_pid = None, xp_dynamic_user_ptr = 0\<rparr>"

definition demo1 :: demo where
  "demo1 = demo_write (copy_memory demo_ops (demo0\<lparr>dm_pages := [(None, 0x10000)]\<rparr>) 0x1000 0x10000 15 None) None 0x1000 [0xcc]"

lemma demo_pages1: "dm_pages demo1 = [(None, 0x10000)]"
  by (simp add: demo1_def demo_write_def copy_memory_def demo_ops_def)

lemma demo_slots_hd: "demo_slots = 0x10000 # map demo_page [17..<32]"
proof -
  have "[16..<32] = 16 # [17..<32::nat]" by (simp add: upt_rec)
  then show ?thesis unfolding demo_slots_def by (simp add: demo_page_def del: upt_Suc upt_conv_Cons)
qed

lemma demo_install:
  assumes "probe_addr b = 0x1000" "bd_user_pid b = None"
  shows "ar_replace_inst demo_x86 demo0 b = (Ok demo_point, demo1)"
proof -
  have "demo_alloc demo0 None = (0x10000, demo0\<lparr>dm_pages := [(None, 0x10000)]\<rparr>)"
    by (simp add: demo_alloc_def demo0_def demo_slots_hd)
  then have alloc: "alloc_exec_memory demo_ops demo0 None = (KernelMem 0x10000, demo0\<lparr>dm_pages := [(None, 0x10000)]\<rparr>)"
    by (simp add: alloc_exec_memory_def demo_ops_def)
  have upt: "[0..<15] = 0 # [1..<15::nat]" by (simp add: upt_rec)
  have "\<exists>r. read_bytes demo_ops (copy_memory demo_ops (demo0\<lparr>dm_pages := pg\<rparr>) 0x1000 0x10000 15 None) None 0x10000 15 = 0x55 # r" for pg
    by (simp add: read_bytes_def upt copy_memory_def demo_ops_def demo_write_def demo0_def)
  then obtain r where "read_bytes demo_ops (copy_memory demo_ops (demo0\<lparr>dm_pages := [(None, 0x10000)]\<rparr>) 0x1000 0x10000 15 None)
      None 0x10000 15 = 0x55 # r" by blast
  then show ?thesis
    using assms alloc
    by (simp add: demo_x86_def x86_arch_def x86_replace_inst_def MAX_INSTRUCTION_SIZE_def probe_addr_def
      x86_validate_instruction_def ok_or_def demo_point_def demo1_def demo_ops_def X86_EBREAK_INST_def)
qed

lemma demo_builder_fields:
  "client_builder demo_builder" "probe_addr demo_builder = 0x1000" "bd_user_pid demo_builder = None" "bd_probe_point demo_builder = None"
  "probe_addr (ProbeBuilder_from demo_ret_builder) = 0x1000" "bd_user_pid (ProbeBuilder_from demo_ret_builder) = None"
  "bd_probe_point (ProbeBuilder_from demo_ret_builder) = None"
  by (simp_all add: demo_builder_def client_builder_def client_probe_def ProbeBasic_from_def with_enable_def
    with_pre_handler_def with_symbol_addr_def ProbeBuilder_new_def probe_addr_def demo_ret_builder_def ProbeBuilder_from_def
    ret_with_enable_def with_ret_handler_def ret_with_symbol_addr_def RetprobeBuilder_new_def)

lemma demo_x86_fields [simp]:
  "ar_break_address demo_x86 = xp_addr" "ar_debug_address demo_x86 = x86_debug_address"
  "ar_drop_point demo_x86 = x86_drop_point demo_ops" "ar_reg_break_address demo_x86 = x86_break_address"
  by (simp_all add: demo_x86_def x86_arch_def)

lemma demo_point_fields [simp]: "xp_addr demo_point = 0x1000" "x86_debug_address demo_point = 0x10001"
  by (simp_all add: demo_point_def x86_debug_address_def)

text \<open>Registration on a fresh manager.\<close>

definition demo_state :: "probe_obj \<Rightarrow> UniProbe \<Rightarrow> (demo, X86ProbePoint) probe_sys" where
  "demo_state ob u =
     \<lparr>ps_kernel = demo1, ps_points = [(0, demo_point)], ps_objs = [(1, ob)], ps_next = 2, ps_handles = [1],
      ps_break_list = [(0x1000, [u])], ps_debug_list = [(0x10001, [u])], ps_point_list = [(0x1000, 0)]\<rparr>"

lemma demo_inner:
  assumes "probe_addr b = 0x1000" "bd_user_pid b = None" "bd_probe_point b = None"
  shows "register_kprobe_inner demo_x86 (ProbeManager_new demo0) b =
    (Ok \<lparr>pr_basic = ProbeBasic_from b, pr_point = 0\<rparr>,
     \<lparr>ps_kernel = demo1, ps_points = [(0, demo_point)], ps_objs = [], ps_next = 1, ps_handles = [],
      ps_break_list = [], ps_debug_list = [], ps_point_list = [(0x1000, 0)]\<rparr>)"
  using demo_install [OF assms(1,2)] assms
  by (simp add: register_kprobe_inner_def install_def ProbeManager_new_def)

lemma demo_on_state: "demo_on = demo_state (ProbeObj \<lparr>pr_basic = ProbeBasic_from demo_builder, pr_point = 0\<rparr>) (Kprobe 1)"
  using demo_inner [of demo_builder]
  by (simp add: demo_builder_fields demo_on_def register_kprobe_def new_obj_def insert_probe_def probe_point_def
    obj_point_def insert_point_def list_at_def demo_state_def)

lemma demo_ret_state: "demo_ret = demo_state (ret_obj demo_ret_builder 1 0) (Kretprobe 1)"
  unfolding demo_ret_def register_kretprobe_cases [OF demo_inner [OF demo_builder_fields(5-7)]]
  by (simp add: new_obj_def insert_probe_def probe_point_def obj_point_def insert_point_def list_at_def demo_state_def
    ret_obj_def Retprobe_new_def)

lemma demo_off_state: "ps_handles demo_off = []" "ps_break_list demo_off = []"
  by (simp_all add: demo_off_def demo_on_state demo_state_def unregister_kprobe_def unregister_probe_def remove_probe_def
    release_obj_def release_point_def probe_point_def obj_point_def remove_one_def list_at_def listed_def kprobe_num_def
    bt_remove_def)

section \<open>Reachability\<close>

definition demo_sites :: "(space \<times> usize) set" where "demo_sites = {(None, 0x1000)}"

lemma demo_sites_ok: "sites_ok demo_heap (x86_ilen demo_decode) (mem_read demo_ops demo0) demo_sites"
proof -
  have "x \<notin> demo_heap s" if "x \<in> region 0x1000 15" for x s
  proof -
    have "unat x < 2 ^ 64" by (rule order_less_le_trans [OF unsigned_less]) simp
    then show ?thesis using that by (auto simp: in_region unat_sub_if' demo_heap_def split: if_splits)
  qed
  moreover have "x86_ilen demo_decode (mem_read demo_ops demo0 None) 0x1000 = Some 1"
    by (simp add: x86_ilen_def bytes_at_def MAX_INSTRUCTION_SIZE_def upt_rec demo_ops_def demo0_def x86_validate_instruction_def)
  ultimately show ?thesis by (auto simp: sites_ok_def demo_sites_def)
qed

lemma demo_request:
  assumes "probe_addr b = 0x1000" "bd_user_pid b = None"
  shows "request_ok demo_ops demo_heap demo_room (x86_ilen demo_decode) demo_sites (ProbeManager_new demo0) b"
  using assms demo_sites_ok
  by (simp add: request_ok_def demo_sites_def ProbeManager_new_def demo_room_def demo_pages_def demo0_def sites_ok_def)

text \<open>Every first step is a history, and so is what follows it.\<close>

abbreviation demo_history :: "(demo, X86ProbePoint) probe_sys \<Rightarrow> bool" where
  "demo_history \<equiv> x86_history demo_ops demo_pages demo_heap demo_room demo_decode 0x9000 demo_client demo_sites demo0"

abbreviation demo_step :: "(demo, X86ProbePoint) probe_sys \<Rightarrow> (demo, X86ProbePoint) probe_sys \<Rightarrow> bool" where
  "demo_step \<equiv> history_step demo_x86 demo_ops demo_client demo_pages demo_heap demo_room (x86_ilen demo_decode)
     x86_stack x86_fixup demo_sites"

lemma demo_histories:
  "demo_step (ProbeManager_new demo0) S \<Longrightarrow> demo_history S"
  "demo_history S \<Longrightarrow> demo_step S S' \<Longrightarrow> demo_history S'"
  using demo_sites_ok by (auto simp: x86_history_def probe_history_def demo_x86_def)

lemma demo_on_history: "demo_history demo_on"
proof (rule demo_histories(1), unfold history_step_def, rule RegisterKprobe)
  show "client_builder demo_builder" "request_ok demo_ops demo_heap demo_room (x86_ilen demo_decode) demo_sites (ProbeManager_new demo0) demo_builder"
    using demo_request demo_builder_fields by simp_all
  show "register_kprobe demo_x86 (ProbeManager_new demo0) demo_builder =
      (fst (register_kprobe demo_x86 (ProbeManager_new demo0) demo_builder), demo_on)" by (simp add: demo_on_def)
qed

lemma demo_off_history: "demo_history demo_off"
proof (rule demo_histories(2) [OF demo_on_history], unfold history_step_def, rule Unregister)
  show "1 \<in> set (ps_handles demo_on)" by (simp add: demo_on_state demo_state_def)
  show "demo_off \<in> {unregister_kprobe demo_x86 demo_on 1, unregister_kretprobe demo_x86 demo_on 1, unregister_uprobe demo_x86 demo_on 1}"
    unfolding demo_off_def by (rule insertI1)
qed

lemma demo_ret_history: "demo_history demo_ret"
proof (rule demo_histories(1), unfold history_step_def, rule RegisterKretprobe)
  show "request_ok demo_ops demo_heap demo_room (x86_ilen demo_decode) demo_sites (ProbeManager_new demo0)
      (ProbeBuilder_from demo_ret_builder)" by (rule demo_request [OF demo_builder_fields(5,6)])
  show "register_kretprobe demo_x86 (ProbeManager_new demo0) demo_ret_builder = Ok (Ok 1, demo_ret)"
    using register_kretprobe_cases [OF demo_inner [OF demo_builder_fields(5-7)]] by (simp add: demo_ret_def)
qed

text \<open>A task at the breakpoint, with its stack above the slot.\<close>

definition demo_regs :: X86PtRegs where
  "demo_regs = \<lparr>r15 = 0, r14 = 0, r13 = 0, r12 = 0, rbp = 0, rbx = 0, r11 = 0, r10 = 0, r9 = 0, r8 = 0, rax = 0, rcx = 0,
     rdx = 0, rsi = 0, rdi = 0, orig_rax = 0, rip = 0x1001, cs = 0, rflags = 0, rsp = 0x1f000, ss = 0\<rparr>"

lemma demo_stack: "private_stack demo_pages demo_heap (x86_stack demo_regs) (demo_state ob u)"
proof -
  have "16 * 4096 + 4096 \<le> unat x \<and> unat x < 131072" if "x \<in> region 0x1f000 8" for x :: usize
  proof -
    have "unat x < 2 ^ 64" by (rule order_less_le_trans [OF unsigned_less]) simp
    then show ?thesis using that by (auto simp: in_region unat_sub_if' split: if_splits)
  qed
  moreover have "demo_page 16 = 0x10000" by (simp add: demo_page_def)
  then have "x \<in> page 0x10000 \<Longrightarrow> unat x < 16 * 4096 + 4096" for x using in_demo_page [of 16 x] by simp
  ultimately show ?thesis
    by (fastforce simp: private_stack_def x86_stack_def demo_regs_def demo_heap_def demo_pages_def demo_state_def demo_pages1)
qed

lemma demo_start: "pages_ok demo_pages demo_heap demo0" "keeps_stack x86_stack demo_client"
  by (simp_all add: pages_ok_def demo_pages_def demo0_def keeps_stack_def demo_client_def)

section \<open>Properties\<close>







end
