(* ===== verification/Spec2Isabelle.thy ===== *)
theory Spec2Isabelle
  imports TpGlob TpEval DdebugPrint KsymExample BpfHash BpfArray BpfQueue BpfLru RingRecords PerfRing HelperCalls BpfAttr TraceEvents ProbeMain
begin

text \<open>
  A verification library for the tracing crates of the repository: event filters (\<open>tp-lexer\<close>),
  tracepoints and the trace pipe (\<open>ktracepoint\<close>), dynamic debug messages (\<open>ddebug\<close>), kernel symbols
  (\<open>ksym\<close>), BPF maps, ring buffers and programs (\<open>bpf-basic\<close>), and kernel and user probes
  (\<open>kprobe\<close>). The crates are libraries that a kernel links; what the kernel supplies through a trait
  is a record of functions in the model, with the laws that the code relies on as hypotheses.

  \<^bold>\<open>How the parts interact.\<close> A tracepoint (\<open>ktracepoint\<close>) compiles the text written to its filter
  file with \<open>tp-lexer\<close>, evaluates the compiled filter on the bytes of each hit and pushes the entry
  to the trace pipe. A dynamic debug site is a tracepoint with a print flag and a control file. A
  probe (\<open>kprobe\<close>) patches an instruction and calls handlers and callbacks; a callback typically runs
  a BPF program, whose map references \<open>bpf-basic\<close> relocates before it is loaded, which calls the
  helpers, and whose maps and ring buffers user space reads through the map commands. \<open>ksym\<close> resolves the names of symbols to
  the addresses that probes are placed at.

  \<^bold>\<open>Conventions.\<close> Results are \<open>Ok\<close> and \<open>Err\<close> of the type \<open>result\<close>; a panic (an index out of range,
  an \<open>unwrap\<close> of nothing, a failed assertion, an overflow that the code checks) is an error value of
  type \<open>panic\<close>, or a constructor of the component's error type. Machine integers are words;
  their arithmetic wraps, as in release builds. Text is a list of bytes, UTF-8 is a predicate on it. A
  \<open>BTreeMap\<close> is an association list in the order of its keys (\<open>BTreeMap\<close>). Locks make each operation
  one step; interleavings are lists or relations of such steps.

  \<^bold>\<open>Shared theories.\<close> \<open>Prelude\<close> has the named collections and the generic facts on lists, words and
  results, \<open>RustText\<close> what the code uses of Rust's text and integer functions (trimming, parsing of
  integers, UTF-8, formatting), \<open>BTreeMap\<close> the ordered maps, \<open>RingMem\<close> the byte memory of ring
  buffers.

  \<^bold>\<open>Event filters, \<open>tp-lexer/src/lib.rs\<close> and \<open>tp-lexer/src/internal.rs\<close>.\<close>
  \<^item> \<open>TpGlob\<close>: \<open>glob_match_bytes\<close> and its character classes, equal to the language of the pattern.
  \<^item> \<open>TpLexer\<close>: \<open>Lexer\<close> with its position in the input; a token lies where it was read, and the lexer
    stays at character boundaries.
  \<^item> \<open>TpParser\<close>: the recursive descent of \<open>Parser\<close>. The functions recurse on a fuel that bounds the
    remaining tokens; \<open>parse_expr_returns\<close> shows that the fuel chosen from the length of the input is
    never used up.
  \<^item> \<open>TpField\<close>: \<open>IntegerToI64\<close> and the classification of field types; integers are read back.
  \<^item> \<open>TpEval\<close>: \<open>Schema\<close>, \<open>Context\<close>, \<open>compile_with_schema\<close>, \<open>validate\<close> and \<open>eval_expr\<close> with the three
    truth values; compilation accepts exactly the well-typed filters, and evaluation is the meaning
    of the expression. The locale there states what evaluation needs of a context; both contexts of
    the code interpret it.

  \<^bold>\<open>Dynamic debug, \<open>ddebug/src\<close>.\<close> \<open>DdebugRuntime\<close> has the sites, flags and the printing of a message,
  \<open>DdebugControl\<close> the tokens, selectors and commands of the control file and its write, which is all
  or nothing and after which a site prints exactly when its flag is set, \<open>DdebugPrint\<close> that commands
  survive printing and parsing.

  \<^bold>\<open>Kernel symbols, \<open>ksym/src\<close>.\<close> \<open>Ksym\<close> is the table of \<open>ksym/src/lib.rs\<close> with its binary searches,
  \<open>KsymLookup\<close> their correctness, \<open>KsymGen\<close> the generator of \<open>ksym/src/bin/gen_ksym.rs\<close>,
  \<open>KsymRoundtrip\<close> the blob format, \<open>KsymCompress\<close> that a generated table finds every symbol and dumps
  them in order, and \<open>KsymExample\<close> a table on which the properties are applied. The iteration order
  of the generator's hash map is a parameter.

  \<^bold>\<open>BPF maps, \<open>bpf-basic/src/map\<close>.\<close> \<open>BpfMap\<close> states the interface \<open>BpfMapCommonOps\<close> as locales of
  maps with a bounded capacity; \<open>BpfHash\<close>, \<open>BpfArray\<close>, \<open>BpfLru\<close> and \<open>BpfQueue\<close> implement it and refine
  abstract maps, arrays and queues. \<open>BpfPerCpu\<close> has the maps per CPU and that the CPUs do not
  interfere, \<open>BpfUnified\<close> the creation of maps from \<open>bpf_attr\<close> and the dispatch over the kinds,
  \<open>BpfObjSafe\<close> and \<open>BpfSyscall\<close> the map commands of the system call, which never panic and keep every
  map's invariant.

  \<^bold>\<open>Ring buffers and programs.\<close> \<open>RingBuf\<close> is the ring buffer of \<open>map/stream/ringbuf.rs\<close> with its
  mirrored pages; \<open>RingRecords\<close> shows that producers and the consumer exchange whole records in
  order. \<open>PerfRing\<close> is the perf page of \<open>perf/bpf.rs\<close>, with lost records accounted for.
  \<open>BpfPreprocess\<close> is the relocation of map descriptors in \<open>preprocessor.rs\<close>, \<open>BpfAttr\<close> what the system
  calls read for programs, raw tracepoints and perf events (\<open>prog/mod.rs\<close>, \<open>raw_tracepoint.rs\<close>,
  \<open>perf/util.rs\<close>).

  \<^bold>\<open>Helpers, \<open>bpf-basic/src/helper\<close>.\<close> \<open>BpfHelper\<close> has every function of the helper table, with the
  registers, the program's memory and the maps of the map commands as one state. A map is reached
  by its address as \<open>get_unified_map_from_ptr\<close> does; the address of a value is modelled by the value.
  \<open>BpfProgram\<close> is the step relation \<open>prog_run\<close> of programs, user space and consumers of ring buffers
  and its invariant; \<open>HelperCalls\<close> has the properties: nothing panics, a relocated map reference
  leads to the map that user space updates, samples are committed once, strings are terminated.
  What the verifier guarantees of a call is the predicate \<open>verified\<close>.

  \<^bold>\<open>Tracepoints, \<open>ktracepoint/src\<close>.\<close> \<open>TracePipe\<close> has the record buffer and the cache of command names
  (the \<open>lru\<close> crate is a parameter), \<open>TracePoint\<close> the callbacks, the files and the functions that
  \<open>define_event_trace!\<close> generates; the records in the pipe are those of the hits that were enabled
  and that the filter accepted. \<open>TraceEvents\<close> has \<open>global_init_events\<close>, the parser of recorded events
  and the format file; what a registered tracepoint records is parsed back to it, as long as its
  id fits the 16 bits of the header.

  \<^bold>\<open>Probes, \<open>kprobe/src\<close>.\<close>
  \<^item> \<open>ProbeTypes\<close>: builders, probes and the operations of the kernel (\<open>arch/mod.rs\<close>,
    \<open>arch/retprobe.rs\<close>, \<open>lib.rs\<close>). An object behind an \<open>Arc\<close> has a number; so do functions and data of
    the client.
  \<^item> \<open>ProbeManager\<close>: the lists of \<open>manager.rs\<close>, registration and removal (\<open>kprobe/mod.rs\<close>,
    \<open>uprobe/mod.rs\<close>, \<open>lib.rs\<close>); the last reference to a point runs its \<open>Drop\<close>.
  \<^item> \<open>ProbeTraps\<close>: the trap handlers, \<open>pre_handler_kretprobe\<close> and \<open>rethook_trampoline_handler\<close>.
  \<^item> \<open>ProbeX86\<close>, \<open>ProbeRv64\<close>, \<open>ProbeArm64\<close>, \<open>ProbeLa64\<close>: the four architectures. Each gives a record
    \<open>arch_ops\<close>; the decoder of x86 instructions is a parameter.
  \<^item> \<open>ProbeLaws\<close>: the laws of the kernel's memory (\<open>aux_laws\<close>) and of its tasks (\<open>task_laws\<close>), and the
    contract of an architecture, the locale \<open>probe_arch\<close>, which \<open>ProbeArchs\<close> proves for all four.
  \<^item> \<open>ProbeInv\<close> and \<open>ProbeRefs\<close>: the invariant of the memory and of the references in that locale,
    \<open>ProbeKinds\<close> and \<open>ProbeCalls\<close> what handlers call and change (locale \<open>probe_hooks\<close>), \<open>ProbeReturn\<close>
    the return hooks (locale \<open>return_hooks\<close>), \<open>ProbeRun\<close> the step relation of clients and tasks and
    the invariant over its histories (locale \<open>probe_run\<close>).
  \<^item> \<open>ProbeKernel\<close>: a kernel with the laws as the locale \<open>probe_kernel\<close>, and each architecture as a
    sublocale; \<open>ProbeMain\<close>: the properties for all four, and a small kernel that interprets the
    locale.
  The histories have kernel probes, return probes and user probes that are registered and removed,
  and the traps of kernel probes; the trap of a user probe moves its slot to a page of the process
  and is modelled (\<open>uprobe_handler_from_break\<close>) but not part of the histories, since lists keyed by
  the address alone do not keep the pages of two processes apart.

  \<^bold>\<open>Bounds.\<close> Loops are structural or have a measure, except for the parser's fuel above. Sizes that
  the code computes in 32 or 64 bits are words, and where a product may wrap the property says so
  (\<open>array_lookup_safe_iff\<close>).

  \<^bold>\<open>Not modelled.\<close>
  \<^item> \<open>bpf-basic/src/linux_bpf.rs\<close> is the output of bindgen: structures and constants of Linux. The few
    that the code reads are in the model.
  \<^item> The trampolines are naked assembly; the model starts at the function they call, with the saved
    registers, and ends with the value it returns.
  \<^item> A callback of \<open>bpf_for_each_map_elem\<close> works on memory and not on other maps, and a program's
    stores through the address of a value are not reflected in the map.
  \<^item> \<open>printf_compat\<close>, \<open>lru\<close>, \<open>static_keys\<close> and \<open>yaxpeax\<close> are crates outside the repository and parameters.
  \<^item> Formatting for \<open>Debug\<close>, logging, reading standard input in \<open>gen_ksym\<close>, the casts of \<open>ktracepoint/src/ptr.rs\<close>,
    tests and examples.
\<close>

end
